(* ===== verification/Prelude.thy ===== *)
theory Prelude
  imports Main "HOL-Library.Word" "HOL-Library.Char_ord" "HOL-Library.List_Lexorder"
begin

text \<open>
  Shared vocabulary of the development.

  \<^item> bytes: a Rust \<^verbatim>\<open>u8\<close> is a \<^typ>\<open>char\<close> (a character of HOL is eight bits), a
    \<^verbatim>\<open>Vec<u8>\<close>, \<^verbatim>\<open>&[u8]\<close> or \<^verbatim>\<open>String\<close> is a list of them;
  \<^item> results: \<open>Ok\<close>, \<open>Err\<close> of an errno, and \<open>Abort\<close> for an execution that does not
    return to its caller (an index out of range panics, a loop does not end);
  \<^item> \<^verbatim>\<open>BTreeMap\<close>: an association list in strictly increasing key order, with the
    interface \<open>btree_map\<close> and its interpretation;
  \<^item> the slice operations of the standard library that the sources use.
\<close>

section \<open>Proof collections\<close>

named_theorems res_simps \<open>rewriting of results and of the walk monad\<close>
named_theorems vc \<open>syntax-directed rules for res_ok, the verification conditions of a body\<close>

section \<open>Bytes\<close>

type_synonym byte = char
type_synonym bytes = "char list"

text \<open>Unsigned machine integers: arithmetic on them wraps around.\<close>

type_synonym u8 = "8 word"
type_synonym u16 = "16 word"
type_synonym u32 = "32 word"
type_synonym u64 = "64 word"

abbreviation slash :: byte where
  "slash \<equiv> CHR ''/''"

abbreviation nul :: byte where
  "nul \<equiv> CHR 0x00"

section \<open>Results\<close>

text \<open>
  An errno is kept by name: its number differs between the platforms the program supports,
  and the code compares errnos only with the names of \<^verbatim>\<open>libc\<close>, which are distinct
  numbers on each of them. \<open>E_OK\<close> is the 0 of a call that succeeded, \<open>ERaw\<close> any other
  number.
\<close>

datatype errno =
    E_OK
  | EPERM | ENOENT | EIO | ENXIO | EBADF | EACCES | EBUSY | EEXIST | EXDEV | ENOTDIR
  | EISDIR | EINVAL | ERANGE | ENAMETOOLONG | ENOSYS | ENOTEMPTY | ELOOP | EOPNOTSUPP
  | ENOTSOCK | EADDRINUSE | ECONNREFUSED
  | ERaw int

datatype abort = Panic | Diverge

datatype 'a res = Ok 'a | Err errno | Abort abort

fun bind_res :: "'a res \<Rightarrow> ('a \<Rightarrow> 'b res) \<Rightarrow> 'b res" where
  "bind_res (Ok a) f = f a"
| "bind_res (Err e) f = Err e"
| "bind_res (Abort x) f = Abort x"

text \<open>A result that is not an abort, and whose value satisfies a predicate if it has one.\<close>

fun res_ok :: "('a \<Rightarrow> bool) \<Rightarrow> 'a res \<Rightarrow> bool" where
  "res_ok P (Ok a) = P a"
| "res_ok P (Err e) = True"
| "res_ok P (Abort x) = False"

lemma bind_res_cong [fundef_cong]:
  "r = r' \<Longrightarrow> (\<And>a. r' = Ok a \<Longrightarrow> f a = f' a) \<Longrightarrow> bind_res r f = bind_res r' f'"
  by (cases r') auto

lemma bind_res_Ok_iff [res_simps]: "bind_res r f = Ok b \<longleftrightarrow> (\<exists>a. r = Ok a \<and> f a = Ok b)"
  by (cases r) auto

lemma bind_res_Err_iff [res_simps]:
  "bind_res r f = Err e \<longleftrightarrow> r = Err e \<or> (\<exists>a. r = Ok a \<and> f a = Err e)"
  by (cases r) auto

lemma bind_res_split:
  "P (bind_res r f) \<longleftrightarrow>
     (\<forall>a. r = Ok a \<longrightarrow> P (f a)) \<and> (\<forall>e. r = Err e \<longrightarrow> P (Err e)) \<and>
     (\<forall>x. r = Abort x \<longrightarrow> P (Abort x))"
  by (cases r) auto

lemma res_okI:
  "(\<And>a. r = Ok a \<Longrightarrow> P a) \<Longrightarrow> (\<And>x. r \<noteq> Abort x) \<Longrightarrow> res_ok P r"
  by (cases r) auto

lemma res_ok_OkD: "res_ok P r \<Longrightarrow> r = Ok a \<Longrightarrow> P a"
  by simp

lemma res_ok_mono: "res_ok P r \<Longrightarrow> (\<And>a. P a \<Longrightarrow> Q a) \<Longrightarrow> res_ok Q r"
  by (cases r) auto

lemma res_ok_bind:
  "res_ok P r \<Longrightarrow> (\<And>a. P a \<Longrightarrow> r = Ok a \<Longrightarrow> res_ok Q (f a)) \<Longrightarrow> res_ok Q (bind_res r f)"
  by (cases r) auto

text \<open>
  A weakest-precondition calculus over \<open>res_ok\<close>: the rules in \<open>vc\<close> follow the syntax of a
  body, so that \<open>intro vc\<close> reduces a claim about it to the claims about its leaves. The
  components add a rule for each operation they provide.
\<close>

lemma vc_Ok [vc]: "Q a \<Longrightarrow> res_ok Q (Ok a)"
  by simp

lemma vc_Err [vc]: "res_ok Q (Err e)"
  by simp

lemma vc_bind_Ok [vc]: "res_ok Q (f a) \<Longrightarrow> res_ok Q (bind_res (Ok a) f)"
  by simp

lemma vc_bind_Err [vc]: "res_ok Q (bind_res (Err e) f)"
  by simp

lemma vc_bind_assoc [vc]:
  "res_ok Q (bind_res r (\<lambda>x. bind_res (g x) f)) \<Longrightarrow> res_ok Q (bind_res (bind_res r g) f)"
  by (cases r) simp_all

lemma vc_if [vc]:
  "(c \<Longrightarrow> res_ok Q a) \<Longrightarrow> (\<not> c \<Longrightarrow> res_ok Q b) \<Longrightarrow> res_ok Q (if c then a else b)"
  by simp

lemma vc_bind_if [vc]:
  "(c \<Longrightarrow> res_ok Q (bind_res a f)) \<Longrightarrow> (\<not> c \<Longrightarrow> res_ok Q (bind_res b f)) \<Longrightarrow>
     res_ok Q (bind_res (if c then a else b) f)"
  by simp

lemma vc_prod [vc]: "res_ok Q (g a b) \<Longrightarrow> res_ok Q (case (a, b) of (x, y) \<Rightarrow> g x y)"
  by simp

lemma vc_bind_prod [vc]:
  "res_ok Q (bind_res (g a b) f) \<Longrightarrow> res_ok Q (bind_res (case (a, b) of (x, y) \<Rightarrow> g x y) f)"
  by simp

lemma vc_option [vc]:
  "(r = None \<Longrightarrow> res_ok Q a) \<Longrightarrow> (\<And>x. r = Some x \<Longrightarrow> res_ok Q (b x)) \<Longrightarrow>
     res_ok Q (case r of None \<Rightarrow> a | Some x \<Rightarrow> b x)"
  by (cases r) simp_all

lemma vc_bind_option [vc]:
  "(r = None \<Longrightarrow> res_ok Q (bind_res a f)) \<Longrightarrow>
     (\<And>x. r = Some x \<Longrightarrow> res_ok Q (bind_res (b x) f)) \<Longrightarrow>
     res_ok Q (bind_res (case r of None \<Rightarrow> a | Some x \<Rightarrow> b x) f)"
  by (cases r) simp_all

lemma vc_let [vc]: "res_ok Q (f a) \<Longrightarrow> res_ok Q (let x = a in f x)"
  by simp

lemma res_ok_case:
  assumes "res_ok P r" and "\<And>a. P a \<Longrightarrow> r = Ok a \<Longrightarrow> res_ok Q (f a)" and "\<And>e. r = Err e \<Longrightarrow> res_ok Q (g e)"
  shows "res_ok Q (case r of Ok a \<Rightarrow> f a | Err e \<Rightarrow> g e | Abort x \<Rightarrow> h x)"
  using assms by (cases r) simp_all

lemma res_ok_cases [consumes 1, case_names Ok Err]:
  assumes "res_ok P r"
  obtains a where "r = Ok a" and "P a" | e where "r = Err e"
  using assms by (cases r) auto

section \<open>Slices\<close>

text \<open>\<^verbatim>\<open>[T]::split(|b| b == c)\<close>: never empty, one element more than separators.\<close>

fun split_on :: "'a \<Rightarrow> 'a list \<Rightarrow> 'a list list" where
  "split_on c [] = [[]]"
| "split_on c (x # xs) =
     (if x = c then [] # split_on c xs
      else (case split_on c xs of
              [] \<Rightarrow> [[x]]
            | y # ys \<Rightarrow> (x # y) # ys))"

text \<open>\<^verbatim>\<open>iter().rposition(|b| b == c)\<close>: the index of the last occurrence.\<close>

fun rposition :: "'a \<Rightarrow> 'a list \<Rightarrow> nat option" where
  "rposition c [] = None"
| "rposition c (x # xs) =
     (case rposition c xs of
        Some i \<Rightarrow> Some (Suc i)
      | None \<Rightarrow> (if x = c then Some 0 else None))"

text \<open>\<^verbatim>\<open>starts_with\<close>, \<^verbatim>\<open>ends_with\<close> and \<^verbatim>\<open>strip_prefix\<close>.\<close>

fun starts_with :: "'a list \<Rightarrow> 'a list \<Rightarrow> bool" where
  "starts_with xs [] = True"
| "starts_with [] (p # ps) = False"
| "starts_with (x # xs) (p # ps) = (x = p \<and> starts_with xs ps)"

definition ends_with :: "'a list \<Rightarrow> 'a list \<Rightarrow> bool" where
  "ends_with xs ps = starts_with (rev xs) (rev ps)"

definition strip_prefix :: "'a list \<Rightarrow> 'a list \<Rightarrow> 'a list option" where
  "strip_prefix xs p = (if starts_with xs p then Some (drop (length p) xs) else None)"

text \<open>Dropping every trailing occurrence of a byte, as a loop over the end index does.\<close>

definition trim_end :: "'a \<Rightarrow> 'a list \<Rightarrow> 'a list" where
  "trim_end c xs = rev (dropWhile (\<lambda>x. x = c) (rev xs))"

text \<open>\<^verbatim>\<open>u8::to_ascii_lowercase\<close>.\<close>

definition to_ascii_lowercase :: "byte \<Rightarrow> byte" where
  "to_ascii_lowercase c =
     (let n = (of_char c :: nat)
      in if 65 \<le> n \<and> n \<le> 90 then char_of (n + 32) else c)"

subsection \<open>Lemmas on slices\<close>

lemma split_on_not_Nil [simp]: "split_on c xs \<noteq> []"
  by (induction xs) (auto split: list.splits)

lemma split_on_no_sep: "c \<notin> set xs \<Longrightarrow> split_on c xs = [xs]"
  by (induction xs) auto

lemma split_on_append_sep: "split_on c (xs @ c # ys) = split_on c xs @ split_on c ys"
proof (induction xs)
  case Nil
  then show ?case by simp
next
  case (Cons x xs)
  then show ?case by (auto simp: Cons_eq_append_conv split: list.splits)
qed

lemma split_on_elem_no_sep: "p \<in> set (split_on c xs) \<Longrightarrow> c \<notin> set p"
proof (induction xs arbitrary: p)
  case Nil
  then show ?case by simp
next
  case (Cons x xs)
  obtain y ys where s: "split_on c xs = y # ys"
    by (cases "split_on c xs") auto
  from Cons.IH s have "\<And>q. q \<in> set (y # ys) \<Longrightarrow> c \<notin> set q" by simp
  with Cons.prems s show ?case by (auto split: if_splits)
qed

lemma split_on_elem_length: "p \<in> set (split_on c xs) \<Longrightarrow> length p \<le> length xs"
proof (induction xs arbitrary: p)
  case Nil
  then show ?case by simp
next
  case (Cons x xs)
  obtain y ys where s: "split_on c xs = y # ys"
    by (cases "split_on c xs") auto
  from Cons.IH s have "\<And>q. q \<in> set (y # ys) \<Longrightarrow> length q \<le> length xs" by simp
  with Cons.prems s show ?case by (force split: if_splits)
qed

lemma starts_with_iff: "starts_with xs p \<longleftrightarrow> (\<exists>r. xs = p @ r)"
  by (induction xs p rule: starts_with.induct) auto

lemma strip_prefix_Some: "strip_prefix xs p = Some r \<longleftrightarrow> xs = p @ r"
  by (auto simp: strip_prefix_def starts_with_iff)

lemma ends_with_iff: "ends_with xs p \<longleftrightarrow> (\<exists>r. xs = r @ p)"
proof -
  have "ends_with xs p \<longleftrightarrow> (\<exists>r. rev xs = rev p @ r)"
    by (simp add: ends_with_def starts_with_iff)
  also have "\<dots> \<longleftrightarrow> (\<exists>r. xs = r @ p)"
    by (metis rev_append rev_rev_ident)
  finally show ?thesis .
qed

lemma rposition_None: "rposition c xs = None \<longleftrightarrow> c \<notin> set xs"
  by (induction xs) (auto split: option.splits)

lemma rposition_Some:
  "rposition c xs = Some i \<Longrightarrow>
     i < length xs \<and> xs ! i = c \<and> c \<notin> set (drop (Suc i) xs)"
  by (induction xs arbitrary: i) (auto simp: rposition_None split: option.splits if_splits)

lemma rposition_append_sep: "c \<notin> set ys \<Longrightarrow> rposition c (xs @ c # ys) = Some (length xs)"
  by (induction xs) (auto simp: rposition_None split: option.splits)

lemma trim_end_last: "trim_end c xs \<noteq> [] \<Longrightarrow> last (trim_end c xs) \<noteq> c"
  using hd_dropWhile [of "\<lambda>x. x = c" "rev xs"] by (auto simp: trim_end_def last_rev)

lemma trim_end_id: "xs = [] \<or> last xs \<noteq> c \<Longrightarrow> trim_end c xs = xs"
  by (cases xs rule: rev_cases) (auto simp: trim_end_def)

section \<open>BTreeMap\<close>

text \<open>
  A map iterated in key order. \<^verbatim>\<open>insert\<close> replaces the value of an existing key and
  \<^verbatim>\<open>remove\<close> of an absent key does nothing.
\<close>

type_synonym ('k, 'v) btree = "('k \<times> 'v) list"

definition bt_get :: "('k, 'v) btree \<Rightarrow> 'k \<Rightarrow> 'v option" where
  "bt_get xs k = map_of xs k"

fun bt_insert :: "'k::linorder \<Rightarrow> 'v \<Rightarrow> ('k, 'v) btree \<Rightarrow> ('k, 'v) btree" where
  "bt_insert k v [] = [(k, v)]"
| "bt_insert k v ((k', v') # r) =
     (if k < k' then (k, v) # (k', v') # r
      else if k = k' then (k, v) # r
      else (k', v') # bt_insert k v r)"

definition bt_remove :: "'k \<Rightarrow> ('k, 'v) btree \<Rightarrow> ('k, 'v) btree" where
  "bt_remove k xs = filter (\<lambda>(k', _). k' \<noteq> k) xs"

definition bt_keys :: "('k, 'v) btree \<Rightarrow> 'k list" where
  "bt_keys xs = map fst xs"

definition bt_inv :: "('k::linorder, 'v) btree \<Rightarrow> bool" where
  "bt_inv xs = sorted_wrt (<) (map fst xs)"

text \<open>The interface: what the clients of a map rely on.\<close>

locale btree_map =
  fixes empty :: 'm
    and get :: "'m \<Rightarrow> 'k \<Rightarrow> 'v option"
    and insert :: "'k \<Rightarrow> 'v \<Rightarrow> 'm \<Rightarrow> 'm"
    and remove :: "'k \<Rightarrow> 'm \<Rightarrow> 'm"
    and inv :: "'m \<Rightarrow> bool"
  assumes get_empty: "get empty k = None"
    and get_insert: "get (insert k v m) k' = (if k' = k then Some v else get m k')"
    and get_remove: "get (remove k m) k' = (if k' = k then None else get m k')"
    and inv_empty: "inv empty"
    and inv_insert: "inv m \<Longrightarrow> inv (insert k v m)"
    and inv_remove: "inv m \<Longrightarrow> inv (remove k m)"
begin

lemma ran_insert: "get (insert k v m) k' = Some x \<Longrightarrow> x = v \<or> get m k' = Some x"
  by (simp add: get_insert split: if_splits)

lemma ran_remove: "get (remove k m) k' = Some x \<Longrightarrow> k' \<noteq> k \<and> get m k' = Some x"
  by (simp add: get_remove split: if_splits)

lemma move_key:
  "get (insert k2 v (remove k1 m)) k' =
     (if k' = k2 then Some v else if k' = k1 then None else get m k')"
  by (simp add: get_insert get_remove)

end

lemma map_of_bt_insert: "map_of (bt_insert k v m) = (map_of m)(k \<mapsto> v)"
  by (induction k v m rule: bt_insert.induct) (auto simp: fun_eq_iff)

lemma map_of_bt_remove: "map_of (bt_remove k m) = (map_of m)(k := None)"
  by (induction m) (auto simp: bt_remove_def fun_eq_iff)

lemma keys_bt_insert: "fst ` set (bt_insert k v m) = insert k (fst ` set m)"
  by (induction k v m rule: bt_insert.induct) auto

lemma bt_inv_insert: "bt_inv m \<Longrightarrow> bt_inv (bt_insert k v m)"
proof (induction k v m rule: bt_insert.induct)
  case (1 k v)
  then show ?case by (simp add: bt_inv_def)
next
  case (2 k v k' v' r)
  have "fst ` set (bt_insert k v r) = insert k (fst ` set r)" by (rule keys_bt_insert)
  with 2 show ?case by (fastforce simp: bt_inv_def)
qed

lemma bt_inv_remove: "bt_inv m \<Longrightarrow> bt_inv (bt_remove k m)"
  by (simp add: bt_inv_def bt_remove_def sorted_wrt_map sorted_wrt_filter)

lemma bt_inv_Nil [simp]: "bt_inv []"
  by (simp add: bt_inv_def)

interpretation bt: btree_map "[]" bt_get bt_insert bt_remove bt_inv
  by unfold_locales
    (auto simp: bt_get_def map_of_bt_insert map_of_bt_remove bt_inv_insert bt_inv_remove)

lemmas bt_simps [simp] = bt.get_empty bt.get_insert bt.get_remove

lemma bt_inv_distinct: "bt_inv m \<Longrightarrow> distinct (map fst m)"
  by (auto simp: bt_inv_def strict_sorted_iff)

lemma bt_get_in_set: "bt_inv m \<Longrightarrow> bt_get m k = Some v \<longleftrightarrow> (k, v) \<in> set m"
  by (simp add: bt_get_def bt_inv_distinct)

lemma bt_get_SomeD: "bt_get m k = Some v \<Longrightarrow> (k, v) \<in> set m"
  by (simp add: bt_get_def map_of_SomeD)

lemma bt_get_None: "bt_get m k = None \<longleftrightarrow> k \<notin> set (bt_keys m)"
  by (simp add: bt_get_def bt_keys_def map_of_eq_None_iff)

lemma bt_empty_iff: "m = [] \<longleftrightarrow> (\<forall>k. bt_get m k = None)"
  by (cases m) (auto simp: bt_get_def)

end
