(* ===== verification/Fs_Model.thy ===== *)
theory Fs_Model
  imports Prelude
begin

text \<open>
  The state of the in-memory filesystem of \<^verbatim>\<open>crates/world-fsmodel/src/lib.rs\<close> and the
  accessors of its node arena: \<^verbatim>\<open>Profile\<close>, \<^verbatim>\<open>View\<close>, \<^verbatim>\<open>NodeKind\<close>, \<^verbatim>\<open>Start\<close>,
  \<^verbatim>\<open>Outcome\<close>, \<^verbatim>\<open>OpenFlags\<close>, \<^verbatim>\<open>Op\<close>, \<^verbatim>\<open>Entry\<close>, \<^verbatim>\<open>Node\<close>, \<^verbatim>\<open>FdEntry\<close> and
  \<^verbatim>\<open>Model\<close>, then the path helpers \<^verbatim>\<open>at_start\<close>, \<^verbatim>\<open>is_root_operand\<close> and
  \<^verbatim>\<open>parent_and_name\<close>.

  Every \<^verbatim>\<open>self.nodes[i]\<close> of the source is \<open>nd m i\<close>, which is \<open>Abort Panic\<close> when the
  index is out of range, and every assignment through it is \<open>upd_node\<close>.
  Lengths and positions are natural numbers (a \<^verbatim>\<open>Vec\<close> never reaches the range of
  \<^verbatim>\<open>usize\<close>); descriptors keep the 32 bits of \<^verbatim>\<open>u32\<close>, so \<^verbatim>\<open>next_fd + 1\<close> wraps.
\<close>

section \<open>Data\<close>

type_synonym node_id = nat

definition NAME_MAX :: nat where
  "NAME_MAX = 255"

datatype profile = MacShim bytes | LinuxMount bytes

datatype view = Virtual | Physical

datatype node_kind = KDir | KFile bytes | KSymlink bytes | KSocket | KOpaque

datatype start = Cwd | Fd u32 | Root

record outcome =
  ret :: int
  errno_of :: errno
  data :: bytes

record open_flags =
  o_create :: bool
  o_excl :: bool
  o_trunc :: bool
  o_write :: bool
  o_directory :: bool
  o_nofollow :: bool

datatype op =
    Mkdir bytes u32
  | Open bytes open_flags
  | Write u32 bytes
  | Read u32 nat
  | Symlink bytes bytes
  | Readlink bytes
  | Rename bytes bytes
  | Unlink bytes
  | Rmdir bytes
  | Chdir bytes
  | Getcwd
  | Realpath bytes
  | Stat bytes
  | Lstat bytes
  | OpenDir bytes
  | OpenAt u32 bytes open_flags
  | MkdirAt u32 bytes
  | UnlinkAt u32 bytes bool
  | Bind bytes
  | Connect bytes
  | MkstempAdopt bytes
  | ListDir bytes
  | CloseFd u32

datatype entry_kind = EDir | EFile nat | ESymlink bytes | ESocket

record entry =
  e_path :: bytes
  e_kind :: entry_kind

record node =
  n_kind :: node_kind
  n_parent :: "node_id option"
  n_children :: "(bytes, node_id) btree"
  n_mounted_by :: "node_id option"
  n_virtual_parent :: "node_id option"
  n_mount_name :: "bytes option"
  n_detached :: bool

datatype fd_entry = FdFile node_id nat bool | FdDir node_id

record model =
  m_nodes :: "node list"
  m_profile :: profile
  m_root_node :: node_id
  m_case_insensitive :: bool
  m_cwd :: node_id
  m_fds :: "(u32, fd_entry) btree"
  m_next_fd :: u32

definition errout :: "errno \<Rightarrow> outcome" where
  "errout e = \<lparr>ret = -1, errno_of = e, data = []\<rparr>"

definition okout :: "int \<Rightarrow> outcome" where
  "okout r = \<lparr>ret = r, errno_of = E_OK, data = []\<rparr>"

definition dataout :: "int \<Rightarrow> bytes \<Rightarrow> outcome" where
  "dataout r d = \<lparr>ret = r, errno_of = E_OK, data = d\<rparr>"

section \<open>Paths\<close>

text \<open>An absolute path ignores the descriptor of an \<open>*at\<close> call.\<close>

definition at_start :: "u32 \<Rightarrow> bytes \<Rightarrow> start" where
  "at_start dirfd path = (if starts_with path ''/'' then Root else Fd dirfd)"

definition is_root_operand :: "bytes \<Rightarrow> bool" where
  "is_root_operand p = (p \<noteq> [] \<and> list_all (\<lambda>b. b = slash) p)"

text \<open>The parent text, the final component and whether the path ended in a slash.\<close>

definition parent_and_name :: "bytes \<Rightarrow> (bytes \<times> bytes \<times> bool) res" where
  "parent_and_name path =
     (if path = [] then Err ENOENT
      else let trimmed = trim_end slash path
           in if trimmed = [] then Err EINVAL
              else let trailing = (length trimmed < length path)
                   in case rposition slash trimmed of
                        Some i \<Rightarrow>
                          (if i = 0 then Ok (''/'', drop 1 trimmed, trailing)
                           else Ok (take i trimmed, drop (i + 1) trimmed, trailing))
                      | None \<Rightarrow> Ok (''.'', trimmed, trailing))"

text \<open>The components that a walk visits: \<^verbatim>\<open>split('/')\<close> without the empty ones and \<open>.\<close>.\<close>

definition real_components :: "bytes \<Rightarrow> bytes list" where
  "real_components path = filter (\<lambda>c. c \<noteq> [] \<and> c \<noteq> ''.'') (split_on slash path)"

section \<open>The node arena\<close>

definition nd :: "model \<Rightarrow> node_id \<Rightarrow> node res" where
  "nd m i = (if i < length (m_nodes m) then Ok (m_nodes m ! i) else Abort Panic)"

definition upd_node :: "model \<Rightarrow> node_id \<Rightarrow> (node \<Rightarrow> node) \<Rightarrow> model res" where
  "upd_node m i f =
     (if i < length (m_nodes m)
      then Ok (m\<lparr>m_nodes := (m_nodes m)[i := f (m_nodes m ! i)]\<rparr>)
      else Abort Panic)"

definition fresh_node :: "node_kind \<Rightarrow> node_id option \<Rightarrow> node" where
  "fresh_node k p =
     \<lparr>n_kind = k, n_parent = p, n_children = [], n_mounted_by = None,
      n_virtual_parent = None, n_mount_name = None, n_detached = False\<rparr>"

definition push_node :: "model \<Rightarrow> node_kind \<Rightarrow> node_id option \<Rightarrow> model \<times> node_id" where
  "push_node m k p = (m\<lparr>m_nodes := m_nodes m @ [fresh_node k p]\<rparr>, length (m_nodes m))"

fun is_dir_kind :: "node_kind \<Rightarrow> bool" where
  "is_dir_kind KDir = True"
| "is_dir_kind KOpaque = True"
| "is_dir_kind (KFile d) = False"
| "is_dir_kind (KSymlink t) = False"
| "is_dir_kind KSocket = False"

fun is_symlink_kind :: "node_kind \<Rightarrow> bool" where
  "is_symlink_kind (KSymlink t) = True"
| "is_symlink_kind _ = False"

text \<open>\<^verbatim>\<open>match &self.nodes[i].kind { Dir | Opaque => {}, _ => return Err(ENOTDIR) }\<close>.\<close>

definition check_dir :: "model \<Rightarrow> node_id \<Rightarrow> unit res" where
  "check_dir m i =
     bind_res (nd m i) (\<lambda>n. if is_dir_kind (n_kind n) then Ok () else Err ENOTDIR)"

definition find_child :: "model \<Rightarrow> node_id \<Rightarrow> bytes \<Rightarrow> node_id option res" where
  "find_child m p k = bind_res (nd m p) (\<lambda>n. Ok (bt_get (n_children n) k))"

definition is_mac :: "model \<Rightarrow> bool" where
  "is_mac m = (case m_profile m of MacShim _ \<Rightarrow> True | LinuxMount _ \<Rightarrow> False)"

definition max_symlinks :: "model \<Rightarrow> nat" where
  "max_symlinks m = (case m_profile m of MacShim _ \<Rightarrow> 32 | LinuxMount _ \<Rightarrow> 40)"

definition path_max :: "model \<Rightarrow> nat" where
  "path_max m = (case m_profile m of MacShim _ \<Rightarrow> 1024 | LinuxMount _ \<Rightarrow> 4096)"

definition sun_path_cap :: "model \<Rightarrow> nat" where
  "sun_path_cap m = (if is_mac m then 104 else 108)"

definition key :: "model \<Rightarrow> bytes \<Rightarrow> bytes" where
  "key m name = (if m_case_insensitive m then map to_ascii_lowercase name else name)"

definition enter :: "model \<Rightarrow> view \<Rightarrow> node_id \<Rightarrow> node_id res" where
  "enter m v i =
     (if v = Virtual
      then bind_res (nd m i) (\<lambda>n. case n_mounted_by n of Some t \<Rightarrow> Ok t | None \<Rightarrow> Ok i)
      else Ok i)"

definition node_parent :: "model \<Rightarrow> view \<Rightarrow> node_id \<Rightarrow> node_id res" where
  "node_parent m v i =
     bind_res (nd m i) (\<lambda>n.
       case (if v = Virtual then n_virtual_parent n else None) of
         Some vp \<Rightarrow> Ok vp
       | None \<Rightarrow> Ok (case n_parent n of Some p \<Rightarrow> p | None \<Rightarrow> i))"

definition fd_dir :: "model \<Rightarrow> u32 \<Rightarrow> node_id res" where
  "fd_dir m fd =
     (case bt_get (m_fds m) fd of
        Some (FdDir n) \<Rightarrow> Ok n
      | Some (FdFile n pos w) \<Rightarrow> Err ENOTDIR
      | None \<Rightarrow> Err EBADF)"

definition alloc_fd :: "model \<Rightarrow> fd_entry \<Rightarrow> model \<times> u32" where
  "alloc_fd m e =
     (m\<lparr>m_next_fd := m_next_fd m + 1, m_fds := bt_insert (m_next_fd m) e (m_fds m)\<rparr>,
      m_next_fd m)"

definition start_node :: "model \<Rightarrow> start \<Rightarrow> node_id res" where
  "start_node m s =
     (case s of
        Root \<Rightarrow> Ok (m_root_node m)
      | Cwd \<Rightarrow> Ok (m_cwd m)
      | Fd fd \<Rightarrow> fd_dir m fd)"

section \<open>Walks up the parent links\<close>

text \<open>
  The loops of the source follow \<^verbatim>\<open>parent\<close> until there is none. They are written with
  fuel; \<open>chain_fuel\<close> is the number of nodes, which is enough exactly when the chain does
  not come back to a node it has left (\<open>Fs_Inv\<close> proves it for every reachable model).
\<close>

abbreviation chain_fuel :: "model \<Rightarrow> nat" where
  "chain_fuel m \<equiv> length (m_nodes m)"

fun is_descendant_loop :: "nat \<Rightarrow> model \<Rightarrow> node_id \<Rightarrow> node_id \<Rightarrow> bool res" where
  "is_descendant_loop 0 m anc cur = Abort Diverge"
| "is_descendant_loop (Suc f) m anc cur =
     (if cur = anc then Ok True
      else bind_res (nd m cur) (\<lambda>n.
        case n_parent n of
          Some p \<Rightarrow> if p \<noteq> cur then is_descendant_loop f m anc p else Ok False
        | None \<Rightarrow> Ok False))"

definition is_descendant :: "model \<Rightarrow> node_id \<Rightarrow> node_id \<Rightarrow> bool res" where
  "is_descendant m anc i = is_descendant_loop (chain_fuel m) m anc i"

fun is_detached_loop :: "nat \<Rightarrow> model \<Rightarrow> node_id \<Rightarrow> bool res" where
  "is_detached_loop 0 m i = Abort Diverge"
| "is_detached_loop (Suc f) m i =
     bind_res (nd m i) (\<lambda>n.
       if n_detached n then Ok True
       else case n_parent n of
              Some p \<Rightarrow> is_detached_loop f m p
            | None \<Rightarrow> Ok False)"

definition is_detached :: "model \<Rightarrow> node_id \<Rightarrow> bool res" where
  "is_detached m i = is_detached_loop (chain_fuel m) m i"

definition check_live :: "model \<Rightarrow> node_id \<Rightarrow> unit res" where
  "check_live m p = bind_res (is_detached m p) (\<lambda>d. if d then Err ENOENT else Ok ())"

text \<open>The name under which a node hangs: the first key of its parent that maps to it.\<close>

fun find_key :: "(bytes, node_id) btree \<Rightarrow> node_id \<Rightarrow> bytes option" where
  "find_key [] i = None"
| "find_key ((k, c) # r) i = (if c = i then Some k else find_key r i)"

definition node_name_and_parent :: "model \<Rightarrow> view \<Rightarrow> node_id \<Rightarrow> (bytes \<times> node_id) option res" where
  "node_name_and_parent m v i =
     bind_res (nd m i) (\<lambda>n.
       case (if v = Virtual then n_virtual_parent n else None) of
         Some vp \<Rightarrow> Ok (Some (case n_mount_name n of Some nm \<Rightarrow> nm | None \<Rightarrow> [], vp))
       | None \<Rightarrow>
           (case n_parent n of
              None \<Rightarrow> Ok None
            | Some p \<Rightarrow>
                bind_res (nd m p) (\<lambda>pn.
                  Ok (case find_key (n_children pn) i of
                        Some k \<Rightarrow> Some (k, p)
                      | None \<Rightarrow> None))))"

fun full_path_loop :: "nat \<Rightarrow> model \<Rightarrow> view \<Rightarrow> node_id \<Rightarrow> bytes list \<Rightarrow> bytes list res" where
  "full_path_loop 0 m v cur parts = Abort Diverge"
| "full_path_loop (Suc f) m v cur parts =
     bind_res (node_name_and_parent m v cur) (\<lambda>r.
       case r of
         Some (name, p) \<Rightarrow> full_path_loop f m v p (parts @ [name])
       | None \<Rightarrow> Ok parts)"

definition full_path :: "model \<Rightarrow> view \<Rightarrow> node_id \<Rightarrow> bytes res" where
  "full_path m v i =
     bind_res (full_path_loop (chain_fuel m) m v i []) (\<lambda>parts.
       let out = concat (map (\<lambda>p. slash # p) (rev parts))
       in Ok (if out = [] then ''/'' else out))"

end
