(* ===== verification/Fs_Resolve.thy ===== *)
theory Fs_Resolve
  imports Fs_Model
begin

text \<open>
  Path resolution: \<^verbatim>\<open>resolve\<close>, \<^verbatim>\<open>resolve_traced\<close>, \<^verbatim>\<open>resolve_inner\<close>,
  \<^verbatim>\<open>follow_symlink\<close>, \<^verbatim>\<open>resolve_for_create\<close>, \<^verbatim>\<open>resolve_parent\<close>,
  \<^verbatim>\<open>trail_mac\<close> and \<^verbatim>\<open>owner_of\<close> of \<^verbatim>\<open>crates/world-fsmodel/src/lib.rs\<close>.

  The walk threads what the source passes as \<^verbatim>\<open>&mut link_count\<close> and
  \<^verbatim>\<open>trace: Option<&mut Vec<NodeId>>\<close>: a state \<open>(link_count, crossed)\<close> that survives an
  error. The mutual recursion of \<^verbatim>\<open>resolve_inner\<close> and \<^verbatim>\<open>follow_symlink\<close> is opened:
  the component loop takes the function that follows a link as an argument, and
  \<open>follow_symlink\<close> ties the knot with fuel, the number of links that may still be nested.
  \<open>link_fuel\<close> is one more than \<^verbatim>\<open>MAXSYMLINKS\<close>; since every link followed raises
  \<^verbatim>\<open>link_count\<close> and the count is checked against the limit, the fuel is never used up
  (\<open>Fs_Inv\<close>).
\<close>

section \<open>Walks\<close>

type_synonym walk_state = "nat \<times> node_id list"
type_synonym 'a walk = "walk_state \<Rightarrow> 'a res \<times> walk_state"
type_synonym follower = "node_id \<Rightarrow> node_id \<Rightarrow> node_id walk"

definition lift_walk :: "'a res \<Rightarrow> 'a walk" where
  "lift_walk r = (\<lambda>s. (r, s))"

definition bind_walk :: "'a walk \<Rightarrow> ('a \<Rightarrow> 'b walk) \<Rightarrow> 'b walk" where
  "bind_walk w f = (\<lambda>s.
     case w s of
       (Ok a, s') \<Rightarrow> f a s'
     | (Err e, s') \<Rightarrow> (Err e, s')
     | (Abort x, s') \<Rightarrow> (Abort x, s'))"

fun resolve_loop ::
  "follower \<Rightarrow> model \<Rightarrow> view \<Rightarrow> bool \<Rightarrow> bool \<Rightarrow> bytes list \<Rightarrow> node_id \<Rightarrow> node_id walk" where
  "resolve_loop fol m v follow_last trailing_slash [] cur = lift_walk (Ok cur)"
| "resolve_loop fol m v follow_last trailing_slash (cmp # rest) cur =
     (let is_last = (rest = [])
      in if cmp = ''..'' then
           bind_walk (lift_walk (bind_res (node_parent m v cur) (enter m v)))
             (resolve_loop fol m v follow_last trailing_slash rest)
         else if NAME_MAX < length cmp then lift_walk (Err ENAMETOOLONG)
         else
           bind_walk (lift_walk (bind_res (check_dir m cur) (\<lambda>_. find_child m cur (key m cmp))))
             (\<lambda>found. case found of
                None \<Rightarrow> lift_walk (Err ENOENT)
              | Some child \<Rightarrow>
                  bind_walk (lift_walk (nd m child)) (\<lambda>cn.
                  bind_walk
                    (if (\<not> is_last \<or> follow_last \<or> trailing_slash) \<and> is_symlink_kind (n_kind cn)
                     then fol cur child
                     else lift_walk (Ok child)) (\<lambda>target.
                  bind_walk
                    (lift_walk (if \<not> is_last \<or> trailing_slash then check_dir m target else Ok ()))
                    (\<lambda>_.
                  bind_walk (lift_walk (enter m v target))
                    (resolve_loop fol m v follow_last trailing_slash rest))))))"

definition resolve_with ::
  "follower \<Rightarrow> model \<Rightarrow> view \<Rightarrow> node_id \<Rightarrow> bytes \<Rightarrow> bool \<Rightarrow> node_id walk" where
  "resolve_with fol m v cur path follow_last =
     (if path_max m \<le> length path then lift_walk (Err ENAMETOOLONG)
      else if path = [] then lift_walk (Err ENOENT)
      else
        bind_walk
          (lift_walk (enter m v (if hd path = slash then m_root_node m else cur)))
          (resolve_loop fol m v follow_last
             (1 < length path \<and> ends_with path ''/'') (real_components path)))"

fun follow_symlink :: "nat \<Rightarrow> model \<Rightarrow> view \<Rightarrow> follower" where
  "follow_symlink 0 m v dir link = lift_walk (Abort Diverge)"
| "follow_symlink (Suc f) m v dir link =
     bind_walk (lift_walk (nd m link)) (\<lambda>n.
       case n_kind n of
         KSymlink target \<Rightarrow>
           (\<lambda>(link_count, crossed).
              let s = (link_count + 1, crossed @ [link])
              in if max_symlinks m < link_count + 1 then (Err ELOOP, s)
                 else if target = [] then (Err ENOENT, s)
                 else resolve_with (follow_symlink f m v) m v
                        (if hd target = slash then m_root_node m else dir) target True s)
       | _ \<Rightarrow> lift_walk (Ok link))"

definition link_fuel :: "model \<Rightarrow> nat" where
  "link_fuel m = max_symlinks m + 1"

definition resolve_inner :: "model \<Rightarrow> view \<Rightarrow> node_id \<Rightarrow> bytes \<Rightarrow> bool \<Rightarrow> node_id walk" where
  "resolve_inner m v = resolve_with (follow_symlink (link_fuel m) m v) m v"

definition resolve_impl ::
  "model \<Rightarrow> view \<Rightarrow> start \<Rightarrow> bytes \<Rightarrow> bool \<Rightarrow> node_id res \<times> node_id list" where
  "resolve_impl m v s path follow_last =
     (case start_node m s of
        Ok i \<Rightarrow> (let (r, _, crossed) = resolve_inner m v i path follow_last (0, [])
                in (r, crossed))
      | Err e \<Rightarrow> (Err e, [])
      | Abort x \<Rightarrow> (Abort x, []))"

definition resolve :: "model \<Rightarrow> view \<Rightarrow> start \<Rightarrow> bytes \<Rightarrow> bool \<Rightarrow> node_id res" where
  "resolve m v s path follow_last = fst (resolve_impl m v s path follow_last)"

definition resolve_traced ::
  "model \<Rightarrow> view \<Rightarrow> start \<Rightarrow> bytes \<Rightarrow> bool \<Rightarrow> node_id list \<Rightarrow> node_id res \<times> node_id list" where
  "resolve_traced m v s path follow_last crossed =
     (let (r, others) = resolve_impl m v s path follow_last in (r, crossed @ others))"

section \<open>Creation through dangling links\<close>

text \<open>The loop over the leading components: every one must lead to a directory.\<close>

fun create_loop :: "model \<Rightarrow> bytes list \<Rightarrow> node_id \<Rightarrow> node_id walk" where
  "create_loop m [] cur = lift_walk (Ok cur)"
| "create_loop m (cmp # rest) cur =
     (if cmp = ''..'' then
        bind_walk (lift_walk (bind_res (node_parent m Virtual cur) (enter m Virtual)))
          (create_loop m rest)
      else if NAME_MAX < length cmp then lift_walk (Err ENAMETOOLONG)
      else
        bind_walk (lift_walk (bind_res (check_dir m cur) (\<lambda>_. find_child m cur (key m cmp))))
          (\<lambda>found. case found of
             None \<Rightarrow> lift_walk (Err ENOENT)
           | Some child \<Rightarrow>
               bind_walk (lift_walk (nd m child)) (\<lambda>cn.
               bind_walk
                 (if is_symlink_kind (n_kind cn)
                  then follow_symlink (link_fuel m) m Virtual cur child
                  else lift_walk (Ok child)) (\<lambda>target.
               bind_walk (lift_walk (check_dir m target)) (\<lambda>_.
               bind_walk (lift_walk (enter m Virtual target)) (create_loop m rest))))))"

fun resolve_for_create_inner ::
  "nat \<Rightarrow> model \<Rightarrow> node_id \<Rightarrow> bytes \<Rightarrow> (node_id \<times> bytes) walk" where
  "resolve_for_create_inner 0 m cur path = lift_walk (Abort Diverge)"
| "resolve_for_create_inner (Suc f) m cur path =
     (if path_max m \<le> length path then lift_walk (Err ENAMETOOLONG)
      else if path = [] then lift_walk (Err ENOENT)
      else
        bind_walk (lift_walk (enter m Virtual (if hd path = slash then m_root_node m else cur)))
          (\<lambda>cur0.
             let real = real_components path
             in if real = [] then lift_walk (Err EEXIST)
                else
                  bind_walk (create_loop m (butlast real) cur0) (\<lambda>cur.
                    let last_comp = last real
                    in if last_comp = ''..'' then lift_walk (Err EINVAL)
                       else if NAME_MAX < length last_comp then lift_walk (Err ENAMETOOLONG)
                       else
                         bind_walk
                           (lift_walk
                              (bind_res (check_dir m cur)
                                 (\<lambda>_. find_child m cur (key m last_comp))))
                           (\<lambda>found. case found of
                              None \<Rightarrow> lift_walk (Ok (cur, last_comp))
                            | Some i \<Rightarrow>
                                bind_walk (lift_walk (nd m i)) (\<lambda>n.
                                  case n_kind n of
                                    KSymlink target \<Rightarrow>
                                      (\<lambda>(link_count, crossed).
                                         let s = (link_count + 1, crossed)
                                         in if max_symlinks m < link_count + 1 then (Err ELOOP, s)
                                            else if target = [] then (Err ENOENT, s)
                                            else
                                              resolve_for_create_inner f m
                                                (if hd target = slash then m_root_node m else cur)
                                                target s)
                                  | _ \<Rightarrow> lift_walk (Err EEXIST))))))"

definition resolve_for_create :: "model \<Rightarrow> start \<Rightarrow> bytes \<Rightarrow> (node_id \<times> bytes \<times> bool) res" where
  "resolve_for_create m s path =
     (let trailing = (1 < length path \<and> ends_with path ''/'')
      in bind_res (start_node m s) (\<lambda>i.
         bind_res (fst (resolve_for_create_inner (link_fuel m) m i path (0, []))) (\<lambda>(p, name).
           Ok (p, name, trailing))))"

section \<open>Parents of operands\<close>

definition resolve_parent_unchecked ::
  "model \<Rightarrow> start \<Rightarrow> bytes \<Rightarrow> (node_id \<times> bytes \<times> bool) res" where
  "resolve_parent_unchecked m s path =
     (if path_max m \<le> length path then Err ENAMETOOLONG
      else
        bind_res (parent_and_name path) (\<lambda>(dir, name, trailing).
          if name = ''.'' \<or> name = ''..'' then Err EINVAL
          else
            bind_res (if dir = ''.'' then start_node m s else resolve m Virtual s dir True)
              (\<lambda>parent. Ok (parent, name, trailing))))"

definition resolve_parent :: "model \<Rightarrow> start \<Rightarrow> bytes \<Rightarrow> (node_id \<times> bytes \<times> bool) res" where
  "resolve_parent m s path =
     bind_res (resolve_parent_unchecked m s path) (\<lambda>(parent, name, trailing).
     bind_res (check_dir m parent) (\<lambda>_.
       if NAME_MAX < length name then Err ENAMETOOLONG
       else Ok (parent, name, trailing)))"

datatype trail = TMissing | TDangling node_id bytes | TNonDir | TDirectory node_id

definition trail_mac :: "model \<Rightarrow> start \<Rightarrow> node_id \<Rightarrow> bytes \<Rightarrow> bytes \<Rightarrow> trail res" where
  "trail_mac m s parent k path =
     bind_res (find_child m parent k) (\<lambda>found.
       case found of
         None \<Rightarrow> Ok TMissing
       | Some i \<Rightarrow>
           bind_res (nd m i) (\<lambda>n.
             let classify = (\<lambda>t. bind_res (nd m t) (\<lambda>tn.
                   Ok (if is_dir_kind (n_kind tn) then TDirectory t else TNonDir)))
             in if is_symlink_kind (n_kind n) then
                  (case fst (follow_symlink (link_fuel m) m Virtual parent i (0, [])) of
                     Ok t \<Rightarrow> classify t
                   | Err e \<Rightarrow>
                       (if e = ENOENT
                        then bind_res (resolve_for_create m s path)
                               (\<lambda>(p, nm, _). Ok (TDangling p nm))
                        else Err e)
                   | Abort x \<Rightarrow> Abort x)
                else classify i))"

definition owner_of :: "model \<Rightarrow> node_id \<Rightarrow> (node_id \<times> bytes) res" where
  "owner_of m t =
     bind_res (nd m t) (\<lambda>tn.
       if n_virtual_parent tn \<noteq> None \<or> n_mounted_by tn \<noteq> None then Err EBUSY
       else case n_parent tn of
              None \<Rightarrow> Err EBUSY
            | Some p \<Rightarrow>
                (if p = t then Err EBUSY
                 else bind_res (nd m p) (\<lambda>pn.
                        case find_key (n_children pn) t of
                          Some k \<Rightarrow> Ok (p, k)
                        | None \<Rightarrow> Err EBUSY)))"

end
