(* ===== verification/Fs_Build.thy ===== *)
theory Fs_Build
  imports Fs_Resolve
begin

text \<open>
  Building and listing models: \<^verbatim>\<open>mkchild\<close>, \<^verbatim>\<open>set_child\<close>, \<^verbatim>\<open>mkdir_p\<close>,
  \<^verbatim>\<open>Model::new\<close>, \<^verbatim>\<open>Model::new_plain\<close>, the \<^verbatim>\<open>add_fixture_*\<close> functions, and
  \<^verbatim>\<open>tree\<close> with its \<^verbatim>\<open>walk\<close>, all of \<^verbatim>\<open>crates/world-fsmodel/src/lib.rs\<close>.
  A failing \<^verbatim>\<open>expect\<close> is \<open>Abort Panic\<close>.
\<close>

section \<open>Children\<close>

definition insert_child :: "model \<Rightarrow> node_id \<Rightarrow> bytes \<Rightarrow> node_id \<Rightarrow> model res" where
  "insert_child m p k i =
     upd_node m p (\<lambda>n. n\<lparr>n_children := bt_insert k i (n_children n)\<rparr>)"

definition remove_child :: "model \<Rightarrow> node_id \<Rightarrow> bytes \<Rightarrow> model res" where
  "remove_child m p k = upd_node m p (\<lambda>n. n\<lparr>n_children := bt_remove k (n_children n)\<rparr>)"

text \<open>\<^verbatim>\<open>let id = push_node(kind, Some(p)); nodes[p].children.insert(key, id)\<close>.\<close>

definition create_child :: "model \<Rightarrow> node_id \<Rightarrow> bytes \<Rightarrow> node_kind \<Rightarrow> (model \<times> node_id) res" where
  "create_child m p k kd =
     (let (m', i) = push_node m kd (Some p)
      in bind_res (insert_child m' p k i) (\<lambda>m''. Ok (m'', i)))"

definition mkchild :: "model \<Rightarrow> node_id \<Rightarrow> bytes \<Rightarrow> node_kind \<Rightarrow> (model \<times> node_id) res" where
  "mkchild m p name kd =
     bind_res (find_child m p (key m name)) (\<lambda>found.
       case found of
         Some i \<Rightarrow> Ok (m, i)
       | None \<Rightarrow> create_child m p (key m name) kd)"

definition set_child :: "model \<Rightarrow> node_id \<Rightarrow> bytes \<Rightarrow> node_kind \<Rightarrow> (model \<times> node_id) res" where
  "set_child m p name kd =
     bind_res (find_child m p (key m name)) (\<lambda>found.
       case found of
         Some i \<Rightarrow> bind_res (upd_node m i (\<lambda>n. n\<lparr>n_kind := kd\<rparr>)) (\<lambda>m'. Ok (m', i))
       | None \<Rightarrow> create_child m p (key m name) kd)"

text \<open>Where \<^verbatim>\<open>mkdir_p\<close> continues at an existing child: behind a symlink, if it resolves.\<close>

definition mkdir_p_existing :: "model \<Rightarrow> view \<Rightarrow> node_id \<Rightarrow> node_id \<Rightarrow> node_id res" where
  "mkdir_p_existing m v cur i =
     bind_res (nd m i) (\<lambda>n.
       case n_kind n of
         KSymlink target \<Rightarrow>
           (case fst (resolve_inner m v
                   (if starts_with target ''/'' then m_root_node m else cur)
                   target True (0, [])) of
              Ok t \<Rightarrow> Ok t
            | Err e \<Rightarrow> Ok i
            | Abort x \<Rightarrow> Abort x)
       | _ \<Rightarrow> Ok i)"

fun mkdir_p_loop ::
  "view \<Rightarrow> node_kind \<Rightarrow> bytes list \<Rightarrow> model \<Rightarrow> node_id \<Rightarrow> (model \<times> node_id) res" where
  "mkdir_p_loop v kd [] m cur = Ok (m, cur)"
| "mkdir_p_loop v kd (c # rest) m cur =
     (if c = ''..'' then
        bind_res (bind_res (node_parent m v cur) (enter m v)) (mkdir_p_loop v kd rest m)
      else
        bind_res (find_child m cur (key m c)) (\<lambda>existing.
        bind_res
          (case existing of
             Some i \<Rightarrow> bind_res (mkdir_p_existing m v cur i) (\<lambda>t. Ok (m, t))
           | None \<Rightarrow> create_child m cur (key m c) kd) (\<lambda>(m', child).
        bind_res (enter m' v child) (mkdir_p_loop v kd rest m'))))"

definition mkdir_p :: "model \<Rightarrow> view \<Rightarrow> bytes \<Rightarrow> node_kind \<Rightarrow> (model \<times> node_id) res" where
  "mkdir_p m v path kd =
     bind_res (enter m v (m_root_node m)) (mkdir_p_loop v kd (real_components path) m)"

section \<open>Fresh models\<close>

text \<open>
  \<^verbatim>\<open>nodes[mp].mounted_by = Some(t); nodes[t].virtual_parent = Some(vp);
  nodes[t].mount_name = Some("tmp")\<close>.
\<close>

definition set_mount :: "model \<Rightarrow> node_id \<Rightarrow> node_id \<Rightarrow> node_id \<Rightarrow> model res" where
  "set_mount m mp t vp =
     bind_res (upd_node m mp (\<lambda>n. n\<lparr>n_mounted_by := Some t\<rparr>)) (\<lambda>m.
     bind_res (upd_node m t (\<lambda>n. n\<lparr>n_virtual_parent := Some vp\<rparr>)) (\<lambda>m.
       upd_node m t (\<lambda>n. n\<lparr>n_mount_name := Some ''tmp''\<rparr>)))"

definition bare_model :: "profile \<Rightarrow> model" where
  "bare_model pr =
     \<lparr>m_nodes = [fresh_node KDir None], m_profile = pr, m_root_node = 0,
      m_case_insensitive = False, m_cwd = 0, m_fds = [], m_next_fd = 3\<rparr>"

definition new_mac :: "bytes \<Rightarrow> model res" where
  "new_mac root_path =
     (let m = bare_model (MacShim root_path); root = m_root_node m
      in bind_res (mkchild m root ''private'' KDir) (\<lambda>(m, private).
         bind_res (mkchild m private ''var'' KDir) (\<lambda>(m, var).
         bind_res (mkchild m private ''tmp'' KOpaque) (\<lambda>(m, priv_tmp).
         bind_res (mkchild m var ''tmp'' KOpaque) (\<lambda>(m, priv_var_tmp).
         bind_res (mkchild m root ''tmp'' (KSymlink ''private/tmp'')) (\<lambda>(m, _).
         bind_res (mkchild m root ''var'' (KSymlink ''private/var'')) (\<lambda>(m, _).
         bind_res (mkdir_p m Physical root_path KDir) (\<lambda>(m, anchor).
         bind_res (mkchild m anchor ''tmp'' KDir) (\<lambda>(m, root_tmp).
         bind_res (mkchild m anchor ''var'' KDir) (\<lambda>(m, root_var).
         bind_res (mkchild m root_var ''tmp'' KDir) (\<lambda>(m, root_var_tmp).
         bind_res (set_mount m priv_tmp root_tmp private) (\<lambda>m.
           set_mount m priv_var_tmp root_var_tmp var))))))))))))"

definition new_linux :: "bytes \<Rightarrow> model res" where
  "new_linux root_path =
     (let m = bare_model (LinuxMount root_path); root = m_root_node m
      in bind_res (mkchild m root ''tmp'' KDir) (\<lambda>(m, tmp).
         bind_res (mkchild m root ''var'' KDir) (\<lambda>(m, var).
         bind_res (mkchild m var ''tmp'' KDir) (\<lambda>(m, var_tmp).
         bind_res (mkdir_p m Physical root_path KDir) (\<lambda>(m, anchor).
         bind_res (mkchild m anchor ''tmp'' KDir) (\<lambda>(m, root_tmp).
         bind_res (mkchild m anchor ''var'' KDir) (\<lambda>(m, root_var_scaffold).
         bind_res (mkchild m root_var_scaffold ''tmp'' KDir) (\<lambda>(m, root_var_tmp).
         bind_res (set_mount m tmp root_tmp root) (\<lambda>m.
           set_mount m var_tmp root_var_tmp var)))))))))"

definition new_model :: "profile \<Rightarrow> model res" where
  "new_model pr =
     bind_res (case pr of MacShim r \<Rightarrow> new_mac r | LinuxMount r \<Rightarrow> new_linux r)
       (\<lambda>m. Ok (m\<lparr>m_cwd := m_root_node m\<rparr>))"

definition new_plain :: "bytes \<Rightarrow> model res" where
  "new_plain anchor =
     bind_res (mkdir_p (bare_model (LinuxMount anchor)) Physical anchor KDir)
       (\<lambda>(m, anchor_node). Ok (m\<lparr>m_cwd := anchor_node\<rparr>))"

section \<open>Fixtures\<close>

definition add_fixture_dir :: "model \<Rightarrow> view \<Rightarrow> bytes \<Rightarrow> (model \<times> node_id) res" where
  "add_fixture_dir m v path = mkdir_p m v path KDir"

text \<open>The three fixture functions that create a leaf differ only in its kind.\<close>

definition add_fixture_leaf ::
  "model \<Rightarrow> view \<Rightarrow> bytes \<Rightarrow> node_kind \<Rightarrow> (model \<times> node_id) res" where
  "add_fixture_leaf m v path kd =
     (case parent_and_name path of
        Ok (dir, name, _) \<Rightarrow>
          bind_res (mkdir_p m v dir KDir) (\<lambda>(m', p). set_child m' p name kd)
      | Err e \<Rightarrow> Abort Panic
      | Abort x \<Rightarrow> Abort x)"

definition add_fixture_file :: "model \<Rightarrow> view \<Rightarrow> bytes \<Rightarrow> bytes \<Rightarrow> (model \<times> node_id) res" where
  "add_fixture_file m v path contents = add_fixture_leaf m v path (KFile contents)"

definition add_fixture_symlink :: "model \<Rightarrow> view \<Rightarrow> bytes \<Rightarrow> bytes \<Rightarrow> (model \<times> node_id) res" where
  "add_fixture_symlink m v path target = add_fixture_leaf m v path (KSymlink target)"

definition add_fixture_socket :: "model \<Rightarrow> view \<Rightarrow> bytes \<Rightarrow> (model \<times> node_id) res" where
  "add_fixture_socket m v path = add_fixture_leaf m v path KSocket"

definition add_opaque_ancestors :: "model \<Rightarrow> bytes \<Rightarrow> model res" where
  "add_opaque_ancestors m path =
     (case parent_and_name path of
        Ok (dir, _, _) \<Rightarrow>
          bind_res (mkdir_p m Physical dir KOpaque) (\<lambda>(m', _). Ok m')
      | Err e \<Rightarrow> Ok m
      | Abort x \<Rightarrow> Abort x)"

definition set_case_insensitive :: "model \<Rightarrow> bool \<Rightarrow> model" where
  "set_case_insensitive m on = m\<lparr>m_case_insensitive := on\<rparr>"

section \<open>Listings\<close>

text \<open>
  The recursion of \<^verbatim>\<open>walk\<close> goes down through directories; the loop over the children
  of one directory takes it as an argument. A descent that does not repeat a node is at
  most as deep as there are nodes.
\<close>

fun walk_list ::
  "(node_id \<Rightarrow> bytes \<Rightarrow> entry list res) \<Rightarrow> model \<Rightarrow> view \<Rightarrow> bytes
     \<Rightarrow> (bytes \<times> node_id) list \<Rightarrow> entry list res" where
  "walk_list rec m v prefix [] = Ok []"
| "walk_list rec m v prefix ((name, child0) # others) =
     bind_res (enter m v child0) (\<lambda>child.
     bind_res (nd m child) (\<lambda>n.
       let path = (if prefix = [] then name else prefix @ slash # name)
       in bind_res
            (case n_kind n of
               KFile d \<Rightarrow> Ok [\<lparr>e_path = path, e_kind = EFile (length d)\<rparr>]
             | KSymlink t \<Rightarrow> Ok [\<lparr>e_path = path, e_kind = ESymlink t\<rparr>]
             | KSocket \<Rightarrow> Ok [\<lparr>e_path = path, e_kind = ESocket\<rparr>]
             | _ \<Rightarrow>
                 bind_res (rec child path) (\<lambda>sub.
                   Ok (\<lparr>e_path = path, e_kind = EDir\<rparr> # sub)))
            (\<lambda>es. bind_res (walk_list rec m v prefix others) (\<lambda>es'. Ok (es @ es')))))"

fun walk :: "nat \<Rightarrow> model \<Rightarrow> view \<Rightarrow> node_id \<Rightarrow> bytes \<Rightarrow> entry list res" where
  "walk 0 m v i prefix = Abort Diverge"
| "walk (Suc f) m v i prefix =
     bind_res (nd m i) (\<lambda>n. walk_list (walk f m v) m v prefix (n_children n))"

definition tree :: "model \<Rightarrow> view \<Rightarrow> bytes \<Rightarrow> entry list res" where
  "tree m v at =
     (case resolve m v Root at True of
        Ok i \<Rightarrow> bind_res (walk (Suc (length (m_nodes m))) m v i []) (\<lambda>es.
                 Ok (sort_key e_path es))
      | Err e \<Rightarrow> Ok []
      | Abort x \<Rightarrow> Abort x)"

end
