(* ===== verification/Fs_Ops.thy ===== *)
theory Fs_Ops
  imports Fs_Build
begin

text \<open>
  The operations of \<^verbatim>\<open>Model::apply\<close> (\<^verbatim>\<open>crates/world-fsmodel/src/lib.rs\<close>), one
  definition per \<^verbatim>\<open>do_*\<close> function. Inside an operation an early
  \<^verbatim>\<open>return errout(e)\<close> is \<open>Err e\<close>; \<open>reply\<close> turns it into the outcome, with the model
  as it was, because no operation has changed anything before its last early return.
\<close>

section \<open>Replies\<close>

definition reply :: "model \<Rightarrow> (model \<times> outcome) res \<Rightarrow> (model \<times> outcome) res" where
  "reply m r = (case r of Err e \<Rightarrow> Ok (m, errout e) | _ \<Rightarrow> r)"

definition root_mutation_errno :: "model \<Rightarrow> errno \<Rightarrow> errno" where
  "root_mutation_errno m linux = (if is_mac m then EISDIR else linux)"

text \<open>\<^verbatim>\<open>nodes[p].children.contains_key(key)\<close>.\<close>

definition has_child :: "model \<Rightarrow> node_id \<Rightarrow> bytes \<Rightarrow> bool res" where
  "has_child m p k = bind_res (find_child m p k) (\<lambda>found. Ok (found \<noteq> None))"

definition trailing_create_errno ::
  "model \<Rightarrow> start \<Rightarrow> node_id \<Rightarrow> bytes \<Rightarrow> bytes \<Rightarrow> errno \<Rightarrow> errno res" where
  "trailing_create_errno m s parent k path exists_errno =
     (if \<not> is_mac m then
        bind_res (has_child m parent k) (\<lambda>ex. Ok (if ex then exists_errno else ENOENT))
      else
        (case trail_mac m s parent k path of
           Err e \<Rightarrow> Ok e
         | Abort x \<Rightarrow> Abort x
         | Ok t \<Rightarrow>
             Ok (case t of
                   TMissing \<Rightarrow> ENOENT
                 | TDangling p n \<Rightarrow> ENOENT
                 | TNonDir \<Rightarrow> ENOTDIR
                 | TDirectory d \<Rightarrow> exists_errno)))"

text \<open>
  The last steps of every creation: the parent must be live, then the node is pushed and
  linked under the key.
\<close>

definition create_live :: "model \<Rightarrow> node_id \<Rightarrow> bytes \<Rightarrow> node_kind \<Rightarrow> (model \<times> node_id) res" where
  "create_live m p k kd =
     bind_res (check_live m p) (\<lambda>_. create_child m p k kd)"

text \<open>A created file comes with a descriptor at position 0.\<close>

definition create_open :: "model \<Rightarrow> node_id \<Rightarrow> bytes \<Rightarrow> bool \<Rightarrow> (model \<times> outcome) res" where
  "create_open m p k w =
     bind_res (create_live m p k (KFile [])) (\<lambda>(m', i).
       let (m'', fd) = alloc_fd m' (FdFile i 0 w) in Ok (m'', okout (uint fd)))"

section \<open>Directories, files and descriptors\<close>

definition do_mkdir :: "model \<Rightarrow> start \<Rightarrow> bytes \<Rightarrow> (model \<times> outcome) res" where
  "do_mkdir m s path = reply m
     (if is_root_operand path then Err (root_mutation_errno m EEXIST)
      else
        bind_res (resolve_parent m s path) (\<lambda>(parent0, name, trailing).
        bind_res (check_dir m parent0) (\<lambda>_.
        bind_res
          (if trailing \<and> is_mac m then
             bind_res (trail_mac m s parent0 (key m name) path) (\<lambda>t.
               case t of
                 TMissing \<Rightarrow> Ok (parent0, key m name)
               | TDangling p n \<Rightarrow> Ok (p, key m n)
               | TDirectory d \<Rightarrow> Err EEXIST
               | TNonDir \<Rightarrow> Err ENOTDIR)
           else Ok (parent0, key m name)) (\<lambda>(parent, k).
        bind_res (has_child m parent k) (\<lambda>ex.
          if ex then Err EEXIST
          else bind_res (create_live m parent k KDir) (\<lambda>(m', i). Ok (m', okout 0)))))))"

text \<open>
  \<^verbatim>\<open>open\<close>. The branch for a trailing slash falls through to the lookup when the path
  names \<open>.\<close> or \<open>..\<close> (\<^verbatim>\<open>Err(libc::EINVAL) => {}\<close>): \<open>None\<close> below.
\<close>

definition open_trailing :: "model \<Rightarrow> start \<Rightarrow> bytes \<Rightarrow> open_flags \<Rightarrow> errno option res" where
  "open_trailing m s path flags =
     (case resolve_parent_unchecked m s path of
        Ok (parent, name, _) \<Rightarrow>
          bind_res (check_dir m parent) (\<lambda>_.
            if \<not> is_mac m then Ok (Some EISDIR)
            else if NAME_MAX < length name then Ok (Some ENAMETOOLONG)
            else
              (case trail_mac m s parent (key m name) path of
                 Err e \<Rightarrow> Ok (Some e)
               | Abort x \<Rightarrow> Abort x
               | Ok t \<Rightarrow>
                   Ok (Some (case t of
                               TMissing \<Rightarrow> ENOENT
                             | TDangling p n \<Rightarrow> ENOENT
                             | TNonDir \<Rightarrow> ENOTDIR
                             | TDirectory d \<Rightarrow> if o_excl flags then EEXIST else EISDIR))))
      | Err e \<Rightarrow> if e = EINVAL then Ok None else Err e
      | Abort x \<Rightarrow> Abort x)"

definition open_exclusive ::
  "model \<Rightarrow> start \<Rightarrow> bytes \<Rightarrow> open_flags \<Rightarrow> (model \<times> outcome) res" where
  "open_exclusive m s path flags =
     bind_res (resolve_parent m s path) (\<lambda>(parent, name, _).
     bind_res (check_dir m parent) (\<lambda>_.
     bind_res (has_child m parent (key m name)) (\<lambda>ex.
       if ex then Err EEXIST
       else if o_directory flags then Err ENOTDIR
       else create_open m parent (key m name) (o_write flags))))"

definition open_node :: "model \<Rightarrow> node_id \<Rightarrow> open_flags \<Rightarrow> (model \<times> outcome) res" where
  "open_node m i flags =
     bind_res (nd m i) (\<lambda>n.
       case n_kind n of
         KSymlink t \<Rightarrow> Err (if o_directory flags then ENOTDIR else ELOOP)
       | KSocket \<Rightarrow> Err (if is_mac m then EOPNOTSUPP else ENXIO)
       | KFile d \<Rightarrow>
           (if o_directory flags then Err ENOTDIR
            else
              bind_res
                (if o_trunc flags then upd_node m i (\<lambda>n. n\<lparr>n_kind := KFile []\<rparr>) else Ok m)
                (\<lambda>m'. let (m'', fd) = alloc_fd m' (FdFile i 0 (o_write flags))
                      in Ok (m'', okout (uint fd))))
       | _ \<Rightarrow>
           (if o_write flags \<or> o_trunc flags then Err EISDIR
            else let (m', fd) = alloc_fd m (FdDir i) in Ok (m', okout (uint fd))))"

definition open_create_missing ::
  "model \<Rightarrow> start \<Rightarrow> bytes \<Rightarrow> open_flags \<Rightarrow> (model \<times> outcome) res" where
  "open_create_missing m s path flags =
     (if o_directory flags then Err ENOTDIR
      else
        bind_res (resolve_for_create m s path) (\<lambda>(parent, name, _).
        bind_res (check_dir m parent) (\<lambda>_.
        bind_res (has_child m parent (key m name)) (\<lambda>ex.
          if ex then Err EEXIST
          else create_open m parent (key m name) (o_write flags)))))"

definition open_lookup :: "model \<Rightarrow> start \<Rightarrow> bytes \<Rightarrow> open_flags \<Rightarrow> (model \<times> outcome) res" where
  "open_lookup m s path flags =
     (case resolve m Virtual s path (\<not> o_nofollow flags) of
        Ok i \<Rightarrow> open_node m i flags
      | Err e \<Rightarrow>
          (if e = ENOENT \<and> o_create flags then open_create_missing m s path flags else Err e)
      | Abort x \<Rightarrow> Abort x)"

definition do_open :: "model \<Rightarrow> start \<Rightarrow> bytes \<Rightarrow> open_flags \<Rightarrow> (model \<times> outcome) res" where
  "do_open m s path flags = reply m
     (if o_create flags \<and> o_directory flags then Err EINVAL
      else if o_create flags \<and> is_root_operand path then
        Err (root_mutation_errno m (if o_excl flags then EEXIST else EISDIR))
      else
        bind_res
          (if o_create flags \<and> 1 < length path \<and> ends_with path ''/''
           then open_trailing m s path flags else Ok None)
          (\<lambda>stop. case stop of
             Some e \<Rightarrow> Err e
           | None \<Rightarrow>
               if o_create flags \<and> o_excl flags then open_exclusive m s path flags
               else open_lookup m s path flags))"

definition do_opendir :: "model \<Rightarrow> start \<Rightarrow> bytes \<Rightarrow> (model \<times> outcome) res" where
  "do_opendir m s path = reply m
     (bind_res (resolve m Virtual s path True) (\<lambda>i.
      bind_res (check_dir m i) (\<lambda>_.
        let (m', fd) = alloc_fd m (FdDir i) in Ok (m', okout (uint fd)))))"

text \<open>\<^verbatim>\<open>resize\<close> with zeros up to the position and to the end, then \<^verbatim>\<open>copy_from_slice\<close>.\<close>

definition resize_to :: "nat \<Rightarrow> bytes \<Rightarrow> bytes" where
  "resize_to n c = (if length c < n then c @ replicate (n - length c) nul else c)"

definition write_at :: "bytes \<Rightarrow> nat \<Rightarrow> bytes \<Rightarrow> bytes" where
  "write_at content pos d =
     (let end = pos + length d; c = resize_to end (resize_to pos content)
      in take pos c @ d @ drop end c)"

definition do_write :: "model \<Rightarrow> u32 \<Rightarrow> bytes \<Rightarrow> (model \<times> outcome) res" where
  "do_write m fd d = reply m
     (case bt_get (m_fds m) fd of
        Some (FdFile i pos True) \<Rightarrow>
          bind_res (nd m i) (\<lambda>n.
            case n_kind n of
              KFile content \<Rightarrow>
                bind_res (upd_node m i (\<lambda>n. n\<lparr>n_kind := KFile (write_at content pos d)\<rparr>)) (\<lambda>m'.
                  Ok (m'\<lparr>m_fds := bt_insert fd (FdFile i (pos + length d) True) (m_fds m')\<rparr>,
                      okout (int (length d))))
            | _ \<Rightarrow> Err EBADF)
      | _ \<Rightarrow> Err EBADF)"

definition do_read :: "model \<Rightarrow> u32 \<Rightarrow> nat \<Rightarrow> (model \<times> outcome) res" where
  "do_read m fd len = reply m
     (case bt_get (m_fds m) fd of
        Some (FdFile i pos w) \<Rightarrow>
          bind_res (nd m i) (\<lambda>n.
            case n_kind n of
              KFile content \<Rightarrow>
                (let st = min pos (length content);
                     en = min (st + len) (length content);
                     slice = take (en - st) (drop st content);
                     cnt = length slice
                 in Ok (m\<lparr>m_fds := bt_insert fd (FdFile i (pos + cnt) w) (m_fds m)\<rparr>,
                        dataout (int cnt) slice))
            | _ \<Rightarrow> Err EBADF)
      | Some (FdDir i) \<Rightarrow> Err EISDIR
      | None \<Rightarrow> Err EBADF)"

definition do_close :: "model \<Rightarrow> u32 \<Rightarrow> (model \<times> outcome) res" where
  "do_close m fd = reply m
     (if bt_get (m_fds m) fd \<noteq> None
      then Ok (m\<lparr>m_fds := bt_remove fd (m_fds m)\<rparr>, okout 0)
      else Err EBADF)"

section \<open>Links\<close>

definition do_symlink :: "model \<Rightarrow> bytes \<Rightarrow> bytes \<Rightarrow> (model \<times> outcome) res" where
  "do_symlink m target path = reply m
     (if path_max m \<le> length target then Err ENAMETOOLONG
      else if target = [] \<and> \<not> is_mac m then Err ENOENT
      else if is_root_operand path then Err (root_mutation_errno m EEXIST)
      else
        bind_res (resolve_parent m Cwd path) (\<lambda>(parent, name, trailing).
        bind_res (check_dir m parent) (\<lambda>_.
          if trailing then
            bind_res (trailing_create_errno m Cwd parent (key m name) path EEXIST) Err
          else
            bind_res (has_child m parent (key m name)) (\<lambda>ex.
              if ex then Err EEXIST
              else
                bind_res (create_live m parent (key m name) (KSymlink target)) (\<lambda>(m', i).
                  Ok (m', okout 0))))))"

definition do_readlink :: "model \<Rightarrow> bytes \<Rightarrow> (model \<times> outcome) res" where
  "do_readlink m path = reply m
     (bind_res (resolve m Virtual Cwd path False) (\<lambda>i.
      bind_res (nd m i) (\<lambda>n.
        case n_kind n of
          KSymlink t \<Rightarrow> Ok (m, dataout (int (length t)) t)
        | _ \<Rightarrow> Err EINVAL)))"

section \<open>Rename and removal\<close>

definition find_mount :: "model \<Rightarrow> bytes \<Rightarrow> bytes \<Rightarrow> node_id option res" where
  "find_mount m root suffix =
     (case resolve m Physical Root (root @ suffix) True of
        Ok i \<Rightarrow> Ok (Some i)
      | Err e \<Rightarrow> Ok None
      | Abort x \<Rightarrow> Abort x)"

fun mount_of_loop ::
  "nat \<Rightarrow> model \<Rightarrow> node_id option \<Rightarrow> node_id option \<Rightarrow> node_id \<Rightarrow> nat res" where
  "mount_of_loop 0 m tmp var_tmp i = Abort Diverge"
| "mount_of_loop (Suc f) m tmp var_tmp i =
     (if Some i = tmp then Ok 1
      else if Some i = var_tmp then Ok 2
      else bind_res (nd m i) (\<lambda>n.
        case n_parent n of
          Some p \<Rightarrow> if p \<noteq> i then mount_of_loop f m tmp var_tmp p else Ok 0
        | None \<Rightarrow> Ok 0))"

definition mount_of :: "model \<Rightarrow> node_id \<Rightarrow> nat res" where
  "mount_of m i =
     (case m_profile m of
        MacShim r \<Rightarrow> Ok 0
      | LinuxMount root \<Rightarrow>
          bind_res (find_mount m root ''/tmp'') (\<lambda>tmp.
          bind_res (find_mount m root ''/var/tmp'') (\<lambda>var_tmp.
            mount_of_loop (chain_fuel m) m tmp var_tmp i)))"

text \<open>Both operands of a rename of the root: on Linux a bad parent is reported first.\<close>

definition rename_root :: "model \<Rightarrow> bytes \<Rightarrow> bytes \<Rightarrow> (model \<times> outcome) res" where
  "rename_root m from to =
     (let parent_ok = (\<lambda>p.
        if is_root_operand p then Ok ()
        else bind_res (resolve_parent m Cwd p) (\<lambda>_. Ok ()))
      in bind_res
           (if is_mac m then Ok ()
            else bind_res (parent_ok from) (\<lambda>_. parent_ok to))
           (\<lambda>_. Err (root_mutation_errno m EBUSY)))"

text \<open>The source: its parent, its key and its node, through a trailing slash on macOS.\<close>

definition rename_source :: "model \<Rightarrow> bytes \<Rightarrow> (node_id \<times> bytes \<times> node_id \<times> bool) res" where
  "rename_source m from =
     bind_res (resolve_parent m Cwd from) (\<lambda>(parent, name, trailing).
     bind_res (find_child m parent (key m name)) (\<lambda>found.
       case found of
         None \<Rightarrow> Err ENOENT
       | Some child \<Rightarrow>
           if trailing \<and> is_mac m then
             bind_res (trail_mac m Cwd parent (key m name) from) (\<lambda>t.
               case t of
                 TMissing \<Rightarrow> Err ENOENT
               | TDangling p n \<Rightarrow> Err ENOENT
               | TNonDir \<Rightarrow> Err ENOTDIR
               | TDirectory d \<Rightarrow>
                   if d \<noteq> child then
                     bind_res (owner_of m d) (\<lambda>(p, k). Ok (p, k, d, trailing))
                   else Ok (parent, key m name, child, trailing))
           else Ok (parent, key m name, child, trailing)))"

text \<open>The destination: the directory and the key under which the source will be found.\<close>

definition rename_target :: "model \<Rightarrow> bytes \<Rightarrow> bool \<Rightarrow> (node_id \<times> bytes \<times> bool) res" where
  "rename_target m to from_is_dir =
     bind_res (resolve_parent m Cwd to) (\<lambda>(parent, name, trailing).
     bind_res (check_dir m parent) (\<lambda>_.
       if trailing \<and> is_mac m then
         bind_res (trail_mac m Cwd parent (key m name) to) (\<lambda>t.
           case t of
             TMissing \<Rightarrow> if from_is_dir then Ok (parent, key m name, trailing) else Err ENOENT
           | TDangling p n \<Rightarrow> if from_is_dir then Ok (p, key m n, trailing) else Err ENOENT
           | TNonDir \<Rightarrow> Err ENOTDIR
           | TDirectory d \<Rightarrow>
               bind_res (find_child m parent (key m name)) (\<lambda>found.
                 if found \<noteq> Some d then
                   bind_res (owner_of m d) (\<lambda>(p, k). Ok (p, k, trailing))
                 else Ok (parent, key m name, trailing)))
       else Ok (parent, key m name, trailing)))"

text \<open>
  What stands at the destination: \<open>None\<close> ends the call with success and no change (the two
  names are the same node), otherwise the node that the rename replaces, if any.
\<close>

definition rename_existing ::
  "model \<Rightarrow> node_id \<Rightarrow> bool \<Rightarrow> node_id \<Rightarrow> bytes \<Rightarrow> node_id option option res" where
  "rename_existing m from_id from_is_dir to_parent to_key =
     bind_res (find_child m to_parent to_key) (\<lambda>existing.
       case existing of
         None \<Rightarrow> Ok (Some None)
       | Some e \<Rightarrow>
           if e = from_id then Ok None
           else
             bind_res (if is_mac m then Ok False else is_descendant m e from_id) (\<lambda>trap.
               if trap then Err ENOTEMPTY
               else
                 bind_res (nd m e) (\<lambda>en.
                   case (from_is_dir, is_dir_kind (n_kind en)) of
                     (True, True) \<Rightarrow>
                       if n_children en \<noteq> [] then Err ENOTEMPTY else Ok (Some (Some e))
                   | (True, False) \<Rightarrow> Err ENOTDIR
                   | (False, True) \<Rightarrow> Err EISDIR
                   | (False, False) \<Rightarrow> Ok (Some (Some e)))))"

text \<open>The change itself: unlink the source, detach a replaced directory, link and reparent.\<close>

definition rename_commit ::
  "model \<Rightarrow> node_id \<Rightarrow> bytes \<Rightarrow> node_id \<Rightarrow> node_id \<Rightarrow> bytes \<Rightarrow> node_id option \<Rightarrow> model res" where
  "rename_commit m from_parent from_key from_id to_parent to_key existing =
     bind_res (remove_child m from_parent from_key) (\<lambda>m1.
     bind_res
       (case existing of
          None \<Rightarrow> Ok m1
        | Some e \<Rightarrow>
            bind_res (nd m1 e) (\<lambda>en.
              if is_dir_kind (n_kind en) then upd_node m1 e (\<lambda>n. n\<lparr>n_detached := True\<rparr>)
              else Ok m1)) (\<lambda>m2.
     bind_res (insert_child m2 to_parent to_key from_id) (\<lambda>m3.
       upd_node m3 from_id (\<lambda>n. n\<lparr>n_parent := Some to_parent\<rparr>))))"

definition do_rename :: "model \<Rightarrow> bytes \<Rightarrow> bytes \<Rightarrow> (model \<times> outcome) res" where
  "do_rename m from to = reply m
     (if is_root_operand from \<or> is_root_operand to then rename_root m from to
      else
        bind_res (rename_source m from) (\<lambda>(from_parent, from_key, from_id, from_trailing).
        bind_res (nd m from_id) (\<lambda>fn.
          let from_is_dir = is_dir_kind (n_kind fn)
          in
        bind_res (rename_target m to from_is_dir) (\<lambda>(to_parent, to_key, to_trailing).
        bind_res (mount_of m from_parent) (\<lambda>fm.
        bind_res (mount_of m to_parent) (\<lambda>tm.
          if fm \<noteq> tm then Err EXDEV
          else
        bind_res (check_live m to_parent) (\<lambda>_.
          if \<not> is_mac m \<and> (from_trailing \<or> to_trailing) \<and> \<not> from_is_dir then Err ENOTDIR
          else
        bind_res (if to_parent = from_id then Ok True else is_descendant m from_id to_parent)
          (\<lambda>below.
             if below then Err EINVAL
             else
        bind_res (rename_existing m from_id from_is_dir to_parent to_key) (\<lambda>decision.
          case decision of
            None \<Rightarrow> Ok (m, okout 0)
          | Some existing \<Rightarrow>
              bind_res
                (rename_commit m from_parent from_key from_id to_parent to_key existing)
                (\<lambda>m'. Ok (m', okout 0)))))))))))"

text \<open>What \<^verbatim>\<open>unlink\<close> and \<^verbatim>\<open>rmdir\<close> act on: through a trailing slash on macOS.\<close>

definition unlink_victim ::
  "model \<Rightarrow> start \<Rightarrow> bytes \<Rightarrow> bool \<Rightarrow> (node_id \<times> bytes \<times> node_id \<times> bool) res" where
  "unlink_victim m s path is_rmdir =
     bind_res (resolve_parent m s path) (\<lambda>(parent, name, trailing).
     bind_res (find_child m parent (key m name)) (\<lambda>found.
       case found of
         None \<Rightarrow> Err ENOENT
       | Some i \<Rightarrow>
           if trailing \<and> is_mac m then
             bind_res (trail_mac m s parent (key m name) path) (\<lambda>t.
               case t of
                 TMissing \<Rightarrow> Err ENOENT
               | TDangling p n \<Rightarrow> Err ENOENT
               | TNonDir \<Rightarrow> Err ENOTDIR
               | TDirectory d \<Rightarrow>
                   if \<not> is_rmdir then Err EPERM
                   else if d \<noteq> i then
                     bind_res (owner_of m d) (\<lambda>(p, k). Ok (p, k, d, trailing))
                   else Ok (parent, key m name, i, trailing))
           else Ok (parent, key m name, i, trailing)))"

definition unlink_impl :: "model \<Rightarrow> start \<Rightarrow> bytes \<Rightarrow> bool \<Rightarrow> (model \<times> outcome) res" where
  "unlink_impl m s path is_rmdir = reply m
     (if is_root_operand path
      then Err (root_mutation_errno m (if is_rmdir then EBUSY else EISDIR))
      else
        bind_res (unlink_victim m s path is_rmdir) (\<lambda>(parent, k, i, trailing).
        bind_res (nd m i) (\<lambda>n.
          let is_dir = is_dir_kind (n_kind n)
          in if is_rmdir \<and> \<not> is_dir then Err ENOTDIR
             else if is_rmdir \<and> n_children n \<noteq> [] then Err ENOTEMPTY
             else if \<not> is_rmdir \<and> is_dir then Err EISDIR
             else if \<not> is_rmdir \<and> trailing then Err ENOTDIR
             else
               bind_res (remove_child m parent k) (\<lambda>m1.
               bind_res
                 (if is_rmdir then upd_node m1 i (\<lambda>n. n\<lparr>n_detached := True\<rparr>) else Ok m1)
                 (\<lambda>m2. Ok (m2, okout 0))))))"

section \<open>Working directory and queries\<close>

definition do_chdir :: "model \<Rightarrow> bytes \<Rightarrow> (model \<times> outcome) res" where
  "do_chdir m path = reply m
     (bind_res (resolve m Virtual Cwd path True) (\<lambda>i.
      bind_res (check_dir m i) (\<lambda>_. Ok (m\<lparr>m_cwd := i\<rparr>, okout 0))))"

definition do_getcwd :: "model \<Rightarrow> (model \<times> outcome) res" where
  "do_getcwd m = reply m
     (bind_res (is_detached m (m_cwd m)) (\<lambda>d.
        if d then Err ENOENT
        else bind_res (full_path m Virtual (m_cwd m)) (\<lambda>p.
               Ok (m, dataout (int (length p)) p))))"

definition do_realpath :: "model \<Rightarrow> bytes \<Rightarrow> (model \<times> outcome) res" where
  "do_realpath m path = reply m
     (bind_res (if starts_with path ''/'' then Ok False else is_detached m (m_cwd m)) (\<lambda>d.
        if d then Err ENOENT
        else
          bind_res (resolve m Virtual Cwd path True) (\<lambda>i.
          bind_res (full_path m Virtual i) (\<lambda>p.
            Ok (m, dataout (int (length p)) p)))))"

fun kind_code :: "node_kind \<Rightarrow> nat" where
  "kind_code KDir = 0"
| "kind_code (KFile d) = 1"
| "kind_code (KSymlink t) = 2"
| "kind_code KSocket = 3"
| "kind_code KOpaque = 4"

definition do_stat :: "model \<Rightarrow> bytes \<Rightarrow> bool \<Rightarrow> (model \<times> outcome) res" where
  "do_stat m path follow = reply m
     (bind_res (resolve m Virtual Cwd path follow) (\<lambda>i.
      bind_res (nd m i) (\<lambda>n.
        Ok (m, dataout 0 [char_of (kind_code (n_kind n))]))))"

text \<open>\<^verbatim>\<open>List\<close>: the keys in order, joined by newlines.\<close>

fun join_with :: "'a \<Rightarrow> 'a list list \<Rightarrow> 'a list" where
  "join_with c [] = []"
| "join_with c [x] = x"
| "join_with c (x # y # r) = x @ c # join_with c (y # r)"

definition do_list :: "model \<Rightarrow> bytes \<Rightarrow> (model \<times> outcome) res" where
  "do_list m path = reply m
     (bind_res (resolve m Virtual Cwd path True) (\<lambda>i.
      bind_res (check_dir m i) (\<lambda>_.
      bind_res (nd m i) (\<lambda>n.
        let names = bt_keys (n_children n)
        in Ok (m, dataout (int (length names)) (join_with (CHR 0x0A) names))))))"

section \<open>Sockets and temporary files\<close>

definition do_bind :: "model \<Rightarrow> bytes \<Rightarrow> (model \<times> outcome) res" where
  "do_bind m path = reply m
     (if is_root_operand path then Err (if is_mac m then EISDIR else EADDRINUSE)
      else
        bind_res (resolve_parent m Cwd path) (\<lambda>(parent0, name, trailing).
        bind_res (check_dir m parent0) (\<lambda>_.
          if trailing then
            bind_res (trailing_create_errno m Cwd parent0 (key m name) path EADDRINUSE) Err
          else if sun_path_cap m \<le> length name then Err ENAMETOOLONG
          else
        bind_res (find_child m parent0 (key m name)) (\<lambda>found.
        bind_res
          (case found of
             None \<Rightarrow> Ok (parent0, key m name)
           | Some i \<Rightarrow>
               bind_res (nd m i) (\<lambda>n.
                 if is_mac m \<and> is_symlink_kind (n_kind n) then
                   (case resolve_for_create m Cwd path of
                      Ok (p, nm, _) \<Rightarrow> Ok (p, key m nm)
                    | Err e \<Rightarrow> if e = EEXIST then Err EADDRINUSE else Err e
                    | Abort x \<Rightarrow> Abort x)
                 else Ok (parent0, key m name))) (\<lambda>(parent, k).
        bind_res (check_dir m parent) (\<lambda>_.
        bind_res (has_child m parent k) (\<lambda>ex.
          if ex then Err EADDRINUSE
          else
            bind_res (create_live m parent k KSocket) (\<lambda>(m', i). Ok (m', okout 0)))))))))"

definition do_connect :: "model \<Rightarrow> bytes \<Rightarrow> (model \<times> outcome) res" where
  "do_connect m path = reply m
     (if path_max m \<le> length path then Err ENAMETOOLONG
      else if is_root_operand path then Err (if is_mac m then ENOTSOCK else EACCES)
      else
        bind_res (parent_and_name path) (\<lambda>(dir, name, trailing).
        bind_res (if dir = ''.'' then Ok (m_cwd m) else resolve m Virtual Cwd dir True) (\<lambda>parent.
        bind_res (check_dir m parent) (\<lambda>_.
          if sun_path_cap m \<le> length name + of_bool trailing then Err ENAMETOOLONG
          else
        bind_res (resolve m Virtual Cwd path True) (\<lambda>i.
        bind_res (nd m i) (\<lambda>n.
          case n_kind n of
            KSocket \<Rightarrow> Ok (m, okout 0)
          | _ \<Rightarrow> Err (if is_mac m then ENOTSOCK else ECONNREFUSED)))))))"

definition do_mkstemp :: "model \<Rightarrow> bytes \<Rightarrow> (model \<times> outcome) res" where
  "do_mkstemp m name = reply m
     (if name = [] \<or> slash \<in> set name then Err EINVAL
      else if NAME_MAX < length name then Err ENAMETOOLONG
      else
        bind_res (check_dir m (m_cwd m)) (\<lambda>_.
          if name = ''.'' \<or> name = ''..'' then Err EEXIST
          else
            bind_res (has_child m (m_cwd m) (key m name)) (\<lambda>ex.
              if ex then Err EEXIST
              else create_open m (m_cwd m) (key m name) True)))"

section \<open>Dispatch\<close>

fun apply_op :: "model \<Rightarrow> op \<Rightarrow> (model \<times> outcome) res" where
  "apply_op m (Mkdir path mode) = do_mkdir m Cwd path"
| "apply_op m (MkdirAt dirfd path) = do_mkdir m (at_start dirfd path) path"
| "apply_op m (Open path flags) = do_open m Cwd path flags"
| "apply_op m (OpenAt dirfd path flags) = do_open m (at_start dirfd path) path flags"
| "apply_op m (OpenDir path) = do_opendir m Cwd path"
| "apply_op m (Write fd d) = do_write m fd d"
| "apply_op m (Read fd len) = do_read m fd len"
| "apply_op m (Symlink target path) = do_symlink m target path"
| "apply_op m (Readlink path) = do_readlink m path"
| "apply_op m (Rename from to) = do_rename m from to"
| "apply_op m (Unlink path) = unlink_impl m Cwd path False"
| "apply_op m (Rmdir path) = unlink_impl m Cwd path True"
| "apply_op m (UnlinkAt dirfd path rmdir) = unlink_impl m (at_start dirfd path) path rmdir"
| "apply_op m (Chdir path) = do_chdir m path"
| "apply_op m Getcwd = do_getcwd m"
| "apply_op m (Realpath path) = do_realpath m path"
| "apply_op m (Stat path) = do_stat m path True"
| "apply_op m (Lstat path) = do_stat m path False"
| "apply_op m (Bind path) = do_bind m path"
| "apply_op m (Connect path) = do_connect m path"
| "apply_op m (MkstempAdopt name) = do_mkstemp m name"
| "apply_op m (ListDir path) = do_list m path"
| "apply_op m (CloseFd fd) = do_close m fd"

text \<open>A sequence of operations, with the outcomes in order.\<close>

fun apply_all :: "model \<Rightarrow> op list \<Rightarrow> (model \<times> outcome list) res" where
  "apply_all m [] = Ok (m, [])"
| "apply_all m (x # xs) =
     bind_res (apply_op m x) (\<lambda>(m', out).
     bind_res (apply_all m' xs) (\<lambda>(m'', outs). Ok (m'', out # outs)))"

end
