(* ===== verification/Chains.thy ===== *)
theory Chains
  imports Prelude
begin

text \<open>
  Chains of parent links, independent of what the nodes are: \<open>up_path par i xs\<close> says that
  following \<open>par\<close> from \<open>i\<close> visits exactly \<open>xs\<close> and then stops. The loops of the
  filesystem model that climb towards the root run along such a chain; that it exists for
  every node is the acyclicity part of the model's invariant.
\<close>

inductive up_path :: "(nat \<Rightarrow> nat option) \<Rightarrow> nat \<Rightarrow> nat list \<Rightarrow> bool" for par where
  top: "par i = None \<Longrightarrow> up_path par i [i]"
| up: "par i = Some p \<Longrightarrow> up_path par p xs \<Longrightarrow> up_path par i (i # xs)"

inductive_cases up_path_NilE: "up_path par i []"
inductive_cases up_path_ConsE: "up_path par i (x # xs)"

lemma up_path_hd: "up_path par i xs \<Longrightarrow> \<exists>ys. xs = i # ys"
  by (induction rule: up_path.induct) auto

lemma up_path_unique: "up_path par i xs \<Longrightarrow> up_path par i ys \<Longrightarrow> xs = ys"
proof (induction arbitrary: ys rule: up_path.induct)
  case (top i)
  from top(2,1) show ?case by cases auto
next
  case (up i p xs)
  from up.prems up.hyps(1) up.IH show ?case by cases auto
qed

lemma up_path_suffix: "up_path par i xs \<Longrightarrow> j \<in> set xs \<Longrightarrow> \<exists>pre ys. xs = pre @ ys \<and> up_path par j ys"
proof (induction rule: up_path.induct)
  case (top i)
  then show ?case by (metis append_Nil empty_iff list.set(1) set_ConsD up_path.top)
next
  case (up i p xs)
  show ?case
  proof (cases "j = i")
    case True
    with up.hyps show ?thesis by (metis append_Nil up_path.up)
  next
    case False
    with up obtain pre ys where "xs = pre @ ys" "up_path par j ys" by auto
    then have "i # xs = (i # pre) @ ys \<and> up_path par j ys" by simp
    then show ?thesis by blast
  qed
qed

lemma up_path_distinct: "up_path par i xs \<Longrightarrow> distinct xs"
proof (induction rule: up_path.induct)
  case (top i)
  then show ?case by simp
next
  case (up i p xs)
  have "i \<notin> set xs"
  proof
    assume "i \<in> set xs"
    then obtain pre ys where xs: "xs = pre @ ys" and "up_path par i ys"
      using up_path_suffix [OF up.hyps(2)] by blast
    moreover have "up_path par i (i # xs)" using up.hyps by (rule up_path.up)
    ultimately have "ys = i # xs" by (blast intro: up_path_unique)
    with xs have "length xs = length pre + Suc (length xs)" by (metis length_append length_Cons)
    then show False by simp
  qed
  with up.IH show ?case by simp
qed

lemma up_path_bounded:
  assumes "up_path par i xs" and "\<And>j p. j < n \<Longrightarrow> par j = Some p \<Longrightarrow> p < n" and "i < n"
  shows "set xs \<subseteq> {..<n}"
  using assms by (induction rule: up_path.induct) auto

lemma up_path_length:
  assumes "up_path par i xs" and "\<And>j p. j < n \<Longrightarrow> par j = Some p \<Longrightarrow> p < n" and "i < n"
  shows "length xs \<le> n"
proof -
  have "length xs = card (set xs)"
    using up_path_distinct [OF assms(1)] by (simp add: distinct_card)
  also have "\<dots> \<le> card {..<n}"
    using up_path_bounded [OF assms] by (intro card_mono) auto
  finally show ?thesis by simp
qed

lemma up_path_cong:
  "up_path par i xs \<Longrightarrow> (\<And>j. j \<in> set xs \<Longrightarrow> par' j = par j) \<Longrightarrow> up_path par' i xs"
  by (induction rule: up_path.induct) (auto intro: up_path.intros)

lemma up_path_parent_neq: "up_path par i xs \<Longrightarrow> par i = Some p \<Longrightarrow> p \<noteq> i"
proof
  assume "up_path par i xs" "par i = Some p" "p = i"
  then obtain ys where "xs = i # ys" "up_path par i ys"
    by (auto elim: up_path.cases)
  then show False
    using up_path_unique [OF \<open>up_path par i xs\<close>, of ys] by simp
qed

text \<open>
  Hanging a node below another keeps every chain finite as long as the new parent is not
  below the node itself.
\<close>

lemma up_path_reparent:
  assumes i: "up_path par i xs" and q: "up_path par q ys" and new: "x \<notin> set ys"
  shows "\<exists>zs. up_path (par(x := Some q)) i zs"
proof -
  let ?par = "par(x := Some q)"
  have q': "up_path ?par q ys"
    by (rule up_path_cong [OF q]) (use new in auto)
  then have x': "up_path ?par x (x # ys)"
    by (auto intro: up_path.up)
  show ?thesis using i
  proof (induction rule: up_path.induct)
    case (top i)
    have "i \<noteq> x \<Longrightarrow> up_path ?par i [i]" using top by (intro up_path.top) simp
    then show ?case using x' by blast
  next
    case (up i p xs)
    then obtain zs where "up_path ?par p zs" by blast
    then have "i \<noteq> x \<Longrightarrow> up_path ?par i (i # zs)" using up.hyps(1) by (intro up_path.up) auto
    then show ?case using x' by blast
  qed
qed

end
