(* ===== verification/Fs_Inv.thy ===== *)
theory Fs_Inv
  imports Fs_Ops Chains
begin

text \<open>
  The invariant of a filesystem model and what it gives for the read-only half of the
  code. \<open>wf m\<close> says that every index stored in the model is in range, that a child's
  \<^verbatim>\<open>parent\<close> is the directory that lists it, that the parent links lead to the root, and
  that the working directory, the open directories and the mount targets are never
  themselves mountpoints. From it: node access does not panic, the climbing loops end
  within their fuel, and every form of path resolution returns a valid node or an errno.
\<close>

section \<open>The invariant\<close>

abbreviation node_at :: "model \<Rightarrow> node_id \<Rightarrow> node" where
  "node_at m i \<equiv> m_nodes m ! i"

abbreviation size_of :: "model \<Rightarrow> nat" where
  "size_of m \<equiv> length (m_nodes m)"

definition par :: "model \<Rightarrow> node_id \<Rightarrow> node_id option" where
  "par m i = n_parent (node_at m i)"

text \<open>The child of a directory under a key.\<close>

definition child :: "model \<Rightarrow> node_id \<Rightarrow> bytes \<Rightarrow> node_id option" where
  "child m i k = bt_get (n_children (node_at m i)) k"

text \<open>A node that a lookup in the given view can end at.\<close>

definition ok_id :: "model \<Rightarrow> view \<Rightarrow> node_id \<Rightarrow> bool" where
  "ok_id m v i = (i < size_of m \<and> (v = Virtual \<longrightarrow> n_mounted_by (node_at m i) = None))"

definition links_ok :: "model \<Rightarrow> bool" where
  "links_ok m =
     (\<forall>i < size_of m.
        bt_inv (n_children (node_at m i)) \<and>
        (\<forall>p. par m i = Some p \<longrightarrow> p < size_of m) \<and>
        (\<forall>k c. child m i k = Some c \<longrightarrow> c < size_of m \<and> par m c = Some i) \<and>
        (\<forall>k k' c. child m i k = Some c \<longrightarrow> child m i k' = Some c \<longrightarrow> k = k'))"

definition mounts_ok :: "model \<Rightarrow> bool" where
  "mounts_ok m =
     (\<forall>i < size_of m.
        (\<forall>t. n_mounted_by (node_at m i) = Some t \<longrightarrow> ok_id m Virtual t) \<and>
        (\<forall>p. n_virtual_parent (node_at m i) = Some p \<longrightarrow> p < size_of m))"

fun fd_ok :: "model \<Rightarrow> fd_entry \<Rightarrow> bool" where
  "fd_ok m (FdFile i pos w) = (i < size_of m)"
| "fd_ok m (FdDir i) = ok_id m Virtual i"

definition handles_ok :: "model \<Rightarrow> bool" where
  "handles_ok m =
     (ok_id m Virtual (m_root_node m) \<and> ok_id m Virtual (m_cwd m) \<and>
      (\<forall>fd e. bt_get (m_fds m) fd = Some e \<longrightarrow> fd_ok m e))"

definition chains_ok :: "model \<Rightarrow> bool" where
  "chains_ok m = (\<forall>i < size_of m. \<exists>xs. up_path (par m) i xs)"

definition wf :: "model \<Rightarrow> bool" where
  "wf m = (links_ok m \<and> mounts_ok m \<and> handles_ok m \<and> chains_ok m)"

lemma wf_links: "wf m \<Longrightarrow> links_ok m"
  and wf_mounts: "wf m \<Longrightarrow> mounts_ok m"
  and wf_handles: "wf m \<Longrightarrow> handles_ok m"
  and wf_chains: "wf m \<Longrightarrow> chains_ok m"
  by (simp_all add: wf_def)

lemma ok_id_range [dest]: "ok_id m v i \<Longrightarrow> i < size_of m"
  by (simp add: ok_id_def)

lemma ok_id_Physical [simp]: "ok_id m Physical i \<longleftrightarrow> i < size_of m"
  by (simp add: ok_id_def)

lemma par_range: "wf m \<Longrightarrow> i < size_of m \<Longrightarrow> par m i = Some p \<Longrightarrow> p < size_of m"
  unfolding wf_def links_ok_def by blast

lemma child_range: "wf m \<Longrightarrow> i < size_of m \<Longrightarrow> child m i k = Some c \<Longrightarrow> c < size_of m"
  unfolding wf_def links_ok_def by blast

lemma child_par: "wf m \<Longrightarrow> i < size_of m \<Longrightarrow> child m i k = Some c \<Longrightarrow> par m c = Some i"
  unfolding wf_def links_ok_def by blast

lemma child_key_unique:
  "wf m \<Longrightarrow> i < size_of m \<Longrightarrow> child m i k = Some c \<Longrightarrow> child m i k' = Some c \<Longrightarrow> k = k'"
  unfolding wf_def links_ok_def by blast

lemma children_inv: "wf m \<Longrightarrow> i < size_of m \<Longrightarrow> bt_inv (n_children (node_at m i))"
  unfolding wf_def links_ok_def by blast

lemma wf_root: "wf m \<Longrightarrow> ok_id m v (m_root_node m)"
  and wf_cwd: "wf m \<Longrightarrow> ok_id m v (m_cwd m)"
  by (auto simp: wf_def handles_ok_def ok_id_def)

lemma wf_fd: "wf m \<Longrightarrow> bt_get (m_fds m) fd = Some e \<Longrightarrow> fd_ok m e"
  by (auto simp: wf_def handles_ok_def)

section \<open>Access\<close>

lemma nd_ok [simp]: "i < size_of m \<Longrightarrow> nd m i = Ok (node_at m i)"
  by (simp add: nd_def)

lemma find_child_ok [simp]: "i < size_of m \<Longrightarrow> find_child m i k = Ok (child m i k)"
  by (simp add: find_child_def child_def)

lemma check_dir_ok [simp]:
  "i < size_of m \<Longrightarrow>
     check_dir m i = (if is_dir_kind (n_kind (node_at m i)) then Ok () else Err ENOTDIR)"
  by (simp add: check_dir_def)

lemma upd_node_ok [simp]:
  "i < size_of m \<Longrightarrow>
     upd_node m i f = Ok (m\<lparr>m_nodes := (m_nodes m)[i := f (node_at m i)]\<rparr>)"
  by (simp add: upd_node_def)

lemma has_child_ok [simp]: "i < size_of m \<Longrightarrow> has_child m i k = Ok (child m i k \<noteq> None)"
  by (simp add: has_child_def)

lemma mount_target: "wf m \<Longrightarrow> i < size_of m \<Longrightarrow> n_mounted_by (node_at m i) = Some t \<Longrightarrow> ok_id m Virtual t"
  unfolding wf_def mounts_ok_def by blast

lemma virtual_parent_range:
  "wf m \<Longrightarrow> i < size_of m \<Longrightarrow> n_virtual_parent (node_at m i) = Some p \<Longrightarrow> p < size_of m"
  unfolding wf_def mounts_ok_def by blast

lemma enter_ok: "wf m \<Longrightarrow> i < size_of m \<Longrightarrow> res_ok (ok_id m v) (enter m v i)"
  using mount_target [of m i]
  by (auto simp: enter_def ok_id_def split: option.splits)

lemma enter_id: "ok_id m v i \<Longrightarrow> enter m v i = Ok i"
  by (auto simp: enter_def ok_id_def)

lemma enter_total: "wf m \<Longrightarrow> i < size_of m \<Longrightarrow> \<exists>j. enter m v i = Ok j \<and> ok_id m v j"
  using enter_ok [of m i v] by (auto simp: enter_def split: option.splits)

lemma node_parent_total:
  "wf m \<Longrightarrow> i < size_of m \<Longrightarrow> \<exists>j. node_parent m v i = Ok j \<and> j < size_of m"
  by (cases "n_virtual_parent (node_at m i)"; cases "n_parent (node_at m i)"; cases v)
     (auto simp: node_parent_def dest: par_range [unfolded par_def] virtual_parent_range)

lemma up_total:
  assumes "wf m" "i < size_of m"
  shows "\<exists>j. bind_res (node_parent m v i) (enter m v) = Ok j \<and> ok_id m v j"
proof -
  obtain p where "node_parent m v i = Ok p" "p < size_of m"
    using node_parent_total [OF assms] by blast
  with enter_total [OF assms(1)] show ?thesis by auto
qed

lemma start_node_ok: "wf m \<Longrightarrow> res_ok (ok_id m Virtual) (start_node m s)"
proof (cases s)
  case (Fd fd)
  assume "wf m"
  then show ?thesis
    using wf_fd [of m fd] Fd
    by (auto simp: start_node_def fd_dir_def simp del: fd_ok.simps(1)
        split: option.splits fd_entry.splits)
qed (simp_all add: start_node_def wf_root wf_cwd)

section \<open>Climbing\<close>

lemma chain_exists: "wf m \<Longrightarrow> i < size_of m \<Longrightarrow> \<exists>xs. up_path (par m) i xs"
  by (auto simp: wf_def chains_ok_def)

lemma chain_length:
  "wf m \<Longrightarrow> i < size_of m \<Longrightarrow> up_path (par m) i xs \<Longrightarrow> length xs \<le> size_of m"
  by (rule up_path_length) (auto intro: par_range)

lemma chain_range:
  "wf m \<Longrightarrow> i < size_of m \<Longrightarrow> up_path (par m) i xs \<Longrightarrow> set xs \<subseteq> {..<size_of m}"
  by (rule up_path_bounded) (auto intro: par_range)

lemma is_descendant_loop_chain:
  assumes "up_path (par m) i xs" and "set xs \<subseteq> {..<size_of m}" and "length xs \<le> f"
  shows "is_descendant_loop f m a i = Ok (a \<in> set xs)"
  using assms
proof (induction arbitrary: f rule: up_path.induct)
  case (top i)
  then show ?case by (cases f) (auto simp: par_def)
next
  case (up i p xs)
  have "p \<noteq> i" by (rule up_path_parent_neq [OF up_path.up [OF up.hyps] up.hyps(1)])
  with up show ?case by (cases f) (auto simp: par_def)
qed

lemma is_descendant_chain:
  "wf m \<Longrightarrow> i < size_of m \<Longrightarrow> up_path (par m) i xs \<Longrightarrow> is_descendant m a i = Ok (a \<in> set xs)"
  by (simp add: is_descendant_def is_descendant_loop_chain chain_length chain_range)

lemma is_descendant_total:
  "wf m \<Longrightarrow> i < size_of m \<Longrightarrow> \<exists>b. is_descendant m a i = Ok b"
  using chain_exists is_descendant_chain by blast

lemma is_detached_loop_chain:
  assumes "up_path (par m) i xs" and "set xs \<subseteq> {..<size_of m}" and "length xs \<le> f"
  shows "is_detached_loop f m i = Ok (\<exists>x \<in> set xs. n_detached (node_at m x))"
  using assms
proof (induction arbitrary: f rule: up_path.induct)
  case (top i)
  then show ?case by (cases f) (auto simp: par_def)
next
  case (up i p xs)
  then show ?case by (cases f) (auto simp: par_def)
qed

lemma is_detached_chain:
  "wf m \<Longrightarrow> i < size_of m \<Longrightarrow> up_path (par m) i xs \<Longrightarrow>
     is_detached m i = Ok (\<exists>x \<in> set xs. n_detached (node_at m x))"
  by (simp add: is_detached_def is_detached_loop_chain chain_length chain_range)

lemma is_detached_total: "wf m \<Longrightarrow> i < size_of m \<Longrightarrow> \<exists>b. is_detached m i = Ok b"
  using chain_exists is_detached_chain by blast

lemma check_live_ok: "wf m \<Longrightarrow> i < size_of m \<Longrightarrow> res_ok (\<lambda>_. True) (check_live m i)"
  using is_detached_total [of m i] by (auto simp: check_live_def)

lemma mount_of_loop_ok:
  assumes "up_path (par m) i xs" and "set xs \<subseteq> {..<size_of m}" and "length xs \<le> f"
  shows "\<exists>n. mount_of_loop f m t vt i = Ok n"
  using assms
proof (induction arbitrary: f rule: up_path.induct)
  case (top i)
  then show ?case by (cases f) (auto simp: par_def)
next
  case (up i p xs)
  then show ?case by (cases f) (auto simp: par_def)
qed

section \<open>Walks\<close>

text \<open>
  \<open>walk_ok m n P w\<close>: started with a link count between \<open>n\<close> and the limit, the walk
  neither panics nor runs out of fuel, its value satisfies \<open>P\<close>, and the link count never
  decreases and stays within the limit unless the walk fails.
\<close>

definition walk_ok :: "model \<Rightarrow> nat \<Rightarrow> ('a \<Rightarrow> bool) \<Rightarrow> 'a walk \<Rightarrow> bool" where
  "walk_ok m n P w =
     (\<forall>lc tr. n \<le> lc \<longrightarrow> lc \<le> max_symlinks m \<longrightarrow>
        (case w (lc, tr) of
           (r, lc', tr') \<Rightarrow>
             res_ok P r \<and> lc \<le> lc' \<and> lc' \<le> Suc (max_symlinks m) \<and>
             ((\<exists>a. r = Ok a) \<longrightarrow> lc' \<le> max_symlinks m)))"

lemma walk_okD:
  assumes "walk_ok m n P w" "n \<le> lc" "lc \<le> max_symlinks m" "w (lc, tr) = (r, lc', tr')"
  shows "res_ok P r" "lc \<le> lc'" "lc' \<le> Suc (max_symlinks m)"
    "r = Ok a \<Longrightarrow> P a \<and> lc' \<le> max_symlinks m"
proof -
  have "res_ok P r \<and> lc \<le> lc' \<and> lc' \<le> Suc (max_symlinks m) \<and>
      ((\<exists>a. r = Ok a) \<longrightarrow> lc' \<le> max_symlinks m)"
    using assms(1) [unfolded walk_ok_def, rule_format, OF assms(2,3), of tr] assms(4) by simp
  then show "res_ok P r" "lc \<le> lc'" "lc' \<le> Suc (max_symlinks m)"
    "r = Ok a \<Longrightarrow> P a \<and> lc' \<le> max_symlinks m" by auto
qed

lemma walk_ok_lift: "res_ok P r \<Longrightarrow> walk_ok m n P (lift_walk r)"
  by (simp add: walk_ok_def lift_walk_def)

lemma walk_ok_bind:
  assumes w: "walk_ok m n P w" and f: "\<And>a. P a \<Longrightarrow> walk_ok m n Q (f a)"
  shows "walk_ok m n Q (bind_walk w f)"
  unfolding walk_ok_def
proof (intro allI impI)
  fix lc tr
  assume lc: "n \<le> lc" "lc \<le> max_symlinks m"
  obtain r lc1 tr1 where e: "w (lc, tr) = (r, lc1, tr1)" by (cases "w (lc, tr)") auto
  note r = walk_okD [OF w lc e]
  show "case bind_walk w f (lc, tr) of
      (r, lc', tr') \<Rightarrow>
        res_ok Q r \<and> lc \<le> lc' \<and> lc' \<le> Suc (max_symlinks m) \<and>
        ((\<exists>a. r = Ok a) \<longrightarrow> lc' \<le> max_symlinks m)"
  proof (cases r)
    case (Ok a)
    with r have a: "P a" "lc1 \<le> max_symlinks m" "lc \<le> lc1" by auto
    obtain r2 lc2 tr2 where e2: "f a (lc1, tr1) = (r2, lc2, tr2)"
      by (cases "f a (lc1, tr1)") auto
    have "n \<le> lc1" using lc a by simp
    note r2 = walk_okD [OF f [OF a(1)] this a(2) e2]
    with Ok e e2 a lc show ?thesis by (auto simp: bind_walk_def)
  qed (use r e in \<open>auto simp: bind_walk_def\<close>)
qed

lemma walk_ok_mono: "walk_ok m n P w \<Longrightarrow> n \<le> n' \<Longrightarrow> walk_ok m n' P w"
  unfolding walk_ok_def by (meson le_trans)

lemma walk_ok_weaken:
  assumes w: "walk_ok m n P w" and PQ: "\<And>a. P a \<Longrightarrow> Q a"
  shows "walk_ok m n Q w"
proof -
  have "walk_ok m n Q (bind_walk w (\<lambda>a. lift_walk (Ok a)))"
    by (rule walk_ok_bind [OF w walk_ok_lift]) (simp add: PQ)
  moreover have "bind_walk w (\<lambda>a. lift_walk (Ok a)) = w"
    by (auto simp: bind_walk_def lift_walk_def fun_eq_iff split: prod.splits res.splits)
  ultimately show ?thesis by simp
qed

text \<open>One step of a walk: climbing, and descending into a child.\<close>

lemma climb_ok:
  assumes "wf m" "i < size_of m" and rest: "\<And>j. ok_id m v j \<Longrightarrow> walk_ok m n P (rest j)"
  shows "walk_ok m n P (bind_walk (lift_walk (bind_res (node_parent m v i) (enter m v))) rest)"
  using up_total [OF assms(1,2), of v] rest by (auto simp: bind_walk_def lift_walk_def)

lemma descend_ok:
  assumes m: "wf m" and i: "i < size_of m"
    and fol: "walk_ok m n (\<lambda>t. t < size_of m) fol"
    and rest: "\<And>j. ok_id m v j \<Longrightarrow> walk_ok m n P (rest j)"
  shows "walk_ok m n P
    (bind_walk (lift_walk (nd m i)) (\<lambda>cn.
       bind_walk (if b \<and> is_symlink_kind (n_kind cn) then fol else lift_walk (Ok i)) (\<lambda>t.
       bind_walk (lift_walk (if d then check_dir m t else Ok ())) (\<lambda>_.
       bind_walk (lift_walk (enter m v t)) rest))))"
proof -
  have tail: "walk_ok m n P
      (bind_walk (lift_walk (if d then check_dir m t else Ok ())) (\<lambda>_.
        bind_walk (lift_walk (enter m v t)) rest))" if t: "t < size_of m" for t
    by (rule walk_ok_bind [OF walk_ok_lift [where P = "\<lambda>_. True"]
          walk_ok_bind [OF walk_ok_lift [OF enter_ok [OF m t]] rest]]) (simp_all add: t)
  have "walk_ok m n (\<lambda>t. t < size_of m)
      (if b \<and> is_symlink_kind (n_kind (node_at m i)) then fol else lift_walk (Ok i))"
    using fol i by (simp add: walk_ok_lift)
  from walk_ok_bind [OF this tail] i show ?thesis
    by (simp add: bind_walk_def lift_walk_def)
qed

lemma lookup_ok:
  assumes m: "wf m" and cur: "cur < size_of m"
    and found: "\<And>i. i < size_of m \<Longrightarrow> walk_ok m n P (found i)"
    and none: "res_ok P missing"
  shows "walk_ok m n P
    (bind_walk (lift_walk (bind_res (check_dir m cur) (\<lambda>_. find_child m cur k))) (\<lambda>r.
       case r of None \<Rightarrow> lift_walk missing | Some i \<Rightarrow> found i))"
proof (rule walk_ok_bind [where P = "\<lambda>r. \<forall>i. r = Some i \<longrightarrow> i < size_of m"])
  show "walk_ok m n (\<lambda>r. \<forall>i. r = Some i \<longrightarrow> i < size_of m)
      (lift_walk (bind_res (check_dir m cur) (\<lambda>_. find_child m cur k)))"
    using cur child_range [OF m cur] by (intro walk_ok_lift) simp
qed (auto simp: found none walk_ok_lift split: option.split)

lemma resolve_loop_ok:
  assumes "wf m"
    and fol: "\<And>dir l. dir < size_of m \<Longrightarrow> l < size_of m \<Longrightarrow>
      walk_ok m n (\<lambda>t. t < size_of m) (fol dir l)"
  shows "ok_id m v cur \<Longrightarrow> walk_ok m n (ok_id m v) (resolve_loop fol m v fl ts cs cur)"
proof (induction cs arbitrary: cur)
  case Nil
  then show ?case by (simp add: walk_ok_lift)
next
  case (Cons c cs)
  note cur = ok_id_range [OF Cons.prems]
  note step = lookup_ok [OF assms(1) cur descend_ok [OF assms(1) _ fol [OF cur] Cons.IH]]
  consider "c = ''..''" | "c \<noteq> ''..''" "NAME_MAX < length c" | "c \<noteq> ''..''" "\<not> NAME_MAX < length c"
    by blast
  then show ?case
  proof cases
    case 1
    then show ?thesis using climb_ok [OF assms(1) cur Cons.IH] by simp
  next
    case 2
    then show ?thesis by (simp add: walk_ok_lift)
  next
    case 3
    show ?thesis
      unfolding resolve_loop.simps Let_def if_not_P [OF 3(1)] if_not_P [OF 3(2)]
      by (rule step) simp_all
  qed
qed

lemma resolve_with_ok:
  assumes "wf m" "cur < size_of m"
    and fol: "\<And>dir l. dir < size_of m \<Longrightarrow> l < size_of m \<Longrightarrow>
      walk_ok m n (\<lambda>t. t < size_of m) (fol dir l)"
  shows "walk_ok m n (ok_id m v) (resolve_with fol m v cur path fl)"
proof -
  have "(if hd path = slash then m_root_node m else cur) < size_of m"
    using assms wf_root [OF assms(1)] by auto
  then have "res_ok (ok_id m v) (enter m v (if hd path = slash then m_root_node m else cur))"
    by (rule enter_ok [OF assms(1)])
  then show ?thesis
    unfolding resolve_with_def
    by (auto intro!: walk_ok_lift walk_ok_bind [OF walk_ok_lift resolve_loop_ok [OF assms(1) fol]])
qed

text \<open>Following a link counts it first; the limit and an empty target stop the walk.\<close>

lemma walk_ok_count:
  assumes w: "walk_ok m (Suc n) P w"
  shows "walk_ok m n P
    (\<lambda>(lc, tr). let s = (lc + 1, g tr)
       in if max_symlinks m < lc + 1 then (Err ELOOP, s)
          else if z then (Err ENOENT, s)
          else w s)"
  unfolding walk_ok_def
proof (intro allI impI)
  fix lc tr assume lc: "n \<le> lc" "lc \<le> max_symlinks m"
  obtain r lc' tr' where e: "w (Suc lc, g tr) = (r, lc', tr')"
    by (cases "w (Suc lc, g tr)") auto
  have "res_ok P r \<and> Suc lc \<le> lc' \<and> lc' \<le> Suc (max_symlinks m) \<and>
      ((\<exists>a. r = Ok a) \<longrightarrow> lc' \<le> max_symlinks m)" if "Suc lc \<le> max_symlinks m"
    using walk_okD [OF w _ that e] lc by auto
  then show "case (case (lc, tr) of (lc, tr) \<Rightarrow> let s = (lc + 1, g tr)
       in if max_symlinks m < lc + 1 then (Err ELOOP, s)
          else if z then (Err ENOENT, s)
          else w s) of
      (r, lc', tr') \<Rightarrow> res_ok P r \<and> lc \<le> lc' \<and> lc' \<le> Suc (max_symlinks m) \<and>
        ((\<exists>a. r = Ok a) \<longrightarrow> lc' \<le> max_symlinks m)"
    using lc e by (auto simp: Let_def)
qed

text \<open>With fuel for every link that the limit still allows, no walk runs out of it.\<close>

lemma follow_symlink_ok:
  assumes "wf m"
  shows "dir < size_of m \<Longrightarrow> link < size_of m \<Longrightarrow> n + f = Suc (max_symlinks m) \<Longrightarrow>
    walk_ok m n (\<lambda>t. t < size_of m \<and> (is_symlink_kind (n_kind (node_at m link)) \<longrightarrow> ok_id m v t))
      (follow_symlink f m v dir link)"
proof (induction f arbitrary: n dir link)
  case 0
  then show ?case by (simp add: walk_ok_def)
next
  case (Suc f)
  let ?Q = "\<lambda>t. t < size_of m \<and> (is_symlink_kind (n_kind (node_at m link)) \<longrightarrow> ok_id m v t)"
  show ?case
  proof (cases "n_kind (node_at m link)")
    case (KSymlink target)
    let ?base = "if hd target = slash then m_root_node m else dir"
    have base: "?base < size_of m" using Suc.prems wf_root [OF assms] by auto
    have fol: "walk_ok m (Suc n) (\<lambda>t. t < size_of m) (follow_symlink f m v d l)"
      if "d < size_of m" "l < size_of m" for d l
      by (rule walk_ok_weaken [OF Suc.IH [OF that]]) (use Suc.prems in auto)
    note R = resolve_with_ok [OF assms base fol, where path = target and fl = True]
    have "walk_ok m (Suc n) ?Q (resolve_with (follow_symlink f m v) m v ?base target True)"
      by (rule walk_ok_weaken [OF R]) auto
    from walk_ok_count [OF this, where g = "\<lambda>tr. tr @ [link]" and z = "target = []"]
    show ?thesis
      using Suc.prems KSymlink by (simp add: bind_walk_def lift_walk_def)
  qed (use Suc.prems in \<open>auto simp: bind_walk_def lift_walk_def walk_ok_def\<close>)
qed

section \<open>Resolution\<close>

lemma follow_symlink_start:
  assumes "wf m" "dir < size_of m" "link < size_of m"
  shows "walk_ok m 0
    (\<lambda>t. t < size_of m \<and> (is_symlink_kind (n_kind (node_at m link)) \<longrightarrow> ok_id m v t))
    (follow_symlink (link_fuel m) m v dir link)"
  by (rule follow_symlink_ok [OF assms]) (simp add: link_fuel_def)

lemma follow_symlink_range:
  assumes "wf m" "dir < size_of m" "link < size_of m"
  shows "walk_ok m 0 (\<lambda>t. t < size_of m) (follow_symlink (link_fuel m) m v dir link)"
  by (rule walk_ok_weaken [OF follow_symlink_start [OF assms]]) simp

lemma resolve_inner_ok:
  assumes "wf m" "cur < size_of m"
  shows "walk_ok m 0 (ok_id m v) (resolve_inner m v cur path fl)"
  unfolding resolve_inner_def
  by (rule resolve_with_ok [OF assms follow_symlink_range [OF assms(1)]])

lemma walk_start:
  assumes "walk_ok m 0 P w"
  shows "res_ok P (fst (w (0, tr)))"
  using walk_okD(1) [OF assms, of 0 tr "fst (w (0, tr))" "fst (snd (w (0, tr)))" "snd (snd (w (0, tr)))"]
  by simp

lemma resolve_ok:
  assumes "wf m"
  shows "res_ok (ok_id m v) (resolve m v s path fl)"
  using start_node_ok [OF assms, of s]
proof (cases rule: res_ok_cases)
  case (Ok i)
  then have "res_ok (ok_id m v) (fst (resolve_inner m v i path fl (0, [])))"
    by (intro walk_start [OF resolve_inner_ok [OF assms]]) auto
  with Ok show ?thesis
    by (auto simp: resolve_def resolve_impl_def split: prod.split)
qed (simp add: resolve_def resolve_impl_def)

definition name_ok :: "bytes \<Rightarrow> bool" where
  "name_ok n = (n \<noteq> [] \<and> slash \<notin> set n \<and> n \<noteq> ''.'' \<and> n \<noteq> ''..'')"

lemma real_components_elem:
  "c \<in> set (real_components p) \<Longrightarrow> c \<noteq> [] \<and> c \<noteq> ''.'' \<and> slash \<notin> set c"
  by (auto simp: real_components_def split_on_elem_no_sep)

lemma after_last_slash:
  assumes i: "rposition slash (trim_end slash path) = Some i"
  shows "drop (Suc i) (trim_end slash path) \<noteq> [] \<and>
    slash \<notin> set (drop (Suc i) (trim_end slash path))"
proof -
  let ?t = "trim_end slash path"
  note r = rposition_Some [OF i]
  have "drop (Suc i) ?t \<noteq> []"
  proof
    assume "drop (Suc i) ?t = []"
    with r have i': "i = length ?t - 1" and ne: "?t \<noteq> []" by auto
    from r have "last ?t = slash" unfolding last_conv_nth [OF ne] i' [symmetric] by blast
    then show False using trim_end_last [OF ne] by blast
  qed
  with r show ?thesis by blast
qed

lemma parent_and_name_ok: "res_ok (\<lambda>(d, n, t). n \<noteq> [] \<and> slash \<notin> set n) (parent_and_name path)"
proof (cases "rposition slash (trim_end slash path)")
  case None
  then have "slash \<notin> set (trim_end slash path)" by (simp add: rposition_None)
  then show ?thesis by (simp add: parent_and_name_def Let_def None)
next
  case (Some i)
  from after_last_slash [OF Some] have "0 < i \<Longrightarrow> ?thesis"
    by (simp add: parent_and_name_def Let_def Some)
  moreover from after_last_slash [OF Some] have "i = 0 \<Longrightarrow> ?thesis"
    by (simp add: parent_and_name_def Let_def Some drop_Suc)
  ultimately show ?thesis by blast
qed

text \<open>Where a creation may happen: a directory of the private view and a free, legal name.\<close>

definition free_slot :: "model \<Rightarrow> node_id \<Rightarrow> bytes \<Rightarrow> bool" where
  "free_slot m p n =
     (ok_id m Virtual p \<and> is_dir_kind (n_kind (node_at m p)) \<and> child m p (key m n) = None \<and>
      name_ok n \<and> length n \<le> NAME_MAX)"

lemma create_loop_ok:
  assumes "wf m"
  shows "ok_id m Virtual cur \<Longrightarrow> walk_ok m 0 (ok_id m Virtual) (create_loop m cs cur)"
proof (induction cs arbitrary: cur)
  case Nil
  then show ?case by (simp add: walk_ok_lift)
next
  case (Cons c cs)
  note cur = ok_id_range [OF Cons.prems]
  note step = lookup_ok [OF assms(1) cur descend_ok
      [OF assms(1) _ follow_symlink_range [OF assms(1) cur] Cons.IH, where b = True and d = True]]
  consider "c = ''..''" | "c \<noteq> ''..''" "NAME_MAX < length c" | "c \<noteq> ''..''" "\<not> NAME_MAX < length c"
    by blast
  then show ?case
  proof cases
    case 1
    then show ?thesis using climb_ok [OF assms(1) cur Cons.IH] by simp
  next
    case 2
    then show ?thesis by (simp add: walk_ok_lift)
  next
    case 3
    show ?thesis
      unfolding create_loop.simps if_not_P [OF 3(1)] if_not_P [OF 3(2)]
      using step [where missing = "Err ENOENT"] by simp
  qed
qed

lemma slot_ok:
  assumes m: "wf m" and c: "ok_id m Virtual c" and l: "name_ok l" "length l \<le> NAME_MAX"
    and found: "\<And>i. i < size_of m \<Longrightarrow> walk_ok m n (\<lambda>(p, name). free_slot m p name) (found i)"
  shows "walk_ok m n (\<lambda>(p, name). free_slot m p name)
    (bind_walk (lift_walk (bind_res (check_dir m c) (\<lambda>_. find_child m c (key m l)))) (\<lambda>r.
       case r of None \<Rightarrow> lift_walk (Ok (c, l)) | Some i \<Rightarrow> found i))"
proof (rule walk_ok_bind [where P = "\<lambda>r. r = child m c (key m l) \<and> is_dir_kind (n_kind (node_at m c))"])
  note c' = ok_id_range [OF c]
  show "walk_ok m n (\<lambda>r. r = child m c (key m l) \<and> is_dir_kind (n_kind (node_at m c)))
      (lift_walk (bind_res (check_dir m c) (\<lambda>_. find_child m c (key m l))))"
    using c' by (intro walk_ok_lift) simp
  fix r assume r: "r = child m c (key m l) \<and> is_dir_kind (n_kind (node_at m c))"
  show "walk_ok m n (\<lambda>(p, name). free_slot m p name)
      (case r of None \<Rightarrow> lift_walk (Ok (c, l)) | Some i \<Rightarrow> found i)"
  proof (cases r)
    case None
    with r c l show ?thesis by (auto simp: free_slot_def intro!: walk_ok_lift)
  next
    case (Some i)
    with r have "i < size_of m" by (auto intro: child_range [OF m c'])
    with Some found show ?thesis by simp
  qed
qed

lemma resolve_for_create_inner_ok:
  assumes "wf m"
  shows "cur < size_of m \<Longrightarrow> n + f = Suc (max_symlinks m) \<Longrightarrow>
    walk_ok m n (\<lambda>(p, name). free_slot m p name) (resolve_for_create_inner f m cur path)"
proof (induction f arbitrary: n cur path)
  case 0
  then show ?case by (simp add: walk_ok_def)
next
  case (Suc f)
  let ?P = "\<lambda>(p, name). free_slot m p name"
  let ?base = "if hd path = slash then m_root_node m else cur"
  have base: "?base < size_of m" using Suc.prems wf_root [OF assms] by auto
  have retry: "walk_ok m (Suc n) ?P
      (resolve_for_create_inner f m (if hd target = slash then m_root_node m else c) target)"
    if c: "c < size_of m" for c target
    by (rule Suc.IH) (use c wf_root [OF assms] Suc.prems in auto)
  have final: "walk_ok m n ?P
      (bind_walk (lift_walk (nd m i)) (\<lambda>nn. case n_kind nn of
         KSymlink target \<Rightarrow> (\<lambda>(lc, tr).
           let s = (lc + 1, tr)
           in if max_symlinks m < lc + 1 then (Err ELOOP, s)
              else if target = [] then (Err ENOENT, s)
              else resolve_for_create_inner f m (if hd target = slash then m_root_node m else c)
                     target s)
       | _ \<Rightarrow> lift_walk (Err EEXIST)))"
    if c: "c < size_of m" and i: "i < size_of m" for c i
  proof (cases "n_kind (node_at m i)")
    case (KSymlink target)
    from walk_ok_count [OF retry [OF c], where g = "\<lambda>tr. tr" and z = "target = []"]
    show ?thesis using i KSymlink by (simp add: bind_walk_def lift_walk_def)
  qed (use i in \<open>simp_all add: bind_walk_def lift_walk_def walk_ok_def\<close>)
  have last_ok: "last (real_components path) \<noteq> ''..'' \<Longrightarrow> real_components path \<noteq> [] \<Longrightarrow>
      name_ok (last (real_components path))"
    using real_components_elem [of "last (real_components path)" path]
    by (auto simp: name_ok_def)
  have enter: "walk_ok m n (ok_id m Virtual) (lift_walk (enter m Virtual ?base))"
    by (rule walk_ok_lift [OF enter_ok [OF assms base]])
  have init: "walk_ok m n (ok_id m Virtual) (create_loop m cs c)" if "ok_id m Virtual c" for c cs
    by (rule walk_ok_mono [OF create_loop_ok [OF assms that]]) simp
  show ?case
    unfolding resolve_for_create_inner.simps Let_def
    by (intro if_split [where P = "walk_ok m n ?P", THEN iffD2] conjI impI
        walk_ok_bind [OF enter] walk_ok_bind [OF init])
       (auto intro!: walk_ok_lift [of "?P" "Err _"] slot_ok [OF assms] last_ok final [unfolded Let_def])
qed

lemma resolve_for_create_ok:
  assumes "wf m"
  shows "res_ok (\<lambda>(p, name, t). free_slot m p name) (resolve_for_create m s path)"
  unfolding resolve_for_create_def Let_def
proof (rule res_ok_bind [OF start_node_ok [OF assms]])
  fix i assume "ok_id m Virtual i"
  then have "walk_ok m 0 (\<lambda>(p, name). free_slot m p name)
      (resolve_for_create_inner (link_fuel m) m i path)"
    by (intro resolve_for_create_inner_ok [OF assms]) (auto simp: link_fuel_def)
  from walk_start [OF this]
  show "res_ok (\<lambda>(p, name, t). free_slot m p name)
      (bind_res (fst (resolve_for_create_inner (link_fuel m) m i path (0, []))) (\<lambda>(p, name).
         Ok (p, name, 1 < length path \<and> ends_with path ''/'')))"
    by (rule res_ok_bind) auto
qed

lemma resolve_parent_unchecked_ok:
  assumes "wf m"
  shows "res_ok (\<lambda>(p, name, t). p < size_of m \<and> ok_id m Virtual p \<and> name_ok name)
    (resolve_parent_unchecked m s path)"
proof -
  have dir: "res_ok (\<lambda>p. p < size_of m \<and> ok_id m Virtual p)
      (if d = ''.'' then start_node m s else resolve m Virtual s d True)" for d
    using start_node_ok [OF assms, of s] resolve_ok [OF assms, of Virtual s d True]
    by (auto elim!: res_ok_mono)
  have "res_ok (\<lambda>(p, name, t). p < size_of m \<and> ok_id m Virtual p \<and> name_ok name)
      (if n = ''.'' \<or> n = ''..'' then Err EINVAL
       else bind_res (if d = ''.'' then start_node m s else resolve m Virtual s d True)
        (\<lambda>parent. Ok (parent, n, t)))" if "n \<noteq> [] \<and> slash \<notin> set n" for d n t
  proof (cases "n = ''.'' \<or> n = ''..''")
    case False
    with that have "name_ok n" by (simp add: name_ok_def)
    then show ?thesis unfolding if_not_P [OF False] by (intro res_ok_bind [OF dir]) simp
  qed simp
  then show ?thesis
    unfolding resolve_parent_unchecked_def
    by (intro if_split [where P = "res_ok _", THEN iffD2] conjI impI
        res_ok_bind [OF parent_and_name_ok]) (simp_all only: split_paired_all prod.case res_ok.simps)
qed

lemma resolve_parent_ok:
  assumes "wf m"
  shows "res_ok (\<lambda>(p, name, t). p < size_of m \<and> ok_id m Virtual p \<and>
      is_dir_kind (n_kind (node_at m p)) \<and> name_ok name \<and> length name \<le> NAME_MAX)
    (resolve_parent m s path)"
  unfolding resolve_parent_def
  by (rule res_ok_bind [OF resolve_parent_unchecked_ok [OF assms]]) auto

fun trail_ok :: "model \<Rightarrow> trail \<Rightarrow> bool" where
  "trail_ok m TMissing = True"
| "trail_ok m (TDangling p n) = free_slot m p n"
| "trail_ok m TNonDir = True"
| "trail_ok m (TDirectory t) = (t < size_of m \<and> is_dir_kind (n_kind (node_at m t)))"

lemma trail_mac_ok:
  assumes "wf m" "p < size_of m"
  shows "res_ok (\<lambda>t. trail_ok m t \<and> (t = TMissing \<longrightarrow> child m p k = None)) (trail_mac m s p k path)"
proof (cases "child m p k")
  case None
  with assms show ?thesis by (simp add: trail_mac_def)
next
  case (Some i)
  have i: "i < size_of m" using assms Some by (rule child_range)
  have cl: "res_ok (\<lambda>t. trail_ok m t \<and> t \<noteq> TMissing)
      (bind_res (nd m t) (\<lambda>tn. Ok (if is_dir_kind (n_kind tn) then TDirectory t else TNonDir)))"
    if "t < size_of m" for t
    using that by simp
  have fo: "res_ok (\<lambda>t. t < size_of m) (fst (follow_symlink (link_fuel m) m Virtual p i (0, [])))"
    by (rule walk_start [OF follow_symlink_range [OF assms i]])
  have cr: "res_ok (\<lambda>t. trail_ok m t \<and> t \<noteq> TMissing)
      (bind_res (resolve_for_create m s path) (\<lambda>(p, nm, _). Ok (TDangling p nm)))"
    by (rule res_ok_bind [OF resolve_for_create_ok [OF assms(1)]]) auto
  have "res_ok (\<lambda>t. trail_ok m t \<and> t \<noteq> TMissing) (trail_mac m s p k path)"
    using fo by (cases rule: res_ok_cases) (use cl cr i assms(2) Some in \<open>auto simp: trail_mac_def Let_def\<close>)
  then show ?thesis by (rule res_ok_mono) auto
qed

lemma find_key_get: "find_key xs i = Some k \<Longrightarrow> distinct (map fst xs) \<Longrightarrow> bt_get xs k = Some i"
proof (induction xs i rule: find_key.induct)
  case (2 k' c r i)
  then have "(k, i) \<in> set r" if "c \<noteq> i" using that by (auto dest!: bt_get_SomeD)
  with 2 show ?case by (force simp: bt_get_def split: if_splits)
qed simp

lemma owner_of_ok:
  assumes "wf m" "t < size_of m"
  shows "res_ok (\<lambda>(p, k). p < size_of m \<and> child m p k = Some t \<and> n_mounted_by (node_at m t) = None)
    (owner_of m t)"
proof -
  have "child m p k = Some t" if "n_parent (node_at m t) = Some p" "find_key (n_children (node_at m p)) t = Some k" for p k
    using that assms children_inv [OF assms(1), of p] par_range [OF assms, of p]
    by (auto simp: child_def par_def intro!: find_key_get bt_inv_distinct)
  moreover have "p < size_of m" if "n_parent (node_at m t) = Some p" for p
    using par_range [OF assms] that by (simp add: par_def)
  ultimately show ?thesis
    using assms by (auto simp: owner_of_def split: option.splits)
qed

lemma find_mount_total: "wf m \<Longrightarrow> \<exists>r. find_mount m root suffix = Ok r"
  using resolve_ok [of m Physical Root "root @ suffix" True]
  by (auto simp: find_mount_def split: res.splits)

lemma mount_of_total: "wf m \<Longrightarrow> i < size_of m \<Longrightarrow> \<exists>n. mount_of m i = Ok n"
proof (cases "m_profile m")
  case (LinuxMount root)
  assume a: "wf m" "i < size_of m"
  obtain t vt where "find_mount m root ''/tmp'' = Ok t" "find_mount m root ''/var/tmp'' = Ok vt"
    using find_mount_total [OF a(1)] by blast
  moreover obtain xs where x: "up_path (par m) i xs" using chain_exists [OF a] by blast
  moreover obtain n where "mount_of_loop (size_of m) m t vt i = Ok n"
    using mount_of_loop_ok [OF x chain_range [OF a x] chain_length [OF a x]] by blast
  ultimately show ?thesis using LinuxMount by (simp add: mount_of_def)
qed (simp add: mount_of_def)

end
