(* ===== verification/Fs_Preserve.thy ===== *)
theory Fs_Preserve
  imports Fs_Inv
begin

text \<open>
  Every operation of the filesystem model keeps the invariant. The changes an operation
  can make are a handful of primitives on the node arena (creating a child, removing one,
  a change inside one node, moving a node, updating the descriptors); each keeps \<open>wf\<close>
  and is an evolution \<open>evolves m m'\<close>: nodes are never forgotten, their mounts never change,
  a file stays a file, and an empty mountpoint stays empty.
\<close>

section \<open>Evolution\<close>

fun same_kind :: "node_kind \<Rightarrow> node_kind \<Rightarrow> bool" where
  "same_kind (KFile a) (KFile b) = True"
| "same_kind k k' = (k = k')"

lemma same_kind_refl [simp]: "same_kind k k"
  by (cases k) auto

lemma same_kind_trans: "same_kind a b \<Longrightarrow> same_kind b c \<Longrightarrow> same_kind a c"
  by (cases a; cases b; cases c) auto

lemma same_kind_dir: "same_kind k k' \<Longrightarrow> is_dir_kind k' = is_dir_kind k"
  by (cases k; cases k') auto

definition node_evolves :: "node \<Rightarrow> node \<Rightarrow> bool" where
  "node_evolves n n' =
     (n_mounted_by n' = n_mounted_by n \<and> n_virtual_parent n' = n_virtual_parent n \<and>
      n_mount_name n' = n_mount_name n \<and> same_kind (n_kind n) (n_kind n') \<and>
      (n_detached n \<longrightarrow> n_detached n') \<and>
      (n_mounted_by n \<noteq> None \<longrightarrow> n_children n = [] \<longrightarrow> n_children n' = []))"

definition evolves :: "model \<Rightarrow> model \<Rightarrow> bool" where
  "evolves m m' =
     (size_of m \<le> size_of m' \<and> m_profile m' = m_profile m \<and> m_root_node m' = m_root_node m \<and>
      m_case_insensitive m' = m_case_insensitive m \<and>
      (\<forall>i < size_of m. node_evolves (node_at m i) (node_at m' i)) \<and>
      (\<forall>i < size_of m'. size_of m \<le> i \<longrightarrow>
         n_mounted_by (node_at m' i) = None \<and> n_virtual_parent (node_at m' i) = None))"

lemma node_evolves_refl [simp]: "node_evolves n n"
  by (simp add: node_evolves_def)

lemma node_evolves_trans: "node_evolves a b \<Longrightarrow> node_evolves b c \<Longrightarrow> node_evolves a c"
  by (auto simp: node_evolves_def intro: same_kind_trans)

lemma evolves_refl [simp]: "evolves m m"
  by (simp add: evolves_def)

lemma evolves_trans: "evolves a b \<Longrightarrow> evolves b c \<Longrightarrow> evolves a c"
  unfolding evolves_def
  by (smt (verit) le_trans node_evolves_def node_evolves_trans not_le order.strict_trans2)

text \<open>
  What an operation may return: a well-formed evolution of the model (\<open>kept\<close>), and, unless it
  renames, one that moves no node (\<open>good\<close>).
\<close>

definition kept :: "model \<Rightarrow> model \<Rightarrow> bool" where
  "kept m m' = (wf m' \<and> evolves m m')"

definition still :: "model \<Rightarrow> model \<Rightarrow> bool" where
  "still m m' = (\<forall>i < size_of m. par m' i = par m i)"

definition good :: "model \<Rightarrow> model \<Rightarrow> bool" where
  "good m m' = (kept m m' \<and> still m m')"

lemma kept_refl: "wf m \<Longrightarrow> kept m m"
  by (simp add: kept_def)

lemma kept_trans: "kept a b \<Longrightarrow> kept b c \<Longrightarrow> kept a c"
  by (auto simp: kept_def intro: evolves_trans)

lemma good_kept: "good m m' \<Longrightarrow> kept m m'"
  by (simp add: good_def)

lemma good_wf: "good m m' \<Longrightarrow> wf m'"
  by (simp add: good_def kept_def)

lemma good_refl: "wf m \<Longrightarrow> good m m"
  by (simp add: good_def kept_def still_def)

lemma good_trans: "good a b \<Longrightarrow> good b c \<Longrightarrow> good a c"
  unfolding good_def
  by (auto intro: kept_trans simp: still_def) (simp add: kept_def evolves_def)

section \<open>Changes inside one node\<close>

lemma links_okI:
  assumes "\<And>i. i < size_of m \<Longrightarrow> bt_inv (n_children (node_at m i))"
    and "\<And>i p. i < size_of m \<Longrightarrow> par m i = Some p \<Longrightarrow> p < size_of m"
    and "\<And>i k c. i < size_of m \<Longrightarrow> child m i k = Some c \<Longrightarrow> c < size_of m \<and> par m c = Some i"
    and "\<And>i k k' c. i < size_of m \<Longrightarrow> child m i k = Some c \<Longrightarrow> child m i k' = Some c \<Longrightarrow> k = k'"
  shows "links_ok m"
  unfolding links_ok_def using assms by blast

lemma mounts_okI:
  assumes "\<And>i t. i < size_of m \<Longrightarrow> n_mounted_by (node_at m i) = Some t \<Longrightarrow> ok_id m Virtual t"
    and "\<And>i p. i < size_of m \<Longrightarrow> n_virtual_parent (node_at m i) = Some p \<Longrightarrow> p < size_of m"
  shows "mounts_ok m"
  unfolding mounts_ok_def using assms by blast

lemma ok_id_update:
  assumes "n_mounted_by n' = n_mounted_by (node_at m i)"
  shows "ok_id (m\<lparr>m_nodes := (m_nodes m)[i := n']\<rparr>) v j = ok_id m v j"
  using assms by (cases "i < size_of m") (auto simp: ok_id_def nth_list_update)

text \<open>
  An update that keeps the links of the node to its surroundings and does not list new
  children keeps the invariant.
\<close>

lemma wf_update:
  assumes m: "wf m" and i: "i < size_of m"
    and par: "n_parent n' = n_parent (node_at m i)"
    and mnt: "n_mounted_by n' = n_mounted_by (node_at m i)"
    and vp: "n_virtual_parent n' = n_virtual_parent (node_at m i)"
    and inv: "bt_inv (n_children n')"
    and sub: "\<And>k c. bt_get (n_children n') k = Some c \<Longrightarrow> child m i k = Some c"
  shows "wf (m\<lparr>m_nodes := (m_nodes m)[i := n']\<rparr>)"
proof -
  let ?m = "m\<lparr>m_nodes := (m_nodes m)[i := n']\<rparr>"
  have par': "par ?m j = par m j" for j
    using par i by (auto simp: par_def nth_list_update)
  have child': "child ?m j k = Some c \<Longrightarrow> child m j k = Some c" for j k c
    using sub i by (auto simp: child_def nth_list_update split: if_splits)
  have ok': "ok_id ?m v j = ok_id m v j" for v j
    by (rule ok_id_update [OF mnt])
  have size: "size_of ?m = size_of m" by simp
  have at: "node_at ?m j = (if j = i then n' else node_at m j)" if "j < size_of m" for j
    using that i by (auto simp: nth_list_update)
  have "links_ok ?m"
  proof (rule links_okI)
    fix j assume "j < size_of ?m"
    then show "bt_inv (n_children (node_at ?m j))"
      using inv children_inv [OF m, of j] by (auto simp only: size at split: if_splits)
  next
    fix j q assume "j < size_of ?m" "par ?m j = Some q"
    then show "q < size_of ?m" using par_range [OF m] unfolding size par' by blast
  next
    fix j k c assume "j < size_of ?m" "child ?m j k = Some c"
    then have "j < size_of m" "child m j k = Some c" using child' size by metis+
    then show "c < size_of ?m \<and> par ?m c = Some j"
      using child_range [OF m] child_par [OF m] unfolding size par' by blast
  next
    fix j k k' c assume "j < size_of ?m" "child ?m j k = Some c" "child ?m j k' = Some c"
    then have "j < size_of m" "child m j k = Some c" "child m j k' = Some c"
      using child' size by metis+
    then show "k = k'" by (rule child_key_unique [OF m])
  qed
  moreover have "mounts_ok ?m"
    by (rule mounts_okI)
       (use mnt vp mount_target [OF m] virtual_parent_range [OF m] in
         \<open>auto simp only: size ok' at split: if_splits\<close>)
  moreover have "fd_ok ?m e = fd_ok m e" for e
    by (cases e) (simp_all add: ok')
  then have "handles_ok ?m"
    using wf_handles [OF m] by (simp add: handles_ok_def ok')
  moreover have "par ?m = par m" using par' by blast
  then have "chains_ok ?m"
    using wf_chains [OF m] by (simp add: chains_ok_def)
  ultimately show ?thesis by (simp add: wf_def)
qed

lemma good_update:
  assumes "wf m" "i < size_of m" "n_parent n' = n_parent (node_at m i)"
    and "node_evolves (node_at m i) n'" "bt_inv (n_children n')"
    and "\<And>k c. bt_get (n_children n') k = Some c \<Longrightarrow> child m i k = Some c"
  shows "good m (m\<lparr>m_nodes := (m_nodes m)[i := n']\<rparr>)"
  unfolding good_def kept_def
proof (intro conjI)
  show "still m (m\<lparr>m_nodes := (m_nodes m)[i := n']\<rparr>)"
    using assms(2,3) by (auto simp: still_def par_def nth_list_update)
  show "wf (m\<lparr>m_nodes := (m_nodes m)[i := n']\<rparr>)"
    using assms by (intro wf_update) (auto simp: node_evolves_def)
  show "evolves m (m\<lparr>m_nodes := (m_nodes m)[i := n']\<rparr>)"
    using assms by (auto simp: evolves_def nth_list_update)
qed

lemma remove_child_good:
  assumes "wf m" "p < size_of m"
  shows "\<exists>m'. remove_child m p k = Ok m' \<and> good m m'"
proof -
  let ?n = "node_at m p\<lparr>n_children := bt_remove k (n_children (node_at m p))\<rparr>"
  have "good m (m\<lparr>m_nodes := (m_nodes m)[p := ?n]\<rparr>)"
    by (rule good_update [OF assms])
       (use children_inv [OF assms] in
        \<open>auto simp: node_evolves_def child_def bt_inv_remove bt_remove_def [of _ "[]"] split: if_splits\<close>)
  then show ?thesis using assms by (auto simp: remove_child_def)
qed

lemma set_detached_good:
  assumes "wf m" "i < size_of m"
  shows "\<exists>m'. upd_node m i (\<lambda>n. n\<lparr>n_detached := True\<rparr>) = Ok m' \<and> good m m'"
proof -
  have "good m (m\<lparr>m_nodes := (m_nodes m)[i := (node_at m i)\<lparr>n_detached := True\<rparr>]\<rparr>)"
    by (rule good_update [OF assms])
       (use children_inv [OF assms] in \<open>auto simp: node_evolves_def child_def\<close>)
  then show ?thesis using assms by simp
qed

lemma set_content_good:
  assumes "wf m" "i < size_of m" "n_kind (node_at m i) = KFile c"
  shows "good m (m\<lparr>m_nodes := (m_nodes m)[i := (node_at m i)\<lparr>n_kind := KFile d\<rparr>]\<rparr>)"
  by (rule good_update [OF assms(1,2)])
     (use assms children_inv [OF assms(1,2)] in \<open>auto simp: node_evolves_def child_def\<close>)

section \<open>Descriptors and the working directory\<close>

lemma good_fds:
  assumes "wf m" and "\<And>fd e. bt_get fds fd = Some e \<Longrightarrow> fd_ok m e"
  shows "good m (m\<lparr>m_next_fd := nx, m_fds := fds\<rparr>)"
proof -
  let ?m = "m\<lparr>m_next_fd := nx, m_fds := fds\<rparr>"
  have ok: "ok_id ?m v j = ok_id m v j" for v j by (simp add: ok_id_def)
  have fd: "fd_ok ?m e = fd_ok m e" for e by (cases e) (simp_all add: ok)
  have "par ?m = par m" "child ?m = child m"
    by (simp_all add: par_def child_def fun_eq_iff)
  then have "links_ok ?m = links_ok m" "mounts_ok ?m = mounts_ok m" "chains_ok ?m = chains_ok m"
    by (simp_all add: links_ok_def mounts_ok_def chains_ok_def ok)
  moreover have "handles_ok ?m"
    using wf_handles [OF assms(1)] assms(2) by (simp add: handles_ok_def ok fd)
  ultimately have "wf ?m" using assms(1) by (simp add: wf_def)
  then show ?thesis by (simp add: good_def kept_def evolves_def still_def par_def)
qed

lemma good_cwd:
  assumes "wf m" "ok_id m Virtual i"
  shows "good m (m\<lparr>m_cwd := i\<rparr>)"
proof -
  let ?m = "m\<lparr>m_cwd := i\<rparr>"
  have ok: "ok_id ?m v j = ok_id m v j" for v j by (simp add: ok_id_def)
  have fd: "fd_ok ?m e = fd_ok m e" for e by (cases e) (simp_all add: ok)
  have "par ?m = par m" "child ?m = child m"
    by (simp_all add: par_def child_def fun_eq_iff)
  then have "links_ok ?m = links_ok m" "mounts_ok ?m = mounts_ok m" "chains_ok ?m = chains_ok m"
    by (simp_all add: links_ok_def mounts_ok_def chains_ok_def ok)
  moreover have "handles_ok ?m"
    using wf_handles [OF assms(1)] assms(2) by (simp add: handles_ok_def ok fd)
  ultimately have "wf ?m" using assms(1) by (simp add: wf_def)
  then show ?thesis by (simp add: good_def kept_def evolves_def still_def par_def)
qed

lemma alloc_fd_good:
  assumes "wf m" "fd_ok m e"
  shows "good m (fst (alloc_fd m e))"
proof -
  have "good m (m\<lparr>m_next_fd := m_next_fd m + 1, m_fds := bt_insert (m_next_fd m) e (m_fds m)\<rparr>)"
    by (rule good_fds [OF assms(1)]) (use assms wf_fd in \<open>auto split: if_splits\<close>)
  then show ?thesis by (simp add: alloc_fd_def)
qed

section \<open>Creating a child\<close>

lemma create_child_eq:
  assumes "p < size_of m"
  shows "create_child m p k kd =
    Ok (m\<lparr>m_nodes := (m_nodes m)[p := (node_at m p)
          \<lparr>n_children := bt_insert k (size_of m) (n_children (node_at m p))\<rparr>]
          @ [fresh_node kd (Some p)]\<rparr>, size_of m)"
  using assms
  by (simp add: create_child_def push_node_def insert_child_def nth_append list_update_append1)

text \<open>
  \<open>grown m m' p k kd\<close>: the model \<open>m'\<close> is \<open>m\<close> with one node more, of kind \<open>kd\<close>, which the
  directory \<open>p\<close> lists under \<open>k\<close>.
\<close>

definition grown :: "model \<Rightarrow> model \<Rightarrow> node_id \<Rightarrow> bytes \<Rightarrow> node_kind \<Rightarrow> bool" where
  "grown m m' p k kd =
     (p < size_of m \<and> m\<lparr>m_nodes := m_nodes m'\<rparr> = m' \<and> size_of m' = Suc (size_of m) \<and>
      node_at m' (size_of m) = fresh_node kd (Some p) \<and>
      (\<forall>j < size_of m. node_at m' j =
         (if j = p
          then (node_at m p)\<lparr>n_children := bt_insert k (size_of m) (n_children (node_at m p))\<rparr>
          else node_at m j)))"

lemma create_child_grown:
  assumes "p < size_of m" "create_child m p k kd = Ok (m', i)"
  shows "i = size_of m \<and> grown m m' p k kd"
  using assms(2) unfolding create_child_eq [OF assms(1)]
  using assms(1) by (auto simp: grown_def nth_append nth_list_update)

lemma create_child_total:
  "p < size_of m \<Longrightarrow> \<exists>m'. create_child m p k kd = Ok (m', size_of m)"
  by (simp add: create_child_eq)

lemma grown_range: "grown m m' p k kd \<Longrightarrow> j < size_of m' \<Longrightarrow> j < size_of m \<or> j = size_of m"
  by (auto simp: grown_def)

lemma grown_par:
  assumes "grown m m' p k kd" "j < size_of m'"
  shows "par m' j = (if j = size_of m then Some p else par m j)"
  using grown_range [OF assms] assms(1) by (auto simp: grown_def par_def fresh_node_def)

lemma grown_child:
  assumes "grown m m' p k kd" "j < size_of m'"
  shows "child m' j k' =
    (if j = size_of m then None else if j = p \<and> k' = k then Some (size_of m) else child m j k')"
  using grown_range [OF assms] assms(1) by (auto simp: grown_def child_def fresh_node_def)

lemma grown_mounts:
  assumes "grown m m' p k kd" "j < size_of m'"
  shows "n_mounted_by (node_at m' j) = (if j = size_of m then None else n_mounted_by (node_at m j))"
    and "n_virtual_parent (node_at m' j) =
      (if j = size_of m then None else n_virtual_parent (node_at m j))"
  using grown_range [OF assms] assms(1) by (auto simp: grown_def fresh_node_def)

lemma grown_ok_id: "grown m m' p k kd \<Longrightarrow> ok_id m v j \<Longrightarrow> ok_id m' v j"
  using grown_mounts(1) [of m m' p k kd j] by (auto simp: ok_id_def grown_def)

lemma grown_links:
  assumes m: "wf m" and g: "grown m m' p k kd" and free: "child m p k = None"
  shows "links_ok m'"
proof (rule links_okI)
  have size: "size_of m' = Suc (size_of m)" and p: "p < size_of m" using g by (auto simp: grown_def)
  fix j assume j: "j < size_of m'"
  show "bt_inv (n_children (node_at m' j))"
    using grown_range [OF g j] g children_inv [OF m, of j]
    by (auto simp: grown_def fresh_node_def bt_inv_insert)
  show "q < size_of m'" if "par m' j = Some q" for q
    using that p size grown_range [OF g j] par_range [OF m, of j q]
    unfolding grown_par [OF g j] by (auto split: if_splits)
  show "c < size_of m' \<and> par m' c = Some j" if c: "child m' j k' = Some c" for k' c
  proof (cases "j = p \<and> k' = k")
    case True
    with c size p show ?thesis unfolding grown_child [OF g j]
      by (auto simp: grown_par [OF g] split: if_splits)
  next
    case False
    with c have jc: "j < size_of m" "child m j k' = Some c"
      using grown_range [OF g j] unfolding grown_child [OF g j] by (auto split: if_splits)
    with child_range [OF m jc] child_par [OF m jc] size show ?thesis
      by (simp add: grown_par [OF g])
  qed
  show "k1 = k2" if c: "child m' j k1 = Some c" "child m' j k2 = Some c" for k1 k2 c
  proof -
    have jm: "j < size_of m" using c(1) grown_range [OF g j] unfolding grown_child [OF g j]
      by (auto split: if_splits)
    have "child m j k3 \<noteq> Some (size_of m)" for k3
      using child_range [OF m jm, of k3 "size_of m"] by auto
    with c jm show ?thesis
      using child_key_unique [OF m jm, of k1 c k2] unfolding grown_child [OF g j]
      by (auto split: if_splits)
  qed
qed

lemma grown_mounts_ok:
  assumes m: "wf m" and g: "grown m m' p k kd"
  shows "mounts_ok m'"
proof (rule mounts_okI)
  fix j assume j: "j < size_of m'"
  show "ok_id m' Virtual t" if "n_mounted_by (node_at m' j) = Some t" for t
    using that grown_range [OF g j] grown_mounts(1) [OF g j] mount_target [OF m, of j t]
    by (auto intro: grown_ok_id [OF g] split: if_splits)
  show "q < size_of m'" if "n_virtual_parent (node_at m' j) = Some q" for q
    using that grown_range [OF g j] grown_mounts(2) [OF g j] virtual_parent_range [OF m, of j q] g
    by (auto simp: grown_def split: if_splits)
qed

lemma grown_chains:
  assumes m: "wf m" and g: "grown m m' p k kd"
  shows "chains_ok m'"
  unfolding chains_ok_def
proof (intro allI impI)
  have p: "p < size_of m" and size: "size_of m' = Suc (size_of m)" using g by (auto simp: grown_def)
  have chain: "\<exists>xs. up_path (par m') j xs" if jm: "j < size_of m" for j
  proof -
    obtain xs where x: "up_path (par m) j xs" using chain_exists [OF m jm] by blast
    have "par m' y = par m y" if "y \<in> set xs" for y
      using that chain_range [OF m jm x] size by (force simp: grown_par [OF g])
    from up_path_cong [OF x this] show ?thesis by blast
  qed
  fix j assume j: "j < size_of m'"
  show "\<exists>xs. up_path (par m') j xs"
  proof (cases "j = size_of m")
    case True
    obtain xs where "up_path (par m') p xs" using chain [OF p] by blast
    with grown_par [OF g j] True have "up_path (par m') j (j # xs)" by (intro up_path.up) simp_all
    then show ?thesis by blast
  qed (use grown_range [OF g j] chain in blast)
qed

lemma grown_good:
  assumes m: "wf m" and p: "ok_id m Virtual p" and g: "grown m m' p k kd" and free: "child m p k = None"
  shows "good m m'"
proof -
  have size: "size_of m' = Suc (size_of m)" and rec: "m\<lparr>m_nodes := m_nodes m'\<rparr> = m'"
    using g by (auto simp: grown_def)
  have same: "m_root_node m' = m_root_node m" "m_cwd m' = m_cwd m" "m_fds m' = m_fds m"
    "m_profile m' = m_profile m" "m_case_insensitive m' = m_case_insensitive m"
    by (subst rec [symmetric], simp)+
  have "fd_ok m e \<Longrightarrow> fd_ok m' e" for e
    using size by (cases e) (auto intro: grown_ok_id [OF g])
  then have "handles_ok m'"
    using wf_handles [OF m] grown_ok_id [OF g] by (simp add: handles_ok_def same)
  moreover have "evolves m m'"
    using size p g grown_mounts [OF g]
    by (auto simp: evolves_def same node_evolves_def grown_def ok_id_def)
  ultimately show ?thesis
    using grown_links [OF m g free] grown_mounts_ok [OF m g] grown_chains [OF m g]
    by (simp add: good_def kept_def wf_def still_def grown_par [OF g] size)
qed

lemma create_child_good:
  assumes "wf m" "ok_id m Virtual p" "child m p k = None"
  shows "res_ok (\<lambda>(m', i). good m m' \<and> i < size_of m' \<and> n_kind (node_at m' i) = kd)
    (create_child m p k kd)"
proof -
  note p = ok_id_range [OF assms(2)]
  obtain m' where c: "create_child m p k kd = Ok (m', size_of m)"
    using create_child_total [OF p] by blast
  from create_child_grown [OF p c] have g: "grown m m' p k kd" by simp
  have "n_kind (node_at m' (size_of m)) = kd" "size_of m < size_of m'"
    using g by (simp_all add: grown_def fresh_node_def)
  then show ?thesis using c grown_good [OF assms(1,2) g assms(3)] by simp
qed

section \<open>Moving a node\<close>

text \<open>
  \<open>moved m m' p k x\<close>: the node \<open>x\<close>, which no directory of \<open>m\<close> lists, hangs below \<open>p\<close>
  under \<open>k\<close> in \<open>m'\<close>.
\<close>

definition moved :: "model \<Rightarrow> model \<Rightarrow> node_id \<Rightarrow> bytes \<Rightarrow> node_id \<Rightarrow> bool" where
  "moved m m' p k x =
     (p < size_of m \<and> x < size_of m \<and> p \<noteq> x \<and> m\<lparr>m_nodes := m_nodes m'\<rparr> = m' \<and>
      size_of m' = size_of m \<and>
      node_at m' p = (node_at m p)\<lparr>n_children := bt_insert k x (n_children (node_at m p))\<rparr> \<and>
      node_at m' x = (node_at m x)\<lparr>n_parent := Some p\<rparr> \<and>
      (\<forall>j. j \<noteq> p \<longrightarrow> j \<noteq> x \<longrightarrow> node_at m' j = node_at m j))"

lemma moved_par: "moved m m' p k x \<Longrightarrow> par m' = (par m)(x := Some p)"
proof
  fix j assume "moved m m' p k x"
  then show "par m' j = ((par m)(x := Some p)) j"
    by (cases "j = p"; cases "j = x") (simp_all add: moved_def par_def)
qed

lemma moved_child:
  "moved m m' p k x \<Longrightarrow> child m' j k' = (if j = p \<and> k' = k then Some x else child m j k')"
  by (cases "j = p"; cases "j = x") (simp_all add: moved_def child_def)

lemma moved_fields:
  assumes "moved m m' p k x"
  shows "n_mounted_by (node_at m' j) = n_mounted_by (node_at m j)"
    "n_virtual_parent (node_at m' j) = n_virtual_parent (node_at m j)"
    "n_mount_name (node_at m' j) = n_mount_name (node_at m j)"
    "n_kind (node_at m' j) = n_kind (node_at m j)"
    "n_detached (node_at m' j) = n_detached (node_at m j)"
    "size_of m' = size_of m" "ok_id m' v j = ok_id m v j"
proof -
  show "size_of m' = size_of m" using assms by (simp add: moved_def)
  then show "n_mounted_by (node_at m' j) = n_mounted_by (node_at m j)"
    "n_virtual_parent (node_at m' j) = n_virtual_parent (node_at m j)"
    "n_mount_name (node_at m' j) = n_mount_name (node_at m j)"
    "n_kind (node_at m' j) = n_kind (node_at m j)"
    "n_detached (node_at m' j) = n_detached (node_at m j)"
    "ok_id m' v j = ok_id m v j"
    using assms by (cases "j = p"; cases "j = x"; simp add: moved_def ok_id_def)+
qed

lemma moved_links:
  assumes m: "wf m" and g: "moved m m' p k x" and free: "\<And>j k. j < size_of m \<Longrightarrow> child m j k \<noteq> Some x"
  shows "links_ok m'"
proof (rule links_okI)
  have size: "size_of m' = size_of m" and px: "p < size_of m" "x < size_of m"
    using g by (auto simp: moved_def)
  fix j assume "j < size_of m'"
  then have j: "j < size_of m" by (simp add: size)
  show "bt_inv (n_children (node_at m' j))"
    using children_inv [OF m j] g
    by (cases "j = p"; cases "j = x") (auto simp: moved_def bt_inv_insert)
  show "q < size_of m'" if "par m' j = Some q" for q
    using that px par_range [OF m j, of q] unfolding moved_par [OF g] size
    by (auto split: if_splits)
  show "c < size_of m' \<and> par m' c = Some j" if c: "child m' j k' = Some c" for k' c
  proof (cases "j = p \<and> k' = k")
    case True
    with c px show ?thesis by (simp add: moved_child [OF g] moved_par [OF g] size)
  next
    case False
    with c have c': "child m j k' = Some c" by (simp only: moved_child [OF g] if_False)
    with free [OF j, of k'] have "c \<noteq> x" by auto
    with child_range [OF m j c'] child_par [OF m j c'] show ?thesis
      by (simp add: moved_par [OF g] size)
  qed
  show "k1 = k2" if c: "child m' j k1 = Some c" "child m' j k2 = Some c" for k1 k2 c
    using c free [OF j, of k1] free [OF j, of k2] child_key_unique [OF m j, of k1 c k2]
    unfolding moved_child [OF g] by (auto split: if_splits)
qed

lemma moved_kept:
  assumes m: "wf m" and g: "moved m m' p k x"
    and p: "n_mounted_by (node_at m p) = None \<or> n_children (node_at m p) \<noteq> []"
    and free: "\<And>j k. j < size_of m \<Longrightarrow> child m j k \<noteq> Some x"
    and ys: "up_path (par m) p ys" "x \<notin> set ys"
  shows "kept m m'"
proof -
  have rec: "m\<lparr>m_nodes := m_nodes m'\<rparr> = m'" using g by (simp add: moved_def)
  have same: "m_root_node m' = m_root_node m" "m_cwd m' = m_cwd m" "m_fds m' = m_fds m"
    "m_profile m' = m_profile m" "m_case_insensitive m' = m_case_insensitive m"
    by (subst rec [symmetric], simp)+
  note f = moved_fields [OF g]
  have "fd_ok m' e = fd_ok m e" for e by (cases e) (simp_all add: f)
  then have "handles_ok m'" using wf_handles [OF m] by (simp add: handles_ok_def same f)
  moreover have "mounts_ok m'" using wf_mounts [OF m] by (simp add: mounts_ok_def f)
  moreover have "chains_ok m'"
    unfolding chains_ok_def f(6) moved_par [OF g]
  proof (intro allI impI)
    fix j assume "j < size_of m"
    then obtain xs where "up_path (par m) j xs" using chain_exists [OF m] by blast
    from up_path_reparent [OF this ys] show "\<exists>zs. up_path ((par m)(x \<mapsto> p)) j zs" .
  qed
  ultimately have "wf m'" using moved_links [OF m g free] by (simp add: wf_def)
  moreover have "node_evolves (node_at m j) (node_at m' j)" for j
    using p g f by (cases "j = p"; cases "j = x") (auto simp: node_evolves_def moved_def ok_id_def)
  then have "evolves m m'" by (simp add: evolves_def same f(6))
  ultimately show ?thesis by (simp add: kept_def)
qed

text \<open>The whole commit of a rename.\<close>

lemma remove_child_facts:
  assumes "wf m" "p < size_of m"
  obtains m' where "remove_child m p k = Ok m'" "good m m'" "size_of m' = size_of m"
    "par m' = par m" "\<And>j k'. child m' j k' = (if j = p \<and> k' = k then None else child m j k')"
    "\<And>j. n_kind (node_at m' j) = n_kind (node_at m j)"
    "\<And>j. n_mounted_by (node_at m' j) = n_mounted_by (node_at m j)"
proof -
  let ?n = "(node_at m p)\<lparr>n_children := bt_remove k (n_children (node_at m p))\<rparr>"
  let ?m = "m\<lparr>m_nodes := (m_nodes m)[p := ?n]\<rparr>"
  have e: "remove_child m p k = Ok ?m" using assms by (simp add: remove_child_def)
  moreover have "good m ?m" using remove_child_good [OF assms, of k] e by auto
  moreover have at: "(m_nodes m)[p := ?n] ! j = (if j = p then ?n else node_at m j)" for j
    using assms(2) by (auto simp: nth_list_update)
  ultimately show ?thesis
    by (intro that [of ?m]) (auto simp: par_def child_def at fun_eq_iff)
qed

lemma detach_facts:
  assumes "wf m" "\<And>e. existing = Some e \<Longrightarrow> e < size_of m"
  obtains m' where "(case existing of None \<Rightarrow> Ok m
     | Some e \<Rightarrow> bind_res (nd m e) (\<lambda>en. if is_dir_kind (n_kind en)
         then upd_node m e (\<lambda>n. n\<lparr>n_detached := True\<rparr>) else Ok m)) = Ok m'"
    "good m m'" "size_of m' = size_of m" "par m' = par m" "child m' = child m"
    "\<And>j. n_mounted_by (node_at m' j) = n_mounted_by (node_at m j)"
proof (cases "\<exists>e. existing = Some e \<and> is_dir_kind (n_kind (node_at m e))")
  case True
  then obtain e where e: "existing = Some e" "is_dir_kind (n_kind (node_at m e))" by blast
  note r = assms(2) [OF e(1)]
  let ?m = "m\<lparr>m_nodes := (m_nodes m)[e := (node_at m e)\<lparr>n_detached := True\<rparr>]\<rparr>"
  have at: "(m_nodes m)[e := (node_at m e)\<lparr>n_detached := True\<rparr>] ! j =
      (if j = e then (node_at m e)\<lparr>n_detached := True\<rparr> else node_at m j)" for j
    using r by (auto simp: nth_list_update)
  have "good m ?m" using set_detached_good [OF assms(1) r] r by auto
  then show ?thesis
    using e r by (intro that [of ?m]) (auto simp: par_def child_def at fun_eq_iff)
next
  case False
  then show ?thesis
    using assms by (intro that [of m]) (auto simp: good_refl split: option.split)
qed

lemma rename_commit_kept:
  assumes m: "wf m" and fp: "fp < size_of m" and src: "child m fp fk = Some x"
    and tp: "ok_id m Virtual tp \<or> (\<exists>e. child m tp tk = Some e \<and> e \<noteq> x)"
    and r: "tp < size_of m" and ys: "up_path (par m) tp ys" "x \<notin> set ys"
    and ex: "\<And>e. existing = Some e \<Longrightarrow> e < size_of m"
  shows "\<exists>m'. rename_commit m fp fk x tp tk existing = Ok m' \<and> kept m m' \<and>
    size_of m' = size_of m \<and> par m' = (par m)(x := Some tp) \<and>
    (\<forall>j k. child m' j k =
       (if j = tp \<and> k = tk then Some x else if j = fp \<and> k = fk then None else child m j k))"
proof -
  have x: "x < size_of m" using child_range [OF m fp src] .
  have tpx: "tp \<noteq> x" using up_path_hd [OF ys(1)] ys(2) by auto
  obtain m1 where m1: "remove_child m fp fk = Ok m1" "good m m1" "size_of m1 = size_of m"
    "par m1 = par m" "\<And>j k'. child m1 j k' = (if j = fp \<and> k' = fk then None else child m j k')"
    "\<And>j. n_kind (node_at m1 j) = n_kind (node_at m j)"
    "\<And>j. n_mounted_by (node_at m1 j) = n_mounted_by (node_at m j)"
    by (rule remove_child_facts [OF m fp, of fk]) (rule that)
  have w1: "wf m1" using m1(2) by (rule good_wf)
  let ?det = "case existing of None \<Rightarrow> Ok m1
     | Some e \<Rightarrow> bind_res (nd m1 e) (\<lambda>en. if is_dir_kind (n_kind en)
         then upd_node m1 e (\<lambda>n. n\<lparr>n_detached := True\<rparr>) else Ok m1)"
  obtain m2 where m2: "?det = Ok m2" "good m1 m2" "size_of m2 = size_of m1" "par m2 = par m1"
    "child m2 = child m1" "\<And>j. n_mounted_by (node_at m2 j) = n_mounted_by (node_at m1 j)"
    by (rule detach_facts [OF w1, of existing]) (use ex m1(3) in auto)
  have w2: "wf m2" using m2(2) by (rule good_wf)
  define m4 where "m4 = m2\<lparr>m_nodes := ((m_nodes m2)[tp := (node_at m2 tp)
      \<lparr>n_children := bt_insert tk x (n_children (node_at m2 tp))\<rparr>])
      [x := (node_at m2 x)\<lparr>n_parent := Some tp\<rparr>]\<rparr>"
  have size: "size_of m2 = size_of m" using m1 m2 by simp
  have tp': "tp < size_of m2" using r size by simp
  have x': "x < size_of m2" using x size by simp
  have mv: "moved m2 m4 tp tk x"
    using tp' x' tpx by (auto simp: moved_def m4_def nth_list_update)
  have c: "rename_commit m fp fk x tp tk existing = Ok m4"
    using m1(1) m2(1) tp' x' tpx
    by (simp add: rename_commit_def insert_child_def m4_def)
  have free: "child m2 j k \<noteq> Some x" if "j < size_of m2" for j k
    using that child_par [OF m, of j k x] child_par [OF m fp src] child_key_unique [OF m fp src, of k]
    by (auto simp: m2(5) m1(5) size)
  have "n_mounted_by (node_at m2 tp) = None \<or> (\<exists>e. child m2 tp tk = Some e)"
    using tp src by (auto simp: ok_id_def m2 m1)
  then have "n_mounted_by (node_at m2 tp) = None \<or> n_children (node_at m2 tp) \<noteq> []"
    by (auto simp: child_def)
  moreover have "up_path (par m2) tp ys" using ys(1) by (simp add: m2(4) m1(4))
  ultimately have "kept m2 m4" using moved_kept [OF w2 mv _ free _ ys(2)] by blast
  then have "kept m m4" using good_kept [OF m1(2)] good_kept [OF m2(2)] kept_trans by blast
  then show ?thesis
    using c moved_par [OF mv] moved_child [OF mv] moved_fields(6) [OF mv]
    by (auto simp: m2 m1)
qed

section \<open>Operations\<close>

text \<open>
  \<open>safe_with G m r\<close>: the call returns (it neither panics nor loops), what it returns is a
  change that \<open>G\<close> allows, and the model is as it was if the call failed.
\<close>

definition safe_with ::
  "(model \<Rightarrow> model \<Rightarrow> bool) \<Rightarrow> model \<Rightarrow> (model \<times> outcome) res \<Rightarrow> bool" where
  "safe_with G m r = (\<exists>m' out. r = Ok (m', out) \<and> G m m' \<and> (ret out = -1 \<longrightarrow> m' = m))"

abbreviation safe :: "model \<Rightarrow> (model \<times> outcome) res \<Rightarrow> bool" where
  "safe \<equiv> safe_with good"

text \<open>The same for the body of an operation, whose errors \<open>reply\<close> has yet to turn into an outcome.\<close>

definition out_with :: "(model \<Rightarrow> model \<Rightarrow> bool) \<Rightarrow> model \<Rightarrow> model \<times> outcome \<Rightarrow> bool" where
  "out_with G m = (\<lambda>(m', out). G m m' \<and> ret out \<noteq> -1)"

abbreviation good_out :: "model \<Rightarrow> model \<times> outcome \<Rightarrow> bool" where
  "good_out \<equiv> out_with good"

lemma reply_safe_with: "G m m \<Longrightarrow> res_ok (out_with G m) r \<Longrightarrow> safe_with G m (reply m r)"
  by (cases r) (auto simp: safe_with_def reply_def out_with_def)

lemma reply_safe: "wf m \<Longrightarrow> res_ok (good_out m) r \<Longrightarrow> safe m (reply m r)"
  by (rule reply_safe_with [OF good_refl])

lemma safe_kept: "safe m r \<Longrightarrow> safe_with kept m r"
  by (auto simp: safe_with_def intro: good_kept)

lemma ret_okout [simp]: "ret (okout n) = n" "ret (dataout n d) = n"
  by (simp_all add: okout_def dataout_def)

lemma uint_not_neg [simp]: "uint (w :: 'a::len word) \<noteq> -1"
  using uint_ge_0 [of w] by linarith

text \<open>An operation that only queries.\<close>

lemma query_safe: "wf m \<Longrightarrow> res_ok (\<lambda>(m', out). m' = m \<and> ret out \<noteq> -1) r \<Longrightarrow> safe m (reply m r)"
  by (rule reply_safe) (auto simp: out_with_def good_refl elim!: res_ok_mono)

section \<open>Verification conditions of the primitives\<close>

lemma vc_nd [vc]:
  "i < size_of m \<Longrightarrow> res_ok Q (f (node_at m i)) \<Longrightarrow> res_ok Q (bind_res (nd m i) f)"
  by simp

lemma vc_find_child [vc]:
  "p < size_of m \<Longrightarrow> res_ok Q (f (child m p k)) \<Longrightarrow> res_ok Q (bind_res (find_child m p k) f)"
  by simp

lemma vc_has_child [vc]:
  "p < size_of m \<Longrightarrow> res_ok Q (f (child m p k \<noteq> None)) \<Longrightarrow> res_ok Q (bind_res (has_child m p k) f)"
  by simp

lemma vc_check_dir [vc]:
  "p < size_of m \<Longrightarrow> (is_dir_kind (n_kind (node_at m p)) \<Longrightarrow> res_ok Q (f ())) \<Longrightarrow>
     res_ok Q (bind_res (check_dir m p) f)"
  by simp

lemma vc_resolve [vc]:
  "wf m \<Longrightarrow> (\<And>i. i < size_of m \<Longrightarrow> ok_id m v i \<Longrightarrow> resolve m v s path fl = Ok i \<Longrightarrow> res_ok Q (f i)) \<Longrightarrow>
     res_ok Q (bind_res (resolve m v s path fl) f)"
  by (rule res_ok_bind [OF resolve_ok]) auto

lemma vc_resolve_parent [vc]:
  "wf m \<Longrightarrow>
     (\<And>p n t. p < size_of m \<Longrightarrow> ok_id m Virtual p \<Longrightarrow> is_dir_kind (n_kind (node_at m p)) \<Longrightarrow>
        name_ok n \<Longrightarrow> length n \<le> NAME_MAX \<Longrightarrow> resolve_parent m s path = Ok (p, n, t) \<Longrightarrow>
        res_ok Q (f (p, n, t))) \<Longrightarrow>
     res_ok Q (bind_res (resolve_parent m s path) f)"
  by (rule res_ok_bind [OF resolve_parent_ok]) auto

lemma vc_resolve_for_create [vc]:
  "wf m \<Longrightarrow>
     (\<And>p n t. p < size_of m \<Longrightarrow> free_slot m p n \<Longrightarrow> resolve_for_create m s path = Ok (p, n, t) \<Longrightarrow>
        res_ok Q (f (p, n, t))) \<Longrightarrow>
     res_ok Q (bind_res (resolve_for_create m s path) f)"
  by (rule res_ok_bind [OF resolve_for_create_ok]) (auto simp: free_slot_def)

lemma vc_trail [vc]:
  "wf m \<Longrightarrow> p < size_of m \<Longrightarrow>
     (\<And>t. trail_ok m t \<Longrightarrow> t = TMissing \<longrightarrow> child m p k = None \<Longrightarrow>
        trail_mac m s p k path = Ok t \<Longrightarrow> res_ok Q (f t)) \<Longrightarrow>
     res_ok Q (bind_res (trail_mac m s p k path) f)"
  by (rule res_ok_bind [OF trail_mac_ok]) auto

lemma vc_trail_case [vc]:
  "(t = TMissing \<Longrightarrow> res_ok Q a) \<Longrightarrow>
     (\<And>p n. t = TDangling p n \<Longrightarrow> res_ok Q (b p n)) \<Longrightarrow>
     (t = TNonDir \<Longrightarrow> res_ok Q c) \<Longrightarrow>
     (\<And>x. t = TDirectory x \<Longrightarrow> res_ok Q (d x)) \<Longrightarrow>
     res_ok Q (case t of TMissing \<Rightarrow> a | TDangling p n \<Rightarrow> b p n | TNonDir \<Rightarrow> c | TDirectory x \<Rightarrow> d x)"
  by (cases t) simp_all

lemma vc_bind_trail_case [vc]:
  "(t = TMissing \<Longrightarrow> res_ok Q (bind_res a f)) \<Longrightarrow>
     (\<And>p n. t = TDangling p n \<Longrightarrow> res_ok Q (bind_res (b p n) f)) \<Longrightarrow>
     (t = TNonDir \<Longrightarrow> res_ok Q (bind_res c f)) \<Longrightarrow>
     (\<And>x. t = TDirectory x \<Longrightarrow> res_ok Q (bind_res (d x) f)) \<Longrightarrow>
     res_ok Q (bind_res (case t of TMissing \<Rightarrow> a | TDangling p n \<Rightarrow> b p n | TNonDir \<Rightarrow> c
       | TDirectory x \<Rightarrow> d x) f)"
  by (cases t) simp_all

lemma vc_owner_of [vc]:
  "wf m \<Longrightarrow> t < size_of m \<Longrightarrow>
     (\<And>p k. p < size_of m \<Longrightarrow> child m p k = Some t \<Longrightarrow> res_ok Q (f (p, k))) \<Longrightarrow>
     res_ok Q (bind_res (owner_of m t) f)"
  by (rule res_ok_bind [OF owner_of_ok]) auto

lemma vc_is_detached [vc]:
  "wf m \<Longrightarrow> i < size_of m \<Longrightarrow> (\<And>b. is_detached m i = Ok b \<Longrightarrow> res_ok Q (f b)) \<Longrightarrow>
     res_ok Q (bind_res (is_detached m i) f)"
  using is_detached_total [of m i] by auto

lemma vc_check_live [vc]:
  "wf m \<Longrightarrow> i < size_of m \<Longrightarrow> res_ok Q (f ()) \<Longrightarrow> res_ok Q (bind_res (check_live m i) f)"
  by (rule res_ok_bind [OF check_live_ok]) auto

lemma vc_mount_of [vc]:
  "wf m \<Longrightarrow> i < size_of m \<Longrightarrow> (\<And>n. mount_of m i = Ok n \<Longrightarrow> res_ok Q (f n)) \<Longrightarrow>
     res_ok Q (bind_res (mount_of m i) f)"
  using mount_of_total [of m i] by auto

lemma vc_is_descendant [vc]:
  "wf m \<Longrightarrow> i < size_of m \<Longrightarrow> (\<And>b. is_descendant m a i = Ok b \<Longrightarrow> res_ok Q (f b)) \<Longrightarrow>
     res_ok Q (bind_res (is_descendant m a i) f)"
  using is_descendant_total [of m i a] by auto

lemma vc_kind_case [vc]:
  "(k = KDir \<Longrightarrow> res_ok Q a) \<Longrightarrow> (\<And>d. k = KFile d \<Longrightarrow> res_ok Q (b d)) \<Longrightarrow>
     (\<And>t. k = KSymlink t \<Longrightarrow> res_ok Q (c t)) \<Longrightarrow> (k = KSocket \<Longrightarrow> res_ok Q d) \<Longrightarrow>
     (k = KOpaque \<Longrightarrow> res_ok Q e) \<Longrightarrow>
     res_ok Q (case k of KDir \<Rightarrow> a | KFile x \<Rightarrow> b x | KSymlink x \<Rightarrow> c x | KSocket \<Rightarrow> d | KOpaque \<Rightarrow> e)"
  by (cases k) simp_all

section \<open>Creation\<close>

lemma create_live_ok:
  assumes "wf m" "ok_id m Virtual p" "child m p k = None"
  shows "res_ok (\<lambda>(m', i). good m m' \<and> i < size_of m' \<and> n_kind (node_at m' i) = kd)
    (create_live m p k kd)"
  unfolding create_live_def
  by (rule res_ok_bind [OF check_live_ok create_child_good]) (use assms in auto)

lemma alloc_open_ok:
  assumes "good m m'" "fd_ok m' e"
  shows "res_ok (good_out m) (let (m'', fd) = alloc_fd m' e in Ok (m'', okout (uint fd)))"
proof -
  have "good m' (fst (alloc_fd m' e))" using assms by (intro alloc_fd_good) (auto dest: good_wf)
  with assms(1) have "good m (fst (alloc_fd m' e))" by (rule good_trans)
  then show ?thesis by (cases "alloc_fd m' e") (simp add: out_with_def)
qed

lemmas alloc_case_ok = alloc_open_ok [unfolded Let_def]

lemma create_open_ok [vc]:
  assumes "wf m" "ok_id m Virtual p" "child m p k = None"
  shows "res_ok (good_out m) (create_open m p k w)"
  unfolding create_open_def
  by (rule res_ok_bind [OF create_live_ok [OF assms]], clarify, rule alloc_open_ok) simp_all

lemma create_plain_ok [vc]:
  assumes "wf m" "ok_id m Virtual p" "child m p k = None"
  shows "res_ok (good_out m) (bind_res (create_live m p k kd) (\<lambda>(m', i). Ok (m', okout 0)))"
  by (rule res_ok_bind [OF create_live_ok [OF assms]]) (auto simp: out_with_def)

end
