(* ===== verification/Fs_Safe.thy ===== *)
theory Fs_Safe
  imports Fs_Preserve
begin

text \<open>
  Every operation is \<open>safe\<close>: on a well-formed model it returns, keeps the invariant, and
  leaves the model alone when it fails. The proofs run the verification conditions of
  \<open>Fs_Preserve\<close> over the bodies. \<^verbatim>\<open>getcwd\<close> and \<^verbatim>\<open>realpath\<close> climb the virtual
  parent links, so they also need those to end (\<open>names_ok\<close>). Then the runs of a sequence of
  operations, through the interface \<open>step_invariant\<close>.
\<close>

lemma out_withI: "G m m' \<Longrightarrow> ret out \<noteq> -1 \<Longrightarrow> out_with G m (m', out)"
  by (simp add: out_with_def)

section \<open>Creating operations\<close>

lemma do_mkdir_safe: "wf m \<Longrightarrow> safe m (do_mkdir m s path)"
  unfolding do_mkdir_def
  by (rule reply_safe, assumption, intro vc) (auto simp: free_slot_def)

lemma trailing_errno_ok [vc]:
  assumes "wf m" "p < size_of m"
  shows "res_ok Q (bind_res (trailing_create_errno m s p k path e) Err)"
  using trail_mac_ok [OF assms, of k s path] assms
  by (auto simp: trailing_create_errno_def split: res.splits trail.splits)

lemma do_symlink_safe: "wf m \<Longrightarrow> safe m (do_symlink m target path)"
  unfolding do_symlink_def
  by (rule reply_safe, assumption, intro vc) auto

lemma vc_bind_case_create [vc]:
  assumes "wf m"
    and "\<And>p n t. p < size_of m \<Longrightarrow> free_slot m p n \<Longrightarrow> res_ok Q (bind_res (a (p, n, t)) f)"
    and "\<And>e. res_ok Q (bind_res (b e) f)"
  shows "res_ok Q
    (bind_res (case resolve_for_create m s path of Ok x \<Rightarrow> a x | Err e \<Rightarrow> b e | Abort x \<Rightarrow> c x) f)"
  using resolve_for_create_ok [OF assms(1), of s path]
proof (cases rule: res_ok_cases)
  case (Ok x)
  obtain p n t where x: "x = (p, n, t)" by (cases x) auto
  with Ok have f: "free_slot m p n" by simp
  then have "p < size_of m" by (auto simp: free_slot_def)
  from assms(2) [OF this f, of t] Ok x show ?thesis by simp
qed (use assms(3) in simp)

lemma do_bind_safe: "wf m \<Longrightarrow> safe m (do_bind m path)"
  unfolding do_bind_def
  by (rule reply_safe, assumption, intro vc) (auto simp: free_slot_def intro: child_range)

lemma do_mkstemp_safe: "wf m \<Longrightarrow> safe m (do_mkstemp m name)"
  unfolding do_mkstemp_def
  by (rule reply_safe, assumption, intro vc) (auto simp: wf_cwd dest: wf_cwd)

section \<open>Opening\<close>

lemma open_trailing_ok:
  assumes "wf m"
  shows "res_ok (\<lambda>_. True) (open_trailing m s path flags)"
  unfolding open_trailing_def
proof (rule res_ok_case [OF resolve_parent_unchecked_ok [OF assms]], clarify)
  fix p n t assume p: "p < size_of m"
  show "res_ok (\<lambda>_. True) (bind_res (check_dir m p) (\<lambda>_.
      if \<not> is_mac m then Ok (Some EISDIR)
      else if NAME_MAX < length n then Ok (Some ENAMETOOLONG)
      else (case trail_mac m s p (key m n) path of
              Ok t \<Rightarrow> Ok (Some (case t of TMissing \<Rightarrow> ENOENT | TDangling p n \<Rightarrow> ENOENT
                 | TNonDir \<Rightarrow> ENOTDIR | TDirectory d \<Rightarrow> if o_excl flags then EEXIST else EISDIR))
            | Err e \<Rightarrow> Ok (Some e)
            | Abort x \<Rightarrow> Abort x)))"
    by (intro vc p res_ok_case [OF trail_mac_ok [OF assms p]]) simp_all
qed simp

lemma open_exclusive_ok: "wf m \<Longrightarrow> res_ok (good_out m) (open_exclusive m s path flags)"
  unfolding open_exclusive_def by (intro vc) auto

lemma open_node_ok:
  assumes "wf m" "ok_id m Virtual i"
  shows "res_ok (good_out m) (open_node m i flags)"
proof -
  note i = ok_id_range [OF assms(2)]
  have trunc: "good m (m\<lparr>m_nodes := (m_nodes m)[i := (node_at m i)\<lparr>n_kind := KFile []\<rparr>]\<rparr>)"
    if "n_kind (node_at m i) = KFile d" for d
    by (rule set_content_good [OF assms(1) i that])
  show ?thesis
    unfolding open_node_def
    by (intro vc_nd vc_kind_case vc_if vc_bind_if vc_Err vc_bind_Ok i)
       (use assms i trunc in \<open>auto intro!: alloc_case_ok simp: good_refl\<close>)
qed

lemma open_create_missing_ok: "wf m \<Longrightarrow> res_ok (good_out m) (open_create_missing m s path flags)"
  unfolding open_create_missing_def by (intro vc) (auto simp: free_slot_def)

lemma open_lookup_ok: "wf m \<Longrightarrow> res_ok (good_out m) (open_lookup m s path flags)"
  unfolding open_lookup_def
  by (rule res_ok_case [OF resolve_ok]) (auto intro: open_node_ok open_create_missing_ok)

lemma do_open_safe: "wf m \<Longrightarrow> safe m (do_open m s path flags)"
  unfolding do_open_def
  by (rule reply_safe, assumption, intro vc res_ok_bind [OF open_trailing_ok])
     (auto intro: open_exclusive_ok open_lookup_ok)

lemma do_opendir_safe: "wf m \<Longrightarrow> safe m (do_opendir m s path)"
  unfolding do_opendir_def
  by (rule reply_safe, assumption, intro vc_resolve vc_check_dir alloc_open_ok)
     (auto simp: good_refl)

section \<open>Descriptors\<close>

lemma good_set_fd:
  assumes "good m m'" "fd_ok m' e"
  shows "good m (m'\<lparr>m_fds := bt_insert fd e (m_fds m')\<rparr>)"
proof -
  have "good m' (m'\<lparr>m_next_fd := m_next_fd m', m_fds := bt_insert fd e (m_fds m')\<rparr>)"
    by (rule good_fds) (use assms wf_fd good_wf in \<open>auto split: if_splits\<close>)
  then show ?thesis using good_trans [OF assms(1)] by simp
qed

lemma do_write_safe: "wf m \<Longrightarrow> safe m (do_write m fd d)"
  unfolding do_write_def
proof (rule reply_safe, assumption)
  assume m: "wf m"
  have "res_ok (good_out m) (bind_res (nd m i) (\<lambda>n. case n_kind n of
      KFile c \<Rightarrow> bind_res (upd_node m i (\<lambda>n. n\<lparr>n_kind := KFile (write_at c pos d)\<rparr>)) (\<lambda>m'.
        Ok (m'\<lparr>m_fds := bt_insert fd (FdFile i (pos + length d) True) (m_fds m')\<rparr>,
            okout (int (length d))))
    | _ \<Rightarrow> Err EBADF))" if fd: "bt_get (m_fds m) fd = Some (FdFile i pos True)" for i pos
  proof -
    have i: "i < size_of m" using wf_fd [OF m fd] by simp
    let ?m = "\<lambda>c. m\<lparr>m_nodes := (m_nodes m)[i := (node_at m i)\<lparr>n_kind := KFile c\<rparr>]\<rparr>"
    have "good_out m (?m (write_at c pos d)
        \<lparr>m_fds := bt_insert fd (FdFile i (pos + length d) True) (m_fds m)\<rparr>, okout (int (length d)))"
      if "n_kind (node_at m i) = KFile c" for c
      using good_set_fd [OF set_content_good [OF m i that], where e = "FdFile i (pos + length d) True" and fd = fd] i
      by (simp add: out_with_def)
    then show ?thesis using i by (auto intro!: vc)
  qed
  then show "res_ok (good_out m) (case bt_get (m_fds m) fd of
        Some (FdFile i pos True) \<Rightarrow>
          bind_res (nd m i) (\<lambda>n.
            case n_kind n of
              KFile content \<Rightarrow>
                bind_res (upd_node m i (\<lambda>n. n\<lparr>n_kind := KFile (write_at content pos d)\<rparr>)) (\<lambda>m'.
                  Ok (m'\<lparr>m_fds := bt_insert fd (FdFile i (pos + length d) True) (m_fds m')\<rparr>,
                      okout (int (length d))))
            | _ \<Rightarrow> Err EBADF)
      | _ \<Rightarrow> Err EBADF)"
    by (auto split: option.split fd_entry.split bool.split)
qed

lemma do_read_safe: "wf m \<Longrightarrow> safe m (do_read m fd len)"
  unfolding do_read_def Let_def
proof (rule reply_safe, assumption)
  assume m: "wf m"
  have ok: "good m (m\<lparr>m_fds := bt_insert fd (FdFile i pos' w) (m_fds m)\<rparr>) \<and> i < size_of m"
    if "bt_get (m_fds m) fd = Some (FdFile i pos w)" for i pos pos' w
    using good_set_fd [OF good_refl [OF m], where e = "FdFile i pos' w" and fd = fd] wf_fd [OF m that] by simp
  show "res_ok (good_out m) (case bt_get (m_fds m) fd of
        Some (FdFile i pos w) \<Rightarrow>
          bind_res (nd m i) (\<lambda>n. case n_kind n of
              KFile content \<Rightarrow>
                Ok (m\<lparr>m_fds := bt_insert fd (FdFile i (pos + length (take
                      (min (min pos (length content) + len) (length content) -
                        min pos (length content)) (drop (min pos (length content)) content))) w)
                      (m_fds m)\<rparr>,
                    dataout (int (length (take
                      (min (min pos (length content) + len) (length content) -
                        min pos (length content)) (drop (min pos (length content)) content))))
                      (take (min (min pos (length content) + len) (length content) -
                        min pos (length content)) (drop (min pos (length content)) content)))
            | _ \<Rightarrow> Err EBADF)
      | Some (FdDir i) \<Rightarrow> Err EISDIR
      | None \<Rightarrow> Err EBADF)"
    by (auto intro!: vc simp: out_with_def dest: ok split: option.split fd_entry.split)
qed

lemma do_close_safe: "wf m \<Longrightarrow> safe m (do_close m fd)"
  unfolding do_close_def
proof (rule reply_safe, assumption)
  assume m: "wf m"
  have "good m (m\<lparr>m_next_fd := m_next_fd m, m_fds := bt_remove fd (m_fds m)\<rparr>)"
    by (rule good_fds [OF m]) (use wf_fd [OF m] in \<open>auto split: if_splits\<close>)
  then show "res_ok (good_out m) (if bt_get (m_fds m) fd \<noteq> None
      then Ok (m\<lparr>m_fds := bt_remove fd (m_fds m)\<rparr>, okout 0) else Err EBADF)"
    by (simp add: out_with_def)
qed

section \<open>Queries\<close>

lemma do_readlink_safe: "wf m \<Longrightarrow> safe m (do_readlink m path)"
  unfolding do_readlink_def by (rule query_safe, assumption, intro vc) auto

lemma do_stat_safe: "wf m \<Longrightarrow> safe m (do_stat m path follow)"
  unfolding do_stat_def by (rule query_safe, assumption, intro vc) auto

lemma do_list_safe: "wf m \<Longrightarrow> safe m (do_list m path)"
  unfolding do_list_def by (rule query_safe, assumption, intro vc) auto

lemma vc_parent_and_name [vc]:
  "(\<And>d n t. parent_and_name path = Ok (d, n, t) \<Longrightarrow> res_ok Q (f (d, n, t))) \<Longrightarrow>
     res_ok Q (bind_res (parent_and_name path) f)"
  by (rule res_ok_bind [OF parent_and_name_ok]) auto

lemma do_connect_safe: "wf m \<Longrightarrow> safe m (do_connect m path)"
  unfolding do_connect_def
  by (rule query_safe, assumption, intro vc) (auto dest: wf_cwd)

lemma do_chdir_safe: "wf m \<Longrightarrow> safe m (do_chdir m path)"
  unfolding do_chdir_def
  by (rule reply_safe, assumption, intro vc) (auto simp: out_with_def good_cwd)

section \<open>Removal\<close>

text \<open>What a removal or a rename acts on: a node and the place that lists it.\<close>

definition listed :: "model \<Rightarrow> node_id \<times> bytes \<times> node_id \<times> bool \<Rightarrow> bool" where
  "listed m = (\<lambda>(p, k, i, t). p < size_of m \<and> child m p k = Some i \<and> i < size_of m)"

lemma unlink_victim_ok: "wf m \<Longrightarrow> res_ok (listed m) (unlink_victim m s path is_rmdir)"
  unfolding unlink_victim_def
  by (intro vc) (auto simp: listed_def intro: child_range)

lemma vc_unlink_victim [vc]:
  "wf m \<Longrightarrow>
     (\<And>p k i t. p < size_of m \<Longrightarrow> child m p k = Some i \<Longrightarrow> i < size_of m \<Longrightarrow>
        unlink_victim m s path r = Ok (p, k, i, t) \<Longrightarrow> res_ok Q (f (p, k, i, t))) \<Longrightarrow>
     res_ok Q (bind_res (unlink_victim m s path r) f)"
  by (rule res_ok_bind [OF unlink_victim_ok]) (auto simp: listed_def)

lemma remove_detach_ok [vc]:
  assumes "wf m" "p < size_of m" "i < size_of m"
  shows "res_ok (good_out m) (bind_res (remove_child m p k) (\<lambda>m1.
     bind_res (if d then upd_node m1 i (\<lambda>n. n\<lparr>n_detached := True\<rparr>) else Ok m1)
       (\<lambda>m2. Ok (m2, okout 0))))"
proof -
  obtain m1 where m1: "remove_child m p k = Ok m1" "good m m1" "size_of m1 = size_of m"
    by (rule remove_child_facts [OF assms(1,2), of k]) (rule that)
  obtain m2 where m2: "upd_node m1 i (\<lambda>n. n\<lparr>n_detached := True\<rparr>) = Ok m2" "good m1 m2"
    using set_detached_good [OF good_wf [OF m1(2)], of i] assms(3) m1(3) by auto
  have "good m m2" using good_trans [OF m1(2) m2(2)] .
  with m1 m2(1) show ?thesis by (cases d) (simp_all add: out_with_def del: upd_node_ok)
qed

lemma unlink_impl_safe: "wf m \<Longrightarrow> safe m (unlink_impl m s path is_rmdir)"
  unfolding unlink_impl_def
  by (rule reply_safe, assumption, intro vc) auto

section \<open>Rename\<close>

lemma rename_source_ok: "wf m \<Longrightarrow> res_ok (listed m) (rename_source m from)"
  unfolding rename_source_def
  by (intro vc) (auto simp: listed_def intro: child_range)

lemma vc_rename_source [vc]:
  "wf m \<Longrightarrow>
     (\<And>p k i t. p < size_of m \<Longrightarrow> child m p k = Some i \<Longrightarrow> i < size_of m \<Longrightarrow>
        rename_source m from = Ok (p, k, i, t) \<Longrightarrow> res_ok Q (f (p, k, i, t))) \<Longrightarrow>
     res_ok Q (bind_res (rename_source m from) f)"
  by (rule res_ok_bind [OF rename_source_ok]) (auto simp: listed_def)

definition landing :: "model \<Rightarrow> node_id \<Rightarrow> bytes \<Rightarrow> bool" where
  "landing m p k = (p < size_of m \<and> (ok_id m Virtual p \<or> child m p k \<noteq> None))"

lemma rename_target_ok:
  "wf m \<Longrightarrow> res_ok (\<lambda>(p, k, t). landing m p k) (rename_target m to dir)"
  unfolding rename_target_def
  by (intro vc) (auto simp: landing_def free_slot_def)

lemma vc_rename_target [vc]:
  "wf m \<Longrightarrow>
     (\<And>p k t. p < size_of m \<Longrightarrow> landing m p k \<Longrightarrow>
        rename_target m to dir = Ok (p, k, t) \<Longrightarrow> res_ok Q (f (p, k, t))) \<Longrightarrow>
     res_ok Q (bind_res (rename_target m to dir) f)"
  by (rule res_ok_bind [OF rename_target_ok]) (auto simp: landing_def)

lemma rename_existing_ok:
  assumes "wf m" "x < size_of m" "p < size_of m"
  shows "res_ok (\<lambda>d. \<forall>existing. d = Some existing \<longrightarrow>
      child m p k = existing \<and> existing \<noteq> Some x \<and> (\<forall>e. existing = Some e \<longrightarrow> e < size_of m))
    (rename_existing m x dir p k)"
  unfolding rename_existing_def
  by (intro vc) (use assms in \<open>auto intro: child_range split: bool.split\<close>)

lemma vc_rename_existing [vc]:
  assumes "wf m" "x < size_of m" "p < size_of m" and "res_ok Q (f None)"
    and "\<And>existing. child m p k = existing \<Longrightarrow> existing \<noteq> Some x \<Longrightarrow>
      (\<And>e. existing = Some e \<Longrightarrow> e < size_of m) \<Longrightarrow>
      rename_existing m x dir p k = Ok (Some existing) \<Longrightarrow> res_ok Q (f (Some existing))"
  shows "res_ok Q (bind_res (rename_existing m x dir p k) f)"
  using rename_existing_ok [OF assms(1-3), of k dir]
proof (cases rule: res_ok_cases)
  case (Ok d)
  then show ?thesis using assms(4,5) by (cases d) auto
qed simp

text \<open>The descent check of a rename keeps the tree free of cycles.\<close>

lemma not_below_path:
  assumes "wf m" "tp < size_of m"
    and "(if tp = x then Ok True else is_descendant m x tp) = Ok False"
  obtains ys where "up_path (par m) tp ys" "x \<notin> set ys"
proof -
  obtain ys where y: "up_path (par m) tp ys" using chain_exists [OF assms(1,2)] by blast
  with assms(3) is_descendant_chain [OF assms(1,2) y, of x] have "x \<notin> set ys"
    by (auto split: if_splits)
  with y show ?thesis by (rule that)
qed

lemma rename_commit_ok:
  assumes "wf m" "fp < size_of m" "child m fp fk = Some x" "landing m tp tk"
    and "(if tp = x then Ok True else is_descendant m x tp) = Ok False"
    and "child m tp tk = existing" "existing \<noteq> Some x"
    and "\<And>e. existing = Some e \<Longrightarrow> e < size_of m"
  shows "res_ok (out_with kept m)
    (bind_res (rename_commit m fp fk x tp tk existing) (\<lambda>m'. Ok (m', okout 0)))"
proof -
  have tp: "tp < size_of m" using assms(4) by (simp add: landing_def)
  obtain ys where ys: "up_path (par m) tp ys" "x \<notin> set ys"
    by (rule not_below_path [OF assms(1) tp assms(5)])
  have "ok_id m Virtual tp \<or> (\<exists>e. child m tp tk = Some e \<and> e \<noteq> x)"
    using assms(4,6,7) by (auto simp: landing_def)
  from rename_commit_kept [OF assms(1-3) this tp ys, of existing] assms(8)
  show ?thesis by (auto simp: out_with_def)
qed

lemma vc_below [vc]:
  assumes "wf m" "tp < size_of m"
    and "\<And>b. (if tp = x then Ok True else is_descendant m x tp) = Ok b \<Longrightarrow> res_ok Q (f b)"
  shows "res_ok Q (bind_res (if tp = x then Ok True else is_descendant m x tp) f)"
  using is_descendant_total [OF assms(1,2), of x] assms(3) by (auto split: if_splits)

lemma rename_root_ok: "wf m \<Longrightarrow> res_ok Q (rename_root m from to)"
  unfolding rename_root_def Let_def by (intro vc) auto

lemma do_rename_safe: "wf m \<Longrightarrow> safe_with kept m (do_rename m from to)"
  unfolding do_rename_def Let_def
  by (rule reply_safe_with, erule kept_refl,
      intro vc_if rename_root_ok vc_rename_source vc_prod vc_nd vc_rename_target vc_mount_of
        vc_check_live vc_below vc_rename_existing)
     (auto intro!: rename_commit_ok out_withI kept_refl)

section \<open>Names\<close>

text \<open>
  \<^verbatim>\<open>full_path\<close> climbs to the virtual parent where a node has one, which is not the
  link that \<^verbatim>\<open>rename\<close> checks. It returns as long as these chains end.
\<close>

definition vpar :: "model \<Rightarrow> node_id \<Rightarrow> node_id option" where
  "vpar m i = (case n_virtual_parent (node_at m i) of Some p \<Rightarrow> Some p | None \<Rightarrow> par m i)"

definition names_ok :: "model \<Rightarrow> bool" where
  "names_ok m = (\<forall>i < size_of m. \<exists>xs. up_path (vpar m) i xs)"

lemma vpar_range: "wf m \<Longrightarrow> i < size_of m \<Longrightarrow> vpar m i = Some p \<Longrightarrow> p < size_of m"
  by (auto simp: vpar_def dest: virtual_parent_range par_range split: option.splits)

lemma node_name_and_parent_vpar:
  assumes "wf m" "i < size_of m"
  shows "\<exists>r. node_name_and_parent m Virtual i = Ok r \<and>
    (\<forall>nm p. r = Some (nm, p) \<longrightarrow> vpar m i = Some p)"
  using assms par_range [OF assms]
  by (auto simp: node_name_and_parent_def vpar_def par_def split: option.split)

lemma full_path_loop_total:
  assumes "wf m" "up_path (vpar m) i xs"
  shows "i < size_of m \<Longrightarrow> length xs \<le> f \<Longrightarrow> \<exists>ps. full_path_loop f m Virtual i parts = Ok ps"
  using assms(2)
proof (induction arbitrary: f parts rule: up_path.induct)
  case (top i)
  then obtain f' where "f = Suc f'" by (cases f) auto
  with node_name_and_parent_vpar [OF assms(1), of i] top show ?case
    by (auto split: option.split)
next
  case (up i p xs)
  then obtain f' where f: "f = Suc f'" "length xs \<le> f'" by (cases f) auto
  have p: "p < size_of m" using vpar_range [OF assms(1)] up by blast
  obtain r where r: "node_name_and_parent m Virtual i = Ok r"
    "\<forall>nm q. r = Some (nm, q) \<longrightarrow> vpar m i = Some q"
    using node_name_and_parent_vpar [OF assms(1)] up by blast
  show ?case
    using r f up.IH [OF p f(2)] up.hyps(1) by (cases r) auto
qed

lemma full_path_total:
  assumes "wf m" "names_ok m" "i < size_of m"
  shows "\<exists>p. full_path m Virtual i = Ok p"
proof -
  obtain xs where x: "up_path (vpar m) i xs" using assms by (auto simp: names_ok_def)
  have "length xs \<le> size_of m"
    by (rule up_path_length [OF x]) (auto intro: vpar_range [OF assms(1)] assms(3))
  from full_path_loop_total [OF assms(1) x assms(3) this]
  obtain ps where "full_path_loop (size_of m) m Virtual i [] = Ok ps" by blast
  then show ?thesis by (simp add: full_path_def)
qed

lemma vc_full_path [vc]:
  "wf m \<Longrightarrow> names_ok m \<Longrightarrow> i < size_of m \<Longrightarrow>
     (\<And>p. full_path m Virtual i = Ok p \<Longrightarrow> res_ok Q (f p)) \<Longrightarrow>
     res_ok Q (bind_res (full_path m Virtual i) f)"
  using full_path_total [of m i] by auto

lemma do_getcwd_safe: "wf m \<Longrightarrow> names_ok m \<Longrightarrow> safe m (do_getcwd m)"
  unfolding do_getcwd_def
  by (rule query_safe, assumption, intro vc) (auto dest: wf_cwd)

lemma do_realpath_safe: "wf m \<Longrightarrow> names_ok m \<Longrightarrow> safe m (do_realpath m path)"
  unfolding do_realpath_def
  by (rule query_safe, assumption, intro vc) (auto dest: wf_cwd)

text \<open>No operation but a rename can break the chains of names.\<close>

lemma names_ok_good:
  assumes "wf m" "names_ok m" "good m m'"
  shows "names_ok m'"
proof -
  have m': "wf m'" and ev: "evolves m m'" and st: "still m m'"
    using assms(3) by (auto simp: good_def kept_def)
  have old: "vpar m' i = vpar m i" if "i < size_of m" for i
  proof -
    have "n_virtual_parent (node_at m' i) = n_virtual_parent (node_at m i)"
      using that ev by (simp add: evolves_def node_evolves_def)
    moreover have "par m' i = par m i" using that st by (simp add: still_def)
    ultimately show ?thesis by (simp add: vpar_def split: option.split)
  qed
  have olds: "\<exists>xs. up_path (vpar m') i xs" if i: "i < size_of m" for i
  proof -
    obtain xs where x: "up_path (vpar m) i xs" using assms(2) i by (auto simp: names_ok_def)
    have "set xs \<subseteq> {..<size_of m}"
      by (rule up_path_bounded [OF x]) (auto intro: vpar_range [OF assms(1)] i)
    then have "\<And>j. j \<in> set xs \<Longrightarrow> vpar m' j = vpar m j" using old by auto
    from up_path_cong [OF x this] show ?thesis by blast
  qed
  have new: "vpar m' i = par m' i" if "i < size_of m'" "\<not> i < size_of m" for i
    using that ev by (auto simp: vpar_def evolves_def)
  have "\<exists>ys. up_path (vpar m') i ys" if "up_path (par m') i xs" "i < size_of m'" for i xs
    using that
  proof (induction rule: up_path.induct)
    case (top i)
    then show ?case using olds [of i] new [of i] by (metis up_path.top)
  next
    case (up i p xs)
    then have "\<exists>ys. up_path (vpar m') p ys" using par_range [OF m'] by blast
    then show ?case using olds [of i] new [of i] up by (metis up_path.up)
  qed
  then show ?thesis using chain_exists [OF m'] unfolding names_ok_def by blast
qed

section \<open>One operation\<close>

fun is_rename :: "op \<Rightarrow> bool" where
  "is_rename (Rename from to) = True"
| "is_rename _ = False"

text \<open>The operations that print a path of the private view.\<close>

fun prints_path :: "op \<Rightarrow> bool" where
  "prints_path Getcwd = True"
| "prints_path (Realpath path) = True"
| "prints_path _ = False"

lemmas op_safe = do_mkdir_safe do_open_safe do_opendir_safe do_write_safe do_read_safe
  do_symlink_safe do_readlink_safe unlink_impl_safe do_chdir_safe do_getcwd_safe
  do_realpath_safe do_stat_safe do_bind_safe do_connect_safe do_mkstemp_safe do_list_safe
  do_close_safe

lemma apply_op_good:
  assumes "wf m" "prints_path x \<longrightarrow> names_ok m" "\<not> is_rename x"
  shows "safe m (apply_op m x)"
  using assms by (cases x) (simp_all add: op_safe)

lemma apply_op_kept:
  assumes "wf m" "prints_path x \<longrightarrow> names_ok m"
  shows "safe_with kept m (apply_op m x)"
proof (cases "is_rename x")
  case True
  then show ?thesis using assms by (cases x) (simp_all add: do_rename_safe)
next
  case False
  then show ?thesis using apply_op_good [OF assms] by (intro safe_kept)
qed

section \<open>Runs\<close>

text \<open>A sequence of steps of any machine, with its replies.\<close>

fun run_all :: "('s \<Rightarrow> 'o \<Rightarrow> ('s \<times> 'r) res) \<Rightarrow> 's \<Rightarrow> 'o list \<Rightarrow> ('s \<times> 'r list) res" where
  "run_all step s [] = Ok (s, [])"
| "run_all step s (x # xs) =
     bind_res (step s x) (\<lambda>(s', r).
     bind_res (run_all step s' xs) (\<lambda>(s'', rs). Ok (s'', r # rs)))"

lemma apply_all_run: "apply_all m xs = run_all apply_op m xs"
  by (induction xs arbitrary: m) simp_all

text \<open>
  The contract of a machine whose steps never get stuck: an allowed step from a state with
  the invariant returns a state with the invariant, related to the one before.
\<close>

locale step_invariant =
  fixes step :: "'s \<Rightarrow> 'o \<Rightarrow> ('s \<times> 'r) res"
    and inv :: "'s \<Rightarrow> bool"
    and allowed :: "'o \<Rightarrow> bool"
    and rel :: "'s \<Rightarrow> 's \<Rightarrow> bool"
  assumes step_ok: "inv s \<Longrightarrow> allowed x \<Longrightarrow> \<exists>s' r. step s x = Ok (s', r) \<and> inv s' \<and> rel s s'"
    and rel_refl: "inv s \<Longrightarrow> rel s s"
    and rel_trans: "rel a b \<Longrightarrow> rel b c \<Longrightarrow> rel a c"
begin

lemma run_ok:
  "inv s \<Longrightarrow> list_all allowed xs \<Longrightarrow>
     \<exists>s' rs. run_all step s xs = Ok (s', rs) \<and> length rs = length xs \<and> inv s' \<and> rel s s'"
proof (induction xs arbitrary: s)
  case Nil
  then show ?case by (simp add: rel_refl)
next
  case (Cons x xs)
  from Cons.prems obtain s1 r where 1: "step s x = Ok (s1, r)" "inv s1" "rel s s1"
    using step_ok [of s x] by auto
  from Cons.IH [OF 1(2)] Cons.prems obtain s2 rs where
    "run_all step s1 xs = Ok (s2, rs)" "length rs = length xs" "inv s2" "rel s1 s2" by auto
  with 1 rel_trans show ?case by fastforce
qed

end

text \<open>Models without virtual parents, such as those of \<^verbatim>\<open>new_plain\<close>.\<close>

definition unmounted :: "model \<Rightarrow> bool" where
  "unmounted m = (\<forall>i < size_of m. n_virtual_parent (node_at m i) = None)"

lemma unmounted_names_ok:
  assumes "wf m" "unmounted m"
  shows "names_ok m"
  unfolding names_ok_def
proof (intro allI impI)
  fix i assume i: "i < size_of m"
  obtain xs where x: "up_path (par m) i xs" using chain_exists [OF assms(1) i] by blast
  have "vpar m j = par m j" if "j \<in> set xs" for j
    using that chain_range [OF assms(1) i x] assms(2) by (auto simp: vpar_def unmounted_def)
  from up_path_cong [OF x this] show "\<exists>xs. up_path (vpar m) i xs" by blast
qed

lemma unmounted_evolves: "unmounted m \<Longrightarrow> evolves m m' \<Longrightarrow> unmounted m'"
  unfolding unmounted_def evolves_def node_evolves_def by (metis not_le)

interpretation fs: step_invariant apply_op wf "\<lambda>x. \<not> prints_path x" evolves
  by unfold_locales
     (use apply_op_kept in \<open>force simp: safe_with_def kept_def intro: evolves_trans\<close>)+

interpretation fs_names: step_invariant apply_op "\<lambda>m. wf m \<and> names_ok m" "\<lambda>x. \<not> is_rename x" evolves
proof unfold_locales
  fix m x assume "wf m \<and> names_ok m" "\<not> is_rename x"
  then show "\<exists>m' r. apply_op m x = Ok (m', r) \<and> (wf m' \<and> names_ok m') \<and> evolves m m'"
    using apply_op_good [of m x] names_ok_good [of m]
    by (auto simp: safe_with_def good_def kept_def)
qed (auto intro: evolves_trans)

interpretation fs_plain: step_invariant apply_op "\<lambda>m. wf m \<and> unmounted m" "\<lambda>x. True" evolves
proof unfold_locales
  fix m x assume m: "wf m \<and> unmounted m"
  then show "\<exists>m' r. apply_op m x = Ok (m', r) \<and> (wf m' \<and> unmounted m') \<and> evolves m m'"
    using apply_op_kept [of m x] unmounted_names_ok [of m] unmounted_evolves [of m]
    by (auto simp: safe_with_def kept_def)
qed (auto intro: evolves_trans)

end
