(* ===== verification/Fs_New.thy ===== *)
theory Fs_New
  imports Fs_Safe
begin

text \<open>
  Fresh models are well-formed: \<^verbatim>\<open>Model::new\<close> for both profiles, when the temporary root
  lies outside the directories that it shadows, and \<^verbatim>\<open>Model::new_plain\<close> for every anchor.
  The fixtures keep the invariant.
\<close>

section \<open>Models before mounting\<close>

definition no_mounts :: "model \<Rightarrow> bool" where
  "no_mounts m =
     (\<forall>i < size_of m. n_mounted_by (node_at m i) = None \<and> n_virtual_parent (node_at m i) = None)"

lemma no_mounts_ok_id: "no_mounts m \<Longrightarrow> i < size_of m \<Longrightarrow> ok_id m v i"
  by (simp add: no_mounts_def ok_id_def)

lemma no_mounts_evolves: "no_mounts m \<Longrightarrow> evolves m m' \<Longrightarrow> no_mounts m'"
  unfolding no_mounts_def evolves_def node_evolves_def by (metis not_le)

lemma no_mounts_unmounted: "no_mounts m \<Longrightarrow> unmounted m"
  by (simp add: no_mounts_def unmounted_def)

lemma good_size: "good m m' \<Longrightarrow> size_of m \<le> size_of m'"
  by (simp add: good_def kept_def evolves_def)

lemma no_mounts_good: "no_mounts m \<Longrightarrow> good m m' \<Longrightarrow> no_mounts m'"
  by (auto simp: good_def kept_def intro: no_mounts_evolves)

text \<open>
  What a step of the construction gives: a well-formed model that still has no mounts, and a
  node of it. \<open>fresh\<close> also says that the node is new and has no children yet.
\<close>

definition larger :: "model \<Rightarrow> model \<Rightarrow> bool" where
  "larger m m' =
     (good m m' \<and> no_mounts m' \<and> m_fds m' = m_fds m \<and> m_cwd m' = m_cwd m)"

definition built :: "model \<Rightarrow> model \<times> node_id \<Rightarrow> bool" where
  "built m = (\<lambda>(m', i). larger m m' \<and> i < size_of m')"

lemma larger_refl: "wf m \<Longrightarrow> no_mounts m \<Longrightarrow> larger m m"
  by (simp add: larger_def good_refl)

lemma larger_trans: "larger a b \<Longrightarrow> larger b c \<Longrightarrow> larger a c"
  by (auto simp: larger_def intro: good_trans)

lemma larger_wf: "larger m m' \<Longrightarrow> wf m'"
  and larger_no_mounts: "larger m m' \<Longrightarrow> no_mounts m'"
  and larger_size: "larger m m' \<Longrightarrow> size_of m \<le> size_of m'"
  by (auto simp: larger_def dest: good_wf good_size)

definition fresh :: "model \<Rightarrow> model \<times> node_id \<Rightarrow> bool" where
  "fresh m = (\<lambda>(m', i). size_of m \<le> i \<and> n_children (node_at m' i) = [])"

lemma create_child_built:
  assumes "wf m" "no_mounts m" "p < size_of m" "child m p k = None"
  shows "\<exists>m'. create_child m p k kd = Ok (m', size_of m) \<and> built m (m', size_of m) \<and>
    fresh m (m', size_of m) \<and> (\<forall>j < size_of m. j \<noteq> p \<longrightarrow> n_children (node_at m' j) = n_children (node_at m j))"
proof -
  obtain m' where c: "create_child m p k kd = Ok (m', size_of m)"
    using create_child_total [OF assms(3)] by blast
  from create_child_grown [OF assms(3) c] have g: "grown m m' p k kd" by simp
  have "good m m'"
    by (rule grown_good [OF assms(1) no_mounts_ok_id [OF assms(2,3)] g assms(4)])
  moreover have rec: "m\<lparr>m_nodes := m_nodes m'\<rparr> = m'" using g by (simp add: grown_def)
  have "m_fds m' = m_fds m" "m_cwd m' = m_cwd m" by (subst rec [symmetric], simp)+
  ultimately have "larger m m'" using no_mounts_good [OF assms(2)] by (simp add: larger_def)
  with c g show ?thesis
    by (auto simp: built_def fresh_def grown_def fresh_node_def)
qed

lemma mkchild_built:
  assumes "wf m" "no_mounts m" "p < size_of m"
  shows "\<exists>r. mkchild m p name kd = Ok r \<and> built m r \<and>
    (child m p (key m name) = None \<longrightarrow> fresh m r)"
proof (cases "child m p (key m name)")
  case None
  then show ?thesis using create_child_built [OF assms None, of kd] assms by (auto simp: mkchild_def)
next
  case (Some i)
  then show ?thesis
    using assms child_range [OF assms(1,3) Some] larger_refl [OF assms(1,2)]
    by (auto simp: mkchild_def built_def)
qed

lemma built_trans: "built m (m', i) \<Longrightarrow> built m' r \<Longrightarrow> built m r"
  by (auto simp: built_def intro: larger_trans)

lemma mkdir_p_existing_ok:
  assumes "wf m" "cur < size_of m" "i < size_of m"
  shows "\<exists>t. mkdir_p_existing m v cur i = Ok t \<and> t < size_of m"
proof -
  have "res_ok (ok_id m v) (fst (resolve_inner m v
      (if starts_with target ''/'' then m_root_node m else cur) target True (0, [])))" for target
    by (rule walk_start [OF resolve_inner_ok [OF assms(1)]]) (use assms wf_root [OF assms(1)] in auto)
  note r = this
  show ?thesis
  proof (cases "n_kind (node_at m i)")
    case (KSymlink target)
    from r [of target] show ?thesis
      by (cases rule: res_ok_cases) (use KSymlink assms in \<open>auto simp: mkdir_p_existing_def\<close>)
  qed (use assms in \<open>auto simp: mkdir_p_existing_def\<close>)
qed

lemma mkdir_p_loop_built:
  "wf m \<Longrightarrow> no_mounts m \<Longrightarrow> cur < size_of m \<Longrightarrow>
     \<exists>r. mkdir_p_loop Physical kd cs m cur = Ok r \<and> built m r"
proof (induction cs arbitrary: m cur)
  case Nil
  then show ?case by (auto simp: built_def larger_refl)
next
  case (Cons c cs)
  note m = Cons.prems
  show ?case
  proof (cases "c = ''..''")
    case True
    obtain j where "bind_res (node_parent m Physical cur) (enter m Physical) = Ok j" "j < size_of m"
      using up_total [OF m(1,3), of Physical] by auto
    with True Cons.IH [OF m(1,2)] show ?thesis by simp
  next
    case nd: False
    show ?thesis
    proof (cases "child m cur (key m c)")
      case None
      from create_child_built [OF m None, of kd] obtain m' where
        c: "create_child m cur (key m c) kd = Ok (m', size_of m)" "built m (m', size_of m)" by blast
      then have "wf m'" "no_mounts m'" "size_of m < size_of m'" by (auto simp: built_def dest: larger_wf larger_no_mounts)
      from Cons.IH [OF this] c built_trans None nd m show ?thesis
        by (fastforce simp: enter_def)
    next
      case (Some i)
      obtain t where t: "mkdir_p_existing m Physical cur i = Ok t" "t < size_of m"
        using mkdir_p_existing_ok [OF m(1,3) child_range [OF m(1,3) Some]] by blast
      with Cons.IH [OF m(1,2) t(2)] Some nd m show ?thesis by (auto simp: enter_def)
    qed
  qed
qed

lemma mkdir_p_built:
  assumes "wf m" "no_mounts m"
  shows "\<exists>r. mkdir_p m Physical path kd = Ok r \<and> built m r"
  using mkdir_p_loop_built [OF assms ok_id_range [OF wf_root [OF assms(1)]]]
  by (simp add: mkdir_p_def enter_def)

text \<open>Below a childless directory \<^verbatim>\<open>mkdir_p\<close> creates every component.\<close>

lemma mkdir_p_loop_fresh:
  "wf m \<Longrightarrow> no_mounts m \<Longrightarrow> cur < size_of m \<Longrightarrow> n_children (node_at m cur) = [] \<Longrightarrow>
     ''..'' \<notin> set cs \<Longrightarrow> n \<le> cur \<Longrightarrow>
     \<exists>m' i. mkdir_p_loop Physical kd cs m cur = Ok (m', i) \<and> built m (m', i) \<and> n \<le> i \<and>
       n_children (node_at m' i) = []"
proof (induction cs arbitrary: m cur)
  case Nil
  then show ?case by (auto simp: built_def larger_refl)
next
  case (Cons c cs)
  note m = Cons.prems
  have None: "child m cur (key m c) = None" using m(4) by (simp add: child_def)
  from create_child_built [OF m(1-3) None, of kd] obtain m' where
    c: "create_child m cur (key m c) kd = Ok (m', size_of m)" "built m (m', size_of m)"
      "fresh m (m', size_of m)" by blast
  then have "wf m'" "no_mounts m'" "size_of m < size_of m'" "n_children (node_at m' (size_of m)) = []"
    by (auto simp: built_def fresh_def dest: larger_wf larger_no_mounts)
  from Cons.IH [OF this] m obtain m'' i where
    "mkdir_p_loop Physical kd cs m' (size_of m) = Ok (m'', i)" "built m' (m'', i)" "n \<le> i"
    "n_children (node_at m'' i) = []" by auto
  with c built_trans None m show ?case by (auto simp: enter_def)
qed

text \<open>A root whose first component is new, and which does not climb.\<close>

definition plain_root :: "model \<Rightarrow> bytes \<Rightarrow> bool" where
  "plain_root m path =
     (case real_components path of
        [] \<Rightarrow> False
      | c # cs \<Rightarrow> ''..'' \<notin> set (c # cs) \<and> child m (m_root_node m) (key m c) = None)"

lemma mkdir_p_fresh:
  assumes "wf m" "no_mounts m" "plain_root m path"
  obtains m' i where "mkdir_p m Physical path kd = Ok (m', i)" "built m (m', i)" "fresh m (m', i)"
proof -
  obtain c cs where p: "real_components path = c # cs" "''..'' \<notin> set (c # cs)"
    "child m (m_root_node m) (key m c) = None"
    using assms(3) by (auto simp: plain_root_def split: list.splits)
  have root: "m_root_node m < size_of m" using wf_root [OF assms(1)] by blast
  from create_child_built [OF assms(1,2) root p(3), of kd] obtain m' where
    c: "create_child m (m_root_node m) (key m c) kd = Ok (m', size_of m)" "built m (m', size_of m)"
      "fresh m (m', size_of m)" by blast
  then have "wf m'" "no_mounts m'" "size_of m < size_of m'" "n_children (node_at m' (size_of m)) = []"
    by (auto simp: built_def fresh_def dest: larger_wf larger_no_mounts)
  from mkdir_p_loop_fresh [OF this, of cs "size_of m" kd] p(2) obtain m'' i where
    "mkdir_p_loop Physical kd cs m' (size_of m) = Ok (m'', i)" "built m' (m'', i)" "size_of m \<le> i"
    "n_children (node_at m'' i) = []" by auto
  with c p root built_trans [OF c(2)] show ?thesis
    by (intro that [of m'' i]) (auto simp: mkdir_p_def enter_def fresh_def)
qed

section \<open>Mounting\<close>

text \<open>\<open>mounts m m' mp t vp\<close>: \<open>m'\<close> is \<open>m\<close> with \<open>t\<close> mounted on \<open>mp\<close>, shown below \<open>vp\<close>.\<close>

definition mounts :: "model \<Rightarrow> model \<Rightarrow> node_id \<Rightarrow> node_id \<Rightarrow> node_id \<Rightarrow> bool" where
  "mounts m m' mp t vp =
     (m\<lparr>m_nodes := m_nodes m'\<rparr> = m' \<and> size_of m' = size_of m \<and>
      node_at m' mp = (node_at m mp)\<lparr>n_mounted_by := Some t\<rparr> \<and>
      node_at m' t = (node_at m t)\<lparr>n_virtual_parent := Some vp, n_mount_name := Some ''tmp''\<rparr> \<and>
      (\<forall>j. j \<noteq> mp \<longrightarrow> j \<noteq> t \<longrightarrow> node_at m' j = node_at m j))"

lemma set_mount_mounts:
  assumes "mp < size_of m" "t < size_of m" "mp \<noteq> t"
  shows "\<exists>m'. set_mount m mp t vp = Ok m' \<and> mounts m m' mp t vp"
  using assms by (simp add: set_mount_def mounts_def nth_list_update)

lemma mounts_fields:
  assumes "mounts m m' mp t vp" "mp \<noteq> t"
  shows "par m' = par m" "child m' = child m" "size_of m' = size_of m"
    "n_mounted_by (node_at m' j) = (if j = mp then Some t else n_mounted_by (node_at m j))"
    "n_virtual_parent (node_at m' j) = (if j = t then Some vp else n_virtual_parent (node_at m j))"
    "n_children (node_at m' j) = n_children (node_at m j)"
    "vpar m' = (vpar m)(t := Some vp)"
proof -
  have at: "node_at m' j = (if j = mp then (node_at m mp)\<lparr>n_mounted_by := Some t\<rparr> else
      if j = t then (node_at m t)\<lparr>n_virtual_parent := Some vp, n_mount_name := Some ''tmp''\<rparr>
      else node_at m j)" for j
    using assms by (simp add: mounts_def)
  show "par m' = par m" "child m' = child m"
    by (rule ext, simp add: par_def at)
       (rule ext, rule ext, simp add: child_def at)
  then show "size_of m' = size_of m"
    "n_mounted_by (node_at m' j) = (if j = mp then Some t else n_mounted_by (node_at m j))"
    "n_virtual_parent (node_at m' j) = (if j = t then Some vp else n_virtual_parent (node_at m j))"
    "n_children (node_at m' j) = n_children (node_at m j)"
    "vpar m' = (vpar m)(t := Some vp)"
    using assms by (auto simp: mounts_def at vpar_def fun_eq_iff split: option.split)
qed

lemma mounts_wf:
  assumes m: "wf m" and g: "mounts m m' mp t vp" and neq: "mp \<noteq> t"
    and r: "t < size_of m" "vp < size_of m" and t: "n_mounted_by (node_at m t) = None"
    and mp: "mp \<noteq> m_root_node m" "mp \<noteq> m_cwd m" "m_fds m = []"
      "\<And>i. i < size_of m \<Longrightarrow> n_mounted_by (node_at m i) \<noteq> Some mp"
  shows "wf m'"
proof -
  note f = mounts_fields [OF g neq]
  have rec: "m\<lparr>m_nodes := m_nodes m'\<rparr> = m'" using g by (simp add: mounts_def)
  have same: "m_root_node m' = m_root_node m" "m_cwd m' = m_cwd m" "m_fds m' = m_fds m"
    by (subst rec [symmetric], simp)+
  have ok: "ok_id m' Virtual j" if "ok_id m Virtual j" "j \<noteq> mp" for j
    using that by (simp add: ok_id_def f)
  have "links_ok m' = links_ok m" unfolding links_ok_def f(1,2,3,6) by (rule refl)
  then have "links_ok m'" using wf_links [OF m] by blast
  moreover have "mounts_ok m'"
  proof (rule mounts_okI)
    fix i u assume "i < size_of m'" "n_mounted_by (node_at m' i) = Some u"
    then show "ok_id m' Virtual u"
      using ok mount_target [OF m, of i u] mp(4) [of i] r t neq
      by (auto simp: f ok_id_def split: if_splits)
  next
    fix i p assume "i < size_of m'" "n_virtual_parent (node_at m' i) = Some p"
    then show "p < size_of m'"
      using r virtual_parent_range [OF m, of i p] by (auto simp: f split: if_splits)
  qed
  moreover have "handles_ok m'"
    using ok [OF wf_root [OF m]] ok [OF wf_cwd [OF m]] mp by (simp add: handles_ok_def same bt_get_def)
  moreover have "chains_ok m'" using wf_chains [OF m] by (simp add: chains_ok_def f)
  ultimately show ?thesis by (simp add: wf_def)
qed

lemma mounts_names_ok:
  assumes "names_ok m" "mounts m m' mp t vp" "mp \<noteq> t" "up_path (vpar m) vp ys" "t \<notin> set ys"
  shows "names_ok m'"
  unfolding names_ok_def mounts_fields [OF assms(2,3)]
proof (intro allI impI)
  fix i assume "i < size_of m"
  then obtain xs where "up_path (vpar m) i xs" using assms(1) by (auto simp: names_ok_def)
  from up_path_reparent [OF this assms(4,5)] show "\<exists>zs. up_path ((vpar m)(t \<mapsto> vp)) i zs" .
qed

text \<open>
  Both mounts of a fresh model, on two different mountpoints of a model without mounts. The
  mountpoints and the nodes above the virtual parents are older than \<open>n\<close>, the targets are not.
\<close>

definition fresh_ok :: "model \<Rightarrow> bool" where
  "fresh_ok m = (wf m \<and> names_ok m \<and> m_fds m = [])"

lemma two_mounts:
  assumes m: "wf m" "no_mounts m" "m_fds m = []" "m_cwd m = m_root_node m"
    and old: "set [mp1, mp2, vp1, vp2] \<subseteq> {..<n}" and n: "n \<le> size_of m"
    and new: "n \<le> t1" "n \<le> t2" "t1 < size_of m" "t2 < size_of m"
    and mp: "mp1 \<noteq> m_root_node m" "mp2 \<noteq> m_root_node m" "mp1 \<noteq> mp2"
    and path: "up_path (par m) vp1 ys1" "up_path (par m) vp2 ys2"
      "set ys1 \<subseteq> {..<n}" "set ys2 \<subseteq> {..<n}"
  shows "\<exists>m'. bind_res (set_mount m mp1 t1 vp1) (\<lambda>m. set_mount m mp2 t2 vp2) = Ok m' \<and> fresh_ok m'"
proof -
  have neq: "mp1 \<noteq> t1" "mp2 \<noteq> t2" "mp2 \<noteq> t1" using old new by auto
  have lt: "mp1 < size_of m" "mp2 < size_of m" "vp1 < size_of m" "vp2 < size_of m"
    using old n by auto
  obtain m1 where m1: "set_mount m mp1 t1 vp1 = Ok m1" "mounts m m1 mp1 t1 vp1"
    using set_mount_mounts [OF lt(1) new(3) neq(1)] by blast
  note f1 = mounts_fields [OF m1(2) neq(1)]
  obtain m2 where m2: "set_mount m1 mp2 t2 vp2 = Ok m2" "mounts m1 m2 mp2 t2 vp2"
    using set_mount_mounts [of mp2 m1 t2 vp2] lt new neq f1(3) by auto
  have none: "n_mounted_by (node_at m i) = None" if "i < size_of m" for i
    using m(2) that by (simp add: no_mounts_def)
  have rec: "m\<lparr>m_nodes := m_nodes m1\<rparr> = m1" "m1\<lparr>m_nodes := m_nodes m2\<rparr> = m2"
    using m1(2) m2(2) by (simp_all add: mounts_def)
  have same1: "m_root_node m1 = m_root_node m" "m_cwd m1 = m_cwd m" "m_fds m1 = m_fds m"
    by (subst rec(1) [symmetric], simp)+
  have same2: "m_fds m2 = m_fds m1" by (subst rec(2) [symmetric], simp)
  have w1: "wf m1"
    by (rule mounts_wf [OF m(1) m1(2) neq(1) new(3) lt(3)]) (use none new(3) mp m in auto)
  have w2: "wf m2"
    by (rule mounts_wf [OF w1 m2(2) neq(2)])
       (use none new lt mp m neq old in \<open>auto simp: f1 same1\<close>)
  have nm: "names_ok m" by (rule unmounted_names_ok [OF m(1) no_mounts_unmounted [OF m(2)]])
  have vp: "up_path (vpar m) i ys" if "up_path (par m) i ys" "set ys \<subseteq> {..<n}" for i ys
    using that(2) n m(2)
    by (intro up_path_cong [OF that(1)]) (auto simp: vpar_def no_mounts_def)
  have n1: "names_ok m1"
    by (rule mounts_names_ok [OF nm m1(2) neq(1) vp [OF path(1,3)]]) (use path new in auto)
  have "up_path (vpar m1) vp2 ys2"
    by (rule up_path_cong [OF vp [OF path(2,4)]]) (use path new in \<open>auto simp: f1\<close>)
  moreover have "t2 \<notin> set ys2" using path(4) new(2) by auto
  ultimately have "names_ok m2" by (rule mounts_names_ok [OF n1 m2(2) neq(2)])
  with w2 same2 same1 m(3) m1(1) m2(1) show ?thesis by (simp add: fresh_ok_def)
qed

section \<open>Fresh models\<close>

text \<open>Several children in a row.\<close>

fun mk_all :: "(node_id \<times> bytes \<times> node_kind) list \<Rightarrow> model \<Rightarrow> model res" where
  "mk_all [] m = Ok m"
| "mk_all ((p, name, kd) # xs) m = bind_res (mkchild m p name kd) (\<lambda>(m', i). mk_all xs m')"

lemma mk_all_built:
  "wf m \<Longrightarrow> no_mounts m \<Longrightarrow> mk_all xs m = Ok m' \<Longrightarrow> wf m' \<and> no_mounts m'"
proof (induction xs m rule: mk_all.induct)
  case (2 p name kd xs m)
  have "p < size_of m"
    using "2.prems"(3) by (auto simp: mkchild_def find_child_def nd_def split: if_splits)
  from mkchild_built [OF "2.prems"(1,2) this, of name kd] obtain m1 i where
    1: "mkchild m p name kd = Ok (m1, i)" "built m (m1, i)" by auto
  then have "wf m1" "no_mounts m1" by (auto simp: built_def dest: larger_wf larger_no_mounts)
  with 1 2 show ?case by simp
qed simp

lemma bare_model_wf: "wf (bare_model pr)" "no_mounts (bare_model pr)"
proof -
  have "up_path (par (bare_model pr)) 0 [0]"
    by (rule up_path.top) (simp add: par_def bare_model_def fresh_node_def)
  then show "wf (bare_model pr)" "no_mounts (bare_model pr)"
    by (auto simp: bare_model_def wf_def links_ok_def mounts_ok_def handles_ok_def chains_ok_def
        par_def child_def ok_id_def no_mounts_def fresh_node_def bt_get_def bt_inv_def)
qed

text \<open>The children of a node created since are themselves created since.\<close>

lemma mkchild_new:
  assumes "wf M" "larger M m" "p < size_of m" "size_of M \<le> p"
  obtains m' i where "mkchild m p name kd = Ok (m', i)" "larger M m'"
    "i < size_of m'" "size_of M \<le> i"
proof -
  note m = larger_wf [OF assms(2)]
  from mkchild_built [OF m larger_no_mounts [OF assms(2)] assms(3), of name kd] obtain m' i where
    c: "mkchild m p name kd = Ok (m', i)" "built m (m', i)"
      "child m p (key m name) = None \<longrightarrow> fresh m (m', i)" by auto
  have "size_of M \<le> i"
  proof (cases "child m p (key m name)")
    case None
    with c(3) larger_size [OF assms(2)] show ?thesis by (simp add: fresh_def)
  next
    case (Some j)
    with c(1) assms(3) have "j = i" by (simp add: mkchild_def)
    with child_par [OF m assms(3) Some] have par: "par m i = Some p" by simp
    show ?thesis
    proof (rule ccontr)
      assume "\<not> size_of M \<le> i"
      then have i: "i < size_of M" by simp
      with assms(2) par have "par M i = Some p" by (simp add: larger_def good_def still_def)
      from par_range [OF assms(1) i this] assms(4) show False by simp
    qed
  qed
  with c built_def assms(2) larger_trans show ?thesis by (intro that [of m' i]) auto
qed

text \<open>The private temporary directories below the anchor.\<close>

lemma anchor_steps:
  assumes M: "wf M" "no_mounts M" "plain_root M root"
  obtains m1 a m2 t m3 v m4 vt where "mkdir_p M Physical root KDir = Ok (m1, a)"
    "mkchild m1 a ''tmp'' KDir = Ok (m2, t)" "mkchild m2 a ''var'' KDir = Ok (m3, v)"
    "mkchild m3 v ''tmp'' KDir = Ok (m4, vt)" "larger M m4"
    "t < size_of m4" "vt < size_of m4" "size_of M \<le> t" "size_of M \<le> vt"
proof -
  obtain m1 a where a: "mkdir_p M Physical root KDir = Ok (m1, a)" "larger M m1"
    "a < size_of m1" "size_of M \<le> a"
    by (rule mkdir_p_fresh [OF M, of KDir]) (auto simp: built_def fresh_def)
  obtain m2 t where t: "mkchild m1 a ''tmp'' KDir = Ok (m2, t)" "larger M m2"
    "t < size_of m2" "size_of M \<le> t"
    by (rule mkchild_new [OF M(1) a(2-4)])
  have a2: "a < size_of m2"
    using t(1) mkchild_built [OF larger_wf [OF a(2)] larger_no_mounts [OF a(2)] a(3), of "''tmp''" KDir] a(3)
    by (auto simp: built_def dest: larger_size)
  obtain m3 v where v: "mkchild m2 a ''var'' KDir = Ok (m3, v)" "larger M m3"
    "v < size_of m3" "size_of M \<le> v"
    by (rule mkchild_new [OF M(1) t(2) a2 a(4)])
  have t3: "t < size_of m3"
    using v(1) mkchild_built [OF larger_wf [OF t(2)] larger_no_mounts [OF t(2)] a2, of "''var''" KDir] t(3)
    by (auto simp: built_def dest: larger_size)
  obtain m4 vt where vt: "mkchild m3 v ''tmp'' KDir = Ok (m4, vt)" "larger M m4"
    "vt < size_of m4" "size_of M \<le> vt"
    by (rule mkchild_new [OF M(1) v(2-4)])
  have "t < size_of m4"
    using vt(1) mkchild_built [OF larger_wf [OF v(2)] larger_no_mounts [OF v(2)] v(3), of "''tmp''" KDir] t3
    by (auto simp: built_def dest: larger_size)
  with a t v vt show ?thesis by (intro that)
qed

lemma mount_anchor:
  assumes M: "wf M" "no_mounts M" "plain_root M root" "m_fds M = []" "m_cwd M = m_root_node M"
    and old: "set [mp1, mp2, vp1, vp2] \<subseteq> {..<size_of M}"
    and mp: "mp1 \<noteq> m_root_node M" "mp2 \<noteq> m_root_node M" "mp1 \<noteq> mp2"
  shows "\<exists>m. bind_res (mkdir_p M Physical root KDir) (\<lambda>(m, anchor).
     bind_res (mkchild m anchor ''tmp'' KDir) (\<lambda>(m, root_tmp).
     bind_res (mkchild m anchor ''var'' KDir) (\<lambda>(m, root_var).
     bind_res (mkchild m root_var ''tmp'' KDir) (\<lambda>(m, root_var_tmp).
     bind_res (set_mount m mp1 root_tmp vp1) (\<lambda>m.
       set_mount m mp2 root_var_tmp vp2))))) = Ok m \<and> fresh_ok m"
proof -
  obtain m1 a m2 t m3 v m4 vt where st: "mkdir_p M Physical root KDir = Ok (m1, a)"
    "mkchild m1 a ''tmp'' KDir = Ok (m2, t)" "mkchild m2 a ''var'' KDir = Ok (m3, v)"
    "mkchild m3 v ''tmp'' KDir = Ok (m4, vt)" and L: "larger M m4"
    and r: "t < size_of m4" "vt < size_of m4" "size_of M \<le> t" "size_of M \<le> vt"
    by (rule anchor_steps [OF M(1-3)])
  have g: "good M m4" "no_mounts m4" and p: "m_fds m4 = []" "m_cwd m4 = m_root_node M"
    using L M(4,5) by (simp_all add: larger_def)
  have root: "m_root_node m4 = m_root_node M" using g(1) by (simp add: good_def kept_def evolves_def)
  have path: "\<exists>ys. up_path (par m4) i ys \<and> set ys \<subseteq> {..<size_of M}" if i: "i < size_of M" for i
  proof -
    obtain ys where y: "up_path (par M) i ys" using chain_exists [OF M(1) i] by blast
    note ys = chain_range [OF M(1) i y]
    then have "up_path (par m4) i ys"
      using g(1) by (intro up_path_cong [OF y]) (auto simp: good_def still_def)
    with ys show ?thesis by blast
  qed
  obtain ys1 ys2 where ys: "up_path (par m4) vp1 ys1" "up_path (par m4) vp2 ys2"
    "set ys1 \<subseteq> {..<size_of M}" "set ys2 \<subseteq> {..<size_of M}"
    using path [of vp1] path [of vp2] old by auto
  from two_mounts [OF larger_wf [OF L] g(2) p(1) _ old larger_size [OF L] r(3,4,1,2) _ _ mp(3) ys]
  show ?thesis using st p root mp by simp
qed

definition linux_base :: "profile \<Rightarrow> model" where
  "linux_base pr =
     (bare_model pr)\<lparr>m_nodes :=
       [(fresh_node KDir None)\<lparr>n_children := [(''tmp'', 1), (''var'', 2)]\<rparr>,
        fresh_node KDir (Some 0),
        (fresh_node KDir (Some 0))\<lparr>n_children := [(''tmp'', 3)]\<rparr>,
        fresh_node KDir (Some 2)]\<rparr>"

lemma linux_base_eq:
  "mk_all [(0, ''tmp'', KDir), (0, ''var'', KDir), (2, ''tmp'', KDir)] (bare_model pr) =
     Ok (linux_base pr)"
  by (simp add: linux_base_def bare_model_def mkchild_def find_child_def nd_def key_def create_child_def
      push_node_def insert_child_def upd_node_def fresh_node_def bt_get_def)

definition mac_base :: "profile \<Rightarrow> model" where
  "mac_base pr =
     (bare_model pr)\<lparr>m_nodes :=
       [(fresh_node KDir None)\<lparr>n_children := [(''private'', 1), (''tmp'', 5), (''var'', 6)]\<rparr>,
        (fresh_node KDir (Some 0))\<lparr>n_children := [(''tmp'', 3), (''var'', 2)]\<rparr>,
        (fresh_node KDir (Some 1))\<lparr>n_children := [(''tmp'', 4)]\<rparr>,
        fresh_node KOpaque (Some 1), fresh_node KOpaque (Some 2),
        fresh_node (KSymlink ''private/tmp'') (Some 0),
        fresh_node (KSymlink ''private/var'') (Some 0)]\<rparr>"

lemmas build_simps = bare_model_def mkchild_def find_child_def nd_def key_def create_child_def
  push_node_def insert_child_def upd_node_def fresh_node_def bt_get_def

lemma mac_base_eq:
  "mk_all [(0, ''private'', KDir), (1, ''var'', KDir), (1, ''tmp'', KOpaque), (2, ''tmp'', KOpaque),
     (0, ''tmp'', KSymlink ''private/tmp''), (0, ''var'', KSymlink ''private/var'')] (bare_model pr) =
     Ok (mac_base pr)"
  by (simp add: mac_base_def build_simps)

lemma base_facts:
  "wf (linux_base pr)" "no_mounts (linux_base pr)" "wf (mac_base pr)" "no_mounts (mac_base pr)"
  using mk_all_built [OF bare_model_wf linux_base_eq] mk_all_built [OF bare_model_wf mac_base_eq]
  by auto

lemma bare_root: "m_root_node (bare_model pr) = 0"
  by (simp add: bare_model_def)

lemma linux_prefix:
  "bind_res (mkchild (bare_model pr) 0 ''tmp'' KDir) (\<lambda>(m, tmp).
     bind_res (mkchild m 0 ''var'' KDir) (\<lambda>(m, var).
     bind_res (mkchild m var ''tmp'' KDir) (\<lambda>(m, var_tmp). f m tmp var var_tmp))) =
   f (linux_base pr) 1 2 3"
  by (simp add: linux_base_def build_simps numeral_eq_Suc)

lemma mac_prefix:
  "bind_res (mkchild (bare_model pr) 0 ''private'' KDir) (\<lambda>(m, private).
     bind_res (mkchild m private ''var'' KDir) (\<lambda>(m, var).
     bind_res (mkchild m private ''tmp'' KOpaque) (\<lambda>(m, priv_tmp).
     bind_res (mkchild m var ''tmp'' KOpaque) (\<lambda>(m, priv_var_tmp).
     bind_res (mkchild m 0 ''tmp'' (KSymlink ''private/tmp'')) (\<lambda>(m, _).
     bind_res (mkchild m 0 ''var'' (KSymlink ''private/var'')) (\<lambda>(m, _).
       f m private var priv_tmp priv_var_tmp)))))) =
   f (mac_base pr) 1 2 3 4"
  by (simp add: mac_base_def build_simps numeral_eq_Suc)

lemma new_linux_steps:
  "new_linux root =
     bind_res (mkdir_p (linux_base (LinuxMount root)) Physical root KDir) (\<lambda>(m, anchor).
     bind_res (mkchild m anchor ''tmp'' KDir) (\<lambda>(m, root_tmp).
     bind_res (mkchild m anchor ''var'' KDir) (\<lambda>(m, root_var).
     bind_res (mkchild m root_var ''tmp'' KDir) (\<lambda>(m, root_var_tmp).
     bind_res (set_mount m 1 root_tmp 0) (\<lambda>m.
       set_mount m 3 root_var_tmp 2)))))"
  unfolding new_linux_def Let_def bare_root linux_prefix ..

lemma new_mac_steps:
  "new_mac root =
     bind_res (mkdir_p (mac_base (MacShim root)) Physical root KDir) (\<lambda>(m, anchor).
     bind_res (mkchild m anchor ''tmp'' KDir) (\<lambda>(m, root_tmp).
     bind_res (mkchild m anchor ''var'' KDir) (\<lambda>(m, root_var).
     bind_res (mkchild m root_var ''tmp'' KDir) (\<lambda>(m, root_var_tmp).
     bind_res (set_mount m 3 root_tmp 1) (\<lambda>m.
       set_mount m 4 root_var_tmp 2)))))"
  unfolding new_mac_def Let_def bare_root mac_prefix ..

text \<open>
  A temporary root outside the directories of the scaffolding: its first component is none of
  theirs, and it does not climb.
\<close>

definition outside_root :: "bytes \<Rightarrow> bool" where
  "outside_root root =
     (case real_components root of
        [] \<Rightarrow> False
      | c # cs \<Rightarrow> c \<notin> {''private'', ''tmp'', ''var''} \<and> ''..'' \<notin> set (c # cs))"

lemma outside_plain:
  assumes "outside_root root"
  shows "plain_root (linux_base pr) root" "plain_root (mac_base pr) root"
  using assms
  by (auto simp: outside_root_def plain_root_def linux_base_def mac_base_def bare_model_def
      fresh_node_def child_def key_def bt_get_def split: list.splits)

lemma new_linux_ok:
  assumes "outside_root root"
  shows "\<exists>m. new_linux root = Ok m \<and> fresh_ok m"
  unfolding new_linux_steps
  by (rule mount_anchor [OF base_facts(1,2) outside_plain(1) [OF assms]])
     (auto simp: linux_base_def bare_model_def)

lemma new_mac_ok:
  assumes "outside_root root"
  shows "\<exists>m. new_mac root = Ok m \<and> fresh_ok m"
  unfolding new_mac_steps
  by (rule mount_anchor [OF base_facts(3,4) outside_plain(2) [OF assms]])
     (auto simp: mac_base_def bare_model_def)

lemma chdir_root_ok: "fresh_ok m \<Longrightarrow> fresh_ok (m\<lparr>m_cwd := m_root_node m\<rparr>)"
  using good_cwd [of m "m_root_node m"] names_ok_good [of m] wf_root [of m Virtual]
  by (auto simp: fresh_ok_def dest: good_wf)

lemma new_model_ok:
  assumes "outside_root (case pr of MacShim r \<Rightarrow> r | LinuxMount r \<Rightarrow> r)"
  shows "\<exists>m. new_model pr = Ok m \<and> wf m \<and> names_ok m \<and> m_fds m = []"
proof (cases pr)
  case (MacShim r)
  then show ?thesis
    using new_mac_ok [of r] chdir_root_ok assms by (force simp: new_model_def fresh_ok_def)
next
  case (LinuxMount r)
  then show ?thesis
    using new_linux_ok [of r] chdir_root_ok assms by (force simp: new_model_def fresh_ok_def)
qed

lemma new_plain_wf_ex: "\<exists>m. new_plain anchor = Ok m \<and> wf m \<and> unmounted m"
proof -
  from mkdir_p_built [OF bare_model_wf, of "LinuxMount anchor" anchor KDir] obtain m i where
    m: "mkdir_p (bare_model (LinuxMount anchor)) Physical anchor KDir = Ok (m, i)"
      "built (bare_model (LinuxMount anchor)) (m, i)" by auto
  then have "wf m" "no_mounts m" "i < size_of m"
    by (auto simp: built_def dest: larger_wf larger_no_mounts)
  with good_cwd [of m i] no_mounts_ok_id [of m i Virtual] have "wf (m\<lparr>m_cwd := i\<rparr>)"
    by (auto dest: good_wf)
  with m(1) no_mounts_unmounted [OF \<open>no_mounts m\<close>] show ?thesis
    by (simp add: new_plain_def unmounted_def)
qed

text \<open>
  C1 (type). For every profile whose temporary root lies outside the directories it shadows,
  \<^verbatim>\<open>Model::new\<close> returns (no panic), and the model it returns is well-formed, with no
  open descriptor and with virtual parent chains that end.
\<close>

theorem new_model_wf:
  assumes "outside_root (case pr of MacShim r \<Rightarrow> r | LinuxMount r \<Rightarrow> r)"
  shows "\<exists>m. new_model pr = Ok m \<and> wf m \<and> names_ok m \<and> m_fds m = []"
  by (rule new_model_ok [OF assms])

theorem new_model_wf_witness:
  "\<exists>m. new_model (MacShim ''/Users/ws'') = Ok m \<and> wf m \<and> names_ok m \<and> m_fds m = []"
proof -
  have "outside_root ''/Users/ws''" by code_simp
  then show ?thesis using new_model_wf [of "MacShim ''/Users/ws''"] by simp
qed

text \<open>
  \<^verbatim>\<open>Model::new_plain\<close> returns for every anchor, whatever it contains, and the model
  is well-formed and has no mounts.
\<close>

theorem new_plain_wf: "\<exists>m. new_plain anchor = Ok m \<and> wf m \<and> unmounted m"
  by (rule new_plain_wf_ex)

end
