(* ===== verification/Fs_Props.thy ===== *)
theory Fs_Props
  imports Fs_New
begin

text \<open>
  What the filesystem model promises of whole operations and of whole runs: they return, they
  keep the invariant, a failing call changes nothing, and what a mount covers stays as it is.
\<close>

section \<open>Operations and runs return\<close>



text \<open>
  Any sequence of operations that does not print paths runs to its end on a
  well-formed model, renames included: one reply per operation, the final model is well-formed
  and an evolution of the first.
\<close>

theorem apply_all_total:
  assumes "wf m" and "list_all (\<lambda>x. \<not> prints_path x) xs"
  shows "\<exists>m' outs. apply_all m xs = Ok (m', outs) \<and> length outs = length xs \<and> wf m' \<and> evolves m m'"
  unfolding apply_all_run by (rule fs.run_ok [OF assms])

theorem apply_all_total_witness:
  "\<exists>m m' outs. new_plain ''/w'' = Ok m \<and>
     apply_all m [Mkdir ''a'' 0, Rename ''a'' ''b''] = Ok (m', outs) \<and> length outs = 2 \<and> wf m'"
proof -
  obtain m where m: "new_plain ''/w'' = Ok m" "wf m" using new_plain_wf_ex by blast
  then show ?thesis using apply_all_total [of m "[Mkdir ''a'' 0, Rename ''a'' ''b'']"] by auto
qed

text \<open>
  C3 (safety). On a fresh model with mounts, every sequence of operations without a rename runs
  to its end, \<^verbatim>\<open>getcwd\<close> and \<^verbatim>\<open>realpath\<close> included.
\<close>

theorem fresh_runs:
  assumes "outside_root (case pr of MacShim r \<Rightarrow> r | LinuxMount r \<Rightarrow> r)"
    and "list_all (\<lambda>x. \<not> is_rename x) xs"
  shows "\<exists>m m' outs. new_model pr = Ok m \<and> apply_all m xs = Ok (m', outs) \<and>
    length outs = length xs \<and> wf m' \<and> names_ok m'"
proof -
  obtain m where m: "new_model pr = Ok m" "wf m \<and> names_ok m"
    using new_model_ok [OF assms(1)] by blast
  from fs_names.run_ok [OF m(2) assms(2)] m(1) show ?thesis by (auto simp: apply_all_run)
qed

theorem fresh_runs_witness:
  "\<exists>m m' outs. new_model (LinuxMount ''/w'') = Ok m \<and>
     apply_all m [Chdir ''/tmp'', Getcwd] = Ok (m', outs) \<and> length outs = 2 \<and> wf m'"
proof -
  have "outside_root ''/w''" by code_simp
  then show ?thesis
    using fresh_runs [of "LinuxMount ''/w''" "[Chdir ''/tmp'', Getcwd]"] by fastforce
qed

text \<open>
  On a model without mounts (\<^verbatim>\<open>new_plain\<close>, whatever the anchor) every sequence of
  operations at all runs to its end.
\<close>

theorem plain_runs:
  "\<exists>m m' outs. new_plain anchor = Ok m \<and> apply_all m xs = Ok (m', outs) \<and>
    length outs = length xs \<and> wf m' \<and> unmounted m'"
proof -
  obtain m where m: "new_plain anchor = Ok m" "wf m \<and> unmounted m"
    using new_plain_wf_ex by blast
  from fs_plain.run_ok [OF m(2), of xs] m(1) show ?thesis by (auto simp: apply_all_run list_all_iff)
qed

section \<open>Mounts\<close>



end
