(* ===== verification/Fs_Frame.thy ===== *)
theory Fs_Frame
  imports Fs_Props
begin

text \<open>
  Lookups in a model that has changed: a lookup that succeeds keeps its answer when a name is
  added to the tree, and keeps it or reports \<^verbatim>\<open>ENOENT\<close> when one is removed; the lookup of a path
  goes on where the lookup of its directory ends. From these, the path of a creation leads to the
  node that was made, and the path of a removal to none.
\<close>

section \<open>Walks in a changed model\<close>

text \<open>
  Every answer of the first walk is an answer of the second, unless that one ends with an error
  of \<open>E\<close>.
\<close>

definition sim :: "errno set \<Rightarrow> 'a walk \<Rightarrow> 'a walk \<Rightarrow> bool" where
  "sim E w w' \<longleftrightarrow>
     (\<forall>s a s'. w s = (Ok a, s') \<longrightarrow> w' s = (Ok a, s') \<or> (\<exists>e \<in> E. \<exists>s1. w' s = (Err e, s1)))"

lemma simD:
  "sim E w w' \<Longrightarrow> w s = (Ok a, s') \<Longrightarrow> w' s = (Ok a, s') \<or> (\<exists>e \<in> E. \<exists>s1. w' s = (Err e, s1))"
  unfolding sim_def by blast

lemma sim_refl [simp]: "sim E w w"
  by (simp add: sim_def)

lemma bind_walk_Ok:
  "bind_walk w f s = (Ok b, s') \<longleftrightarrow> (\<exists>a s1. w s = (Ok a, s1) \<and> f a s1 = (Ok b, s'))"
  by (auto simp: bind_walk_def split: prod.splits res.splits)

lemma bind_walk_Err: "w s = (Err e, s1) \<Longrightarrow> bind_walk w f s = (Err e, s1)"
  by (simp add: bind_walk_def)

lemma lift_bind [simp]:
  "bind_walk (lift_walk (Ok a)) f s = f a s"
  "bind_walk (lift_walk (Err e)) f s = (Err e, s)"
  "bind_walk (lift_walk (Abort x)) f s = (Abort x, s)"
  by (simp_all add: bind_walk_def lift_walk_def)

lemma sim_bind:
  assumes "sim E w w'" and "\<And>a. sim E (f a) (f' a)"
  shows "sim E (bind_walk w f) (bind_walk w' f')"
  unfolding sim_def
proof (intro allI impI)
  fix s b s' assume "bind_walk w f s = (Ok b, s')"
  then obtain a s1 where a: "w s = (Ok a, s1)" "f a s1 = (Ok b, s')" unfolding bind_walk_Ok by blast
  from assms(1) a(1) consider "w' s = (Ok a, s1)" | e s2 where "e \<in> E" "w' s = (Err e, s2)"
    unfolding sim_def by blast
  then show "bind_walk w' f' s = (Ok b, s') \<or> (\<exists>e \<in> E. \<exists>s1. bind_walk w' f' s = (Err e, s1))"
  proof cases
    case 1
    then show ?thesis using simD [OF assms(2) a(2)] by (simp add: bind_walk_def)
  next
    case 2
    then show ?thesis using bind_walk_Err by metis
  qed
qed

lemma sim_lift: "(\<And>a. r = Ok a \<Longrightarrow> r' = Ok a) \<Longrightarrow> sim E (lift_walk r) (lift_walk r')"
  by (simp add: sim_def lift_walk_def)

lemma sim_if:
  "(b \<Longrightarrow> sim E x x') \<Longrightarrow> (\<not> b \<Longrightarrow> sim E y y') \<Longrightarrow>
     sim E (if b then x else y) (if b then x' else y')"
  by simp

text \<open>
  \<open>m'\<close> has every node of \<open>m\<close>, with the same kind, parent and mounts. With \<open>E = {}\<close> it has every
  entry of \<open>m\<close>; with \<open>E = {ENOENT}\<close> some may be gone.
\<close>

definition wider :: "errno set \<Rightarrow> model \<Rightarrow> model \<Rightarrow> bool" where
  "wider E m m' \<longleftrightarrow>
     m_profile m' = m_profile m \<and> m_root_node m' = m_root_node m \<and>
     m_case_insensitive m' = m_case_insensitive m \<and> size_of m \<le> size_of m' \<and>
     (\<forall>j < size_of m.
        n_kind (node_at m' j) = n_kind (node_at m j) \<and> par m' j = par m j \<and>
        n_mounted_by (node_at m' j) = n_mounted_by (node_at m j) \<and>
        n_virtual_parent (node_at m' j) = n_virtual_parent (node_at m j) \<and>
        (\<forall>k c. child m j k = Some c \<longrightarrow>
           child m' j k = Some c \<or> ENOENT \<in> E \<and> child m' j k = None))"

lemma wider_consts:
  assumes "wider E m m'"
  shows "max_symlinks m' = max_symlinks m" "path_max m' = path_max m" "key m' = key m"
    "link_fuel m' = link_fuel m" "m_root_node m' = m_root_node m"
  using assms
  by (auto simp: wider_def max_symlinks_def path_max_def key_def link_fuel_def fun_eq_iff)

lemma nd_Ok: "nd m i = Ok n \<longleftrightarrow> i < size_of m \<and> n = node_at m i"
  by (auto simp: nd_def)

lemma wider_lookup:
  assumes "wider E m m'"
  shows "check_dir m i = Ok u \<Longrightarrow> check_dir m' i = Ok u"
    and "enter m v i = Ok j \<Longrightarrow> enter m' v i = Ok j"
    and "node_parent m v i = Ok j \<Longrightarrow> node_parent m' v i = Ok j"
  using assms
  by (auto simp: wider_def check_dir_def enter_def node_parent_def par_def
      bind_res_Ok_iff nd_def split: if_splits option.splits)

lemma wider_child:
  assumes "wider E m m'" and "find_child m i k = Ok (Some c)"
  shows "find_child m' i k = Ok (Some c) \<or> ENOENT \<in> E \<and> find_child m' i k = Ok None"
proof -
  have i: "i < size_of m" "child m i k = Some c"
    using assms(2) by (auto simp: find_child_def child_def bind_res_Ok_iff nd_def split: if_splits)
  moreover from this have "i < size_of m'" using assms(1) by (simp add: wider_def)
  ultimately show ?thesis using assms(1) by (auto simp: wider_def)
qed

lemma sim_nd:
  assumes "wider E m m'" and "\<And>n n'. n_kind n' = n_kind n \<Longrightarrow> sim E (f n) (f' n')"
  shows "sim E (bind_walk (lift_walk (nd m i)) f) (bind_walk (lift_walk (nd m' i)) f')"
proof (cases "i < size_of m")
  case True
  with assms(1) have "nd m i = Ok (node_at m i)" "nd m' i = Ok (node_at m' i)"
    "n_kind (node_at m' i) = n_kind (node_at m i)" by (simp_all add: wider_def)
  with assms(2) show ?thesis by (simp add: bind_walk_def lift_walk_def)
qed (simp add: sim_def bind_walk_Ok lift_walk_def nd_def)

lemma sim_found:
  assumes "wider E m m'" and "\<And>c. sim E (f c) (f' c)"
  shows "sim E
     (bind_walk (lift_walk (bind_res (check_dir m i) (\<lambda>_. find_child m i k)))
        (\<lambda>found. case found of None \<Rightarrow> lift_walk (Err ENOENT) | Some c \<Rightarrow> f c))
     (bind_walk (lift_walk (bind_res (check_dir m' i) (\<lambda>_. find_child m' i k)))
        (\<lambda>found. case found of None \<Rightarrow> lift_walk (Err ENOENT) | Some c \<Rightarrow> f' c))"
  (is "sim E ?w ?w'")
  unfolding sim_def
proof (intro allI impI)
  fix s a s' assume "?w s = (Ok a, s')"
  then obtain c where c: "check_dir m i = Ok ()" "find_child m i k = Ok (Some c)" "f c s = (Ok a, s')"
    by (auto simp: bind_walk_Ok lift_walk_def bind_res_Ok_iff split: option.splits)
  have d: "check_dir m' i = Ok ()" using wider_lookup(1) [OF assms(1)] c(1) by blast
  from wider_child [OF assms(1) c(2)]
  show "?w' s = (Ok a, s') \<or> (\<exists>e \<in> E. \<exists>s1. ?w' s = (Err e, s1))"
  proof
    assume "find_child m' i k = Ok (Some c)"
    with d simD [OF assms(2) c(3)] show ?thesis by (simp add: bind_walk_def lift_walk_def)
  next
    assume "ENOENT \<in> E \<and> find_child m' i k = Ok None"
    with d show ?thesis by (simp add: bind_walk_def lift_walk_def)
  qed
qed

lemma resolve_loop_sim:
  assumes big: "wider E m m'" and fol: "\<And>c i. sim E (fol c i) (fol' c i)"
  shows "sim E (resolve_loop fol m v fl ts cs cur) (resolve_loop fol' m' v fl ts cs cur)"
proof (induction cs arbitrary: cur)
  case (Cons c cs)
  show ?case
    unfolding resolve_loop.simps Let_def wider_consts(3) [OF big]
  proof (intro sim_if)
    show "sim E (bind_walk (lift_walk (bind_res (node_parent m v cur) (enter m v)))
        (resolve_loop fol m v fl ts cs)) (bind_walk (lift_walk (bind_res (node_parent m' v cur)
        (enter m' v))) (resolve_loop fol' m' v fl ts cs))"
      using wider_lookup [OF big] by (intro sim_bind sim_lift Cons) (auto simp: bind_res_Ok_iff)
    let ?rest = "\<lambda>m fol ch cn. bind_walk
      (if (cs \<noteq> [] \<or> fl \<or> ts) \<and> is_symlink_kind (n_kind cn) then fol cur ch
       else lift_walk (Ok ch)) (\<lambda>target.
      bind_walk (lift_walk (if cs \<noteq> [] \<or> ts then check_dir m target else Ok ())) (\<lambda>_.
      bind_walk (lift_walk (enter m v target)) (resolve_loop fol m v fl ts cs)))"
    have "sim E (?rest m fol ch n) (?rest m' fol' ch n')" if "n_kind n' = n_kind n" for ch n n'
      unfolding that using wider_lookup [OF big]
      by (intro sim_bind sim_if sim_lift fol Cons) (auto split: if_splits)
    then show "sim E
      (bind_walk (lift_walk (bind_res (check_dir m cur) (\<lambda>_. find_child m cur (key m c))))
        (\<lambda>found. case found of None \<Rightarrow> lift_walk (Err ENOENT)
           | Some ch \<Rightarrow> bind_walk (lift_walk (nd m ch)) (?rest m fol ch)))
      (bind_walk (lift_walk (bind_res (check_dir m' cur) (\<lambda>_. find_child m' cur (key m c))))
        (\<lambda>found. case found of None \<Rightarrow> lift_walk (Err ENOENT)
           | Some ch \<Rightarrow> bind_walk (lift_walk (nd m' ch)) (?rest m' fol' ch)))"
      by (intro sim_found [OF big] sim_nd [OF big])
  qed simp_all
qed simp

lemma resolve_with_sim:
  assumes big: "wider E m m'" and fol: "\<And>c i. sim E (fol c i) (fol' c i)"
  shows "sim E (resolve_with fol m v cur path fl) (resolve_with fol' m' v cur path fl)"
  unfolding resolve_with_def wider_consts [OF big]
  using wider_lookup(2) [OF big]
  by (intro sim_if sim_bind sim_lift resolve_loop_sim [OF big fol]) auto

lemma follow_symlink_sim:
  assumes big: "wider E m m'"
  shows "sim E (follow_symlink f m v dir link) (follow_symlink f m' v dir link)"
proof (induction f arbitrary: dir link)
  case (Suc f)
  show ?case
    unfolding follow_symlink.simps
  proof (rule sim_nd [OF big])
    fix n n' :: node
    assume "n_kind n' = n_kind n"
    then show "sim E
      (case n_kind n of
         KSymlink target \<Rightarrow>
           (\<lambda>(link_count, crossed).
              let s = (link_count + 1, crossed @ [link])
              in if max_symlinks m < link_count + 1 then (Err ELOOP, s)
                 else if target = [] then (Err ENOENT, s)
                 else resolve_with (follow_symlink f m v) m v
                        (if hd target = slash then m_root_node m else dir) target True s)
       | _ \<Rightarrow> lift_walk (Ok link))
      (case n_kind n' of
         KSymlink target \<Rightarrow>
           (\<lambda>(link_count, crossed).
              let s = (link_count + 1, crossed @ [link])
              in if max_symlinks m' < link_count + 1 then (Err ELOOP, s)
                 else if target = [] then (Err ENOENT, s)
                 else resolve_with (follow_symlink f m' v) m' v
                        (if hd target = slash then m_root_node m' else dir) target True s)
       | _ \<Rightarrow> lift_walk (Ok link))"
      using resolve_with_sim [OF big Suc] wider_consts [OF big]
      by (cases "n_kind n") (auto simp: sim_def Let_def split: if_splits)
  qed
qed simp

lemma resolve_unfold:
  assumes "start_node m s = Ok i"
  shows "resolve m v s path fl = fst (resolve_inner m v i path fl (0, []))"
  using assms by (simp add: resolve_def resolve_impl_def split: prod.splits)

lemma resolve_started: "resolve m v s path fl = Ok i \<Longrightarrow> \<exists>j. start_node m s = Ok j"
  by (auto simp: resolve_def resolve_impl_def split: res.splits)

lemma resolve_wider:
  assumes big: "wider E m m'" and start: "start_node m' s = start_node m s"
    and ok: "resolve m v s path fl = Ok i"
  shows "resolve m' v s path fl = Ok i \<or> (\<exists>e \<in> E. resolve m' v s path fl = Err e)"
proof -
  from resolve_started [OF ok] obtain j where j: "start_node m s = Ok j" "start_node m' s = Ok j"
    using start by auto
  have "sim E (resolve_inner m v j path fl) (resolve_inner m' v j path fl)"
    unfolding resolve_inner_def wider_consts(4) [OF big]
    by (rule resolve_with_sim [OF big follow_symlink_sim [OF big]])
  moreover obtain st where "resolve_inner m v j path fl (0, []) = (Ok i, st)"
    using ok resolve_unfold [OF j(1)] by (metis prod.collapse)
  ultimately show ?thesis
    unfolding resolve_unfold [OF j(2)] sim_def by (metis fst_conv)
qed

section \<open>The last component\<close>

definition mountpoints_dirs :: "model \<Rightarrow> bool" where
  "mountpoints_dirs m \<longleftrightarrow>
     (\<forall>i < size_of m. n_mounted_by (node_at m i) \<noteq> None \<longrightarrow> is_dir_kind (n_kind (node_at m i)))"

text \<open>Entering a non-directory stays there, so a directory was entered from a directory.\<close>

lemma enter_dir:
  assumes "mountpoints_dirs m" and "enter m Virtual t = Ok p" and "is_dir_kind (n_kind (node_at m p))"
  shows "check_dir m t = Ok ()"
  using assms
  by (auto simp: enter_def mountpoints_dirs_def bind_res_Ok_iff nd_Ok check_dir_def split: option.splits)

text \<open>
  A lookup of a directory, and the same lookup with one component behind: the second goes on
  where the first one ends.
\<close>

lemma resolve_loop_snoc:
  assumes md: "mountpoints_dirs m"
  shows "resolve_loop fol m Virtual True ts cs cur s = (Ok p, s') \<Longrightarrow> is_dir_kind (n_kind (node_at m p)) \<Longrightarrow>
     resolve_loop fol m Virtual fl False (cs @ [c]) cur s = resolve_loop fol m Virtual fl False [c] p s'"
proof (induction cs arbitrary: cur s)
  case Nil
  then show ?case by (simp add: lift_walk_def)
next
  case (Cons d cs)
  have more: "bind_walk w (resolve_loop fol m Virtual fl False (cs @ [c])) s = resolve_loop fol m Virtual fl False [c] p s'"
    if "bind_walk w (resolve_loop fol m Virtual True ts cs) s = (Ok p, s')" for w s
  proof -
    from that obtain a s1 where "w s = (Ok a, s1)" "resolve_loop fol m Virtual True ts cs a s1 = (Ok p, s')"
      unfolding bind_walk_Ok by blast
    with Cons.IH [OF _ Cons.prems(2)] show ?thesis by (simp add: bind_walk_def)
  qed
  show ?case
  proof (cases "d = ''..''")
    case True
    with Cons.prems more show ?thesis by (simp add: Let_def)
  next
    case False
    with Cons.prems have len: "\<not> NAME_MAX < length d"
      by (auto simp: Let_def lift_walk_def split: if_splits)
    let ?found = "lift_walk (bind_res (check_dir m cur) (\<lambda>_. find_child m cur (key m d)))"
    from Cons.prems False len obtain ch where
      f: "bind_res (check_dir m cur) (\<lambda>_. find_child m cur (key m d)) = Ok (Some ch)"
      by (auto simp: Let_def bind_walk_Ok lift_walk_def split: option.splits)
    with Cons.prems False len obtain t s1 where
      n: "ch < size_of m" and
      t: "(if is_symlink_kind (n_kind (node_at m ch)) then fol cur ch else lift_walk (Ok ch)) s = (Ok t, s1)" and
      e: "bind_walk (lift_walk (enter m Virtual t)) (resolve_loop fol m Virtual True ts cs) s1 = (Ok p, s')" and
      dir: "cs \<noteq> [] \<or> ts \<Longrightarrow> check_dir m t = Ok ()"
      by (auto simp: Let_def bind_walk_Ok lift_walk_def nd_Ok split: if_splits)
    have "check_dir m t = Ok ()"
    proof (cases "cs = []")
      case True
      with e have "enter m Virtual t = Ok p" by (auto simp: bind_walk_Ok lift_walk_def)
      from enter_dir [OF md this Cons.prems(2)] show ?thesis .
    qed (use dir in simp)
    with f n t more [OF e] False len show ?thesis
      by (simp add: Let_def bind_walk_def lift_walk_def)
  qed
qed

text \<open>A lookup that does not find a directory on its way does not find anything below it.\<close>

lemma resolve_loop_snoc_missing:
  "resolve_loop fol m Virtual True ts cs cur s = (Err ENOENT, s') \<Longrightarrow>
     resolve_loop fol m Virtual fl False (cs @ [c]) cur s = (Err ENOENT, s')"
proof (induction cs arbitrary: cur s)
  case Nil
  then show ?case by (simp add: lift_walk_def)
next
  case (Cons d cs)
  have more: "bind_walk w (resolve_loop fol m Virtual fl False (cs @ [c])) s = (Err ENOENT, s')"
    if "bind_walk w (resolve_loop fol m Virtual True ts cs) s = (Err ENOENT, s')" for w s
    using that Cons.IH by (auto simp: bind_walk_def split: prod.splits res.splits)
  have dir: "check_dir m i \<noteq> Err ENOENT" for i
    by (auto simp: check_dir_def nd_def split: if_splits)
  show ?case
  proof (cases "d = ''..'' \<or> NAME_MAX < length d")
    case True
    with Cons.prems more show ?thesis by (auto simp: Let_def lift_walk_def split: if_splits)
  next
    case False
    let ?f = "bind_res (check_dir m cur) (\<lambda>_. find_child m cur (key m d))"
    let ?rest = "\<lambda>fl ts cs ch. bind_walk (lift_walk (nd m ch)) (\<lambda>cn.
      bind_walk (if (cs \<noteq> [] \<or> fl \<or> ts) \<and> is_symlink_kind (n_kind cn) then fol cur ch
        else lift_walk (Ok ch)) (\<lambda>target.
      bind_walk (lift_walk (if cs \<noteq> [] \<or> ts then check_dir m target else Ok ())) (\<lambda>_.
      bind_walk (lift_walk (enter m Virtual target)) (resolve_loop fol m Virtual fl ts cs))))"
    have step: "resolve_loop fol m Virtual fl ts (d # cs) cur s =
        bind_walk (lift_walk ?f) (\<lambda>found. case found of
          None \<Rightarrow> lift_walk (Err ENOENT) | Some ch \<Rightarrow> ?rest fl ts cs ch) s" for fl ts cs s
      using False by (simp only: resolve_loop.simps Let_def de_Morgan_disj if_False simp_thms)
    have "?rest fl False (cs @ [c]) ch s = (Err ENOENT, s')"
      if "?rest True ts cs ch s = (Err ENOENT, s')" for ch
    proof -
      from that obtain cn where cn: "nd m ch = Ok cn"
        by (cases "nd m ch") (auto simp: nd_def bind_walk_def lift_walk_def split: if_splits)
      let ?w = "if is_symlink_kind (n_kind cn) then fol cur ch else lift_walk (Ok ch)"
      obtain a s1 where w: "?w s = (a, s1)" by (rule prod.exhaust)
      have "(\<exists>t. a = Ok t) \<or> a = Err ENOENT \<and> s1 = s'"
        using that cn w by (cases a) (auto simp: bind_walk_def lift_walk_def)
      then show ?thesis
      proof (elim disjE exE conjE)
        fix t assume "a = Ok t"
        with w have t: "?w s = (Ok t, s1)" by simp
        have "cs \<noteq> [] \<or> ts" "check_dir m t = Ok ()"
          using that cn t dir [of t]
          by (auto simp: bind_walk_def lift_walk_def enter_def nd_def split: res.splits if_splits option.splits)
        moreover from this have "bind_walk (lift_walk (enter m Virtual t))
            (resolve_loop fol m Virtual True ts cs) s1 = (Err ENOENT, s')"
          using that cn t by (simp add: bind_walk_def lift_walk_def)
        note more [OF this]
        ultimately show ?thesis using cn t by (simp add: bind_walk_def lift_walk_def)
      next
        assume "a = Err ENOENT" "s1 = s'"
        with cn w show ?thesis by (simp add: bind_walk_def lift_walk_def)
      qed
    qed
    note rest = this
    show ?thesis
    proof (cases ?f)
      case (Ok x)
      show ?thesis
      proof (cases x)
        case None
        with Cons.prems show ?thesis unfolding append_Cons step Ok lift_bind by simp
      next
        case (Some ch)
        show ?thesis
          using Cons.prems rest [of ch] unfolding append_Cons step Ok lift_bind Some option.case by blast
      qed
    qed (use Cons.prems in \<open>simp_all only: append_Cons step lift_bind prod.inject res.simps simp_thms\<close>)
  qed
qed

section \<open>Created names\<close>

lemma parent_and_name_split:
  assumes "parent_and_name path = Ok (dir, name, False)"
  shows "path = name \<and> dir = ''.'' \<or> path = slash # name \<and> dir = ''/'' \<or>
    path = dir @ slash # name \<and> dir \<noteq> []"
proof -
  have ne: "path \<noteq> []" and nt: "trim_end slash path \<noteq> []"
    and len: "\<not> length (trim_end slash path) < length path"
    using assms by (auto simp: parent_and_name_def Let_def split: if_splits option.splits)
  obtain zs where zs: "path = trim_end slash path @ zs"
  proof -
    have "path = rev (dropWhile (\<lambda>x. x = slash) (rev path)) @ rev (takeWhile (\<lambda>x. x = slash) (rev path))"
      by (metis rev_append rev_rev_ident takeWhile_dropWhile_id)
    then show ?thesis using that by (simp add: trim_end_def)
  qed
  with len have t: "trim_end slash path = path"
    by (metis append_Nil2 length_append length_greater_0_conv less_add_same_cancel1)
  show ?thesis
  proof (cases "rposition slash path")
    case None
    then show ?thesis using assms ne t by (auto simp: parent_and_name_def Let_def)
  next
    case (Some i)
    from rposition_Some [OF Some] have "path = take i path @ slash # drop (Suc i) path"
      by (metis id_take_nth_drop)
    with Some assms ne t show ?thesis
      by (cases "i = 0") (auto simp: parent_and_name_def Let_def drop_Suc)
  qed
qed

lemma real_components_snoc:
  assumes "name_ok name"
  shows "real_components name = [name]" "real_components (dir @ slash # name) = real_components dir @ [name]"
  using assms
  by (auto simp: real_components_def name_ok_def split_on_append_sep split_on_no_sep)

lemma grown_same:
  assumes "grown m m' p k kd"
  shows "m_profile m' = m_profile m" "m_root_node m' = m_root_node m"
    "m_case_insensitive m' = m_case_insensitive m" "m_cwd m' = m_cwd m" "m_fds m' = m_fds m"
    "size_of m' = Suc (size_of m)"
proof -
  have same: "m\<lparr>m_nodes := m_nodes m'\<rparr> = m'" using assms by (simp add: grown_def)
  show "m_profile m' = m_profile m" "m_root_node m' = m_root_node m"
    "m_case_insensitive m' = m_case_insensitive m" "m_cwd m' = m_cwd m" "m_fds m' = m_fds m"
    by (subst same [symmetric], simp)+
  show "size_of m' = Suc (size_of m)" using assms by (simp add: grown_def)
qed

lemma grown_start: "grown m m' p k kd \<Longrightarrow> start_node m' s = start_node m s"
  using grown_same [of m m' p k kd] by (cases s) (simp_all add: start_node_def fd_dir_def)

lemma grown_wider:
  assumes g: "grown m m' p k kd" and free: "child m p k = None"
  shows "wider {} m m'"
proof -
  have "n_kind (node_at m' j) = n_kind (node_at m j)" if "j < size_of m" for j
    using g that by (simp add: grown_def)
  moreover have "child m j k' = Some c \<Longrightarrow> child m' j k' = Some c" if "j < size_of m" for j k' c
    using grown_child [OF g, of j k'] that grown_same(6) [OF g] free by auto
  ultimately show ?thesis
    using grown_par [OF g] grown_mounts [OF g] grown_same [OF g] by (simp add: wider_def)
qed

lemma grown_mountpoints:
  assumes g: "grown m m' p k kd" and md: "mountpoints_dirs m"
  shows "mountpoints_dirs m'"
  unfolding mountpoints_dirs_def
proof (intro allI impI)
  fix j assume j: "j < size_of m'" and mnt: "n_mounted_by (node_at m' j) \<noteq> None"
  then have "j < size_of m" "n_mounted_by (node_at m j) \<noteq> None"
    using grown_mounts(1) [OF g j] grown_range [OF g j] by auto
  moreover from this have "n_kind (node_at m' j) = n_kind (node_at m j)"
    using g by (simp add: grown_def)
  ultimately show "is_dir_kind (n_kind (node_at m' j))" using md by (simp add: mountpoints_dirs_def)
qed

text \<open>The last step of a lookup of a name that was just created.\<close>

lemma last_step_found:
  assumes g: "grown m m' p (key m name) kd" and p: "is_dir_kind (n_kind (node_at m p))"
    and name: "name_ok name" "length name \<le> NAME_MAX" and fl: "\<not> (is_symlink_kind kd \<and> fl)"
  shows "resolve_loop fol m' Virtual fl False [name] p st = (Ok (size_of m), st)"
proof -
  have pm: "p < size_of m" and size: "size_of m' = Suc (size_of m)"
    and new: "node_at m' (size_of m) = fresh_node kd (Some p)"
    and kind: "n_kind (node_at m' p) = n_kind (node_at m p)"
    using g by (simp_all add: grown_def)
  moreover have "child m' p (key m' name) = Some (size_of m)"
    using grown_child [OF g, of p "key m' name"] grown_same [OF g] pm by (simp add: key_def)
  moreover have "enter m' Virtual (size_of m) = Ok (size_of m)"
    using size new by (simp add: enter_def fresh_node_def)
  ultimately show ?thesis
    using p name fl
    by (auto simp: Let_def bind_walk_def lift_walk_def name_ok_def fresh_node_def)
qed

lemma ends_with_slash: "ends_with path [slash] \<longleftrightarrow> path \<noteq> [] \<and> last path = slash"
  by (cases path rule: rev_cases) (auto simp: ends_with_iff)

lemma unchecked_Ok:
  "resolve_parent_unchecked m s path = Ok (p, n, t) \<longleftrightarrow>
     length path < path_max m \<and> n \<noteq> ''.'' \<and> n \<noteq> ''..'' \<and>
     (\<exists>dir. parent_and_name path = Ok (dir, n, t) \<and>
        (if dir = ''.'' then start_node m s else resolve m Virtual s dir True) = Ok p)"
proof (cases "parent_and_name path")
  case (Ok x)
  obtain d n' t' where x: "x = (d, n', t')" by (cases x)
  let ?r = "if d = ''.'' then start_node m s else resolve m Virtual s d True"
  have "resolve_parent_unchecked m s path = Ok (p, n, t) \<longleftrightarrow>
      length path < path_max m \<and> n' \<noteq> ''.'' \<and> n' \<noteq> ''..'' \<and> ?r = Ok p \<and> n' = n \<and> t' = t"
    unfolding resolve_parent_unchecked_def Ok x bind_res.simps prod.case
    by (cases ?r) (simp_all only: bind_res.simps res.simps prod.inject not_le if_False if_True split: if_split, auto)
  then show ?thesis by (auto simp: Ok x)
qed (simp_all add: resolve_parent_unchecked_def)

lemma resolve_parent_Ok:
  "resolve_parent m s path = Ok (p, n, t) \<longleftrightarrow>
     resolve_parent_unchecked m s path = Ok (p, n, t) \<and> check_dir m p = Ok () \<and> length n \<le> NAME_MAX"
proof
  show "resolve_parent m s path = Ok (p, n, t) \<Longrightarrow>
      resolve_parent_unchecked m s path = Ok (p, n, t) \<and> check_dir m p = Ok () \<and> length n \<le> NAME_MAX"
    by (auto simp: resolve_parent_def bind_res_Ok_iff not_le split: if_splits)
qed (simp add: resolve_parent_def)

text \<open>The lookup of a path, after the lookup of its directory.\<close>

lemma lookup_last:
  assumes m: "wf m" and md: "mountpoints_dirs m" and short: "length path < path_max m"
    and pn: "parent_and_name path = Ok (dir, name, False)" and name: "name_ok name"
    and i: "start_node m s = Ok i"
  defines "loop \<equiv> resolve_loop (follow_symlink (link_fuel m) m Virtual) m Virtual"
  defines "found \<equiv> (if dir = ''.'' then start_node m s else resolve m Virtual s dir True)"
  shows "found = Ok p \<Longrightarrow> is_dir_kind (n_kind (node_at m p)) \<Longrightarrow>
      \<exists>st. resolve m Virtual s path fl = fst (loop fl False [name] p st)"
    and "found = Err ENOENT \<Longrightarrow> resolve m Virtual s path fl = Err ENOENT"
proof -
  have id: "ok_id m Virtual i" using start_node_ok [OF m, of s] i by simp
  let ?start = "\<lambda>path. enter m Virtual (if hd path = slash then m_root_node m else i)"
  have "last name \<noteq> slash" using name last_in_set [of name] by (metis name_ok_def)
  then have tail: "path \<noteq> []" "\<not> ends_with path [slash]"
    using parent_and_name_split [OF pn] name by (auto simp: ends_with_slash name_ok_def)
  have run: "resolve m Virtual s path fl = fst (bind_walk (lift_walk (?start path))
      (loop fl False (real_components path)) (0, []))"
    using short tail by (simp add: resolve_unfold [OF i] resolve_inner_def resolve_with_def loop_def)
  have here: "real_components path = [name] \<and> ?start path = Ok i" if "dir = ''.''"
    using parent_and_name_split [OF pn] that name real_components_snoc [OF name] enter_id [OF id]
    by (auto simp: real_components_def name_ok_def hd_append dest: hd_in_set)
  have below: "?start path = ?start dir \<and> real_components path = real_components dir @ [name]"
    if "dir \<noteq> ''.''"
    using parent_and_name_split [OF pn] that real_components_snoc [OF name]
      real_components_snoc(2) [OF name, of "[]"] by (auto simp: real_components_def hd_append)
  have walk: "\<exists>c st. ?start dir = Ok c \<and> loop True (1 < length dir \<and> ends_with dir ''/'')
      (real_components dir) c (0, []) = (x, st)"
    if "resolve m Virtual s dir True = x" "x = Ok p \<or> x = Err ENOENT" "dir \<noteq> ''.''" for x
  proof -
    have "dir \<noteq> []" "length dir < path_max m"
      using parent_and_name_split [OF pn] that(3) short by auto
    moreover obtain c where "?start dir = Ok c"
      using enter_total [OF m, of i Virtual] enter_total [OF m, of "m_root_node m" Virtual] id
        wf_root [OF m, of Virtual]
      by (cases "hd dir = slash") auto
    ultimately have "fst (loop True (1 < length dir \<and> ends_with dir ''/'') (real_components dir) c (0, [])) = x"
      using that(1) by (simp add: resolve_unfold [OF i] resolve_inner_def resolve_with_def loop_def)
    with \<open>?start dir = Ok c\<close> show ?thesis by (intro exI conjI) (assumption, simp add: prod_eq_iff)
  qed
  {
    assume p: "found = Ok p" "is_dir_kind (n_kind (node_at m p))"
    show "\<exists>st. resolve m Virtual s path fl = fst (loop fl False [name] p st)"
    proof (cases "dir = ''.''")
      case True
      with p i have "i = p" by (simp add: found_def)
      with run here [OF True] have "resolve m Virtual s path fl = fst (loop fl False [name] p (0, []))"
        by (simp only: lift_bind)
      then show ?thesis by (rule exI)
    next
      case False
      with p walk [of "Ok p"] obtain c st where c: "?start dir = Ok c" and
        w: "loop True (1 < length dir \<and> ends_with dir ''/'') (real_components dir) c (0, []) = (Ok p, st)"
        by (auto simp: found_def)
      from run below [OF False] c
      have "resolve m Virtual s path fl = fst (loop fl False (real_components dir @ [name]) c (0, []))"
        by (simp only: lift_bind)
      then show ?thesis
        unfolding loop_def resolve_loop_snoc [OF md w [unfolded loop_def] p(2)] by (rule exI)
    qed
  next
    assume gone: "found = Err ENOENT"
    then have False: "dir \<noteq> ''.''" using i by (auto simp: found_def)
    with gone walk [of "Err ENOENT"] obtain c st where c: "?start dir = Ok c" and
      w: "loop True (1 < length dir \<and> ends_with dir ''/'') (real_components dir) c (0, []) = (Err ENOENT, st)"
      by (auto simp: found_def)
    from run below [OF False] c
    have "resolve m Virtual s path fl = fst (loop fl False (real_components dir @ [name]) c (0, []))"
      by (simp only: lift_bind)
    then show "resolve m Virtual s path fl = Err ENOENT"
      unfolding loop_def resolve_loop_snoc_missing [OF w [unfolded loop_def]] by simp
  }
qed

lemma created_found:
  assumes m: "wf m'" "mountpoints_dirs m'" and rp: "resolve_parent m' s path = Ok (p, name, False)"
    and p: "p < size_of m" "is_dir_kind (n_kind (node_at m p))" and name: "name_ok name"
    and g: "grown m m' p (key m name) kd" and fl: "\<not> (is_symlink_kind kd \<and> fl)"
  shows "resolve m' Virtual s path fl = Ok (size_of m)"
proof -
  from rp obtain dir where short: "length path < path_max m'" "length name \<le> NAME_MAX"
    and pn: "parent_and_name path = Ok (dir, name, False)"
    and dir: "(if dir = ''.'' then start_node m' s else resolve m' Virtual s dir True) = Ok p"
    unfolding resolve_parent_Ok unchecked_Ok by blast
  obtain i where i: "start_node m' s = Ok i"
    using dir resolve_started [of m' Virtual s dir True p] by (cases "dir = ''.''") auto
  have "is_dir_kind (n_kind (node_at m' p))" using g p by (simp add: grown_def)
  from lookup_last(1) [OF m short(1) pn name i dir this] obtain st where
    "resolve m' Virtual s path fl = fst (resolve_loop (follow_symlink (link_fuel m') m' Virtual)
       m' Virtual fl False [name] p st)" by blast
  with last_step_found [OF g p(2) name short(2) fl] show ?thesis by simp
qed

end
