(* ===== verification/Fs_Trips.thy ===== *)
theory Fs_Trips
  imports Fs_Frame
begin

text \<open>
  Round trips through the operations of the filesystem model, after any run of a fresh model:
  \<^verbatim>\<open>mkdir\<close> and \<^verbatim>\<open>stat\<close>, \<^verbatim>\<open>symlink\<close> and \<^verbatim>\<open>readlink\<close>, \<^verbatim>\<open>unlink\<close> or \<^verbatim>\<open>rmdir\<close> and \<^verbatim>\<open>lstat\<close>.
\<close>

section \<open>Mountpoints of fresh models\<close>

lemma mountpoints_evolves:
  assumes "evolves m m'" and "mountpoints_dirs m"
  shows "mountpoints_dirs m'"
  unfolding mountpoints_dirs_def
proof (intro allI impI)
  fix i assume i: "i < size_of m'" and mnt: "n_mounted_by (node_at m' i) \<noteq> None"
  have "i < size_of m" using assms(1) i mnt by (fastforce simp: evolves_def not_less [symmetric])
  moreover from this have "node_evolves (node_at m i) (node_at m' i)"
    using assms(1) by (simp add: evolves_def)
  ultimately show "is_dir_kind (n_kind (node_at m' i))"
    using assms(2) mnt same_kind_dir by (auto simp: node_evolves_def mountpoints_dirs_def)
qed

lemma mounts_mountpoints:
  assumes "mounts m m' mp t vp" and "mp \<noteq> t" and "mountpoints_dirs m"
    and "is_dir_kind (n_kind (node_at m mp))"
  shows "mountpoints_dirs m'"
proof -
  have "n_kind (node_at m' j) = n_kind (node_at m j)" for j
    using assms(1) by (cases "j = mp"; cases "j = t") (auto simp: mounts_def)
  then show ?thesis
    using mounts_fields(3,4) [OF assms(1,2)] assms(3,4) by (auto simp: mountpoints_dirs_def)
qed

lemma anchor_mountpoints:
  assumes M: "wf M" "no_mounts M" "plain_root M root" and old: "set [mp1, mp2] \<subseteq> {..<size_of M}"
    and dirs: "is_dir_kind (n_kind (node_at M mp1))" "is_dir_kind (n_kind (node_at M mp2))"
    and ok: "bind_res (mkdir_p M Physical root KDir) (\<lambda>(m, anchor).
     bind_res (mkchild m anchor ''tmp'' KDir) (\<lambda>(m, root_tmp).
     bind_res (mkchild m anchor ''var'' KDir) (\<lambda>(m, root_var).
     bind_res (mkchild m root_var ''tmp'' KDir) (\<lambda>(m, root_var_tmp).
     bind_res (set_mount m mp1 root_tmp vp1) (\<lambda>m.
       set_mount m mp2 root_var_tmp vp2))))) = Ok m"
  shows "mountpoints_dirs m"
proof -
  obtain m1 a m2 t m3 v m4 vt where st: "mkdir_p M Physical root KDir = Ok (m1, a)"
    "mkchild m1 a ''tmp'' KDir = Ok (m2, t)" "mkchild m2 a ''var'' KDir = Ok (m3, v)"
    "mkchild m3 v ''tmp'' KDir = Ok (m4, vt)" and L: "larger M m4"
    and r: "t < size_of m4" "vt < size_of m4" "size_of M \<le> t" "size_of M \<le> vt"
    by (rule anchor_steps [OF M])
  have ev: "evolves M m4" "mountpoints_dirs m4"
    using L by (simp_all add: larger_def good_def kept_def mountpoints_dirs_def no_mounts_def)
  have kept: "is_dir_kind (n_kind (node_at m4 j))" if "j < size_of M" "is_dir_kind (n_kind (node_at M j))" for j
    using ev(1) that same_kind_dir by (auto simp: evolves_def node_evolves_def)
  have lt: "mp1 < size_of m4" "mp2 < size_of m4" "mp1 \<noteq> t" "mp2 \<noteq> vt"
    using old r ev(1) by (auto simp: evolves_def)
  from ok st obtain m5 where m5: "set_mount m4 mp1 t vp1 = Ok m5" "set_mount m5 mp2 vt vp2 = Ok m"
    by (auto simp: bind_res_Ok_iff)
  from set_mount_mounts [OF lt(1) r(1) lt(3), of vp1] m5(1) have 5: "mounts m4 m5 mp1 t vp1" by auto
  have dirs5: "mountpoints_dirs m5"
    by (rule mounts_mountpoints [OF 5 lt(3) ev(2) kept]) (use old dirs in auto)
  have "n_kind (node_at m5 j) = n_kind (node_at m4 j)" for j
    using 5 by (cases "j = mp1"; cases "j = t") (auto simp: mounts_def)
  then have d5: "is_dir_kind (n_kind (node_at m5 mp2))" using kept old dirs by auto
  have lt5: "mp2 < size_of m5" "vt < size_of m5" using lt r mounts_fields(3) [OF 5 lt(3)] by auto
  from set_mount_mounts [OF lt5 lt(4), of vp2] m5(2) have "mounts m5 m mp2 vt vp2" by auto
  then show ?thesis by (rule mounts_mountpoints [OF _ lt(4) dirs5 d5])
qed

lemma fresh_mountpoints:
  assumes "outside_root (case pr of MacShim r \<Rightarrow> r | LinuxMount r \<Rightarrow> r)" and "new_model pr = Ok m"
  shows "mountpoints_dirs m"
proof -
  have "mountpoints_dirs m0"
    if "(case pr of MacShim r \<Rightarrow> new_mac r | LinuxMount r \<Rightarrow> new_linux r) = Ok m0" for m0
  proof (cases pr)
    case (MacShim r)
    with that show ?thesis
      unfolding new_mac_steps profile.case
      by - (rule anchor_mountpoints [OF base_facts(3,4) outside_plain(2)];
          use assms(1) MacShim in \<open>simp add: mac_base_def bare_model_def fresh_node_def\<close>)
  next
    case (LinuxMount r)
    with that show ?thesis
      unfolding new_linux_steps profile.case
      by - (rule anchor_mountpoints [OF base_facts(1,2) outside_plain(1)];
          use assms(1) LinuxMount in \<open>simp add: linux_base_def bare_model_def fresh_node_def\<close>)
  qed
  then show ?thesis
    using assms(2) by (cases pr) (auto simp: new_model_def bind_res_Ok_iff mountpoints_dirs_def)
qed

section \<open>Round trips\<close>

lemma trailing_slash:
  assumes "parent_and_name path = Ok (d, n, t)" and "\<not> ends_with path [slash]"
  shows "\<not> t"
proof -
  have "trim_end slash path = path"
    using assms(2) by (cases path rule: rev_cases) (auto simp: trim_end_def ends_with_slash)
  with assms(1) show ?thesis
    by (auto simp: parent_and_name_def Let_def split: if_splits option.splits)
qed

lemma parent_trailing:
  "resolve_parent m s path = Ok (p, n, t) \<Longrightarrow> \<not> ends_with path [slash] \<Longrightarrow> \<not> t"
  unfolding resolve_parent_Ok unchecked_Ok using trailing_slash by blast

lemma parent_wider:
  assumes big: "wider {} m m'" and start: "start_node m' s = start_node m s"
    and ok: "resolve_parent m s path = Ok (p, n, t)"
  shows "resolve_parent m' s path = Ok (p, n, t)"
proof -
  have "(if dir = ''.'' then start_node m' s else resolve m' Virtual s dir True) = Ok p"
    if "(if dir = ''.'' then start_node m s else resolve m Virtual s dir True) = Ok p" for dir
    using that resolve_wider [OF big start, of Virtual dir True p, simplified] start by presburger
  then show ?thesis
    using ok wider_lookup(1) [OF big, of p] unfolding resolve_parent_Ok unchecked_Ok wider_consts(2) [OF big]
    by blast
qed

lemma create_live_grown:
  "p < size_of m \<Longrightarrow> create_live m p k kd = Ok (m', i) \<Longrightarrow> grown m m' p k kd"
  using create_child_grown by (auto simp: create_live_def bind_res_Ok_iff)

lemma reply_done: "reply m r = Ok (m', out) \<Longrightarrow> ret out = 0 \<Longrightarrow> r = Ok (m', out)"
  by (auto simp: reply_def errout_def split: res.splits)

lemma mkdir_grown:
  assumes "wf m" and "do_mkdir m s path = Ok (m', out)" and "ret out = 0"
    and "\<not> ends_with path [slash]"
  obtains p name where "resolve_parent m s path = Ok (p, name, False)"
    "child m p (key m name) = None" "grown m m' p (key m name) KDir"
proof -
  from reply_done [OF assms(2) [unfolded do_mkdir_def] assms(3)]
  obtain p name t where rp: "resolve_parent m s path = Ok (p, name, t)"
    by (auto simp: bind_res_Ok_iff split: if_splits)
  have t: "\<not> t" using parent_trailing [OF rp assms(4)] .
  have p: "p < size_of m" using resolve_parent_ok [OF assms(1), of s path] rp by simp
  with reply_done [OF assms(2) [unfolded do_mkdir_def] assms(3)] rp t
  have "child m p (key m name) = None \<and> (\<exists>i. create_live m p (key m name) KDir = Ok (m', i))"
    by (auto simp: bind_res_Ok_iff split: if_splits)
  with rp t p show ?thesis by (auto intro: that dest: create_live_grown)
qed

lemma symlink_grown:
  assumes "wf m" and "do_symlink m target path = Ok (m', out)" and "ret out = 0"
  obtains p name where "resolve_parent m Cwd path = Ok (p, name, False)"
    "child m p (key m name) = None" "grown m m' p (key m name) (KSymlink target)"
proof -
  note body = reply_done [OF assms(2) [unfolded do_symlink_def] assms(3)]
  from body obtain p name t where rp: "resolve_parent m Cwd path = Ok (p, name, t)"
    by (auto simp: bind_res_Ok_iff split: if_splits)
  have p: "p < size_of m" using resolve_parent_ok [OF assms(1), of Cwd path] rp by simp
  have "\<not> t \<and> child m p (key m name) = None \<and> (\<exists>i. create_live m p (key m name) (KSymlink target) = Ok (m', i))"
    using body rp p by (cases t) (auto simp: bind_res_Ok_iff split: if_splits)
  with rp p show ?thesis by (auto intro: that dest: create_live_grown)
qed

text \<open>The models that a run of a fresh one leads to.\<close>

definition reached :: "model \<Rightarrow> bool" where
  "reached m \<longleftrightarrow>
     (\<exists>pr m0 xs outs. outside_root (case pr of MacShim r \<Rightarrow> r | LinuxMount r \<Rightarrow> r) \<and>
        new_model pr = Ok m0 \<and> list_all (\<lambda>x. \<not> prints_path x) xs \<and> apply_all m0 xs = Ok (m, outs))"

lemma reached_ok:
  assumes "reached m"
  shows "wf m" "mountpoints_dirs m"
proof -
  from assms obtain pr m0 xs outs where
    pr: "outside_root (case pr of MacShim r \<Rightarrow> r | LinuxMount r \<Rightarrow> r)" and m0: "new_model pr = Ok m0"
    and xs: "list_all (\<lambda>x. \<not> prints_path x) xs" "apply_all m0 xs = Ok (m, outs)"
    unfolding reached_def by blast
  have "wf m0" using new_model_ok [OF pr] m0 by auto
  from fs.run_ok [OF this xs(1)] xs(2) show "wf m" and ev: "mountpoints_dirs m"
    using mountpoints_evolves fresh_mountpoints [OF pr m0] by (auto simp: apply_all_run)
qed

text \<open>The path of a node that was just created leads to it.\<close>

lemma created_path:
  assumes m: "reached m" and op: "apply_op m x = Ok (m', out)" "\<not> prints_path x"
    and rp: "resolve_parent m s path = Ok (p, name, False)" and free: "child m p (key m name) = None"
    and g: "grown m m' p (key m name) kd" and fl: "\<not> (is_symlink_kind kd \<and> fl)"
  shows "resolve_parent m' s path = Ok (p, name, False)" "resolve m' Virtual s path fl = Ok (size_of m)"
    "n_kind (node_at m' (size_of m)) = kd" "size_of m' = Suc (size_of m)"
proof -
  note ok = reached_ok [OF m]
  have m': "wf m'" "mountpoints_dirs m'"
    using apply_op_kept [OF ok(1), of x] op grown_mountpoints [OF g ok(2)]
    by (auto simp: safe_with_def kept_def)
  show rp': "resolve_parent m' s path = Ok (p, name, False)"
    by (rule parent_wider [OF grown_wider [OF g free] grown_start [OF g] rp])
  have "p < size_of m" "is_dir_kind (n_kind (node_at m p))" "name_ok name"
    using resolve_parent_ok [OF ok(1), of s path] rp by simp_all
  from created_found [OF m' rp' this g fl] show "resolve m' Virtual s path fl = Ok (size_of m)" .
  show "n_kind (node_at m' (size_of m)) = kd" "size_of m' = Suc (size_of m)"
    using g by (simp_all add: grown_def fresh_node_def)
qed

text \<open>
  What \<^verbatim>\<open>mkdir\<close> made is there: after any run of a fresh model, a successful
  \<^verbatim>\<open>mkdir\<close> of a path is followed by a \<^verbatim>\<open>stat\<close> of the same path that reports a directory, and by
  a second \<^verbatim>\<open>mkdir\<close> that reports \<^verbatim>\<open>EEXIST\<close>, also through links, \<^verbatim>\<open>..\<close> and mounts in the path.
\<close>

theorem mkdir_stat:
  assumes "reached m" and mk: "apply_op m (Mkdir path mode) = Ok (m', out)" and "ret out = 0"
    and "\<not> ends_with path ''/''"
  shows "apply_op m' (Stat path) = Ok (m', dataout 0 [char_of (kind_code KDir)]) \<and>
    apply_op m' (Mkdir path mode') = Ok (m', errout EEXIST)"
proof -
  note m = reached_ok [OF assms(1)]
  from mk have "do_mkdir m Cwd path = Ok (m', out)" by simp
  from mkdir_grown [OF m(1) this assms(3,4)] obtain p name where
    rp: "resolve_parent m Cwd path = Ok (p, name, False)" and free: "child m p (key m name) = None"
    and g: "grown m m' p (key m name) KDir" by auto
  note found = created_path [OF assms(1) mk _ rp free g, of True]
  have "apply_op m' (Stat path) = Ok (m', dataout 0 [char_of (kind_code KDir)])"
    using found by (simp add: do_stat_def reply_def)
  moreover have "apply_op m' (Mkdir path mode') = Ok (m', errout EEXIST)"
  proof -
    have p: "p < size_of m" "is_dir_kind (n_kind (node_at m p))"
      using resolve_parent_ok [OF m(1), of Cwd path] rp by simp_all
    have q: "p < size_of m'" "child m' p (key m' name) = Some (size_of m)" "key m' = key m"
      using g grown_child [OF g, of p "key m name"] wider_consts(3) [OF grown_wider [OF g free]]
      by (auto simp: grown_def)
    have "is_dir_kind (n_kind (node_at m' p))" "\<not> is_root_operand path"
      using g p mk assms(3) by (auto simp: grown_def do_mkdir_def reply_def errout_def split: if_splits)
    with found q show ?thesis by (simp add: do_mkdir_def reply_def)
  qed
  ultimately show ?thesis by blast
qed

text \<open>
  \<^verbatim>\<open>readlink\<close> gives back the text of a \<^verbatim>\<open>symlink\<close> byte for byte, after any run
  and whatever the text is, also when it leads nowhere.
\<close>

theorem symlink_readlink:
  assumes "reached m" and mk: "apply_op m (Symlink target path) = Ok (m', out)" and "ret out = 0"
  shows "apply_op m' (Readlink path) = Ok (m', dataout (int (length target)) target)"
proof -
  from mk have "do_symlink m target path = Ok (m', out)" by simp
  from symlink_grown [OF reached_ok(1) [OF assms(1)] this assms(3)] obtain p name where
    rp: "resolve_parent m Cwd path = Ok (p, name, False)" and free: "child m p (key m name) = None"
    and g: "grown m m' p (key m name) (KSymlink target)" by auto
  from created_path [OF assms(1) mk _ rp free g, of False] show ?thesis
    by (simp add: do_readlink_def reply_def)
qed

section \<open>Removed names\<close>

text \<open>\<open>m'\<close> is \<open>m\<close> without the entry \<open>k\<close> of \<open>p\<close>.\<close>

definition shrunk :: "model \<Rightarrow> model \<Rightarrow> node_id \<Rightarrow> bytes \<Rightarrow> bool" where
  "shrunk m m' p k \<longleftrightarrow>
     m_profile m' = m_profile m \<and> m_root_node m' = m_root_node m \<and> m_cwd m' = m_cwd m \<and>
     m_fds m' = m_fds m \<and> m_case_insensitive m' = m_case_insensitive m \<and>
     size_of m' = size_of m \<and> par m' = par m \<and>
     (\<forall>j. n_kind (node_at m' j) = n_kind (node_at m j) \<and>
        n_mounted_by (node_at m' j) = n_mounted_by (node_at m j) \<and>
        n_virtual_parent (node_at m' j) = n_virtual_parent (node_at m j)) \<and>
     (\<forall>j k'. child m' j k' = (if j = p \<and> k' = k then None else child m j k'))"

lemma shrunk_wider: "shrunk m m' p k \<Longrightarrow> wider {ENOENT} m m'"
  by (auto simp: shrunk_def wider_def)

lemma shrunk_start: "shrunk m m' p k \<Longrightarrow> start_node m' s = start_node m s"
  by (cases s) (simp_all add: shrunk_def start_node_def fd_dir_def)

lemma unlink_shrunk:
  assumes "wf m" and "unlink_impl m s path is_rmdir = Ok (m', out)" and "ret out = 0"
    and "\<not> ends_with path [slash]"
  obtains p name where "resolve_parent m s path = Ok (p, name, False)" "shrunk m m' p (key m name)"
proof -
  note body = reply_done [OF assms(2) [unfolded unlink_impl_def] assms(3)]
  from body obtain p name t where rp: "resolve_parent m s path = Ok (p, name, t)"
    by (auto simp: unlink_victim_def bind_res_Ok_iff split: if_splits)
  have t: "\<not> t" using parent_trailing [OF rp assms(4)] .
  have p: "p < size_of m" using resolve_parent_ok [OF assms(1), of s path] rp by simp
  let ?n = "(node_at m p)\<lparr>n_children := bt_remove (key m name) (n_children (node_at m p))\<rparr>"
  let ?m = "m\<lparr>m_nodes := (m_nodes m)[p := ?n]\<rparr>"
  obtain i where i: "i < size_of m" and
    m': "m' = ?m \<or> m' = ?m\<lparr>m_nodes := (m_nodes ?m)[i := (m_nodes ?m ! i)\<lparr>n_detached := True\<rparr>]\<rparr>"
  proof -
    from body rp t p obtain i where c: "child m p (key m name) = Some i"
      by (auto simp: unlink_victim_def bind_res_Ok_iff split: if_splits option.splits)
    have "i < size_of m" using child_range [OF assms(1) p c] .
    with body rp t p c show ?thesis
      by (intro that [of i])
        (auto simp: unlink_victim_def remove_child_def Let_def split: if_splits)
  qed
  have "shrunk m ?m p (key m name)"
    using p by (auto simp: shrunk_def par_def child_def nth_list_update fun_eq_iff)
  moreover have "shrunk m (x\<lparr>m_nodes := (m_nodes x)[i := (m_nodes x ! i)\<lparr>n_detached := True\<rparr>]\<rparr>) p (key m name)"
    if "shrunk m x p (key m name)" for x
    using that i by (auto simp: shrunk_def par_def child_def nth_list_update fun_eq_iff)
  ultimately have "shrunk m m' p (key m name)" using m' by metis
  with rp t show ?thesis by (intro that) auto
qed

text \<open>
  What \<^verbatim>\<open>unlink\<close> or \<^verbatim>\<open>rmdir\<close> removed is gone: after any run, a successful removal
  is followed by an \<^verbatim>\<open>lstat\<close> of the same path that reports \<^verbatim>\<open>ENOENT\<close>, also when the path led
  through the removed entry itself.
\<close>

theorem removed_gone:
  assumes "reached m" and "x = Unlink path \<or> x = Rmdir path"
    and rm: "apply_op m x = Ok (m', out)" and "ret out = 0" and "\<not> ends_with path ''/''"
  shows "apply_op m' (Lstat path) = Ok (m', errout ENOENT)"
proof -
  note m = reached_ok [OF assms(1)]
  from assms(2) rm obtain b where "unlink_impl m Cwd path b = Ok (m', out)" by auto
  from unlink_shrunk [OF m(1) this assms(4,5)] obtain p name where
    rp: "resolve_parent m Cwd path = Ok (p, name, False)" and sh: "shrunk m m' p (key m name)" by auto
  note big = shrunk_wider [OF sh] and start = shrunk_start [OF sh, of Cwd]
  have m': "wf m'" "mountpoints_dirs m'"
    using apply_op_kept [OF m(1), of x] assms(2) rm m(2) sh
    by (auto simp: safe_with_def kept_def shrunk_def mountpoints_dirs_def)
  have p: "p < size_of m" "is_dir_kind (n_kind (node_at m p))" "name_ok name" "length name \<le> NAME_MAX"
    using resolve_parent_ok [OF m(1), of Cwd path] rp by simp_all
  from rp obtain dir where short: "length path < path_max m'"
    and pn: "parent_and_name path = Ok (dir, name, False)"
    and dir: "(if dir = ''.'' then start_node m Cwd else resolve m Virtual Cwd dir True) = Ok p"
    unfolding resolve_parent_Ok unchecked_Ok wider_consts(2) [OF big] by blast
  have i: "start_node m' Cwd = Ok (m_cwd m')" by (simp add: start_node_def)
  note after = lookup_last [OF m' short pn p(3) i]
  have "(if dir = ''.'' then start_node m' Cwd else resolve m' Virtual Cwd dir True) \<in> {Ok p, Err ENOENT}"
    using dir start resolve_wider [OF big start, of Virtual dir True p] by (cases "dir = ''.''") auto
  then have "resolve m' Virtual Cwd path False = Err ENOENT"
  proof
    assume "(if dir = ''.'' then start_node m' Cwd else resolve m' Virtual Cwd dir True) = Ok p"
    moreover have d: "is_dir_kind (n_kind (node_at m' p))" using sh p by (simp add: shrunk_def)
    ultimately obtain st where r: "resolve m' Virtual Cwd path False =
        fst (resolve_loop (follow_symlink (link_fuel m') m' Virtual) m' Virtual False False [name] p st)"
      using after(1) by blast
    have "p < size_of m'" "child m' p (key m' name) = None"
      using sh p wider_consts(3) [OF big] by (auto simp: shrunk_def)
    with d p(3,4) show ?thesis unfolding r by (simp add: Let_def bind_walk_def lift_walk_def name_ok_def)
  qed (use after(2) in blast)
  then show ?thesis by (simp add: do_stat_def reply_def)
qed

section \<open>A concrete run\<close>

text \<open>
  A fresh model with \<^verbatim>\<open>/tmp\<close> mounted from \<^verbatim>\<open>/w\<close>, a directory in it and a link to that directory.
\<close>

definition trip_ops :: "op list" where
  "trip_ops = [Mkdir ''/tmp/d'' 0, Symlink ''tmp/d'' ''/l'']"

definition step_at :: "op list \<Rightarrow> op \<Rightarrow> (model \<times> outcome) res" where
  "step_at xs x =
     bind_res (new_model (LinuxMount ''/w'')) (\<lambda>m0. bind_res (apply_all m0 xs) (\<lambda>(m, _). apply_op m x))"

definition ret_at :: "op list \<Rightarrow> op \<Rightarrow> int" where
  "ret_at xs x = (case step_at xs x of Ok (_, out) \<Rightarrow> ret out | _ \<Rightarrow> -2)"

lemma step_reached:
  assumes "ret_at xs x = 0" and "list_all (\<lambda>y. \<not> prints_path y) xs"
  obtains m m' out where "reached m" "apply_op m x = Ok (m', out)" "ret out = 0"
proof -
  have "outside_root (case LinuxMount ''/w'' of MacShim r \<Rightarrow> r | LinuxMount r \<Rightarrow> r)" by code_simp
  moreover from assms(1) obtain m0 m outs m' out where
    "new_model (LinuxMount ''/w'') = Ok m0" "apply_all m0 xs = Ok (m, outs)"
    "apply_op m x = Ok (m', out)" "ret out = 0"
    by (auto simp: ret_at_def step_at_def split: res.splits prod.splits)
       (auto simp: bind_res_Ok_iff)
  ultimately show ?thesis using assms(2) by (intro that) (auto simp only: reached_def)
qed

theorem mkdir_stat_witness:
  "\<exists>m m' out. reached m \<and> apply_op m (Mkdir ''/l/x'' 0) = Ok (m', out) \<and>
     apply_op m' (Stat ''/l/x'') = Ok (m', dataout 0 [char_of (kind_code KDir)]) \<and>
     apply_op m' (Mkdir ''/l/x'' 0) = Ok (m', errout EEXIST)"
proof -
  have "ret_at trip_ops (Mkdir ''/l/x'' 0) = 0" "list_all (\<lambda>y. \<not> prints_path y) trip_ops" by code_simp+
  then obtain m m' out where m: "reached m" "apply_op m (Mkdir ''/l/x'' 0) = Ok (m', out)" "ret out = 0"
    by (rule step_reached)
  have "\<not> ends_with ''/l/x'' ''/''" by code_simp
  from mkdir_stat [OF m this, of 0] m(1,2) show ?thesis by blast
qed

theorem symlink_readlink_witness:
  "\<exists>m m' out. reached m \<and> apply_op m (Symlink ''nowhere'' ''/l/s'') = Ok (m', out) \<and>
     apply_op m' (Readlink ''/l/s'') = Ok (m', dataout 7 ''nowhere'')"
proof -
  have "ret_at trip_ops (Symlink ''nowhere'' ''/l/s'') = 0" "list_all (\<lambda>y. \<not> prints_path y) trip_ops"
    by code_simp+
  then obtain m m' out where
    m: "reached m" "apply_op m (Symlink ''nowhere'' ''/l/s'') = Ok (m', out)" "ret out = 0"
    by (rule step_reached)
  from symlink_readlink [OF m] m(1,2) show ?thesis by auto
qed

theorem removed_gone_witness:
  "\<exists>m m' out. reached m \<and> apply_op m (Unlink ''/l/../../l'') = Ok (m', out) \<and>
     apply_op m' (Lstat ''/l/../../l'') = Ok (m', errout ENOENT)"
proof -
  have "ret_at trip_ops (Unlink ''/l/../../l'') = 0" "list_all (\<lambda>y. \<not> prints_path y) trip_ops"
    by code_simp+
  then obtain m m' out where
    m: "reached m" "apply_op m (Unlink ''/l/../../l'') = Ok (m', out)" "ret out = 0"
    by (rule step_reached)
  have "\<not> ends_with ''/l/../../l'' ''/''" by code_simp
  from removed_gone [OF m(1) disjI1 m(2,3) this] m(1,2) show ?thesis by blast
qed

end
