(* ===== verification/Fs_Io.thy ===== *)
theory Fs_Io
  imports Fs_Frame
begin

text \<open>
  Reading and writing through descriptors of the filesystem model, against a byte-wise
  specification of a shared file; and three places where the model goes another way than its
  comments or the kernels that it stands for.
\<close>

section \<open>Shared files\<close>

text \<open>The byte at \<open>j\<close> of a file after \<open>d\<close> was written at \<open>pos\<close>.\<close>

definition overwritten :: "bytes \<Rightarrow> nat \<Rightarrow> bytes \<Rightarrow> nat \<Rightarrow> byte" where
  "overwritten c pos d j =
     (if pos \<le> j \<and> j < pos + length d then d ! (j - pos)
      else if j < length c then c ! j
      else nul)"

lemma resize_to_length [simp]: "length (resize_to n c) = max n (length c)"
  by (auto simp: resize_to_def)

lemma resize_to_nth: "j < max n (length c) \<Longrightarrow> resize_to n c ! j = (if j < length c then c ! j else nul)"
  by (auto simp: resize_to_def nth_append)

lemma write_at_length: "length (write_at c pos d) = max (length c) (pos + length d)"
  by (auto simp: write_at_def Let_def max_def)

lemma write_at_nth:
  assumes "j < max (length c) (pos + length d)"
  shows "write_at c pos d ! j = overwritten c pos d j"
proof -
  let ?c = "resize_to (pos + length d) (resize_to pos c)"
  have at: "k < max (length c) (pos + length d) \<Longrightarrow> ?c ! k = (if k < length c then c ! k else nul)" for k
    by (auto simp: resize_to_nth)
  have len: "length ?c = max (length c) (pos + length d)" by auto
  consider "j < pos" | "pos \<le> j" "j < pos + length d" | "pos + length d \<le> j" by linarith
  then show ?thesis
    using assms len at [of j]
    by cases (auto simp: write_at_def Let_def nth_append overwritten_def)
qed

lemma write_at_slice:
  assumes "q + n \<le> max (length c) (pos + length d)"
  shows "take n (drop q (write_at c pos d)) = map (overwritten c pos d) [q..<q + n]"
  using assms by (intro nth_equalityI) (auto simp: write_at_length write_at_nth)

definition read_slice :: "bytes \<Rightarrow> nat \<Rightarrow> nat \<Rightarrow> bytes" where
  "read_slice c pos len =
     take (min (min pos (length c) + len) (length c) - min pos (length c)) (drop (min pos (length c)) c)"

lemma do_read_slice:
  assumes "bt_get (m_fds m) fd = Some (FdFile i pos w)" and "i < size_of m"
    and "n_kind (node_at m i) = KFile c"
  shows "do_read m fd len =
    Ok (m\<lparr>m_fds := bt_insert fd (FdFile i (pos + length (read_slice c pos len)) w) (m_fds m)\<rparr>,
      dataout (int (length (read_slice c pos len))) (read_slice c pos len))"
  by (simp only: do_read_def reply_def Let_def assms option.case fd_entry.case nd_ok bind_res.simps
      node_kind.case res.case read_slice_def)

text \<open>
  C11 (functional). Two descriptors of one file: what one of them writes, at its own position
  and beyond the end if need be, the other one reads, byte for byte. The file is as long as the
  write reaches, bytes that nobody wrote are NUL, the rest is as before, and each descriptor has
  moved by what it wrote or read.
\<close>

theorem write_read:
  assumes "wf m" and a: "bt_get (m_fds m) a = Some (FdFile i pos True)"
    and b: "bt_get (m_fds m) b = Some (FdFile i q w)" and "a \<noteq> b"
    and c: "n_kind (m_nodes m ! i) = KFile c" and wr: "apply_op m (Write a d) = Ok (m', out)"
    and n: "n = min len (max (length c) (pos + length d) - q)"
  shows "ret out = int (length d) \<and>
    (\<exists>m''. apply_op m' (Read b len) =
        Ok (m'', dataout (int n) (map (overwritten c pos d) [q..<q + n])) \<and>
      bt_get (m_fds m'') a = Some (FdFile i (pos + length d) True) \<and>
      bt_get (m_fds m'') b = Some (FdFile i (q + n) w))"
proof -
  have i: "i < size_of m" using wf_fd [OF assms(1) a] by simp
  let ?c = "write_at c pos d"
  let ?m = "m\<lparr>m_nodes := (m_nodes m)[i := (node_at m i)\<lparr>n_kind := KFile ?c\<rparr>],
    m_fds := bt_insert a (FdFile i (pos + length d) True) (m_fds m)\<rparr>"
  have m': "m' = ?m" "ret out = int (length d)"
    using wr a i c by (auto simp: do_write_def reply_def okout_def)
  have len: "length ?c = max (length c) (pos + length d)" by (rule write_at_length)
  have slice: "read_slice ?c q len = map (overwritten c pos d) [q..<q + n]"
  proof (cases "q \<le> length ?c")
    case True
    then have "read_slice ?c q len = take n (drop q ?c)"
      using len n by (simp add: read_slice_def min_def)
    also have "\<dots> = map (overwritten c pos d) [q..<q + n]"
      using True len n by (intro write_at_slice) auto
    finally show ?thesis .
  next
    case False
    then show ?thesis using len n by (auto simp: read_slice_def max_def split: if_splits)
  qed
  have "bt_get (m_fds m') b = Some (FdFile i q w)" "i < size_of m'"
    "n_kind (node_at m' i) = KFile ?c"
    using m' b assms(4) i by simp_all
  then have "apply_op m' (Read b len) =
      Ok (m'\<lparr>m_fds := bt_insert b (FdFile i (q + n) w) (m_fds m')\<rparr>,
        dataout (int n) (map (overwritten c pos d) [q..<q + n]))"
    using do_read_slice [of m' b i q w ?c len] slice by simp
  then show ?thesis using m' assms(4) by simp
qed

text \<open>A file of three bytes with two descriptors; the second one was opened later.\<close>

definition rw :: "bool \<Rightarrow> open_flags" where
  "rw trunc = \<lparr>o_create = True, o_excl = False, o_trunc = trunc, o_write = True,
     o_directory = False, o_nofollow = False\<rparr>"

definition after :: "profile \<Rightarrow> op list \<Rightarrow> model res" where
  "after pr xs = bind_res (new_model pr) (\<lambda>m. bind_res (apply_all m xs) (\<lambda>(m', _). Ok m'))"

definition replies :: "profile \<Rightarrow> op list \<Rightarrow> outcome list res" where
  "replies pr xs = bind_res (new_model pr) (\<lambda>m. bind_res (apply_all m xs) (\<lambda>(_, outs). Ok outs))"

definition two_fds :: "op list" where
  "two_fds = [Open ''/f'' (rw False), Write 3 ''abc'', Open ''/f'' (rw False)]"

theorem write_read_witness:
  "\<exists>m m' out m''. after (LinuxMount ''/w'') two_fds = Ok m \<and> apply_op m (Write 3 ''de'') = Ok (m', out) \<and>
     apply_op m' (Read 4 9) = Ok (m'', dataout 5 ''abcde'')"
proof -
  have out: "outside_root ''/w''" by code_simp
  have "(case after (LinuxMount ''/w'') two_fds of Ok m \<Rightarrow>
      (\<exists>i \<in> set [0..<length (m_nodes m)]. bt_get (m_fds m) 3 = Some (FdFile i 3 True) \<and>
        bt_get (m_fds m) 4 = Some (FdFile i 0 True) \<and> n_kind (m_nodes m ! i) = KFile ''abc'') | _ \<Rightarrow> False)"
    by code_simp
  then obtain m i where m: "after (LinuxMount ''/w'') two_fds = Ok m"
    and fds: "bt_get (m_fds m) 3 = Some (FdFile i 3 True)" "bt_get (m_fds m) 4 = Some (FdFile i 0 True)"
    and c: "n_kind (m_nodes m ! i) = KFile ''abc''" by (auto split: res.splits)
  from m obtain m0 outs where m0: "new_model (LinuxMount ''/w'') = Ok m0" "apply_all m0 two_fds = Ok (m, outs)"
    by (auto simp: after_def bind_res_Ok_iff)
  have "wf m0" using new_model_ok [of "LinuxMount ''/w''"] out m0 by auto
  moreover have "list_all (\<lambda>x. \<not> prints_path x) two_fds" by (simp add: two_fds_def)
  ultimately have wf: "wf m" using fs.run_ok [of m0 two_fds] m0(2) by (auto simp: apply_all_run)
  obtain m' out' where wr: "apply_op m (Write 3 ''de'') = Ok (m', out')"
    using apply_op_kept [OF wf, of "Write 3 ''de''"] by (auto simp: safe_with_def)
  have "(5 :: nat) = min 9 (max (length ''abc'') (3 + length ''de'') - 0)" by simp
  from write_read [OF wf fds _ c wr this] obtain m'' where
    "apply_op m' (Read 4 9) = Ok (m'', dataout 5 (map (overwritten ''abc'' 3 ''de'') [0..<0 + 5]))"
    by auto
  moreover have "map (overwritten ''abc'' 3 ''de'') [0..<0 + 5] = ''abcde''" by code_simp
  ultimately show ?thesis using m wr by metis
qed

section \<open>Deviations\<close>

text \<open>
  A write of no bytes can change a file: when the file was truncated through another
  descriptor, the writer's position is behind its end, and \<^verbatim>\<open>do_write\<close> fills the gap with NULs
  before it looks at how much there is to write.
\<close>

theorem empty_write_extends:
  "replies (LinuxMount ''/w'')
     [Open ''/f'' (rw False), Write 3 ''abc'', Open ''/f'' (rw True), Write 3 [], Read 4 10] =
   Ok [okout 3, okout 3, okout 4, okout 0, dataout 3 [nul, nul, nul]]"
  by code_simp

text \<open>
  A mountpoint can be removed by its own name: \<^verbatim>\<open>rmdir\<close> of \<^verbatim>\<open>/tmp\<close> succeeds on a fresh
  model, and \<^verbatim>\<open>/tmp\<close> is gone, although \<^verbatim>\<open>owner_of\<close> refuses the same directory with \<^verbatim>\<open>EBUSY\<close> when
  it is reached through a link.
\<close>

theorem mountpoint_removed:
  "replies (LinuxMount ''/w'') [Rmdir ''/tmp'', Stat ''/tmp''] = Ok [okout 0, errout ENOENT] \<and>
   bind_res (new_model (LinuxMount ''/w'')) (\<lambda>m. owner_of m 1) = Err EBUSY"
  by (rule conjI; code_simp)

text \<open>A set of nodes that the walk up to the root never leaves.\<close>

definition no_way_up :: "model \<Rightarrow> node_id list \<Rightarrow> bool" where
  "no_way_up m S =
     list_all (\<lambda>i. case node_name_and_parent m Virtual i of
       Ok (Some (_, p)) \<Rightarrow> p \<in> set S | _ \<Rightarrow> False) S"

lemma full_path_stuck:
  "no_way_up m S \<Longrightarrow> i \<in> set S \<Longrightarrow> full_path_loop f m Virtual i parts = Abort Diverge"
proof (induction f arbitrary: i parts)
  case (Suc f)
  from Suc.prems have "case node_name_and_parent m Virtual i of
      Ok (Some (_, p)) \<Rightarrow> p \<in> set S | _ \<Rightarrow> False"
    by (simp add: no_way_up_def list_all_iff)
  then obtain name p where "node_name_and_parent m Virtual i = Ok (Some (name, p))" "p \<in> set S"
    by (auto split: res.splits option.splits prod.splits)
  with Suc show ?case by simp
qed simp

definition into_itself :: "op list" where
  "into_itself = [Chdir ''/private/var/tmp'', Rename ''/private/var'' ''/private/var/tmp/x'']"

text \<open>
  C12 (error). On macOS a directory can be renamed into a mount below itself: the check against
  moving a directory into itself follows the physical parents, the path of a directory the
  virtual ones. Both operations below succeed, and then the loop of \<^verbatim>\<open>full_path\<close> that \<^verbatim>\<open>getcwd\<close>
  runs does not end: no number of steps is enough.
\<close>

theorem getcwd_diverges:
  "\<exists>m. replies (MacShim ''/w'') into_itself = Ok [okout 0, okout 0] \<and>
     after (MacShim ''/w'') into_itself = Ok m \<and>
     (\<forall>f. full_path_loop f m Virtual (m_cwd m) [] = Abort Diverge)"
proof -
  have "(case after (MacShim ''/w'') into_itself of
      Ok m \<Rightarrow> m_cwd m \<in> set [m_cwd m, 2] \<and> no_way_up m [m_cwd m, 2] | _ \<Rightarrow> False)"
    by code_simp
  then obtain m where m: "after (MacShim ''/w'') into_itself = Ok m" and up: "no_way_up m [m_cwd m, 2]"
    by (cases "after (MacShim ''/w'') into_itself") auto
  have "full_path_loop f m Virtual (m_cwd m) [] = Abort Diverge" for f
    by (rule full_path_stuck [OF up]) simp
  moreover have "replies (MacShim ''/w'') into_itself = Ok [okout 0, okout 0]" by code_simp
  ultimately show ?thesis using m by blast
qed

end
