(* ===== verification/Op_Line.thy ===== *)
theory Op_Line
  imports Fs_Build
begin

text \<open>
  The text forms of \<^verbatim>\<open>crates/world-fsmodel/src/lib.rs\<close>: operations as lines
  (\<^verbatim>\<open>escape\<close>, \<^verbatim>\<open>unescape\<close>, the flag strings, \<^verbatim>\<open>Op::to_line\<close>,
  \<^verbatim>\<open>Op::from_line\<close>) and listings as JSON (\<^verbatim>\<open>json_escape\<close>, \<^verbatim>\<open>tree_json\<close>).
  A \<^verbatim>\<open>&str\<close> is its bytes. Every field of a line is a token codec: what the reader makes
  of the text that the writer produced, and that the text contains no separator.
\<close>

abbreviation space :: byte where
  "space \<equiv> CHR '' ''"

section \<open>Hexadecimal escapes\<close>

definition between :: "byte \<Rightarrow> byte \<Rightarrow> byte \<Rightarrow> bool" where
  "between lo hi b = ((of_char lo :: nat) \<le> of_char b \<and> (of_char b :: nat) \<le> of_char hi)"

definition is_ascii_alphanumeric :: "byte \<Rightarrow> bool" where
  "is_ascii_alphanumeric b =
     (between (CHR ''0'') (CHR ''9'') b \<or> between (CHR ''A'') (CHR ''Z'') b \<or>
      between (CHR ''a'') (CHR ''z'') b)"

definition is_plain :: "byte \<Rightarrow> bool" where
  "is_plain b = (is_ascii_alphanumeric b \<or> b \<in> {CHR ''.'', CHR ''_'', CHR ''/'', CHR ''-''})"

text \<open>A hexadecimal digit as \<^verbatim>\<open>format!("{:x}")\<close> writes it.\<close>

definition hex_digit :: "nat \<Rightarrow> byte" where
  "hex_digit n = (if n < 10 then char_of (48 + n) else char_of (87 + n))"

definition hex2 :: "byte \<Rightarrow> bytes" where
  "hex2 b = [hex_digit (of_char b div 16), hex_digit (of_char b mod 16)]"

fun escape :: "bytes \<Rightarrow> bytes" where
  "escape [] = []"
| "escape (b # bs) = (if is_plain b then [b] else CHR ''%'' # hex2 b) @ escape bs"

definition hex_val :: "byte \<Rightarrow> nat option" where
  "hex_val b =
     (if between (CHR ''0'') (CHR ''9'') b then Some (of_char b - 48)
      else if between (CHR ''a'') (CHR ''f'') b then Some (of_char b - 97 + 10)
      else if between (CHR ''A'') (CHR ''F'') b then Some (of_char b - 65 + 10)
      else None)"

fun unescape :: "bytes \<Rightarrow> bytes option" where
  "unescape [] = Some []"
| "unescape (b # bs) =
     (if b = CHR ''%'' then
        (case bs of
           x # y # r \<Rightarrow>
             (case hex_val x of
                None \<Rightarrow> None
              | Some hi \<Rightarrow>
                  (case hex_val y of
                     None \<Rightarrow> None
                   | Some lo \<Rightarrow> map_option (Cons (char_of (hi * 16 + lo))) (unescape r)))
         | _ \<Rightarrow> None)
      else map_option (Cons b) (unescape bs))"

definition unescape_path :: "bytes \<Rightarrow> bytes option" where
  "unescape_path s =
     (case unescape s of None \<Rightarrow> None | Some v \<Rightarrow> if nul \<in> set v then None else Some v)"

section \<open>Numbers, booleans and flags\<close>

definition dec_digit :: "nat \<Rightarrow> byte" where
  "dec_digit n = char_of (48 + n)"

text \<open>\<^verbatim>\<open>Display\<close> and \<^verbatim>\<open>{:o}\<close>: the digits in the radix, most significant first.\<close>

function show_radix :: "nat \<Rightarrow> nat \<Rightarrow> bytes" where
  "show_radix r n =
     (if n < r \<or> r < 2 then [dec_digit n] else show_radix r (n div r) @ [dec_digit (n mod r)])"
  by auto
termination
  by (relation "measure snd") auto

definition to_digit :: "nat \<Rightarrow> byte \<Rightarrow> nat option" where
  "to_digit r b =
     (if between (CHR ''0'') (CHR ''9'') b \<and> of_char b - 48 < r then Some (of_char b - 48) else None)"

fun read_digits :: "nat \<Rightarrow> nat \<Rightarrow> bytes \<Rightarrow> nat option" where
  "read_digits r acc [] = Some acc"
| "read_digits r acc (b # bs) =
     (case to_digit r b of None \<Rightarrow> None | Some d \<Rightarrow> read_digits r (acc * r + d) bs)"

text \<open>
  \<^verbatim>\<open>from_str_radix\<close> of an unsigned type of \<open>w\<close> bits, for radixes up to ten: a plus sign is
  allowed, an empty number and one that does not fit are errors.
\<close>

definition from_str_radix :: "nat \<Rightarrow> nat \<Rightarrow> bytes \<Rightarrow> nat option" where
  "from_str_radix w r s =
     (let d = (if starts_with s ''+'' then tl s else s)
      in if d = [] then None
         else case read_digits r 0 d of
                None \<Rightarrow> None
              | Some n \<Rightarrow> if n < 2 ^ w then Some n else None)"

definition parse_u32 :: "nat \<Rightarrow> bytes \<Rightarrow> u32 option" where
  "parse_u32 r s = map_option of_nat (from_str_radix 32 r s)"

definition parse_usize :: "bytes \<Rightarrow> nat option" where
  "parse_usize s = from_str_radix 64 10 s"

definition show_u32 :: "nat \<Rightarrow> u32 \<Rightarrow> bytes" where
  "show_u32 r w = show_radix r (unat w)"

definition show_bool :: "bool \<Rightarrow> bytes" where
  "show_bool b = (if b then ''true'' else ''false'')"

definition parse_bool :: "bytes \<Rightarrow> bool option" where
  "parse_bool s = (if s = ''true'' then Some True else if s = ''false'' then Some False else None)"

definition flag_char :: "bool \<Rightarrow> byte" where
  "flag_char v = (if v then CHR ''1'' else CHR ''0'')"

definition to_flag_str :: "open_flags \<Rightarrow> bytes" where
  "to_flag_str f =
     map flag_char [o_create f, o_excl f, o_trunc f, o_write f, o_directory f, o_nofollow f]"

fun flag_bits :: "bytes \<Rightarrow> bool list option" where
  "flag_bits [] = Some []"
| "flag_bits (c # cs) =
     (if c = CHR ''0'' then map_option (Cons False) (flag_bits cs)
      else if c = CHR ''1'' then map_option (Cons True) (flag_bits cs)
      else None)"

definition from_flag_str :: "bytes \<Rightarrow> open_flags option" where
  "from_flag_str s =
     (case flag_bits s of
        Some [a, b, c, d, e, f] \<Rightarrow>
          Some \<lparr>o_create = a, o_excl = b, o_trunc = c, o_write = d, o_directory = e, o_nofollow = f\<rparr>
      | _ \<Rightarrow> None)"

section \<open>Lines\<close>

fun path_operands :: "op \<Rightarrow> bytes list" where
  "path_operands (Symlink target path) = [target, path]"
| "path_operands (Rename from to) = [from, to]"
| "path_operands (MkstempAdopt name) = [name]"
| "path_operands (Write fd d) = []"
| "path_operands (Read fd len) = []"
| "path_operands Getcwd = []"
| "path_operands (CloseFd fd) = []"
| "path_operands (Mkdir path mode) = [path]"
| "path_operands (Open path flags) = [path]"
| "path_operands (Readlink path) = [path]"
| "path_operands (Unlink path) = [path]"
| "path_operands (Rmdir path) = [path]"
| "path_operands (Chdir path) = [path]"
| "path_operands (Realpath path) = [path]"
| "path_operands (Stat path) = [path]"
| "path_operands (Lstat path) = [path]"
| "path_operands (OpenDir path) = [path]"
| "path_operands (OpenAt dirfd path flags) = [path]"
| "path_operands (MkdirAt dirfd path) = [path]"
| "path_operands (UnlinkAt dirfd path rmdir) = [path]"
| "path_operands (Bind path) = [path]"
| "path_operands (Connect path) = [path]"
| "path_operands (ListDir path) = [path]"

fun to_line :: "op \<Rightarrow> bytes" where
  "to_line (Mkdir path mode) = ''mkdir '' @ escape path @ '' '' @ show_u32 8 mode"
| "to_line (Open path flags) = ''open '' @ escape path @ '' '' @ to_flag_str flags"
| "to_line (Write fd d) = ''write '' @ show_u32 10 fd @ '' '' @ escape d"
| "to_line (Read fd len) = ''read '' @ show_u32 10 fd @ '' '' @ show_radix 10 len"
| "to_line (Symlink target path) = ''symlink '' @ escape target @ '' '' @ escape path"
| "to_line (Readlink path) = ''readlink '' @ escape path"
| "to_line (Rename from to) = ''rename '' @ escape from @ '' '' @ escape to"
| "to_line (Unlink path) = ''unlink '' @ escape path"
| "to_line (Rmdir path) = ''rmdir '' @ escape path"
| "to_line (Chdir path) = ''chdir '' @ escape path"
| "to_line Getcwd = ''getcwd''"
| "to_line (Realpath path) = ''realpath '' @ escape path"
| "to_line (Stat path) = ''stat '' @ escape path"
| "to_line (Lstat path) = ''lstat '' @ escape path"
| "to_line (OpenDir path) = ''opendir '' @ escape path"
| "to_line (OpenAt dirfd path flags) =
     ''openat '' @ show_u32 10 dirfd @ '' '' @ escape path @ '' '' @ to_flag_str flags"
| "to_line (MkdirAt dirfd path) = ''mkdirat '' @ show_u32 10 dirfd @ '' '' @ escape path"
| "to_line (UnlinkAt dirfd path rmdir) =
     ''unlinkat '' @ show_u32 10 dirfd @ '' '' @ escape path @ '' '' @ show_bool rmdir"
| "to_line (Bind path) = ''bind '' @ escape path"
| "to_line (Connect path) = ''connect '' @ escape path"
| "to_line (MkstempAdopt name) = ''mkstemp '' @ escape name"
| "to_line (ListDir path) = ''list '' @ escape path"
| "to_line (CloseFd fd) = ''close '' @ show_u32 10 fd"

text \<open>\<^verbatim>\<open>dec(it.next()?)?\<close>, then the rest of the record.\<close>

type_synonym 'a tokens = "bytes list \<Rightarrow> ('a \<times> bytes list) option"

definition next_tok :: "(bytes \<Rightarrow> 'a option) \<Rightarrow> ('a \<Rightarrow> 'b tokens) \<Rightarrow> 'b tokens" where
  "next_tok rd k it =
     (case it of
        [] \<Rightarrow> None
      | t # it' \<Rightarrow> (case rd t of None \<Rightarrow> None | Some a \<Rightarrow> k a it'))"

definition built_op :: "'a \<Rightarrow> 'a tokens" where
  "built_op x it = Some (x, it)"

definition path_tok :: "(bytes \<Rightarrow> 'b tokens) \<Rightarrow> 'b tokens" where
  "path_tok = next_tok unescape_path"

definition fd_tok :: "(u32 \<Rightarrow> 'b tokens) \<Rightarrow> 'b tokens" where
  "fd_tok = next_tok (parse_u32 10)"

definition parse_command :: "bytes \<Rightarrow> op tokens" where
  "parse_command cmd =
     (if cmd = ''mkdir'' then
        path_tok (\<lambda>path. next_tok (parse_u32 8) (\<lambda>mode. built_op (Mkdir path mode)))
      else if cmd = ''open'' then
        path_tok (\<lambda>path. next_tok from_flag_str (\<lambda>flags. built_op (Open path flags)))
      else if cmd = ''write'' then fd_tok (\<lambda>fd. next_tok unescape (\<lambda>d. built_op (Write fd d)))
      else if cmd = ''read'' then fd_tok (\<lambda>fd. next_tok parse_usize (\<lambda>len. built_op (Read fd len)))
      else if cmd = ''symlink'' then
        path_tok (\<lambda>target. path_tok (\<lambda>path. built_op (Symlink target path)))
      else if cmd = ''readlink'' then path_tok (\<lambda>path. built_op (Readlink path))
      else if cmd = ''rename'' then path_tok (\<lambda>from. path_tok (\<lambda>to. built_op (Rename from to)))
      else if cmd = ''unlink'' then path_tok (\<lambda>path. built_op (Unlink path))
      else if cmd = ''rmdir'' then path_tok (\<lambda>path. built_op (Rmdir path))
      else if cmd = ''chdir'' then path_tok (\<lambda>path. built_op (Chdir path))
      else if cmd = ''getcwd'' then built_op Getcwd
      else if cmd = ''realpath'' then path_tok (\<lambda>path. built_op (Realpath path))
      else if cmd = ''stat'' then path_tok (\<lambda>path. built_op (Stat path))
      else if cmd = ''lstat'' then path_tok (\<lambda>path. built_op (Lstat path))
      else if cmd = ''opendir'' then path_tok (\<lambda>path. built_op (OpenDir path))
      else if cmd = ''openat'' then
        fd_tok (\<lambda>dirfd. path_tok (\<lambda>path.
          next_tok from_flag_str (\<lambda>flags. built_op (OpenAt dirfd path flags))))
      else if cmd = ''mkdirat'' then
        fd_tok (\<lambda>dirfd. path_tok (\<lambda>path. built_op (MkdirAt dirfd path)))
      else if cmd = ''unlinkat'' then
        fd_tok (\<lambda>dirfd. path_tok (\<lambda>path.
          next_tok parse_bool (\<lambda>rmdir. built_op (UnlinkAt dirfd path rmdir))))
      else if cmd = ''bind'' then path_tok (\<lambda>path. built_op (Bind path))
      else if cmd = ''connect'' then path_tok (\<lambda>path. built_op (Connect path))
      else if cmd = ''mkstemp'' then path_tok (\<lambda>name. built_op (MkstempAdopt name))
      else if cmd = ''list'' then path_tok (\<lambda>path. built_op (ListDir path))
      else if cmd = ''close'' then fd_tok (\<lambda>fd. built_op (CloseFd fd))
      else (\<lambda>it. None))"

definition parse_tokens :: "op tokens" where
  "parse_tokens = next_tok Some parse_command"

definition from_line :: "bytes \<Rightarrow> op option" where
  "from_line s =
     (case parse_tokens (split_on space s) of
        Some (x, []) \<Rightarrow> Some x
      | _ \<Rightarrow> None)"

section \<open>Token codecs\<close>

text \<open>
  The contract of a field of a line: the reader takes back what the writer wrote, for the
  values that a line can carry, and the text is one token.
\<close>

locale token_codec =
  fixes wr :: "'a \<Rightarrow> bytes" and rd :: "bytes \<Rightarrow> 'a option" and valid :: "'a \<Rightarrow> bool"
  assumes read_back: "rd (wr x) = (if valid x then Some x else None)"
    and one_token: "space \<notin> set (wr x)"
begin

lemma next_tok_back:
  "next_tok rd k (wr x # it) = (if valid x then k x it else None)"
  by (simp add: next_tok_def read_back)

lemma split_token: "split_on space (wr x) = [wr x]"
  by (rule split_on_no_sep [OF one_token])

lemma split_first: "split_on space (wr x @ space # r) = wr x # split_on space r"
  by (simp add: split_on_append_sep split_token)

lemma written_inj: "valid x \<Longrightarrow> wr x = wr y \<Longrightarrow> x = y"
  by (metis option.inject option.distinct(1) read_back)

end

text \<open>Escaped bytes.\<close>

lemma char_neq: "(of_char a :: nat) \<noteq> of_char b \<Longrightarrow> a \<noteq> b"
  by blast

lemma hex_digit_facts:
  assumes "n < 16"
  shows "hex_val (hex_digit n) = Some n" "hex_digit n \<noteq> space"
proof -
  have c: "of_char (hex_digit n) = (if n < 10 then 48 + n else 87 + n)"
    using assms by (simp add: hex_digit_def)
  then show "hex_val (hex_digit n) = Some n"
    using assms by (auto simp: hex_val_def between_def)
  show "hex_digit n \<noteq> space" by (rule char_neq) (use c in simp)
qed

lemma hex2_digits:
  "hex_val (hex_digit (of_char b div 16)) = Some (of_char b div 16)"
  "hex_val (hex_digit (of_char b mod 16)) = Some (of_char b mod 16)"
  "space \<notin> set (hex2 b)"
proof -
  have "of_char b div (16 :: nat) < 16" using nat_of_char_less_256 [of b] by linarith
  with hex_digit_facts [of "of_char b div 16"] hex_digit_facts [of "of_char b mod 16"]
  show "hex_val (hex_digit (of_char b div 16)) = Some (of_char b div 16)"
    "hex_val (hex_digit (of_char b mod 16)) = Some (of_char b mod 16)" "space \<notin> set (hex2 b)"
    by (simp_all add: hex2_def eq_commute [of space])
qed

lemma plain_not_special: "is_plain b \<Longrightarrow> b \<noteq> CHR ''%'' \<and> b \<noteq> space"
  by (auto simp: is_plain_def is_ascii_alphanumeric_def between_def)

lemma unescape_escape: "unescape (escape bs) = Some bs"
proof (induction bs)
  case (Cons b bs)
  have "char_of (of_char b div 16 * 16 + of_char b mod 16 :: nat) = b"
    by (simp add: div_mult_mod_eq)
  with Cons show ?case
    using hex2_digits [of b] plain_not_special [of b] by (simp add: hex2_def)
qed simp

lemma escape_no_space: "space \<notin> set (escape bs)"
  using hex2_digits(3) plain_not_special by (induction bs) auto

interpretation data_codec: token_codec escape unescape "\<lambda>_. True"
  by unfold_locales (simp_all add: unescape_escape escape_no_space)

interpretation path_codec: token_codec escape unescape_path "\<lambda>p. nul \<notin> set p"
  by unfold_locales (simp_all add: unescape_path_def unescape_escape escape_no_space)

text \<open>Numbers.\<close>

lemma dec_digit_facts:
  assumes "n < r" "r \<le> 10"
  shows "to_digit r (dec_digit n) = Some n" "dec_digit n \<noteq> space" "dec_digit n \<noteq> CHR ''+''"
proof -
  have c: "of_char (dec_digit n) = 48 + n" using assms by (simp add: dec_digit_def)
  then show "to_digit r (dec_digit n) = Some n"
    using assms by (simp add: to_digit_def between_def)
  show "dec_digit n \<noteq> space" "dec_digit n \<noteq> CHR ''+''"
    by (rule char_neq, use c in simp)+
qed

lemma read_digits_append:
  "read_digits r acc (xs @ ys) =
     (case read_digits r acc xs of None \<Rightarrow> None | Some a \<Rightarrow> read_digits r a ys)"
  by (induction xs arbitrary: acc) (auto split: option.splits)

declare show_radix.simps [simp del]

lemma show_radix_facts:
  assumes "2 \<le> r" "r \<le> 10"
  shows "read_digits r 0 (show_radix r n) = Some n \<and> space \<notin> set (show_radix r n) \<and>
    show_radix r n \<noteq> [] \<and> hd (show_radix r n) \<noteq> CHR ''+''"
proof (induction n rule: less_induct)
  case (less n)
  show ?case
  proof (cases "n < r")
    case True
    then show ?thesis
      using dec_digit_facts [OF True assms(2)] by (subst (1 2 3 4) show_radix.simps) simp
  next
    case False
    with assms have "n div r < n" by (intro div_less_dividend) auto
    note IH = less.IH [OF this]
    have d: "n mod r < r" using assms by simp
    from False assms have e: "show_radix r n = show_radix r (n div r) @ [dec_digit (n mod r)]"
      by (subst show_radix.simps) simp
    show ?thesis
      using IH dec_digit_facts [OF d assms(2)] by (simp add: e read_digits_append div_mult_mod_eq)
  qed
qed

lemma from_str_radix_show:
  assumes "2 \<le> r" "r \<le> 10"
  shows "from_str_radix w r (show_radix r n) = (if n < 2 ^ w then Some n else None)"
proof -
  note f = show_radix_facts [OF assms, of n]
  then have "\<not> starts_with (show_radix r n) ''+''" by (cases "show_radix r n") auto
  with f show ?thesis by (simp add: from_str_radix_def)
qed

lemma u32_range: "unat (w :: u32) < 4294967296"
  using unsigned_less [of w, where 'a = nat] by simp

lemma u32_codec: "2 \<le> r \<Longrightarrow> r \<le> 10 \<Longrightarrow> token_codec (show_u32 r) (parse_u32 r) (\<lambda>_. True)"
  by unfold_locales
     (use show_radix_facts in
       \<open>auto simp: show_u32_def parse_u32_def from_str_radix_show u32_range\<close>)

interpretation dec_codec: token_codec "show_u32 10" "parse_u32 10" "\<lambda>_. True"
  by (rule u32_codec) simp_all

interpretation oct_codec: token_codec "show_u32 8" "parse_u32 8" "\<lambda>_. True"
  by (rule u32_codec) simp_all

interpretation usize_codec: token_codec "show_radix 10" parse_usize "\<lambda>n. n < 2 ^ 64"
  by unfold_locales (use show_radix_facts [of 10] in \<open>auto simp: parse_usize_def from_str_radix_show\<close>)

text \<open>Booleans and flags.\<close>

interpretation bool_codec: token_codec show_bool parse_bool "\<lambda>_. True"
  by unfold_locales (auto simp: show_bool_def parse_bool_def)

lemma flag_bits_map: "flag_bits (map flag_char bs) = Some bs"
  by (induction bs) (auto simp: flag_char_def)

interpretation flags_codec: token_codec to_flag_str from_flag_str "\<lambda>_. True"
proof unfold_locales
  fix f :: open_flags
  show "from_flag_str (to_flag_str f) = (if True then Some f else None)"
    unfolding from_flag_str_def to_flag_str_def flag_bits_map by simp
  show "space \<notin> set (to_flag_str f)"
    by (simp add: to_flag_str_def flag_char_def)
qed

section \<open>Round trips\<close>

text \<open>The operations that a line can carry.\<close>

definition line_safe :: "op \<Rightarrow> bool" where
  "line_safe x =
     (list_all (\<lambda>p. nul \<notin> set p) (path_operands x) \<and>
      (case x of Read fd len \<Rightarrow> len < 2 ^ 64 | _ \<Rightarrow> True))"

lemma split_command:
  "space \<notin> set cmd \<Longrightarrow> split_on space (cmd @ space # r) = cmd # split_on space r"
  by (simp add: split_on_append_sep split_on_no_sep)

lemmas split_tokens = data_codec.split_token data_codec.split_first dec_codec.split_token
  dec_codec.split_first oct_codec.split_token usize_codec.split_token bool_codec.split_token
  flags_codec.split_token

lemmas tokens_back = path_codec.next_tok_back data_codec.next_tok_back dec_codec.next_tok_back
  oct_codec.next_tok_back usize_codec.next_tok_back bool_codec.next_tok_back
  flags_codec.next_tok_back

text \<open>A line splits into its command and its fields.\<close>

fun op_tokens :: "op \<Rightarrow> bytes list" where
  "op_tokens (Mkdir path mode) = [''mkdir'', escape path, show_u32 8 mode]"
| "op_tokens (Open path flags) = [''open'', escape path, to_flag_str flags]"
| "op_tokens (Write fd d) = [''write'', show_u32 10 fd, escape d]"
| "op_tokens (Read fd len) = [''read'', show_u32 10 fd, show_radix 10 len]"
| "op_tokens (Symlink target path) = [''symlink'', escape target, escape path]"
| "op_tokens (Readlink path) = [''readlink'', escape path]"
| "op_tokens (Rename from to) = [''rename'', escape from, escape to]"
| "op_tokens (Unlink path) = [''unlink'', escape path]"
| "op_tokens (Rmdir path) = [''rmdir'', escape path]"
| "op_tokens (Chdir path) = [''chdir'', escape path]"
| "op_tokens Getcwd = [''getcwd'']"
| "op_tokens (Realpath path) = [''realpath'', escape path]"
| "op_tokens (Stat path) = [''stat'', escape path]"
| "op_tokens (Lstat path) = [''lstat'', escape path]"
| "op_tokens (OpenDir path) = [''opendir'', escape path]"
| "op_tokens (OpenAt dirfd path flags) =
     [''openat'', show_u32 10 dirfd, escape path, to_flag_str flags]"
| "op_tokens (MkdirAt dirfd path) = [''mkdirat'', show_u32 10 dirfd, escape path]"
| "op_tokens (UnlinkAt dirfd path rmdir) =
     [''unlinkat'', show_u32 10 dirfd, escape path, show_bool rmdir]"
| "op_tokens (Bind path) = [''bind'', escape path]"
| "op_tokens (Connect path) = [''connect'', escape path]"
| "op_tokens (MkstempAdopt name) = [''mkstemp'', escape name]"
| "op_tokens (ListDir path) = [''list'', escape path]"
| "op_tokens (CloseFd fd) = [''close'', show_u32 10 fd]"

lemma split_to_line: "split_on space (to_line x) = op_tokens x"
  by (cases x) (simp_all add: split_tokens)

lemma parse_op_tokens:
  "parse_tokens (op_tokens x) = (if line_safe x then Some (x, []) else None)"
  by (cases x)
     (simp_all add: parse_tokens_def next_tok_def [of Some] parse_command_def path_tok_def fd_tok_def
       tokens_back built_op_def line_safe_def)

text \<open>
  C13 (roundtrip). \<^verbatim>\<open>Op::from_line\<close> takes back every line that \<^verbatim>\<open>Op::to_line\<close> writes,
  exactly when no path operand contains a NUL and a read length fits \<^verbatim>\<open>usize\<close>; otherwise it
  rejects the line, and never returns a different operation.
\<close>

theorem from_line_to_line: "from_line (to_line x) = (if line_safe x then Some x else None)"
  by (simp add: from_line_def split_to_line parse_op_tokens)

lemma unescape_path_no_nul: "unescape_path s = Some p \<Longrightarrow> nul \<notin> set p"
  by (auto simp: unescape_path_def split: option.splits if_splits)

lemma next_tok_SomeD:
  "next_tok rd k it = Some r \<Longrightarrow> \<exists>t it' a. it = t # it' \<and> rd t = Some a \<and> k a it' = Some r"
  by (auto simp: next_tok_def split: list.splits option.splits)

text \<open>
  No line, however malformed, makes \<^verbatim>\<open>Op::from_line\<close> return an operation with a NUL
  in a path operand, or with a read length that does not fit \<^verbatim>\<open>usize\<close>.
\<close>

theorem from_line_safe:
  assumes "from_line s = Some x"
  shows "line_safe x"
proof -
  obtain cmd it where "parse_command cmd it = Some (x, [])"
    using assms
    by (auto simp: from_line_def parse_tokens_def split: option.splits list.splits
        dest!: next_tok_SomeD)
  then show ?thesis
    unfolding parse_command_def path_tok_def fd_tok_def
    by (simp split: if_splits)
       (auto simp: built_op_def line_safe_def parse_usize_def from_str_radix_def Let_def
         dest!: next_tok_SomeD unescape_path_no_nul split: if_splits option.splits)
qed

lemma read_plus: "parse_u32 10 ''+3'' = Some 3" "show_u32 10 3 = ''3''"
  by (simp_all add: parse_u32_def from_str_radix_def to_digit_def between_def show_u32_def
      show_radix.simps dec_digit_def char_of_def bit_0)

theorem from_line_safe_witness: "line_safe (CloseFd 3)"
proof -
  have "from_line ''close +3'' = Some (CloseFd 3)"
    by (simp add: from_line_def parse_tokens_def next_tok_def parse_command_def fd_tok_def
        read_plus built_op_def)
  then show ?thesis by (rule from_line_safe)
qed

text \<open>
  \<^verbatim>\<open>Op::from_line\<close> accepts lines that \<^verbatim>\<open>Op::to_line\<close> never writes, although its
  documentation says that it returns \<^verbatim>\<open>None\<close> for them: the number parser of the standard
  library takes a plus sign.
\<close>

theorem from_line_not_strict:
  "from_line ''close +3'' = Some (CloseFd 3) \<and> (\<forall>x. to_line x \<noteq> ''close +3'')"
proof -
  have e: "from_line ''close +3'' = Some (CloseFd 3)"
    by (simp add: from_line_def parse_tokens_def next_tok_def parse_command_def fd_tok_def
        read_plus built_op_def)
  have "to_line x \<noteq> ''close +3''" for x
  proof
    assume x: "to_line x = ''close +3''"
    with split_to_line [of x] parse_op_tokens [of x] e have "x = CloseFd 3"
      by (auto simp: from_line_def split: if_splits)
    with x show False by (simp add: read_plus)
  qed
  with e show ?thesis by blast
qed

section \<open>Listings as JSON\<close>

definition hex4 :: "byte \<Rightarrow> bytes" where
  "hex4 b = ''00'' @ hex2 b"

definition json_byte :: "byte \<Rightarrow> bytes" where
  "json_byte b =
     (if b = CHR 0x22 then [CHR 0x5C, CHR 0x22]
      else if b = CHR 0x5C then [CHR 0x5C, CHR 0x5C]
      else if b = CHR 0x08 then [CHR 0x5C, CHR ''b'']
      else if b = CHR 0x0C then [CHR 0x5C, CHR ''f'']
      else if b = CHR 0x0A then [CHR 0x5C, CHR ''n'']
      else if b = CHR 0x0D then [CHR 0x5C, CHR ''r'']
      else if b = CHR 0x09 then [CHR 0x5C, CHR ''t'']
      else if between (CHR 0x20) (CHR 0x7E) b then [b]
      else CHR 0x5C # CHR ''u'' # hex4 b)"

definition json_escape :: "bytes \<Rightarrow> bytes" where
  "json_escape bs = concat (map json_byte bs)"

text \<open>A JSON string literal.\<close>

definition quoted :: "bytes \<Rightarrow> bytes" where
  "quoted s = CHR 0x22 # s @ [CHR 0x22]"

fun json_kind :: "entry_kind \<Rightarrow> bytes" where
  "json_kind EDir = quoted ''dir''"
| "json_kind (EFile len) =
     ''{'' @ quoted ''file'' @ '':{'' @ quoted ''len'' @ '':'' @ show_radix 10 len @ ''}}''"
| "json_kind (ESymlink target) =
     ''{'' @ quoted ''symlink'' @ '':{'' @ quoted ''target'' @ '':'' @ quoted (json_escape target) @ ''}}''"
| "json_kind ESocket = quoted ''socket''"

definition json_entry :: "entry \<Rightarrow> bytes" where
  "json_entry e =
     ''{'' @ quoted ''path'' @ '':'' @ quoted (json_escape (e_path e)) @ '','' @
     quoted ''kind'' @ '':'' @ json_kind (e_kind e) @ ''}''"

fun json_entries :: "entry list \<Rightarrow> bytes" where
  "json_entries [] = []"
| "json_entries [e] = json_entry e"
| "json_entries (e # f # r) = json_entry e @ '','' @ json_entries (f # r)"

definition tree_json :: "model \<Rightarrow> view \<Rightarrow> bytes \<Rightarrow> bytes res" where
  "tree_json m v at = bind_res (tree m v at) (\<lambda>es. Ok (''['' @ json_entries es @ '']''))"

text \<open>
  The string that an escaped text stands for. It ends at the closing quote, which it returns
  with what follows.
\<close>

fun json_string :: "bytes \<Rightarrow> (bytes \<times> bytes) option" where
  "json_string [] = None"
| "json_string (b # bs) =
     (if b = CHR 0x22 then Some ([], bs)
      else if b = CHR 0x5C then
        (case bs of
           [] \<Rightarrow> None
         | c # cs \<Rightarrow>
             if c = CHR ''u'' then
               (case cs of
                  z1 # z2 # x # y # r \<Rightarrow>
                    (case (hex_val x, hex_val y) of
                       (Some hi, Some lo) \<Rightarrow>
                         map_option (map_prod (Cons (char_of (hi * 16 + lo))) id) (json_string r)
                     | _ \<Rightarrow> None)
                | _ \<Rightarrow> None)
             else
               map_option (map_prod (Cons
                 (if c = CHR ''b'' then CHR 0x08 else if c = CHR ''f'' then CHR 0x0C
                  else if c = CHR ''n'' then CHR 0x0A else if c = CHR ''r'' then CHR 0x0D
                  else if c = CHR ''t'' then CHR 0x09 else c)) id) (json_string cs))
      else map_option (map_prod (Cons b) id) (json_string bs))"

lemma json_byte_back:
  "json_string (json_byte b @ r) = map_option (map_prod (Cons b) id) (json_string r)"
proof -
  have "char_of (of_char b div 16 * 16 + of_char b mod 16 :: nat) = b"
    by (simp add: div_mult_mod_eq)
  then show ?thesis
    using hex2_digits(1,2) [of b] by (simp add: json_byte_def hex4_def hex2_def)
qed

text \<open>
  The escaping of paths and link targets in the JSON listing loses nothing: read
  as a JSON string, up to the closing quote, the text is the bytes again, whatever they are
  and whatever follows.
\<close>

theorem json_escape_back:
  "json_string (json_escape bs @ CHR 0x22 # r) = Some (bs, r)"
  by (induction bs) (simp_all add: json_escape_def json_byte_back)

end
