(* ===== verification/Rng_Errno.thy ===== *)
theory Rng_Errno
  imports Fs_Model
begin

text \<open>
  The pseudo-random generator \<^verbatim>\<open>Rng\<close> (splitmix64, with the wrap-around of 64-bit words) and
  the errno comparison \<^verbatim>\<open>errno_equiv\<close> of \<^verbatim>\<open>crates/world-fsmodel/src/lib.rs\<close>, which the
  fuzz driver uses to generate runs and to compare the model with a real kernel.
\<close>

unbundle bit_operations_syntax

section \<open>The generator\<close>

record rng =
  rng_state :: u64

definition rng_new :: "u64 \<Rightarrow> rng" where
  "rng_new seed = \<lparr>rng_state = seed\<rparr>"

definition mix1 :: "u64 \<Rightarrow> u64" where
  "mix1 z = (z XOR drop_bit 30 z) * 0xBF58476D1CE4E5B9"

definition mix2 :: "u64 \<Rightarrow> u64" where
  "mix2 z = (z XOR drop_bit 27 z) * 0x94D049BB133111EB"

definition next_u64 :: "rng \<Rightarrow> rng \<times> u64" where
  "next_u64 r =
     (let s = rng_state r + 0x9E3779B97F4A7C15; z = mix2 (mix1 s)
      in (r\<lparr>rng_state := s\<rparr>, z XOR drop_bit 31 z))"

definition below :: "rng \<Rightarrow> u64 \<Rightarrow> rng \<times> u64" where
  "below r n = (if n = 0 then (r, 0) else let (r', z) = next_u64 r in (r', z mod n))"

definition chance :: "rng \<Rightarrow> u64 \<Rightarrow> u64 \<Rightarrow> rng \<times> bool" where
  "chance r p_num p_den =
     (if p_den = 0 then (r, False) else let (r', z) = below r p_den in (r', z < p_num))"

lemma xorshift_inj:
  fixes z w :: u64
  assumes k: "0 < k" and e: "z XOR drop_bit k z = w XOR drop_bit k w"
  shows "z = w"
proof (rule bit_word_eqI)
  have step: "(bit z i \<noteq> bit z (i + k)) = (bit w i \<noteq> bit w (i + k))" for i
    using arg_cong [OF e, of "\<lambda>x. bit x i"] by (simp add: bit_xor_iff bit_drop_bit_eq ac_simps)
  fix n
  show "bit z n = bit w n"
  proof (induction "64 - n" arbitrary: n rule: less_induct)
    case less
    show ?case
    proof (cases "n < 64")
      case True
      with k have "bit z (n + k) = bit w (n + k)" by (intro less) simp
      with step [of n] show ?thesis by blast
    next
      case False
      then show ?thesis by (auto dest: bit_imp_le_length)
    qed
  qed
qed

lemma mult_inj:
  fixes z w :: u64
  assumes "c * c' = 1" "z * c = w * c"
  shows "z = w"
proof -
  have "z * c * c' = w * c * c'" by (simp add: assms(2))
  then show ?thesis by (simp add: mult.assoc assms(1))
qed

lemma mix1_inj: "mix1 z = mix1 w \<Longrightarrow> z = w"
  unfolding mix1_def
  by (rule xorshift_inj [of 30], simp, rule mult_inj [where c' = "0x96DE1B173F119089"]) simp_all

lemma mix2_inj: "mix2 z = mix2 w \<Longrightarrow> z = w"
  unfolding mix2_def
  by (rule xorshift_inj [of 27], simp, rule mult_inj [where c' = "0x319642B2D24D8EC3"]) simp_all

text \<open>
  The generator never collapses seeds: two states with the same output are the
  same state, so over its period of $2^{64}$ steps it returns every 64-bit value exactly once.
\<close>

theorem next_u64_inj:
  assumes "snd (next_u64 r) = snd (next_u64 r')"
  shows "rng_state r = rng_state r'"
proof -
  have "mix2 (mix1 (rng_state r + 0x9E3779B97F4A7C15)) = mix2 (mix1 (rng_state r' + 0x9E3779B97F4A7C15))"
    by (rule xorshift_inj [of 31]) (use assms in \<open>simp_all add: next_u64_def Let_def\<close>)
  then have "rng_state r + 0x9E3779B97F4A7C15 = rng_state r' + 0x9E3779B97F4A7C15"
    by (rule mix1_inj [OF mix2_inj])
  then show ?thesis by simp
qed

theorem next_u64_inj_witness:
  "snd (next_u64 (rng_new 7)) = snd (next_u64 (rng_new 7)) \<and> rng_state (rng_new 7) = 7"
  using next_u64_inj [of "rng_new 7" "rng_new 7"] by (simp add: rng_new_def)

text \<open>
  \<^verbatim>\<open>below(n)\<close> stays below \<open>n\<close>, and \<^verbatim>\<open>chance(p, q)\<close> is never true for \<open>p = 0\<close>
  and always true for \<open>0 < q \<le> p\<close>; a zero bound draws nothing.
\<close>

theorem below_chance:
  "(n \<noteq> 0 \<longrightarrow> snd (below r n) < n) \<and> below r 0 = (r, 0) \<and> \<not> snd (chance r 0 q) \<and>
   (q \<noteq> 0 \<and> q \<le> p \<longrightarrow> snd (chance r p q))"
proof -
  have b: "snd (below r n) < n" if "n \<noteq> 0" for n
    using that by (simp add: below_def split_beta word_mod_less_divisor word_neq_0_conv)
  then have "snd (below r q) < p" if "q \<noteq> 0" "q \<le> p"
    using that by (meson order.strict_trans2)
  with b show ?thesis by (auto simp: chance_def split_beta) (simp add: below_def)
qed

theorem below_chance_witness: "snd (below (rng_new 7) 10) < 10 \<and> snd (chance (rng_new 7) 3 2)"
  using below_chance [of 10 "rng_new 7" 2 3] by simp

section \<open>Errno classes\<close>

fun removes_dir :: "op \<Rightarrow> bool" where
  "removes_dir (Rmdir path) = True"
| "removes_dir (UnlinkAt dirfd path rmdir) = rmdir"
| "removes_dir (Rename from to) = True"
| "removes_dir _ = False"

fun unlinks :: "op \<Rightarrow> bool" where
  "unlinks (Unlink path) = True"
| "unlinks (UnlinkAt dirfd path rmdir) = (\<not> rmdir)"
| "unlinks _ = False"

definition errno_equiv :: "bool \<Rightarrow> op \<Rightarrow> errno \<Rightarrow> errno \<Rightarrow> bool" where
  "errno_equiv linux x a b =
     (let pair = (\<lambda>x y. (a = x \<and> b = y) \<or> (a = y \<and> b = x))
      in if a = b then True
         else if removes_dir x \<and> pair ENOTEMPTY EEXIST then True
         else if \<not> linux \<and> unlinks x \<and> pair EISDIR EPERM then True
         else False)"

text \<open>
  For each operation and platform \<^verbatim>\<open>errno_equiv\<close> is an equivalence relation, so
  that agreement with the kernel does not depend on the order of the comparison, and it never
  identifies success with an error.
\<close>

theorem errno_equiv_equivp:
  "equivp (errno_equiv linux x) \<and> (errno_equiv linux x E_OK e \<longleftrightarrow> e = E_OK)"
proof -
  have "\<not> (removes_dir x \<and> unlinks x)" by (cases x) simp_all
  then show ?thesis
    by (intro conjI equivpI reflpI sympI transpI)
       (auto simp: errno_equiv_def Let_def split: if_splits)
qed

end
