(* ===== verification/Tmp_Path.thy ===== *)
theory Tmp_Path
  imports Prelude
begin

text \<open>
  The mapping of host temporary paths below a workspace root
  (\<^verbatim>\<open>crates/world-tmp-path/src/lib.rs\<close>). A buffer argument \<^verbatim>\<open>out: &mut [u8]\<close> that is
  only written is its capacity, and the text written up to the terminating NUL is the result;
  a buffer that is read and rewritten in place is the list of its bytes. An index out of range
  is \<open>Abort Panic\<close>. The kernel (\<^verbatim>\<open>kernel_full_path\<close>, \<^verbatim>\<open>real_base\<close>) is a parameter: the
  answer of the \<open>k\<close>-th call to the text it is given, since \<^verbatim>\<open>resolve: &mut impl FnMut\<close> may
  answer differently each time.
\<close>

section \<open>Buffers\<close>

definition slice :: "nat \<Rightarrow> nat \<Rightarrow> 'a list \<Rightarrow> 'a list res" where
  "slice a b xs = (if a \<le> b \<and> b \<le> length xs then Ok (take (b - a) (drop a xs)) else Abort Panic)"

text \<open>\<^verbatim>\<open>buf[at..at + src.len()].copy_from_slice(src)\<close>.\<close>

definition copy_at :: "nat \<Rightarrow> 'a list \<Rightarrow> 'a list \<Rightarrow> 'a list res" where
  "copy_at at src buf =
     (if at + length src \<le> length buf
      then Ok (take at buf @ src @ drop (at + length src) buf)
      else Abort Panic)"

text \<open>\<^verbatim>\<open>buf.copy_within(a..b, dest)\<close>.\<close>

definition copy_within :: "nat \<Rightarrow> nat \<Rightarrow> nat \<Rightarrow> 'a list \<Rightarrow> 'a list res" where
  "copy_within a b dest buf = bind_res (slice a b buf) (\<lambda>src. copy_at dest src buf)"

section \<open>Constants and prefixes\<close>

text \<open>\<^verbatim>\<open>libc::PATH_MAX\<close> on macOS, the platform whose processes the mapping serves.\<close>

definition PATH_MAX :: nat where
  "PATH_MAX = 1024"

definition MAX_ROOT_LEN :: nat where
  "MAX_ROOT_LEN = 512"

definition HOST_ROOTS :: "(bytes \<times> bytes) list" where
  "HOST_ROOTS =
     [(''/private/var/tmp'', ''/var/tmp''), (''/private/tmp'', ''/tmp''),
      (''/var/tmp'', ''/var/tmp''), (''/tmp'', ''/tmp'')]"

definition CANONICAL :: "(bytes \<times> bytes) list" where
  "CANONICAL = [(''/var/tmp'', ''/private/var/tmp''), (''/tmp'', ''/private/tmp'')]"

definition component_rest :: "bytes \<Rightarrow> bytes \<Rightarrow> bytes option" where
  "component_rest path prefix =
     (case strip_prefix path prefix of
        None \<Rightarrow> None
      | Some r \<Rightarrow> if r = [] \<or> hd r = slash then Some r else None)"

definition valid_root :: "bytes \<Rightarrow> bool" where
  "valid_root root =
     (8 \<le> length root \<and> length root \<le> MAX_ROOT_LEN \<and> starts_with root ''/'' \<and>
      \<not> ends_with root ''/'' \<and> nul \<notin> set root \<and>
      list_all (\<lambda>c. c \<noteq> [] \<and> c \<noteq> ''.'' \<and> c \<noteq> ''..'') (split_on slash (drop 1 root)) \<and>
      list_all (\<lambda>(host, _). component_rest root host = None) HOST_ROOTS)"

definition textual_parent :: "bytes \<Rightarrow> bytes" where
  "textual_parent path =
     (case rposition slash path of
        Some i \<Rightarrow> if i = 0 then take 1 path else take i path
      | None \<Rightarrow> ''/'')"

definition has_tmp_component :: "bytes \<Rightarrow> bool" where
  "has_tmp_component path = list_ex (\<lambda>c. c = ''tmp'') (split_on slash path)"

definition dotdot_count :: "bytes \<Rightarrow> nat" where
  "dotdot_count path = length (filter (\<lambda>c. c = ''..'') (split_on slash path))"

section \<open>Unmapping\<close>

fun canonical_of :: "(bytes \<times> bytes) list \<Rightarrow> bytes \<Rightarrow> (bytes \<times> bytes) option" where
  "canonical_of [] r = None"
| "canonical_of ((sub, canonical) # t) r =
     (case component_rest r sub of
        Some r' \<Rightarrow> Some (canonical, r')
      | None \<Rightarrow> canonical_of t r)"

definition unmap_in_place :: "bytes \<Rightarrow> bytes \<Rightarrow> nat \<Rightarrow> (bytes \<times> nat) option res" where
  "unmap_in_place root buf len =
     bind_res (slice 0 len buf) (\<lambda>text.
       case component_rest text root of
         None \<Rightarrow> Ok None
       | Some r \<Rightarrow>
           (case canonical_of CANONICAL r of
              None \<Rightarrow> Ok None
            | Some (canonical, r') \<Rightarrow>
                let start = len - length r';
                    new_len = length canonical + len - start
                in bind_res (copy_within start len (length canonical) buf) (\<lambda>buf1.
                   bind_res (copy_at 0 canonical buf1) (\<lambda>buf2.
                     Ok (Some (buf2, new_len))))))"

text \<open>\<^verbatim>\<open>unmap_in_place(root, buf, len).unwrap_or(len)\<close>.\<close>

definition unmap_or :: "bytes \<Rightarrow> bytes \<Rightarrow> nat \<Rightarrow> (bytes \<times> nat) res" where
  "unmap_or root buf len =
     bind_res (unmap_in_place root buf len) (\<lambda>r.
       case r of Some x \<Rightarrow> Ok x | None \<Rightarrow> Ok (buf, len))"

definition copy_cwd :: "bytes \<Rightarrow> bytes \<Rightarrow> nat \<Rightarrow> bytes \<Rightarrow> (bytes \<times> nat) res" where
  "copy_cwd root local len dst =
     bind_res (unmap_or root local len) (\<lambda>(local', n).
       if length dst < n + 1 then Err ERANGE
       else
         bind_res (slice 0 n local') (\<lambda>text.
         bind_res (copy_at 0 text dst) (\<lambda>dst1.
         bind_res (copy_at n [nul] dst1) (\<lambda>dst2. Ok (dst2, n)))))"

definition copy_link :: "bytes \<Rightarrow> bytes \<Rightarrow> nat \<Rightarrow> bytes \<Rightarrow> (bytes \<times> nat) res" where
  "copy_link root local len dst =
     bind_res (unmap_or root local len) (\<lambda>(local', n).
       let copied = min n (length dst)
       in bind_res (slice 0 copied local') (\<lambda>text.
          bind_res (copy_at 0 text dst) (\<lambda>dst1. Ok (dst1, copied))))"

section \<open>Socket addresses\<close>

definition SUN_PATH_OFFSET :: nat where
  "SUN_PATH_OFFSET = 2"

text \<open>\<^verbatim>\<open>AF_UNIX\<close> is 1.\<close>

definition AF_UNIX :: nat where
  "AF_UNIX = 1"

definition unix_path :: "bytes \<Rightarrow> bytes option" where
  "unix_path sa =
     (if length sa \<le> SUN_PATH_OFFSET \<or> of_char (sa ! 1) \<noteq> AF_UNIX then None
      else Some (takeWhile (\<lambda>b. b \<noteq> nul) (drop SUN_PATH_OFFSET sa)))"

definition unmap_sockaddr :: "bytes \<Rightarrow> bytes \<Rightarrow> nat \<Rightarrow> (bytes \<times> nat) option res" where
  "unmap_sockaddr root sa reported =
     (if reported \<le> SUN_PATH_OFFSET \<or> length sa < reported \<or> of_char (sa ! 1) \<noteq> AF_UNIX
      then Ok None
      else
        (let region = reported - SUN_PATH_OFFSET;
             path_len = length (takeWhile (\<lambda>b. b \<noteq> nul) (take region (drop SUN_PATH_OFFSET sa)))
         in bind_res (unmap_in_place root (drop SUN_PATH_OFFSET sa) path_len) (\<lambda>r.
              case r of
                None \<Rightarrow> Ok None
              | Some (tail, new_len) \<Rightarrow>
                  let sa1 = take SUN_PATH_OFFSET sa @ tail
                  in bind_res (slice (SUN_PATH_OFFSET + new_len) reported sa1) (\<lambda>freed.
                     bind_res (copy_at (SUN_PATH_OFFSET + new_len)
                       (replicate (length freed) nul) sa1) (\<lambda>sa2.
                       let total_len = SUN_PATH_OFFSET + new_len + of_bool (new_len < region)
                       in Ok (Some (sa2[0 := char_of (total_len mod 256)], total_len)))))))"

definition requeried_unix ::
  "bytes \<Rightarrow> bytes \<Rightarrow> nat \<Rightarrow> nat \<Rightarrow> bytes \<Rightarrow> (bytes \<times> bytes \<times> nat) option res" where
  "requeried_unix root storage reported cap dst =
     bind_res (unmap_sockaddr root storage reported) (\<lambda>r.
       case r of
         None \<Rightarrow> Ok None
       | Some (storage', total_len) \<Rightarrow>
           let n = min (min (min cap total_len) (length storage')) (length dst)
           in bind_res (slice 0 n storage') (\<lambda>text.
              bind_res (copy_at 0 text dst) (\<lambda>dst1. Ok (Some (storage', dst1, total_len)))))"

definition skippable :: "errno \<Rightarrow> bool" where
  "skippable e = (e = ENOENT \<or> e = ENOTDIR \<or> e = EACCES)"

section \<open>The scan\<close>

datatype base = BRoot | BPrivate | BPrivVar

fun base_parent :: "base \<Rightarrow> base" where
  "base_parent BRoot = BRoot"
| "base_parent BPrivate = BRoot"
| "base_parent BPrivVar = BPrivate"

text \<open>\<open>STemp sub parent start depth named\<close> is \<^verbatim>\<open>Scan::Temp\<close>.\<close>

datatype scan =
    SBase base
  | SOther base nat
  | STemp bytes base nat nat bool

text \<open>Where a scan stops to ask the kernel: \<^verbatim>\<open>(start, sub, comp_start, end)\<close>.\<close>

type_synonym escape_point = "nat \<times> bytes option \<times> nat \<times> nat"

text \<open>
  One component, with the text behind it and its bounds: the next state, or the point at which
  the scan breaks off.
\<close>

fun scan_step :: "bytes \<Rightarrow> nat \<Rightarrow> nat \<Rightarrow> scan \<Rightarrow> bytes \<Rightarrow> scan + escape_point" where
  "scan_step after comp_start end (SBase b) c =
     (if c = [] \<or> c = ''.'' then Inl (SBase b)
      else if c = ''..'' then Inl (SBase (base_parent b))
      else if b = BRoot \<and> c = ''private'' then Inl (SBase BPrivate)
      else if (b = BRoot \<or> b = BPrivate) \<and> c = ''var'' then Inl (SBase BPrivVar)
      else if (b = BRoot \<or> b = BPrivate) \<and> c = ''tmp'' then
        Inl (STemp ''/tmp'' BPrivate end 0 False)
      else if b = BPrivVar \<and> c = ''tmp'' then Inl (STemp ''/var/tmp'' BPrivVar end 0 False)
      else Inl (SOther b 1))"
| "scan_step after comp_start end (SOther b depth) c =
     (if c = [] \<or> c = ''.'' then Inl (SOther b depth)
      else if c = ''..'' then
        (if has_tmp_component after then Inr (0, None, comp_start, end)
         else if depth = 1 then Inl (SBase b)
         else Inl (SOther b (depth - 1)))
      else Inl (SOther b (depth + 1)))"
| "scan_step after comp_start end (STemp sub parent start depth named) c =
     (if c = [] \<or> c = ''.'' then Inl (STemp sub parent start depth named)
      else if c = ''..'' then
        (if depth = 0 then
           (if named then Inr (start, Some sub, comp_start, end) else Inl (SBase parent))
         else Inl (STemp sub parent start (depth - 1) named))
      else Inl (STemp sub parent start (depth + 1) True))"

fun scan_loop :: "bytes \<Rightarrow> bytes list \<Rightarrow> nat \<Rightarrow> scan \<Rightarrow> scan + escape_point" where
  "scan_loop cur [] pos state = Inl state"
| "scan_loop cur (c # cs) pos state =
     (case scan_step (drop (pos + length c + 1) cur) pos (pos + length c) state c of
        Inr e \<Rightarrow> Inr e
      | Inl state' \<Rightarrow> scan_loop cur cs (pos + length c + 1) state')"

definition scan_path :: "bytes \<Rightarrow> scan + escape_point" where
  "scan_path cur = scan_loop cur (split_on slash cur) 0 (SBase BRoot)"

section \<open>Mapping\<close>

text \<open>The text to write when the scan reached the end.\<close>

definition map_finish :: "bytes \<Rightarrow> nat \<Rightarrow> bytes \<Rightarrow> bool \<Rightarrow> scan \<Rightarrow> bytes option res" where
  "map_finish root cap cur rewritten state =
     (case state of
        STemp sub parent start depth named \<Rightarrow>
          bind_res (slice start (length cur) cur) (\<lambda>rest.
            if cap \<le> length root + length sub + length rest then Err ENAMETOOLONG
            else Ok (Some (root @ sub @ rest)))
      | _ \<Rightarrow>
          if \<not> rewritten then Ok None
          else if cap \<le> length cur then Err ENAMETOOLONG
          else Ok (Some cur))"

text \<open>
  The rewriting at an escape: the physical prefix is resolved, named as the host names it, and
  its parent takes the place of everything up to the \<open>..\<close>.
\<close>

definition map_rewrite ::
  "(bytes \<Rightarrow> bytes res) \<Rightarrow> bytes \<Rightarrow> nat \<Rightarrow> bytes \<Rightarrow> escape_point \<Rightarrow> bytes res" where
  "map_rewrite resolve root cap cur = (\<lambda>(start, sub, comp_start, dotdot_end).
     let head = (case sub of None \<Rightarrow> [] | Some s \<Rightarrow> root @ s)
     in bind_res (slice start comp_start cur) (\<lambda>prefix.
        if cap \<le> length head + length prefix + 1 then Err ENAMETOOLONG
        else
        bind_res (resolve (head @ prefix @ ''/'')) (\<lambda>resolved.
        bind_res (copy_at 0 resolved (replicate PATH_MAX nul)) (\<lambda>buf.
        bind_res (unmap_or root buf (length resolved)) (\<lambda>(buf', host_len).
        bind_res (slice 0 host_len buf') (\<lambda>host.
          let parent = textual_parent host;
              remainder_start = (if dotdot_end < length cur then dotdot_end + 1 else length cur)
          in bind_res (slice remainder_start (length cur) cur) (\<lambda>remainder.
             let next = (if parent \<noteq> ''/'' then parent @ ''/'' else parent)
             in if PATH_MAX \<le> length parent \<or> PATH_MAX \<le> length next + length remainder
                then Err ENAMETOOLONG
                else Ok (next @ remainder))))))))"

function map_loop ::
  "(nat \<Rightarrow> bytes \<Rightarrow> bytes res) \<Rightarrow> bytes \<Rightarrow> nat \<Rightarrow> nat \<Rightarrow> bytes \<Rightarrow> bool \<Rightarrow> nat \<Rightarrow> bytes option res" where
  "map_loop resolve root cap k cur rewritten dotdots =
     (case scan_path cur of
        Inl state \<Rightarrow> map_finish root cap cur rewritten state
      | Inr esc \<Rightarrow>
          (case map_rewrite (resolve k) root cap cur esc of
             Ok next \<Rightarrow>
               if dotdots \<le> dotdot_count next then Err ELOOP
               else map_loop resolve root cap (k + 1) next
                      (rewritten \<or> fst (snd esc) \<noteq> None) (dotdot_count next)
           | Err e \<Rightarrow> Err e
           | Abort x \<Rightarrow> Abort x))"
  by pat_completeness auto
termination
  by (relation "measure (\<lambda>(resolve, root, cap, k, cur, rewritten, dotdots). dotdots)") auto

definition map_with ::
  "(nat \<Rightarrow> bytes \<Rightarrow> bytes res) \<Rightarrow> bytes \<Rightarrow> bytes \<Rightarrow> nat \<Rightarrow> bytes option res" where
  "map_with resolve root path cap =
     (if \<not> starts_with path ''/'' \<or> PATH_MAX \<le> length path then Ok None
      else map_loop resolve root cap 0 path False (dotdot_count path))"

text \<open>\<^verbatim>\<open>map\<close> asks the kernel; \<^verbatim>\<open>map_target\<close> never does.\<close>

definition map_path ::
  "(nat \<Rightarrow> bytes \<Rightarrow> bytes res) \<Rightarrow> bytes \<Rightarrow> bytes \<Rightarrow> nat \<Rightarrow> bytes option res" where
  "map_path kernel_full_path root path cap = map_with kernel_full_path root path cap"

definition UNRESOLVED :: errno where
  "UNRESOLVED = ERaw (-1)"

definition map_target :: "bytes \<Rightarrow> bytes \<Rightarrow> nat \<Rightarrow> bytes option res" where
  "map_target root target cap =
     (case map_with (\<lambda>_ _. Err UNRESOLVED) root target cap of
        Err e \<Rightarrow> if e = UNRESOLVED then Ok None else Err e
      | r \<Rightarrow> r)"

definition first_real_component :: "bytes \<Rightarrow> bytes" where
  "first_real_component p =
     (case find (\<lambda>c. c \<noteq> [] \<and> c \<noteq> ''.'') (split_on slash p) of Some c \<Rightarrow> c | None \<Rightarrow> [])"

text \<open>\<^verbatim>\<open>pop_component\<close> on the text so far.\<close>

definition pop_component :: "bytes \<Rightarrow> bytes" where
  "pop_component t =
     (let t' = (case rposition slash (drop 1 t) of None \<Rightarrow> take 1 t | Some i \<Rightarrow> take (i + 2) t)
      in if 1 < length t' then butlast t' else t')"

text \<open>The leading \<open>.\<close> and \<open>..\<close> of a relative path, popped against the base.\<close>

function strip_leading :: "bytes \<Rightarrow> bytes \<Rightarrow> bytes \<times> bytes" where
  "strip_leading rest joined =
     (if rest = ''.'' then ([], joined)
      else if rest = ''..'' then ([], pop_component joined)
      else if starts_with rest ''./'' then
        (let r = drop 2 rest in if r = [] then (r, joined) else strip_leading r joined)
      else if starts_with rest ''../'' then
        (let r = drop 3 rest
         in if r = [] then (r, pop_component joined) else strip_leading r (pop_component joined))
      else (rest, joined))"
  by pat_completeness auto
termination
  by (relation "measure (\<lambda>(rest, joined). length rest)") (auto simp: starts_with_iff)

declare strip_leading.simps [simp del]

text \<open>The base with the rest of the path behind it.\<close>

definition join_relative :: "bytes \<Rightarrow> bytes \<Rightarrow> bytes res" where
  "join_relative start path =
     (let (rest, joined0) = strip_leading path start;
          joined1 = (if joined0 \<noteq> ''/'' then joined0 @ ''/'' else joined0)
      in if rest = [] then Ok joined0
         else if joined0 \<noteq> ''/'' \<and> PATH_MAX \<le> length joined0 then Err ENAMETOOLONG
         else if PATH_MAX \<le> length joined1 + length rest then Err ENAMETOOLONG
         else Ok (joined1 @ rest))"

text \<open>A joined path that is not redirected is still reported if the base was below the root.\<close>

definition map_joined ::
  "(nat \<Rightarrow> bytes \<Rightarrow> bytes res) \<Rightarrow> bytes \<Rightarrow> nat \<Rightarrow> bool \<Rightarrow> bytes \<Rightarrow> bytes option res" where
  "map_joined resolve root cap under_root joined =
     bind_res (map_with resolve root joined cap) (\<lambda>mapped.
       case mapped of
         Some s \<Rightarrow> Ok (Some s)
       | None \<Rightarrow>
           if under_root then
             (if cap \<le> length joined then Err ENAMETOOLONG else Ok (Some joined))
           else Ok None)"

definition map_at_with ::
  "(nat \<Rightarrow> bytes \<Rightarrow> bytes res) \<Rightarrow> bytes res \<Rightarrow> bytes \<Rightarrow> bytes \<Rightarrow> nat \<Rightarrow> bytes option res" where
  "map_at_with resolve base root path cap =
     (if starts_with path ''/'' then map_with resolve root path cap
      else if \<not> list_ex (\<lambda>c. c = ''..'') (split_on slash path) \<and>
              first_real_component path \<notin> {''tmp'', ''private'', ''var''} then Ok None
      else
        bind_res base (\<lambda>base_text.
          if PATH_MAX \<le> length base_text then Err ENAMETOOLONG
          else
        bind_res (copy_at 0 base_text (replicate PATH_MAX nul)) (\<lambda>base_buf.
        bind_res (unmap_in_place root base_buf (length base_text)) (\<lambda>under_root.
        bind_res
          (case under_root of
             Some (buf, len) \<Rightarrow> slice 0 len buf
           | None \<Rightarrow> slice 0 (length base_text) base_buf) (\<lambda>start.
        bind_res (join_relative start path)
          (map_joined resolve root cap (under_root \<noteq> None)))))))"

text \<open>\<^verbatim>\<open>map_at\<close>: the base is what the kernel reports for the directory descriptor.\<close>

definition map_at ::
  "(nat \<Rightarrow> bytes \<Rightarrow> bytes res) \<Rightarrow> ('fd \<Rightarrow> bytes res) \<Rightarrow> bytes \<Rightarrow> 'fd \<Rightarrow> bytes \<Rightarrow> nat \<Rightarrow> bytes option res" where
  "map_at kernel_full_path real_base root dirfd path cap =
     map_at_with kernel_full_path (real_base dirfd) root path cap"

definition map_under ::
  "(nat \<Rightarrow> bytes \<Rightarrow> bytes res) \<Rightarrow> bytes \<Rightarrow> bytes \<Rightarrow> bytes res" where
  "map_under kernel_full_path root path =
     bind_res (map_path kernel_full_path root path PATH_MAX) (\<lambda>r.
       case r of Some s \<Rightarrow> Ok s | None \<Rightarrow> Ok path)"

end
