(* ===== verification/Tmp_Map.thy ===== *)
theory Tmp_Map
  imports Tmp_Path
begin

text \<open>
  Correctness of the temporary-path mapping: it neither panics nor overruns a buffer, asks the
  kernel at most once per \<open>..\<close>, agrees with the table \<^verbatim>\<open>HOST_ROOTS\<close> on normalized paths,
  and \<^verbatim>\<open>unmap_in_place\<close> undoes it.
\<close>

section \<open>Buffers\<close>

lemma slice_Ok [simp]: "a \<le> b \<Longrightarrow> b \<le> length xs \<Longrightarrow> slice a b xs = Ok (take (b - a) (drop a xs))"
  by (simp add: slice_def)

lemma copy_at_Ok [simp]:
  "at + length src \<le> length buf \<Longrightarrow>
     copy_at at src buf = Ok (take at buf @ src @ drop (at + length src) buf)"
  by (simp add: copy_at_def)

lemma component_rest_iff:
  "component_rest p q = Some r \<longleftrightarrow> p = q @ r \<and> (r = [] \<or> hd r = slash)"
proof (cases "strip_prefix p q")
  case None
  then have "p \<noteq> q @ r" for r using strip_prefix_Some [of p q r] by simp
  with None show ?thesis by (simp add: component_rest_def)
next
  case (Some r')
  moreover from this have "p = q @ r'" by (simp add: strip_prefix_Some)
  ultimately show ?thesis by (auto simp: component_rest_def)
qed

section \<open>Unmapping\<close>

text \<open>What \<^verbatim>\<open>unmap_in_place\<close> computes, on the text alone.\<close>

definition unmap_text :: "bytes \<Rightarrow> bytes \<Rightarrow> bytes option" where
  "unmap_text root text =
     (case component_rest text root of
        None \<Rightarrow> None
      | Some r \<Rightarrow>
          (case canonical_of CANONICAL r of
             None \<Rightarrow> None
           | Some (canonical, r') \<Rightarrow> Some (canonical @ r')))"

lemma canonical_of_Some:
  assumes "canonical_of CANONICAL r = Some (c, r')"
  obtains sub where "(sub, c) \<in> set CANONICAL" "r = sub @ r'" "r' = [] \<or> hd r' = slash"
    "length c = length sub + 8"
  using assms
  by (auto simp: CANONICAL_def component_rest_iff split: option.splits)

lemma unmap_text_length: "8 \<le> length root \<Longrightarrow> unmap_text root text = Some t \<Longrightarrow> length t \<le> length text"
  by (auto simp: unmap_text_def component_rest_iff split: option.splits elim!: canonical_of_Some)

lemma unmap_in_place_text:
  assumes root: "8 \<le> length root" and len: "len \<le> length buf"
  shows "unmap_in_place root buf len =
    Ok (map_option (\<lambda>t. (t @ drop (length t) buf, length t)) (unmap_text root (take len buf)))"
proof (cases "component_rest (take len buf) root")
  case None
  then show ?thesis using len by (simp add: unmap_in_place_def unmap_text_def)
next
  case (Some r)
  show ?thesis
  proof (cases "canonical_of CANONICAL r")
    case None
    with Some show ?thesis using len by (simp add: unmap_in_place_def unmap_text_def)
  next
    case c: (Some x)
    obtain c r' where x: "x = (c, r')" by (cases x)
    with c obtain sub where sub: "r = sub @ r'" "length c = length sub + 8"
      by (auto elim: canonical_of_Some)
    from Some sub have t: "take len buf = root @ sub @ r'" by (simp add: component_rest_iff)
    have "length (take len buf) = len" using len by simp
    then have l: "len = length root + length sub + length r'" unfolding t by simp
    have "drop (len - length r') (take len buf) = r'" unfolding t using l by simp
    then have d: "take (length r') (drop (len - length r') buf) = r'"
      using l by (simp add: drop_take)
    show ?thesis
      using Some c x len l sub(2) root d
      by (simp add: unmap_in_place_def unmap_text_def copy_within_def Let_def)
  qed
qed

definition host_name :: "bytes \<Rightarrow> bytes \<Rightarrow> bytes" where
  "host_name root text = (case unmap_text root text of Some t \<Rightarrow> t | None \<Rightarrow> text)"

lemma host_name_length: "8 \<le> length root \<Longrightarrow> length (host_name root text) \<le> length text"
  by (auto simp: host_name_def unmap_text_length split: option.split)

lemma unmap_or_text:
  assumes "8 \<le> length root" "len \<le> length buf"
  shows "unmap_or root buf len =
    Ok (host_name root (take len buf) @ drop (length (host_name root (take len buf))) buf,
        length (host_name root (take len buf)))"
  using assms
  by (auto simp: unmap_or_def unmap_in_place_text host_name_def split: option.split)

text \<open>
  \<^verbatim>\<open>copy_cwd\<close> writes the host name of the physical path and a NUL at the start
  of the caller's buffer and leaves the rest of it alone, or fails with \<^verbatim>\<open>ERANGE\<close> when
  they do not fit. No index is out of range, whatever the buffers.
\<close>

theorem copy_cwd_spec:
  assumes "valid_root root" "len \<le> length local"
  shows "copy_cwd root local len dst =
    (let t = host_name root (take len local)
     in if length dst < length t + 1 then Err ERANGE
        else Ok (t @ nul # drop (length t + 1) dst, length t))"
proof -
  have root: "8 \<le> length root" using assms(1) by (simp add: valid_root_def)
  have "length (host_name root (take len local)) \<le> len"
    using host_name_length [OF root, of "take len local"] assms(2) by simp
  then show ?thesis
    using unmap_or_text [OF root assms(2)] assms(2)
    by (simp add: copy_cwd_def Let_def drop_Suc [symmetric] take_append)
qed

theorem copy_cwd_spec_witness:
  "copy_cwd ''/Users/ws'' (''/Users/ws/tmp/a'') 15 (replicate 20 (CHR ''x'')) =
     Ok (''/private/tmp/a'' @ nul # ''xxxxx'', 14)"
proof -
  have "valid_root ''/Users/ws''" by code_simp
  moreover have "host_name ''/Users/ws'' (take 15 ''/Users/ws/tmp/a'') = ''/private/tmp/a''" by code_simp
  ultimately show ?thesis
    using copy_cwd_spec [of "''/Users/ws''" 15 "''/Users/ws/tmp/a''" "replicate 20 (CHR ''x'')"]
    by (simp add: numeral_eq_Suc)
qed

text \<open>
  \<^verbatim>\<open>copy_link\<close> writes the host name of the link text, cut off at the size of the
  caller's buffer as the kernel would, and returns how much it wrote.
\<close>

theorem copy_link_spec:
  assumes "valid_root root" "len \<le> length local"
  shows "copy_link root local len dst =
    (let t = take (length dst) (host_name root (take len local))
     in Ok (t @ drop (length t) dst, length t))"
proof -
  have root: "8 \<le> length root" using assms(1) by (simp add: valid_root_def)
  have "length (host_name root (take len local)) \<le> len"
    using host_name_length [OF root, of "take len local"] assms(2) by simp
  then show ?thesis
    using unmap_or_text [OF root assms(2)] assms(2)
    by (simp add: copy_link_def Let_def min_def)
qed

theorem copy_link_spec_witness:
  "copy_link ''/Users/ws'' (''/Users/ws/tmp/a'') 15 (replicate 4 (CHR ''x'')) = Ok (''/pri'', 4)"
proof -
  have "valid_root ''/Users/ws''" by code_simp
  moreover have "host_name ''/Users/ws'' (take 15 ''/Users/ws/tmp/a'') = ''/private/tmp/a''" by code_simp
  ultimately show ?thesis
    using copy_link_spec [of "''/Users/ws''" 15 "''/Users/ws/tmp/a''" "replicate 4 (CHR ''x'')"]
    by (simp add: numeral_eq_Suc)
qed

lemma CANONICAL_no_nul: "(sub, c) \<in> set CANONICAL \<Longrightarrow> nul \<notin> set c"
  by (auto simp: CANONICAL_def)

lemma unmap_text_no_nul: "nul \<notin> set text \<Longrightarrow> unmap_text root text = Some t \<Longrightarrow> nul \<notin> set t"
  by (auto simp: unmap_text_def component_rest_iff split: option.splits
      elim!: canonical_of_Some dest!: CANONICAL_no_nul)

lemma until_nul: "nul \<notin> set t \<Longrightarrow> takeWhile (\<lambda>b. b \<noteq> nul) (t @ replicate n nul) = t"
proof (induction t)
  case Nil
  then show ?case by (cases n) simp_all
qed auto

text \<open>
  \<^verbatim>\<open>unmap_sockaddr\<close> never indexes out of range. When it rewrites an address, the
  path of the address becomes the host name of the path it had, the buffer keeps its size and
  its bytes beyond the reported length, and the new length is within the reported one.
\<close>

theorem unmap_sockaddr_spec:
  assumes "valid_root root"
  shows "\<exists>r. unmap_sockaddr root sa reported = Ok r \<and>
    (\<forall>sa' n. r = Some (sa', n) \<longrightarrow>
       length sa' = length sa \<and> n \<le> reported \<and> drop reported sa' = drop reported sa \<and>
       unix_path (take reported sa') = Option.bind (unix_path (take reported sa)) (unmap_text root))"
proof (cases "reported \<le> SUN_PATH_OFFSET \<or> length sa < reported \<or> of_char (sa ! 1) \<noteq> AF_UNIX")
  case True
  then show ?thesis by (auto simp: unmap_sockaddr_def)
next
  case False
  have root: "8 \<le> length root" using assms by (simp add: valid_root_def)
  obtain a b d where sa: "sa = a # b # d" using False
    by (cases sa; cases "tl sa") (auto simp: SUN_PATH_OFFSET_def)
  define R where "R = reported - 2"
  have R: "reported = Suc (Suc R)" "0 < R" "R \<le> length d" and af: "of_char b = AF_UNIX"
    using False sa by (auto simp: SUN_PATH_OFFSET_def R_def)
  define pth where "pth = takeWhile (\<lambda>b. b \<noteq> nul) (take R d)"
  have pl: "length pth \<le> R"
    unfolding pth_def using length_takeWhile_le [of "\<lambda>b. b \<noteq> nul" "take R d"] by simp
  have pt: "take (length pth) d = pth"
    using pl takeWhile_eq_take [of "\<lambda>b. b \<noteq> nul" "take R d"] by (simp add: pth_def min_def)
  have up: "unix_path (take reported sa) = Some pth"
    using R af sa by (simp add: unix_path_def SUN_PATH_OFFSET_def pth_def)
  note U = unmap_in_place_text [OF root, of "length pth" d, unfolded pt]
  show ?thesis
  proof (cases "unmap_text root pth")
    case None
    then have "unmap_sockaddr root sa reported = Ok None"
      using R af U pl by (simp add: unmap_sockaddr_def sa SUN_PATH_OFFSET_def pth_def [symmetric])
    then show ?thesis by simp
  next
    case (Some t)
    have t: "length t \<le> R" "nul \<notin> set t"
      using unmap_text_length [OF root Some] unmap_text_no_nul [OF _ Some] pl
      by (auto simp: pth_def dest: set_takeWhileD)
    define n where "n = 2 + length t + of_bool (length t < R)"
    define sa' where "sa' = char_of (n mod 256) # b # t @ replicate (R - length t) nul @ drop R d"
    have "unmap_sockaddr root sa reported = Ok (Some (sa', n))"
      using R af U Some t pl
      by (auto simp: unmap_sockaddr_def sa SUN_PATH_OFFSET_def pth_def [symmetric] sa'_def n_def Let_def
          min_def)
    moreover have "unix_path (take reported sa') = Some t"
      using R af t until_nul [of t "R - length t"]
      by (simp add: sa'_def unix_path_def SUN_PATH_OFFSET_def)
    moreover have "drop reported sa' = drop reported sa" "length sa' = length sa" "n \<le> reported"
      using R t by (auto simp: sa'_def sa n_def)
    ultimately show ?thesis using up Some by auto
  qed
qed

theorem unmap_sockaddr_spec_witness:
  "\<exists>r. unmap_sockaddr ''/Users/ws'' (CHR 0x11 # CHR 0x01 # ''/Users/ws/tmp/a'') 17 = Ok r"
proof -
  have "valid_root ''/Users/ws''" by code_simp
  from unmap_sockaddr_spec [OF this] show ?thesis by blast
qed

section \<open>Components\<close>

text \<open>The path with the given components.\<close>

definition mkpath :: "bytes list \<Rightarrow> bytes" where
  "mkpath cs = concat (map (\<lambda>c. slash # c) cs)"

lemma mkpath_simps [simp]: "mkpath [] = []" "mkpath (c # cs) = slash # c @ mkpath cs"
  by (simp_all add: mkpath_def)

lemma mkpath_append: "mkpath (xs @ ys) = mkpath xs @ mkpath ys"
  by (simp add: mkpath_def)

lemma mkpath_split: "mkpath (split_on slash d) = slash # d"
proof (induction d)
  case (Cons x d)
  obtain y ys where "split_on slash d = y # ys" by (cases "split_on slash d") auto
  with Cons show ?case by simp
qed simp

lemma split_mkpath:
  "(\<And>c. c \<in> set cs \<Longrightarrow> slash \<notin> set c) \<Longrightarrow> split_on slash (mkpath cs) = [] # cs"
proof (induction cs)
  case (Cons c cs)
  then have c: "slash \<notin> set c" by simp
  show ?case
  proof (cases cs)
    case Nil
    with c show ?thesis by (simp add: split_on_no_sep)
  next
    case (Cons d ds)
    with Cons.IH Cons.prems have "split_on slash (slash # d @ mkpath ds) = [] # d # ds" by auto
    then have "split_on slash (d @ mkpath ds) = d # ds" by simp
    with Cons c show ?thesis by (simp add: split_on_append_sep split_on_no_sep)
  qed
qed simp

lemma mkpath_hd: "mkpath cs = [] \<or> hd (mkpath cs) = slash"
  by (cases cs) simp_all

lemma component_prefix:
  "slash \<notin> set c \<Longrightarrow> slash \<notin> set h \<Longrightarrow> x = [] \<or> hd x = slash \<Longrightarrow> z = [] \<or> hd z = slash \<Longrightarrow>
     c @ x = h @ z \<longleftrightarrow> c = h \<and> x = z"
proof (induction c arbitrary: h)
  case Nil
  then show ?case by (cases h) auto
next
  case (Cons a c)
  then show ?case by (cases h) auto
qed

lemma component_rest_step:
  assumes "slash \<notin> set c" "slash \<notin> set h"
  shows "component_rest (mkpath (c # cs)) (mkpath (h # hs)) =
    (if c = h then component_rest (mkpath cs) (mkpath hs) else None)"
proof -
  have "component_rest (mkpath (c # cs)) (mkpath (h # hs)) = Some r \<longleftrightarrow>
      c = h \<and> component_rest (mkpath cs) (mkpath hs) = Some r" for r
  proof -
    have "mkpath hs @ r = [] \<or> hd (mkpath hs @ r) = slash" if "r = [] \<or> hd r = slash"
      using that by (cases hs) auto
    then show ?thesis
      using component_prefix [OF assms mkpath_hd [of cs], of "mkpath hs @ r"]
      by (auto simp: component_rest_iff)
  qed
  then show ?thesis by (metis option.exhaust option.distinct(1))
qed

lemma component_rest_Nil [simp]:
  "component_rest (mkpath cs) [] = Some (mkpath cs)"
  "h \<noteq> [] \<Longrightarrow> component_rest [] h = None"
proof -
  show "component_rest (mkpath cs) [] = Some (mkpath cs)"
    using mkpath_hd [of cs] by (simp add: component_rest_iff)
  show "component_rest [] h = None" if "h \<noteq> []"
    using that component_rest_iff [of "[]" h] by (cases "component_rest [] h") auto
qed

section \<open>Normalized paths\<close>

definition normal_comp :: "bytes \<Rightarrow> bool" where
  "normal_comp c = (c \<noteq> [] \<and> c \<noteq> ''.'' \<and> c \<noteq> ''..'')"

definition normal_path :: "bytes \<Rightarrow> bool" where
  "normal_path p = (starts_with p ''/'' \<and> list_all normal_comp (split_on slash (drop 1 p)))"

text \<open>The table lookup: the first row whose host root leads the path, and the rest of the path.\<close>

fun host_lookup :: "(bytes \<times> bytes) list \<Rightarrow> bytes \<Rightarrow> (bytes \<times> bytes) option" where
  "host_lookup [] p = None"
| "host_lookup ((host, sub) # t) p =
     (case component_rest p host of Some r \<Rightarrow> Some (sub, r) | None \<Rightarrow> host_lookup t p)"

lemma normal_path_comps:
  assumes "normal_path p"
  obtains cs where "p = mkpath cs" "cs \<noteq> []" "list_all normal_comp cs"
    "\<And>c. c \<in> set cs \<Longrightarrow> slash \<notin> set c"
proof -
  from assms obtain d where p: "p = slash # d" by (auto simp: normal_path_def starts_with_iff)
  with assms have "list_all normal_comp (split_on slash d)" by (simp add: normal_path_def)
  with p mkpath_split [of d] show ?thesis
    by (intro that [of "split_on slash d"]) (auto dest: split_on_elem_no_sep)
qed

lemma scan_other:
  "list_all normal_comp cs \<Longrightarrow> scan_loop cur cs pos (SOther b d) = Inl (SOther b (d + length cs))"
  by (induction cs arbitrary: pos d) (auto simp: normal_comp_def)

lemma scan_temp:
  "list_all normal_comp cs \<Longrightarrow>
     \<exists>d' n'. scan_loop cur cs pos (STemp sub par st d n) = Inl (STemp sub par st d' n')"
  by (induction cs arbitrary: pos d n) (auto simp: normal_comp_def)

lemma HOST_ROOTS_mkpath:
  "HOST_ROOTS =
     [(mkpath [''private'', ''var'', ''tmp''], ''/var/tmp''), (mkpath [''private'', ''tmp''], ''/tmp''),
      (mkpath [''var'', ''tmp''], ''/var/tmp''), (mkpath [''tmp''], ''/tmp'')]"
  by (simp add: HOST_ROOTS_def)

text \<open>The scanner finds exactly the row of the table.\<close>

definition scan_agrees :: "bytes \<Rightarrow> bool" where
  "scan_agrees p =
     (case host_lookup HOST_ROOTS p of
        None \<Rightarrow> (\<exists>b. scan_path p = Inl (SBase b)) \<or> (\<exists>b d. scan_path p = Inl (SOther b d))
      | Some (sub, r) \<Rightarrow>
          (\<exists>par st d n. scan_path p = Inl (STemp sub par st d n) \<and> st \<le> length p \<and> drop st p = r))"

lemma scan_path_mkpath:
  assumes "list_all normal_comp cs" "\<And>c. c \<in> set cs \<Longrightarrow> slash \<notin> set c"
  shows "scan_path (mkpath cs) = scan_loop (mkpath cs) cs 1 (SBase BRoot)"
  by (simp add: scan_path_def split_mkpath [OF assms(2)])

lemma component_rest_mkpath_Nil [simp]: "component_rest (mkpath []) (mkpath (h # hs)) = None"
  by simp

text \<open>The rows of the table, by leading components.\<close>

lemma lookup_rows:
  assumes "\<And>c. c \<in> set cs \<Longrightarrow> slash \<notin> set c"
  shows "host_lookup HOST_ROOTS (mkpath cs) =
    (if take 3 cs = [''private'', ''var'', ''tmp''] then Some (''/var/tmp'', mkpath (drop 3 cs))
     else if take 2 cs = [''private'', ''tmp''] then Some (''/tmp'', mkpath (drop 2 cs))
     else if take 2 cs = [''var'', ''tmp''] then Some (''/var/tmp'', mkpath (drop 2 cs))
     else if take 1 cs = [''tmp''] then Some (''/tmp'', mkpath (drop 1 cs))
     else None)"
proof -
  have rows: "component_rest (mkpath cs) (mkpath hs) =
      (if take (length hs) cs = hs then Some (mkpath (drop (length hs) cs)) else None)"
    if "\<And>h. h \<in> set hs \<Longrightarrow> slash \<notin> set h" for hs
    using that assms
  proof (induction hs arbitrary: cs)
    case Nil
    then show ?case by (simp add: mkpath_def [of "[]"])
  next
    case (Cons h hs)
    show ?case
    proof (cases cs)
      case Nil
      then show ?thesis by simp
    next
      case (Cons c cs')
      with Cons.prems component_rest_step [of c h cs' hs] Cons.IH [of cs'] show ?thesis
        by (simp del: mkpath_simps)
    qed
  qed
  have "component_rest (mkpath cs) (mkpath [''private'', ''var'', ''tmp'']) =
      (if take 3 cs = [''private'', ''var'', ''tmp''] then Some (mkpath (drop 3 cs)) else None)"
    "component_rest (mkpath cs) (mkpath [''private'', ''tmp'']) =
      (if take 2 cs = [''private'', ''tmp''] then Some (mkpath (drop 2 cs)) else None)"
    "component_rest (mkpath cs) (mkpath [''var'', ''tmp'']) =
      (if take 2 cs = [''var'', ''tmp''] then Some (mkpath (drop 2 cs)) else None)"
    "component_rest (mkpath cs) (mkpath [''tmp'']) =
      (if take 1 cs = [''tmp''] then Some (mkpath (drop 1 cs)) else None)"
    by (subst rows, force, simp del: mkpath_simps add: numeral_eq_Suc)+
  then show ?thesis
    unfolding HOST_ROOTS_mkpath by (simp del: mkpath_simps)
qed

definition nontemp :: "scan + escape_point \<Rightarrow> bool" where
  "nontemp r = ((\<exists>b. r = Inl (SBase b)) \<or> (\<exists>b d. r = Inl (SOther b d)))"

definition temp_at :: "bytes \<Rightarrow> nat \<Rightarrow> scan + escape_point \<Rightarrow> bool" where
  "temp_at sub st r = (\<exists>par d n. r = Inl (STemp sub par st d n))"

lemma scan_loop_temp_at:
  "list_all normal_comp cs \<Longrightarrow> temp_at sub st (scan_loop cur cs pos (STemp sub par st d n))"
  using scan_temp [of cs cur pos sub par st d n] by (auto simp: temp_at_def)

lemma scan_loop_nontemp: "list_all normal_comp cs \<Longrightarrow> nontemp (scan_loop cur cs pos (SOther b d))"
  by (simp add: nontemp_def scan_other)

lemmas scan_ends = scan_loop_temp_at scan_loop_nontemp

lemma scan_priv_var:
  assumes "list_all normal_comp cs"
  shows "if take 1 cs = [''tmp''] then temp_at ''/var/tmp'' (Suc (Suc (Suc pos))) (scan_loop cur cs pos (SBase BPrivVar))
    else nontemp (scan_loop cur cs pos (SBase BPrivVar))"
proof (cases cs)
  case (Cons c r)
  with assms have c: "c \<noteq> []" "c \<noteq> ''.''" "c \<noteq> ''..''" and r: "list_all normal_comp r"
    by (auto simp: normal_comp_def)
  show ?thesis
  proof (cases "c = ''tmp''")
    case True
    with Cons r scan_ends(1) show ?thesis by (simp add: numeral_eq_Suc)
  next
    case False
    with Cons c r scan_ends(2) show ?thesis by simp
  qed
qed (simp add: nontemp_def)

lemma scan_private:
  assumes "list_all normal_comp cs"
  shows "if take 2 cs = [''var'', ''tmp''] then temp_at ''/var/tmp'' (Suc (Suc (Suc (Suc (Suc (Suc (Suc pos))))))) (scan_loop cur cs pos (SBase BPrivate))
    else if take 1 cs = [''tmp''] then temp_at ''/tmp'' (Suc (Suc (Suc pos))) (scan_loop cur cs pos (SBase BPrivate))
    else nontemp (scan_loop cur cs pos (SBase BPrivate))"
proof (cases cs)
  case (Cons c r)
  with assms have c: "c \<noteq> []" "c \<noteq> ''.''" "c \<noteq> ''..''" and r: "list_all normal_comp r"
    by (auto simp: normal_comp_def)
  consider "c = ''var''" | "c = ''tmp''" | "c \<noteq> ''var''" "c \<noteq> ''tmp''" by blast
  then show ?thesis
  proof cases
    case 1
    with Cons scan_priv_var [OF r, of "(Suc (Suc (Suc (Suc pos))))" cur] show ?thesis by (simp add: numeral_eq_Suc)
  next
    case 2
    with Cons r scan_ends(1) show ?thesis by (simp add: numeral_eq_Suc)
  next
    case 3
    with Cons c r scan_ends(2) show ?thesis by simp
  qed
qed (simp add: nontemp_def)

lemma scan_root:
  assumes "list_all normal_comp cs"
  shows "if take 3 cs = [''private'', ''var'', ''tmp''] then
      temp_at ''/var/tmp'' 16 (scan_loop cur cs 1 (SBase BRoot))
    else if take 2 cs = [''private'', ''tmp''] then temp_at ''/tmp'' 12 (scan_loop cur cs 1 (SBase BRoot))
    else if take 2 cs = [''var'', ''tmp''] then temp_at ''/var/tmp'' 8 (scan_loop cur cs 1 (SBase BRoot))
    else if take 1 cs = [''tmp''] then temp_at ''/tmp'' 4 (scan_loop cur cs 1 (SBase BRoot))
    else nontemp (scan_loop cur cs 1 (SBase BRoot))"
proof (cases cs)
  case (Cons c r)
  with assms have c: "c \<noteq> []" "c \<noteq> ''.''" "c \<noteq> ''..''" and r: "list_all normal_comp r"
    by (auto simp: normal_comp_def)
  consider "c = ''private''" | "c = ''var''" | "c = ''tmp''"
    | "c \<noteq> ''private''" "c \<noteq> ''var''" "c \<noteq> ''tmp''" by blast
  then show ?thesis
  proof cases
    case 1
    with Cons scan_private [OF r, of "(Suc (Suc (Suc (Suc (Suc (Suc (Suc (Suc (Suc 0)))))))))" cur] show ?thesis by (simp add: numeral_eq_Suc)
  next
    case 2
    with Cons scan_priv_var [OF r, of "(Suc (Suc (Suc (Suc (Suc 0)))))" cur] show ?thesis by (simp add: numeral_eq_Suc)
  next
    case 3
    with Cons r scan_ends(1) show ?thesis by (simp add: numeral_eq_Suc)
  next
    case 4
    with Cons c r scan_ends(2) show ?thesis by simp
  qed
qed (simp add: nontemp_def)

lemma mkpath_drop:
  assumes "take n cs = hs"
  shows "length (mkpath hs) \<le> length (mkpath cs)" "drop (length (mkpath hs)) (mkpath cs) = mkpath (drop n cs)"
proof -
  have "mkpath cs = mkpath hs @ mkpath (drop n cs)"
    using assms append_take_drop_id [of n cs] by (metis mkpath_append)
  then show "length (mkpath hs) \<le> length (mkpath cs)"
    "drop (length (mkpath hs)) (mkpath cs) = mkpath (drop n cs)" by simp_all
qed

lemma scan_agrees_normal:
  assumes n: "list_all normal_comp cs" and sl: "\<And>c. c \<in> set cs \<Longrightarrow> slash \<notin> set c"
  shows "scan_agrees (mkpath cs)"
proof -
  note L = lookup_rows [of cs, OF sl] and S = scan_root [OF n, of "mkpath cs"]
  have at: "scan_agrees (mkpath cs)"
    if "temp_at sub st (scan_loop (mkpath cs) cs 1 (SBase BRoot))"
      "host_lookup HOST_ROOTS (mkpath cs) = Some (sub, mkpath (drop k cs))"
      "take k cs = hs" "st = length (mkpath hs)" for sub st k hs
    using that mkpath_drop [OF that(3)] scan_path_mkpath [OF n sl]
    by (auto simp: scan_agrees_def temp_at_def)
  consider (pvt) "take 3 cs = [''private'', ''var'', ''tmp'']"
    | (pt) "take 3 cs \<noteq> [''private'', ''var'', ''tmp'']" "take 2 cs = [''private'', ''tmp'']"
    | (vt) "take 3 cs \<noteq> [''private'', ''var'', ''tmp'']" "take 2 cs \<noteq> [''private'', ''tmp'']"
        "take 2 cs = [''var'', ''tmp'']"
    | (t) "take 3 cs \<noteq> [''private'', ''var'', ''tmp'']" "take 2 cs \<noteq> [''private'', ''tmp'']"
        "take 2 cs \<noteq> [''var'', ''tmp'']" "take 1 cs = [''tmp'']"
    | (no) "take 3 cs \<noteq> [''private'', ''var'', ''tmp'']" "take 2 cs \<noteq> [''private'', ''tmp'']"
        "take 2 cs \<noteq> [''var'', ''tmp'']" "take 1 cs \<noteq> [''tmp'']" by blast
  then show ?thesis
  proof cases
    case pvt
    show ?thesis by (rule at [where st = 16, OF _ _ pvt]) (use L S pvt in simp_all)
  next
    case pt
    show ?thesis by (rule at [where st = 12, OF _ _ pt(2)]) (use L S pt in simp_all)
  next
    case vt
    show ?thesis by (rule at [where st = 8, OF _ _ vt(3)]) (use L S vt in simp_all)
  next
    case t
    show ?thesis by (rule at [where st = 4, OF _ _ t(4)]) (use L S t in simp_all)
  next
    case no
    then show ?thesis
      using L S scan_path_mkpath [OF n sl] by (simp add: scan_agrees_def nontemp_def)
  qed
qed

lemma scan_agrees_path: "normal_path p \<Longrightarrow> scan_agrees p"
  by (metis normal_path_comps scan_agrees_normal)

section \<open>The mapping on normalized paths\<close>

declare map_loop.simps [simp del]

lemma map_with_lookup:
  assumes "normal_path p" "length p < PATH_MAX"
  shows "map_with resolve root p cap =
    (case host_lookup HOST_ROOTS p of
       None \<Rightarrow> Ok None
     | Some (sub, rest) \<Rightarrow>
         if cap \<le> length (root @ sub @ rest) then Err ENAMETOOLONG else Ok (Some (root @ sub @ rest)))"
proof -
  have p: "starts_with p ''/''" using assms(1) by (simp add: normal_path_def)
  have m: "map_with resolve root p cap = map_loop resolve root cap 0 p False (dotdot_count p)"
    using p assms(2) by (simp add: map_with_def)
  have fin: "map_with resolve root p cap = map_finish root cap p False st"
    if "scan_path p = Inl st" for st
    unfolding m by (subst map_loop.simps) (simp add: that)
  show ?thesis
    using scan_agrees_path [OF assms(1)] fin
    by (fastforce simp: scan_agrees_def map_finish_def split: option.splits prod.splits)
qed

text \<open>
  C14 (equivalence). On a normalized absolute path the scanner of \<^verbatim>\<open>map_with\<close>, whatever the
  kernel, is the lookup in the table \<^verbatim>\<open>HOST_ROOTS\<close>: the first host root that leads the path
  is replaced by its location below the workspace root, the rest is kept, and a path that no
  row matches is used unchanged.
\<close>

theorem map_with_table:
  assumes "normal_path p" "length p < PATH_MAX"
  shows "map_with resolve root p cap =
    (case host_lookup HOST_ROOTS p of
       None \<Rightarrow> Ok None
     | Some (sub, rest) \<Rightarrow>
         if cap \<le> length (root @ sub @ rest) then Err ENAMETOOLONG else Ok (Some (root @ sub @ rest)))"
  by (rule map_with_lookup [OF assms])

theorem map_with_table_witness:
  "map_with (\<lambda>_ _. Err ENOSYS) ''/Users/ws'' ''/var/tmp/a'' 100 = Ok (Some ''/Users/ws/var/tmp/a'')"
proof -
  have "normal_path ''/var/tmp/a''" "length ''/var/tmp/a'' < PATH_MAX"
    "host_lookup HOST_ROOTS ''/var/tmp/a'' = Some (''/var/tmp'', ''/a'')"
    by code_simp+
  then show ?thesis
    using map_with_table [of "''/var/tmp/a''" "\<lambda>_ _. Err ENOSYS" "''/Users/ws''" 100] by simp
qed

lemma normal_mkpath:
  assumes "cs \<noteq> []" "list_all normal_comp cs" "\<And>c. c \<in> set cs \<Longrightarrow> slash \<notin> set c"
  shows "normal_path (mkpath cs)"
proof -
  obtain d where d: "mkpath cs = slash # d" using assms(1) by (cases cs) auto
  from split_mkpath [of cs] assms(3) have "split_on slash d = cs" by (simp add: d)
  with d assms(2) show ?thesis by (simp add: normal_path_def)
qed

text \<open>What a row of the table gives: the location below the root, and normal components.\<close>

lemma lookup_parts:
  assumes "normal_path p" "host_lookup HOST_ROOTS p = Some (sub, r)"
  obtains hs cs where "sub = mkpath hs" "hs = [''tmp''] \<or> hs = [''var'', ''tmp'']" "r = mkpath cs"
    "list_all normal_comp cs" "\<And>c. c \<in> set cs \<Longrightarrow> slash \<notin> set c"
proof -
  obtain cs where cs: "p = mkpath cs" "list_all normal_comp cs"
    "\<And>c. c \<in> set cs \<Longrightarrow> slash \<notin> set c"
    using normal_path_comps [OF assms(1)] by blast
  have dr: "list_all normal_comp (drop n cs)" "\<And>c. c \<in> set (drop n cs) \<Longrightarrow> slash \<notin> set c" for n
    using cs(2,3) by (auto simp: list_all_iff dest: in_set_dropD)
  have "\<exists>n. r = mkpath (drop n cs) \<and> (sub = ''/tmp'' \<or> sub = ''/var/tmp'')"
    using assms(2) lookup_rows [of cs, OF cs(3)] unfolding cs(1)
    by (simp del: mkpath_simps split: if_splits) blast+
  then obtain n where n: "r = mkpath (drop n cs)" "sub = ''/tmp'' \<or> sub = ''/var/tmp''" by blast
  show ?thesis
  proof (cases "sub = ''/tmp''")
    case True
    show ?thesis by (rule that [of "[''tmp'']" "drop n cs"]) (use True n dr in auto)
  next
    case False
    show ?thesis by (rule that [of "[''var'', ''tmp'']" "drop n cs"]) (use False n dr in auto)
  qed
qed

lemma canonical_parts:
  assumes "hs = [''tmp''] \<or> hs = [''var'', ''tmp'']" "\<And>c. c \<in> set cs \<Longrightarrow> slash \<notin> set c"
  shows "canonical_of CANONICAL (mkpath (hs @ cs)) = Some (mkpath (''private'' # hs), mkpath cs)"
proof -
  have C: "CANONICAL = [(mkpath [''var'', ''tmp''], mkpath [''private'', ''var'', ''tmp'']),
      (mkpath [''tmp''], mkpath [''private'', ''tmp''])]" by (simp add: CANONICAL_def)
  have "component_rest (mkpath (''tmp'' # cs)) (mkpath [''var'', ''tmp'']) = None"
    "component_rest (mkpath (''tmp'' # cs)) (mkpath [''tmp'']) = Some (mkpath cs)"
    "component_rest (mkpath (''var'' # ''tmp'' # cs)) (mkpath [''var'', ''tmp'']) = Some (mkpath cs)"
    by (simp_all add: component_rest_step del: mkpath_simps(2))
  with assms(1) show ?thesis unfolding C by (auto simp del: mkpath_simps)
qed

lemma valid_root_facts:
  assumes "valid_root root"
  shows "normal_path root" "8 \<le> length root" "host_lookup HOST_ROOTS root = None"
  using assms
  by (auto simp: valid_root_def normal_path_def normal_comp_def list_all_iff HOST_ROOTS_def)

lemma unmap_mapped:
  assumes "hs = [''tmp''] \<or> hs = [''var'', ''tmp'']" "\<And>c. c \<in> set cs \<Longrightarrow> slash \<notin> set c"
  shows "unmap_text root (root @ mkpath hs @ mkpath cs) = Some (mkpath (''private'' # hs @ cs))"
proof -
  have "component_rest (root @ mkpath (hs @ cs)) root = Some (mkpath (hs @ cs))"
    using mkpath_hd by (simp add: component_rest_iff)
  then show ?thesis
    using canonical_parts [OF assms(1,2)]
    by (simp add: unmap_text_def mkpath_append [symmetric] del: mkpath_simps)
qed

lemma lookup_private:
  assumes "hs = [''tmp''] \<or> hs = [''var'', ''tmp'']" "\<And>c. c \<in> set cs \<Longrightarrow> slash \<notin> set c"
  shows "host_lookup HOST_ROOTS (mkpath (''private'' # hs @ cs)) = Some (mkpath hs, mkpath cs)"
proof -
  have m: "mkpath [''tmp''] = ''/tmp''" "mkpath [''var'', ''tmp''] = ''/var/tmp''" by simp_all
  have sl: "\<And>c. c \<in> set (''private'' # hs @ cs) \<Longrightarrow> slash \<notin> set c" using assms by auto
  from assms(1) show ?thesis
  proof
    assume "hs = [''tmp'']"
    with m show ?thesis
      by (subst lookup_rows) (use sl in \<open>auto simp: numeral_eq_Suc simp del: mkpath_simps\<close>)
  next
    assume "hs = [''var'', ''tmp'']"
    with m show ?thesis
      by (subst lookup_rows) (use sl in \<open>auto simp: numeral_eq_Suc simp del: mkpath_simps\<close>)
  qed
qed

text \<open>
  C15 (roundtrip). Below a valid root, mapping and unmapping are inverse up to the canonical name:
  the physical location that \<^verbatim>\<open>map_with\<close> gives for a normalized path is renamed in place by
  \<^verbatim>\<open>unmap_in_place\<close> to a host name that \<^verbatim>\<open>map_with\<close> sends to the same location.
\<close>

theorem map_unmap_roundtrip:
  assumes "valid_root root" "normal_path p" "length p < PATH_MAX" "cap \<le> PATH_MAX"
    and "map_with resolve root p cap = Ok (Some s)"
  shows "\<exists>buf n. unmap_in_place root s (length s) = Ok (Some (buf, n)) \<and> n \<le> length s \<and>
    map_with resolve root (take n buf) cap = Ok (Some s)"
proof -
  note root = valid_root_facts [OF assms(1)]
  from assms(5) obtain sub r where lk: "host_lookup HOST_ROOTS p = Some (sub, r)"
    and s: "s = root @ sub @ r" "length s < cap"
    unfolding map_with_lookup [OF assms(2,3)] by (auto split: option.splits if_splits)
  obtain hs cs where parts: "sub = mkpath hs" "hs = [''tmp''] \<or> hs = [''var'', ''tmp'']" "r = mkpath cs"
    "list_all normal_comp cs" "\<And>c. c \<in> set cs \<Longrightarrow> slash \<notin> set c"
    using lookup_parts [OF assms(2) lk] by blast
  let ?t = "mkpath (''private'' # hs @ cs)"
  have u: "unmap_text root s = Some ?t" using unmap_mapped [OF parts(2,5)] s parts by simp
  have tl: "length ?t \<le> length s" by (rule unmap_text_length [OF root(2) u])
  have "normal_path ?t"
    by (rule normal_mkpath) (use parts in \<open>auto simp: normal_comp_def\<close>)
  moreover have "length ?t < PATH_MAX" using tl s(2) assms(4) by linarith
  ultimately have "map_with resolve root ?t cap = Ok (Some s)"
    unfolding map_with_lookup [OF \<open>normal_path ?t\<close> \<open>length ?t < PATH_MAX\<close>]
    using lookup_private [OF parts(2,5)] s parts by simp
  then show ?thesis
    using unmap_in_place_text [OF root(2), of "length s" s] u tl by simp
qed

theorem map_unmap_roundtrip_witness:
  "\<exists>buf n. unmap_in_place ''/Users/ws'' ''/Users/ws/tmp/a'' 15 = Ok (Some (buf, n)) \<and> n \<le> 15 \<and>
     map_with (\<lambda>_ _. Err ENOSYS) ''/Users/ws'' (take n buf) 100 = Ok (Some ''/Users/ws/tmp/a'')"
proof -
  have e: "valid_root ''/Users/ws''" "normal_path ''/tmp/a''" "length ''/tmp/a'' < PATH_MAX"
    "(100 :: nat) \<le> PATH_MAX" "host_lookup HOST_ROOTS ''/tmp/a'' = Some (''/tmp'', ''/a'')"
    by code_simp+
  then have "map_with (\<lambda>_ _. Err ENOSYS) ''/Users/ws'' ''/tmp/a'' 100 = Ok (Some ''/Users/ws/tmp/a'')"
    using map_with_lookup [OF e(2,3), of "\<lambda>_ _. Err ENOSYS" "''/Users/ws''" 100] by simp
  moreover have "length ''/Users/ws/tmp/a'' = 15" by simp
  ultimately show ?thesis using map_unmap_roundtrip [OF e(1-4)] by metis
qed

end
