(* ===== verification/Tmp_Safe.thy ===== *)
theory Tmp_Safe
  imports Tmp_Map
begin

text \<open>
  Safety of the temporary-path mapping: results stay in the private tree, no index is out of
  range, and the kernel is asked at most once per \<open>..\<close> of the path.
\<close>

section \<open>Staying private\<close>

text \<open>The two directories above a host temporary root that are long enough to pass as roots.\<close>

definition above_host_root :: "bytes \<Rightarrow> bool" where
  "above_host_root root = (root = ''/private'' \<or> root = ''/private/var'')"

lemma lookup_None:
  assumes "\<And>c. c \<in> set cs \<Longrightarrow> slash \<notin> set c"
  shows "host_lookup HOST_ROOTS (mkpath cs) = None \<longleftrightarrow>
    take 3 cs \<noteq> [''private'', ''var'', ''tmp''] \<and> take 2 cs \<noteq> [''private'', ''tmp''] \<and>
    take 2 cs \<noteq> [''var'', ''tmp''] \<and> take 1 cs \<noteq> [''tmp'']"
  by (subst lookup_rows) (use assms in auto)

lemma lookup_below_root:
  assumes "normal_path root" "8 \<le> length root" "host_lookup HOST_ROOTS root = None"
    and "\<not> above_host_root root" and hs: "hs = [''tmp''] \<or> hs = [''var'', ''tmp'']"
    and sl: "\<And>c. c \<in> set cs \<Longrightarrow> slash \<notin> set c"
  shows "host_lookup HOST_ROOTS (root @ mkpath hs @ mkpath cs) = None"
proof -
  obtain rs where rs: "root = mkpath rs" "rs \<noteq> []" "\<And>c. c \<in> set rs \<Longrightarrow> slash \<notin> set c"
    using normal_path_comps [OF assms(1)] by blast
  have L: "take 3 rs \<noteq> [''private'', ''var'', ''tmp''] \<and> take 2 rs \<noteq> [''private'', ''tmp''] \<and>
      take 2 rs \<noteq> [''var'', ''tmp''] \<and> take 1 rs \<noteq> [''tmp'']"
    using assms(3) rs(3) unfolding rs(1) by (subst (asm) lookup_None) blast+
  have no: "rs \<noteq> [''private'']" "rs \<noteq> [''private'', ''var'']" "rs \<noteq> [''var'']"
    using assms(2,4) rs(1) by (auto simp: above_host_root_def)
  have all: "\<And>c. c \<in> set (rs @ hs @ cs) \<Longrightarrow> slash \<notin> set c" using rs(3) sl hs by auto
  obtain r1 rs1 where r1: "rs = r1 # rs1" using rs(2) by (cases rs) auto
  have "take 3 (rs @ hs @ cs) \<noteq> [''private'', ''var'', ''tmp''] \<and>
      take 2 (rs @ hs @ cs) \<noteq> [''private'', ''tmp''] \<and>
      take 2 (rs @ hs @ cs) \<noteq> [''var'', ''tmp''] \<and> take 1 (rs @ hs @ cs) \<noteq> [''tmp'']"
    using L no hs r1 by (cases rs1; cases "tl rs1") (auto simp: numeral_eq_Suc)
  with all have "host_lookup HOST_ROOTS (mkpath (rs @ hs @ cs)) = None"
    by (subst lookup_None) blast+
  then show ?thesis by (simp add: rs(1) mkpath_append)
qed



text \<open>
  The exception is real: \<^verbatim>\<open>valid_root\<close> accepts \<open>/private\<close>, which is exactly eight bytes
  long, and with that root the private location of \<open>/tmp/x\<close> is the host's own \<open>/private/tmp/x\<close>.
\<close>

theorem valid_root_private:
  "valid_root ''/private'' \<and>
   map_with resolve ''/private'' ''/tmp/x'' PATH_MAX = Ok (Some ''/private/tmp/x'') \<and>
   host_lookup HOST_ROOTS ''/private/tmp/x'' \<noteq> None"
proof -
  have e: "valid_root ''/private''" "normal_path ''/tmp/x''" "length ''/tmp/x'' < PATH_MAX"
    "host_lookup HOST_ROOTS ''/tmp/x'' = Some (''/tmp'', ''/x'')"
    "host_lookup HOST_ROOTS ''/private/tmp/x'' = Some (''/tmp'', ''/x'')"
    "\<not> PATH_MAX \<le> length (''/private/tmp/x'')"
    by code_simp+
  then show ?thesis
    using map_with_lookup [OF e(2,3), of resolve "''/private''" PATH_MAX] by simp
qed

section \<open>Indices\<close>

fun scan_in :: "nat \<Rightarrow> scan \<Rightarrow> bool" where
  "scan_in n (STemp sub parent start depth named) = (start < n)"
| "scan_in n _ = True"

fun escape_in :: "bytes \<Rightarrow> bytes list \<Rightarrow> escape_point \<Rightarrow> bool" where
  "escape_in cur cs (start, sub, c, e) =
     (start \<le> c \<and> c \<le> length cur \<and> e \<le> length cur \<and> ''..'' \<in> set cs)"

fun scan_result_in :: "bytes \<Rightarrow> bytes list \<Rightarrow> scan + escape_point \<Rightarrow> bool" where
  "scan_result_in cur cs (Inl st) = scan_in (Suc (length cur)) st"
| "scan_result_in cur cs (Inr e) = escape_in cur cs e"

lemma scan_step_in:
  assumes "scan_in pos st" "pos + length c \<le> length cur"
  shows "case scan_step after pos (pos + length c) st c of
      Inl st' \<Rightarrow> scan_in (pos + length c + 1) st'
    | Inr e \<Rightarrow> escape_in cur [c] e"
  using assms by (cases st) auto

lemma scan_loop_in:
  "pos + length (mkpath cs) = Suc (length cur) \<Longrightarrow> scan_in pos st \<Longrightarrow>
     scan_result_in cur cs (scan_loop cur cs pos st)"
proof (induction cs arbitrary: pos st)
  case (Cons c cs)
  have len: "pos + length c \<le> length cur" using Cons.prems(1) by simp
  note step = scan_step_in [OF Cons.prems(2) len, of "drop (pos + length c + 1) cur"]
  show ?case
  proof (cases "scan_step (drop (pos + length c + 1) cur) pos (pos + length c) st c")
    case (Inl st')
    have "scan_result_in cur cs (scan_loop cur cs (pos + length c + 1) st')"
      by (rule Cons.IH) (use Cons.prems(1) step Inl in auto)
    with Inl show ?thesis
      by (cases "scan_loop cur cs (pos + length c + 1) st'") auto
  next
    case (Inr e)
    with step show ?thesis by (cases e) auto
  qed
qed simp

lemma scan_path_in: "scan_result_in cur (split_on slash cur) (scan_path cur)"
  unfolding scan_path_def by (rule scan_loop_in) (simp_all add: mkpath_split)

text \<open>The answers of the kernel that fit the buffer they are written to.\<close>

definition kernel_ok :: "(nat \<Rightarrow> bytes \<Rightarrow> bytes res) \<Rightarrow> bool" where
  "kernel_ok resolve = (\<forall>k t. res_ok (\<lambda>r. length r \<le> PATH_MAX) (resolve k t))"

lemma map_finish_ok:
  assumes "scan_in (Suc (length cur)) st"
  shows "res_ok (\<lambda>r. \<forall>s. r = Some s \<longrightarrow> length s < cap) (map_finish root cap cur rw st)"
  using assms by (cases st) (auto simp: map_finish_def)

lemma map_rewrite_ok:
  assumes root: "8 \<le> length root" and res: "\<And>t. res_ok (\<lambda>r. length r \<le> PATH_MAX) (resolve t)"
    and esc: "escape_in cur cs esc"
  shows "res_ok (\<lambda>next. length next < PATH_MAX) (map_rewrite resolve root cap cur esc)"
proof -
  obtain start sub c e where x: "esc = (start, sub, c, e)" by (cases esc)
  with esc have in_range: "start \<le> c" "c \<le> length cur" "e \<le> length cur" by auto
  let ?head = "case sub of None \<Rightarrow> [] | Some s \<Rightarrow> root @ s"
  let ?prefix = "take (c - start) (drop start cur)"
  from res [of "?head @ ?prefix @ ''/''"] show ?thesis
  proof (cases rule: res_ok_cases)
    case (Ok r)
    have hn: "length (host_name root r) \<le> length r" by (rule host_name_length [OF root])
    have buf: "copy_at 0 r (replicate PATH_MAX nul) = Ok (r @ replicate (PATH_MAX - length r) nul)"
      using Ok by simp
    have un: "unmap_or root (r @ replicate (PATH_MAX - length r) nul) (length r) =
        Ok (host_name root r @ drop (length (host_name root r)) (r @ replicate (PATH_MAX - length r) nul),
            length (host_name root r))"
      using unmap_or_text [OF root, of "length r" "r @ replicate (PATH_MAX - length r) nul"] by simp
    show ?thesis
      using x in_range Ok hn buf un by (simp add: map_rewrite_def Let_def del: copy_at_Ok)
  next
    case (Err e')
    then show ?thesis using x in_range by (simp add: map_rewrite_def Let_def)
  qed
qed

lemma map_loop_ok:
  assumes "8 \<le> length root" "kernel_ok resolve"
  shows "res_ok (\<lambda>r. \<forall>s. r = Some s \<longrightarrow> length s < cap)
    (map_loop resolve root cap k cur rw dd)"
  using assms
proof (induction resolve root cap k cur rw dd rule: map_loop.induct)
  case (1 resolve root cap k cur rw dd)
  show ?case
  proof (cases "scan_path cur")
    case (Inl st)
    then have "scan_in (Suc (length cur)) st" using scan_path_in [of cur] by simp
    from map_finish_ok [OF this] Inl show ?thesis by (subst map_loop.simps) simp
  next
    case (Inr esc)
    then have esc: "escape_in cur (split_on slash cur) esc" using scan_path_in [of cur] by simp
    have "res_ok (\<lambda>next. length next < PATH_MAX) (map_rewrite (resolve k) root cap cur esc)"
      by (rule map_rewrite_ok [OF "1.prems"(1) _ esc]) (use "1.prems"(2) in \<open>simp add: kernel_ok_def\<close>)
    then show ?thesis
    proof (cases rule: res_ok_cases)
      case (Ok nxt)
      show ?thesis
      proof (cases "dd \<le> dotdot_count nxt")
        case True
        with Inr Ok show ?thesis by (subst map_loop.simps) simp
      next
        case False
        from "1.IH" [OF Inr Ok(1) False "1.prems"] Inr Ok False show ?thesis
          by (subst map_loop.simps) simp
      qed
    next
      case (Err e)
      with Inr show ?thesis by (subst map_loop.simps) simp
    qed
  qed
qed



section \<open>Kernel calls\<close>

lemma escape_dotdot: "scan_path cur = Inr esc \<Longrightarrow> 0 < dotdot_count cur"
  using scan_path_in [of cur] by (cases esc) (auto simp: dotdot_count_def filter_empty_conv)

lemma map_loop_calls:
  assumes "\<And>j. k \<le> j \<Longrightarrow> j < k + dd \<Longrightarrow> resolve j = resolve' j" and "dd = dotdot_count cur"
  shows "map_loop resolve root cap k cur rw dd = map_loop resolve' root cap k cur rw dd"
  using assms
proof (induction resolve root cap k cur rw dd rule: map_loop.induct)
  case (1 resolve root cap k cur rw dd)
  show ?case
  proof (cases "scan_path cur")
    case (Inl st)
    then show ?thesis by (subst (1 2) map_loop.simps) simp
  next
    case (Inr esc)
    then have "0 < dd" using escape_dotdot "1.prems"(2) by simp
    then have e: "resolve k = resolve' k" using "1.prems"(1) by simp
    show ?thesis
    proof (cases "map_rewrite (resolve k) root cap cur esc")
      case (Ok nxt)
      show ?thesis
      proof (cases "dd \<le> dotdot_count nxt")
        case False
        have "map_loop resolve root cap (k + 1) nxt (rw \<or> fst (snd esc) \<noteq> None) (dotdot_count nxt) =
            map_loop resolve' root cap (k + 1) nxt (rw \<or> fst (snd esc) \<noteq> None) (dotdot_count nxt)"
          by (rule "1.IH" [OF Inr Ok False]) (use "1.prems"(1) False in auto)
        with Inr Ok False e show ?thesis by (subst (1 2) map_loop.simps) simp
      qed (use Inr Ok e in \<open>subst (1 2) map_loop.simps, simp\<close>)
    qed (use Inr e in \<open>subst (1 2) map_loop.simps, simp\<close>)+
  qed
qed

text \<open>
  C18 (termination). \<^verbatim>\<open>map_with\<close> asks the kernel at most as often as the path has \<open>..\<close>
  components: only the first \<open>dotdot_count path\<close> answers can influence the result. A path
  without \<open>..\<close> is mapped without a system call.
\<close>

theorem map_with_calls:
  assumes "\<forall>j < dotdot_count path. resolve j = resolve' j"
  shows "map_with resolve root path cap = map_with resolve' root path cap"
  using map_loop_calls [of 0 "dotdot_count path" resolve resolve' path] assms
  by (simp add: map_with_def)

theorem map_with_calls_witness:
  "map_with (\<lambda>_ _. Err ENOENT) ''/Users/ws'' ''/tmp/a'' 50 =
   map_with (\<lambda>_ _. Ok ''/x'') ''/Users/ws'' ''/tmp/a'' 50"
proof -
  have "dotdot_count ''/tmp/a'' = 0" by code_simp
  then show ?thesis by (intro map_with_calls) simp
qed

section \<open>Relative paths\<close>

text \<open>
  \<^verbatim>\<open>map_at_with\<close> returns for every relative or absolute path, whatever directory the
  kernel reports as the base: no index is out of range, and what it writes fits the caller's
  buffer. A relative path that could reach a host temporary root is never passed through
  when the base is unknown: the error of the kernel is returned.
\<close>

theorem map_at_total:
  assumes "valid_root root" "kernel_ok resolve" "res_ok (\<lambda>_. True) base"
  shows "res_ok (\<lambda>r. \<forall>s. r = Some s \<longrightarrow> length s < cap) (map_at_with resolve base root path cap) \<and>
    (\<forall>e. base = Err e \<and> \<not> starts_with path ''/'' \<and> ''..'' \<in> set (split_on slash path) \<longrightarrow>
       map_at_with resolve base root path cap = Err e)"
proof
  note root = valid_root_facts(2) [OF assms(1)]
  have mw: "res_ok (\<lambda>r. \<forall>s. r = Some s \<longrightarrow> length s < cap) (map_with resolve root p cap)" for p
    using map_loop_ok [OF root assms(2)] by (simp add: map_with_def)
  have mj: "res_ok (\<lambda>r. \<forall>s. r = Some s \<longrightarrow> length s < cap) (map_joined resolve root cap u p)" for p u
    unfolding map_joined_def by (rule res_ok_bind [OF mw]) (auto split: option.split)
  have "res_ok (\<lambda>_. True) (join_relative start path)" for start
    by (simp add: join_relative_def split_beta Let_def)
  note join = res_ok_bind [OF this mj]
  from assms(3) show "res_ok (\<lambda>r. \<forall>s. r = Some s \<longrightarrow> length s < cap)
      (map_at_with resolve base root path cap)"
  proof (cases rule: res_ok_cases)
    case (Ok b)
    show ?thesis
    proof (cases "PATH_MAX \<le> length b")
      case False
      let ?buf = "b @ replicate (PATH_MAX - length b) nul"
      have buf: "copy_at 0 b (replicate PATH_MAX nul) = Ok ?buf" using False by simp
      note un = unmap_in_place_text [OF root, of "length b" ?buf]
      show ?thesis
      proof (cases "unmap_text root b")
        case None
        with Ok False buf un mw join show ?thesis
          by (simp add: map_at_with_def del: copy_at_Ok)
      next
        case (Some t)
        with unmap_text_length [OF root Some] Ok False buf un mw join show ?thesis
          by (simp add: map_at_with_def del: copy_at_Ok)
      qed
    qed (use Ok mw in \<open>simp add: map_at_with_def\<close>)
  next
    case (Err e)
    with mw show ?thesis by (simp add: map_at_with_def)
  qed
qed (auto simp: map_at_with_def list_ex_iff)

theorem map_at_total_witness:
  "map_at_with (\<lambda>_ _. Err ENOENT) (Err EBADF) ''/Users/ws'' ''../tmp/a'' 50 = Err EBADF"
proof -
  have "valid_root ''/Users/ws''" by code_simp
  moreover have "kernel_ok (\<lambda>_ _. Err ENOENT)" by (simp add: kernel_ok_def)
  moreover have "''..'' \<in> set (split_on slash ''../tmp/a'')" "\<not> starts_with ''../tmp/a'' ''/''"
    by simp_all
  ultimately show ?thesis
    using map_at_total [of "''/Users/ws''" "\<lambda>_ _. Err ENOENT" "Err EBADF" 50 "''../tmp/a''"]
    by simp
qed

end
