(* ===== verification/Registry.thy ===== *)
theory Registry
  imports Op_Line Tmp_Path
begin

text \<open>
  The workspace registry of \<^verbatim>\<open>crates/world-runtime/src/silo.rs\<close>: creating a workspace,
  looking it up, and the temporary roots that workspaces of several registries claim below a
  shared home directory. The disk is explicit: the registry files by state directory, and the
  temporary roots with their owner markers. What the operating system decides (canonical
  paths, which directories exist, whether a root can be hardened, which loopback aliases are
  bound, random bytes, which system calls fail) is the record \<open>env\<close>, a parameter of every
  operation. A registry file is what \<^verbatim>\<open>records\<close> parses and validates. The lock of a registry is held from the read that decides to the last write, so that an operation is one
  step for its registry; the steps that several registries interleave below a shared home are
  those of \<open>claim_root\<close>, which Claims treats one system call at a time.
\<close>

section \<open>Results\<close>

datatype fault =
    InvalidId | WorkdirMissing | WorkdirNotDir | WorkdirNotDedicated | SharedTemp | UsesVm
  | OtherWorkdir | PoolExhausted | UnknownWorkspace | InvalidEntry | BackendConflict
  | UnusableRoot | NoTempRoot | BadShape | TooShallow | UnexpectedLocation | InvalidRegistryId
  | HomeUnavailable | Io nat

type_synonym 'a outcome_of = "fault + 'a"

fun bind_of :: "'a outcome_of \<Rightarrow> ('a \<Rightarrow> 'b outcome_of) \<Rightarrow> 'b outcome_of" where
  "bind_of (Inl e) f = Inl e"
| "bind_of (Inr a) f = f a"

lemma bind_of_Inr_iff: "bind_of r f = Inr b \<longleftrightarrow> (\<exists>a. r = Inr a \<and> f a = Inr b)"
  by (cases r) auto

section \<open>Paths\<close>

datatype component = RootDir | CurDir | ParentDir | Normal bytes

fun comp_of :: "bytes \<Rightarrow> component list" where
  "comp_of c = (if c = [] \<or> c = ''.'' then [] else if c = ''..'' then [ParentDir] else [Normal c])"

text \<open>\<^verbatim>\<open>Path::components\<close>: repeated slashes and inner dots vanish, a leading dot does not.\<close>

definition components :: "bytes \<Rightarrow> component list" where
  "components p =
     (if starts_with p ''/'' then RootDir # concat (map comp_of (split_on slash p))
      else
        (if hd (split_on slash p) = ''.'' then [CurDir] else []) @
        concat (map comp_of (split_on slash p)))"

definition is_absolute :: "bytes \<Rightarrow> bool" where
  "is_absolute p = starts_with p ''/''"

definition path_starts_with :: "bytes \<Rightarrow> bytes \<Rightarrow> bool" where
  "path_starts_with p dir = (take (length (components dir)) (components p) = components dir)"

text \<open>\<^verbatim>\<open>Path::join\<close>.\<close>

definition join_path :: "bytes \<Rightarrow> bytes \<Rightarrow> bytes" where
  "join_path p q =
     (if is_absolute q then q
      else if p = [] \<or> ends_with p ''/'' then p @ q
      else p @ ''/'' @ q)"

section \<open>Addresses\<close>

type_synonym ip4 = "nat \<times> nat \<times> nat \<times> nat"

text \<open>\<^verbatim>\<open>Ipv4Addr::new(127, 77, (n >> 8) as u8, n as u8)\<close>.\<close>

definition pool_ip :: "nat \<Rightarrow> ip4" where
  "pool_ip n = (127, 77, n div 256 mod 256, n mod 256)"

definition show_ip :: "ip4 \<Rightarrow> bytes" where
  "show_ip = (\<lambda>(a, b, c, d).
     show_radix 10 a @ ''.'' @ show_radix 10 b @ ''.'' @ show_radix 10 c @ ''.'' @ show_radix 10 d)"

section \<open>State\<close>

record world =
  w_id :: bytes
  w_ip :: ip4
  w_workdir :: bytes
  w_temp_root :: "bytes option"

text \<open>A record of another backend keeps its content; the registry only carries it along.\<close>

datatype entry_of = Native world | Vm bytes

record registry_dir =
  r_records :: "(bytes, entry_of) btree"
  r_id :: "bytes option"

text \<open>
  \<open>d_roots\<close> gives for the components of a path: no such directory, a directory without a
  marker, or one with the marker of an owner.
\<close>

datatype root_state = Absent | Unmarked | Owned bytes

record disk =
  d_states :: "bytes \<Rightarrow> registry_dir"
  d_roots :: "component list \<Rightarrow> root_state"

datatype os = MacOS | Linux

record env =
  e_os :: os
  e_home_var :: "bytes option"
  e_canon :: "bytes \<Rightarrow> bytes option"
  e_is_dir :: "bytes \<Rightarrow> bool"
  e_alias_ready :: "ip4 \<Rightarrow> bool"
  e_random :: bytes
  e_harden :: "bytes \<Rightarrow> fault option"
  e_left :: "bytes \<Rightarrow> bool"
  e_lock :: "fault option"
  e_read :: "fault option"
  e_persist :: "bytes \<Rightarrow> (fault \<times> bool) option"
  e_marker :: "bytes \<Rightarrow> (fault \<times> nat option) option"

definition root_at :: "disk \<Rightarrow> bytes \<Rightarrow> root_state" where
  "root_at d p = d_roots d (components p)"

definition set_root :: "bytes \<Rightarrow> root_state \<Rightarrow> disk \<Rightarrow> disk" where
  "set_root p s d = d\<lparr>d_roots := (d_roots d)(components p := s)\<rparr>"

definition set_state :: "bytes \<Rightarrow> registry_dir \<Rightarrow> disk \<Rightarrow> disk" where
  "set_state state r d = d\<lparr>d_states := (d_states d)(state := r)\<rparr>"

section \<open>Actions\<close>

text \<open>A function that reads and writes the disk and may fail; \<open>bind_act\<close> is \<^verbatim>\<open>?\<close>.\<close>

type_synonym 'a act = "disk \<Rightarrow> disk \<times> 'a outcome_of"

definition ret :: "'a \<Rightarrow> 'a act" where
  "ret a d = (d, Inr a)"

definition fail :: "fault \<Rightarrow> 'a act" where
  "fail e d = (d, Inl e)"

definition lift :: "'a outcome_of \<Rightarrow> 'a act" where
  "lift r d = (d, r)"

definition bind_act :: "'a act \<Rightarrow> ('a \<Rightarrow> 'b act) \<Rightarrow> 'b act" where
  "bind_act m f d = (case m d of (d1, Inl e) \<Rightarrow> (d1, Inl e) | (d1, Inr a) \<Rightarrow> f a d1)"

definition reads :: "(disk \<Rightarrow> 'a) \<Rightarrow> 'a act" where
  "reads f d = (d, Inr (f d))"

definition writes :: "(disk \<Rightarrow> disk) \<Rightarrow> unit act" where
  "writes f d = (f d, Inr ())"

text \<open>\<^verbatim>\<open>ok_or\<close> and \<^verbatim>\<open>ensure!\<close>.\<close>

definition some_or :: "fault \<Rightarrow> 'a option \<Rightarrow> 'a act" where
  "some_or e x = (case x of None \<Rightarrow> fail e | Some a \<Rightarrow> ret a)"

definition ensure :: "fault \<Rightarrow> bool \<Rightarrow> unit act" where
  "ensure e b = (if b then ret () else fail e)"

text \<open>
  The system calls that may fail: taking the lock of a state directory (\<open>e_lock\<close>), reading and
  parsing a file of it (\<open>e_read\<close>), and \<^verbatim>\<open>persist\<close>, which replaces a file by a rename and can
  fail before it or, when the directory is synced, after it (\<open>e_persist\<close>, whether the file was
  replaced).
\<close>

definition attempt :: "fault option \<Rightarrow> unit act" where
  "attempt x = (case x of None \<Rightarrow> ret () | Some e \<Rightarrow> fail e)"

definition persist :: "env \<Rightarrow> bytes \<Rightarrow> (disk \<Rightarrow> disk) \<Rightarrow> unit act" where
  "persist v name f =
     (case e_persist v name of
        None \<Rightarrow> writes f
      | Some (e, replaced) \<Rightarrow>
          bind_act (writes (if replaced then f else (\<lambda>d. d))) (\<lambda>_. fail e))"

section \<open>Shared temporary directories\<close>

definition SHARED_TEMP :: "env \<Rightarrow> bytes list" where
  "SHARED_TEMP v =
     (case e_os v of
        MacOS \<Rightarrow> [''/private/tmp'', ''/private/var/tmp'']
      | Linux \<Rightarrow> [''/tmp'', ''/var/tmp''])"

definition in_temp_dirs :: "env \<Rightarrow> bytes \<Rightarrow> bytes list \<Rightarrow> bool" where
  "in_temp_dirs v p dirs =
     list_ex (\<lambda>dir. path_starts_with p dir \<or>
       (case e_canon v dir of Some real \<Rightarrow> path_starts_with p real | None \<Rightarrow> False)) dirs"

definition in_shared_temp :: "env \<Rightarrow> bytes \<Rightarrow> bool" where
  "in_shared_temp v p = in_temp_dirs v p (SHARED_TEMP v)"

definition reject_shared_temp :: "env \<Rightarrow> bytes \<Rightarrow> unit outcome_of" where
  "reject_shared_temp v p = (if in_shared_temp v p then Inl SharedTemp else Inr ())"

definition check_workdir :: "env \<Rightarrow> bytes \<Rightarrow> unit outcome_of" where
  "check_workdir v dir = reject_shared_temp v dir"

definition stale_workdir :: "env \<Rightarrow> bytes \<Rightarrow> bool" where
  "stale_workdir v stored =
     (in_shared_temp v stored \<or> list_ex (path_starts_with stored) [''/tmp'', ''/var/tmp''] \<or>
      (case e_canon v stored of Some p \<Rightarrow> in_shared_temp v p | None \<Rightarrow> False))"

text \<open>\<^verbatim>\<open>run::workdir\<close>.\<close>

definition run_workdir :: "env \<Rightarrow> bytes \<Rightarrow> bytes outcome_of" where
  "run_workdir v path =
     (case e_canon v path of
        None \<Rightarrow> Inl WorkdirMissing
      | Some dir \<Rightarrow>
          if \<not> e_is_dir v dir then Inl WorkdirNotDir
          else if components dir = [RootDir] \<or>
              (case e_home_var v of
                 None \<Rightarrow> False
               | Some p \<Rightarrow> (case e_canon v p of None \<Rightarrow> False | Some h \<Rightarrow> path_starts_with h dir))
          then Inl WorkdirNotDedicated
          else Inr dir)"

text \<open>\<^verbatim>\<open>host_home\<close>, the callback of \<^verbatim>\<open>create\<close> and \<^verbatim>\<open>get\<close>.\<close>

definition host_home :: "env \<Rightarrow> bytes outcome_of" where
  "host_home v =
     (case e_home_var v of
        None \<Rightarrow> Inl HomeUnavailable
      | Some p \<Rightarrow>
          (case e_canon v p of
             None \<Rightarrow> Inl HomeUnavailable
           | Some home \<Rightarrow> bind_of (reject_shared_temp v home) (\<lambda>_. Inr home)))"

section \<open>Temporary roots\<close>

definition root_for :: "bytes \<Rightarrow> ip4 \<Rightarrow> bytes" where
  "root_for home ip = join_path (join_path home ''.world/tmp'') (show_ip ip)"

definition normalized :: "bytes \<Rightarrow> bool" where
  "normalized root =
     (is_absolute root \<and> list_all (\<lambda>c. c \<noteq> CurDir \<and> c \<noteq> ParentDir) (components root))"

definition check_root :: "env \<Rightarrow> bytes \<Rightarrow> unit outcome_of" where
  "check_root v root =
     (if e_os v \<noteq> MacOS then
        (if normalized root \<and> \<not> in_shared_temp v root then Inr () else Inl UnusableRoot)
      else if MAX_ROOT_LEN < length root then Inl UnusableRoot
      else if valid_root root then Inr ()
      else Inl UnusableRoot)"

definition new_root :: "env \<Rightarrow> bytes \<Rightarrow> ip4 \<Rightarrow> bytes outcome_of" where
  "new_root v home ip = bind_of (check_root v (root_for home ip)) (\<lambda>_. Inr (root_for home ip))"

text \<open>
  \<^verbatim>\<open>temp_root_in\<close> builds and hardens the directory tree of a root by descriptor. Which of its
  system calls fail is \<open>e_harden\<close>, and whether the directory is there after a failure
  \<open>e_left\<close>; it never touches a marker.
\<close>

definition make_root :: "bytes \<Rightarrow> disk \<Rightarrow> disk" where
  "make_root root d = (if root_at d root = Absent then set_root root Unmarked d else d)"

definition temp_root_in :: "env \<Rightarrow> bytes \<Rightarrow> ip4 \<Rightarrow> bytes act" where
  "temp_root_in v home ip =
     (let root = root_for home ip
      in case e_harden v root of
           Some e \<Rightarrow>
             bind_act (writes (if e_left v root then make_root root else (\<lambda>d. d))) (\<lambda>_. fail e)
         | None \<Rightarrow> bind_act (writes (make_root root)) (\<lambda>_. ret root))"

text \<open>
  The marker is created exclusively and then written. \<open>e_marker\<close> is the error of one of these
  calls, or of reading a marker that is there, and how much of a new marker was written by then.
\<close>

definition mark_root :: "env \<Rightarrow> bytes \<Rightarrow> bytes \<Rightarrow> bool act" where
  "mark_root v root owner =
     bind_act (reads (\<lambda>d. root_at d root)) (\<lambda>s.
       case s of
         Absent \<Rightarrow> fail (Io 2)
       | Unmarked \<Rightarrow>
           (case e_marker v root of
              None \<Rightarrow> bind_act (writes (set_root root (Owned owner))) (\<lambda>_. ret True)
            | Some (e, None) \<Rightarrow> fail e
            | Some (e, Some n) \<Rightarrow>
                bind_act (writes (set_root root (Owned (take n owner)))) (\<lambda>_. fail e))
       | Owned other \<Rightarrow>
           (case e_marker v root of
              None \<Rightarrow> ret (other = owner)
            | Some (e, _) \<Rightarrow> fail e))"

definition claim_root :: "env \<Rightarrow> bytes \<Rightarrow> ip4 \<Rightarrow> bytes \<Rightarrow> bytes option act" where
  "claim_root v home ip owner =
     bind_act (lift (new_root v home ip)) (\<lambda>root.
     bind_act (reads (\<lambda>d. root_at d root)) (\<lambda>s.
       if s = Unmarked then ret None
       else
         bind_act (temp_root_in v home ip) (\<lambda>_.
         bind_act (mark_root v root owner) (\<lambda>mine.
           ret (if mine then Some root else None)))))"

definition used_ips :: "(bytes, world) btree \<Rightarrow> ip4 list" where
  "used_ips worlds = map (\<lambda>(_, w). w_ip w) worlds"

fun allocate_from ::
  "nat list \<Rightarrow> env \<Rightarrow> (bytes, world) btree \<Rightarrow> bytes \<Rightarrow> bytes \<Rightarrow> (ip4 \<times> bytes) act" where
  "allocate_from [] v worlds home owner = fail PoolExhausted"
| "allocate_from (n # ns) v worlds home owner =
     (let ip = pool_ip n
      in if ip \<in> set (used_ips worlds) \<or> (e_os v \<noteq> Linux \<and> e_alias_ready v ip)
         then allocate_from ns v worlds home owner
         else
           bind_act (claim_root v home ip owner) (\<lambda>claimed.
             case claimed of
               Some root \<Rightarrow> ret (ip, root)
             | None \<Rightarrow> allocate_from ns v worlds home owner))"

definition allocate ::
  "env \<Rightarrow> (bytes, world) btree \<Rightarrow> bytes \<Rightarrow> bytes \<Rightarrow> (ip4 \<times> bytes) act" where
  "allocate v worlds home owner = allocate_from [1..<65535] v worlds home owner"

definition fill_temp_root ::
  "env \<Rightarrow> world \<Rightarrow> (bytes, world) btree \<Rightarrow> bytes \<Rightarrow> bytes \<Rightarrow> world act" where
  "fill_temp_root v w worlds home owner =
     bind_act (claim_root v home (w_ip w) owner) (\<lambda>claimed.
       case claimed of
         Some root \<Rightarrow> ret (w\<lparr>w_temp_root := Some root\<rparr>)
       | None \<Rightarrow>
           bind_act (allocate v worlds home owner) (\<lambda>(ip, root).
             ret (w\<lparr>w_ip := ip, w_temp_root := Some root\<rparr>)))"

text \<open>
  \<^verbatim>\<open>Path::parent\<close> on the text: the tail of slashes and dots goes, then the last
  component, then the tail again. The lists run backwards.
\<close>

fun drop_tail :: "bytes \<Rightarrow> bytes" where
  "drop_tail (x # y # r) =
     (if x = slash then drop_tail (y # r)
      else if x = CHR ''.'' \<and> y = slash then drop_tail r
      else x # y # r)"
| "drop_tail [x] = (if x = slash then [] else [x])"
| "drop_tail [] = []"

definition parent_path :: "bytes \<Rightarrow> bytes option" where
  "parent_path p =
     (let t = drop_tail (rev p)
      in if t = [] then None
         else
           let u = drop_tail (dropWhile (\<lambda>b. b \<noteq> slash) t)
           in Some (if u = [] then (if is_absolute p then ''/'' else []) else rev u))"

text \<open>\<^verbatim>\<open>root.ancestors().nth(3)\<close>.\<close>

definition home_of :: "bytes \<Rightarrow> bytes option" where
  "home_of root = Option.bind (Option.bind (parent_path root) parent_path) parent_path"

definition file_name :: "bytes \<Rightarrow> bytes option" where
  "file_name p =
     (if components p = [] then None
      else case last (components p) of Normal c \<Rightarrow> Some c | _ \<Rightarrow> None)"

definition shape_ok :: "bytes \<Rightarrow> ip4 \<Rightarrow> bool" where
  "shape_ok root ip =
     (normalized root \<and> file_name root = Some (show_ip ip) \<and>
      Option.bind (parent_path root) file_name = Some ''tmp'' \<and>
      Option.bind (Option.bind (parent_path root) parent_path) file_name = Some ''.world'')"

text \<open>\<^verbatim>\<open>temp_root\<close>: the recorded root, checked and rebuilt.\<close>

definition temp_root :: "env \<Rightarrow> world \<Rightarrow> bytes act" where
  "temp_root v w =
     bind_act (some_or NoTempRoot (w_temp_root w)) (\<lambda>root.
     bind_act (lift (check_root v root)) (\<lambda>_.
     bind_act (ensure BadShape (shape_ok root (w_ip w))) (\<lambda>_.
     bind_act (some_or TooShallow (home_of root)) (\<lambda>home.
     bind_act (lift (reject_shared_temp v home)) (\<lambda>_.
     bind_act (temp_root_in v home (w_ip w)) (\<lambda>got.
     bind_act (ensure UnexpectedLocation (components got = components root)) (\<lambda>_.
       ret got)))))))"

section \<open>Registry files\<close>

fun native_of :: "(bytes, entry_of) btree \<Rightarrow> (bytes, world) btree" where
  "native_of [] = []"
| "native_of ((wid, Native w) # r) = (wid, w) # native_of r"
| "native_of ((wid, Vm x) # r) = native_of r"

definition registry :: "bytes \<Rightarrow> disk \<Rightarrow> (bytes, world) btree" where
  "registry state d = native_of (r_records (d_states d state))"

definition vm_get :: "bytes \<Rightarrow> bytes \<Rightarrow> disk \<Rightarrow> bytes option" where
  "vm_get state wid d =
     (case bt_get (r_records (d_states d state)) wid of Some (Vm x) \<Rightarrow> Some x | _ \<Rightarrow> None)"

definition is_hex :: "byte \<Rightarrow> bool" where
  "is_hex b = (between (CHR ''0'') (CHR ''9'') b \<or> between (CHR ''a'') (CHR ''f'') b \<or>
     between (CHR ''A'') (CHR ''F'') b)"

definition good_id :: "bytes \<Rightarrow> bool" where
  "good_id i = (length i = 32 \<and> list_all is_hex i)"

definition registry_id :: "env \<Rightarrow> bytes \<Rightarrow> bytes act" where
  "registry_id v state =
     bind_act (attempt (e_read v)) (\<lambda>_.
     bind_act (reads (\<lambda>d. d_states d state)) (\<lambda>st.
       case r_id st of
         Some i \<Rightarrow> bind_act (ensure InvalidRegistryId (good_id i)) (\<lambda>_. ret i)
       | None \<Rightarrow>
           let i = concat (map hex2 (e_random v))
           in bind_act (persist v ''registry-id'' (set_state state (st\<lparr>r_id := Some i\<rparr>))) (\<lambda>_. ret i)))"

definition owner_text :: "bytes \<Rightarrow> bytes \<Rightarrow> bytes" where
  "owner_text rid wid = rid @ [CHR 0x0A] @ wid @ [CHR 0x0A]"

definition root_owner :: "env \<Rightarrow> bytes \<Rightarrow> bytes \<Rightarrow> bytes act" where
  "root_owner v state wid = bind_act (registry_id v state) (\<lambda>rid. ret (owner_text rid wid))"

fun save_worlds :: "(bytes, world) btree \<Rightarrow> (bytes, entry_of) btree \<Rightarrow> (bytes, entry_of) btree outcome_of" where
  "save_worlds [] records = Inr records"
| "save_worlds ((wid, w) # r) records =
     (if bt_get records wid \<noteq> None then Inl BackendConflict
      else save_worlds r (bt_insert wid (Native w) records))"

definition is_vm :: "entry_of \<Rightarrow> bool" where
  "is_vm e = (case e of Vm _ \<Rightarrow> True | Native _ \<Rightarrow> False)"

definition save :: "env \<Rightarrow> bytes \<Rightarrow> (bytes, world) btree \<Rightarrow> unit act" where
  "save v state worlds =
     bind_act (attempt (e_read v)) (\<lambda>_.
     bind_act (reads (\<lambda>d. d_states d state)) (\<lambda>st.
     bind_act (lift (save_worlds worlds (filter (\<lambda>(_, e). is_vm e) (r_records st)))) (\<lambda>records.
       persist v ''registry.json'' (set_state state (st\<lparr>r_records := records\<rparr>)))))"

definition valid_entry :: "world \<Rightarrow> bytes \<Rightarrow> bool" where
  "valid_entry w wid = (w_id w = wid \<and> fst (w_ip w) = 127 \<and> fst (snd (w_ip w)) = 77)"

section \<open>Operations\<close>

text \<open>The entry is written back under its id; the reply is the entry.\<close>

definition commit :: "env \<Rightarrow> bytes \<Rightarrow> (bytes, world) btree \<Rightarrow> bytes \<Rightarrow> world \<Rightarrow> world act" where
  "commit v state worlds wid w = bind_act (save v state (bt_insert wid w worlds)) (\<lambda>_. ret w)"

text \<open>The temporary root of an entry that has none: \<^verbatim>\<open>home()?\<close>, then \<^verbatim>\<open>root_owner\<close>.\<close>

definition fill_entry ::
  "env \<Rightarrow> bytes outcome_of \<Rightarrow> bytes \<Rightarrow> bytes \<Rightarrow> (bytes, world) btree \<Rightarrow> world \<Rightarrow> world act" where
  "fill_entry v home state wid worlds w =
     bind_act (lift home) (\<lambda>h.
     bind_act (root_owner v state wid) (\<lambda>owner.
       fill_temp_root v w worlds h owner))"

definition create_existing ::
  "env \<Rightarrow> bytes outcome_of \<Rightarrow> bytes \<Rightarrow> bytes \<Rightarrow> (bytes, world) btree \<Rightarrow> bytes \<Rightarrow> world \<Rightarrow> world act" where
  "create_existing v home state wid worlds dir w =
     (let differs = (components (w_workdir w) \<noteq> components dir);
          w1 = (if differs then w\<lparr>w_workdir := dir\<rparr> else w)
      in if differs \<and> \<not> stale_workdir v (w_workdir w) then fail OtherWorkdir
         else if w_temp_root w1 = None then
           bind_act (fill_entry v home state wid worlds w1) (commit v state worlds wid)
         else if differs then commit v state worlds wid w1
         else ret w1)"

definition create_new ::
  "env \<Rightarrow> bytes outcome_of \<Rightarrow> bytes \<Rightarrow> bytes \<Rightarrow> (bytes, world) btree \<Rightarrow> bytes \<Rightarrow> world act" where
  "create_new v home state wid worlds dir =
     bind_act (lift home) (\<lambda>h.
     bind_act (root_owner v state wid) (\<lambda>owner.
     bind_act (allocate v worlds h owner) (\<lambda>(ip, root).
       commit v state worlds wid
         \<lparr>w_id = wid, w_ip = ip, w_workdir = dir, w_temp_root = Some root\<rparr>)))"

definition valid_id :: "bytes \<Rightarrow> bool" where
  "valid_id wid =
     (wid \<noteq> [] \<and> length wid \<le> 128 \<and>
      list_all (\<lambda>b. b \<noteq> nul \<and> b \<noteq> CHR 0x0D \<and> b \<noteq> CHR 0x0A) wid)"

definition create_in ::
  "env \<Rightarrow> bytes outcome_of \<Rightarrow> bytes \<Rightarrow> bytes \<Rightarrow> bytes \<Rightarrow> world act" where
  "create_in v home state wid workdir =
     bind_act (ensure InvalidId (valid_id wid)) (\<lambda>_.
     bind_act (lift (run_workdir v workdir)) (\<lambda>dir.
     bind_act (lift (check_workdir v dir)) (\<lambda>_.
     bind_act (attempt (e_lock v)) (\<lambda>_.
     bind_act (attempt (e_read v)) (\<lambda>_.
     bind_act (reads (registry state)) (\<lambda>worlds.
     bind_act (reads (vm_get state wid)) (\<lambda>vm.
     bind_act (ensure UsesVm (vm = None)) (\<lambda>_.
       case bt_get worlds wid of
         Some w \<Rightarrow> create_existing v home state wid worlds dir w
       | None \<Rightarrow> create_new v home state wid worlds dir))))))))"

definition create :: "env \<Rightarrow> bytes \<Rightarrow> bytes \<Rightarrow> bytes \<Rightarrow> world act" where
  "create v state wid workdir = create_in v (host_home v) state wid workdir"

text \<open>
  \<^verbatim>\<open>get_in\<close> reads once without the lock, from the registry \<open>seen\<close>, and decides again under
  the lock, on the disk as it is by then.
\<close>

definition get_locked :: "env \<Rightarrow> bytes outcome_of \<Rightarrow> bytes \<Rightarrow> bytes \<Rightarrow> world act" where
  "get_locked v home state wid =
     bind_act (attempt (e_lock v)) (\<lambda>_.
     bind_act (attempt (e_read v)) (\<lambda>_.
     bind_act (reads (registry state)) (\<lambda>worlds.
     bind_act (some_or UnknownWorkspace (bt_get worlds wid)) (\<lambda>stored.
     bind_act (ensure InvalidEntry (valid_entry stored wid)) (\<lambda>_.
       if w_temp_root stored = None then
         bind_act (fill_entry v home state wid (bt_remove wid worlds) stored)
           (commit v state (bt_remove wid worlds) wid)
       else ret stored)))))"

definition get_in ::
  "env \<Rightarrow> bytes outcome_of \<Rightarrow> (bytes, world) btree \<Rightarrow> bytes \<Rightarrow> bytes \<Rightarrow> world act" where
  "get_in v home seen state wid =
     bind_act (attempt (e_read v)) (\<lambda>_.
     bind_act (some_or UnknownWorkspace (bt_get seen wid)) (\<lambda>w.
     bind_act (ensure InvalidEntry (valid_entry w wid)) (\<lambda>_.
       if w_temp_root w \<noteq> None then ret w else get_locked v home state wid)))"

definition get_world ::
  "env \<Rightarrow> (bytes, world) btree \<Rightarrow> bytes \<Rightarrow> bytes \<Rightarrow> world act" where
  "get_world v seen state wid = get_in v (host_home v) seen state wid"

text \<open>\<^verbatim>\<open>owned_temp_root\<close>: the entry moves to a fresh address when its root is someone else's.\<close>

definition move_world ::
  "env \<Rightarrow> bytes \<Rightarrow> (bytes, world) btree \<Rightarrow> world \<Rightarrow> bytes \<Rightarrow> bytes \<Rightarrow> (world \<times> bytes) act" where
  "move_world v state worlds stored root owner =
     bind_act (some_or TooShallow (home_of root)) (\<lambda>home.
     bind_act (allocate v worlds home owner) (\<lambda>(ip, _).
       let w = stored\<lparr>w_ip := ip, w_temp_root := Some (root_for home ip)\<rparr>
       in bind_act (save v state (bt_insert (w_id stored) w worlds)) (\<lambda>_.
          bind_act (temp_root v w) (\<lambda>root'.
            ret (w, root')))))"

definition owned_temp_root :: "env \<Rightarrow> bytes \<Rightarrow> world \<Rightarrow> (world \<times> bytes) act" where
  "owned_temp_root v state world =
     bind_act (attempt (e_lock v)) (\<lambda>_.
     bind_act (attempt (e_read v)) (\<lambda>_.
     bind_act (reads (registry state)) (\<lambda>worlds.
     bind_act (some_or UnknownWorkspace (bt_get worlds (w_id world))) (\<lambda>stored.
     bind_act (ensure InvalidEntry (valid_entry stored (w_id world))) (\<lambda>_.
     bind_act (temp_root v stored) (\<lambda>root.
     bind_act (root_owner v state (w_id stored)) (\<lambda>owner.
     bind_act (mark_root v root owner) (\<lambda>mine.
       if mine then ret (stored, root)
       else move_world v state worlds stored root owner))))))))"

end
