(* ===== verification/Registry_Inv.thy ===== *)
theory Registry_Inv
  imports Registry
begin

text \<open>
  The invariant of the registries that share a home directory, and that every operation keeps
  it: an address belongs to one workspace of its registry, and the temporary root that an entry
  records carries the marker of that entry.
\<close>

section \<open>Triples\<close>

named_theorems act_rules \<open>syntax-directed rules for triple\<close>

text \<open>
  \<open>triple P m Q E\<close>: from a disk with \<open>P\<close>, the action ends with a value and a disk in \<open>Q\<close>, or
  with an error and a disk in \<open>E\<close>.
\<close>

definition triple :: "(disk \<Rightarrow> bool) \<Rightarrow> 'a act \<Rightarrow> ('a \<Rightarrow> disk \<Rightarrow> bool) \<Rightarrow> (disk \<Rightarrow> bool) \<Rightarrow> bool" where
  "triple P m Q E \<longleftrightarrow>
     (\<forall>d. P d \<longrightarrow> (case m d of (d1, Inr a) \<Rightarrow> Q a d1 | (d1, Inl e) \<Rightarrow> E d1))"

lemma triple_InrD: "triple P m Q E \<Longrightarrow> P d \<Longrightarrow> m d = (d1, Inr a) \<Longrightarrow> Q a d1"
  by (fastforce simp: triple_def)

lemma triple_InlD: "triple P m Q E \<Longrightarrow> P d \<Longrightarrow> m d = (d1, Inl e) \<Longrightarrow> E d1"
  by (fastforce simp: triple_def)

lemma triple_bind:
  assumes "triple P m Q E" and "\<And>a. triple (Q a) (f a) R E"
  shows "triple P (bind_act m f) R E"
  unfolding triple_def
proof (intro allI impI)
  fix d assume "P d"
  then show "case bind_act m f d of (d1, Inr a) \<Rightarrow> R a d1 | (d1, Inl e) \<Rightarrow> E d1"
    using assms by (fastforce simp: triple_def bind_act_def split: prod.splits sum.splits)
qed

lemma triple_pre: "triple P m Q E \<Longrightarrow> (\<And>d. P' d \<Longrightarrow> P d) \<Longrightarrow> triple P' m Q E"
  by (auto simp: triple_def)

lemma triple_post:
  "triple P m Q E \<Longrightarrow> (\<And>a d. Q a d \<Longrightarrow> Q' a d) \<Longrightarrow> (\<And>d. E d \<Longrightarrow> E' d) \<Longrightarrow> triple P m Q' E'"
  by (fastforce simp: triple_def split: prod.splits sum.splits)

lemma triple_ret [act_rules]: "(\<And>d. P d \<Longrightarrow> Q a d) \<Longrightarrow> triple P (ret a) Q E"
  by (simp add: triple_def ret_def)

lemma triple_fail [act_rules]: "(\<And>d. P d \<Longrightarrow> E d) \<Longrightarrow> triple P (fail e) Q E"
  by (simp add: triple_def fail_def)

lemma bind_ensure [act_rules]:
  "(b \<Longrightarrow> triple P (f ()) Q E) \<Longrightarrow> (\<And>d. \<not> b \<Longrightarrow> P d \<Longrightarrow> E d) \<Longrightarrow>
     triple P (bind_act (ensure e b) f) Q E"
  by (cases b) (simp_all add: triple_def ensure_def ret_def fail_def bind_act_def)

lemma bind_some_or [act_rules]:
  "(\<And>a. x = Some a \<Longrightarrow> triple P (f a) Q E) \<Longrightarrow> (\<And>d. P d \<Longrightarrow> E d) \<Longrightarrow>
     triple P (bind_act (some_or e x) f) Q E"
  by (cases x) (simp_all add: triple_def some_or_def ret_def fail_def bind_act_def)

lemma bind_attempt [act_rules]:
  "(x = None \<Longrightarrow> triple P (f ()) Q E) \<Longrightarrow> (\<And>d. P d \<Longrightarrow> E d) \<Longrightarrow>
     triple P (bind_act (attempt x) f) Q E"
  by (cases x) (simp_all add: triple_def attempt_def ret_def fail_def bind_act_def)

lemma bind_lift [act_rules]:
  "(\<And>a. r = Inr a \<Longrightarrow> triple P (f a) Q E) \<Longrightarrow> (\<And>d. P d \<Longrightarrow> E d) \<Longrightarrow>
     triple P (bind_act (lift r) f) Q E"
  by (cases r) (simp_all add: triple_def lift_def bind_act_def)

lemma bind_reads [act_rules]:
  "(\<And>a. triple (\<lambda>d. P d \<and> a = g d) (f a) Q E) \<Longrightarrow> triple P (bind_act (reads g) f) Q E"
  by (simp add: triple_def reads_def bind_act_def)

lemma bind_writes [act_rules]:
  "triple (\<lambda>d. \<exists>d0. P d0 \<and> d = g d0) (f ()) Q E \<Longrightarrow> triple P (bind_act (writes g) f) Q E"
  by (auto simp: triple_def writes_def bind_act_def)

lemma triple_writes [act_rules]: "(\<And>d. P d \<Longrightarrow> Q () (f d)) \<Longrightarrow> triple P (writes f) Q E"
  by (simp add: triple_def writes_def)

lemma triple_if [act_rules]:
  "(b \<Longrightarrow> triple P m Q E) \<Longrightarrow> (\<not> b \<Longrightarrow> triple P m' Q E) \<Longrightarrow> triple P (if b then m else m') Q E"
  by simp

lemma triple_option [act_rules]:
  "(x = None \<Longrightarrow> triple P m Q E) \<Longrightarrow> (\<And>a. x = Some a \<Longrightarrow> triple P (f a) Q E) \<Longrightarrow>
     triple P (case x of None \<Rightarrow> m | Some a \<Rightarrow> f a) Q E"
  by (cases x) simp_all

lemma persist_run:
  "persist v name f d =
     (case e_persist v name of
        None \<Rightarrow> (f d, Inr ())
      | Some (e, replaced) \<Rightarrow> (if replaced then f d else d, Inl e))"
  by (simp add: persist_def bind_act_def writes_def fail_def split: option.splits)

section \<open>What an operation never undoes\<close>

text \<open>
  Before its last write an operation only adds: registries keep their records and identities,
  and no marker is ever replaced.
\<close>

definition extends :: "disk \<Rightarrow> disk \<Rightarrow> bool" where
  "extends d d' \<longleftrightarrow>
     (\<forall>s. r_records (d_states d' s) = r_records (d_states d s)) \<and>
     (\<forall>s i. r_id (d_states d s) = Some i \<longrightarrow> r_id (d_states d' s) = Some i) \<and>
     (\<forall>p owner. d_roots d p = Owned owner \<longrightarrow> d_roots d' p = Owned owner)"

lemma extends_refl [simp]: "extends d d"
  by (simp add: extends_def)

lemma extends_trans [trans]: "extends d d1 \<Longrightarrow> extends d1 d2 \<Longrightarrow> extends d d2"
  by (simp add: extends_def)

lemma extends_registry: "extends d d' \<Longrightarrow> registry s d' = registry s d"
  by (simp add: extends_def registry_def)

lemma extends_owned: "extends d d' \<Longrightarrow> root_at d p = Owned t \<Longrightarrow> root_at d' p = Owned t"
  by (simp add: extends_def root_at_def)

lemma extends_id:
  "extends d d' \<Longrightarrow> r_id (d_states d s) = Some i \<Longrightarrow> r_id (d_states d' s) = Some i"
  by (simp add: extends_def)

lemma extends_set_root:
  "root_at d p \<in> {Absent, Unmarked} \<Longrightarrow> extends d (set_root p x d)"
  by (auto simp: extends_def root_at_def set_root_def)

lemma extends_make_root: "extends d (make_root p d)"
  by (simp add: make_root_def extends_set_root)

lemma root_at_set_root [simp]: "root_at (set_root p x d) p = x"
  by (simp add: root_at_def set_root_def)

lemma d_states_set_root [simp]: "d_states (set_root p x d) = d_states d"
  by (simp add: set_root_def)

lemma d_states_make_root [simp]: "d_states (make_root p d) = d_states d"
  by (simp add: make_root_def)

text \<open>The actions on roots leave every registry directory as it is.\<close>

definition same_dirs :: "disk \<Rightarrow> disk \<Rightarrow> bool" where
  "same_dirs d d' \<longleftrightarrow> extends d d' \<and> d_states d' = d_states d"

lemma same_dirs_refl [simp]: "same_dirs d d"
  by (simp add: same_dirs_def)

lemma same_dirs_step: "same_dirs d0 d \<Longrightarrow> extends d d' \<Longrightarrow> d_states d' = d_states d \<Longrightarrow> same_dirs d0 d'"
  unfolding same_dirs_def using extends_trans by auto

lemma same_dirs_make: "same_dirs d0 d \<Longrightarrow> same_dirs d0 (make_root p d)"
  by (erule same_dirs_step) (simp_all add: extends_make_root)

lemma temp_root_in_ok:
  "triple (same_dirs d0) (temp_root_in v home ip)
     (\<lambda>root d. same_dirs d0 d \<and> root = root_for home ip) (same_dirs d0)"
  unfolding temp_root_in_def Let_def
  by (intro act_rules) (auto simp: same_dirs_make)

lemma mark_root_ok:
  "triple (same_dirs d0) (mark_root v root owner)
     (\<lambda>mine d. same_dirs d0 d \<and> (mine \<longrightarrow> root_at d root = Owned owner)) (same_dirs d0)"
  unfolding triple_def
proof (intro allI impI)
  fix d assume d: "same_dirs d0 d"
  then have new: "root_at d root = Unmarked \<Longrightarrow> same_dirs d0 (set_root root x d)" for x
    by (rule same_dirs_step) (simp_all add: extends_set_root)
  with d show "case mark_root v root owner d of
      (d1, Inr mine) \<Rightarrow> same_dirs d0 d1 \<and> (mine \<longrightarrow> root_at d1 root = Owned owner)
    | (d1, Inl e) \<Rightarrow> same_dirs d0 d1"
    by (cases "root_at d root")
      (auto simp: mark_root_def bind_act_def reads_def writes_def ret_def fail_def split: option.splits)
qed

definition claimed :: "bytes \<Rightarrow> bytes \<Rightarrow> disk \<Rightarrow> disk \<Rightarrow> bytes option \<Rightarrow> bool" where
  "claimed want owner d0 d r \<longleftrightarrow>
     same_dirs d0 d \<and> (\<forall>root. r = Some root \<longrightarrow> root = want \<and> root_at d root = Owned owner)"

lemma claim_root_ok:
  "triple (same_dirs d0) (claim_root v home ip owner)
     (\<lambda>r d. claimed (root_for home ip) owner d0 d r) (same_dirs d0)"
  unfolding claim_root_def
  by (intro act_rules triple_bind [OF triple_pre [OF temp_root_in_ok [of d0]]]
      triple_bind [OF triple_pre [OF mark_root_ok [of d0]]])
    (auto simp: claimed_def new_root_def bind_of_Inr_iff)

definition allocated ::
  "(bytes, world) btree \<Rightarrow> bytes \<Rightarrow> bytes \<Rightarrow> disk \<Rightarrow> disk \<Rightarrow> ip4 \<times> bytes \<Rightarrow> bool" where
  "allocated worlds home owner d0 d = (\<lambda>(ip, root).
     same_dirs d0 d \<and> ip \<in> pool_ip ` {1..<65535} \<and> ip \<notin> set (used_ips worlds) \<and>
     root = root_for home ip \<and> root_at d root = Owned owner)"

lemma allocate_from_ok:
  "set ns \<subseteq> {1..<65535} \<Longrightarrow>
   triple (same_dirs d0) (allocate_from ns v worlds home owner)
     (\<lambda>r d. allocated worlds home owner d0 d r) (same_dirs d0)"
proof (induction ns)
  case Nil
  show ?case by (simp add: triple_fail)
next
  case (Cons n ns)
  let ?ip = "pool_ip n"
  show ?case
    unfolding allocate_from.simps Let_def
    using Cons
    by (intro act_rules triple_bind [OF claim_root_ok])
     (auto simp: claimed_def allocated_def)
qed

lemma allocate_ok:
  "triple (same_dirs d0) (allocate v worlds home owner)
     (\<lambda>r d. allocated worlds home owner d0 d r) (same_dirs d0)"
  unfolding allocate_def by (rule allocate_from_ok) auto

lemma triple_prod [act_rules]:
  "(\<And>a b. x = (a, b) \<Longrightarrow> triple P (f a b) Q E) \<Longrightarrow> triple P (case x of (a, b) \<Rightarrow> f a b) Q E"
  by (cases x) simp

lemma triple_let [act_rules]: "triple P (f a) Q E \<Longrightarrow> triple P (let x = a in f x) Q E"
  by simp

text \<open>The entry that \<open>fill_temp_root\<close> returns: a new root, perhaps at a new address.\<close>

definition filled ::
  "world \<Rightarrow> (bytes, world) btree \<Rightarrow> bytes \<Rightarrow> disk \<Rightarrow> disk \<Rightarrow> world \<Rightarrow> bool" where
  "filled w worlds owner d0 d w1 \<longleftrightarrow>
     same_dirs d0 d \<and> w_id w1 = w_id w \<and> w_workdir w1 = w_workdir w \<and>
     (w_ip w1 = w_ip w \<or> w_ip w1 \<in> pool_ip ` {1..<65535} \<and> w_ip w1 \<notin> set (used_ips worlds)) \<and>
     (\<exists>root. w_temp_root w1 = Some root \<and> root_at d root = Owned owner)"

lemma fill_temp_root_ok:
  "triple (same_dirs d0) (fill_temp_root v w worlds home owner)
     (\<lambda>w1 d. filled w worlds owner d0 d w1) (same_dirs d0)"
  unfolding fill_temp_root_def
  by (intro act_rules triple_bind [OF claim_root_ok]
      triple_bind [OF triple_pre [OF allocate_ok [of d0]]])
    (auto simp: claimed_def filled_def allocated_def)

lemma temp_root_ok:
  "triple (same_dirs d0) (temp_root v w)
     (\<lambda>got d. same_dirs d0 d \<and>
        (\<exists>root. w_temp_root w = Some root \<and> components got = components root)) (same_dirs d0)"
  unfolding temp_root_def
  by (intro act_rules triple_bind [OF temp_root_in_ok]) auto

section \<open>Identities\<close>

definition ids_ok :: "disk \<Rightarrow> bool" where
  "ids_ok d \<longleftrightarrow>
     (\<forall>s i. r_id (d_states d s) = Some i \<longrightarrow>
        good_id i \<and> (\<forall>s'. r_id (d_states d s') = Some i \<longrightarrow> s' = s))"

text \<open>
  What is assumed of the random source: sixteen bytes, and no identity that a registry on this
  disk already has.
\<close>

definition fresh_random :: "env \<Rightarrow> disk \<Rightarrow> bool" where
  "fresh_random v d \<longleftrightarrow>
     length (e_random v) = 16 \<and> (\<forall>s. r_id (d_states d s) \<noteq> Some (concat (map hex2 (e_random v))))"

lemma is_hex_hex2: "list_all is_hex (hex2 b)"
proof -
  have "is_hex (hex_digit n)" if "n < 16" for n
    using that by (auto simp: is_hex_def between_def hex_digit_def)
  moreover have "(of_char b :: nat) div 16 < 16"
    using nat_of_char_less_256 [of b] by linarith
  ultimately show ?thesis by (simp add: hex2_def)
qed

lemma good_id_hex: "length bs = 16 \<Longrightarrow> good_id (concat (map hex2 bs))"
proof -
  have "length (concat (map hex2 bs)) = 2 * length bs" for bs
    by (induction bs) (simp_all add: hex2_def)
  moreover have "list_all is_hex (concat (map hex2 bs))"
    by (induction bs) (simp_all add: is_hex_hex2)
  ultimately show "length bs = 16 \<Longrightarrow> ?thesis" by (simp add: good_id_def)
qed

text \<open>After \<open>root_owner\<close> the registry has its identity, and the owner names it.\<close>

definition owner_known :: "bytes \<Rightarrow> bytes \<Rightarrow> disk \<Rightarrow> bytes \<Rightarrow> disk \<Rightarrow> bool" where
  "owner_known state wid d0 owner d \<longleftrightarrow>
     extends d0 d \<and> ids_ok d \<and>
     (\<exists>i. r_id (d_states d state) = Some i \<and> owner = owner_text i wid)"

lemma root_owner_ok:
  assumes "ids_ok d0" and "fresh_random v d0"
  shows "triple (\<lambda>d. d = d0) (root_owner v state wid) (owner_known state wid d0)
     (\<lambda>d. extends d0 d \<and> ids_ok d)"
proof -
  let ?i = "concat (map hex2 (e_random v))"
  let ?d = "set_state state ((d_states d0 state)\<lparr>r_id := Some ?i\<rparr>) d0"
  have "extends d0 ?d" if "r_id (d_states d0 state) = None"
    using that by (auto simp: extends_def set_state_def)
  moreover have "ids_ok ?d"
    using assms good_id_hex by (fastforce simp: ids_ok_def fresh_random_def set_state_def)
  ultimately show ?thesis
    using assms
    by (auto simp: triple_def root_owner_def registry_id_def bind_act_def reads_def ensure_def
        attempt_def ret_def fail_def persist_run owner_known_def set_state_def Let_def
        split: option.splits)
qed

section \<open>Registry files\<close>

lemma bt_inv_Cons: "bt_inv ((k, v) # m) \<longleftrightarrow> bt_inv m \<and> (\<forall>k' \<in> fst ` set m. k < k')"
  by (auto simp: bt_inv_def)

lemma native_of_set: "set (native_of m) = {(k, w). (k, Native w) \<in> set m}"
  by (induction m rule: native_of.induct) auto

lemma native_of_inv: "bt_inv m \<Longrightarrow> bt_inv (native_of m)"
  by (induction m rule: native_of.induct) (fastforce simp: bt_inv_Cons native_of_set)+

lemma native_of_get:
  "bt_inv m \<Longrightarrow> bt_get (native_of m) k = Some w \<longleftrightarrow> bt_get m k = Some (Native w)"
  by (simp add: bt_get_in_set native_of_inv native_of_set)

lemma vms_inv: "bt_inv m \<Longrightarrow> bt_inv (filter (\<lambda>(_, e). is_vm e) m)"
  by (simp add: bt_inv_def sorted_wrt_map sorted_wrt_filter)

lemma option_ext: "(\<And>e. x = Some e \<longleftrightarrow> y = Some e) \<Longrightarrow> x = y"
  by (cases x; cases y) auto

lemma is_vm_simps [simp]: "is_vm (Native w) = False" "is_vm (Vm x) = True"
  by (simp_all add: is_vm_def)

lemma vms_get:
  assumes "bt_inv m"
  shows "bt_get (filter (\<lambda>(_, e). is_vm e) m) k =
     (case bt_get m k of Some (Vm x) \<Rightarrow> Some (Vm x) | _ \<Rightarrow> None)"
proof -
  have *: "bt_get (filter (\<lambda>(_, e). is_vm e) m) k = Some e \<longleftrightarrow> bt_get m k = Some e \<and> is_vm e" for e
    by (auto simp: bt_get_in_set assms vms_inv)
  show ?thesis
    by (rule option_ext) (auto simp: * split: option.splits entry_of.splits)
qed

lemma save_worlds_ok:
  "save_worlds ws m = Inr m' \<Longrightarrow> bt_inv m \<Longrightarrow>
     bt_inv m' \<and>
     (\<forall>k. bt_get m' k = (case bt_get ws k of Some w \<Rightarrow> Some (Native w) | None \<Rightarrow> bt_get m k)) \<and>
     (\<forall>k. bt_get ws k \<noteq> None \<longrightarrow> bt_get m k = None)"
proof (induction ws m rule: save_worlds.induct)
  case (1 m)
  then show ?case by simp
next
  case (2 k w ws m)
  from 2(2) have free: "bt_get m k = None" and
    step: "save_worlds ws (bt_insert k (Native w) m) = Inr m'" by (auto split: if_splits)
  from 2(1) free step 2(3)
  have ih: "bt_inv m'"
    "\<And>k'. bt_get m' k' = (case bt_get ws k' of Some w \<Rightarrow> Some (Native w)
       | None \<Rightarrow> bt_get (bt_insert k (Native w) m) k')"
    "\<And>k'. bt_get ws k' \<noteq> None \<Longrightarrow> bt_get (bt_insert k (Native w) m) k' = None"
    by (simp_all add: bt_inv_insert)
  from ih(3) [of k] have "bt_get ws k = None" by (cases "bt_get ws k") auto
  moreover have "bt_get ((k, w) # ws) k' = (if k' = k then Some w else bt_get ws k')" for k'
    by (simp add: bt_get_def)
  moreover have "bt_get m k' = None" if "bt_get ws k' \<noteq> None" for k'
    using ih(3) [OF that] by (simp split: if_splits)
  ultimately show ?case using ih(1,2) free by (auto split: option.splits)
qed

lemma save_worlds_conflict:
  "save_worlds ws m = Inl e \<Longrightarrow> distinct (map fst ws) \<Longrightarrow> \<exists>(k, w) \<in> set ws. bt_get m k \<noteq> None"
proof (induction ws m rule: save_worlds.induct)
  case (1 m)
  then show ?case by simp
next
  case (2 k w ws m)
  show ?case
  proof (cases "bt_get m k = None")
    case True
    with 2 obtain k' w' where "(k', w') \<in> set ws" "bt_get (bt_insert k (Native w) m) k' \<noteq> None"
      by auto
    moreover from this 2(3) have "k' \<noteq> k" by force
    ultimately show ?thesis by auto
  qed auto
qed

text \<open>What \<open>save\<close> leaves on the disk: the given entries, and the other records of the file.\<close>

definition saved :: "bytes \<Rightarrow> (bytes, world) btree \<Rightarrow> disk \<Rightarrow> disk \<Rightarrow> bool" where
  "saved state worlds d d' \<longleftrightarrow>
     d_roots d' = d_roots d \<and>
     (\<forall>s. s \<noteq> state \<longrightarrow> d_states d' s = d_states d s) \<and>
     r_id (d_states d' state) = r_id (d_states d state) \<and>
     bt_inv (r_records (d_states d' state)) \<and>
     (\<forall>k. bt_get (registry state d') k = bt_get worlds k) \<and>
     (\<forall>k. vm_get state k d' = vm_get state k d)"

lemma registry_get:
  "bt_inv (r_records (d_states d s)) \<Longrightarrow>
   bt_get (registry s d) k = Some w \<longleftrightarrow> bt_get (r_records (d_states d s)) k = Some (Native w)"
  by (simp add: registry_def native_of_get)

text \<open>The registry file was replaced, but the directory could not be synced.\<close>

definition late :: "env \<Rightarrow> bool" where
  "late v \<longleftrightarrow> (\<exists>e. e_persist v ''registry.json'' = Some (e, True))"

lemma save_cases:
  assumes inv: "bt_inv (r_records (d_states d state))" and save: "save v state worlds d = (d', r)"
  shows "d' = d \<and> (\<exists>e. r = Inl e) \<or> saved state worlds d d' \<and> (r = Inr () \<or> late v)"
proof -
  let ?m = "r_records (d_states d state)"
  let ?v = "filter (\<lambda>(_, e). is_vm e) ?m"
  have "saved state worlds d (set_state state ((d_states d state)\<lparr>r_records := m'\<rparr>) d)"
    if m': "save_worlds worlds ?v = Inr m'" for m'
  proof -
    from save_worlds_ok [OF m' vms_inv [OF inv]]
    have inv': "bt_inv m'" and get: "\<And>k. bt_get m' k =
        (case bt_get worlds k of Some w \<Rightarrow> Some (Native w) | None \<Rightarrow> bt_get ?v k)"
      and none: "\<And>k. bt_get worlds k \<noteq> None \<Longrightarrow> bt_get ?v k = None" by auto
    have "bt_get (native_of m') k = bt_get worlds k" for k
      by (rule option_ext)
        (auto simp: native_of_get [OF inv'] get vms_get [OF inv] split: option.splits entry_of.splits)
    moreover have "(case bt_get m' k of Some (Vm x) \<Rightarrow> Some x | _ \<Rightarrow> None) = vm_get state k d" for k
      using none [of k]
      by (cases "bt_get worlds k") (auto simp: get vm_get_def vms_get [OF inv] split: option.splits entry_of.splits)
    ultimately show ?thesis
      using inv' by (simp add: saved_def set_state_def registry_def vm_get_def)
  qed
  with save show ?thesis
    by (auto simp: save_def bind_act_def reads_def lift_def attempt_def ret_def fail_def persist_run
        late_def split: sum.splits option.splits if_splits)
qed

lemma save_ok:
  "bt_inv (r_records (d_states d s)) \<Longrightarrow> save v s worlds d = (d', Inr u) \<Longrightarrow> saved s worlds d d'"
  using save_cases by fastforce

lemma save_error:
  "bt_inv (r_records (d_states d s)) \<Longrightarrow> save v s worlds d = (d', Inl e) \<Longrightarrow>
     d' = d \<or> late v \<and> saved s worlds d d'"
  using save_cases by fastforce

section \<open>The invariant\<close>

definition entry_ok :: "disk \<Rightarrow> bytes \<Rightarrow> bytes \<Rightarrow> world \<Rightarrow> bool" where
  "entry_ok d s wid w \<longleftrightarrow>
     w_id w = wid \<and> w_ip w \<in> pool_ip ` {1..<65535} \<and>
     (\<forall>root. w_temp_root w = Some root \<longrightarrow>
        (\<exists>i. r_id (d_states d s) = Some i \<and> root_at d root = Owned (owner_text i wid)))"

definition ips_apart :: "(bytes, world) btree \<Rightarrow> bool" where
  "ips_apart worlds \<longleftrightarrow>
     (\<forall>k k' w w'. bt_get worlds k = Some w \<longrightarrow> bt_get worlds k' = Some w' \<longrightarrow>
        w_ip w = w_ip w' \<longrightarrow> k = k')"

definition dir_ok :: "disk \<Rightarrow> bytes \<Rightarrow> bool" where
  "dir_ok d s \<longleftrightarrow>
     bt_inv (r_records (d_states d s)) \<and> ips_apart (registry s d) \<and>
     (\<forall>k w. bt_get (registry s d) k = Some w \<longrightarrow> entry_ok d s k w)"

definition reg_inv :: "disk \<Rightarrow> bool" where
  "reg_inv d \<longleftrightarrow> ids_ok d \<and> (\<forall>s. dir_ok d s)"

lemma entry_ok_extends: "extends d d' \<Longrightarrow> entry_ok d s k w \<Longrightarrow> entry_ok d' s k w"
  using extends_id extends_owned by (fastforce simp: entry_ok_def)

lemma reg_inv_extends:
  assumes "reg_inv d" and "extends d d'" and "ids_ok d'"
  shows "reg_inv d'"
  using assms entry_ok_extends [OF assms(2)] extends_registry [OF assms(2)]
  by (auto simp: reg_inv_def dir_ok_def extends_def)

lemma used_ips_get: "bt_get worlds k = Some w \<Longrightarrow> w_ip w \<in> set (used_ips worlds)"
  by (drule bt_get_SomeD) (force simp: used_ips_def)

text \<open>Writing a good entry at an address of its own.\<close>

definition fits :: "bytes \<Rightarrow> (bytes, world) btree \<Rightarrow> bytes \<Rightarrow> world \<Rightarrow> disk \<Rightarrow> bool" where
  "fits s worlds wid w d \<longleftrightarrow>
     reg_inv d \<and> entry_ok d s wid w \<and>
     (\<forall>k. k \<noteq> wid \<longrightarrow> bt_get worlds k = bt_get (registry s d) k) \<and>
     (\<forall>k w'. k \<noteq> wid \<longrightarrow> bt_get worlds k = Some w' \<longrightarrow> w_ip w' \<noteq> w_ip w)"

lemma saved_inv:
  assumes fits: "fits s worlds wid w d" and saved: "saved s (bt_insert wid w worlds) d d'"
  shows "reg_inv d' \<and> bt_get (registry s d') wid = Some w"
proof -
  have reg: "bt_get (registry s d') k = (if k = wid then Some w else bt_get (registry s d) k)" for k
    using fits saved by (simp add: fits_def saved_def)
  have apart: "bt_get (registry s d) k = Some w' \<Longrightarrow> k \<noteq> wid \<Longrightarrow> w_ip w' \<noteq> w_ip w" for k w'
    using fits by (simp add: fits_def)
  have ids: "r_id (d_states d' x) = r_id (d_states d x)" for x
    using saved by (cases "x = s") (simp_all add: saved_def)
  have same: "entry_ok d' x k e \<longleftrightarrow> entry_ok d x k e" for x k e
    using saved by (simp add: entry_ok_def ids root_at_def saved_def)
  have d: "reg_inv d" and w: "entry_ok d s wid w" using fits by (simp_all add: fits_def)
  have "dir_ok d' x" for x
  proof (cases "x = s")
    case True
    have "ips_apart (registry s d)" and old: "\<And>k e. bt_get (registry s d) k = Some e \<Longrightarrow> entry_ok d s k e"
      using d by (simp_all add: reg_inv_def dir_ok_def)
    then have "ips_apart (registry s d')"
      unfolding ips_apart_def reg using apart by (metis option.inject)
    moreover have "bt_inv (r_records (d_states d' s))" using saved by (simp add: saved_def)
    ultimately show ?thesis
      using True w old by (auto simp: dir_ok_def same reg)
  next
    case False
    with saved d show ?thesis by (simp add: reg_inv_def dir_ok_def same saved_def registry_def)
  qed
  moreover have "ids_ok d'" using d by (simp add: reg_inv_def ids_ok_def ids)
  ultimately show ?thesis using reg by (simp add: reg_inv_def)
qed

definition stored :: "bytes \<Rightarrow> bytes \<Rightarrow> world \<Rightarrow> disk \<Rightarrow> bool" where
  "stored s wid w d \<longleftrightarrow> reg_inv d \<and> bt_get (registry s d) wid = Some w"

lemma save_triple:
  assumes "\<And>d. P d \<Longrightarrow> fits s worlds wid w d"
  shows "triple P (save v s (bt_insert wid w worlds))
     (\<lambda>_ d'. \<exists>d. P d \<and> saved s (bt_insert wid w worlds) d d' \<and> stored s wid w d')
     (\<lambda>d'. P d' \<or> late v \<and> (\<exists>d. P d \<and> saved s (bt_insert wid w worlds) d d' \<and> stored s wid w d'))"
  unfolding triple_def
proof (intro allI impI)
  fix d assume d: "P d"
  then have "bt_inv (r_records (d_states d s))"
    using assms by (auto simp: fits_def reg_inv_def dir_ok_def)
  with d assms show "case save v s (bt_insert wid w worlds) d of
      (d1, Inr a) \<Rightarrow> \<exists>d. P d \<and> saved s (bt_insert wid w worlds) d d1 \<and> stored s wid w d1
    | (d1, Inl e) \<Rightarrow> P d1 \<or> late v \<and> (\<exists>d. P d \<and> saved s (bt_insert wid w worlds) d d1 \<and> stored s wid w d1)"
    using save_ok save_error saved_inv
    by (fastforce simp: stored_def split: prod.splits sum.splits)
qed

text \<open>
  What a failed operation may leave: a disk that has only grown or, when the last write came
  through and its sync did not, the whole entry.
\<close>

definition recorded :: "bytes \<Rightarrow> bytes \<Rightarrow> disk \<Rightarrow> disk \<Rightarrow> bool" where
  "recorded s wid d1 d \<longleftrightarrow>
     (\<exists>w. stored s wid w d \<and> w_temp_root w \<noteq> None) \<and> d_roots d = d_roots d1 \<and>
     (\<forall>x. r_id (d_states d x) = r_id (d_states d1 x)) \<and>
     (\<forall>x k. vm_get x k d = vm_get x k d1) \<and>
     (\<forall>x k. (x, k) \<noteq> (s, wid) \<longrightarrow> bt_get (registry x d) k = bt_get (registry x d1) k)"

lemma saved_recorded:
  assumes "fits s worlds wid w d1" and "saved s (bt_insert wid w worlds) d1 d"
    and "stored s wid w d" and "w_temp_root w \<noteq> None"
  shows "recorded s wid d1 d"
proof -
  have "r_id (d_states d x) = r_id (d_states d1 x)" for x
    using assms(2) by (cases "x = s") (simp_all add: saved_def)
  moreover have "bt_get (registry x d) k = bt_get (registry x d1) k" if "(x, k) \<noteq> (s, wid)" for x k
    using assms(1,2) that by (cases "x = s") (auto simp: saved_def fits_def registry_def)
  moreover have "vm_get x k d = vm_get x k d1" for x k
    using assms(2) by (cases "x = s") (simp_all add: saved_def vm_get_def)
  ultimately show ?thesis using assms by (auto simp: recorded_def saved_def)
qed

lemma commit_triple:
  assumes "\<And>d. P d \<Longrightarrow> fits s worlds wid w d" and "w_temp_root w \<noteq> None"
  shows "triple P (commit v s worlds wid w) (\<lambda>w' d. w' = w \<and> stored s wid w d)
     (\<lambda>d. P d \<or> late v \<and> (\<exists>d1. P d1 \<and> recorded s wid d1 d))"
proof -
  have "triple P (save v s (bt_insert wid w worlds)) (\<lambda>_ d. stored s wid w d)
     (\<lambda>d. P d \<or> late v \<and> (\<exists>d1. P d1 \<and> recorded s wid d1 d))"
    by (rule triple_post [OF save_triple [of P, OF assms(1)]])
      (use assms in \<open>auto intro: saved_recorded\<close>)
  then show ?thesis
    unfolding commit_def by (rule triple_bind) (auto intro: triple_ret)
qed

section \<open>The operations\<close>

text \<open>Before its last write an operation has only added to the disk it started from.\<close>

definition grown :: "disk \<Rightarrow> disk \<Rightarrow> bool" where
  "grown d0 d \<longleftrightarrow> extends d0 d \<and> ids_ok d"

definition failed :: "env \<Rightarrow> bytes \<Rightarrow> bytes \<Rightarrow> disk \<Rightarrow> disk \<Rightarrow> bool" where
  "failed v s wid d0 d \<longleftrightarrow> grown d0 d \<or> late v \<and> (\<exists>d1. grown d0 d1 \<and> recorded s wid d1 d)"

lemma triple_failed: "triple P m Q (grown d0) \<Longrightarrow> triple P m Q (failed v s wid d0)"
  by (erule triple_post) (simp_all add: failed_def)

lemma failed_inv: "(\<And>d. grown d0 d \<Longrightarrow> reg_inv d) \<Longrightarrow> failed v s wid d0 d \<Longrightarrow> reg_inv d"
  by (auto simp: failed_def recorded_def stored_def)

lemma grown_inv: "reg_inv d0 \<Longrightarrow> grown d0 d \<Longrightarrow> reg_inv d"
  unfolding grown_def using reg_inv_extends by blast

lemma grown_same_dirs: "grown d0 d \<Longrightarrow> same_dirs d d' \<Longrightarrow> grown d0 d'"
  unfolding grown_def same_dirs_def using extends_trans by (auto simp: ids_ok_def)

lemma owner_known_same:
  "owner_known s wid d0 owner d \<Longrightarrow> same_dirs d d' \<Longrightarrow> grown d0 d' \<and> owner_known s wid d0 owner d'"
  unfolding owner_known_def same_dirs_def grown_def
  using extends_trans by (auto simp: ids_ok_def)

text \<open>A body of root actions, started from any disk of a set.\<close>

lemma triple_from:
  assumes "\<And>d1. triple (same_dirs d1) m (\<lambda>a d. Q a d1 d) (same_dirs d1)"
  shows "triple P m (\<lambda>a d. \<exists>d1. P d1 \<and> Q a d1 d) (\<lambda>d. \<exists>d1. P d1 \<and> same_dirs d1 d)"
  unfolding triple_def
proof (intro allI impI)
  fix d assume "P d"
  moreover from assms [of d]
  have "case m d of (d1, Inr a) \<Rightarrow> Q a d d1 | (d1, Inl e) \<Rightarrow> same_dirs d d1"
    by (simp add: triple_def)
  ultimately show "case m d of (d1, Inr a) \<Rightarrow> \<exists>d1'. P d1' \<and> Q a d1' d1
    | (d1, Inl e) \<Rightarrow> \<exists>d1'. P d1' \<and> same_dirs d1' d1"
    by (auto split: prod.splits sum.splits)
qed

lemma triple_owner:
  assumes "\<And>d1. triple (same_dirs d1) m (\<lambda>a d. Q a d1 d) (same_dirs d1)"
  shows "triple (owner_known s wid d0 owner) m
     (\<lambda>a d. \<exists>d1. owner_known s wid d0 owner d1 \<and> Q a d1 d) (grown d0)"
  by (rule triple_post [OF triple_from [OF assms]]) (auto dest: owner_known_same)

text \<open>An entry with a claimed root, at its old address or at a free one, fits.\<close>

definition placed :: "bytes \<Rightarrow> bytes \<Rightarrow> (bytes, world) btree \<Rightarrow> world \<Rightarrow> disk \<Rightarrow> world \<Rightarrow> disk \<Rightarrow> bool" where
  "placed s wid worlds w d0 w1 d \<longleftrightarrow>
     grown d0 d \<and> entry_ok d s wid w1 \<and> w_temp_root w1 \<noteq> None \<and> w_workdir w1 = w_workdir w \<and>
     (w_ip w1 = w_ip w \<or> w_ip w1 \<notin> set (used_ips worlds))"

lemma fill_entry_ok:
  assumes "reg_inv d0" and "fresh_random v d0"
    and "w_id w = wid" and "w_ip w \<in> pool_ip ` {1..<65535}"
  shows "triple (\<lambda>d. d = d0) (fill_entry v home s wid worlds w) (placed s wid worlds w d0) (grown d0)"
proof -
  have ids: "ids_ok d0" using assms(1) by (simp add: reg_inv_def)
  have owner: "triple (\<lambda>d. d = d0) (root_owner v s wid) (owner_known s wid d0) (grown d0)"
    using root_owner_ok [OF ids assms(2)] by (simp add: grown_def [abs_def])
  have "placed s wid worlds w d0 w1 d"
    if "owner_known s wid d0 owner d1" "filled w worlds owner d1 d w1" for owner d1 w1 d
    using that owner_known_same [OF that(1), of d] assms(3,4)
    by (auto simp: placed_def filled_def entry_ok_def owner_known_def)
  then show ?thesis
    unfolding fill_entry_def
    by (intro act_rules triple_bind [OF owner]
        triple_post [OF triple_owner [OF fill_temp_root_ok]])
      (auto simp: grown_def ids)
qed

lemma placed_fits:
  assumes d0: "reg_inv d0" and w: "bt_get (registry s d0) wid = Some w"
    and worlds: "\<And>k. k \<noteq> wid \<Longrightarrow> bt_get worlds k = bt_get (registry s d0) k"
    and ip: "w_ip w0 = w_ip w" and placed: "placed s wid worlds w0 d0 w1 d"
  shows "fits s worlds wid w1 d"
proof -
  have "extends d0 d" using placed by (simp add: placed_def grown_def)
  then have reg: "registry s d = registry s d0" by (rule extends_registry)
  have "w_ip w' \<noteq> w_ip w1" if "k \<noteq> wid" "bt_get worlds k = Some w'" for k w'
  proof
    assume eq: "w_ip w' = w_ip w1"
    have "w_ip w' \<in> set (used_ips worlds)" using that used_ips_get by blast
    then have "w_ip w' = w_ip w" using eq ip placed by (simp add: placed_def)
    then show False
      using d0 w worlds that by (auto simp: reg_inv_def dir_ok_def ips_apart_def)
  qed
  then show ?thesis
    using placed grown_inv [OF d0] worlds by (simp add: fits_def placed_def reg)
qed

lemma reg_inv_entry: "reg_inv d \<Longrightarrow> bt_get (registry s d) k = Some w \<Longrightarrow> entry_ok d s k w"
  by (simp add: reg_inv_def dir_ok_def)

lemma commit_failed:
  assumes "\<And>d. P d \<Longrightarrow> fits s worlds wid w d" and "\<And>d. P d \<Longrightarrow> grown d0 d"
    and "w_temp_root w \<noteq> None"
  shows "triple P (commit v s worlds wid w) (\<lambda>w' d. w' = w \<and> stored s wid w d) (failed v s wid d0)"
  by (rule triple_post [OF commit_triple [OF assms(1,3)]]) (use assms(2) in \<open>auto simp: failed_def\<close>)

text \<open>\<open>create\<close>: on success the entry is stored, on failure the disk is as \<open>failed\<close> says.\<close>

lemma create_existing_ok:
  assumes inv: "reg_inv d0" "fresh_random v d0" and w: "bt_get (registry s d0) wid = Some w"
    and worlds: "worlds = registry s d0"
  shows "triple (\<lambda>d. d = d0) (create_existing v home s wid worlds dir w)
     (\<lambda>w' d. stored s wid w' d \<and> w_temp_root w' \<noteq> None \<and>
        components (w_workdir w') = components dir) (failed v s wid d0)"
proof -
  let ?w = "if components (w_workdir w) \<noteq> components dir then w\<lparr>w_workdir := dir\<rparr> else w"
  have g0: "grown d0 d0" using inv by (simp add: grown_def reg_inv_def)
  have ok: "entry_ok d0 s wid w" using reg_inv_entry inv w by blast
  then have fill: "triple (\<lambda>d. d = d0) (fill_entry v home s wid worlds ?w)
      (placed s wid worlds ?w d0) (failed v s wid d0)"
    by (intro triple_failed fill_entry_ok inv) (simp_all add: entry_ok_def)
  have comps: "components (w_workdir ?w) = components dir" by simp
  have fits: "fits s worlds wid w1 d" if "placed s wid worlds ?w d0 w1 d" for w1 d
    by (rule placed_fits [OF inv(1) w _ _ that]) (simp_all add: worlds)
  have commit: "triple (placed s wid worlds ?w d0 w1) (commit v s worlds wid w1)
      (\<lambda>w' d. stored s wid w' d \<and> w_temp_root w' \<noteq> None \<and>
        components (w_workdir w') = components dir) (failed v s wid d0)" for w1
  proof (cases "\<exists>d. placed s wid worlds ?w d0 w1 d")
    case True
    then have "w_temp_root w1 \<noteq> None" "components (w_workdir w1) = components dir"
      using comps by (auto simp: placed_def simp del: if_split)
    then show ?thesis
      by (intro triple_post [OF commit_failed [OF fits]]) (auto simp: placed_def)
  qed (auto simp: triple_def)
  have keep: "triple (\<lambda>d. d = d0) (commit v s worlds wid ?w)
      (\<lambda>w' d. w' = ?w \<and> stored s wid ?w d) (failed v s wid d0)" if "w_temp_root ?w \<noteq> None"
    using that inv w ok worlds g0
    by (intro commit_failed)
      (auto simp: fits_def entry_ok_def reg_inv_def dir_ok_def ips_apart_def)
  show ?thesis
    unfolding create_existing_def Let_def
    apply (intro triple_if triple_fail triple_ret triple_bind [OF fill] commit triple_post [OF keep])
    using g0 inv w by (auto simp: stored_def failed_def)
qed

lemma create_new_ok:
  assumes inv: "reg_inv d0" "fresh_random v d0" and new: "bt_get (registry s d0) wid = None"
    and worlds: "worlds = registry s d0"
  shows "triple (\<lambda>d. d = d0) (create_new v home s wid worlds dir)
     (\<lambda>w' d. stored s wid w' d \<and> w_temp_root w' \<noteq> None \<and> w_workdir w' = dir) (failed v s wid d0)"
proof -
  have ids: "ids_ok d0" using inv by (simp add: reg_inv_def)
  have owner: "triple (\<lambda>d. d = d0) (root_owner v s wid) (owner_known s wid d0) (failed v s wid d0)"
    using root_owner_ok [OF ids inv(2)] by (intro triple_failed) (simp add: grown_def [abs_def])
  let ?w = "\<lambda>ip root. \<lparr>w_id = wid, w_ip = ip, w_workdir = dir, w_temp_root = Some root\<rparr>"
  have fits: "fits s worlds wid (?w ip root) d"
    if "\<exists>d1. owner_known s wid d0 owner d1 \<and> allocated worlds h owner d1 d (ip, root)"
    for ip root d owner h
  proof -
    from that obtain d1 where d1: "owner_known s wid d0 owner d1" "same_dirs d1 d"
      and a: "allocated worlds h owner d1 d (ip, root)" by (auto simp: allocated_def)
    from owner_known_same [OF this(1,2)] have g: "grown d0 d" "owner_known s wid d0 owner d" by auto
    then have "registry s d = registry s d0" using extends_registry by (simp add: grown_def)
    with a g used_ips_get grown_inv [OF inv(1) g(1)] show ?thesis
      by (fastforce simp: fits_def allocated_def entry_ok_def owner_known_def worlds)
  qed
  show ?thesis
    unfolding create_new_def
    by (intro bind_lift triple_bind [OF owner]
        triple_bind [OF triple_failed [OF triple_owner [OF allocate_ok]]]
        triple_prod triple_post [OF commit_failed [OF fits]])
      (auto simp: allocated_def failed_def grown_def ids dest: owner_known_same)
qed

lemma grown_refl: "reg_inv d \<Longrightarrow> grown d d"
  by (simp add: grown_def reg_inv_def)

lemma triple_eq_pre: "(\<And>d. P d \<Longrightarrow> d = x) \<Longrightarrow> triple (\<lambda>d. d = x) m Q E \<Longrightarrow> triple P m Q E"
  by (auto simp: triple_def)

lemma create_in_ok:
  assumes inv: "reg_inv d0" "fresh_random v d0"
  shows "triple (\<lambda>d. d = d0) (create_in v home s wid workdir)
     (\<lambda>w' d. stored s wid w' d \<and> w_temp_root w' \<noteq> None \<and>
        (\<exists>dir. run_workdir v workdir = Inr dir \<and> components (w_workdir w') = components dir))
     (failed v s wid d0)"
  unfolding create_in_def
proof (intro act_rules)
  fix dir vm w and worlds :: "(bytes, world) btree"
  assume dir: "run_workdir v workdir = Inr dir" and w: "bt_get worlds wid = Some w"
  show "triple (\<lambda>d. (d = d0 \<and> worlds = registry s d) \<and> vm = vm_get s wid d)
      (create_existing v home s wid worlds dir w)
     (\<lambda>w' d. stored s wid w' d \<and> w_temp_root w' \<noteq> None \<and>
        (\<exists>dir. run_workdir v workdir = Inr dir \<and> components (w_workdir w') = components dir))
     (failed v s wid d0)"
  proof (cases "worlds = registry s d0")
    case True
    with w dir show ?thesis
      by - (rule triple_eq_pre [OF _ triple_post [OF create_existing_ok [OF inv]]]; auto)
  qed (auto simp: triple_def)
next
  fix dir vm and worlds :: "(bytes, world) btree"
  assume dir: "run_workdir v workdir = Inr dir" and w: "bt_get worlds wid = None"
  show "triple (\<lambda>d. (d = d0 \<and> worlds = registry s d) \<and> vm = vm_get s wid d)
      (create_new v home s wid worlds dir)
     (\<lambda>w' d. stored s wid w' d \<and> w_temp_root w' \<noteq> None \<and>
        (\<exists>dir. run_workdir v workdir = Inr dir \<and> components (w_workdir w') = components dir))
     (failed v s wid d0)"
  proof (cases "worlds = registry s d0")
    case True
    with w dir show ?thesis
      by - (rule triple_eq_pre [OF _ triple_post [OF create_new_ok [OF inv]]]; auto)
  qed (auto simp: triple_def)
qed (auto simp: failed_def grown_refl inv)

lemma get_locked_ok:
  assumes inv: "reg_inv d0" "fresh_random v d0"
  shows "triple (\<lambda>d. d = d0) (get_locked v home s wid)
     (\<lambda>w' d. stored s wid w' d \<and> w_temp_root w' \<noteq> None) (failed v s wid d0)"
  unfolding get_locked_def
proof (intro act_rules)
  fix worlds w
  assume w: "bt_get worlds wid = Some w" and valid: "valid_entry w wid"
  let ?worlds = "bt_remove wid worlds"
  show "triple (\<lambda>d. d = d0 \<and> worlds = registry s d)
      (bind_act (fill_entry v home s wid ?worlds w) (commit v s ?worlds wid))
     (\<lambda>w' d. stored s wid w' d \<and> w_temp_root w' \<noteq> None) (failed v s wid d0)"
  proof (cases "worlds = registry s d0")
    case True
    then have ok: "entry_ok d0 s wid w" using reg_inv_entry inv w by blast
    then have fill: "triple (\<lambda>d. d = d0) (fill_entry v home s wid ?worlds w)
        (placed s wid ?worlds w d0) (failed v s wid d0)"
      by (intro triple_failed fill_entry_ok inv) (simp_all add: entry_ok_def)
    have fits: "fits s ?worlds wid w1 d" if "placed s wid ?worlds w d0 w1 d" for w1 d
      by (rule placed_fits [OF inv(1) _ _ _ that]) (use w True in simp_all)
    have "triple (placed s wid ?worlds w d0 w1) (commit v s ?worlds wid w1)
      (\<lambda>w' d. stored s wid w' d \<and> w_temp_root w' \<noteq> None) (failed v s wid d0)" for w1
    proof (cases "w_temp_root w1 = None")
      case False
      then show ?thesis by (intro triple_post [OF commit_failed [OF fits]]) (auto simp: placed_def)
    qed (auto simp: triple_def placed_def)
    then show ?thesis by - (rule triple_eq_pre [OF _ triple_bind [OF fill]]; auto)
  qed (auto simp: triple_def)
qed (auto simp: failed_def grown_refl inv stored_def)

lemma get_in_ok:
  assumes inv: "reg_inv d0" "fresh_random v d0"
  shows "triple (\<lambda>d. d = d0) (get_in v home seen s wid)
     (\<lambda>w' d. w_temp_root w' \<noteq> None \<and>
        (stored s wid w' d \<or> d = d0 \<and> bt_get seen wid = Some w')) (failed v s wid d0)"
  unfolding get_in_def
  by (intro act_rules triple_post [OF get_locked_ok [OF inv]]) (auto simp: failed_def grown_refl inv)

text \<open>\<open>owned_temp_root\<close>: a workspace whose root still carries its marker stays where it is.\<close>

definition settled :: "disk \<Rightarrow> bytes \<Rightarrow> bytes \<Rightarrow> world \<times> bytes \<Rightarrow> disk \<Rightarrow> bool" where
  "settled d0 s wid = (\<lambda>(w', root) d.
     grown d0 d \<and> stored s wid w' d \<and> bt_get (registry s d0) wid = Some w' \<and>
     (\<exists>r. w_temp_root w' = Some r \<and> components root = components r))"

lemma mark_own_root:
  assumes inv: "reg_inv d0" and w: "bt_get (registry s d0) wid = Some w"
  shows "triple (\<lambda>d. same_dirs d0 d \<and> (\<exists>r. w_temp_root w = Some r \<and> components root = components r))
      (bind_act (root_owner v s (w_id w)) (\<lambda>owner. bind_act (mark_root v root owner) (\<lambda>mine.
         if mine then ret (w, root) else move_world v s worlds w root owner)))
     (settled d0 s wid) (grown d0)"
  unfolding triple_def
proof (intro allI impI, elim conjE exE)
  fix d r
  assume d: "same_dirs d0 d" and r: "w_temp_root w = Some r" "components root = components r"
  have g: "grown d0 d" using grown_same_dirs [OF grown_refl [OF inv] d] .
  have "entry_ok d0 s wid w" using reg_inv_entry inv w by blast
  with r obtain i where i: "r_id (d_states d0 s) = Some i" "w_id w = wid"
    "root_at d0 r = Owned (owner_text i wid)" by (auto simp: entry_ok_def)
  moreover from this inv have "good_id i" by (auto simp: reg_inv_def ids_ok_def)
  moreover have "root_at d root = Owned (owner_text i wid)" "r_id (d_states d s) = Some i"
    using i d r by (auto simp: same_dirs_def root_at_def extends_def)
  moreover have "registry s d = registry s d0" using d by (simp add: same_dirs_def registry_def)
  ultimately show "case bind_act (root_owner v s (w_id w)) (\<lambda>owner. bind_act (mark_root v root owner)
      (\<lambda>mine. if mine then ret (w, root) else move_world v s worlds w root owner)) d of
      (d1, Inr a) \<Rightarrow> settled d0 s wid a d1
    | (d1, Inl e) \<Rightarrow> grown d0 d1"
    using w r g grown_inv [OF inv g]
    by (auto simp: root_owner_def registry_id_def mark_root_def bind_act_def reads_def ret_def
        fail_def attempt_def ensure_def stored_def settled_def split: option.splits)
qed

lemma owned_temp_root_stays:
  assumes inv: "reg_inv d0"
  shows "triple (\<lambda>d. d = d0) (owned_temp_root v s world) (settled d0 s (w_id world)) (grown d0)"
  unfolding owned_temp_root_def
proof (intro act_rules)
  fix w and worlds :: "(bytes, world) btree"
  assume w: "bt_get worlds (w_id world) = Some w"
  show "triple (\<lambda>d. d = d0 \<and> worlds = registry s d)
      (bind_act (temp_root v w) (\<lambda>root. bind_act (root_owner v s (w_id w)) (\<lambda>owner.
         bind_act (mark_root v root owner) (\<lambda>mine.
           if mine then ret (w, root) else move_world v s worlds w root owner))))
     (settled d0 s (w_id world)) (grown d0)"
  proof (cases "worlds = registry s d0")
    case True
    have "triple (\<lambda>d. d = d0 \<and> worlds = registry s d) (temp_root v w)
       (\<lambda>root d. same_dirs d0 d \<and> (\<exists>r. w_temp_root w = Some r \<and> components root = components r))
       (grown d0)"
      by (rule triple_pre [OF triple_post [OF temp_root_ok [of d0]]])
        (auto intro: grown_same_dirs [OF grown_refl [OF inv]])
    then show ?thesis
      by (rule triple_bind) (use mark_own_root [OF inv] w True in simp)
  qed (auto simp: triple_def)
qed (auto simp: grown_refl inv)

section \<open>A workspace whose root was taken\<close>

text \<open>
  The same operation without the invariant: someone removed the root and another workspace may
  have claimed it since.
\<close>

definition named :: "disk \<Rightarrow> bytes \<Rightarrow> bytes \<Rightarrow> bytes \<Rightarrow> disk \<Rightarrow> bool" where
  "named d0 s wid owner d \<longleftrightarrow>
     extends d0 d \<and> (\<exists>i. r_id (d_states d s) = Some i \<and> owner = owner_text i wid)"

definition owns :: "bytes \<Rightarrow> bytes \<Rightarrow> world \<times> bytes \<Rightarrow> disk \<Rightarrow> bool" where
  "owns s wid = (\<lambda>(w', root) d.
     bt_get (registry s d) wid = Some w' \<and>
     (\<exists>r i. w_temp_root w' = Some r \<and> components root = components r \<and>
        r_id (d_states d s) = Some i \<and> root_at d root = Owned (owner_text i wid)))"

lemma root_owner_named:
  "triple (extends d0) (root_owner v s wid) (named d0 s wid) (\<lambda>_. True)"
proof -
  have "extends d0 (set_state s ((d_states d s)\<lparr>r_id := Some i\<rparr>) d)"
    if "extends d0 d" "r_id (d_states d s) = None" for d i
    using that by (fastforce simp: extends_def set_state_def)
  then show ?thesis
    by (auto simp: triple_def root_owner_def registry_id_def bind_act_def reads_def ensure_def
        attempt_def ret_def fail_def persist_run named_def set_state_def Let_def
        split: option.splits)
qed

lemma named_same: "named d0 s wid owner d1 \<Longrightarrow> same_dirs d1 d \<Longrightarrow> named d0 s wid owner d"
  unfolding named_def same_dirs_def using extends_trans by auto

lemma save_and_rebuild:
  assumes inv: "bt_inv (r_records (d_states d0 s))" and root: "w_temp_root w = Some root"
  shows "triple (\<lambda>d. named d0 s wid owner d \<and> root_at d root = Owned owner)
      (bind_act (save v s (bt_insert wid w worlds)) (\<lambda>_. bind_act (temp_root v w) (\<lambda>r. ret (w, r))))
      (owns s wid) (\<lambda>_. True)"
proof -
  have save: "triple (\<lambda>d. named d0 s wid owner d \<and> root_at d root = Owned owner)
      (save v s (bt_insert wid w worlds)) (\<lambda>_ d. owns s wid (w, root) d) (\<lambda>_. True)"
    unfolding triple_def
  proof (intro allI impI)
    fix d assume d: "named d0 s wid owner d \<and> root_at d root = Owned owner"
    then have "bt_inv (r_records (d_states d s))" using inv by (simp add: named_def extends_def)
    with d root save_ok [of d s] show "case save v s (bt_insert wid w worlds) d of
        (d1, Inr a) \<Rightarrow> owns s wid (w, root) d1 | (d1, Inl e) \<Rightarrow> True"
      by (fastforce simp: owns_def named_def saved_def root_at_def split: prod.splits sum.splits)
  qed
  show ?thesis
    by (intro triple_bind [OF save] triple_bind [OF triple_post [OF triple_from [OF temp_root_ok]]]
        triple_ret)
      (auto simp: owns_def same_dirs_def registry_def root_at_def extends_def)
qed

lemma move_world_owns:
  assumes inv: "bt_inv (r_records (d_states d0 s))"
  shows "triple (named d0 s (w_id w) owner) (move_world v s worlds w root owner)
     (owns s (w_id w)) (\<lambda>_. True)"
  unfolding move_world_def
proof (rule bind_some_or)
  fix home
  have alloc: "triple (named d0 s (w_id w) owner) (allocate v worlds home owner)
      (\<lambda>(ip, _) d. named d0 s (w_id w) owner d \<and> root_at d (root_for home ip) = Owned owner)
      (\<lambda>_. True)"
    by (rule triple_post [OF triple_from [OF allocate_ok]])
      (auto simp: allocated_def intro: named_same)
  show "triple (named d0 s (w_id w) owner)
      (bind_act (allocate v worlds home owner) (\<lambda>(ip, _).
        let w' = w\<lparr>w_ip := ip, w_temp_root := Some (root_for home ip)\<rparr>
        in bind_act (save v s (bt_insert (w_id w) w' worlds)) (\<lambda>_.
           bind_act (temp_root v w') (\<lambda>root'. ret (w', root')))))
      (owns s (w_id w)) (\<lambda>_. True)"
    by (rule triple_bind [OF alloc])
      (auto simp: Let_def split: prod.split intro!: save_and_rebuild [OF inv])
qed simp

lemma owned_temp_root_owns:
  assumes inv: "bt_inv (r_records (d_states d0 s))"
  shows "triple (\<lambda>d. d = d0) (owned_temp_root v s world) (owns s (w_id world)) (\<lambda>_. True)"
  unfolding owned_temp_root_def
proof (intro act_rules)
  fix w and worlds :: "(bytes, world) btree"
  assume w: "bt_get worlds (w_id world) = Some w" and valid: "valid_entry w (w_id world)"
  then have wid: "w_id w = w_id world" by (simp add: valid_entry_def)
  let ?shape = "\<lambda>root. \<exists>r. w_temp_root w = Some r \<and> components root = components r"
  have temp: "triple (\<lambda>d. d = d0 \<and> worlds = registry s d) (temp_root v w)
      (\<lambda>root d. extends d0 d \<and> ?shape root \<and> worlds = registry s d0) (\<lambda>_. True)"
    by (rule triple_post [OF triple_from [OF temp_root_ok]]) (auto simp: same_dirs_def)
  have mark: "triple (named d0 s (w_id w) owner) (mark_root v root owner)
      (\<lambda>mine d. named d0 s (w_id w) owner d \<and> (mine \<longrightarrow> root_at d root = Owned owner)) (\<lambda>_. True)"
    for root owner
    by (rule triple_post [OF triple_from [OF mark_root_ok]]) (auto intro: named_same)
  have rest: "triple (\<lambda>d. extends d0 d \<and> ?shape root \<and> worlds = registry s d0)
      (bind_act (root_owner v s (w_id w)) (\<lambda>owner. bind_act (mark_root v root owner) (\<lambda>mine.
         if mine then ret (w, root) else move_world v s worlds w root owner)))
      (owns s (w_id world)) (\<lambda>_. True)" for root
  proof (cases "?shape root \<and> worlds = registry s d0")
    case True
    then have "owns s (w_id world) (w, root) d"
      if "named d0 s (w_id w) owner d" "root_at d root = Owned owner" for owner d
      using that w wid extends_registry [of d0 d s] by (auto simp: owns_def named_def)
    with move_world_owns [OF inv, of w] show ?thesis
      unfolding wid [symmetric]
      by (intro triple_bind [OF triple_pre [OF root_owner_named [of d0]]] triple_bind [OF mark]
          triple_if triple_ret triple_pre [OF move_world_owns [OF inv, of w]]) auto
  qed (auto simp: triple_def)
  show "triple (\<lambda>d. d = d0 \<and> worlds = registry s d)
      (bind_act (temp_root v w) (\<lambda>root. bind_act (root_owner v s (w_id w)) (\<lambda>owner.
         bind_act (mark_root v root owner) (\<lambda>mine.
           if mine then ret (w, root) else move_world v s worlds w root owner))))
     (owns s (w_id world)) (\<lambda>_. True)"
    by (rule triple_bind [OF temp]) (rule rest)
qed auto

section \<open>One registry at a time\<close>

text \<open>An operation on one state directory leaves the files of every other one alone.\<close>

definition elsewhere :: "bytes \<Rightarrow> disk \<Rightarrow> disk \<Rightarrow> bool" where
  "elsewhere s d0 d \<longleftrightarrow> (\<forall>x. x \<noteq> s \<longrightarrow> d_states d x = d_states d0 x)"

abbreviation stays_home :: "bytes \<Rightarrow> disk \<Rightarrow> 'a act \<Rightarrow> bool" where
  "stays_home s d0 m \<equiv> triple (elsewhere s d0) m (\<lambda>_. elsewhere s d0) (elsewhere s d0)"

lemma home_roots:
  assumes "\<And>d1. triple (same_dirs d1) m (\<lambda>a d. Q a d1 d) (same_dirs d1)"
    and "\<And>a d1 d. Q a d1 d \<Longrightarrow> same_dirs d1 d"
  shows "stays_home s d0 m"
  by (rule triple_post [OF triple_from [OF assms(1)]])
    (auto simp: elsewhere_def same_dirs_def dest!: assms(2))

lemma home_temp_root: "stays_home s d0 (temp_root v w)"
  by (rule home_roots [OF temp_root_ok]) simp

lemma home_mark_root: "stays_home s d0 (mark_root v root owner)"
  by (rule home_roots [OF mark_root_ok]) simp

lemma home_allocate: "stays_home s d0 (allocate v worlds home owner)"
  by (rule home_roots [OF allocate_ok]) (auto simp: allocated_def)

lemma home_fill: "stays_home s d0 (fill_temp_root v w worlds home owner)"
  by (rule home_roots [OF fill_temp_root_ok]) (simp add: filled_def)

lemma home_root_owner: "stays_home s d0 (root_owner v s wid)"
  unfolding root_owner_def registry_id_def
  by (auto simp: triple_def bind_act_def reads_def ensure_def attempt_def ret_def fail_def
      persist_run Let_def elsewhere_def set_state_def split: option.splits)

lemma home_save: "stays_home s d0 (save v s worlds)"
  by (auto simp: triple_def save_def bind_act_def reads_def lift_def attempt_def ret_def fail_def
      persist_run elsewhere_def set_state_def split: sum.splits option.splits)

lemma home_commit: "stays_home s d0 (commit v s worlds wid w)"
  unfolding commit_def by (intro act_rules triple_bind [OF home_save])

lemma home_fill_entry: "stays_home s d0 (fill_entry v home s wid worlds w)"
  unfolding fill_entry_def by (intro act_rules triple_bind [OF home_root_owner] home_fill)

lemma home_create_in: "stays_home s d0 (create_in v home s wid dir)"
proof -
  have old: "stays_home s d0 (create_existing v home s wid worlds x w)" for worlds x w
    unfolding create_existing_def Let_def
    by (intro act_rules triple_bind [OF home_fill_entry] home_commit)
  have new: "stays_home s d0 (create_new v home s wid worlds x)" for worlds x
    unfolding create_new_def
    by (intro act_rules triple_bind [OF home_root_owner] triple_bind [OF home_allocate] home_commit)
  show ?thesis
    unfolding create_in_def
    by (intro act_rules) (auto intro: triple_pre [OF old] triple_pre [OF new])
qed

lemma home_get_in: "stays_home s d0 (get_in v home seen s wid)"
proof -
  have "stays_home s d0 (get_locked v home s wid)"
    unfolding get_locked_def
    by (intro act_rules triple_bind [OF triple_pre [OF home_fill_entry]] home_commit) auto
  then show ?thesis unfolding get_in_def by (intro act_rules) auto
qed

lemma home_owned: "stays_home s d0 (owned_temp_root v s world)"
proof -
  have "stays_home s d0 (move_world v s worlds w root owner)" for worlds w root owner
    unfolding move_world_def
    by (intro act_rules triple_bind [OF home_allocate] triple_bind [OF home_save]
        triple_bind [OF home_temp_root])
  then show ?thesis
    unfolding owned_temp_root_def
    by (intro act_rules triple_bind [OF triple_pre [OF home_temp_root]]
        triple_bind [OF home_root_owner] triple_bind [OF home_mark_root]) auto
qed

end
