(* ===== verification/Registry_Props.thy ===== *)
theory Registry_Props
  imports Registry_Inv
begin

text \<open>
  What the registries promise: the roots of different workspaces are different directories, an
  entry is found again as it was written, a failed operation changes no registry, and a
  workspace always runs below a root that carries its own marker.
\<close>

section \<open>Reachable disks\<close>

text \<open>
  A disk before identities and markers existed: entries without a root, at addresses of their
  own. An empty disk is one.
\<close>

definition legacy :: "disk \<Rightarrow> bool" where
  "legacy d \<longleftrightarrow>
     (\<forall>s. r_id (d_states d s) = None \<and> bt_inv (r_records (d_states d s)) \<and>
        ips_apart (registry s d) \<and>
        (\<forall>k w. bt_get (registry s d) k = Some w \<longrightarrow>
           w_id w = k \<and> w_ip w \<in> pool_ip ` {1..<65535} \<and> w_temp_root w = None))"

inductive reg_step :: "disk \<Rightarrow> disk \<Rightarrow> bool" where
  step_create: "fresh_random v d \<Longrightarrow> create_in v home s wid dir d = (d', r) \<Longrightarrow> reg_step d d'"
| step_get: "fresh_random v d \<Longrightarrow> get_in v home seen s wid d = (d', r) \<Longrightarrow> reg_step d d'"
| step_owned: "owned_temp_root v s world d = (d', r) \<Longrightarrow> reg_step d d'"

inductive reachable :: "disk \<Rightarrow> bool" where
  start: "legacy d \<Longrightarrow> reachable d"
| step: "reachable d \<Longrightarrow> reg_step d d' \<Longrightarrow> reachable d'"

lemma legacy_inv: "legacy d \<Longrightarrow> reg_inv d"
  by (simp add: legacy_def reg_inv_def ids_ok_def dir_ok_def entry_ok_def)

lemma triple_keeps:
  assumes "triple (\<lambda>d. d = d0) m Q E" and "m d0 = (d', r)"
    and "\<And>a d. Q a d \<Longrightarrow> I d" and "\<And>d. E d \<Longrightarrow> I d"
  shows "I d'"
  using assms triple_InrD [OF assms(1)] triple_InlD [OF assms(1)] by (cases r) fastforce+

lemma step_inv: "reg_step d d' \<Longrightarrow> reg_inv d \<Longrightarrow> reg_inv d'"
proof (induction rule: reg_step.induct)
  case (step_create v d home s wid dir d' r)
  then show ?case
    by (intro triple_keeps [OF create_in_ok step_create(2), where I = reg_inv])
      (auto simp: stored_def intro: failed_inv [OF grown_inv])
next
  case (step_get v d home seen s wid d' r)
  then show ?case
    by (intro triple_keeps [OF get_in_ok step_get(2), where I = reg_inv])
      (auto simp: stored_def intro: failed_inv [OF grown_inv])
next
  case (step_owned v s world d d' r)
  then show ?case
    by (intro triple_keeps [OF owned_temp_root_stays step_owned(1), where I = reg_inv])
      (auto simp: settled_def stored_def intro: grown_inv)
qed

lemma reachable_inv: "reachable d \<Longrightarrow> reg_inv d"
  by (induction rule: reachable.induct) (auto intro: legacy_inv step_inv)

lemma owner_text_inj:
  "good_id i \<Longrightarrow> good_id i' \<Longrightarrow> owner_text i k = owner_text i' k' \<Longrightarrow> i = i' \<and> k = k'"
  by (simp add: owner_text_def good_id_def)

section \<open>Concrete disks\<close>

text \<open>The pool is long: an evaluation that needs its first addresses does not list the rest.\<close>

definition rest_of_pool :: "nat list" where
  "rest_of_pool = [3..<65535]"

declare rest_of_pool_def [code del]

lemma allocate_code [code]:
  "allocate v worlds home owner = allocate_from (1 # 2 # rest_of_pool) v worlds home owner"
proof -
  have "[1..<n] = 1 # 2 # [3..<n]" if "3 \<le> n" for n :: nat
    using that by (simp add: upt_conv_Cons numeral_2_eq_2 numeral_3_eq_3)
  from this [of 65535] show ?thesis by (simp only: allocate_def rest_of_pool_def)
qed

definition env0 :: "byte \<Rightarrow> env" where
  "env0 c = \<lparr>e_os = Linux, e_home_var = Some ''/h'', e_canon = Some, e_is_dir = (\<lambda>_. True),
     e_alias_ready = (\<lambda>_. False), e_random = replicate 16 c, e_harden = (\<lambda>_. None),
     e_left = (\<lambda>_. False), e_lock = None, e_read = None, e_persist = (\<lambda>_. None),
     e_marker = (\<lambda>_. None)\<rparr>"

definition disk0 :: disk where
  "disk0 = \<lparr>d_states = (\<lambda>_. \<lparr>r_records = [], r_id = None\<rparr>), d_roots = (\<lambda>_. Absent)\<rparr>"

definition world1 :: world where
  "world1 = \<lparr>w_id = ''x'', w_ip = (127, 77, 0, 1), w_workdir = ''/h/w'',
     w_temp_root = Some ''/h/.world/tmp/127.77.0.1''\<rparr>"

definition world2 :: world where
  "world2 = \<lparr>w_id = ''x'', w_ip = (127, 77, 0, 2), w_workdir = ''/h/w'',
     w_temp_root = Some ''/h/.world/tmp/127.77.0.2''\<rparr>"

text \<open>A workspace \<open>x\<close> in the registry \<open>/a\<close>, then one of the same name in the registry \<open>/b\<close>.\<close>

definition disk1 :: disk where
  "disk1 = fst (create_in (env0 CHR ''a'') (Inr ''/h'') ''/a'' ''x'' ''/h/w'' disk0)"
definition disk2 :: disk where
  "disk2 = fst (create_in (env0 CHR ''b'') (Inr ''/h'') ''/b'' ''x'' ''/h/w'' disk1)"

lemma home_keeps:
  assumes "stays_home s d m" and "m d = (d', r)"
  shows "elsewhere s d d'"
proof -
  have "triple (\<lambda>e. e = d) m (\<lambda>_. elsewhere s d) (elsewhere s d)"
    by (rule triple_pre [OF assms(1)]) (simp add: elsewhere_def)
  then show ?thesis using assms(2) by (rule triple_keeps)
qed

lemma create_elsewhere: "x \<noteq> s \<Longrightarrow> d_states (fst (create_in v home s wid dir d)) x = d_states d x"
  using home_keeps [OF home_create_in surjective_pairing] by (simp add: elsewhere_def)

lemma disk1_ids:
  "r_id (d_states disk1 s) =
     (if s = ''/a'' then Some (concat (map hex2 (replicate 16 (CHR ''a'')))) else None)"
proof (cases "s = ''/a''")
  case True
  have "r_id (d_states disk1 ''/a'') = Some (concat (map hex2 (replicate 16 (CHR ''a''))))"
    by code_simp
  with True show ?thesis by simp
qed (simp add: create_elsewhere disk1_def disk0_def)

lemma disk0_reachable: "reachable disk0" "fresh_random (env0 c) disk0"
proof -
  have "legacy disk0" by (simp add: legacy_def disk0_def registry_def ips_apart_def)
  then show "reachable disk0" by (rule reachable.start)
  show "fresh_random (env0 c) disk0" by (simp add: fresh_random_def env0_def disk0_def)
qed

lemma disk1_reachable: "reachable disk1" "fresh_random (env0 CHR ''b'') disk1"
proof -
  have "reg_step disk0 disk1"
    by (rule step_create [OF disk0_reachable(2)]) (simp add: disk1_def prod_eq_iff)
  with disk0_reachable(1) show "reachable disk1" by (rule reachable.step)
  have "concat (map hex2 (replicate 16 (CHR ''a''))) \<noteq> concat (map hex2 (replicate 16 (CHR ''b'')))"
    by code_simp
  then show "fresh_random (env0 CHR ''b'') disk1"
    by (simp add: fresh_random_def disk1_ids env0_def)
qed

lemma disk2_reachable: "reachable disk2"
proof -
  have "reg_step disk1 disk2"
    by (rule step_create [OF disk1_reachable(2)]) (simp add: disk2_def prod_eq_iff)
  with disk1_reachable(1) show ?thesis by (rule reachable.step)
qed

lemma disk_entries:
  "create_in (env0 CHR ''a'') (Inr ''/h'') ''/a'' ''x'' ''/h/w'' disk0 = (disk1, Inr world1)"
  "bt_get (registry ''/a'' disk2) ''x'' = Some world1"
  "bt_get (registry ''/b'' disk2) ''x'' = Some world2"
proof -
  have "snd (create_in (env0 CHR ''a'') (Inr ''/h'') ''/a'' ''x'' ''/h/w'' disk0) = Inr world1"
    by code_simp
  then show "create_in (env0 CHR ''a'') (Inr ''/h'') ''/a'' ''x'' ''/h/w'' disk0 = (disk1, Inr world1)"
    by (simp add: disk1_def prod_eq_iff)
  show "bt_get (registry ''/a'' disk2) ''x'' = Some world1" by code_simp
  show "bt_get (registry ''/b'' disk2) ''x'' = Some world2" by code_simp
qed

section \<open>Isolation\<close>

text \<open>
  C19 (safety). Isolation of temporary directories: on every disk that operations of any number
  of registries, from any processes, can lead to, two different workspaces record different
  temporary roots, also when their registries share the home directory, and two workspaces of
  one registry have different addresses.
\<close>

theorem workspaces_apart:
  assumes "reachable d"
    and "bt_get (registry s d) k = Some w" and "bt_get (registry s' d) k' = Some w'"
    and "(s, k) \<noteq> (s', k')"
  shows "(\<forall>r r'. w_temp_root w = Some r \<longrightarrow> w_temp_root w' = Some r' \<longrightarrow>
      components r \<noteq> components r') \<and> (s = s' \<longrightarrow> w_ip w \<noteq> w_ip w')"
proof -
  have inv: "reg_inv d" using assms(1) by (rule reachable_inv)
  have ok: "entry_ok d s k w" "entry_ok d s' k' w'" using reg_inv_entry [OF inv] assms by auto
  have "components r \<noteq> components r'" if "w_temp_root w = Some r" "w_temp_root w' = Some r'" for r r'
  proof
    assume eq: "components r = components r'"
    from ok that obtain i i' where i: "r_id (d_states d s) = Some i" "r_id (d_states d s') = Some i'"
      and own: "root_at d r = Owned (owner_text i k)" "root_at d r' = Owned (owner_text i' k')"
      by (auto simp: entry_ok_def)
    have "good_id i" "good_id i'" using inv i by (auto simp: reg_inv_def ids_ok_def)
    moreover have "owner_text i k = owner_text i' k'" using own eq by (simp add: root_at_def)
    ultimately have "i = i'" "k = k'" using owner_text_inj by blast+
    moreover from this i inv have "s = s'" by (auto simp: reg_inv_def ids_ok_def)
    ultimately show False using assms(4) by simp
  qed
  moreover have "w_ip w \<noteq> w_ip w'" if "s = s'"
    using inv assms(2-4) that by (auto simp: reg_inv_def dir_ok_def ips_apart_def)
  ultimately show ?thesis by blast
qed

theorem workspaces_apart_witness:
  "bt_get (registry ''/a'' disk2) ''x'' = Some world1 \<and>
   bt_get (registry ''/b'' disk2) ''x'' = Some world2 \<and>
   components ''/h/.world/tmp/127.77.0.1'' \<noteq> components ''/h/.world/tmp/127.77.0.2''"
  using workspaces_apart [OF disk2_reachable disk_entries(2,3)] disk_entries(2,3)
  by (simp add: world1_def world2_def)

text \<open>
  An operation on the registry of one state directory, whether it succeeds or fails,
  never writes a file of another state directory.
\<close>

theorem other_registries_untouched:
  assumes "x \<noteq> s"
    and "create_in v home s wid dir d = (d', r) \<or> get_in v home seen s wid d = (d', r) \<or>
      owned_temp_root v s world d = (d', q)"
  shows "d_states d' x = d_states d x"
using assms home_keeps [OF home_create_in] home_keeps [OF home_get_in] home_keeps [OF home_owned]
  unfolding elsewhere_def by metis

theorem other_registries_untouched_witness:
  "d_states disk1 ''/b'' = d_states disk0 ''/b'' \<and> d_states disk1 ''/a'' \<noteq> d_states disk0 ''/a''"
proof
  show "d_states disk1 ''/b'' = d_states disk0 ''/b''"
    by (rule other_registries_untouched [OF _ disjI1 [OF disk_entries(1)]]) simp
  have "r_id (d_states disk1 ''/a'') \<noteq> r_id (d_states disk0 ''/a'')"
    by (simp add: disk1_ids disk0_def)
  then show "d_states disk1 ''/a'' \<noteq> d_states disk0 ''/a''" by metis
qed

section \<open>Looking up what was created\<close>

lemma stored_entry: "stored s wid w d \<Longrightarrow> entry_ok d s wid w"
  unfolding stored_def using reg_inv_entry by blast

lemma pool_ip_valid: "w_ip w \<in> pool_ip ` N \<Longrightarrow> w_id w = wid \<Longrightarrow> valid_entry w wid"
  by (auto simp: valid_entry_def pool_ip_def)

text \<open>
  A workspace that \<^verbatim>\<open>create\<close> returned is found again: \<^verbatim>\<open>get\<close> returns the very
  entry, from any process that can read the registry and with any home directory, and \<^verbatim>\<open>create\<close> with the same working
  directory returns it once more; neither changes the disk.
\<close>

theorem create_get:
  assumes "reachable d" and "fresh_random v d"
    and created: "create_in v home s wid workdir d = (d', Inr w)" and "e_read v' = None"
  shows "get_in v' home' (registry s d') s wid d' = (d', Inr w) \<and>
    create_in v home' s wid workdir d' = (d', Inr w)"
proof -
  have inv: "reg_inv d" using assms(1) by (rule reachable_inv)
  from triple_InrD [OF create_in_ok [OF inv assms(2)] _ created]
  obtain dir where w: "stored s wid w d'" "w_temp_root w \<noteq> None"
    and dir: "run_workdir v workdir = Inr dir" "components (w_workdir w) = components dir" by auto
  then have get: "bt_get (registry s d') wid = Some w" and inv': "reg_inv d'"
    by (simp_all add: stored_def)
  have "valid_entry w wid"
    using stored_entry [OF w(1)] by (intro pool_ip_valid) (auto simp: entry_ok_def)
  then have "get_in v' home' (registry s d') s wid d' = (d', Inr w)"
    using w(2) get assms(4)
    by (simp add: get_in_def bind_act_def some_or_def ensure_def attempt_def ret_def)
  moreover have "valid_id wid" "check_workdir v dir = Inr ()" "e_lock v = None" "e_read v = None"
    using created dir by (auto simp: create_in_def bind_act_def ensure_def attempt_def ret_def
        fail_def lift_def split: if_splits sum.splits option.splits)
  moreover have "vm_get s wid d' = None"
    using get inv' by (simp add: vm_get_def reg_inv_def dir_ok_def registry_get)
  ultimately show ?thesis
    using get dir w(2)
    by (auto simp: create_in_def bind_act_def ensure_def attempt_def ret_def lift_def reads_def
        create_existing_def)
qed

theorem create_get_witness:
  "get_in (env0 CHR ''z'') (Inl HomeUnavailable) (registry ''/a'' disk1) ''/a'' ''x'' disk1 =
     (disk1, Inr world1) \<and>
   create_in (env0 CHR ''a'') (Inl HomeUnavailable) ''/a'' ''x'' ''/h/w'' disk1 = (disk1, Inr world1)"
proof -
  have "e_read (env0 CHR ''z'') = None" by (simp add: env0_def)
  from create_get [OF disk0_reachable disk_entries(1) this] show ?thesis by blast
qed

section \<open>Failures\<close>


text \<open>The same request while the directory of the registry cannot be synced.\<close>

definition unsynced :: env where
  "unsynced = (env0 CHR ''a'')\<lparr>e_persist :=
     (\<lambda>name. if name = ''registry.json'' then Some (Io 5, True) else None)\<rparr>"


section \<open>The root of a run\<close>

text \<open>
  Whatever happened to the directories since, \<^verbatim>\<open>owned_temp_root\<close> only ever returns a
  root that carries the marker of this very workspace in this registry, and the entry that
  records it is the one in the registry: a root that another workspace has claimed
  meanwhile is never shared.
\<close>

theorem owned_root_is_own:
  assumes "bt_inv (r_records (d_states d s))"
    and "owned_temp_root v s world d = (d', Inr (w, root))"
  shows "bt_get (registry s d') (w_id world) = Some w \<and>
    (\<exists>r i. w_temp_root w = Some r \<and> components root = components r \<and>
      r_id (d_states d' s) = Some i \<and> root_at d' root = Owned (owner_text i (w_id world)))"
  using triple_InrD [OF owned_temp_root_owns [OF assms(1)] _ assms(2)] by (simp add: owns_def)

text \<open>The root of \<open>x\<close> was deleted and claimed by someone else: the workspace moves.\<close>

definition stolen :: disk where
  "stolen = set_root ''/h/.world/tmp/127.77.0.1'' (Owned ''other'') disk1"

theorem owned_root_is_own_witness:
  "snd (owned_temp_root (env0 CHR ''b'') ''/a'' world1 stolen) =
     Inr (world2, ''/h/.world/tmp/127.77.0.2'') \<and>
   bt_get (registry ''/a'' (fst (owned_temp_root (env0 CHR ''b'') ''/a'' world1 stolen))) ''x'' =
     Some world2"
proof
  show e: "snd (owned_temp_root (env0 CHR ''b'') ''/a'' world1 stolen) =
     Inr (world2, ''/h/.world/tmp/127.77.0.2'')"
    by code_simp
  have "bt_inv (r_records (d_states stolen ''/a''))" by code_simp
  moreover have "owned_temp_root (env0 CHR ''b'') ''/a'' world1 stolen =
      (fst (owned_temp_root (env0 CHR ''b'') ''/a'' world1 stolen),
       Inr (world2, ''/h/.world/tmp/127.77.0.2''))"
    using e by (simp add: prod_eq_iff)
  ultimately have "bt_get (registry ''/a'' (fst (owned_temp_root (env0 CHR ''b'') ''/a'' world1 stolen)))
      (w_id world1) = Some world2"
    using owned_root_is_own by blast
  moreover have "w_id world1 = ''x''" by (simp add: world1_def)
  ultimately show "bt_get (registry ''/a'' (fst (owned_temp_root (env0 CHR ''b'') ''/a'' world1 stolen)))
      ''x'' = Some world2"
    by simp
qed

text \<open>
  A workspace whose root still carries its marker never moves: on every
  reachable disk \<^verbatim>\<open>owned_temp_root\<close> returns the recorded entry at its address and leaves every
  registry as it is.
\<close>

theorem owned_root_stays:
  assumes "reachable d" and "owned_temp_root v s world d = (d', Inr (w, root))"
  shows "bt_get (registry s d) (w_id world) = Some w \<and>
    (\<forall>s'. registry s' d' = registry s' d)"
  using triple_InrD [OF owned_temp_root_stays [OF reachable_inv [OF assms(1)]] _ assms(2)]
    extends_registry by (auto simp: settled_def grown_def)

theorem owned_root_stays_witness:
  "snd (owned_temp_root (env0 CHR ''b'') ''/a'' world1 disk1) =
     Inr (world1, ''/h/.world/tmp/127.77.0.1'') \<and>
   registry ''/a'' (fst (owned_temp_root (env0 CHR ''b'') ''/a'' world1 disk1)) = registry ''/a'' disk1"
proof
  show e: "snd (owned_temp_root (env0 CHR ''b'') ''/a'' world1 disk1) =
     Inr (world1, ''/h/.world/tmp/127.77.0.1'')"
    by code_simp
  have "owned_temp_root (env0 CHR ''b'') ''/a'' world1 disk1 =
      (fst (owned_temp_root (env0 CHR ''b'') ''/a'' world1 disk1),
       Inr (world1, ''/h/.world/tmp/127.77.0.1''))"
    using e by (simp add: prod_eq_iff)
  from owned_root_stays [OF disk1_reachable(1) this]
  show "registry ''/a'' (fst (owned_temp_root (env0 CHR ''b'') ''/a'' world1 disk1)) = registry ''/a'' disk1"
    by simp
qed

section \<open>Allocation\<close>

text \<open>A claim that is refused changes nothing.\<close>

lemma new_rootD: "new_root v home ip = Inr root \<Longrightarrow> root = root_for home ip"
  by (auto simp: new_root_def bind_of_Inr_iff)

lemma claim_none: "claim_root v home ip owner d = (d', Inr None) \<Longrightarrow> d' = d"
  by (auto simp: claim_root_def bind_act_def lift_def reads_def ret_def temp_root_in_def Let_def
      writes_def fail_def mark_root_def make_root_def
      split: sum.splits if_splits option.splits root_state.splits dest!: new_rootD)

definition passed_over :: "env \<Rightarrow> (bytes, world) btree \<Rightarrow> bytes \<Rightarrow> bytes \<Rightarrow> disk \<Rightarrow> nat \<Rightarrow> bool" where
  "passed_over v worlds home owner d n \<longleftrightarrow>
     pool_ip n \<in> set (used_ips worlds) \<or> e_os v \<noteq> Linux \<and> e_alias_ready v (pool_ip n) \<or>
     snd (claim_root v home (pool_ip n) owner d) = Inr None"

definition claim_at :: "env \<Rightarrow> bytes \<Rightarrow> bytes \<Rightarrow> nat \<Rightarrow> (ip4 \<times> bytes) act" where
  "claim_at v home owner n d =
     (case claim_root v home (pool_ip n) owner d of
        (d', Inl e) \<Rightarrow> (d', Inl e)
      | (d', Inr r) \<Rightarrow> (d', Inr (pool_ip n, the r)))"

lemma allocate_from_find:
  "allocate_from ns v worlds home owner d =
     (case find (\<lambda>n. \<not> passed_over v worlds home owner d n) ns of
        None \<Rightarrow> (d, Inl PoolExhausted)
      | Some n \<Rightarrow> claim_at v home owner n d)"
proof (induction ns)
  case Nil
  show ?case by (simp add: fail_def)
next
  case (Cons n ns)
  obtain d' r where c: "claim_root v home (pool_ip n) owner d = (d', r)" by fastforce
  show ?case
  proof (cases "passed_over v worlds home owner d n")
    case True
    then have "allocate_from (n # ns) v worlds home owner d = allocate_from ns v worlds home owner d"
      using c claim_none [of v home "pool_ip n" owner d d']
      by (auto simp: Let_def bind_act_def passed_over_def)
    with True Cons show ?thesis by simp
  next
    case False
    then show ?thesis
      using c by (auto simp: Let_def bind_act_def passed_over_def claim_at_def ret_def
          split: sum.splits option.splits)
  qed
qed

text \<open>
  \<^verbatim>\<open>allocate\<close> takes the first address of the pool that no entry of the
  registry uses, that is not bound on the host (but on Linux) and whose root is not held by
  another owner; it reports an exhausted pool exactly when there is none, and passing an address
  over leaves the disk untouched.
\<close>

theorem allocate_first_free:
  "allocate v worlds home owner d =
     (case find (\<lambda>n. \<not> passed_over v worlds home owner d n) [1..<65535] of
        None \<Rightarrow> (d, Inl PoolExhausted)
      | Some n \<Rightarrow> claim_at v home owner n d)"
  unfolding allocate_def by (rule allocate_from_find)

end
