(* ===== verification/Claims.thy ===== *)
theory Claims
  imports Registry_Props
begin

text \<open>
  Claims of a temporary root that race. Registries with different state directories take
  different locks, so \<^verbatim>\<open>claim_root\<close> and \<^verbatim>\<open>mark_root\<close> (\<^verbatim>\<open>crates/world-runtime/src/silo.rs\<close>) of
  several processes interleave: a step is one system call, and the marker is written byte by
  byte, so that a reader may see a part of it.
\<close>

section \<open>Claimants\<close>

datatype phase =
    Look          \<comment> \<open>before \<^verbatim>\<open>root.symlink_metadata()\<close>\<close>
  | Look_Marker   \<comment> \<open>before \<^verbatim>\<open>marker.symlink_metadata()\<close>\<close>
  | Build         \<comment> \<open>before \<^verbatim>\<open>temp_root_in\<close>\<close>
  | Mark          \<comment> \<open>before the exclusive \<^verbatim>\<open>open\<close>\<close>
  | Write nat     \<comment> \<open>so many bytes of the marker written\<close>
  | Read_Back     \<comment> \<open>before \<^verbatim>\<open>std::fs::read\<close>\<close>
  | Won
  | Lost
  | Failed

record claimant =
  c_root :: "component list"
  c_owner :: bytes
  c_phase :: phase

type_synonym race = "(component list \<Rightarrow> root_state) \<times> (nat \<Rightarrow> claimant)"

definition goes :: "(nat \<Rightarrow> claimant) \<Rightarrow> nat \<Rightarrow> phase \<Rightarrow> nat \<Rightarrow> claimant" where
  "goes T t p = T(t := (T t)\<lparr>c_phase := p\<rparr>)"

definition built :: "(component list \<Rightarrow> root_state) \<Rightarrow> component list \<Rightarrow> component list \<Rightarrow> root_state" where
  "built R r = R(r := if R r = Absent then Unmarked else R r)"

inductive claim_step :: "race \<Rightarrow> race \<Rightarrow> bool" where
  look_absent: "c_phase (T t) = Look \<Longrightarrow> R (c_root (T t)) = Absent \<Longrightarrow>
    claim_step (R, T) (R, goes T t Build)"
| look_there: "c_phase (T t) = Look \<Longrightarrow> R (c_root (T t)) \<noteq> Absent \<Longrightarrow>
    claim_step (R, T) (R, goes T t Look_Marker)"
| no_marker: "c_phase (T t) = Look_Marker \<Longrightarrow> R (c_root (T t)) = Unmarked \<Longrightarrow>
    claim_step (R, T) (R, goes T t Lost)"
| marker: "c_phase (T t) = Look_Marker \<Longrightarrow> R (c_root (T t)) = Owned x \<Longrightarrow>
    claim_step (R, T) (R, goes T t Build)"
| build: "c_phase (T t) = Build \<Longrightarrow>
    claim_step (R, T) (built R (c_root (T t)), goes T t Mark)"
| build_fails: "c_phase (T t) = Build \<Longrightarrow> R' = R \<or> R' = built R (c_root (T t)) \<Longrightarrow>
    claim_step (R, T) (R', goes T t Failed)"
| mark_new: "c_phase (T t) = Mark \<Longrightarrow> R (c_root (T t)) = Unmarked \<Longrightarrow>
    claim_step (R, T) (R(c_root (T t) := Owned []), goes T t (Write 0))"
| mark_exists: "c_phase (T t) = Mark \<Longrightarrow> R (c_root (T t)) = Owned x \<Longrightarrow>
    claim_step (R, T) (R, goes T t Read_Back)"
| write_byte: "c_phase (T t) = Write n \<Longrightarrow> n < length (c_owner (T t)) \<Longrightarrow>
    claim_step (R, T)
      (R(c_root (T t) := Owned (take (Suc n) (c_owner (T t)))), goes T t (Write (Suc n)))"
| write_done: "c_phase (T t) = Write n \<Longrightarrow> n = length (c_owner (T t)) \<Longrightarrow>
    claim_step (R, T) (R, goes T t Won)"
| read_back: "c_phase (T t) = Read_Back \<Longrightarrow> R (c_root (T t)) = Owned x \<Longrightarrow>
    claim_step (R, T) (R, goes T t (if x = c_owner (T t) then Won else Lost))"

| call_fails: "c_phase (T t) \<in> {Mark, Read_Back} \<or> (\<exists>n. c_phase (T t) = Write n) \<Longrightarrow>
    claim_step (R, T) (R, goes T t Failed)"

abbreviation claim_steps :: "race \<Rightarrow> race \<Rightarrow> bool" where
  "claim_steps \<equiv> rtranclp claim_step"

lemma goes_simps [simp]:
  "c_root (goes T t p u) = c_root (T u)" "c_owner (goes T t p u) = c_owner (T u)"
  "c_phase (goes T t p u) = (if u = t then p else c_phase (T u))"
  by (auto simp: goes_def)

lemma built_simps [simp]:
  "built R r q = (if q = r \<and> R r = Absent then Unmarked else R q)"
  by (auto simp: built_def)

section \<open>At most one owner\<close>

definition race_inv :: "bytes set \<Rightarrow> race \<Rightarrow> bool" where
  "race_inv owners = (\<lambda>(R, T).
     (\<forall>t. c_owner (T t) \<in> owners) \<and>
     (\<forall>t. c_phase (T t) = Won \<longrightarrow> R (c_root (T t)) = Owned (c_owner (T t))) \<and>
     (\<forall>t n. c_phase (T t) = Write n \<longrightarrow>
        n \<le> length (c_owner (T t)) \<and> R (c_root (T t)) = Owned (take n (c_owner (T t)))) \<and>
     (\<forall>t u n m. c_phase (T t) = Write n \<longrightarrow> c_phase (T u) = Write m \<longrightarrow>
        c_root (T t) = c_root (T u) \<longrightarrow> t = u))"

lemma race_owner: "race_inv os (R, T) \<Longrightarrow> c_owner (T t) \<in> os"
  by (simp add: race_inv_def)

lemma race_won: "race_inv os (R, T) \<Longrightarrow> c_phase (T t) = Won \<Longrightarrow> R (c_root (T t)) = Owned (c_owner (T t))"
  by (simp add: race_inv_def)

lemma race_write:
  "race_inv os (R, T) \<Longrightarrow> c_phase (T t) = Write n \<Longrightarrow>
     n \<le> length (c_owner (T t)) \<and> R (c_root (T t)) = Owned (take n (c_owner (T t)))"
  by (simp add: race_inv_def)

lemma race_writers:
  "race_inv os (R, T) \<Longrightarrow> c_phase (T t) = Write n \<Longrightarrow> c_phase (T u) = Write m \<Longrightarrow>
     c_root (T t) = c_root (T u) \<Longrightarrow> t = u"
  unfolding race_inv_def by blast

text \<open>A step that replaces no marker.\<close>

lemma race_goes:
  assumes inv: "race_inv os (R, T)" and keep: "\<And>q x. R q = Owned x \<Longrightarrow> R' q = Owned x"
    and won: "p = Won \<Longrightarrow> R' (c_root (T t)) = Owned (c_owner (T t))"
    and wrote: "\<And>n. p = Write n \<Longrightarrow> R' (c_root (T t)) = Owned (take n (c_owner (T t))) \<and>
      n \<le> length (c_owner (T t)) \<and> (\<forall>u m. c_root (T u) = c_root (T t) \<longrightarrow> c_phase (T u) \<noteq> Write m)"
  shows "race_inv os (R', goes T t p)"
proof -
  have "c_phase (T u) = Won \<Longrightarrow> R' (c_root (T u)) = Owned (c_owner (T u))" for u
    using race_won [OF inv] keep by blast
  moreover have "c_phase (T u) = Write n \<Longrightarrow>
      n \<le> length (c_owner (T u)) \<and> R' (c_root (T u)) = Owned (take n (c_owner (T u)))" for u n
    using race_write [OF inv] keep by blast
  ultimately show ?thesis
    using race_owner [OF inv] race_writers [OF inv] won wrote
    unfolding race_inv_def by (auto; metis)
qed

text \<open>
  What the race relies on: no owner is a proper part of another one from the front. Then a
  marker that is only partly written is never taken for someone's own.
\<close>

locale marker_owners =
  fixes owners :: "bytes set"
  assumes prefix_free: "x \<in> owners \<Longrightarrow> y \<in> owners \<Longrightarrow> x = take n y \<Longrightarrow> x = y"
begin

lemma write_keeps:
  assumes inv: "race_inv owners (R, T)" and w: "c_phase (T t) = Write n" "n < length (c_owner (T t))"
  shows "race_inv owners
    (R(c_root (T t) := Owned (take (Suc n) (c_owner (T t)))), goes T t (Write (Suc n)))"
proof -
  have "c_phase (T u) \<noteq> Won" if "c_root (T u) = c_root (T t)" for u
  proof
    assume "c_phase (T u) = Won"
    with inv that w have "c_owner (T u) = take n (c_owner (T t))"
      by (metis race_won race_write root_state.inject)
    with prefix_free race_owner [OF inv] have "take n (c_owner (T t)) = c_owner (T t)" by metis
    with w(2) show False by (metis length_take min.absorb4 less_irrefl)
  qed
  moreover have "c_phase (T u) \<noteq> Write m" if "c_root (T u) = c_root (T t)" "u \<noteq> t" for u m
    using race_writers [OF inv] w that by metis
  ultimately show ?thesis
    using inv w(2) unfolding race_inv_def by auto
qed

lemma step_keeps: "claim_step s s' \<Longrightarrow> race_inv owners s \<Longrightarrow> race_inv owners s'"
proof (induction rule: claim_step.induct)
  case (mark_new T t R)
  have "c_root (T u) = c_root (T t) \<Longrightarrow> c_phase (T u) \<noteq> Write m" for u m
    using race_write [OF mark_new(3), of u m] mark_new(2) by auto
  with mark_new show ?case by (intro race_goes [of _ R]) auto
next
  case (write_byte T t n R)
  then show ?case by (intro write_keeps)
next
  case (write_done T t n R)
  then show ?case using race_write by (intro race_goes [of _ R]) fastforce+
qed (erule race_goes; auto split: if_splits)+

lemma steps_keep: "claim_steps s s' \<Longrightarrow> race_inv owners s \<Longrightarrow> race_inv owners s'"
  by (induction rule: rtranclp_induct) (auto intro: step_keeps)

lemma winners_agree:
  assumes "claim_steps (R, T) (R', T')" and "\<And>t. c_phase (T t) = Look" and "\<And>t. c_owner (T t) \<in> owners"
    and "c_phase (T' t) = Won" and "c_phase (T' u) = Won" and "c_root (T' t) = c_root (T' u)"
  shows "c_owner (T' t) = c_owner (T' u)"
proof -
  have "race_inv owners (R, T)" using assms(2,3) by (simp add: race_inv_def)
  with assms(1) have "race_inv owners (R', T')" by (rule steps_keep)
  from race_won [OF this] assms(4-6) have "Owned (c_owner (T' t)) = Owned (c_owner (T' u))"
    by metis
  then show ?thesis by simp
qed

end

definition owner_texts :: "bytes set" where
  "owner_texts = {owner_text i k |i k. good_id i \<and> CHR 0x0A \<notin> set k}"

lemma owner_text_prefix:
  assumes "good_id i" "good_id j" "CHR 0x0A \<notin> set l"
    and eq: "owner_text i k = take n (owner_text j l)"
  shows "owner_text i k = owner_text j l"
proof (rule ccontr)
  assume neq: "owner_text i k \<noteq> owner_text j l"
  have len: "length i = 32" "length j = 32" using assms by (simp_all add: good_id_def)
  have n: "n < length (owner_text j l)" using eq neq by (metis not_less take_all)
  moreover have "34 \<le> n"
    using arg_cong [OF eq, of length] n len by (simp add: owner_text_def)
  ultimately have "take n (owner_text j l) = j @ [CHR 0x0A] @ take (n - 33) l"
    using len by (simp add: owner_text_def take_Cons' diff_diff_left)
  with eq len have "k @ [CHR 0x0A] = take (n - 33) l" by (simp add: owner_text_def)
  then have "CHR 0x0A \<in> set (take (n - 33) l)" by (metis in_set_conv_decomp)
  then show False using assms(3) in_set_takeD by metis
qed

interpretation owner_texts: marker_owners owner_texts
proof unfold_locales
  fix x y n
  assume x: "x \<in> owner_texts" "y \<in> owner_texts" and eq: "x = take n y"
  then obtain i k j l where "x = owner_text i k" "good_id i"
    and "y = owner_text j l" "good_id j" "CHR 0x0A \<notin> set l" by (auto simp only: owner_texts_def mem_Collect_eq)
  with eq show "x = y" using owner_text_prefix by metis
qed


lemma owner_text_in: "good_id i \<Longrightarrow> valid_id k \<Longrightarrow> owner_text i k \<in> owner_texts"
  unfolding owner_texts_def valid_id_def by (auto simp: list_all_iff)

section \<open>One claimant alone\<close>

lemmas then_steps = converse_rtranclp_into_rtranclp [where r = claim_step]

lemmas one_more = rtranclp.rtrancl_into_rtrancl [where r = claim_step]

lemmas last_step = r_into_rtranclp [where r = claim_step]

lemma goes_goes [simp]: "goes (goes T t p) t q = goes T t q"
  by (simp add: goes_def)

lemma to_build:
  assumes "c_phase (T t) = Look" and "R (c_root (T t)) \<noteq> Unmarked"
  shows "claim_steps (R, T) (R, goes T t Build)"
proof (cases "R (c_root (T t))")
  case Absent
  with assms show ?thesis by (intro last_step look_absent)
next
  case (Owned x)
  have "claim_step (R, T) (R, goes T t Look_Marker)" using assms Owned by (intro look_there) auto
  moreover have "claim_step (R, goes T t Look_Marker) (R, goes T t Build)"
    using marker [of "goes T t Look_Marker" t R x] Owned by simp
  ultimately show ?thesis by (rule then_steps [OF _ last_step])
qed (use assms in simp)

lemma to_mark:
  assumes "c_phase (T t) = Look" and "R (c_root (T t)) \<noteq> Unmarked"
  shows "claim_steps (R, T) (built R (c_root (T t)), goes T t Mark)"
  using one_more [OF to_build [of T t R, OF assms], of "(built R (c_root (T t)), goes T t Mark)"]
    build [of "goes T t Build" t R] by simp

lemma to_write:
  assumes "c_phase (T t) = Mark" and "R (c_root (T t)) = Unmarked"
  shows "n \<le> length (c_owner (T t)) \<Longrightarrow>
    claim_steps (R, T) (R(c_root (T t) := Owned (take n (c_owner (T t)))), goes T t (Write n))"
proof (induction n)
  case 0
  show ?case using last_step [OF mark_new [of T t R, OF assms]] by (simp only: take_0)
next
  case (Suc n)
  let ?R = "R(c_root (T t) := Owned (take n (c_owner (T t))))"
  have "claim_steps (R, T) (?R, goes T t (Write n))" by (rule Suc.IH [OF Suc_leD [OF Suc.prems]])
  moreover have "claim_step (?R, goes T t (Write n))
      (R(c_root (T t) := Owned (take (Suc n) (c_owner (T t)))), goes T t (Write (Suc n)))"
    using write_byte [of "goes T t (Write n)" t n ?R] Suc(2) by simp
  ultimately show ?case by (rule one_more)
qed

lemma to_won:
  assumes "c_phase (T t) = Mark" and "R (c_root (T t)) = Unmarked"
  shows "claim_steps (R, T) (R(c_root (T t) := Owned (c_owner (T t))), goes T t Won)"
  using one_more [OF to_write [of T t R, OF assms order_refl]]
    write_done [of "goes T t (Write (length (c_owner (T t))))" t]
  by simp

lemma to_read:
  assumes "c_phase (T t) = Mark" and "R (c_root (T t)) = Owned x"
  shows "claim_steps (R, T) (R, goes T t (if x = c_owner (T t) then Won else Lost))"
proof -
  have "claim_step (R, T) (R, goes T t Read_Back)" using assms by (rule mark_exists)
  moreover have "claim_step (R, goes T t Read_Back)
      (R, goes T t (if x = c_owner (T t) then Won else Lost))"
    using read_back [of "goes T t Read_Back" t R x] assms by simp
  ultimately show ?thesis by (rule then_steps [OF _ last_step])
qed

lemma claim_withdrawn:
  assumes "c_phase (T t) = Look" and "R (c_root (T t)) = Unmarked"
  shows "claim_steps (R, T) (R, goes T t Lost)"
proof -
  have "claim_step (R, T) (R, goes T t Look_Marker)" using assms by (intro look_there) auto
  moreover have "claim_step (R, goes T t Look_Marker) (R, goes T t Lost)"
    using no_marker [of "goes T t Look_Marker" t R] assms by simp
  ultimately show ?thesis by (rule then_steps [OF _ last_step])
qed

fun end_of :: "bytes option outcome_of \<Rightarrow> phase" where
  "end_of (Inl e) = Failed"
| "end_of (Inr None) = Lost"
| "end_of (Inr (Some root)) = Won"

text \<open>The marking of a root, from the state in which \<open>temp_root_in\<close> left it.\<close>

lemma mark_root_runs:
  assumes "mark_root v root owner d = (d', res)" and "c_phase (T t) = Mark"
    and "c_root (T t) = components root" and "c_owner (T t) = owner" and "root_at d root \<noteq> Absent"
  shows "claim_steps (d_roots d, T)
    (d_roots d', goes T t (end_of (map_sum (\<lambda>e. e) (\<lambda>mine. if mine then Some root else None) res)))"
proof (cases "root_at d root")
  case Unmarked
  have at: "d_roots d (c_root (T t)) = Unmarked" using Unmarked assms(3) by (simp add: root_at_def)
  note run = to_write [of T t "d_roots d", OF assms(2) at] to_won [of T t "d_roots d", OF assms(2) at]
  show ?thesis
  proof (cases "e_marker v root")
    case None
    with assms Unmarked run(2) show ?thesis
      by (auto simp: mark_root_def bind_act_def reads_def writes_def ret_def set_root_def)
  next
    case (Some f)
    then obtain e k where f: "e_marker v root = Some (e, k)" by (cases f) auto
    show ?thesis
    proof (cases k)
      case None
      with f assms Unmarked call_fails [of T t "d_roots d"] show ?thesis
        by (auto simp: mark_root_def bind_act_def reads_def fail_def)
    next
      case (Some n)
      have "claim_steps (d_roots d, T)
          ((d_roots d)(c_root (T t) := Owned (take n owner)), goes T t (Write (min n (length owner))))"
        using run(1) [of "min n (length owner)"] assms(4) by (cases "n \<le> length owner") auto
      moreover have "claim_step (R, goes T t (Write m)) (R, goes T t Failed)" for R m
        using call_fails [of "goes T t (Write m)" t R] by simp
      ultimately have "claim_steps (d_roots d, T)
          ((d_roots d)(c_root (T t) := Owned (take n owner)), goes T t Failed)" by (rule one_more)
      with Some f assms Unmarked show ?thesis
        by (auto simp: mark_root_def bind_act_def reads_def writes_def fail_def set_root_def)
    qed
  qed
next
  case (Owned x)
  then have at: "d_roots d (c_root (T t)) = Owned x" using assms(3) by (simp add: root_at_def)
  show ?thesis
  proof (cases "e_marker v root")
    case None
    with assms Owned to_read [of T t "d_roots d", OF assms(2) at] show ?thesis
      by (auto simp: mark_root_def bind_act_def reads_def ret_def)
  next
    case (Some f)
    with assms Owned call_fails [of T t "d_roots d"] show ?thesis
      by (cases f) (auto simp: mark_root_def bind_act_def reads_def fail_def)
  qed
qed (use assms in simp)

lemma make_root_built: "d_roots (make_root root d) = built (d_roots d) (components root)"
  by (auto simp: make_root_def set_root_def root_at_def)

lemma claim_root_unfold:
  assumes "new_root v home ip = Inr root" and "root_at d root \<noteq> Unmarked"
  shows "claim_root v home ip owner d =
    (case e_harden v root of
       Some e \<Rightarrow> (if e_left v root then make_root root d else d, Inl e)
     | None \<Rightarrow>
         (case mark_root v root owner (make_root root d) of
            (d', res) \<Rightarrow> (d', map_sum (\<lambda>e. e) (\<lambda>mine. if mine then Some root else None) res)))"
  using assms new_rootD [OF assms(1)]
  by (auto simp: claim_root_def bind_act_def lift_def reads_def ret_def temp_root_in_def Let_def
      writes_def fail_def split: option.splits sum.splits prod.splits)

text \<open>
  The function \<^verbatim>\<open>claim_root\<close> run without interruption is one of the runs of the
  race, whichever of its calls fail: the disk it leaves is the one that its own system calls
  lead to, it returns the root exactly when its claimant has won, nothing when it has lost, and
  an error when it has failed.
\<close>

theorem claim_root_runs:
  assumes "claim_root v home ip owner d = (d', res)" and "new_root v home ip = Inr root"
    and "T t = \<lparr>c_root = components root, c_owner = owner, c_phase = Look\<rparr>"
  shows "claim_steps (d_roots d, T) (d_roots d', goes T t (end_of res))"
proof (cases "root_at d root = Unmarked")
  case True
  with assms have "d' = d" "res = Inr None"
    by (auto simp: claim_root_def bind_act_def lift_def reads_def ret_def)
  with claim_withdrawn [of T t "d_roots d"] assms(3) True show ?thesis by (simp add: root_at_def)
next
  case False
  then have at: "c_phase (T t) = Look" "d_roots d (c_root (T t)) \<noteq> Unmarked"
    using assms(3) by (simp_all add: root_at_def)
  note def = claim_root_unfold [OF assms(2) False, of owner]
  show ?thesis
  proof (cases "e_harden v root")
    case (Some e)
    with assms(1) def have "d' = (if e_left v root then make_root root d else d)" "res = Inl e"
      by auto
    then have "claim_step (d_roots d, goes T t Build) (d_roots d', goes T t (end_of res))"
      using build_fails [of "goes T t Build" t "d_roots d'" "d_roots d"] assms(3)
      by (auto simp: make_root_built)
    with to_build [of T t "d_roots d", OF at] show ?thesis by (rule one_more)
  next
    case None
    let ?d = "make_root root d"
    obtain r where r: "mark_root v root owner ?d = (d', r)"
      "res = map_sum (\<lambda>e. e) (\<lambda>mine. if mine then Some root else None) r"
      using assms(1) def None by (auto split: prod.splits)
    have "claim_steps (d_roots d, T) (d_roots ?d, goes T t Mark)"
      using to_mark [of T t "d_roots d", OF at] assms(3) by (simp add: make_root_built)
    moreover have "claim_steps (d_roots ?d, goes T t Mark) (d_roots d', goes T t (end_of res))"
      using mark_root_runs [OF r(1), of "goes T t Mark" t] assms(3) r(2)
      by (simp add: root_at_def make_root_built)
    ultimately show ?thesis by (rule rtranclp_trans)
  qed
qed

text \<open>
  Two registries at one root: claimant 0 of the first one, claimant 1 of the second one, one
  after the other; everyone else is elsewhere.
\<close>

definition rid0 :: "nat \<Rightarrow> bytes" where
  "rid0 t = replicate 32 (if t = 0 then CHR ''a'' else CHR ''b'')"

definition root0 :: bytes where
  "root0 = root_for ''/h'' (pool_ip 1)"

definition claimants0 :: "nat \<Rightarrow> claimant" where
  "claimants0 t =
     \<lparr>c_root = (if t < 2 then components root0 else []), c_owner = owner_text (rid0 t) ''x'',
      c_phase = Look\<rparr>"

definition claimants2 :: "nat \<Rightarrow> claimant" where
  "claimants2 = goes (goes claimants0 0 Won) 1 Lost"

definition marked0 :: disk where
  "marked0 = fst (claim_root (env0 CHR ''a'') ''/h'' (pool_ip 1) (owner_text (rid0 0) ''x'') disk0)"

lemma claims0:
  "claim_root (env0 CHR ''a'') ''/h'' (pool_ip 1) (owner_text (rid0 0) ''x'') disk0 =
     (marked0, Inr (Some root0))"
  "claim_root (env0 CHR ''b'') ''/h'' (pool_ip 1) (owner_text (rid0 1) ''x'') marked0 =
     (marked0, Inr None)"
proof -
  have "snd (claim_root (env0 CHR ''a'') ''/h'' (pool_ip 1) (owner_text (rid0 0) ''x'') disk0) =
      Inr (Some root0)" by code_simp
  then show "claim_root (env0 CHR ''a'') ''/h'' (pool_ip 1) (owner_text (rid0 0) ''x'') disk0 =
     (marked0, Inr (Some root0))" by (simp add: marked0_def prod_eq_iff)
  have none: "snd (claim_root (env0 CHR ''b'') ''/h'' (pool_ip 1) (owner_text (rid0 1) ''x'') marked0) =
      Inr None" by code_simp
  then have "claim_root (env0 CHR ''b'') ''/h'' (pool_ip 1) (owner_text (rid0 1) ''x'') marked0 =
      (fst (claim_root (env0 CHR ''b'') ''/h'' (pool_ip 1) (owner_text (rid0 1) ''x'') marked0), Inr None)"
    by (simp add: prod_eq_iff)
  then show "claim_root (env0 CHR ''b'') ''/h'' (pool_ip 1) (owner_text (rid0 1) ''x'') marked0 =
     (marked0, Inr None)" using claim_none by metis
qed

lemma new_root0: "new_root (env0 c) ''/h'' (pool_ip 1) = Inr root0"
  by code_simp

theorem claim_root_runs_witness:
  "claim_steps (d_roots disk0, claimants0) (d_roots marked0, goes claimants0 0 Won)"
  using claim_root_runs [OF claims0(1) new_root0, of claimants0 0] by (simp add: claimants0_def)

section \<open>At most one winner\<close>

text \<open>
  C25 (safety). Of all processes that claim one root at the same time, whatever the order of
  their system calls and however far a marker is written when another process reads it, only
  one workspace wins: once a claimant has won, nobody with another registry identity or another
  workspace id has won or will win the same root.
\<close>

theorem one_winner:
  assumes "claim_steps (R, T) (R', T')" and "\<forall>t. c_phase (T t) = Look"
    and "\<forall>t. c_owner (T t) = owner_text (rid t) (wid t) \<and> good_id (rid t) \<and> valid_id (wid t)"
    and "(rid t, wid t) \<noteq> (rid u, wid u)"
    and "c_phase (T' t) = Won" and "c_root (T' t) = c_root (T' u)"
  shows "c_phase (T' u) \<noteq> Won"
proof
  assume won: "c_phase (T' u) = Won"
  have same: "claim_steps s s' \<Longrightarrow> c_owner (snd s' x) = c_owner (snd s x)" for s s' x
    by (induction rule: rtranclp_induct) (auto elim!: claim_step.cases)
  have "c_owner (T' t) = c_owner (T' u)"
    using assms won owner_text_in by (intro owner_texts.winners_agree [OF assms(1)]) auto
  then have "owner_text (rid t) (wid t) = owner_text (rid u) (wid u)"
    using same [OF assms(1)] assms(3) by simp
  then show False using assms(3,4) by (simp add: owner_text_def good_id_def)
qed

lemma race0: "claim_steps (d_roots disk0, claimants0) (d_roots marked0, claimants2)"
proof -
  let ?T = "goes claimants0 0 Won" and ?x = "owner_text (rid0 0) ''x''"
  have marked: "d_roots marked0 = (d_roots disk0)(components root0 := Owned ?x)"
  proof -
    have "claim_root (env0 CHR ''a'') ''/h'' (pool_ip 1) ?x disk0 =
        (disk0\<lparr>d_roots := (d_roots disk0)(components root0 := Owned ?x)\<rparr>, Inr (Some root0))"
      by (subst claim_root_unfold [OF new_root0])
        (simp_all add: env0_def disk0_def root_at_def make_root_def set_root_def mark_root_def
          bind_act_def reads_def writes_def ret_def)
    moreover note claims0(1)
    ultimately have "d_roots marked0 = d_roots (disk0\<lparr>d_roots := (d_roots disk0)(components root0 := Owned ?x)\<rparr>)"
      by (simp only: prod.inject)
    also have "\<dots> = (d_roots disk0)(components root0 := Owned ?x)" by simp
    finally show ?thesis .
  qed
  then have there: "d_roots marked0 (components root0) = Owned ?x" by simp
  have "claim_steps (d_roots disk0, claimants0) (built (d_roots disk0) (components root0), goes claimants0 0 Mark)"
    using to_mark [of claimants0 0 "d_roots disk0"] by (simp add: claimants0_def disk0_def)
  also have "claim_steps \<dots> (d_roots marked0, ?T)"
    using to_won [of "goes claimants0 0 Mark" 0 "built (d_roots disk0) (components root0)"] marked
    by (simp add: claimants0_def disk0_def built_def)
  also have "claim_steps \<dots> (d_roots marked0, goes ?T 1 Mark)"
  proof -
    have "built (d_roots marked0) (components root0) = d_roots marked0"
      using there by (simp add: built_def fun_upd_idem_iff)
    then show ?thesis
      using to_mark [of ?T 1 "d_roots marked0"] there by (simp add: claimants0_def)
  qed
  also have "claim_steps \<dots> (d_roots marked0, claimants2)"
  proof -
    have "rid0 0 \<noteq> rid0 1" by (simp add: rid0_def)
    then have "?x \<noteq> owner_text (rid0 1) ''x''" by (simp add: owner_text_def)
    then show ?thesis
      using to_read [of "goes ?T 1 Mark" 1 "d_roots marked0" ?x] there
      by (simp add: claimants2_def claimants0_def)
  qed
  finally show ?thesis .
qed

theorem one_winner_witness:
  "c_phase (claimants2 0) = Won \<and> c_root (claimants2 0) = c_root (claimants2 1) \<and>
   c_phase (claimants2 1) \<noteq> Won"
proof -
  have "(rid0 0, ''x'') \<noteq> (rid0 1, ''x'')" by (simp add: rid0_def)
  moreover have "good_id (rid0 t) \<and> valid_id ''x''" for t
    by (simp add: good_id_def rid0_def list_all_iff is_hex_def between_def valid_id_def)
  ultimately show ?thesis
    using one_winner [OF race0, of rid0 "\<lambda>_. ''x''" 0 1]
    by (simp add: claimants0_def claimants2_def)
qed

section \<open>Some owner\<close>

text \<open>While nobody failed, an unfinished root has a claimant who will finish it.\<close>

definition live_inv :: "component list \<Rightarrow> race \<Rightarrow> bool" where
  "live_inv r = (\<lambda>(R, T).
     (case R r of
        Absent \<Rightarrow> \<forall>t. c_root (T t) = r \<longrightarrow> c_phase (T t) \<in> {Look, Build}
      | Unmarked \<Rightarrow> \<exists>t. c_root (T t) = r \<and> c_phase (T t) = Mark
      | Owned x \<Rightarrow> \<exists>t. c_root (T t) = r \<and> (c_phase (T t) = Won \<or> (\<exists>n. c_phase (T t) = Write n))) \<or>
     (\<exists>t. c_root (T t) = r \<and> c_phase (T t) = Failed))"

lemma live_same:
  assumes live: "live_inv r (R, T)" and same: "R' r = R r" and "c_phase (T t) \<noteq> Won" "c_phase (T t) \<noteq> Failed"
    and absent: "R r = Absent \<Longrightarrow> c_root (T t) = r \<Longrightarrow> c_phase (T t) \<in> {Look, Build} \<Longrightarrow>
      p \<in> {Look, Build}"
    and mark: "c_root (T t) = r \<Longrightarrow> c_phase (T t) = Mark \<Longrightarrow> R r \<noteq> Unmarked"
    and wrote: "\<And>n. c_phase (T t) = Write n \<Longrightarrow> p = Won \<or> (\<exists>m. p = Write m)"
  shows "live_inv r (R', goes T t p)"
proof (cases "\<exists>u. c_root (T u) = r \<and> c_phase (T u) = Failed")
  case True
  then obtain u where "c_root (T u) = r" "c_phase (T u) = Failed" by blast
  with assms(4) have "c_root (goes T t p u) = r \<and> c_phase (goes T t p u) = Failed" by auto
  then show ?thesis unfolding live_inv_def by blast
next
  case False
  show ?thesis
  proof (cases "R r")
    case Absent
    with live False have "c_root (T u) = r \<Longrightarrow> c_phase (T u) \<in> {Look, Build}" for u
      by (auto simp: live_inv_def)
    with Absent absent show ?thesis by (auto simp: live_inv_def same)
  next
    case Unmarked
    with live False obtain u where "c_root (T u) = r" "c_phase (T u) = Mark"
      by (auto simp: live_inv_def)
    with mark Unmarked have "c_root (goes T t p u) = r \<and> c_phase (goes T t p u) = Mark" by auto
    with Unmarked show ?thesis
      unfolding live_inv_def by (auto simp: same simp del: goes_simps)
  next
    case (Owned x)
    with live False obtain u where "c_root (T u) = r" "c_phase (T u) = Won \<or> (\<exists>n. c_phase (T u) = Write n)"
      by (auto simp: live_inv_def)
    with wrote assms(3) have "c_root (goes T t p u) = r \<and>
        (c_phase (goes T t p u) = Won \<or> (\<exists>n. c_phase (goes T t p u) = Write n))" by auto
    with Owned show ?thesis
      unfolding live_inv_def by (auto simp: same simp del: goes_simps)
  qed
qed

lemma live_by:
  assumes "c_root (T t) = r"
    and "p = Failed \<or> R' r = Unmarked \<and> p = Mark \<or> (\<exists>x. R' r = Owned x) \<and> (\<exists>n. p = Write n)"
  shows "live_inv r (R', goes T t p)"
proof -
  have "c_root (goes T t p t) = r \<and> c_phase (goes T t p t) = p" using assms(1) by simp
  with assms(2) show ?thesis unfolding live_inv_def by (auto simp del: goes_simps)
qed

lemma live_step: "claim_step s s' \<Longrightarrow> live_inv r s \<Longrightarrow> live_inv r s'"
proof (induction rule: claim_step.induct)
  case (build T t R)
  show ?case
  proof (cases "c_root (T t) = r \<and> R r = Absent")
    case True
    then show ?thesis by (intro live_by) auto
  qed (use build in \<open>intro live_same [OF build(2)]; auto\<close>)
next
  case (build_fails T t R' R)
  show ?case
  proof (cases "c_root (T t) = r")
    case True
    then show ?thesis by (intro live_by) auto
  qed (use build_fails in \<open>intro live_same [OF build_fails(3)]; auto\<close>)
next
  case (mark_new T t R)
  show ?case
  proof (cases "c_root (T t) = r")
    case True
    then show ?thesis by (intro live_by) auto
  qed (use mark_new in \<open>intro live_same [OF mark_new(3)]; auto\<close>)
next
  case (write_byte T t n R)
  show ?case
  proof (cases "c_root (T t) = r")
    case True
    then show ?thesis by (intro live_by) auto
  qed (use write_byte in \<open>intro live_same [OF write_byte(3)]; auto\<close>)
next
  case (mark_exists T t R x)
  then show ?case by (intro live_same [OF mark_exists(3)]) auto
next
  case (read_back T t R x)
  then show ?case by (intro live_same [OF read_back(3)]) auto
next
  case (call_fails T t R)
  show ?case
  proof (cases "c_root (T t) = r")
    case True
    then show ?thesis by (intro live_by) auto
  next
    case False
    with call_fails(2) show ?thesis
      by (fastforce simp: live_inv_def split: root_state.splits)
  qed
qed (erule live_same; auto)+

text \<open>
  A claim is not lost between the claimants: if the root did not exist, and
  everyone who claimed it has come to an end and nobody failed, then someone won. (A claimant
  who only finds the directory of another one withdraws, but that other one goes on.)
\<close>

theorem some_winner:
  assumes "claim_steps (R, T) (R', T')" and "\<forall>t. c_phase (T t) = Look"
    and "R r = Absent" and "c_root (T' t) = r"
    and "\<forall>u. c_root (T' u) = r \<longrightarrow> c_phase (T' u) \<in> {Won, Lost}"
  shows "\<exists>u. c_root (T' u) = r \<and> c_phase (T' u) = Won"
proof -
  have "live_inv r (R, T)" using assms(2,3) by (simp add: live_inv_def)
  with assms(1) have "live_inv r (R', T')"
    by (induction rule: rtranclp_induct) (auto intro: live_step)
  with assms(4,5) show ?thesis by (fastforce simp: live_inv_def split: root_state.splits)
qed

theorem some_winner_witness:
  "\<exists>u. c_root (claimants2 u) = components root0 \<and> c_phase (claimants2 u) = Won"
proof (rule some_winner [OF race0])
  show "\<forall>t. c_phase (claimants0 t) = Look" by (simp add: claimants0_def)
  show "d_roots disk0 (components root0) = Absent" by (simp add: disk0_def)
  show "c_root (claimants2 0) = components root0" by (simp add: claimants2_def claimants0_def)
  have "components root0 \<noteq> []" by code_simp
  then show "\<forall>u. c_root (claimants2 u) = components root0 \<longrightarrow> c_phase (claimants2 u) \<in> {Won, Lost}"
    by (auto simp: claimants2_def claimants0_def split: if_splits)
qed

end
