(* ===== verification/Migration.thy ===== *)
theory Migration
  imports Registry
begin

text \<open>
  The move of a registry from its old default directory to the new one
  (\<^verbatim>\<open>default_state_dir_in\<close> of \<^verbatim>\<open>crates/world-runtime/src/silo.rs\<close>). The three files are moved by
  one rename each, and a run may end after any of them: by an error, a crash or a kill.
\<close>

section \<open>Directories\<close>

text \<open>What is at a name, never following a link: nothing, a regular file, or something else.\<close>

datatype at_name = Missing | Regular bytes | Special

datatype fname = Registry_Json | Registry_Id | Holders_Json

record layout =
  l_trusted :: bool
  l_old :: "fname \<Rightarrow> at_name"
  l_new :: "fname \<Rightarrow> at_name"

text \<open>\<open>l_trusted\<close>: \<^verbatim>\<open>old\<close> is a real directory of the calling user.\<close>

definition trusted_old :: "layout \<Rightarrow> bool" where
  "trusted_old L = l_trusted L"

definition is_file :: "at_name \<Rightarrow> bool" where
  "is_file x = (case x of Regular _ \<Rightarrow> True | _ \<Rightarrow> False)"

definition pending_id :: "layout \<Rightarrow> bool \<Rightarrow> bool" where
  "pending_id L moving =
     (trusted_old L \<and> is_file (l_old L Registry_Id) \<and>
      (moving \<or> l_new L Registry_Id = Missing \<and> l_old L Registry_Json = Missing))"

definition pending :: "layout \<Rightarrow> bool \<times> bool" where
  "pending L =
     (if \<not> trusted_old L then (False, False)
      else
        (let reg = (is_file (l_old L Registry_Json) \<and> l_new L Registry_Json = Missing);
             hold = (is_file (l_old L Holders_Json) \<and> l_new L Holders_Json = Missing \<and>
               (reg \<or> l_old L Registry_Json = Missing))
         in (reg, hold)))"

text \<open>\<^verbatim>\<open>std::fs::rename(old.join(f), new.join(f))\<close>.\<close>

definition rename_file :: "fname \<Rightarrow> layout \<Rightarrow> layout" where
  "rename_file f L = L\<lparr>l_old := (l_old L)(f := Missing), l_new := (l_new L)(f := l_old L f)\<rparr>"

text \<open>The renames that are due, decided once under both locks.\<close>

definition moves :: "layout \<Rightarrow> fname list" where
  "moves L =
     (let (move_registry, move_holders) = pending L
      in (if pending_id L move_registry then [Registry_Id] else []) @
         (if move_registry then [Registry_Json] else []) @
         (if move_holders then [Holders_Json] else []))"

text \<open>
  Each rename is followed by a sync of the new directory. \<open>fails\<close> gives the error of either, and
  whether the file had been moved by then.
\<close>

fun run_moves ::
  "(fname \<Rightarrow> (fault \<times> bool) option) \<Rightarrow> fname list \<Rightarrow> layout \<Rightarrow> layout \<times> unit outcome_of" where
  "run_moves fails [] L = (L, Inr ())"
| "run_moves fails (f # fs) L =
     (case fails f of
        Some (e, renamed) \<Rightarrow> (if renamed then rename_file f L else L, Inl e)
      | None \<Rightarrow> run_moves fails fs (rename_file f L))"

text \<open>
  The first check reads \<open>seen\<close> without a lock; \<open>locked\<close> is whether the locks can be taken.
\<close>

definition default_state_dir_in ::
  "bytes \<Rightarrow> layout \<Rightarrow> fault option \<Rightarrow> (fname \<Rightarrow> (fault \<times> bool) option) \<Rightarrow> layout \<Rightarrow> layout \<times> bytes outcome_of" where
  "default_state_dir_in home seen locked fails L =
     (let new = join_path (join_path home ''.local/share/world'') ''workspaces''
      in if pending seen = (False, False) \<and> \<not> pending_id seen False then (L, Inr new)
         else
           (case locked of
              Some e \<Rightarrow> (L, Inl e)
            | None \<Rightarrow>
                (case run_moves fails (moves L) L of
                   (L', Inl e) \<Rightarrow> (L', Inl e)
                 | (L', Inr _) \<Rightarrow> (L', Inr new))))"

section \<open>Interrupted runs\<close>

definition moved :: "fname list \<Rightarrow> layout \<Rightarrow> layout" where
  "moved fs L = fold rename_file fs L"

lemma run_moves_prefix: "\<exists>k. fst (run_moves fails fs L) = moved (take k fs) L"
proof (induction fs arbitrary: L)
  case Nil
  show ?case by (simp add: moved_def)
next
  case (Cons f fs)
  show ?case
  proof (cases "fails f")
    case None
    from Cons [of "rename_file f L"] obtain k
      where "fst (run_moves fails fs (rename_file f L)) = moved (take k fs) (rename_file f L)"
      by blast
    with None show ?thesis by (intro exI [of _ "Suc k"]) (simp add: moved_def)
  next
    case (Some e)
    then show ?thesis
      by (cases e) (rule exI [of _ "if snd e then 1 else 0"], simp add: moved_def)
  qed
qed

lemma moved_Nil [simp]: "moved [] L = L"
  by (simp add: moved_def)

text \<open>However a run ends, it has done some of the moves, in their order.\<close>

lemma state_dir_prefix:
  assumes "default_state_dir_in home seen locked fails L = (L1, r)"
  shows "\<exists>k. L1 = moved (take k (moves L)) L"
proof -
  have "L1 = L \<or> L1 = fst (run_moves fails (moves L) L)"
    using assms by (auto simp: default_state_dir_in_def Let_def
        split: prod.splits sum.splits option.splits if_splits)
  then show ?thesis
  proof
    assume "L1 = L"
    then show ?thesis by (intro exI [of _ 0]) simp
  qed (use run_moves_prefix in simp)
qed

lemma run_moves_full: "run_moves (\<lambda>_. None) fs L = (moved fs L, Inr ())"
  by (induction fs arbitrary: L) (simp_all add: moved_def)

lemma state_dir_full: "fst (default_state_dir_in home L None (\<lambda>_. None) L) = moved (moves L) L"
proof (cases "pending L = (False, False) \<and> \<not> pending_id L False")
  case True
  then have "moves L = []" by (simp add: moves_def)
  with True show ?thesis by (simp add: default_state_dir_in_def Let_def)
next
  case False
  then show ?thesis by (auto simp: default_state_dir_in_def Let_def run_moves_full)
qed

lemma moved_at:
  "distinct fs \<Longrightarrow>
     l_old (moved fs L) f = (if f \<in> set fs then Missing else l_old L f) \<and>
     l_new (moved fs L) f = (if f \<in> set fs then l_old L f else l_new L f)"
  by (induction fs rule: rev_induct) (auto simp: moved_def rename_file_def)

lemma moves_distinct: "distinct (moves L)"
  by (simp add: moves_def split: prod.splits)

lemma moves_due:
  "f \<in> set (moves L) \<Longrightarrow>
     trusted_old L \<and>
     (l_new L f = Missing \<or> f = Registry_Id \<and> l_new L Registry_Json = Missing) \<and>
     (Registry_Json \<in> set (moves L) \<or> l_old L Registry_Json = Missing)"
  by (auto simp: moves_def pending_def pending_id_def Let_def split: if_splits)

lemmas migration_defs = moves_def pending_def pending_id_def rename_file_def
  trusted_old_def is_file_def Let_def

text \<open>One rename does the first of the moves that are due, and nothing else.\<close>

lemma moves_step: "moves L = f # fs \<Longrightarrow> moves (rename_file f L) = fs"
  by (cases f) (auto simp: migration_defs split: if_splits at_name.splits)

lemma moves_resume: "moves (moved (take k (moves L)) L) = drop k (moves L)"
proof (induction k arbitrary: L)
  case (Suc k)
  then show ?case
  proof (cases "moves L")
    case (Cons f fs)
    with Suc [of "rename_file f L"] moves_step [OF Cons] show ?thesis by (simp add: moved_def)
  qed (simp add: moved_def)
qed (simp add: moved_def)

lemma moved_append: "moved (xs @ ys) L = moved ys (moved xs L)"
  by (simp add: moved_def)

text \<open>
  C26 (equivalence). A migration that was interrupted after any number of its renames, by an error
  or a crash, is completed by the next run: it ends in the layout that the uninterrupted run
  ends in, and after a complete run nothing is left to move.
\<close>

theorem migration_resumes:
  assumes "default_state_dir_in home seen locked fails L = (L1, r1)"
    and "default_state_dir_in home L1 None (\<lambda>_. None) L1 = (L2, r2)"
    and "default_state_dir_in home L None (\<lambda>_. None) L = (L3, r3)"
  shows "L2 = L3 \<and> moves L2 = []"
proof -
  from state_dir_prefix [OF assms(1)] obtain k where L1: "L1 = moved (take k (moves L)) L" ..
  have "L2 = moved (moves L1) L1" using state_dir_full [of home L1] assms(2) by simp
  also have "\<dots> = moved (moves L) L"
    unfolding L1 moves_resume by (simp flip: moved_append)
  finally have L2: "L2 = moved (moves L) L" .
  moreover have "L3 = moved (moves L) L" using state_dir_full [of home L] assms(3) by simp
  moreover have "moves (moved (moves L) L) = []"
    using moves_resume [of "length (moves L)" L] by simp
  ultimately show ?thesis by simp
qed

text \<open>An old directory with its three files; the new one has the identity of a failed creation.\<close>

definition before0 :: layout where
  "before0 = \<lparr>l_trusted = True,
     l_old = (\<lambda>f. case f of Registry_Json \<Rightarrow> Regular ''r'' | Registry_Id \<Rightarrow> Regular ''i''
       | Holders_Json \<Rightarrow> Regular ''h''),
     l_new = (\<lambda>f. if f = Registry_Id then Regular ''x'' else Missing)\<rparr>"

definition fails0 :: "fname \<Rightarrow> (fault \<times> bool) option" where
  "fails0 f = (if f = Registry_Json then Some (Io 5, False) else None)"

lemma before0_moves: "moves before0 = [Registry_Id, Registry_Json, Holders_Json]"
  by code_simp

lemma before0_run:
  "default_state_dir_in ''/h'' before0 None fails0 before0 = (moved [Registry_Id] before0, Inl (Io 5))"
proof -
  have "pending before0 \<noteq> (False, False)" by code_simp
  then show ?thesis
    by (simp add: default_state_dir_in_def Let_def before0_moves fails0_def moved_def)
qed

theorem migration_resumes_witness:
  "fst (default_state_dir_in ''/h'' (moved [Registry_Id] before0) None (\<lambda>_. None)
      (moved [Registry_Id] before0)) =
   fst (default_state_dir_in ''/h'' before0 None (\<lambda>_. None) before0)"
  using migration_resumes [OF before0_run prod.collapse [symmetric] prod.collapse [symmetric]] by blast

text \<open>
  No run loses anything: a file of the old directory is afterwards at its old or at
  its new place, and a registry or holder file that the new directory had before is still there;
  only the identity of a directory without a registry may be replaced, by that of the registry
  which moves in. An untrusted old directory is not touched.
\<close>

theorem migration_keeps:
  assumes "default_state_dir_in home seen locked fails L = (L1, r)"
  shows "(l_old L1 f = l_old L f \<or> l_old L1 f = Missing \<and> l_new L1 f = l_old L f) \<and>
    (l_new L f \<noteq> Missing \<longrightarrow> l_new L1 f = l_new L f \<or>
       f = Registry_Id \<and> l_new L Registry_Json = Missing \<and> l_new L1 f = l_old L f) \<and>
    (\<not> trusted_old L \<longrightarrow> L1 = L)"
proof -
  from state_dir_prefix [OF assms] obtain k where L1: "L1 = moved (take k (moves L)) L" ..
  have "trusted_old L \<or> moves L = []" using moves_due [of "hd (moves L)" L] by (cases "moves L") auto
  moreover have "f \<in> set (take k (moves L)) \<Longrightarrow> f \<in> set (moves L)" by (rule in_set_takeD)
  ultimately show ?thesis
    using moved_at [of "take k (moves L)" L f] moves_distinct moves_due [of f L] by (auto simp: L1)
qed

theorem migration_keeps_witness:
  "l_new (moved [Registry_Id] before0) Registry_Id = Regular ''i'' \<and>
   l_old (moved [Registry_Id] before0) Registry_Json = Regular ''r''"
  using migration_keeps [OF before0_run, of Registry_Id] migration_keeps [OF before0_run, of Registry_Json]
  by (simp add: before0_def moved_def rename_file_def)

text \<open>
  The files that belong together stay together: after a complete run the
  holder records or the identity of the old directory are in the new one only if no registry is
  left behind in the old one, so that they are never paired with a registry that was in the new
  directory before.
\<close>

theorem migration_pairs:
  assumes "default_state_dir_in home seen None (\<lambda>_. None) L = (L1, r)"
    and "f \<in> {Registry_Id, Holders_Json}" and "l_old L f \<noteq> Missing" and "l_old L1 f = Missing"
  shows "l_old L1 Registry_Json = Missing \<and>
    (l_old L Registry_Json \<noteq> Missing \<longrightarrow> l_new L1 Registry_Json = l_old L Registry_Json)"
proof -
  have "L1 = L \<or> L1 = moved (moves L) L"
    using assms(1) by (auto simp: default_state_dir_in_def Let_def run_moves_full split: if_splits)
  with assms(3,4) have L1: "L1 = moved (moves L) L" by auto
  then have "f \<in> set (moves L)"
    using assms(3,4) moved_at [OF moves_distinct, where f = f] by (auto split: if_splits)
  from moves_due [OF this] show ?thesis
    using moved_at [OF moves_distinct, where f = Registry_Json] by (auto simp: L1)
qed

theorem migration_pairs_witness:
  "l_new (fst (default_state_dir_in ''/h'' before0 None (\<lambda>_. None) before0)) Registry_Json = Regular ''r''"
proof -
  let ?L = "fst (default_state_dir_in ''/h'' before0 None (\<lambda>_. None) before0)"
  have gone: "l_old ?L Holders_Json = Missing"
    using moved_at [OF moves_distinct [of before0], of before0 Holders_Json]
    by (simp add: state_dir_full before0_moves)
  have "l_old ?L Registry_Json = Missing \<and>
    (l_old before0 Registry_Json \<noteq> Missing \<longrightarrow> l_new ?L Registry_Json = l_old before0 Registry_Json)"
    by (rule migration_pairs [OF prod.collapse [symmetric] _ _ gone]) (simp_all add: before0_def)
  then show ?thesis by (simp add: before0_def)
qed

end
