(* ===== verification/Policy.thy ===== *)
theory Policy
  imports Op_Line
begin

unbundle bit_operations_syntax

text \<open>
  Destinations of the network proxy: \<^verbatim>\<open>Policy\<close>, \<^verbatim>\<open>canonical_host\<close> and \<^verbatim>\<open>authority\<close> of
  \<^verbatim>\<open>crates/world-runtime/src/policy.rs\<close>, and \<^verbatim>\<open>public_ip\<close> of \<^verbatim>\<open>proxy.rs\<close>. The addresses of the
  standard library come with their text forms: \<open>parse_ip\<close> reads what \<^verbatim>\<open>IpAddr::from_str\<close> accepts
  and \<open>show_addr\<close> writes what \<^verbatim>\<open>Display\<close> does.
\<close>

section \<open>Addresses\<close>

text \<open>An IPv6 address has eight segments.\<close>

datatype ip_addr = V4 u32 | V6 "u16 list"

definition octets :: "u32 \<Rightarrow> nat list" where
  "octets v = [unat (drop_bit 24 v), unat (drop_bit 16 v) mod 256, unat (drop_bit 8 v) mod 256, unat v mod 256]"

definition to_ipv4_mapped :: "u16 list \<Rightarrow> u32 option" where
  "to_ipv4_mapped s =
     (if take 6 s = [0, 0, 0, 0, 0, 0xFFFF] then Some (push_bit 16 (ucast (s ! 6)) OR ucast (s ! 7))
      else None)"

fun is_unspecified :: "ip_addr \<Rightarrow> bool" where
  "is_unspecified (V4 v) = (v = 0)"
| "is_unspecified (V6 s) = (s = replicate 8 0)"

fun is_multicast :: "ip_addr \<Rightarrow> bool" where
  "is_multicast (V4 v) = (drop_bit 28 v = 0xE)"
| "is_multicast (V6 s) = (drop_bit 8 (s ! 0) = 0xFF)"

section \<open>Reading addresses\<close>

definition digit_of :: "int \<Rightarrow> byte \<Rightarrow> int option" where
  "digit_of radix c =
     (let v = (if between (CHR ''0'') (CHR ''9'') c then of_char c - 48
               else if between (CHR ''a'') (CHR ''f'') c then of_char c - 87
               else if between (CHR ''A'') (CHR ''F'') c then of_char c - 55
               else radix)
      in if v < radix then Some v else None)"

definition number_of :: "int \<Rightarrow> bytes \<Rightarrow> int" where
  "number_of radix ds = foldl (\<lambda>n c. n * radix + the (digit_of radix c)) 0 ds"

text \<open>
  The number at the front: all digits that are there, at most \<open>digits\<close> of them, below \<open>bound\<close>,
  and without leading zeros unless \<open>zeros\<close>.
\<close>

definition read_number ::
  "int \<Rightarrow> nat \<Rightarrow> bool \<Rightarrow> int \<Rightarrow> bytes \<Rightarrow> (int \<times> bytes) option" where
  "read_number radix digits zeros bound s =
     (let ds = takeWhile (\<lambda>c. digit_of radix c \<noteq> None) s
      in if ds = [] \<or> digits < length ds \<or> (\<not> zeros \<and> hd ds = CHR ''0'' \<and> 1 < length ds) \<or>
          bound \<le> number_of radix ds
         then None
         else Some (number_of radix ds, drop (length ds) s))"

definition read_sep :: "byte \<Rightarrow> bool \<Rightarrow> (bytes \<Rightarrow> ('a \<times> bytes) option) \<Rightarrow> bytes \<Rightarrow> ('a \<times> bytes) option" where
  "read_sep c first inner s =
     (if first then inner s
      else case s of [] \<Rightarrow> None | x # r \<Rightarrow> if x = c then inner r else None)"

fun read_octets :: "nat \<Rightarrow> bool \<Rightarrow> bytes \<Rightarrow> (int list \<times> bytes) option" where
  "read_octets 0 first s = Some ([], s)"
| "read_octets (Suc k) first s =
     (case read_sep (CHR ''.'') first (read_number 10 3 False 256) s of
        None \<Rightarrow> None
      | Some (n, r) \<Rightarrow>
          (case read_octets k False r of None \<Rightarrow> None | Some (ns, r') \<Rightarrow> Some (n # ns, r')))"

definition read_ipv4_addr :: "bytes \<Rightarrow> (u32 \<times> bytes) option" where
  "read_ipv4_addr s =
     (case read_octets 4 True s of
        None \<Rightarrow> None
      | Some (ns, r) \<Rightarrow> Some (of_int (foldl (\<lambda>n b. n * 256 + b) 0 ns), r))"

text \<open>Up to \<open>k\<close> groups, the last two of them perhaps as an IPv4 address.\<close>

fun read_groups :: "nat \<Rightarrow> bool \<Rightarrow> bytes \<Rightarrow> u16 list \<times> bool \<times> bytes" where
  "read_groups 0 first s = ([], False, s)"
| "read_groups (Suc k) first s =
     (case (if 0 < k then read_sep (CHR '':'') first read_ipv4_addr s else None) of
        Some (v, r) \<Rightarrow> ([ucast (drop_bit 16 v), ucast v], True, r)
      | None \<Rightarrow>
          (case read_sep (CHR '':'') first (read_number 16 4 True 65536) s of
             None \<Rightarrow> ([], False, s)
           | Some (g, r) \<Rightarrow>
               (let (gs, v4, r') = read_groups k False r in (of_int g # gs, v4, r'))))"

definition read_ipv6_addr :: "bytes \<Rightarrow> (u16 list \<times> bytes) option" where
  "read_ipv6_addr s =
     (let (head, v4, r) = read_groups 8 True s
      in if length head = 8 then Some (head, r)
         else if v4 then None
         else case r of
                x # y # r2 \<Rightarrow>
                  (if x = CHR '':'' \<and> y = CHR '':'' then
                     (let (tail, _, r3) = read_groups (7 - length head) True r2
                      in Some (head @ replicate (8 - length head - length tail) 0 @ tail, r3))
                   else None)
              | _ \<Rightarrow> None)"

definition parse_ip :: "bytes \<Rightarrow> ip_addr option" where
  "parse_ip s =
     (case read_ipv4_addr s of
        Some (v, r) \<Rightarrow> if r = [] then Some (V4 v) else None
      | None \<Rightarrow>
          (case read_ipv6_addr s of
             Some (g, r) \<Rightarrow> if r = [] then Some (V6 g) else None
           | None \<Rightarrow> None))"

section \<open>Writing addresses\<close>

fun join_bytes :: "bytes \<Rightarrow> bytes list \<Rightarrow> bytes" where
  "join_bytes sep [] = []"
| "join_bytes sep [x] = x"
| "join_bytes sep (x # y # r) = x @ sep @ join_bytes sep (y # r)"

definition show_ipv4 :: "u32 \<Rightarrow> bytes" where
  "show_ipv4 v = join_bytes ''.'' (map (show_radix 10) (octets v))"

function show_hex :: "nat \<Rightarrow> bytes" where
  "show_hex n = (if n < 16 then [hex_digit n] else show_hex (n div 16) @ [hex_digit (n mod 16)])"
  by auto
termination by (relation "measure id") auto

declare show_hex.simps [simp del]

text \<open>The longest run of zero segments, the first of them, as start and length.\<close>

fun longest_run :: "nat \<Rightarrow> u16 list \<Rightarrow> nat \<times> nat \<Rightarrow> nat \<times> nat \<Rightarrow> nat \<times> nat" where
  "longest_run i [] cur best = best"
| "longest_run i (x # xs) cur best =
     (if x = 0 then
        (let cur' = (if snd cur = 0 then i else fst cur, snd cur + 1)
         in longest_run (i + 1) xs cur' (if snd best < snd cur' then cur' else best))
      else longest_run (i + 1) xs (0, 0) best)"

definition show_segments :: "u16 list \<Rightarrow> bytes" where
  "show_segments s = join_bytes '':'' (map (\<lambda>x. show_hex (unat x)) s)"

definition show_ipv6 :: "u16 list \<Rightarrow> bytes" where
  "show_ipv6 s =
     (case to_ipv4_mapped s of
        Some v \<Rightarrow> ''::ffff:'' @ show_ipv4 v
      | None \<Rightarrow>
          (let (st, len) = longest_run 0 s (0, 0) (0, 0)
           in if 1 < len
              then show_segments (take st s) @ ''::'' @ show_segments (drop (st + len) s)
              else show_segments s))"

fun show_addr :: "ip_addr \<Rightarrow> bytes" where
  "show_addr (V4 v) = show_ipv4 v"
| "show_addr (V6 s) = show_ipv6 s"

section \<open>Hosts and policies\<close>

datatype refusal =
    Invalid_Network_Id | Too_Many_Destinations | Unsupported_Ip | Invalid_Host | Zero_Port
  | Not_Public | Lookup_Failed | Too_Long | Not_Json

record endpoint =
  ep_host :: bytes
  ep_port :: u16

record policy =
  p_network_id :: bytes
  p_allow :: "endpoint list"

definition strip_dot :: "bytes \<Rightarrow> bytes" where
  "strip_dot s = (if ends_with s ''.'' then butlast s else s)"

definition label_ok :: "bytes \<Rightarrow> bool" where
  "label_ok l =
     (l \<noteq> [] \<and> length l \<le> 63 \<and> hd l \<noteq> CHR ''-'' \<and> last l \<noteq> CHR ''-'' \<and>
      list_all (\<lambda>b. between (CHR ''a'') (CHR ''z'') b \<or> between (CHR ''0'') (CHR ''9'') b \<or> b = CHR ''-'') l)"

definition canonical_host :: "bytes \<Rightarrow> refusal + bytes" where
  "canonical_host input =
     (case parse_ip input of
        Some ip \<Rightarrow>
          if is_unspecified ip \<or> is_multicast ip then Inl Unsupported_Ip
          else Inr (case ip of
            V6 s \<Rightarrow> (case to_ipv4_mapped s of Some v \<Rightarrow> show_ipv4 v | None \<Rightarrow> show_ipv6 s)
          | V4 v \<Rightarrow> show_ipv4 v)
      | None \<Rightarrow>
          (let host = map to_ascii_lowercase (strip_dot input)
           in if host = [] \<or> 253 < length host then Inl Invalid_Host
              else if list_all label_ok (split_on (CHR ''.'') host) then Inr host
              else Inl Invalid_Host))"

definition authority :: "bytes \<Rightarrow> u16 \<Rightarrow> bytes" where
  "authority host port =
     (if CHR '':'' \<in> set host then ''['' @ host @ '']:'' @ show_radix 10 (unat port)
      else host @ '':'' @ show_radix 10 (unat port))"

fun check_endpoints :: "endpoint list \<Rightarrow> refusal + unit" where
  "check_endpoints [] = Inr ()"
| "check_endpoints (e # es) =
     (case canonical_host (ep_host e) of
        Inl r \<Rightarrow> Inl r
      | Inr _ \<Rightarrow> if ep_port e = 0 then Inl Zero_Port else check_endpoints es)"

definition validate :: "policy \<Rightarrow> refusal + unit" where
  "validate p =
     (if p_network_id p = [] \<or> 128 < length (p_network_id p) \<or>
         list_ex (\<lambda>b. b = nul \<or> b = CHR 0x0D \<or> b = CHR 0x0A) (p_network_id p)
      then Inl Invalid_Network_Id
      else if 256 < length (p_allow p) then Inl Too_Many_Destinations
      else check_endpoints (p_allow p))"

text \<open>\<open>from_slice\<close> is the JSON parser.\<close>

definition read_policy :: "(bytes \<Rightarrow> policy option) \<Rightarrow> bytes \<Rightarrow> refusal + policy" where
  "read_policy from_slice input =
     (let data = take 65537 input
      in if 65536 < length data then Inl Too_Long
         else case from_slice data of
                None \<Rightarrow> Inl Not_Json
              | Some p \<Rightarrow> (case validate p of Inl r \<Rightarrow> Inl r | Inr _ \<Rightarrow> Inr p))"

section \<open>Public addresses\<close>

definition special_nets :: "(u32 \<times> nat) list" where
  "special_nets =
     [(0x00000000, 8), (0x0a000000, 8), (0x64400000, 10), (0x7f000000, 8), (0xa9fe0000, 16),
      (0xac100000, 12), (0xc0000000, 24), (0xc0000200, 24), (0xc01fc400, 24), (0xc034c100, 24),
      (0xc0586300, 24), (0xc0a80000, 16), (0xc0af3000, 24), (0xc6120000, 15), (0xc6336400, 24),
      (0xcb007100, 24), (0xe0000000, 4), (0xf0000000, 4)]"

definition public_v4 :: "u32 \<Rightarrow> bool" where
  "public_v4 n = (\<not> list_ex (\<lambda>(base, bits). drop_bit (32 - bits) n = drop_bit (32 - bits) base) special_nets)"

fun public_ip :: "ip_addr \<Rightarrow> bool" where
  "public_ip (V4 n) = public_v4 n"
| "public_ip (V6 s) =
     (case to_ipv4_mapped s of
        Some v \<Rightarrow> public_v4 v
      | None \<Rightarrow>
          s ! 0 AND 0xE000 = 0x2000 \<and> \<not> (s ! 0 = 0x2001 \<and> s ! 1 < 0x0200) \<and>
          \<not> (s ! 0 = 0x2001 \<and> s ! 1 = 0x0DB8) \<and> s ! 0 \<noteq> 0x2002 \<and>
          \<not> (s ! 0 = 0x2620 \<and> s ! 1 = 0x004F \<and> s ! 2 = 0x8000) \<and>
          \<not> (s ! 0 = 0x3FFF \<and> s ! 1 AND 0xF000 = 0))"

section \<open>Keys of routes\<close>

lemma read_digits_all: "read_digits r acc ds = Some n \<Longrightarrow> b \<in> set ds \<Longrightarrow> between (CHR ''0'') (CHR ''9'') b"
  by (induction ds arbitrary: acc) (auto simp: to_digit_def split: option.splits if_splits)

lemma show_dec_digits: "b \<in> set (show_radix 10 n) \<Longrightarrow> between (CHR ''0'') (CHR ''9'') b"
  using show_radix_facts [of 10 n] read_digits_all by auto

lemma show_dec_inj: "show_radix 10 m = show_radix 10 n \<Longrightarrow> m = n"
proof -
  have "read_digits 10 0 (show_radix 10 k) = Some k" for k using show_radix_facts [of 10 k] by simp
  then show "show_radix 10 m = show_radix 10 n \<Longrightarrow> ?thesis" by (metis option.inject)
qed

lemma join_bytes_set: "set (join_bytes sep xs) \<subseteq> set sep \<union> \<Union> (set ` set xs)"
  by (induction sep xs rule: join_bytes.induct) auto

lemma show_hex_digits:
  "b \<in> set (show_hex n) \<Longrightarrow> between (CHR ''0'') (CHR ''9'') b \<or> between (CHR ''a'') (CHR ''f'') b"
proof (induction n rule: less_induct)
  case (less n)
  have digit: "between (CHR ''0'') (CHR ''9'') (hex_digit k) \<or> between (CHR ''a'') (CHR ''f'') (hex_digit k)"
    if "k < 16" for k using that by (auto simp: hex_digit_def between_def)
  show ?case
  proof (cases "n < 16")
    case True
    with less.prems digit [of n] show ?thesis by (subst (asm) show_hex.simps) simp
  next
    case False
    with less.prems have "b \<in> set (show_hex (n div 16)) \<or> b = hex_digit (n mod 16)"
      by (subst (asm) show_hex.simps) auto
    then show ?thesis using less.IH [of "n div 16"] False digit [of "n mod 16"] by auto
  qed
qed

text \<open>The bytes of a canonical host: no brackets, no slashes, no space.\<close>

definition host_byte :: "byte \<Rightarrow> bool" where
  "host_byte b \<longleftrightarrow> between (CHR ''0'') (CHR ''9'') b \<or> between (CHR ''a'') (CHR ''z'') b \<or>
     b = CHR '':'' \<or> b = CHR ''.'' \<or> b = CHR ''-''"

lemma show_ipv4_bytes: "list_all host_byte (show_ipv4 v)"
  using join_bytes_set [of "''.''" "map (show_radix 10) (octets v)"]
  by (fastforce simp: show_ipv4_def list_all_iff host_byte_def dest: show_dec_digits)

lemma show_segments_bytes: "list_all host_byte (show_segments s)"
proof -
  have "host_byte b" if "b \<in> set (show_hex n)" for b n
    using show_hex_digits [OF that] by (auto simp: host_byte_def between_def)
  then show ?thesis
    using join_bytes_set [of "'':''" "map (\<lambda>x. show_hex (unat x)) s"]
    by (fastforce simp: show_segments_def list_all_iff host_byte_def)
qed

lemma show_ipv6_bytes: "list_all host_byte (show_ipv6 s)"
proof -
  have "list_all host_byte ''::ffff:''" "list_all host_byte ''::''" by code_simp+
  then show ?thesis
    using show_ipv4_bytes show_segments_bytes
    by (simp add: show_ipv6_def Let_def split: option.split prod.split)
qed

lemma split_on_cover: "set s \<subseteq> insert c (\<Union> (set ` set (split_on c s)))"
proof (induction s)
  case (Cons x s)
  then show ?case by (cases "split_on c s") auto
qed simp

lemma canonical_host_bytes:
  assumes "canonical_host input = Inr host"
  shows "list_all host_byte host"
proof (cases "parse_ip input")
  case None
  with assms have "list_all label_ok (split_on (CHR ''.'') host)"
    by (auto simp: canonical_host_def Let_def split: if_splits)
  then have "list_all host_byte l" if "l \<in> set (split_on (CHR ''.'') host)" for l
    using that by (auto simp: list_all_iff label_ok_def host_byte_def)
  then show ?thesis
    using split_on_cover [of host "CHR ''.''"] by (fastforce simp: list_all_iff host_byte_def)
next
  case (Some ip)
  with assms show ?thesis
    using show_ipv4_bytes show_ipv6_bytes
    by (auto simp: canonical_host_def split: if_splits ip_addr.splits option.splits)
qed

lemma cut_first:
  "u @ c # v = u' @ c # v' \<Longrightarrow> c \<notin> set u \<Longrightarrow> c \<notin> set u' \<Longrightarrow> u = u' \<and> v = v'"
proof (induction u arbitrary: u')
  case Nil
  then show ?case by (cases u') auto
next
  case (Cons x u)
  then show ?case by (cases u') auto
qed

lemma authority_inj_lemma:
  assumes "canonical_host a = Inr h" and "canonical_host b = Inr h'"
    and "authority h p = authority h' p'"
  shows "h = h' \<and> p = p'"
proof -
  define X where "X h = (if CHR '':'' \<in> set h then ''['' @ h @ '']'' else h)" for h
  have auth: "authority h p = X h @ CHR '':'' # show_radix 10 (unat p)" for h p
    by (simp add: authority_def X_def)
  have no_colon: "CHR '':'' \<notin> set (show_radix 10 n)" for n
    using show_dec_digits [of "CHR '':''" n] by (auto simp: between_def)
  have split: "u = u' \<and> v = v'" if "u @ CHR '':'' # v = u' @ CHR '':'' # v'"
    "CHR '':'' \<notin> set v" "CHR '':'' \<notin> set v'" for u v u' v' :: bytes
  proof -
    have "rev v @ CHR '':'' # rev u = rev v' @ CHR '':'' # rev u'"
      using arg_cong [OF that(1), of rev] by simp
    from cut_first [OF this] that(2,3) show ?thesis by simp
  qed
  have same: "X h = X h'" "show_radix 10 (unat p) = show_radix 10 (unat p')"
    using assms(3) unfolding auth by (auto dest: split [OF _ no_colon no_colon])
  have "CHR ''['' \<notin> set h" "CHR ''['' \<notin> set h'"
    using canonical_host_bytes [OF assms(1)] canonical_host_bytes [OF assms(2)]
    by (auto simp: list_all_iff host_byte_def between_def)
  then have "h = h'"
    using same(1) unfolding X_def by (auto split: if_splits)
  with show_dec_inj [OF same(2)] show ?thesis by (simp add: word_unat_eq_iff)
qed

text \<open>
  The keys of the routes are unambiguous: hosts in canonical form and ports
  with the same authority text are the same, IPv6 addresses included.
\<close>

theorem authority_inj:
  assumes "canonical_host a = Inr h" and "canonical_host b = Inr h'"
    and "authority h p = authority h' p'"
  shows "h = h' \<and> p = p'"
  by (rule authority_inj_lemma [OF assms])

theorem authority_inj_witness:
  "canonical_host ''A.b.'' = Inr ''a.b'' \<and> canonical_host ''a.b'' = Inr ''a.b'' \<and>
   authority ''a.b'' 80 \<noteq> authority ''a.b'' 81"
proof -
  have "canonical_host ''A.b.'' = Inr ''a.b''" "canonical_host ''a.b'' = Inr ''a.b''" by code_simp+
  with authority_inj [OF this] show ?thesis by fastforce
qed

section \<open>Public addresses as ranges\<close>

lemma drop_bit_range:
  fixes n base :: "'a::len word"
  assumes "k < LENGTH('a)" and "unat base mod 2 ^ k = 0"
  shows "drop_bit k n = drop_bit k base \<longleftrightarrow> unat base \<le> unat n \<and> unat n < unat base + 2 ^ k"
proof -
  have "drop_bit k n = drop_bit k base \<longleftrightarrow> unat n div 2 ^ k = unat base div 2 ^ k"
    unfolding word_unat_eq_iff unat_drop_bit_eq by (simp only: drop_bit_eq_div)
  also have "\<dots> \<longleftrightarrow> unat base \<le> unat n \<and> unat n < unat base + 2 ^ k"
  proof -
    obtain q where q: "unat base = q * 2 ^ k" using assms(2) by (metis mod_0_imp_dvd dvd_def mult.commute)
    have "unat n div 2 ^ k = q \<longleftrightarrow> q * 2 ^ k \<le> unat n \<and> unat n < q * 2 ^ k + 2 ^ k"
    proof
      assume "unat n div 2 ^ k = q"
      then show "q * 2 ^ k \<le> unat n \<and> unat n < q * 2 ^ k + 2 ^ k"
        using dividend_less_div_times [of "2 ^ k" "unat n"] by auto
    next
      assume "q * 2 ^ k \<le> unat n \<and> unat n < q * 2 ^ k + 2 ^ k"
      then show "unat n div 2 ^ k = q" by (intro div_nat_eqI) (auto simp: algebra_simps)
    qed
    with q show ?thesis by simp
  qed
  finally show ?thesis .
qed

lemma special_nets_aligned:
  "list_all (\<lambda>(base, bits). 0 < bits \<and> unat base mod 2 ^ (32 - bits) = 0) special_nets"
  by (simp add: special_nets_def)


text \<open>
  The check against unspecified and multicast addresses is passed by with a dot:
  \<^verbatim>\<open>0.0.0.0.\<close> is not an address to the parser, loses its dot as a host name, and becomes the very
  text that is refused when it is written without the dot. A policy with it is valid.
\<close>

theorem canonical_host_dot:
  "canonical_host ''0.0.0.0.'' = Inr ''0.0.0.0'' \<and> canonical_host ''0.0.0.0'' = Inl Unsupported_Ip \<and>
   validate \<lparr>p_network_id = ''n'', p_allow = [\<lparr>ep_host = ''0.0.0.0.'', ep_port = 80\<rparr>]\<rparr> = Inr ()"
  by (intro conjI; code_simp)

end
