(* ===== verification/Proxy.thy ===== *)
theory Proxy
  imports Policy
begin

text \<open>
  The execution proxy of \<^verbatim>\<open>crates/world-runtime/src/proxy.rs\<close>: the routes that \<^verbatim>\<open>prepare\<close> resolves
  from a policy, and what \<^verbatim>\<open>handle\<close> and \<^verbatim>\<open>forward\<close> do with a request. Requests come parsed. Name
  resolution (\<open>lookup\<close>), the encoding of the credential (\<open>encode\<close>), which addresses accept a
  connection (\<open>connects\<close>) and the header map of the HTTP library are parameters; of the header
  map the proofs use \<open>header_laws\<close>, what removing and inserting a name does to the values
  of every name.
\<close>

section \<open>Routes\<close>

type_synonym sock_addr = "ip_addr \<times> u16"
type_synonym routes = "bytes \<rightharpoonup> sock_addr list"
type_synonym lookup = "bytes \<Rightarrow> u16 \<Rightarrow> sock_addr list option"

definition resolve_endpoint :: "lookup \<Rightarrow> bytes \<Rightarrow> u16 \<Rightarrow> refusal + sock_addr list" where
  "resolve_endpoint lookup host port =
     (case parse_ip host of
        Some ip \<Rightarrow> Inr [(ip, port)]
      | None \<Rightarrow>
          (case lookup host port of
             None \<Rightarrow> Inl Lookup_Failed
           | Some addrs \<Rightarrow>
               if addrs = [] \<or> list_ex (\<lambda>a. \<not> public_ip (fst a)) addrs then Inl Not_Public
               else Inr addrs))"

fun prepare_routes :: "lookup \<Rightarrow> endpoint list \<Rightarrow> routes \<Rightarrow> refusal + routes" where
  "prepare_routes lookup [] rs = Inr rs"
| "prepare_routes lookup (e # es) rs =
     (case canonical_host (ep_host e) of
        Inl r \<Rightarrow> Inl r
      | Inr host \<Rightarrow>
          (case resolve_endpoint lookup host (ep_port e) of
             Inl r \<Rightarrow> Inl r
           | Inr addrs \<Rightarrow> prepare_routes lookup es (rs(authority host (ep_port e) \<mapsto> addrs))))"

record prepared =
  pr_routes :: routes
  pr_credential :: bytes

text \<open>\<open>secret\<close> are the 32 random bytes.\<close>

definition prepare :: "lookup \<Rightarrow> bytes \<Rightarrow> policy \<Rightarrow> refusal + prepared" where
  "prepare lookup secret p =
     (case validate p of
        Inl r \<Rightarrow> Inl r
      | Inr _ \<Rightarrow>
          (case prepare_routes lookup (p_allow p) Map.empty of
             Inl r \<Rightarrow> Inl r
           | Inr rs \<Rightarrow> Inr \<lparr>pr_routes = rs, pr_credential = concat (map hex2 secret)\<rparr>))"

record service =
  s_routes :: routes
  s_authorization :: bytes

definition serve :: "(bytes \<Rightarrow> bytes) \<Rightarrow> prepared \<Rightarrow> service" where
  "serve encode p =
     \<lparr>s_routes = pr_routes p,
      s_authorization = ''Basic '' @ encode (''world:'' @ pr_credential p)\<rparr>"

section \<open>Headers\<close>

record 'h header_api =
  h_all :: "'h \<Rightarrow> bytes \<Rightarrow> bytes list"
  h_remove :: "bytes \<Rightarrow> 'h \<Rightarrow> 'h"
  h_insert :: "bytes \<Rightarrow> bytes \<Rightarrow> 'h \<Rightarrow> 'h"

definition lower :: "bytes \<Rightarrow> bytes" where
  "lower = map to_ascii_lowercase"

text \<open>\<^verbatim>\<open>HeaderValue::to_str\<close> takes visible ASCII and tabs only.\<close>

definition is_text :: "bytes \<Rightarrow> bool" where
  "is_text v = list_all (\<lambda>b. between (CHR '' '') (CHR ''~'') b \<or> b = CHR 0x09) v"

definition trim :: "bytes \<Rightarrow> bytes" where
  "trim s =
     (let blank = (\<lambda>b. b = CHR '' '' \<or> b = CHR 0x09)
      in rev (dropWhile blank (rev (dropWhile blank s))))"

definition connection_tokens :: "'h header_api \<Rightarrow> 'h \<Rightarrow> bytes list" where
  "connection_tokens api h =
     concat (map (\<lambda>v. if is_text v then map trim (split_on (CHR '','') v) else [])
       (h_all api h ''connection''))"

definition hop_headers :: "bytes list" where
  "hop_headers =
     [''connection'', ''proxy-connection'', ''proxy-authenticate'', ''proxy-authorization'',
      ''keep-alive'', ''te'', ''trailer'', ''transfer-encoding'', ''upgrade'']"

definition strip_hop_headers :: "'h header_api \<Rightarrow> 'h \<Rightarrow> 'h" where
  "strip_hop_headers api h =
     fold (h_remove api) hop_headers (fold (h_remove api) (connection_tokens api h) h)"

text \<open>Names are compared without case; \<open>insert\<close> replaces all values of the name.\<close>

definition header_laws :: "'h header_api \<Rightarrow> bool" where
  "header_laws api \<longleftrightarrow>
     (\<forall>n h k. h_all api (h_remove api n h) k = (if lower k = lower n then [] else h_all api h k)) \<and>
     (\<forall>n v h k. h_all api (h_insert api n v h) k = (if lower k = lower n then [v] else h_all api h k))"

section \<open>Requests\<close>

text \<open>
  \<open>rq_reparses\<close>: the target and the authority of the request are accepted when they are parsed
  again as the URI and the \<^verbatim>\<open>Host\<close> of the forwarded one.
\<close>

record 'h request =
  rq_connect :: bool
  rq_authority :: "(bytes \<times> u16 option) option"
  rq_authority_text :: bytes
  rq_scheme :: "bytes option"
  rq_target :: "bytes option"
  rq_reparses :: bool
  rq_headers :: 'h

datatype 'h answer = Reply nat | Tunnel sock_addr | Relay sock_addr bytes 'h

definition trim_brackets :: "bytes \<Rightarrow> bytes" where
  "trim_brackets s =
     (let br = (\<lambda>b. b = CHR ''['' \<or> b = CHR '']'')
      in rev (dropWhile br (rev (dropWhile br s))))"

text \<open>The connection attempts, up to the first that succeeds.\<close>

fun dial :: "(sock_addr \<Rightarrow> bool) \<Rightarrow> sock_addr list \<Rightarrow> sock_addr list \<times> sock_addr option" where
  "dial connects [] = ([], None)"
| "dial connects (a # as) =
     (if connects a then ([a], Some a)
      else let (tried, found) = dial connects as in (a # tried, found))"

definition relay_headers :: "'h header_api \<Rightarrow> 'h request \<Rightarrow> 'h" where
  "relay_headers api rq =
     h_insert api ''connection'' ''close''
       (h_insert api ''host'' (rq_authority_text rq) (strip_hop_headers api (rq_headers rq)))"

text \<open>
  The addresses that were tried, and the answer: a status, or what the open connection is used
  for. An error of \<^verbatim>\<open>forward\<close> is the status 502 of \<^verbatim>\<open>handle\<close>.
\<close>

definition forward ::
  "'h header_api \<Rightarrow> service \<Rightarrow> (sock_addr \<Rightarrow> bool) \<Rightarrow> 'h request \<Rightarrow> sock_addr list \<times> 'h answer" where
  "forward api sv connects rq =
     (case rq_authority rq of
        None \<Rightarrow> ([], Reply 400)
      | Some (name, given) \<Rightarrow>
          if \<not> rq_connect rq \<and> rq_scheme rq \<noteq> Some ''http'' then ([], Reply 400)
          else
            (case canonical_host (trim_brackets name) of
               Inl _ \<Rightarrow> ([], Reply 502)
             | Inr host \<Rightarrow>
                 (case (case given of Some p \<Rightarrow> Some p | None \<Rightarrow> if rq_connect rq then None else Some 80) of
                    None \<Rightarrow> ([], Reply 400)
                  | Some port \<Rightarrow>
                      (case s_routes sv (authority host port) of
                         None \<Rightarrow> ([], Reply 403)
                       | Some addrs \<Rightarrow>
                           (case dial connects addrs of
                              (tried, None) \<Rightarrow> (tried, Reply 502)
                            | (tried, Some a) \<Rightarrow>
                                if rq_connect rq then (tried, Tunnel a)
                                else if \<not> rq_reparses rq then (tried, Reply 502)
                                else (tried, Relay a
                                  (case rq_target rq of Some t \<Rightarrow> t | None \<Rightarrow> ''/'')
                                  (relay_headers api rq)))))))"

definition supplied :: "'h header_api \<Rightarrow> 'h request \<Rightarrow> bytes" where
  "supplied api rq =
     (case h_all api (rq_headers rq) ''proxy-authorization'' of [] \<Rightarrow> [] | v # _ \<Rightarrow> v)"

definition handle ::
  "'h header_api \<Rightarrow> service \<Rightarrow> (sock_addr \<Rightarrow> bool) \<Rightarrow> 'h request \<Rightarrow> sock_addr list \<times> 'h answer" where
  "handle api sv connects rq =
     (if supplied api rq \<noteq> s_authorization sv then ([], Reply 407)
      else forward api sv connects rq)"

section \<open>What the routes lead to\<close>

text \<open>\<open>granted\<close>: an entry of the policy stands for the host, the port and the address.\<close>

definition granted :: "lookup \<Rightarrow> endpoint list \<Rightarrow> bytes \<Rightarrow> u16 \<Rightarrow> sock_addr \<Rightarrow> bool" where
  "granted lookup es host port a \<longleftrightarrow>
     (\<exists>e \<in> set es. canonical_host (ep_host e) = Inr host \<and> ep_port e = port \<and>
        (case parse_ip host of
           Some ip \<Rightarrow> a = (ip, port)
         | None \<Rightarrow> public_ip (fst a) \<and> (\<exists>addrs. lookup host port = Some addrs \<and> a \<in> set addrs)))"

lemma resolve_endpoint_ok:
  assumes "resolve_endpoint lookup host port = Inr addrs" and "a \<in> set addrs"
  shows "case parse_ip host of
           Some ip \<Rightarrow> a = (ip, port)
         | None \<Rightarrow> public_ip (fst a) \<and> (\<exists>addrs. lookup host port = Some addrs \<and> a \<in> set addrs)"
  using assms by (auto simp: resolve_endpoint_def list_ex_iff split: option.splits if_splits)

definition routes_ok :: "lookup \<Rightarrow> endpoint list \<Rightarrow> routes \<Rightarrow> bool" where
  "routes_ok lookup es rs \<longleftrightarrow>
     (\<forall>k addrs. rs k = Some addrs \<longrightarrow>
        (\<exists>e \<in> set es. \<exists>host. canonical_host (ep_host e) = Inr host \<and> k = authority host (ep_port e) \<and>
           (\<forall>a \<in> set addrs. granted lookup es host (ep_port e) a)))"

lemma granted_mono: "granted lookup es host port a \<Longrightarrow> set es \<subseteq> set es' \<Longrightarrow> granted lookup es' host port a"
  unfolding granted_def by blast

lemma routes_ok_insert:
  assumes "routes_ok lookup es rs" and "e \<in> set es" and "canonical_host (ep_host e) = Inr host"
    and "resolve_endpoint lookup host (ep_port e) = Inr addrs"
  shows "routes_ok lookup es (rs(authority host (ep_port e) \<mapsto> addrs))"
proof -
  have "granted lookup es host (ep_port e) a" if "a \<in> set addrs" for a
    using resolve_endpoint_ok [OF assms(4) that] assms(2,3) unfolding granted_def by blast
  then show ?thesis using assms(1-3) unfolding routes_ok_def by (metis fun_upd_apply option.inject)
qed

lemma prepare_routes_ok:
  "prepare_routes lookup es rs = Inr rs' \<Longrightarrow> set es \<subseteq> set all \<Longrightarrow> routes_ok lookup all rs \<Longrightarrow>
     routes_ok lookup all rs'"
  by (induction lookup es rs rule: prepare_routes.induct)
    (auto split: sum.splits dest: routes_ok_insert [where es = all])

lemma dial_tried: "dial connects as = (tried, found) \<Longrightarrow> a \<in> set tried \<Longrightarrow> a \<in> set as"
  by (induction connects as arbitrary: tried rule: dial.induct) (auto split: if_splits prod.splits)

text \<open>
  C27 (safety). The proxy dials nothing that the policy does not grant: an address is tried only
  for a request with the credential of this execution, whose host and port are, in canonical
  form, those of an entry of the policy; and then it is the literal address of that entry, or an
  address that the name of the entry resolved to and that is public.
\<close>

theorem proxy_grants:
  assumes "prepare lookup secret p = Inr pr"
    and "handle api (serve encode pr) connects rq = (tried, ans)" and "a \<in> set tried"
  shows "supplied api rq = ''Basic '' @ encode (''world:'' @ concat (map hex2 secret)) \<and>
    (\<exists>name given host port. rq_authority rq = Some (name, given) \<and>
       canonical_host (trim_brackets name) = Inr host \<and>
       (given = Some port \<or> given = None \<and> \<not> rq_connect rq \<and> port = 80) \<and>
       granted lookup (p_allow p) host port a)"
proof -
  from assms(1) obtain rs where rs: "prepare_routes lookup (p_allow p) Map.empty = Inr rs"
    and pr: "pr = \<lparr>pr_routes = rs, pr_credential = concat (map hex2 secret)\<rparr>"
    by (auto simp: prepare_def split: sum.splits)
  have ok: "routes_ok lookup (p_allow p) rs"
    by (rule prepare_routes_ok [OF rs order_refl]) (simp add: routes_ok_def)
  let ?sv = "serve encode pr"
  have sv: "s_routes ?sv = rs" by (simp add: serve_def pr)
  from assms(2,3) have auth: "supplied api rq = s_authorization ?sv"
    and fw: "forward api ?sv connects rq = (tried, ans)"
    by (auto simp: handle_def split: if_splits)
  from fw assms(3) obtain name given host port addrs found where
    rq: "rq_authority rq = Some (name, given)" "canonical_host (trim_brackets name) = Inr host"
    "given = Some port \<or> given = None \<and> \<not> rq_connect rq \<and> port = 80"
    and route: "rs (authority host port) = Some addrs" and d: "dial connects addrs = (tried, found)"
    unfolding forward_def sv
    by (auto split: option.splits prod.splits if_splits sum.splits)
  from dial_tried [OF d assms(3)] have a: "a \<in> set addrs" .
  from ok route obtain e h where e: "e \<in> set (p_allow p)" "canonical_host (ep_host e) = Inr h"
    "authority host port = authority h (ep_port e)" and g: "\<forall>a \<in> set addrs. granted lookup (p_allow p) h (ep_port e) a"
    unfolding routes_ok_def by blast
  from authority_inj_lemma [OF rq(2) e(2,3)] have "host = h" "port = ep_port e" by auto
  with g a have "granted lookup (p_allow p) host port a" by blast
  with rq auth show ?thesis by (auto simp: serve_def pr)
qed

section \<open>What is sent on\<close>

lemma fold_remove:
  assumes "header_laws api"
  shows "h_all api (fold (h_remove api) ns h) k =
    (if lower k \<in> lower ` set ns then [] else h_all api h k)"
  using assms by (induction ns arbitrary: h) (auto simp: header_laws_def)

lemma lower_hop: "map lower hop_headers = hop_headers"
  by code_simp

lemma strip_all:
  assumes "header_laws api"
  shows "h_all api (strip_hop_headers api h) k =
    (if lower k \<in> set hop_headers \<or> lower k \<in> lower ` set (connection_tokens api h) then []
     else h_all api h k)"
proof -
  have "lower ` set hop_headers = set hop_headers" using lower_hop by (metis set_map)
  then show ?thesis by (simp add: strip_hop_headers_def fold_remove [OF assms])
qed

text \<open>
  \<^verbatim>\<open>strip_hop_headers\<close> removes exactly the headers of one hop: those of the fixed
  list and those that a \<^verbatim>\<open>Connection\<close> header names, whatever their case; every other header keeps
  all its values.
\<close>

theorem strip_hop_headers_spec:
  assumes "header_laws api"
  shows "h_all api (strip_hop_headers api h) k =
    (if lower k \<in> set hop_headers \<or> lower k \<in> lower ` set (connection_tokens api h) then []
     else h_all api h k)"
  by (rule strip_all [OF assms])

lemma dial_found: "dial connects as = (tried, Some a) \<Longrightarrow> connects a \<and> tried \<noteq> [] \<and> last tried = a"
  by (induction connects as arbitrary: tried rule: dial.induct) (auto split: if_splits prod.splits)

text \<open>
  The credential stays here: a request that is relayed carries no
  \<^verbatim>\<open>Proxy-Authorization\<close>, exactly one \<^verbatim>\<open>Host\<close>, which is the authority of its URL whatever the
  client wrote, and \<^verbatim>\<open>Connection: close\<close>; it goes to the address that was dialled last and answered.
\<close>

theorem relay_hides_credential:
  assumes "header_laws api" and "handle api sv connects rq = (tried, Relay a target h)"
  shows "h_all api h ''Proxy-Authorization'' = [] \<and> h_all api h ''Host'' = [rq_authority_text rq] \<and>
    h_all api h ''Connection'' = [''close''] \<and> connects a \<and> last tried = a"
proof -
  from assms(2) have fw: "forward api sv connects rq = (tried, Relay a target h)"
    by (auto simp: handle_def split: if_splits)
  then obtain addrs where h: "h = relay_headers api rq" and d: "dial connects addrs = (tried, Some a)"
    by (auto simp: forward_def split: option.splits prod.splits if_splits sum.splits)
  have low: "lower ''Proxy-Authorization'' = ''proxy-authorization''" "lower ''Host'' = ''host''"
    "lower ''Connection'' = ''connection''" "lower ''connection'' = ''connection''" "lower ''host'' = ''host''"
    "''proxy-authorization'' \<in> set hop_headers" by code_simp+
  show ?thesis
    using dial_found [OF d] assms(1) low
    by (simp add: h relay_headers_def strip_all [OF assms(1)] header_laws_def)
qed

section \<open>A header map and an execution\<close>

definition alist_api :: "(bytes \<times> bytes) list header_api" where
  "alist_api =
     \<lparr>h_all = (\<lambda>h k. map snd (filter (\<lambda>(n, _). lower n = lower k) h)),
      h_remove = (\<lambda>n h. filter (\<lambda>(k, _). lower k \<noteq> lower n) h),
      h_insert = (\<lambda>n v h. filter (\<lambda>(k, _). lower k \<noteq> lower n) h @ [(n, v)])\<rparr>"

lemma alist_laws: "header_laws alist_api"
proof -
  have "filter (\<lambda>(n, _). lower n = k) (filter (\<lambda>(n, _). lower n \<noteq> l) h) =
      (if k = l then [] else filter (\<lambda>(n, _). lower n = k) h)" for k l and h :: "(bytes \<times> bytes) list"
    by (induction h) auto
  then show ?thesis by (auto simp: header_laws_def alist_api_def)
qed

definition lookup0 :: lookup where
  "lookup0 host port = (if host = ''a.b'' then Some [(V4 0x08080808, port)] else None)"

definition policy0 :: policy where
  "policy0 = \<lparr>p_network_id = ''n'', p_allow = [\<lparr>ep_host = ''A.b'', ep_port = 80\<rparr>]\<rparr>"

definition service0 :: service where
  "service0 = serve (\<lambda>x. x) (projr (prepare lookup0 [nul] policy0))"

definition request0 :: "(bytes \<times> bytes) list request" where
  "request0 = \<lparr>rq_connect = False, rq_authority = Some (''a.B.'', None), rq_authority_text = ''a.B.'',
     rq_scheme = Some ''http'', rq_target = Some ''/x'', rq_reparses = True,
     rq_headers = [(''proxy-Authorization'', ''Basic world:00''), (''connection'', ''x-y, te''),
       (''X-Y'', ''1''), (''Accept'', ''2'')]\<rparr>"

lemma handle0:
  "handle alist_api service0 (\<lambda>_. True) request0 =
     ([(V4 0x08080808, 80)], Relay (V4 0x08080808, 80) ''/x''
        [(''Accept'', ''2''), (''host'', ''a.B.''), (''connection'', ''close'')])"
  by code_simp

lemma prepare0: "prepare lookup0 [nul] policy0 = Inr (projr (prepare lookup0 [nul] policy0))"
proof -
  have "\<not> isl (prepare lookup0 [nul] policy0)" by code_simp
  then show ?thesis by simp
qed

theorem proxy_grants_witness:
  "supplied alist_api request0 = ''Basic world:00'' \<and>
   (\<exists>host port. canonical_host (trim_brackets ''a.B.'') = Inr host \<and>
      granted lookup0 (p_allow policy0) host port (V4 0x08080808, 80))"
proof -
  have enc: "''Basic '' @ (''world:'' @ concat (map hex2 [nul])) = ''Basic world:00''" by code_simp
  from proxy_grants [OF prepare0 handle0 [unfolded service0_def], of "(V4 0x08080808, 80)"]
  show ?thesis unfolding enc by (auto simp: request0_def)
qed

theorem strip_hop_headers_spec_witness:
  "h_all alist_api (strip_hop_headers alist_api (rq_headers request0)) ''x-y'' = [] \<and>
   h_all alist_api (strip_hop_headers alist_api (rq_headers request0)) ''accept'' = [''2'']"
proof -
  have low: "lower ''accept'' = ''accept''" "lower ''x-y'' = ''x-y''" by code_simp+
  have "''x-y'' \<in> lower ` set (connection_tokens alist_api (rq_headers request0))"
    "''accept'' \<notin> lower ` set (connection_tokens alist_api (rq_headers request0))"
    "''accept'' \<notin> set hop_headers"
    "h_all alist_api (rq_headers request0) ''accept'' = [''2'']" by code_simp+
  with strip_hop_headers_spec [OF alist_laws] low show ?thesis by simp
qed

theorem relay_hides_credential_witness:
  "h_all alist_api [(''Accept'', ''2''), (''host'', ''a.B.''), (''connection'', ''close'')] ''Proxy-Authorization'' = []"
  using relay_hides_credential [OF alist_laws handle0] by blast

end
