(* ===== verification/Runs.thy ===== *)
theory Runs
  imports Prelude
begin

text \<open>
  Programs that read and write a state and may stop with an error: a \<^verbatim>\<open>Result\<close> function of the
  source whose effects are explicit, with \<open>bind_run\<close> for \<^verbatim>\<open>?\<close>; and a logic for them.
\<close>

named_theorems run_rules \<open>syntax-directed rules for run_spec\<close>

type_synonym ('s, 'e, 'a) run = "'s \<Rightarrow> 's \<times> ('e + 'a)"

definition bind_run :: "('s, 'e, 'a) run \<Rightarrow> ('a \<Rightarrow> ('s, 'e, 'b) run) \<Rightarrow> ('s, 'e, 'b) run" where
  "bind_run r f = (\<lambda>st. case r st of (st', Inl e) \<Rightarrow> (st', Inl e) | (st', Inr a) \<Rightarrow> f a st')"

definition stop :: "'e \<Rightarrow> ('s, 'e, 'a) run" where
  "stop e = (\<lambda>st. (st, Inl e))"

definition done_with :: "'a \<Rightarrow> ('s, 'e, 'a) run" where
  "done_with a = (\<lambda>st. (st, Inr a))"

text \<open>\<^verbatim>\<open>ensure!\<close>, and a look at the state.\<close>

definition require :: "'e \<Rightarrow> bool \<Rightarrow> ('s, 'e, unit) run" where
  "require e b = (if b then done_with () else stop e)"

definition look :: "('s \<Rightarrow> 'a) \<Rightarrow> ('s, 'e, 'a) run" where
  "look f = (\<lambda>st. (st, Inr (f st)))"

text \<open>A loop over a list.\<close>

primrec for_each :: "('a \<Rightarrow> ('s, 'e, unit) run) \<Rightarrow> 'a list \<Rightarrow> ('s, 'e, unit) run" where
  "for_each f [] = done_with ()"
| "for_each f (x # xs) = bind_run (f x) (\<lambda>_. for_each f xs)"

section \<open>Logic\<close>

text \<open>
  \<open>run_spec P r Q E\<close>: from a state in \<open>P\<close> the run ends in \<open>Q\<close> of its result, or with an error
  in \<open>E\<close>.
\<close>

definition run_spec ::
  "('s \<Rightarrow> bool) \<Rightarrow> ('s, 'e, 'a) run \<Rightarrow> ('a \<Rightarrow> 's \<Rightarrow> bool) \<Rightarrow> ('s \<Rightarrow> bool) \<Rightarrow> bool" where
  "run_spec P r Q E \<longleftrightarrow>
     (\<forall>st. P st \<longrightarrow> (case r st of (st', Inr a) \<Rightarrow> Q a st' | (st', Inl e) \<Rightarrow> E st'))"

lemma run_specD:
  "run_spec P r Q E \<Longrightarrow> P st \<Longrightarrow> r st = (st', x) \<Longrightarrow> case x of Inr a \<Rightarrow> Q a st' | Inl e \<Rightarrow> E st'"
  by (auto simp: run_spec_def split: sum.splits)

lemma run_spec_bind:
  assumes "run_spec P r Q E" and "\<And>a. run_spec (Q a) (f a) R E"
  shows "run_spec P (bind_run r f) R E"
  unfolding run_spec_def bind_run_def
proof (intro allI impI)
  fix st assume "P st"
  obtain st' x where r: "r st = (st', x)" by fastforce
  show "case (case r st of (st', Inl e) \<Rightarrow> (st', Inl e) | (st', Inr a) \<Rightarrow> f a st') of
      (st', Inr a) \<Rightarrow> R a st' | (st', Inl e) \<Rightarrow> E st'"
    using assms(1) [unfolded run_spec_def, rule_format, OF \<open>P st\<close>]
      assms(2) [unfolded run_spec_def, rule_format, of _ st']
    by (cases x) (auto simp: r split: prod.splits sum.splits)
qed

lemma run_spec_stop: "(\<And>st. P st \<Longrightarrow> E st) \<Longrightarrow> run_spec P (stop e) Q E"
  by (simp add: run_spec_def stop_def)

lemma run_spec_done: "(\<And>st. P st \<Longrightarrow> Q a st) \<Longrightarrow> run_spec P (done_with a) Q E"
  by (simp add: run_spec_def done_with_def)

lemma run_spec_require:
  "(\<And>st. P st \<Longrightarrow> b \<Longrightarrow> Q () st) \<Longrightarrow> (\<And>st. P st \<Longrightarrow> \<not> b \<Longrightarrow> E st) \<Longrightarrow> run_spec P (require e b) Q E"
  by (simp add: run_spec_def require_def done_with_def stop_def)

lemma run_spec_look: "(\<And>st. P st \<Longrightarrow> Q (f st) st) \<Longrightarrow> run_spec P (look f) Q E"
  by (simp add: run_spec_def look_def)

lemma run_spec_if:
  "(b \<Longrightarrow> run_spec P r Q E) \<Longrightarrow> (\<not> b \<Longrightarrow> run_spec P r' Q E) \<Longrightarrow> run_spec P (if b then r else r') Q E"
  by simp

lemma run_spec_option:
  "(x = None \<Longrightarrow> run_spec P r Q E) \<Longrightarrow> (\<And>a. x = Some a \<Longrightarrow> run_spec P (r' a) Q E) \<Longrightarrow>
     run_spec P (case x of None \<Rightarrow> r | Some a \<Rightarrow> r' a) Q E"
  by (cases x) simp_all

lemma run_spec_fact: "(b \<Longrightarrow> run_spec P r Q E) \<Longrightarrow> run_spec (\<lambda>st. P st \<and> b) r Q E"
  by (auto simp: run_spec_def)

lemma run_spec_ex:
  assumes "\<And>x. run_spec (P x) r Q E"
  shows "run_spec (\<lambda>st. \<exists>x. P x st) r Q E"
  unfolding run_spec_def
proof (intro allI impI, elim exE)
  fix st x assume "P x st"
  then show "case r st of (st', Inr a) \<Rightarrow> Q a st' | (st', Inl e) \<Rightarrow> E st'"
    using assms [of x] by (simp add: run_spec_def)
qed

lemma run_spec_weaken:
  assumes "run_spec P r Q E" "\<And>st. P' st \<Longrightarrow> P st" "\<And>a st. Q a st \<Longrightarrow> Q' a st" "\<And>st. E st \<Longrightarrow> E' st"
  shows "run_spec P' r Q' E'"
  using assms unfolding run_spec_def by (fastforce split: sum.splits prod.splits)

text \<open>An invariant of a loop, which may speak of the elements done.\<close>

lemma run_spec_for_each_from:
  assumes "\<And>ds x es. xs = ds @ x # es \<Longrightarrow> run_spec (P (bs @ ds)) (f x) (\<lambda>_. P (bs @ ds @ [x])) E"
  shows "run_spec (P bs) (for_each f xs) (\<lambda>_. P (bs @ xs)) E"
  using assms
proof (induction xs arbitrary: bs)
  case Nil
  show ?case by (simp add: run_spec_done)
next
  case (Cons x xs)
  have "run_spec (P (bs @ [x])) (for_each f xs) (\<lambda>_. P ((bs @ [x]) @ xs)) E"
  proof (rule Cons.IH)
    fix ds y es assume "xs = ds @ y # es"
    then show "run_spec (P ((bs @ [x]) @ ds)) (f y) (\<lambda>_. P ((bs @ [x]) @ ds @ [y])) E"
      using Cons.prems [of "x # ds" y es] by simp
  qed
  moreover have "run_spec (P bs) (f x) (\<lambda>_. P (bs @ [x])) E" using Cons.prems [of "[]" x xs] by simp
  ultimately show ?case using run_spec_bind by fastforce
qed

lemmas run_spec_for_each = run_spec_for_each_from [where bs = "[]", unfolded append_Nil]

end
