(* ===== verification/Temp_Tree.thy ===== *)
theory Temp_Tree
  imports Registry Runs
begin

unbundle bit_operations_syntax

text \<open>
  The temporary tree of a workspace, built by descriptors: \<^verbatim>\<open>step\<close>, \<^verbatim>\<open>require_private\<close>,
  \<^verbatim>\<open>chmod_dir\<close> and \<^verbatim>\<open>temp_root_in\<close> of \<^verbatim>\<open>crates/world-runtime/src/silo.rs\<close>, on a store of inodes. A
  descriptor is the inode that it was opened on. Before each system call other processes may
  change the store (\<open>h_others\<close>), and each call may fail by itself (\<open>h_fails\<close>); how the kernel
  opens \<^verbatim>\<open>HOME\<close> and canonicalizes a path are parameters too. The calls that succeed are logged.
\<close>

section \<open>Inodes\<close>

type_synonym ino = nat

datatype inode_kind =
    Directory "bytes \<rightharpoonup> ino"
  | Link bytes
  | Regular_File bytes

record inode =
  i_kind :: inode_kind
  i_uid :: u32
  i_mode :: u32

type_synonym store = "inode list"

definition entries :: "store \<Rightarrow> ino \<Rightarrow> (bytes \<rightharpoonup> ino) option" where
  "entries s i =
     (if i < length s then (case i_kind (s ! i) of Directory es \<Rightarrow> Some es | _ \<Rightarrow> None) else None)"

definition entry_at :: "store \<Rightarrow> ino \<Rightarrow> bytes \<Rightarrow> ino option" where
  "entry_at s i name = Option.bind (entries s i) (\<lambda>es. es name)"

section \<open>System calls\<close>

datatype event = Made ino bytes ino | Opened ino bytes ino | Chmodded ino u32

record kernel =
  h_uid :: u32
  h_umask :: u32
  h_home :: "store \<Rightarrow> errno + ino"
  h_canon :: "store \<Rightarrow> bytes \<Rightarrow> errno + bytes"
  h_fails :: "nat \<Rightarrow> errno option"
  h_others :: "nat \<Rightarrow> store \<Rightarrow> store"

record tree_state =
  t_store :: store
  t_calls :: nat
  t_log :: "event list"

datatype tree_error =
    Sys errno | Contains_Nul | Not_Real_Directory | Not_Owned | Not_Private | Unexpected_Location

type_synonym 'a tree_run = "(tree_state, tree_error, 'a) run"

text \<open>
  One call: the others have their turn, then the kernel answers. Which errors the program treats
  in its own way is up to \<open>classify\<close>.
\<close>

definition syscall ::
  "kernel \<Rightarrow> (errno \<Rightarrow> tree_error + 'a) \<Rightarrow> (store \<Rightarrow> errno + (store \<times> event list \<times> 'a)) \<Rightarrow> 'a tree_run" where
  "syscall h classify call = (\<lambda>st.
     let s = h_others h (t_calls st) (t_store st);
         st' = st\<lparr>t_store := s, t_calls := t_calls st + 1\<rparr>
     in case (case h_fails h (t_calls st) of Some e \<Rightarrow> Inl e | None \<Rightarrow> call s) of
          Inl e \<Rightarrow> (st', classify e)
        | Inr (s', evs, a) \<Rightarrow> (st'\<lparr>t_store := s', t_log := t_log st @ evs\<rparr>, Inr a))"

definition plain_error :: "errno \<Rightarrow> tree_error + 'a" where
  "plain_error e = Inl (Sys e)"

definition new_dir :: "kernel \<Rightarrow> u32 \<Rightarrow> inode" where
  "new_dir h mode =
     \<lparr>i_kind = Directory Map.empty, i_uid = h_uid h, i_mode = mode AND NOT (h_umask h)\<rparr>"

definition add_entry :: "ino \<Rightarrow> bytes \<Rightarrow> inode \<Rightarrow> store \<Rightarrow> store" where
  "add_entry i name n s =
     (case entries s i of
        None \<Rightarrow> s
      | Some es \<Rightarrow> s[i := (s ! i)\<lparr>i_kind := Directory (es(name \<mapsto> length s))\<rparr>] @ [n])"

definition mkdirat :: "kernel \<Rightarrow> ino \<Rightarrow> bytes \<Rightarrow> u32 \<Rightarrow> store \<Rightarrow> errno + (store \<times> event list \<times> unit)" where
  "mkdirat h parent name mode s =
     (case entries s parent of
        None \<Rightarrow> Inl ENOTDIR
      | Some es \<Rightarrow>
          if es name \<noteq> None then Inl EEXIST
          else Inr (add_entry parent name (new_dir h mode) s, [Made parent name (length s)], ()))"

text \<open>\<^verbatim>\<open>openat\<close> with \<^verbatim>\<open>O_DIRECTORY | O_NOFOLLOW\<close>.\<close>

definition openat :: "ino \<Rightarrow> bytes \<Rightarrow> store \<Rightarrow> errno + (store \<times> event list \<times> ino)" where
  "openat parent name s =
     (case entries s parent of
        None \<Rightarrow> Inl ENOTDIR
      | Some es \<Rightarrow>
          (case es name of
             None \<Rightarrow> Inl ENOENT
           | Some i \<Rightarrow>
               if length s \<le> i then Inl ENOENT
               else (case i_kind (s ! i) of
                       Directory _ \<Rightarrow> Inr (s, [Opened parent name i], i)
                     | Link _ \<Rightarrow> Inl ELOOP
                     | Regular_File _ \<Rightarrow> Inl ENOTDIR)))"

definition fstat :: "ino \<Rightarrow> store \<Rightarrow> errno + (store \<times> event list \<times> inode)" where
  "fstat i s = (if i < length s then Inr (s, [], s ! i) else Inl EBADF)"

definition fchmod :: "ino \<Rightarrow> u32 \<Rightarrow> store \<Rightarrow> errno + (store \<times> event list \<times> unit)" where
  "fchmod i mode s =
     (if i < length s then Inr (s[i := (s ! i)\<lparr>i_mode := mode\<rparr>], [Chmodded i mode], ())
      else Inl EBADF)"

section \<open>The program\<close>

text \<open>The modes are \<^verbatim>\<open>0o700\<close>, \<^verbatim>\<open>0o1777\<close> and the bits \<^verbatim>\<open>0o022\<close> of group and others.\<close>

definition step_dir :: "kernel \<Rightarrow> ino \<Rightarrow> bytes \<Rightarrow> u32 \<Rightarrow> ino tree_run" where
  "step_dir h parent name create_mode =
     (if nul \<in> set name then stop Contains_Nul
      else
        bind_run
          (syscall h (\<lambda>e. if e = EEXIST then Inr () else Inl (Sys e))
             (mkdirat h parent name create_mode)) (\<lambda>_.
        bind_run
          (syscall h (\<lambda>e. Inl (if e = ELOOP \<or> e = ENOTDIR then Not_Real_Directory else Sys e))
             (openat parent name)) (\<lambda>child.
        bind_run (syscall h plain_error (fstat child)) (\<lambda>st.
          if i_uid st \<noteq> h_uid h then stop Not_Owned else done_with child))))"

definition require_private :: "kernel \<Rightarrow> ino \<Rightarrow> unit tree_run" where
  "require_private h fd =
     bind_run (syscall h plain_error (fstat fd)) (\<lambda>st.
       if i_mode st AND 0x12 \<noteq> 0 then stop Not_Private else done_with ())"

definition chmod_dir :: "kernel \<Rightarrow> ino \<Rightarrow> u32 \<Rightarrow> unit tree_run" where
  "chmod_dir h fd mode = syscall h plain_error (fchmod fd mode)"

definition open_home :: "kernel \<Rightarrow> ino tree_run" where
  "open_home h = syscall h plain_error (\<lambda>s. map_sum id (\<lambda>i. (s, [], i)) (h_home h s))"

definition canonicalize :: "kernel \<Rightarrow> bytes \<Rightarrow> bytes tree_run" where
  "canonicalize h path =
     syscall h plain_error (\<lambda>s. map_sum id (\<lambda>p. (s, [], p)) (h_canon h s path))"

definition temp_root_fds :: "kernel \<Rightarrow> bytes \<Rightarrow> ip4 \<Rightarrow> bytes tree_run" where
  "temp_root_fds h home ip =
     (if nul \<in> set home then stop Contains_Nul
      else
        bind_run (open_home h) (\<lambda>home_fd.
        bind_run (step_dir h home_fd ''.world'' 0x1c0) (\<lambda>world_fd.
        bind_run (require_private h world_fd) (\<lambda>_.
        bind_run (step_dir h world_fd ''tmp'' 0x1c0) (\<lambda>tmp_root_fd.
        bind_run (require_private h tmp_root_fd) (\<lambda>_.
        bind_run (step_dir h tmp_root_fd (show_ip ip) 0x1c0) (\<lambda>ip_fd.
        bind_run (chmod_dir h ip_fd 0x1c0) (\<lambda>_.
        bind_run (step_dir h ip_fd ''tmp'' 0x1c0) (\<lambda>tmp_fd.
        bind_run (chmod_dir h tmp_fd 0x3ff) (\<lambda>_.
        bind_run (step_dir h ip_fd ''var'' 0x1c0) (\<lambda>var_fd.
        bind_run (chmod_dir h var_fd 0x1c0) (\<lambda>_.
        bind_run (step_dir h var_fd ''tmp'' 0x1c0) (\<lambda>var_tmp_fd.
        bind_run (chmod_dir h var_tmp_fd 0x3ff) (\<lambda>_.
          let root = root_for home ip
          in bind_run (canonicalize h root) (\<lambda>canonical.
               if components canonical \<noteq> components root then stop Unexpected_Location
               else done_with root)))))))))))))))"

section \<open>Runs\<close>

text \<open>
  A call keeps a fact when the others and a failure keep it; its own effect is the last premise.
\<close>

lemma run_spec_syscall:
  assumes turn: "\<And>st. P st \<Longrightarrow>
      I (st\<lparr>t_store := h_others h (t_calls st) (t_store st), t_calls := t_calls st + 1\<rparr>)"
    and failed: "\<And>st e. I st \<Longrightarrow> case classify e of Inl e' \<Rightarrow> E st | Inr a \<Rightarrow> Q a st"
    and worked: "\<And>st s' evs a. I st \<Longrightarrow> call (t_store st) = Inr (s', evs, a) \<Longrightarrow>
      Q a (st\<lparr>t_store := s', t_log := t_log st @ evs\<rparr>)"
  shows "run_spec P (syscall h classify call) Q E"
  unfolding run_spec_def
proof (intro allI impI)
  fix st assume "P st"
  let ?st = "st\<lparr>t_store := h_others h (t_calls st) (t_store st), t_calls := t_calls st + 1\<rparr>"
  have I: "I ?st" using turn [OF \<open>P st\<close>] .
  show "case syscall h classify call st of (st', Inr a) \<Rightarrow> Q a st' | (st', Inl e) \<Rightarrow> E st'"
  proof (cases "case h_fails h (t_calls st) of Some e \<Rightarrow> Inl e | None \<Rightarrow> call (h_others h (t_calls st) (t_store st))")
    case (Inl e)
    then have "syscall h classify call st = (?st, classify e)"
      by (simp add: syscall_def Let_def)
    then show ?thesis using failed [OF I, of e] by (simp split: sum.splits)
  next
    case (Inr x)
    obtain s' evs a where x: "x = (s', evs, a)" by (cases x)
    then have "syscall h classify call st = (?st\<lparr>t_store := s', t_log := t_log st @ evs\<rparr>, Inr a)"
      using Inr by (simp add: syscall_def Let_def)
    moreover have "call (h_others h (t_calls st) (t_store st)) = Inr (s', evs, a)"
      using Inr x by (simp split: option.splits)
    ultimately show ?thesis using worked [OF I, of s' evs a] by simp
  qed
qed

section \<open>Other processes\<close>

text \<open>
  What other processes cannot do: take an inode away while it is open, change its owner, or turn
  a directory into something else or something else into a directory. Names, modes and new inodes
  are theirs.
\<close>

definition is_dir :: "store \<Rightarrow> ino \<Rightarrow> bool" where
  "is_dir s i \<longleftrightarrow> entries s i \<noteq> None"

definition fair :: "store \<Rightarrow> store \<Rightarrow> bool" where
  "fair s s' \<longleftrightarrow>
     length s \<le> length s' \<and>
     (\<forall>i < length s. i_uid (s' ! i) = i_uid (s ! i) \<and> (is_dir s' i \<longleftrightarrow> is_dir s i))"

lemma is_dir_range: "is_dir s i \<Longrightarrow> i < length s"
  by (auto simp: is_dir_def entries_def split: if_splits)

lemma fair_dir: "fair s s' \<Longrightarrow> is_dir s i \<Longrightarrow> is_dir s' i"
  using is_dir_range by (auto simp: fair_def)

lemma fair_trans: "fair s s' \<Longrightarrow> fair s' s'' \<Longrightarrow> fair s s''"
  by (auto simp: fair_def)

lemma fair_mkdirat: "mkdirat h p n m s = Inr (s', evs, a) \<Longrightarrow> fair s s'"
  by (auto simp: mkdirat_def add_entry_def fair_def is_dir_def entries_def nth_append nth_list_update
      split: option.splits if_splits inode_kind.splits)

lemma fair_fchmod: "fchmod i m s = Inr (s', evs, a) \<Longrightarrow> fair s s'"
  by (auto simp: fchmod_def fair_def is_dir_def entries_def nth_list_update
      split: if_splits inode_kind.splits)

section \<open>Links are never followed\<close>

text \<open>
  A descriptor is that of the home directory, or was opened by name in one that the program held.
  What each logged call was made on:
\<close>

definition was_opened :: "event list \<Rightarrow> ino \<Rightarrow> bool" where
  "was_opened log i \<longleftrightarrow> (\<exists>p n. Opened p n i \<in> set log)"

definition is_home :: "kernel \<Rightarrow> ino \<Rightarrow> bool" where
  "is_home h i \<longleftrightarrow> (\<exists>s. h_home h s = Inr i)"

fun event_ok :: "kernel \<Rightarrow> store \<Rightarrow> event list \<Rightarrow> event \<Rightarrow> bool" where
  "event_ok h s before (Made p n i) = (is_home h p \<or> was_opened before p)"
| "event_ok h s before (Opened p n i) = ((is_home h p \<or> was_opened before p) \<and> is_dir s i)"
| "event_ok h s before (Chmodded i m) =
     (was_opened before i \<and> is_dir s i \<and> i_uid (s ! i) = h_uid h)"

definition log_ok :: "kernel \<Rightarrow> store \<Rightarrow> event list \<Rightarrow> bool" where
  "log_ok h s log \<longleftrightarrow> (\<forall>before e after. log = before @ e # after \<longrightarrow> event_ok h s before e)"

lemma event_ok_fair: "fair s s' \<Longrightarrow> event_ok h s before e \<Longrightarrow> event_ok h s' before e"
  using is_dir_range [of s] by (cases e) (auto simp: fair_def)

lemma log_ok_Nil: "log_ok h s []"
  by (simp add: log_ok_def)

lemma log_ok_fair: "fair s s' \<Longrightarrow> log_ok h s log \<Longrightarrow> log_ok h s' log"
  using event_ok_fair by (auto simp: log_ok_def)

lemma log_ok_snoc: "log_ok h s log \<Longrightarrow> event_ok h s log e \<Longrightarrow> log_ok h s (log @ [e])"
  by (auto simp: log_ok_def append_eq_append_conv2 Cons_eq_append_conv append_eq_Cons_conv)

text \<open>The descriptors that the program holds and has checked.\<close>

definition held :: "kernel \<Rightarrow> tree_state \<Rightarrow> ino \<Rightarrow> bool" where
  "held h st fd \<longleftrightarrow>
     was_opened (t_log st) fd \<and> is_dir (t_store st) fd \<and> i_uid (t_store st ! fd) = h_uid h"

definition holding :: "kernel \<Rightarrow> ino set \<Rightarrow> tree_state \<Rightarrow> bool" where
  "holding h F st \<longleftrightarrow> log_ok h (t_store st) (t_log st) \<and> (\<forall>fd \<in> F. held h st fd)"

lemma held_later:
  assumes "held h st fd" "fair (t_store st) (t_store st')" "set (t_log st) \<subseteq> set (t_log st')"
  shows "held h st' fd"
  using assms is_dir_range [of "t_store st" fd] by (auto simp: held_def was_opened_def fair_def)

lemma holding_turn:
  assumes "holding h F st" "fair (t_store st) s'"
  shows "holding h F (st\<lparr>t_store := s', t_calls := n\<rparr>)"
  using assms held_later [of h st _ "st\<lparr>t_store := s', t_calls := n\<rparr>"]
  by (auto simp: holding_def intro: log_ok_fair)

lemma holding_call:
  assumes "holding h F st" "fair (t_store st) s'" "event_ok h s' (t_log st) e"
  shows "holding h F (st\<lparr>t_store := s', t_log := t_log st @ [e]\<rparr>)"
  using assms held_later [of h st _ "st\<lparr>t_store := s', t_log := t_log st @ [e]\<rparr>"]
  by (auto simp: holding_def intro!: log_ok_snoc intro: log_ok_fair)

lemma fair_refl: "fair s s"
  by (simp add: fair_def)

definition fair_kernel :: "kernel \<Rightarrow> bool" where
  "fair_kernel h \<longleftrightarrow>
     (\<forall>k s. fair s (h_others h k s)) \<and> (\<forall>s i. h_home h s = Inr i \<longrightarrow> is_dir s i)"

lemma holding_less: "holding h F st \<Longrightarrow> G \<subseteq> F \<Longrightarrow> holding h G st"
  by (auto simp: holding_def)

text \<open>A call that keeps what is held.\<close>

lemma call_holding:
  assumes "fair_kernel h"
    and "\<And>e. case classify e of Inl e' \<Rightarrow> True | Inr a \<Rightarrow> \<forall>st. holding h F st \<longrightarrow> Q a st"
    and "\<And>st s' evs a. holding h F st \<Longrightarrow> call (t_store st) = Inr (s', evs, a) \<Longrightarrow>
      Q a (st\<lparr>t_store := s', t_log := t_log st @ evs\<rparr>)"
  shows "run_spec (holding h F) (syscall h classify call) Q (holding h {})"
proof (rule run_spec_syscall [where I = "holding h F"])
  show "holding h F (st\<lparr>t_store := h_others h (t_calls st) (t_store st), t_calls := t_calls st + 1\<rparr>)"
    if "holding h F st" for st
    using assms(1) that by (intro holding_turn) (auto simp: fair_kernel_def)
  show "case classify e of Inl e' \<Rightarrow> holding h {} st | Inr a \<Rightarrow> Q a st" if "holding h F st" for st e
    using assms(2) [of e] that by (auto simp: holding_def split: sum.splits)
qed (use assms(3) in blast)

lemma mkdirat_holding:
  assumes "fair_kernel h" "fd \<in> F \<or> is_home h fd"
  shows "run_spec (holding h F)
      (syscall h (\<lambda>e. if e = EEXIST then Inr () else Inl (Sys e)) (mkdirat h fd n m))
      (\<lambda>_. holding h F) (holding h {})"
proof (rule call_holding [OF assms(1)])
  fix st s' evs a
  assume st: "holding h F st" and call: "mkdirat h fd n m (t_store st) = Inr (s', evs, a)"
  from call obtain i where evs: "evs = [Made fd n i]"
    by (auto simp: mkdirat_def split: option.splits if_splits)
  have "event_ok h s' (t_log st) (Made fd n i)"
    using assms(2) st by (auto simp: holding_def held_def)
  then show "holding h F (st\<lparr>t_store := s', t_log := t_log st @ evs\<rparr>)"
    using holding_call [OF st fair_mkdirat [OF call]] evs by simp
qed auto

lemma openat_holding:
  assumes "fair_kernel h" "fd \<in> F \<or> is_home h fd" "\<And>e. \<exists>e'. classify e = Inl e'"
  shows "run_spec (holding h F) (syscall h classify (openat fd n))
      (\<lambda>c st. holding h F st \<and> was_opened (t_log st) c \<and> is_dir (t_store st) c) (holding h {})"
proof (rule call_holding [OF assms(1)])
  fix st s' evs c
  assume st: "holding h F st" and call: "openat fd n (t_store st) = Inr (s', evs, c)"
  from call have facts: "s' = t_store st" "evs = [Opened fd n c]" "is_dir s' c"
    by (auto simp: openat_def is_dir_def entries_def not_le split: option.splits if_splits inode_kind.splits)
  have "event_ok h s' (t_log st) (Opened fd n c)"
    using assms(2) st facts(3) by (auto simp: holding_def held_def)
  then show "holding h F (st\<lparr>t_store := s', t_log := t_log st @ evs\<rparr>) \<and>
      was_opened (t_log (st\<lparr>t_store := s', t_log := t_log st @ evs\<rparr>)) c \<and>
      is_dir (t_store (st\<lparr>t_store := s', t_log := t_log st @ evs\<rparr>)) c"
    using holding_call [OF st, of s'] facts fair_refl by (auto simp: was_opened_def)
next
  show "case classify e of Inl e' \<Rightarrow> True | Inr a \<Rightarrow>
      \<forall>st. holding h F st \<longrightarrow> holding h F st \<and> was_opened (t_log st) a \<and> is_dir (t_store st) a" for e
    using assms(3) [of e] by auto
qed

lemma fstat_checked:
  assumes "fair_kernel h"
  shows "run_spec (\<lambda>st. holding h F st \<and> was_opened (t_log st) c \<and> is_dir (t_store st) c)
      (bind_run (syscall h plain_error (fstat c)) (\<lambda>n.
         if i_uid n \<noteq> h_uid h then stop Not_Owned else done_with c))
      (\<lambda>c. holding h (insert c F)) (holding h {})"
proof (rule run_spec_bind)
  let ?J = "\<lambda>st. holding h F st \<and> was_opened (t_log st) c \<and> is_dir (t_store st) c"
  show "run_spec ?J (syscall h plain_error (fstat c))
      (\<lambda>n st. ?J st \<and> i_uid n = i_uid (t_store st ! c)) (holding h {})"
  proof (rule run_spec_syscall [where I = ?J])
    fix st assume J: "?J st"
    then show "?J (st\<lparr>t_store := h_others h (t_calls st) (t_store st), t_calls := t_calls st + 1\<rparr>)"
      using assms by (auto simp: fair_kernel_def intro!: holding_turn intro: fair_dir)
  qed (auto simp: plain_error_def fstat_def holding_def split: if_splits)
  show "run_spec (\<lambda>st. ?J st \<and> i_uid n = i_uid (t_store st ! c))
      (if i_uid n \<noteq> h_uid h then stop Not_Owned else done_with c)
      (\<lambda>c. holding h (insert c F)) (holding h {})" for n
    by (intro run_spec_if run_spec_stop run_spec_done) (auto simp: holding_def held_def)
qed

lemma step_holding:
  assumes "fair_kernel h" "fd \<in> F \<or> is_home h fd"
  shows "run_spec (holding h F) (step_dir h fd n m) (\<lambda>c. holding h (insert c F)) (holding h {})"
  unfolding step_dir_def
  by (intro run_spec_if run_spec_stop run_spec_bind [OF mkdirat_holding [OF assms]]
      run_spec_bind [OF openat_holding [OF assms]] fstat_checked [OF assms(1)])
    (auto simp: holding_def)

lemma chmod_holding:
  assumes "fair_kernel h" "fd \<in> F"
  shows "run_spec (holding h F) (chmod_dir h fd m) (\<lambda>_. holding h F) (holding h {})"
  unfolding chmod_dir_def
proof (rule call_holding [OF assms(1)])
  fix st s' evs a
  assume st: "holding h F st" and call: "fchmod fd m (t_store st) = Inr (s', evs, a)"
  have fd: "held h st fd" using st assms(2) by (simp add: holding_def)
  from call have evs: "evs = [Chmodded fd m]" by (auto simp: fchmod_def split: if_splits)
  have "event_ok h s' (t_log st) (Chmodded fd m)"
    using fair_fchmod [OF call] fd is_dir_range [of "t_store st" fd]
    by (auto simp: held_def fair_def)
  then show "holding h F (st\<lparr>t_store := s', t_log := t_log st @ evs\<rparr>)"
    using holding_call [OF st fair_fchmod [OF call]] evs by simp
qed (simp add: plain_error_def)

lemma private_holding:
  assumes "fair_kernel h"
  shows "run_spec (holding h F) (require_private h fd) (\<lambda>_. holding h F) (holding h {})"
  unfolding require_private_def
  by (rule run_spec_bind [where Q = "\<lambda>_. holding h F"], rule call_holding [OF assms])
    (auto simp: plain_error_def fstat_def holding_def split: if_splits
      intro!: run_spec_if run_spec_stop run_spec_done)

lemma home_holding:
  assumes "fair_kernel h"
  shows "run_spec (holding h F) (open_home h) (\<lambda>i st. holding h F st \<and> is_home h i) (holding h {})"
  unfolding open_home_def
  by (rule call_holding [OF assms])
    (auto simp: plain_error_def is_home_def map_sum_def split: sum.splits)

lemma canonicalize_holding:
  assumes "fair_kernel h"
  shows "run_spec (holding h F) (canonicalize h p) (\<lambda>_. holding h F) (holding h {})"
  unfolding canonicalize_def
  by (rule call_holding [OF assms]) (auto simp: plain_error_def map_sum_def split: sum.splits)

lemma temp_root_holding:
  assumes h: "fair_kernel h"
  shows "run_spec (holding h {}) (temp_root_fds h home ip) (\<lambda>_. holding h {}) (holding h {})"
proof -
  have stepped: "run_spec (holding h F) (bind_run (step_dir h fd n m) f) Q (holding h {})"
    if "\<And>c. run_spec (holding h (insert c F)) (f c) Q (holding h {})" "fd \<in> F \<or> is_home h fd"
    for F fd n m f and Q :: "bytes \<Rightarrow> tree_state \<Rightarrow> bool"
    using run_spec_bind [OF step_holding [OF h that(2)] that(1)] .
  have kept: "run_spec (holding h F) (bind_run (require_private h fd) (\<lambda>_. f)) Q (holding h {})"
    if "run_spec (holding h F) f Q (holding h {})"
    for F fd f and Q :: "bytes \<Rightarrow> tree_state \<Rightarrow> bool"
    using run_spec_bind [OF private_holding [OF h] that] .
  have modes: "run_spec (holding h F) (bind_run (chmod_dir h fd m) (\<lambda>_. f)) Q (holding h {})"
    if "run_spec (holding h F) f Q (holding h {})" "fd \<in> F"
    for F fd m f and Q :: "bytes \<Rightarrow> tree_state \<Rightarrow> bool"
    using run_spec_bind [OF chmod_holding [OF h that(2)] that(1)] .
  show ?thesis
    unfolding temp_root_fds_def Let_def
    by (intro run_spec_if run_spec_stop run_spec_bind [OF home_holding [OF h]] run_spec_fact stepped kept modes
        run_spec_bind [OF canonicalize_holding [OF h]] run_spec_done)
      (auto intro: holding_less)
qed


text \<open>
  A process that plants a link at \<^verbatim>\<open>.world/tmp\<close> between the check of \<^verbatim>\<open>.world\<close> and the next call.
\<close>

definition kernel0 :: kernel where
  "kernel0 =
     \<lparr>h_uid = 501, h_umask = 0x12, h_home = (\<lambda>s. if is_dir s 0 then Inr 0 else Inl ENOENT),
      h_canon = (\<lambda>s p. Inr p), h_fails = (\<lambda>k. None), h_others = (\<lambda>k s. s)\<rparr>"

definition link0 :: inode where
  "link0 = \<lparr>i_kind = Link ''/etc'', i_uid = 0, i_mode = 0x1ff\<rparr>"

definition attacked :: kernel where
  "attacked = kernel0\<lparr>h_others := (\<lambda>k s. if k = 5 then add_entry 1 ''tmp'' link0 s else s)\<rparr>"

definition start0 :: tree_state where
  "start0 =
     \<lparr>t_store = [\<lparr>i_kind = Directory Map.empty, i_uid = 501, i_mode = 0x1ed\<rparr>], t_calls = 0, t_log = []\<rparr>"

lemma fair_add: "fair s (add_entry i n k s)"
  by (auto simp: add_entry_def fair_def is_dir_def entries_def nth_append nth_list_update
      split: option.splits if_splits inode_kind.splits)

lemma attacked_fair: "fair_kernel attacked"
  by (simp add: fair_kernel_def attacked_def kernel0_def fair_refl fair_add)


end
