(* ===== verification/Temp_Built.thy ===== *)
theory Temp_Built
  imports Temp_Tree Policy
begin

unbundle bit_operations_syntax

text \<open>
  What the temporary tree of a workspace is when no other process interferes: the directories and
  modes that a successful run leaves, when a run succeeds, and that the registry's view of a
  temporary root (\<open>Registry.temp_root_in\<close>) is what the descriptors do.
\<close>

section \<open>Names\<close>

lemma show_ip_facts:
  "show_ip ip \<noteq> []" "between (CHR ''0'') (CHR ''9'') (hd (show_ip ip))" "nul \<notin> set (show_ip ip)"
proof -
  obtain a b c d where ip: "ip = (a, b, c, d)" by (cases ip)
  have digits: "show_radix 10 n \<noteq> []" "\<And>x. x \<in> set (show_radix 10 n) \<Longrightarrow> between (CHR ''0'') (CHR ''9'') x"
    for n :: nat
    using show_radix_facts [of 10 n] show_dec_digits by auto
  show "show_ip ip \<noteq> []" using digits by (simp add: show_ip_def ip)
  show "between (CHR ''0'') (CHR ''9'') (hd (show_ip ip))"
    using digits(1) [of a] digits(2) [OF hd_in_set, of a] by (simp add: show_ip_def ip hd_append)
  show "nul \<notin> set (show_ip ip)"
    using digits(2) [of nul] by (auto simp: show_ip_def ip between_def)
qed

lemma show_ip_neq [simp]:
  "show_ip ip \<noteq> ''.world''" "show_ip ip \<noteq> ''tmp''" "show_ip ip \<noteq> ''var''" "show_ip ip \<noteq> ''owner''"
  using show_ip_facts(2) [of ip] by (auto simp: between_def)

section \<open>Quiet runs\<close>

definition quiet :: "kernel \<Rightarrow> bool" where
  "quiet h \<longleftrightarrow> (\<forall>k. h_fails h k = None) \<and> (\<forall>k s. h_others h k s = s)"

definition mode_at :: "store \<Rightarrow> ino \<Rightarrow> u32" where
  "mode_at s i = i_mode (s ! i)"

definition own_dir :: "kernel \<Rightarrow> store \<Rightarrow> ino \<Rightarrow> bool" where
  "own_dir h s i \<longleftrightarrow> is_dir s i \<and> i_uid (s ! i) = h_uid h"

text \<open>Every entry leads to an inode, and no inode has two entries.\<close>

definition tree_like :: "store \<Rightarrow> bool" where
  "tree_like s \<longleftrightarrow>
     (\<forall>i n c. entry_at s i n = Some c \<longrightarrow> c < length s) \<and>
     (\<forall>i n j m c. entry_at s i n = Some c \<longrightarrow> entry_at s j m = Some c \<longrightarrow> i = j \<and> n = m)"

definition made :: "kernel \<Rightarrow> ino \<Rightarrow> bytes \<Rightarrow> ino \<Rightarrow> store \<Rightarrow> store \<Rightarrow> bool" where
  "made h p n c s s' \<longleftrightarrow>
     is_dir s p \<and>
     (if entry_at s p n = None
      then s' = add_entry p n (new_dir h 0x1c0) s \<and> c = length s
      else s' = s \<and> entry_at s p n = Some c \<and> own_dir h s c)"

lemma entry_at_add:
  "is_dir s p \<Longrightarrow> i_kind k = Directory Map.empty \<Longrightarrow>
     entry_at (add_entry p n k s) i m = (if i = p \<and> m = n then Some (length s) else entry_at s i m)"
  by (auto simp: add_entry_def entry_at_def entries_def is_dir_def nth_append nth_list_update
      split: option.splits if_splits inode_kind.splits)

lemma dir_add:
  "is_dir s p \<Longrightarrow> i_kind k = Directory Map.empty \<Longrightarrow>
     is_dir (add_entry p n k s) i \<longleftrightarrow> i = length s \<or> is_dir s i"
  by (auto simp: add_entry_def entries_def is_dir_def nth_append nth_list_update
      split: option.splits if_splits inode_kind.splits)

lemma node_add:
  assumes "is_dir s p"
  shows "length (add_entry p n k s) = Suc (length s)" "add_entry p n k s ! length s = k"
    and "i < length s \<Longrightarrow> i_uid (add_entry p n k s ! i) = i_uid (s ! i)"
    and "i < length s \<Longrightarrow> i_mode (add_entry p n k s ! i) = i_mode (s ! i)"
  using assms
  by (cases "i = p"; auto simp: add_entry_def is_dir_def entries_def nth_append split: option.splits if_splits)+

lemma step_quiet:
  assumes "quiet h" "nul \<notin> set n"
  shows "(\<exists>st1. step_dir h p n 0x1c0 st = (st1, Inr c) \<and> t_store st1 = s') \<longleftrightarrow>
     made h p n c (t_store st) s'"
proof (cases "entries (t_store st) p")
  case None
  then show ?thesis
    using assms
    by (auto simp: step_dir_def bind_run_def syscall_def quiet_def mkdirat_def made_def is_dir_def)
next
  case (Some es)
  note defs = step_dir_def bind_run_def syscall_def mkdirat_def openat_def fstat_def made_def
    own_dir_def stop_def done_with_def plain_error_def Let_def
  show ?thesis
  proof (cases "es n")
    case None
    let ?s = "add_entry p n (new_dir h 0x1c0) (t_store st)"
    have p: "is_dir (t_store st) p" using Some by (simp add: is_dir_def)
    have "entries ?s p = Some (es(n \<mapsto> length (t_store st)))"
      using Some by (auto simp: add_entry_def entries_def nth_append split: if_splits inode_kind.splits)
    then show ?thesis
      using assms Some None p node_add(1,2) [OF p]
      by (auto simp: defs quiet_def is_dir_def entry_at_def new_dir_def)
  next
    case (Some c')
    then show ?thesis
      using assms \<open>entries (t_store st) p = Some es\<close>
      by (auto simp: defs quiet_def is_dir_def entry_at_def entries_def split: inode_kind.splits if_splits)
  qed
qed

text \<open>
  The successful ends of a quiet run, as a relation on stores.
\<close>

definition leads :: "'a tree_run \<Rightarrow> (store \<Rightarrow> 'a \<Rightarrow> store \<Rightarrow> bool) \<Rightarrow> bool" where
  "leads r G \<longleftrightarrow> (\<forall>st a s'. (\<exists>st1. r st = (st1, Inr a) \<and> t_store st1 = s') \<longleftrightarrow> G (t_store st) a s')"

lemma leads_bind:
  assumes "leads r G" and "\<And>a. leads (f a) (H a)"
  shows "leads (bind_run r f) (\<lambda>s b s''. \<exists>a s1. G s a s1 \<and> H a s1 b s'')"
  unfolding leads_def
proof (intro allI)
  fix st b s''
  have "(\<exists>st2. bind_run r f st = (st2, Inr b) \<and> t_store st2 = s'') \<longleftrightarrow>
      (\<exists>a st1. r st = (st1, Inr a) \<and> (\<exists>st2. f a st1 = (st2, Inr b) \<and> t_store st2 = s''))"
    by (auto simp: bind_run_def split: prod.splits sum.splits)
  also have "\<dots> \<longleftrightarrow> (\<exists>a st1. r st = (st1, Inr a) \<and> H a (t_store st1) b s'')"
    using assms(2) by (simp add: leads_def)
  also have "\<dots> \<longleftrightarrow> (\<exists>a s1. G (t_store st) a s1 \<and> H a s1 b s'')"
    using assms(1) unfolding leads_def by metis
  finally show "(\<exists>st2. bind_run r f st = (st2, Inr b) \<and> t_store st2 = s'') \<longleftrightarrow>
      (\<exists>a s1. G (t_store st) a s1 \<and> H a s1 b s'')" .
qed

definition is_private :: "store \<Rightarrow> ino \<Rightarrow> bool" where
  "is_private s i \<longleftrightarrow> mode_at s i AND 0x12 = 0"

definition set_mode :: "ino \<Rightarrow> u32 \<Rightarrow> store \<Rightarrow> store" where
  "set_mode i m s = s[i := (s ! i)\<lparr>i_mode := m\<rparr>]"

lemma step_leads: "quiet h \<Longrightarrow> nul \<notin> set n \<Longrightarrow> leads (step_dir h p n 0x1c0) (\<lambda>s c s'. made h p n c s s')"
  by (simp add: leads_def step_quiet)

lemma private_leads:
  "quiet h \<Longrightarrow> leads (require_private h i) (\<lambda>s _ s'. s' = s \<and> i < length s \<and> is_private s i)"
  by (auto simp: leads_def require_private_def bind_run_def syscall_def quiet_def fstat_def stop_def
      done_with_def plain_error_def is_private_def mode_at_def Let_def)

lemma chmod_leads:
  "quiet h \<Longrightarrow> leads (chmod_dir h i m) (\<lambda>s _ s'. s' = set_mode i m s \<and> i < length s)"
  by (auto simp: leads_def chmod_dir_def syscall_def quiet_def fchmod_def plain_error_def set_mode_def
      Let_def)

lemma map_sum_Inr: "map_sum id g x = Inr y \<longleftrightarrow> (\<exists>z. x = Inr z \<and> y = g z)"
  by (cases x) auto

lemma home_leads: "quiet h \<Longrightarrow> leads (open_home h) (\<lambda>s i s'. s' = s \<and> h_home h s = Inr i)"
  by (auto simp: leads_def open_home_def syscall_def quiet_def plain_error_def Let_def
      map_sum_Inr split: sum.splits)

lemma canonicalize_leads:
  "quiet h \<Longrightarrow> leads (canonicalize h p) (\<lambda>s c s'. s' = s \<and> h_canon h s p = Inr c)"
  by (auto simp: leads_def canonicalize_def syscall_def quiet_def plain_error_def Let_def
      map_sum_Inr split: sum.splits)

lemma done_leads: "leads (if b then stop e else done_with a) (\<lambda>s x s'. \<not> b \<and> x = a \<and> s' = s)"
  by (auto simp: leads_def stop_def done_with_def)

text \<open>The six directories, one step after the other.\<close>

definition grown_tree ::
  "kernel \<Rightarrow> ip4 \<Rightarrow> store \<Rightarrow> ino \<times> ino \<times> ino \<times> ino \<times> ino \<times> ino \<times> ino \<Rightarrow> store \<Rightarrow> bool" where
  "grown_tree h ip s = (\<lambda>(hd, w, t, p, q, v, x) s'.
     h_home h s = Inr hd \<and>
     (\<exists>s1. made h hd ''.world'' w s s1 \<and> w < length s1 \<and> is_private s1 w \<and>
     (\<exists>s2. made h w ''tmp'' t s1 s2 \<and> t < length s2 \<and> is_private s2 t \<and>
     (\<exists>s3. made h t (show_ip ip) p s2 s3 \<and> p < length s3 \<and>
     (\<exists>s4. made h p ''tmp'' q (set_mode p 0x1c0 s3) s4 \<and> q < length s4 \<and>
     (\<exists>s5. made h p ''var'' v (set_mode q 0x3ff s4) s5 \<and> v < length s5 \<and>
     (\<exists>s6. made h v ''tmp'' x (set_mode v 0x1c0 s5) s6 \<and> x < length s6 \<and>
        s' = set_mode x 0x3ff s6)))))))"

lemma temp_root_leads:
  assumes h: "quiet h" and home: "nul \<notin> set home"
  shows "leads (temp_root_fds h home ip) (\<lambda>s r s'.
     r = root_for home ip \<and> (\<exists>fds. grown_tree h ip s fds s') \<and>
     (\<exists>c. h_canon h s' r = Inr c \<and> components c = components r))"
proof -
  note names = show_ip_facts(3) [of ip]
  have *: "leads (temp_root_fds h home ip) (\<lambda>s r s'.
      \<exists>hd sa. (sa = s \<and> h_home h s = Inr hd) \<and>
     (\<exists>w s1. made h hd ''.world'' w sa s1 \<and>
     (\<exists>(u::unit) sb. (sb = s1 \<and> w < length s1 \<and> is_private s1 w) \<and>
     (\<exists>t s2. made h w ''tmp'' t sb s2 \<and>
     (\<exists>(u::unit) sc. (sc = s2 \<and> t < length s2 \<and> is_private s2 t) \<and>
     (\<exists>p s3. made h t (show_ip ip) p sc s3 \<and>
     (\<exists>(u::unit) sd. (sd = set_mode p 0x1c0 s3 \<and> p < length s3) \<and>
     (\<exists>q s4. made h p ''tmp'' q sd s4 \<and>
     (\<exists>(u::unit) se. (se = set_mode q 0x3ff s4 \<and> q < length s4) \<and>
     (\<exists>v s5. made h p ''var'' v se s5 \<and>
     (\<exists>(u::unit) sf. (sf = set_mode v 0x1c0 s5 \<and> v < length s5) \<and>
     (\<exists>x s6. made h v ''tmp'' x sf s6 \<and>
     (\<exists>(u::unit) sg. (sg = set_mode x 0x3ff s6 \<and> x < length s6) \<and>
     (\<exists>c sh. (sh = sg \<and> h_canon h sg (root_for home ip) = Inr c) \<and>
        \<not> components c \<noteq> components (root_for home ip) \<and> r = root_for home ip \<and> s' = sh))))))))))))))"
    unfolding temp_root_fds_def Let_def if_not_P [OF home]
    by (intro leads_bind step_leads private_leads chmod_leads home_leads canonicalize_leads done_leads h)
      (use names in auto)
  show ?thesis
    by (rule back_subst [of "leads (temp_root_fds h home ip)", OF *], intro ext, rule iffI)
      (simp add: grown_tree_def split_paired_Ex, elim exE conjE, hypsubst, intro exI conjI,
        (rule refl | assumption)+)+
qed

section \<open>The tree that is left\<close>

lemma made_entry:
  "made h p n c s s' \<Longrightarrow> entry_at s' i m = (if i = p \<and> m = n then Some c else entry_at s i m)"
  by (auto simp: made_def entry_at_add new_dir_def split: if_splits)

lemma made_own: "made h p n c s s' \<Longrightarrow> own_dir h s' c"
  using node_add(2) [of s p n "new_dir h 0x1c0"]
  by (auto simp: made_def own_dir_def dir_add new_dir_def split: if_splits)

lemma made_keeps:
  assumes "made h p n c s s'"
  shows "fair s s'" "i < length s \<Longrightarrow> mode_at s' i = mode_at s i"
  using assms node_add [of s p] is_dir_range [of s]
  by (auto simp: made_def fair_def mode_at_def dir_add new_dir_def split: if_splits)

lemma made_tree:
  assumes "made h p n c s s'" "tree_like s"
  shows "tree_like s'"
proof -
  have less: "length s \<le> length s'" using made_keeps(1) [OF assms(1)] by (simp add: fair_def)
  have c: "c < length s'" using made_own [OF assms(1)] is_dir_range by (auto simp: own_dir_def)
  have fresh: "i = p \<and> m = n" if "entry_at s i m = Some c" for i m
  proof (cases "entry_at s p n")
    case None
    then have "c = length s" using assms(1) by (simp add: made_def)
    then show ?thesis using that assms(2) by (fastforce simp: tree_like_def)
  next
    case (Some c')
    then have "entry_at s p n = Some c" using assms(1) by (simp add: made_def)
    then show ?thesis using that assms(2) by (auto simp: tree_like_def)
  qed
  have "i < length s'" if "entry_at s j m = Some i" for i j m
    using that assms(2) less by (fastforce simp: tree_like_def)
  then show ?thesis
    using assms(2) c fresh by (auto simp: tree_like_def made_entry [OF assms(1)] split: if_splits)
qed

lemma set_mode_keeps:
  "length (set_mode c m s) = length s" "entry_at (set_mode c m s) = entry_at s"
  "fair s (set_mode c m s)" "tree_like (set_mode c m s) = tree_like s"
proof -
  have e: "entries (set_mode c m s) i = entries s i" for i
    by (cases "i = c") (simp_all add: set_mode_def entries_def)
  show len: "length (set_mode c m s) = length s" by (simp add: set_mode_def)
  show entry: "entry_at (set_mode c m s) = entry_at s" by (intro ext) (simp add: entry_at_def e)
  have "i_uid (set_mode c m s ! i) = i_uid (s ! i)" for i
    by (cases "i = c \<and> c < length s") (auto simp: set_mode_def list_update_beyond)
  then show "fair s (set_mode c m s)" by (simp add: fair_def is_dir_def e len)
  show "tree_like (set_mode c m s) = tree_like s" by (simp add: tree_like_def entry len)
qed

lemma set_mode_at: "c < length s \<Longrightarrow> mode_at (set_mode c m s) i = (if i = c then m else mode_at s i)"
  by (simp add: mode_at_def set_mode_def)

lemma own_dir_fair: "own_dir h s c \<Longrightarrow> fair s s' \<Longrightarrow> own_dir h s' c"
  using is_dir_range [of s c] by (auto simp: own_dir_def fair_def)

text \<open>The entries that a run makes or uses.\<close>

definition places :: "ip4 \<Rightarrow> ino \<times> ino \<times> ino \<times> ino \<times> ino \<times> ino \<times> ino \<Rightarrow> ((ino \<times> bytes) \<times> ino) list" where
  "places ip = (\<lambda>(hd, w, t, p, q, v, x).
     [((hd, ''.world''), w), ((w, ''tmp''), t), ((t, show_ip ip), p),
      ((p, ''tmp''), q), ((p, ''var''), v), ((v, ''tmp''), x)])"

definition sub_entries :: "store \<Rightarrow> store \<Rightarrow> bool" where
  "sub_entries s s' \<longleftrightarrow> (\<forall>i m c. entry_at s i m = Some c \<longrightarrow> entry_at s' i m = Some c)"

lemma made_sub: "made h p n c s s' \<Longrightarrow> sub_entries s s'"
  using made_entry [of h p n c s s'] by (auto simp: sub_entries_def made_def split: if_splits)

lemma sub_trans: "sub_entries s s' \<Longrightarrow> sub_entries s' s'' \<Longrightarrow> sub_entries s s''"
  by (auto simp: sub_entries_def)

lemma sub_set_mode: "sub_entries (set_mode c m s) s' \<longleftrightarrow> sub_entries s s'"
    "sub_entries s (set_mode c m s') \<longleftrightarrow> sub_entries s s'"
  by (simp_all add: sub_entries_def set_mode_keeps)

lemma sub_entriesD: "sub_entries s s' \<Longrightarrow> entry_at s i m = Some c \<Longrightarrow> entry_at s' i m = Some c"
  by (simp add: sub_entries_def)

lemma made_here: "made h p n c s s' \<Longrightarrow> entry_at s' p n = Some c"
  by (simp add: made_entry)

lemma made_elsewhere: "made h p n c s s' \<Longrightarrow> (i, m) \<noteq> (p, n) \<Longrightarrow> entry_at s' i m = entry_at s i m"
  by (auto simp: made_entry)

lemma grown_tree_entries:
  assumes "grown_tree h ip s fds s'" "tree_like s"
  shows "tree_like s'" "fair s s'" "((i, n), c) \<in> set (places ip fds) \<Longrightarrow> entry_at s' i n = Some c"
    and "((i, n), c) \<in> set (places ip fds) \<Longrightarrow> own_dir h s' c"
    and "map_of (places ip fds) (i, n) = None \<Longrightarrow> entry_at s' i n = entry_at s i n"
proof -
  obtain hd w t p q v x where fds: "fds = (hd, w, t, p, q, v, x)" by (cases fds)
  from assms(1) obtain s1 s2 s3 s4 s5 s6 where
    m: "made h hd ''.world'' w s s1" "made h w ''tmp'' t s1 s2" "made h t (show_ip ip) p s2 s3"
      "made h p ''tmp'' q (set_mode p 0x1c0 s3) s4" "made h p ''var'' v (set_mode q 0x3ff s4) s5"
      "made h v ''tmp'' x (set_mode v 0x1c0 s5) s6" and s': "s' = set_mode x 0x3ff s6"
    unfolding grown_tree_def fds by auto
  show "tree_like s'" using m [THEN made_tree] assms(2) by (simp add: s' set_mode_keeps)
  have fair: "fair s1 s'" "fair s2 s'" "fair s3 s'" "fair s4 s'" "fair s5 s'" "fair s6 s'" "fair s s'"
    using m [THEN made_keeps(1)] set_mode_keeps(3) unfolding s' by (meson fair_trans)+
  show "fair s s'" by (fact fair)
  have "sub_entries s6 s'" using sub_set_mode(2) unfolding s' by (simp add: sub_entries_def)
  then have sub: "sub_entries s1 s'" "sub_entries s2 s'" "sub_entries s3 s'" "sub_entries s4 s'"
      "sub_entries s5 s'" "sub_entries s6 s'"
    using m(2-) [THEN made_sub] unfolding sub_set_mode by (meson sub_trans)+
  have "entry_at s' hd ''.world'' = Some w" "entry_at s' w ''tmp'' = Some t"
    "entry_at s' t (show_ip ip) = Some p" "entry_at s' p ''tmp'' = Some q"
    "entry_at s' p ''var'' = Some v" "entry_at s' v ''tmp'' = Some x"
    by (rule sub_entriesD [OF _ made_here]; fact sub m)+
  then show "entry_at s' i n = Some c" if "((i, n), c) \<in> set (places ip fds)"
    using that by (auto simp: places_def fds)
  have "own_dir h s' w" "own_dir h s' t" "own_dir h s' p" "own_dir h s' q" "own_dir h s' v" "own_dir h s' x"
    by (rule own_dir_fair [OF made_own]; fact m fair)+
  then show "own_dir h s' c" if "((i, n), c) \<in> set (places ip fds)"
    using that by (auto simp: places_def fds)
  show "entry_at s' i n = entry_at s i n" if "map_of (places ip fds) (i, n) = None"
  proof -
    have "(i, n) \<noteq> (hd, ''.world'')" "(i, n) \<noteq> (w, ''tmp'')" "(i, n) \<noteq> (t, show_ip ip)"
      "(i, n) \<noteq> (p, ''tmp'')" "(i, n) \<noteq> (p, ''var'')" "(i, n) \<noteq> (v, ''tmp'')"
      using that by (simp_all add: places_def fds split: if_splits)
    then show ?thesis
      using m [THEN made_elsewhere] by (simp add: s' set_mode_keeps)
  qed
qed

lemma grown_tree_distinct:
  assumes "grown_tree h ip s (b, w, t, p, q, v, x) s'" "tree_like s"
  shows "distinct [w, t, p, q, v, x]"
proof -
  have e: "entry_at s' b ''.world'' = Some w" "entry_at s' w ''tmp'' = Some t"
    "entry_at s' t (show_ip ip) = Some p" "entry_at s' p ''tmp'' = Some q"
    "entry_at s' p ''var'' = Some v" "entry_at s' v ''tmp'' = Some x"
    using grown_tree_entries(3) [OF assms] by (simp_all add: places_def)
  have apart: "c \<noteq> c'" if "entry_at s' i n = Some c" "entry_at s' j m = Some c'" "i \<noteq> j \<or> n \<noteq> m"
    for i j n m c c'
    using grown_tree_entries(1) [OF assms] that unfolding tree_like_def by blast
  note names = show_ip_neq [of ip] show_ip_neq [of ip, THEN not_sym]
  have "w \<noteq> p" "p \<noteq> v" "w \<noteq> v"
    using apart [OF e(1) e(3)] apart [OF e(3) e(5)] apart [OF e(1) e(5)] names by simp_all
  then show ?thesis
    using apart [OF e(1) e(2)] apart [OF e(1) e(4)] apart [OF e(1) e(6)] apart [OF e(2) e(3)]
      apart [OF e(2) e(4)] apart [OF e(2) e(5)] apart [OF e(2) e(6)] apart [OF e(3) e(4)]
      apart [OF e(3) e(6)] apart [OF e(4) e(5)] apart [OF e(4) e(6)] apart [OF e(5) e(6)] names
    by simp
qed

lemma grown_tree_modes:
  assumes "grown_tree h ip s (b, w, t, p, q, v, x) s'" "tree_like s"
  shows "is_private s' w" "is_private s' t"
    and "mode_at s' p = 0x1c0" "mode_at s' q = 0x3ff" "mode_at s' v = 0x1c0" "mode_at s' x = 0x3ff"
    and "i < length s \<Longrightarrow> i \<notin> {p, q, v, x} \<Longrightarrow> mode_at s' i = mode_at s i"
proof -
  from assms(1) obtain s1 s2 s3 s4 s5 s6 where
    m: "made h b ''.world'' w s s1" "made h w ''tmp'' t s1 s2" "made h t (show_ip ip) p s2 s3"
      "made h p ''tmp'' q (set_mode p 0x1c0 s3) s4" "made h p ''var'' v (set_mode q 0x3ff s4) s5"
      "made h v ''tmp'' x (set_mode v 0x1c0 s5) s6" and s': "s' = set_mode x 0x3ff s6"
    and r: "w < length s1" "t < length s2" "p < length s3" "q < length s4" "v < length s5" "x < length s6"
    and priv: "is_private s1 w" "is_private s2 t"
    unfolding grown_tree_def by auto
  have len: "length s \<le> length s1" "length s1 \<le> length s2" "length s2 \<le> length s3"
      "length s3 \<le> length s4" "length s4 \<le> length s5" "length s5 \<le> length s6"
    using m [THEN made_keeps(1)] by (simp_all add: fair_def set_mode_keeps)
  have d: "distinct [w, t, p, q, v, x]" by (rule grown_tree_distinct [OF assms])
  note modes = set_mode_at [OF r(3)] set_mode_at [OF r(4)] set_mode_at [OF r(5)] set_mode_at [OF r(6)]
    m(1-3) [THEN made_keeps(2)] m(4-6) [THEN made_keeps(2), unfolded set_mode_keeps(1)]
  show "mode_at s' p = 0x1c0" "mode_at s' q = 0x3ff" "mode_at s' v = 0x1c0" "mode_at s' x = 0x3ff"
    using d r len by (simp_all add: s' modes)
  show "is_private s' w" "is_private s' t"
    using d r len priv by (simp_all add: is_private_def s' modes)
  show "mode_at s' i = mode_at s i" if "i < length s" "i \<notin> {p, q, v, x}"
    using that len by (simp add: s' modes)
qed

text \<open>
  When no other process interferes, a successful call leaves the six directories
  of the root, each owned by this user and reached by its name: \<^verbatim>\<open>.world\<close> and \<^verbatim>\<open>.world/tmp\<close> not
  writable by others, the root and its \<^verbatim>\<open>var\<close> with mode 0700, the two temporary directories with
  mode 1777. Every other entry and every other mode is as it was, and the name that is returned
  is canonical.
\<close>

theorem tree_built:
  assumes "quiet h" "tree_like (t_store st)" "temp_root_fds h home ip st = (st', Inr root)"
  shows "root = root_for home ip \<and>
    (\<exists>c. h_canon h (t_store st') root = Inr c \<and> components c = components root) \<and>
    (\<exists>b w t p q v x. h_home h (t_store st) = Inr b \<and>
       (\<forall>((i, n), c) \<in> set (places ip (b, w, t, p, q, v, x)).
          entry_at (t_store st') i n = Some c \<and> own_dir h (t_store st') c) \<and>
       is_private (t_store st') w \<and> is_private (t_store st') t \<and>
       mode_at (t_store st') p = 0x1c0 \<and> mode_at (t_store st') q = 0x3ff \<and>
       mode_at (t_store st') v = 0x1c0 \<and> mode_at (t_store st') x = 0x3ff \<and>
       (\<forall>i n. map_of (places ip (b, w, t, p, q, v, x)) (i, n) = None \<longrightarrow>
          entry_at (t_store st') i n = entry_at (t_store st) i n) \<and>
       (\<forall>i < length (t_store st). i \<notin> {p, q, v, x} \<longrightarrow>
          mode_at (t_store st') i = mode_at (t_store st) i))"
    (is "_ \<and> _ \<and> (\<exists>b w t p q v x. ?R b w t p q v x)")
proof -
  have "nul \<notin> set home" using assms(3) by (auto simp: temp_root_fds_def stop_def split: if_splits)
  from temp_root_leads [OF assms(1) this, of ip] assms(3)
  obtain fds where root: "root = root_for home ip"
      "\<exists>c. h_canon h (t_store st') root = Inr c \<and> components c = components root"
    and g: "grown_tree h ip (t_store st) fds (t_store st')"
    unfolding leads_def by blast
  obtain b w t p q v x where fds: "fds = (b, w, t, p, q, v, x)" by (cases fds)
  have home: "h_home h (t_store st) = Inr b" using g by (simp add: grown_tree_def fds)
  have entries: "\<forall>((i, n), c) \<in> set (places ip (b, w, t, p, q, v, x)).
      entry_at (t_store st') i n = Some c \<and> own_dir h (t_store st') c"
    using grown_tree_entries(3,4) [OF g assms(2)] unfolding fds by blast
  have frame: "\<forall>i n. map_of (places ip (b, w, t, p, q, v, x)) (i, n) = None \<longrightarrow>
      entry_at (t_store st') i n = entry_at (t_store st) i n"
    using grown_tree_entries(5) [OF g assms(2)] unfolding fds by blast
  note modes = grown_tree_modes [OF g [unfolded fds] assms(2)]
  have "\<forall>i < length (t_store st). i \<notin> {p, q, v, x} \<longrightarrow> mode_at (t_store st') i = mode_at (t_store st) i"
    using modes(7) by blast
  with home entries frame modes(1-6) have
    "?R b w t p q v x" by (intro conjI)
  then show ?thesis using root by (intro conjI root) (rule exI)+
qed

section \<open>When a run succeeds\<close>

text \<open>An entry is missing, or it is a directory of this user with the property \<open>f\<close>.\<close>

definition dir_fits :: "kernel \<Rightarrow> store \<Rightarrow> ino \<Rightarrow> bytes \<Rightarrow> (ino \<Rightarrow> bool) \<Rightarrow> bool" where
  "dir_fits h s p n f = (case entry_at s p n of None \<Rightarrow> True | Some c \<Rightarrow> own_dir h s c \<and> f c)"

definition dir_fits_root :: "kernel \<Rightarrow> store \<Rightarrow> ino \<Rightarrow> bool" where
  "dir_fits_root h s p \<longleftrightarrow>
     dir_fits h s p ''tmp'' (\<lambda>_. True) \<and> dir_fits h s p ''var'' (\<lambda>v. dir_fits h s v ''tmp'' (\<lambda>_. True))"

definition ready :: "kernel \<Rightarrow> ip4 \<Rightarrow> store \<Rightarrow> ino \<Rightarrow> bool" where
  "ready h ip s b \<longleftrightarrow>
     is_dir s b \<and>
     dir_fits h s b ''.world'' (\<lambda>w. is_private s w \<and>
       dir_fits h s w ''tmp'' (\<lambda>t. is_private s t \<and> dir_fits h s t (show_ip ip) (dir_fits_root h s)))"

lemma new_private: "is_private (add_entry p n (new_dir h 0x1c0) s) (length s)" if "is_dir s p"
proof -
  have "(0x1c0 AND NOT (h_umask h)) AND 0x12 = (0x1c0 AND 0x12) AND NOT (h_umask h)"
    by (simp only: ac_simps)
  then show ?thesis
    using node_add(2) [OF that, of n "new_dir h 0x1c0"]
    by (simp add: is_private_def mode_at_def new_dir_def)
qed

lemma made_next:
  assumes "dir_fits h s p n f" "is_dir s p" "tree_like s"
  obtains c s' where "made h p n c s s'" "own_dir h s' c" "c < length s'" "tree_like s'"
    "s' = s \<and> f c \<or> is_private s' c \<and> (\<forall>m. entry_at s' c m = None)"
proof -
  have "\<exists>c s'. made h p n c s s' \<and> (s' = s \<and> f c \<or> is_private s' c \<and> (\<forall>m. entry_at s' c m = None))"
  proof (cases "entry_at s p n")
    case None
    let ?s = "add_entry p n (new_dir h 0x1c0) s"
    have m: "made h p n (length s) s ?s" using None assms(2) by (simp add: made_def)
    have "entry_at s (length s) m = None" for m by (simp add: entry_at_def entries_def)
    then have "entry_at ?s (length s) m = None" for m
      using made_entry [OF m] is_dir_range [OF assms(2)] by simp
    then show ?thesis using m new_private [OF assms(2)] by blast
  next
    case (Some c)
    then have "made h p n c s s" using assms(1,2) by (simp add: made_def dir_fits_def)
    then show ?thesis using Some assms(1) by (auto simp: dir_fits_def)
  qed
  then obtain c s' where m: "made h p n c s s'"
    "s' = s \<and> f c \<or> is_private s' c \<and> (\<forall>m. entry_at s' c m = None)" by blast
  show ?thesis
    using that [OF m(1) made_own [OF m(1)] _ made_tree [OF m(1) assms(3)] m(2)]
      made_own [OF m(1)] is_dir_range by (simp add: own_dir_def)
qed

lemma dir_fits_fresh: "entry_at s p n = None \<Longrightarrow> dir_fits h s p n f"
  by (simp add: dir_fits_def)

lemma own_dir_set_mode: "own_dir h (set_mode c m s) i \<longleftrightarrow> own_dir h s i"
proof (cases "i < length s")
  case True
  then show ?thesis using set_mode_keeps(3) [of s c m] by (auto simp: own_dir_def fair_def)
qed (use is_dir_range set_mode_keeps(1) in \<open>fastforce simp: own_dir_def\<close>)

lemma dir_fits_set_mode: "dir_fits h (set_mode c m s) p n f \<longleftrightarrow> dir_fits h s p n f"
  by (simp add: dir_fits_def set_mode_keeps own_dir_set_mode split: option.split)

lemma dir_fits_made:
  assumes "made h p0 n0 c0 s s'" "dir_fits h s p n f" "(p, n) \<noteq> (p0, n0)" "\<And>c. f c \<Longrightarrow> f' c"
  shows "dir_fits h s' p n f'"
  using assms made_elsewhere [OF assms(1,3)] made_keeps(1) [OF assms(1)]
  by (auto simp: dir_fits_def split: option.splits intro: own_dir_fair)

lemma dir_fits_made_True:
  assumes "made h p0 n0 c0 s s'" "dir_fits h s p n (\<lambda>_. True)"
  shows "dir_fits h s' p n (\<lambda>_. True)"
proof (cases "(p, n) = (p0, n0)")
  case True
  then show ?thesis using made_here [OF assms(1)] made_own [OF assms(1)] by (simp add: dir_fits_def)
qed (rule dir_fits_made [OF assms])

lemma own_dir_dir: "own_dir h s i \<Longrightarrow> is_dir s i"
  by (simp add: own_dir_def)

lemma root_grows:
  assumes "dir_fits_root h s3 p" "own_dir h s3 p" "tree_like s3"
  obtains q v x s4 s5 s6 where "made h p ''tmp'' q (set_mode p 0x1c0 s3) s4" "q < length s4"
    "made h p ''var'' v (set_mode q 0x3ff s4) s5" "v < length s5"
    "made h v ''tmp'' x (set_mode v 0x1c0 s5) s6" "x < length s6"
proof -
  have p: "dir_fits h (set_mode p 0x1c0 s3) p ''tmp'' (\<lambda>_. True)" "is_dir (set_mode p 0x1c0 s3) p"
      "tree_like (set_mode p 0x1c0 s3)" "own_dir h (set_mode p 0x1c0 s3) p"
    and var: "dir_fits h (set_mode p 0x1c0 s3) p ''var''
        (\<lambda>v. dir_fits h (set_mode p 0x1c0 s3) v ''tmp'' (\<lambda>_. True))"
    using assms by (auto simp: dir_fits_root_def dir_fits_set_mode set_mode_keeps own_dir_set_mode intro: own_dir_dir)
  obtain q s4 where 4: "made h p ''tmp'' q (set_mode p 0x1c0 s3) s4" "q < length s4" "tree_like s4"
    by (rule made_next [OF p(1-3)], rule that)
  have own: "own_dir h s4 p" using own_dir_fair [OF p(4) made_keeps(1) [OF 4(1)]] .
  have "dir_fits h s4 p ''var'' (\<lambda>v. dir_fits h s4 v ''tmp'' (\<lambda>_. True))"
    using dir_fits_made [OF 4(1) var] dir_fits_made_True [OF 4(1)] by simp
  then have q: "dir_fits h (set_mode q 0x3ff s4) p ''var''
        (\<lambda>v. dir_fits h (set_mode q 0x3ff s4) v ''tmp'' (\<lambda>_. True))" "is_dir (set_mode q 0x3ff s4) p"
      "tree_like (set_mode q 0x3ff s4)"
    using own 4(3) by (auto simp: dir_fits_set_mode set_mode_keeps own_dir_set_mode intro: own_dir_dir [of h])
  obtain v s5 where 5: "made h p ''var'' v (set_mode q 0x3ff s4) s5" "own_dir h s5 v" "v < length s5"
      "tree_like s5" and "s5 = set_mode q 0x3ff s4 \<and> dir_fits h (set_mode q 0x3ff s4) v ''tmp'' (\<lambda>_. True) \<or>
        is_private s5 v \<and> (\<forall>m. entry_at s5 v m = None)"
    by (rule made_next [OF q], rule that)
  then have "dir_fits h s5 v ''tmp'' (\<lambda>_. True)" using dir_fits_fresh by (auto simp: dir_fits_set_mode)
  then have v: "dir_fits h (set_mode v 0x1c0 s5) v ''tmp'' (\<lambda>_. True)" "is_dir (set_mode v 0x1c0 s5) v"
      "tree_like (set_mode v 0x1c0 s5)"
    using 5 by (auto simp: dir_fits_set_mode set_mode_keeps own_dir_set_mode intro: own_dir_dir [of h])
  obtain x s6 where 6: "made h v ''tmp'' x (set_mode v 0x1c0 s5) s6" "x < length s6"
    by (rule made_next [OF v], rule that)
  show ?thesis using that 4(1,2) 5(1,3) 6 by blast
qed

lemma ready_grows:
  assumes "ready h ip s b" "tree_like s" "h_home h s = Inr b"
  shows "\<exists>fds s'. grown_tree h ip s fds s'"
proof -
  have b: "dir_fits h s b ''.world'' (\<lambda>w. is_private s w \<and>
      dir_fits h s w ''tmp'' (\<lambda>t. is_private s t \<and> dir_fits h s t (show_ip ip) (dir_fits_root h s)))" "is_dir s b"
    using assms(1) by (simp_all add: ready_def)
  obtain w s1 where 1: "made h b ''.world'' w s s1" "own_dir h s1 w" "w < length s1" "tree_like s1"
    and "s1 = s \<and> (is_private s w \<and> dir_fits h s w ''tmp'' (\<lambda>t. is_private s t \<and>
        dir_fits h s t (show_ip ip) (dir_fits_root h s))) \<or> is_private s1 w \<and> (\<forall>m. entry_at s1 w m = None)"
    by (rule made_next [OF b assms(2)], rule that)
  then have w: "is_private s1 w"
      "dir_fits h s1 w ''tmp'' (\<lambda>t. is_private s1 t \<and> dir_fits h s1 t (show_ip ip) (dir_fits_root h s1))" "is_dir s1 w"
    using dir_fits_fresh by (blast, blast, simp add: own_dir_def)
  obtain t s2 where 2: "made h w ''tmp'' t s1 s2" "own_dir h s2 t" "t < length s2" "tree_like s2"
    and "s2 = s1 \<and> (is_private s1 t \<and> dir_fits h s1 t (show_ip ip) (dir_fits_root h s1)) \<or>
       is_private s2 t \<and> (\<forall>m. entry_at s2 t m = None)"
    by (rule made_next [OF w(2,3) 1(4)], rule that)
  then have t: "is_private s2 t" "dir_fits h s2 t (show_ip ip) (dir_fits_root h s2)" "is_dir s2 t"
    using dir_fits_fresh by (blast, blast, simp add: own_dir_def)
  obtain p s3 where 3: "made h t (show_ip ip) p s2 s3" "own_dir h s3 p" "p < length s3" "tree_like s3"
    and "s3 = s2 \<and> dir_fits_root h s2 p \<or> is_private s3 p \<and> (\<forall>m. entry_at s3 p m = None)"
    by (rule made_next [OF t(2,3) 2(4)], rule that)
  then have root: "dir_fits_root h s3 p" unfolding dir_fits_root_def using dir_fits_fresh by blast
  obtain q v x s4 s5 s6 where "made h p ''tmp'' q (set_mode p 0x1c0 s3) s4" "q < length s4"
    "made h p ''var'' v (set_mode q 0x3ff s4) s5" "v < length s5"
    "made h v ''tmp'' x (set_mode v 0x1c0 s5) s6" "x < length s6"
    by (rule root_grows [OF root 3(2,4)], rule that)
  then show ?thesis
    unfolding grown_tree_def split_paired_Ex prod.case
    using assms(3) 1(1,3) w(1) 2(1,3) t(1) 3(1,3) by blast
qed

text \<open>
  When no other process interferes and no call fails by itself, the call succeeds if
  every one of the six directories that is there already is a directory of this user, the two
  shared ones are not writable by others, and the name of the root is canonical; whatever the
  umask.
\<close>

theorem tree_succeeds:
  assumes "quiet h" "tree_like (t_store st)" "nul \<notin> set home" "h_home h (t_store st) = Inr b"
    and "ready h ip (t_store st) b" and "\<And>s. h_canon h s (root_for home ip) = Inr (root_for home ip)"
  shows "\<exists>st'. temp_root_fds h home ip st = (st', Inr (root_for home ip))"
proof -
  obtain fds s' where "grown_tree h ip (t_store st) fds s'" using ready_grows [OF assms(5,2,4)] by blast
  then show ?thesis
    using temp_root_leads [OF assms(1,3), of ip] assms(6) unfolding leads_def by blast
qed

text \<open>A second run changes nothing.\<close>

lemma set_mode_same: "mode_at s c = m \<Longrightarrow> set_mode c m s = s"
proof -
  assume "mode_at s c = m"
  then have "(s ! c)\<lparr>i_mode := m\<rparr> = s ! c" by (cases "s ! c") (simp add: mode_at_def)
  then show "set_mode c m s = s" by (simp add: set_mode_def)
qed

lemma entry_dir: "entry_at s i n = Some c \<Longrightarrow> is_dir s i"
  by (cases "entries s i") (auto simp: entry_at_def is_dir_def)

theorem tree_again:
  assumes "quiet h" "tree_like (t_store st)" "temp_root_fds h home ip st = (st', Inr root)"
    and "h_home h (t_store st') = h_home h (t_store st)" and "t_store st2 = t_store st'"
  shows "\<exists>st3. temp_root_fds h home ip st2 = (st3, Inr root) \<and> t_store st3 = t_store st'"
proof -
  have home: "nul \<notin> set home" using assms(3) by (auto simp: temp_root_fds_def stop_def split: if_splits)
  let ?s = "t_store st'"
  from temp_root_leads [OF assms(1) home, of ip] assms(3)
  obtain b w t p q v x where root: "root = root_for home ip"
      "\<exists>c. h_canon h ?s root = Inr c \<and> components c = components root"
    and g: "grown_tree h ip (t_store st) (b, w, t, p, q, v, x) ?s"
    unfolding leads_def by (metis prod_cases7)
  note e = grown_tree_entries(3,4) [OF g assms(2)]
  note modes = grown_tree_modes [OF g assms(2)]
  have again: "made h i n c ?s ?s \<and> c < length ?s" if "((i, n), c) \<in> set (places ip (b, w, t, p, q, v, x))"
    for i n c
    using e [OF that] entry_dir is_dir_range [OF own_dir_dir] by (auto simp: made_def)
  have "h_home h ?s = Inr b" using g assms(4) by (simp add: grown_tree_def)
  then have "grown_tree h ip ?s (b, w, t, p, q, v, x) ?s"
    using again modes(1,2) set_mode_same [OF modes(3)] set_mode_same [OF modes(4)]
      set_mode_same [OF modes(5)] set_mode_same [OF modes(6)]
    unfolding grown_tree_def prod.case places_def by (simp, metis)
  then show ?thesis
    using temp_root_leads [OF assms(1) home, of ip] root assms(5) unfolding leads_def by metis
qed

section \<open>The registry's view\<close>

text \<open>
  What the registry sees of the root for an address: missing, there, or there with the marker of
  an owner.
\<close>

definition root_ino :: "store \<Rightarrow> ino \<Rightarrow> ip4 \<Rightarrow> ino option" where
  "root_ino s b ip =
     Option.bind (entry_at s b ''.world'') (\<lambda>w.
     Option.bind (entry_at s w ''tmp'') (\<lambda>t. entry_at s t (show_ip ip)))"

definition marker :: "store \<Rightarrow> ino \<Rightarrow> bytes option" where
  "marker s f =
     (if f < length s then (case i_kind (s ! f) of Regular_File owner \<Rightarrow> Some owner | _ \<Rightarrow> None) else None)"

definition root_view :: "store \<Rightarrow> ino \<Rightarrow> ip4 \<Rightarrow> root_state" where
  "root_view s b ip =
     (case root_ino s b ip of
        None \<Rightarrow> Absent
      | Some p \<Rightarrow>
          (case Option.bind (entry_at s p ''owner'') (marker s) of
             Some owner \<Rightarrow> Owned owner
           | None \<Rightarrow> Unmarked))"

text \<open>The root of \<open>ip\<close> may have appeared; nothing else that the registry sees has changed.\<close>

definition root_step :: "ino \<Rightarrow> ip4 \<Rightarrow> store \<Rightarrow> store \<Rightarrow> bool" where
  "root_step b ip s s' \<longleftrightarrow>
     (\<forall>ip'. root_view s' b ip' = root_view s b ip' \<or>
        show_ip ip' = show_ip ip \<and> root_view s b ip' = Absent \<and> root_view s' b ip' = Unmarked)"

lemma root_stepD:
  "root_step b ip s s' \<Longrightarrow> root_view s' b ip' = root_view s b ip' \<or>
     show_ip ip' = show_ip ip \<and> root_view s b ip' = Absent \<and> root_view s' b ip' = Unmarked"
  by (simp only: root_step_def)

lemma root_step_refl: "root_step b ip s s"
  by (simp add: root_step_def)

lemma root_step_trans: "root_step b ip s s' \<Longrightarrow> root_step b ip s' s'' \<Longrightarrow> root_step b ip s s''"
  unfolding root_step_def by (metis root_state.distinct(1))

lemma root_step_add:
  assumes "is_dir s p" "entry_at s p n = None" "tree_like s" "n \<noteq> ''owner''"
    and names: "\<And>ip'. n = show_ip ip' \<Longrightarrow> n = show_ip ip"
  shows "root_step b ip s (add_entry p n (new_dir h 0x1c0) s)"
proof -
  let ?s = "add_entry p n (new_dir h 0x1c0) s"
  have e: "entry_at ?s i m = (if i = p \<and> m = n then Some (length s) else entry_at s i m)" for i m
    using assms(1) by (simp add: entry_at_add new_dir_def)
  have new: "entry_at ?s (length s) m = None" for m
    using e is_dir_range [OF assms(1)] by (simp add: entry_at_def entries_def)
  have kind: "marker ?s f = marker s f" if "f < length s" for f
    using that assms(1)
    by (cases "f = p")
      (auto simp: marker_def add_entry_def is_dir_def entries_def nth_append
        split: option.splits if_splits inode_kind.splits)
  have closed: "f < length s" if "entry_at s i m = Some f" for i m f
    using that assms(3) by (auto simp: tree_like_def)
  have keep: "entry_at ?s i m = Some c" if "entry_at s i m = Some c" for i m c
    using that assms(2) by (auto simp: e)
  have owner: "root_view ?s b ip' = root_view s b ip'" if r: "root_ino s b ip' = Some r" for ip' r
  proof -
    from r obtain w t where "entry_at s b ''.world'' = Some w" "entry_at s w ''tmp'' = Some t"
      "entry_at s t (show_ip ip') = Some r"
      by (auto simp: root_ino_def bind_eq_Some_conv)
    then have "root_ino ?s b ip' = Some r" by (simp add: root_ino_def keep)
    moreover have "entry_at ?s r ''owner'' = entry_at s r ''owner''" using assms(4) by (simp add: e)
    ultimately show ?thesis
      using r closed [of r "''owner''"] kind
      by (cases "entry_at s r ''owner''") (simp_all add: root_view_def)
  qed
  have ino_new: "root_ino ?s b ip' = None \<or> n = show_ip ip' \<and> root_ino ?s b ip' = Some (length s)"
    if none: "root_ino s b ip' = None" for ip'
  proof (cases "entry_at s b ''.world''")
    case None
    then show ?thesis using new by (simp add: root_ino_def e [of b])
  next
    case (Some w)
    then show ?thesis
    proof (cases "entry_at s w ''tmp''")
      case None
      then show ?thesis using new keep [OF Some] by (simp add: root_ino_def e [of w])
    next
      case (Some t)
      then show ?thesis
        using none keep [OF \<open>entry_at s b ''.world'' = Some w\<close>] keep [OF Some] \<open>entry_at s b ''.world'' = Some w\<close>
        by (simp add: root_ino_def e [of t])
    qed
  qed
  have fresh: "root_view ?s b ip' = Absent \<or> n = show_ip ip' \<and> root_view ?s b ip' = Unmarked"
    if "root_ino s b ip' = None" for ip'
    using ino_new [OF that] new by (auto simp: root_view_def)
  show ?thesis
    unfolding root_step_def
  proof
    fix ip'
    show "root_view ?s b ip' = root_view s b ip' \<or> show_ip ip' = show_ip ip \<and>
        root_view s b ip' = Absent \<and> root_view ?s b ip' = Unmarked"
    proof (cases "root_ino s b ip'")
      case None
      then have "root_view s b ip' = Absent" by (simp add: root_view_def)
      then show ?thesis using fresh [OF None] names [of ip'] by auto
    qed (use owner in blast)
  qed
qed

lemma root_step_made:
  assumes "made h p n c s s'" "tree_like s" "n \<noteq> ''owner''" "\<And>ip'. n = show_ip ip' \<Longrightarrow> n = show_ip ip"
  shows "root_step b ip s s'"
  using assms root_step_add [of s p n ip b h] root_step_refl
  by (auto simp: made_def split: if_splits)

lemma root_view_set_mode: "root_view (set_mode c m s) = root_view s"
proof -
  have "i_kind (set_mode c m s ! f) = i_kind (s ! f)" if "f < length s" for f
    using that by (cases "f = c") (simp_all add: set_mode_def)
  then have "marker (set_mode c m s) = marker s"
    by (intro ext) (simp add: marker_def set_mode_keeps)
  then show ?thesis by (intro ext) (simp add: root_view_def root_ino_def set_mode_keeps split: option.split)
qed

definition calm :: "kernel \<Rightarrow> bool" where
  "calm h \<longleftrightarrow> (\<forall>k s. h_others h k s = s)"

text \<open>What is known during a run: how far the registry's view has moved, and the entries found.\<close>

definition seen :: "ino \<Rightarrow> ip4 \<Rightarrow> store \<Rightarrow> ((ino \<times> bytes) \<times> ino) set \<Rightarrow> tree_state \<Rightarrow> bool" where
  "seen b ip s K st \<longleftrightarrow>
     root_step b ip s (t_store st) \<and> tree_like (t_store st) \<and>
     (\<forall>((i, n), c) \<in> K. entry_at (t_store st) i n = Some c)"

lemma seen_same: "t_store st' = t_store st \<Longrightarrow> seen b ip s K st' = seen b ip s K st"
  by (simp add: seen_def)

lemma call_seen:
  assumes "calm h"
    and "\<And>e. case classify e of Inl e' \<Rightarrow> True | Inr a \<Rightarrow> \<forall>st. seen b ip s K st \<longrightarrow> Q a st"
    and "\<And>st s' evs a. seen b ip s K st \<Longrightarrow> call (t_store st) = Inr (s', evs, a) \<Longrightarrow>
      Q a (st\<lparr>t_store := s', t_log := t_log st @ evs\<rparr>)"
  shows "run_spec (seen b ip s K) (syscall h classify call) Q (seen b ip s {})"
proof (rule run_spec_syscall [where I = "seen b ip s K"])
  show "case classify e of Inl e' \<Rightarrow> seen b ip s {} st | Inr a \<Rightarrow> Q a st" if "seen b ip s K st" for st e
    using assms(2) [of e] that by (auto simp: seen_def split: sum.splits)
qed (use assms(1,3) in \<open>auto simp: calm_def seen_def\<close>)

lemma step_seen:
  assumes "calm h" "n \<noteq> ''owner''" "\<And>ip'. n = show_ip ip' \<Longrightarrow> n = show_ip ip"
  shows "run_spec (seen b ip s K) (step_dir h p n 0x1c0) (\<lambda>c. seen b ip s (insert ((p, n), c) K)) (seen b ip s {})"
proof -
  have mk: "run_spec (seen b ip s K)
      (syscall h (\<lambda>e. if e = EEXIST then Inr () else Inl (Sys e)) (mkdirat h p n 0x1c0))
      (\<lambda>_. seen b ip s K) (seen b ip s {})"
  proof (rule call_seen [OF assms(1)])
    fix st s' evs a
    assume st: "seen b ip s K st" and call: "mkdirat h p n 0x1c0 (t_store st) = Inr (s', evs, a)"
    then have m: "made h p n (length (t_store st)) (t_store st) s'"
      by (auto simp: mkdirat_def made_def is_dir_def entry_at_def split: option.splits if_splits)
    show "seen b ip s K (st\<lparr>t_store := s', t_log := t_log st @ evs\<rparr>)"
      using st root_step_made [OF m _ assms(2,3)] made_tree [OF m] sub_entriesD [OF made_sub [OF m]]
      by (fastforce simp: seen_def intro: root_step_trans)
  qed auto
  have op: "run_spec (seen b ip s K) (syscall h classify (openat p n))
      (\<lambda>c. seen b ip s (insert ((p, n), c) K)) (seen b ip s {})" if "\<And>e. \<exists>e'. classify e = Inl e'" for classify
  proof (rule call_seen [OF assms(1)])
    show "case classify e of Inl e' \<Rightarrow> True | Inr a \<Rightarrow>
        \<forall>st. seen b ip s K st \<longrightarrow> seen b ip s (insert ((p, n), a) K) st" for e
      using that [of e] by auto
  qed (auto simp: openat_def seen_def entry_at_def split: option.splits if_splits inode_kind.splits)
  have fs: "run_spec (seen b ip s K') (syscall h plain_error (fstat c)) (\<lambda>_. seen b ip s K') (seen b ip s {})"
    for c K'
    by (rule call_seen [OF assms(1)]) (auto simp: plain_error_def fstat_def seen_def split: if_splits)
  show ?thesis
    unfolding step_dir_def
    by (intro run_spec_if run_spec_stop run_spec_bind [OF mk] run_spec_bind [OF op] run_spec_bind [OF fs] run_spec_done)
      (auto simp: seen_def)
qed

lemma chmod_seen:
  assumes "calm h"
  shows "run_spec (seen b ip s K) (chmod_dir h fd m) (\<lambda>_. seen b ip s K) (seen b ip s {})"
  unfolding chmod_dir_def
proof (rule call_seen [OF assms])
  fix st s' evs a
  assume st: "seen b ip s K st" and call: "fchmod fd m (t_store st) = Inr (s', evs, a)"
  then have "s' = set_mode fd m (t_store st)" by (auto simp: fchmod_def set_mode_def split: if_splits)
  then show "seen b ip s K (st\<lparr>t_store := s', t_log := t_log st @ evs\<rparr>)"
    using st by (simp add: seen_def set_mode_keeps root_step_def root_view_set_mode)
qed (simp add: plain_error_def)

lemma private_seen:
  assumes "calm h"
  shows "run_spec (seen b ip s K) (require_private h fd) (\<lambda>_. seen b ip s K) (seen b ip s {})"
  unfolding require_private_def
  by (rule run_spec_bind [where Q = "\<lambda>_. seen b ip s K"], rule call_seen [OF assms])
    (auto simp: plain_error_def fstat_def seen_def split: if_splits intro!: run_spec_if run_spec_stop run_spec_done)

lemma canonicalize_seen:
  assumes "calm h"
  shows "run_spec (seen b ip s K) (canonicalize h p) (\<lambda>_. seen b ip s K) (seen b ip s {})"
  unfolding canonicalize_def
  by (rule call_seen [OF assms]) (auto simp: plain_error_def seen_def map_sum_Inr)

lemma temp_root_seen:
  assumes h: "calm h" and home: "h_home h s = Inr b"
  shows "run_spec (\<lambda>st. t_store st = s \<and> tree_like s) (temp_root_fds h home ip)
      (\<lambda>r st. r = root_for home ip \<and> root_step b ip s (t_store st) \<and> root_view (t_store st) b ip \<noteq> Absent)
      (\<lambda>st. root_step b ip s (t_store st))"
proof -
  have weak: "run_spec P r Q (\<lambda>st. root_step b ip s (t_store st))" if "run_spec P r Q (seen b ip s {})"
    for P r and Q :: "bytes \<Rightarrow> tree_state \<Rightarrow> bool"
    using that by (fastforce simp: run_spec_def seen_def split: sum.splits)
  have start: "run_spec (\<lambda>st. t_store st = s \<and> tree_like s) (open_home h)
      (\<lambda>i st. seen b ip s {} st \<and> i = b) (seen b ip s {})"
    unfolding open_home_def
    by (rule run_spec_syscall [where I = "\<lambda>st. t_store st = s \<and> tree_like s"])
      (use h home in \<open>auto simp: calm_def plain_error_def seen_def root_step_refl map_sum_Inr\<close>)
  have stepped: "run_spec (seen b ip s K) (bind_run (step_dir h fd n 0x1c0) f) Q (seen b ip s {})"
    if "\<And>c. run_spec (seen b ip s (insert ((fd, n), c) K)) (f c) Q (seen b ip s {})"
      "n \<noteq> ''owner''" "\<And>ip'. n = show_ip ip' \<Longrightarrow> n = show_ip ip"
    for K fd n f and Q :: "bytes \<Rightarrow> tree_state \<Rightarrow> bool"
    using run_spec_bind [OF step_seen [OF h that(2,3)] that(1)] .
  have kept: "run_spec (seen b ip s K) (bind_run (require_private h fd) (\<lambda>_. f)) Q (seen b ip s {})"
      "run_spec (seen b ip s K) (bind_run (chmod_dir h fd m) (\<lambda>_. f)) Q (seen b ip s {})"
    if "run_spec (seen b ip s K) f Q (seen b ip s {})"
    for K fd m f and Q :: "bytes \<Rightarrow> tree_state \<Rightarrow> bool"
    using run_spec_bind [OF private_seen [OF h] that] run_spec_bind [OF chmod_seen [OF h] that] .
  note names = show_ip_neq [THEN not_sym]
  show ?thesis
    unfolding temp_root_fds_def Let_def
    by (rule weak, intro run_spec_if run_spec_stop run_spec_bind [OF start] run_spec_fact stepped kept
        run_spec_bind [OF canonicalize_seen [OF h]] run_spec_done)
      (use names in \<open>auto simp: seen_def root_step_refl root_view_def root_ino_def split: option.splits\<close>)
qed

lemma root_for_same:
  "components (root_for home i1) = components (root_for home i2) \<longleftrightarrow> show_ip i1 = show_ip i2"
proof -
  have "join_path home ''.world/tmp'' =
      (home @ (if home = [] \<or> ends_with home ''/'' then ''.world/'' else ''/.world/'')) @ ''tmp''"
    by (simp add: join_path_def is_absolute_def starts_with_iff)
  then obtain x where x: "join_path home ''.world/tmp'' = x" "x \<noteq> []" "\<not> ends_with x ''/''"
    by (auto simp: ends_with_iff)
  have ip: "\<not> is_absolute (show_ip ip)" "slash \<notin> set (show_ip ip)" "comp_of (show_ip ip) = [Normal (show_ip ip)]"
    for ip
  proof -
    show "slash \<notin> set (show_ip ip)"
      using show_dec_digits [of slash] by (cases ip) (auto simp: show_ip_def between_def)
    then show "\<not> is_absolute (show_ip ip)" by (auto simp: is_absolute_def starts_with_iff)
    show "comp_of (show_ip ip) = [Normal (show_ip ip)]"
      using show_ip_facts(1,2) [of ip] by (auto simp: between_def)
  qed
  have root: "root_for home ip = x @ slash # show_ip ip" for ip
    using ip(1) [of ip] x by (simp add: root_for_def join_path_def [of x])
  have "components (root_for home ip) = components x @ [Normal (show_ip ip)]" for ip
  proof -
    have "split_on slash (x @ slash # show_ip ip) = split_on slash x @ [show_ip ip]"
      using ip(2) [of ip] by (simp add: split_on_append_sep split_on_no_sep)
    moreover have "starts_with (x @ slash # show_ip ip) ''/'' \<longleftrightarrow> starts_with x ''/''"
      using x(2) by (cases x) (auto simp: starts_with_iff)
    ultimately show ?thesis
      using root [of ip] ip(3) [of ip] split_on_not_Nil [of slash x]
      by (simp add: components_def hd_append del: comp_of.simps)
  qed
  then show ?thesis by simp
qed

text \<open>
  C35 (refinement). The registry's model of \<^verbatim>\<open>temp_root_in\<close> is what the descriptors do: when no other
  process interferes and whichever calls fail, the registry's disk, kept in step with the store at
  all roots of the home directory before the call, is in step with it afterwards, with the same
  answer.
\<close>

theorem tree_refines_registry:
  assumes "calm h" "tree_like (t_store st)" "h_home h (t_store st) = Inr b"
    and run: "temp_root_fds h home ip st = (st', r)"
    and before: "\<And>ip'. root_at d (root_for home ip') = root_view (t_store st) b ip'"
    and env: "e_harden v (root_for home ip) = (case r of Inl _ \<Rightarrow> Some e | Inr _ \<Rightarrow> None)"
      "e_left v (root_for home ip) \<longleftrightarrow> root_view (t_store st') b ip \<noteq> Absent"
  shows "\<exists>d'. Registry.temp_root_in v home ip d = (d', map_sum (\<lambda>_. e) (\<lambda>root. root) r) \<and>
    (\<forall>ip'. root_at d' (root_for home ip') = root_view (t_store st') b ip')"
proof -
  let ?s = "t_store st" and ?s' = "t_store st'" and ?root = "root_for home ip"
  have end_of: "root_step b ip ?s ?s'" "r = Inr x \<Longrightarrow> x = ?root \<and> root_view ?s' b ip \<noteq> Absent" for x
    using run_specD [OF temp_root_seen [OF assms(1,3)] _ run] assms(2) by (auto split: sum.splits)
  have same: "components (root_for home ip') = components ?root \<longleftrightarrow> show_ip ip' = show_ip ip" for ip'
    by (rule root_for_same)
  have view: "root_view t b ip' = root_view t b ip" if "show_ip ip' = show_ip ip" for t ip'
    using that by (simp add: root_view_def root_ino_def)
  define d' where "d' = (if root_view ?s' b ip \<noteq> Absent then make_root ?root d else d)"
  have "root_at d' (root_for home ip') = root_view ?s' b ip'" for ip'
  proof (cases "show_ip ip' = show_ip ip")
    case True
    then show ?thesis
      using root_stepD [OF end_of(1), of ip] view [OF True] same [of ip'] before [of ip]
      by (auto simp: d'_def make_root_def root_at_def set_root_def)
  next
    case False
    then show ?thesis
      using root_stepD [OF end_of(1), of ip'] before [of ip'] same [of ip']
      by (auto simp: d'_def make_root_def root_at_def set_root_def)
  qed
  moreover have "Registry.temp_root_in v home ip d = (d', map_sum (\<lambda>_. e) (\<lambda>root. root) r)"
    using env end_of(2)
    by (auto simp: temp_root_in_def d'_def bind_act_def writes_def fail_def ret_def split: sum.splits)
  ultimately show ?thesis by blast
qed

section \<open>A first workspace\<close>

abbreviation run0 :: "tree_state \<times> (tree_error + bytes)" where
  "run0 \<equiv> temp_root_fds kernel0 ''/h'' (127, 77, 0, 1) start0"

definition bare_env :: env where
  "bare_env =
     \<lparr>e_os = Linux, e_home_var = None, e_canon = Some, e_is_dir = (\<lambda>_. True), e_alias_ready = (\<lambda>_. True),
      e_random = [], e_harden = (\<lambda>_. None), e_left = (\<lambda>_. True), e_lock = None, e_read = None,
      e_persist = (\<lambda>_. None), e_marker = (\<lambda>_. None)\<rparr>"

definition bare_disk :: disk where
  "bare_disk = \<lparr>d_states = (\<lambda>_. \<lparr>r_records = [], r_id = None\<rparr>), d_roots = (\<lambda>_. Absent)\<rparr>"

lemma kernel0_quiet: "quiet kernel0" "calm kernel0"
  by (simp_all add: quiet_def calm_def kernel0_def)

lemma start0_empty: "entry_at (t_store start0) i n = None" "is_dir (t_store start0) 0"
    "h_home kernel0 (t_store start0) = Inr 0"
  by (simp_all add: start0_def entry_at_def entries_def is_dir_def kernel0_def)

lemma start0_tree: "tree_like (t_store start0)"
  by (simp add: tree_like_def start0_empty)

lemma run0_ok: "run0 = (fst run0, Inr ''/h/.world/tmp/127.77.0.1'')"
proof -
  have "snd run0 = Inr ''/h/.world/tmp/127.77.0.1''" by code_simp
  then show ?thesis by (metis prod.collapse)
qed

theorem tree_built_witness:
  "\<exists>p. own_dir kernel0 (t_store (fst run0)) p \<and> mode_at (t_store (fst run0)) p = 0x1c0"
  using tree_built [OF kernel0_quiet(1) start0_tree run0_ok] by (auto simp: places_def)

theorem tree_succeeds_witness:
  "\<exists>st'. run0 = (st', Inr (root_for ''/h'' (127, 77, 0, 1)))"
  by (rule tree_succeeds [OF kernel0_quiet(1) start0_tree _ start0_empty(3)])
    (simp_all add: ready_def start0_empty dir_fits_def, simp add: kernel0_def)

theorem tree_refines_registry_witness:
  "\<exists>d'. Registry.temp_root_in bare_env ''/h'' (127, 77, 0, 1) bare_disk =
       (d', Inr ''/h/.world/tmp/127.77.0.1'') \<and>
     root_at d' (root_for ''/h'' (127, 77, 0, 1)) = Unmarked"
proof -
  have view: "root_view (t_store (fst run0)) 0 (127, 77, 0, 1) = Unmarked" by code_simp
  have "root_at bare_disk (root_for ''/h'' ip') = root_view (t_store start0) 0 ip'" for ip'
    by (simp add: root_at_def bare_disk_def root_view_def root_ino_def start0_empty)
  then show ?thesis
    using tree_refines_registry [OF kernel0_quiet(2) start0_tree start0_empty(3) run0_ok, of bare_disk bare_env] view
    by (auto simp: bare_env_def)
qed

end
