(* ===== verification/Seccomp.thy ===== *)
theory Seccomp
  imports Prelude
begin

unbundle bit_operations_syntax

text \<open>
  The system call filter of a policed workload: \<^verbatim>\<open>mod seccomp\<close> of
  \<^verbatim>\<open>crates/world-runtime/src/linux.rs\<close>, a program for the packet filter machine of the kernel, and
  the evaluator of that machine that the source has beside it. The numbers of the system calls
  and of the socket constants come from the C library and differ between the platforms: they are
  the record \<open>libc\<close>, a parameter.
\<close>

section \<open>Instructions\<close>

record sock_filter =
  f_code :: u16
  f_jt :: u8
  f_jf :: u8
  f_k :: u32

record libc =
  SYS_socket :: u32
  SYS_socketpair :: u32
  SYS_io_uring_setup :: u32
  SYS_keyctl :: u32
  SYS_add_key :: u32
  SYS_request_key :: u32
  AF_INET :: u32
  AF_INET6 :: u32
  AF_NETLINK :: u32
  SOCK_STREAM :: u32
  SOCK_SEQPACKET :: u32
  SOCK_NONBLOCK :: u32
  SOCK_CLOEXEC :: u32
  EACCES_nr :: u32
  EPERM_nr :: u32

definition LD_W_ABS :: u16 where "LD_W_ABS = 0x20"
definition JEQ_K :: u16 where "JEQ_K = 0x15"
definition JGE_K :: u16 where "JGE_K = 0x35"
definition AND_K :: u16 where "AND_K = 0x54"
definition RET_K :: u16 where "RET_K = 0x06"
definition RET_KILL_PROCESS :: u32 where "RET_KILL_PROCESS = 0x80000000"
definition RET_ERRNO :: u32 where "RET_ERRNO = 0x00050000"
definition RET_ALLOW :: u32 where "RET_ALLOW = 0x7fff0000"

lemmas opcodes = LD_W_ABS_def JEQ_K_def JGE_K_def AND_K_def RET_K_def

definition ins :: "u16 \<Rightarrow> u32 \<Rightarrow> u8 \<Rightarrow> u8 \<Rightarrow> sock_filter" where
  "ins c v t f = \<lparr>f_code = c, f_jt = t, f_jf = f, f_k = v\<rparr>"

section \<open>The filter\<close>

definition build_head :: "u32 \<Rightarrow> sock_filter list" where
  "build_head arch =
     [ins LD_W_ABS 4 0 0,
      ins JEQ_K arch 1 0,
      ins RET_K RET_KILL_PROCESS 0 0,
      ins LD_W_ABS 0 0 0]"

definition build_tail :: "libc \<Rightarrow> sock_filter list" where
  "build_tail c =
     (let flags = SOCK_NONBLOCK c OR SOCK_CLOEXEC c
      in [ins JEQ_K (SYS_socket c) 6 0,
          ins JEQ_K (SYS_socketpair c) 10 0,
          ins JEQ_K (SYS_io_uring_setup c) 15 0,
          ins JEQ_K (SYS_keyctl c) 14 0,
          ins JEQ_K (SYS_add_key c) 13 0,
          ins JEQ_K (SYS_request_key c) 12 0,
          ins RET_K RET_ALLOW 0 0,
          ins LD_W_ABS 16 0 0,
          ins JEQ_K (AF_INET c) 8 0,
          ins JEQ_K (AF_INET6 c) 7 0,
          ins JEQ_K (AF_NETLINK c) 6 0,
          ins RET_K (RET_ERRNO OR EACCES_nr c) 0 0,
          ins LD_W_ABS 24 0 0,
          ins AND_K (NOT flags) 0 0,
          ins JEQ_K (SOCK_STREAM c) 2 0,
          ins JEQ_K (SOCK_SEQPACKET c) 1 0,
          ins RET_K (RET_ERRNO OR EACCES_nr c) 0 0,
          ins RET_K RET_ALLOW 0 0,
          ins RET_K (RET_ERRNO OR EPERM_nr c) 0 0])"

definition build :: "libc \<Rightarrow> u32 \<Rightarrow> bool \<Rightarrow> sock_filter list" where
  "build c arch x32_guard =
     build_head arch @
     (if x32_guard then [ins JGE_K 0x40000000 18 0] else []) @
     build_tail c"

section \<open>The machine\<close>

text \<open>
  A load reads a word of the system call: its number, the architecture, the low word of the first
  or of the second argument. Everything that the kernel would refuse to run is a panic: an unknown
  instruction, another load, a jump beyond the end. Jumps only go forward, so a run ends.
\<close>

fun load :: "u32 \<Rightarrow> u32 \<Rightarrow> u32 \<Rightarrow> u32 \<Rightarrow> u32 \<Rightarrow> u32 option" where
  "load arch nr a0 a1 at =
     (if at = 0 then Some nr else if at = 4 then Some arch
      else if at = 16 then Some a0 else if at = 24 then Some a1 else None)"

function run_from :: "sock_filter list \<Rightarrow> (u32 \<Rightarrow> u32 option) \<Rightarrow> nat \<Rightarrow> u32 \<Rightarrow> u32 res" where
  "run_from prog ld pc acc =
     (if pc < length prog then
        (let i = prog ! pc; pc = pc + 1
         in if f_code i = LD_W_ABS then
              (case ld (f_k i) of None \<Rightarrow> Abort Panic | Some w \<Rightarrow> run_from prog ld pc w)
            else if f_code i = AND_K then run_from prog ld pc (acc AND f_k i)
            else if f_code i = RET_K then Ok (f_k i)
            else if f_code i = JEQ_K \<or> f_code i = JGE_K then
              (let taken = (if f_code i = JEQ_K then acc = f_k i else f_k i \<le> acc)
               in run_from prog ld (pc + unat (if taken then f_jt i else f_jf i)) acc)
            else Abort Panic)
      else Abort Panic)"
  by pat_completeness auto

termination by (relation "measure (\<lambda>(prog, ld, pc, acc). length prog - pc)") auto

declare run_from.simps [simp del]

definition run_filter :: "sock_filter list \<Rightarrow> u32 \<Rightarrow> u32 \<Rightarrow> u32 \<Rightarrow> u32 \<Rightarrow> u32 res" where
  "run_filter prog arch nr a0 a1 = run_from prog (load arch nr a0 a1) 0 0"

section \<open>One instruction at a time\<close>

text \<open>A run from the middle of a program only depends on the rest of it.\<close>

lemma run_from_append:
  "run_from (pre @ prog) ld (length pre + pc) acc = run_from prog ld pc acc"
proof (induction prog ld pc acc rule: run_from.induct)
  case (1 prog ld pc acc)
  show ?case
  proof (cases "pc < length prog")
    case True
    then show ?thesis
      using 1 [OF True refl refl]
      by (subst (1 2) run_from.simps) (auto simp: Let_def add.assoc nth_append split: option.split)
  next
    case False
    then show ?thesis by (subst (1 2) run_from.simps) simp
  qed
qed

lemma run_drop: "run_from prog ld n acc = run_from (drop n prog) ld 0 acc" if "n \<le> length prog"
  using run_from_append [of "take n prog" "drop n prog" ld 0 acc] that by simp

lemma run_ret: "run_from (ins RET_K v t f # rest) ld 0 acc = Ok v"
  by (subst run_from.simps) (simp add: ins_def opcodes)

lemma run_ld:
  "run_from (ins LD_W_ABS at t f # rest) ld 0 acc =
     (case ld at of None \<Rightarrow> Abort Panic | Some w \<Rightarrow> run_from rest ld 0 w)"
  by (subst run_from.simps) (simp add: ins_def opcodes run_drop [of "Suc 0"] split: option.split)

lemma run_and: "run_from (ins AND_K v t f # rest) ld 0 acc = run_from rest ld 0 (acc AND v)"
  by (subst run_from.simps) (simp add: ins_def opcodes run_drop [of "Suc 0"])

lemma run_jump:
  assumes "unat t \<le> length rest"
  shows "run_from (ins JEQ_K v t 0 # rest) ld 0 acc =
      (if acc = v then run_from (drop (unat t) rest) ld 0 acc else run_from rest ld 0 acc)"
    and "run_from (ins JGE_K v t 0 # rest) ld 0 acc =
      (if v \<le> acc then run_from (drop (unat t) rest) ld 0 acc else run_from rest ld 0 acc)"
  using assms
  by (subst run_from.simps, simp add: ins_def opcodes Let_def run_drop [of "Suc n" for n])+

lemmas run_simps = run_ret run_ld run_and run_jump

section \<open>What the filter decides\<close>

definition decision :: "libc \<Rightarrow> u32 \<Rightarrow> bool \<Rightarrow> u32 \<Rightarrow> u32 \<Rightarrow> u32 \<Rightarrow> u32 \<Rightarrow> u32" where
  "decision c arch x32_guard arch' nr a0 a1 =
     (if arch' \<noteq> arch then RET_KILL_PROCESS
      else if x32_guard \<and> 0x40000000 \<le> nr then RET_ERRNO OR EPERM_nr c
      else if nr = SYS_socket c then
        (if a0 \<in> {AF_INET c, AF_INET6 c, AF_NETLINK c} then RET_ALLOW else RET_ERRNO OR EACCES_nr c)
      else if nr = SYS_socketpair c then
        (if a1 AND NOT (SOCK_NONBLOCK c OR SOCK_CLOEXEC c) \<in> {SOCK_STREAM c, SOCK_SEQPACKET c}
         then RET_ALLOW else RET_ERRNO OR EACCES_nr c)
      else if nr \<in> {SYS_io_uring_setup c, SYS_keyctl c, SYS_add_key c, SYS_request_key c}
      then RET_ERRNO OR EPERM_nr c
      else RET_ALLOW)"

text \<open>The code at the four targets of the jumps on the number of the call.\<close>

lemma run_targets:
  shows "run_from (drop 7 (build_tail c)) ld 0 nr =
      (case ld 16 of
         None \<Rightarrow> Abort Panic
       | Some a \<Rightarrow> Ok (if a \<in> {AF_INET c, AF_INET6 c, AF_NETLINK c} then RET_ALLOW
                       else RET_ERRNO OR EACCES_nr c))"
    and "run_from (drop 12 (build_tail c)) ld 0 nr =
      (case ld 24 of
         None \<Rightarrow> Abort Panic
       | Some a \<Rightarrow>
           Ok (if a AND NOT (SOCK_NONBLOCK c OR SOCK_CLOEXEC c) \<in> {SOCK_STREAM c, SOCK_SEQPACKET c}
               then RET_ALLOW else RET_ERRNO OR EACCES_nr c))"
    and "run_from (drop 18 (build_tail c)) ld 0 nr = Ok (RET_ERRNO OR EPERM_nr c)"
  by (simp_all add: build_tail_def Let_def run_simps split: option.split)

lemma run_tail:
  "run_from (build_tail c) ld 0 nr =
     (if nr = SYS_socket c then run_from (drop 7 (build_tail c)) ld 0 nr
      else if nr = SYS_socketpair c then run_from (drop 12 (build_tail c)) ld 0 nr
      else if nr \<in> {SYS_io_uring_setup c, SYS_keyctl c, SYS_add_key c, SYS_request_key c}
      then run_from (drop 18 (build_tail c)) ld 0 nr
      else Ok RET_ALLOW)"
  by (simp add: build_tail_def Let_def run_jump run_ret)

lemma run_guarded:
  "run_from (ins JGE_K 0x40000000 18 0 # build_tail c) (load arch nr a0 a1) 0 nr =
     Ok (decision c arch True arch nr a0 a1)"
proof -
  have len: "length (build_tail c) = 19" by (simp add: build_tail_def)
  show ?thesis
    by (cases "0x40000000 \<le> nr") (simp_all add: run_jump len run_tail run_targets decision_def)
qed

text \<open>
  C38 (equivalence). For every system call, on both layouts and whatever the numbers of the platform,
  the filter runs to its end without a jump out of the program and decides as stated: another
  architecture is killed, the calls of the x32 table, io_uring and key management are refused, a
  socket is allowed only for the internet families and netlink, a socket pair only for connected
  types.
\<close>

theorem socket_filter_decides:
  "run_filter (build c arch x32_guard) arch' nr a0 a1 =
     Ok (decision c arch x32_guard arch' nr a0 a1)"
proof -
  have "run_filter (build c arch x32_guard) arch' nr a0 a1 =
      (if arch' = arch
       then run_from ((if x32_guard then [ins JGE_K 0x40000000 18 0] else []) @ build_tail c)
              (load arch' nr a0 a1) 0 nr
       else Ok RET_KILL_PROCESS)"
    unfolding run_filter_def build_def build_head_def
    by (simp only: append_Cons append_Nil run_ld) (simp add: run_simps)
  then show ?thesis
    by (auto simp: decision_def run_tail run_targets run_guarded)
qed

end
