(* ===== verification/Vm_Cycle.thy ===== *)
theory Vm_Cycle
  imports Registry Rng_Errno Runs
begin

text \<open>
  The life of a virtual machine workspace: \<^verbatim>\<open>create\<close>, \<^verbatim>\<open>setup\<close>, \<^verbatim>\<open>teardown\<close>, \<^verbatim>\<open>delete\<close>, \<^verbatim>\<open>exec\<close> and
  \<^verbatim>\<open>show\<close> of \<^verbatim>\<open>crates/world-runtime/src/apple_vm.rs\<close>, on the files of a state directory: the registry,
  and a journal for every machine. The machines belong to a provider, an external tool: which
  command it is given is logged together with its answer and with the journal that was on disk at
  that moment, and what it answers is a parameter, parsed. Every effect may fail, also because the
  process ends there: \<^verbatim>\<open>persist\<close> before or after its file is replaced, a lock, a read, a command.

  The operations on one machine exclude each other by its lock file, and the registry is changed
  under its own lock, so operations are taken one after the other.
\<close>

section \<open>Files\<close>

record vm =
  v_schema_version :: u32
  v_id :: bytes
  v_backend :: bytes
  v_execution_os :: bytes
  v_arch :: bytes
  v_instance_id :: bytes
  v_owner :: bytes
  v_image :: bytes
  v_cpus :: u32
  v_memory_mib :: u32

datatype vm_record = Native_Record | Vm_Record vm

datatype vm_phase = Created | Provisioning | Starting | Ready | Stopping | Stopped | Deleting | Legacy

record lifecycle =
  l_owner :: bytes
  l_phase :: vm_phase
  l_generation :: u64

section \<open>The provider\<close>

datatype command =
    Version | System_Status | List_All | List_Running
  | Inspect bytes
  | Create bytes vm
  | Start bytes
  | Install bytes
  | Probe bytes
  | Stop bytes
  | Delete bytes
  | Exec bytes bytes
  | Cancel_Exec bytes bytes
  | Exec_Status bytes bytes
  | Import bytes

record instance_of =
  n_label :: "bytes option"
  n_image :: "bytes option"
  n_state :: "bytes option"
  n_mounts :: "nat option"

record probe =
  p_protocol :: int
  p_uid :: int
  p_cgroup_kill :: bool
  p_import_protocol :: int

datatype provider_answer =
    Failed
  | Done
  | Names "bytes list"
  | Instances "instance_of list"
  | Probed probe
  | Interrupted
  | Report "bytes option" "int option"

text \<open>
  What the operation meets: the answers of the provider by their place in the log; which locks and
  reads fail, by what they are for and when; and which files cannot be written, with whether the
  file was replaced all the same.
\<close>

datatype site =
    Operation_Lock | Registry_Lock | Admission_Lock | Read_Registry | Read_Journal | Second_Wait | Snapshot

datatype file_of = Registry_File | Backup_File | Journal_File vm_phase

record world_around =
  a_answers :: "nat \<Rightarrow> command \<Rightarrow> provider_answer"
  a_persist :: "file_of \<Rightarrow> bool option"
  a_fails :: "site \<Rightarrow> nat \<Rightarrow> bool"
  a_supported :: bool
  a_random :: bytes

fun target :: "command \<Rightarrow> bytes option" where
  "target (Inspect i) = Some i"
| "target (Create i _) = Some i"
| "target (Start i) = Some i"
| "target (Install i) = Some i"
| "target (Probe i) = Some i"
| "target (Stop i) = Some i"
| "target (Delete i) = Some i"
| "target (Exec i _) = Some i"
| "target (Cancel_Exec i _) = Some i"
| "target (Exec_Status i _) = Some i"
| "target (Import i) = Some i"
| "target _ = None"

text \<open>A command, its answer, and the journal of the machine it names.\<close>

datatype provider_event = Asked command provider_answer "lifecycle option"

text \<open>
  The registry file, whether there is a backup of it (its content is never read back), the
  journals by instance, and the log of the provider.
\<close>

record vm_state =
  c_registry :: "(bytes, vm_record) btree option"
  c_backup :: bool
  c_journals :: "bytes \<Rightarrow> lifecycle option"
  c_log :: "provider_event list"

datatype vm_error =
    Io_Failed | Invalid_Record | Invalid_Ownership | Unsupported_Configuration | Unsupported_Host
  | Invalid_Id | Owner_Mismatch | Deleted_Or_Replaced | Not_Ready | Deletion_Pending
  | Other_Resources | Uses_Native | Unsupported_Version | Provider_Failed | Bad_Answer
  | Image_Mismatch | Another_Running | Previous_Missing | Generation_Overflow | Guest_Mismatch
  | Guest_Not_Ready | Still_Running | Not_Stopped | Has_Mounts | Needs_Consent | Still_Exists
  | Registration_Changed | Not_Running | Protocol_Mismatch | Incomplete | Cancelled
  | Command_Required | Bad_Timeout

type_synonym 'a vm_run = "(vm_state, vm_error, 'a) run"

section \<open>Effects\<close>

text \<open>A lock that is taken, or a file that cannot be read.\<close>

definition tries :: "world_around \<Rightarrow> site \<Rightarrow> unit vm_run" where
  "tries w x = (\<lambda>st. (st, if a_fails w x (length (c_log st)) then Inl Io_Failed else Inr ()))"

definition persists :: "world_around \<Rightarrow> file_of \<Rightarrow> (vm_state \<Rightarrow> vm_state) \<Rightarrow> unit vm_run" where
  "persists w x f = (\<lambda>st.
     case a_persist w x of
       None \<Rightarrow> (f st, Inr ())
     | Some replaced \<Rightarrow> (if replaced then f st else st, Inl Io_Failed))"

text \<open>\<^verbatim>\<open>output\<close>: run the provider.\<close>

definition provider_output :: "world_around \<Rightarrow> command \<Rightarrow> provider_answer vm_run" where
  "provider_output w c = (\<lambda>st.
     let a = a_answers w (length (c_log st)) c
     in (st\<lparr>c_log := c_log st @ [Asked c a (Option.bind (target c) (c_journals st))]\<rparr>,
         if a = Failed then Inl Provider_Failed else Inr a))"

definition names_of :: "provider_answer \<Rightarrow> bytes list vm_run" where
  "names_of a = (case a of Names ns \<Rightarrow> done_with ns | _ \<Rightarrow> stop Bad_Answer)"

section \<open>Registry and journals\<close>

definition IMAGE :: bytes where
  "IMAGE = ''docker.io/library/python@sha256:bf12ecc0bea3f171d55145dd02c78b5eeb09f30ee2ac9cc2b4c9e4e8f5e30741''"

lemma between_code [code]: "between lo hi b = ((of_char lo :: int) \<le> of_char b \<and> (of_char b :: int) \<le> of_char hi)"
  unfolding between_def of_nat_of_char [where 'a = int, symmetric] by simp

definition hex_id :: "bytes \<Rightarrow> bool" where
  "hex_id s \<longleftrightarrow> length s = 32 \<and> list_all (\<lambda>b. between (CHR ''0'') (CHR ''9'') b \<or>
     between (CHR ''a'') (CHR ''f'') b \<or> between (CHR ''A'') (CHR ''F'') b) s"

definition vm_validate :: "vm \<Rightarrow> bytes \<Rightarrow> vm_error option" where
  "vm_validate v i =
     (if \<not> (v_schema_version v = 2 \<and> v_id v = i \<and> v_backend v = ''apple-container'' \<and>
            v_execution_os v = ''linux'' \<and> v_arch v = ''arm64'')
      then Some Invalid_Record
      else if \<not> (hex_id (v_owner v) \<and> v_instance_id v = ''world-'' @ v_owner v)
      then Some Invalid_Ownership
      else if \<not> (v_image v = IMAGE \<and> 1 \<le> v_cpus v \<and> v_cpus v \<le> 8 \<and>
                 256 \<le> v_memory_mib v \<and> v_memory_mib v \<le> 4096)
      then Some Unsupported_Configuration
      else None)"

text \<open>\<^verbatim>\<open>records\<close> refuses a registry with an invalid machine.\<close>

fun invalid_record :: "(bytes, vm_record) btree \<Rightarrow> vm_error option" where
  "invalid_record [] = None"
| "invalid_record ((i, Native_Record) # rs) = invalid_record rs"
| "invalid_record ((i, Vm_Record v) # rs) =
     (case vm_validate v i of Some e \<Rightarrow> Some e | None \<Rightarrow> invalid_record rs)"

definition c_records :: "vm_state \<Rightarrow> (bytes, vm_record) btree" where
  "c_records st = (case c_registry st of None \<Rightarrow> [] | Some rs \<Rightarrow> rs)"

definition vm_records :: "world_around \<Rightarrow> (bytes, vm_record) btree vm_run" where
  "vm_records w =
     bind_run (tries w Read_Registry) (\<lambda>_.
     bind_run (look c_records) (\<lambda>rs.
       case invalid_record rs of Some e \<Rightarrow> stop e | None \<Rightarrow> done_with rs))"

definition lifecycle_of :: "world_around \<Rightarrow> vm \<Rightarrow> lifecycle vm_run" where
  "lifecycle_of w v =
     bind_run (tries w Read_Journal) (\<lambda>_.
     bind_run (look (\<lambda>st. c_journals st (v_instance_id v))) (\<lambda>j.
       case j of
         Some value \<Rightarrow>
           bind_run (require Owner_Mismatch (l_owner value = v_owner v)) (\<lambda>_. done_with value)
       | None \<Rightarrow> done_with \<lparr>l_owner = v_owner v, l_phase = Legacy, l_generation = 0\<rparr>))"

definition save_lifecycle :: "world_around \<Rightarrow> vm \<Rightarrow> lifecycle \<Rightarrow> unit vm_run" where
  "save_lifecycle w v j =
     persists w (Journal_File (l_phase j)) (\<lambda>st. st\<lparr>c_journals := (c_journals st)(v_instance_id v \<mapsto> j)\<rparr>)"

definition vm_get_of :: "world_around \<Rightarrow> bytes \<Rightarrow> vm option vm_run" where
  "vm_get_of w i =
     bind_run (vm_records w) (\<lambda>rs.
       done_with (case bt_get rs i of Some (Vm_Record v) \<Rightarrow> Some v | _ \<Rightarrow> None))"

definition check_registered :: "world_around \<Rightarrow> vm \<Rightarrow> unit vm_run" where
  "check_registered w v =
     bind_run (vm_get_of w (v_id v)) (\<lambda>current.
       require Deleted_Or_Replaced
         (case current of Some c \<Rightarrow> v_owner c = v_owner v | None \<Rightarrow> False))"

definition require_ready :: "world_around \<Rightarrow> vm \<Rightarrow> unit vm_run" where
  "require_ready w v = bind_run (lifecycle_of w v) (\<lambda>j. require Not_Ready (l_phase j = Ready))"

text \<open>\<^verbatim>\<open>create\<close>: a new name gets a journal first and its record second.\<close>

definition vm_new :: "world_around \<Rightarrow> bytes \<Rightarrow> u32 \<Rightarrow> u32 \<Rightarrow> vm" where
  "vm_new w i cpus memory_mib =
     \<lparr>v_schema_version = 2, v_id = i, v_backend = ''apple-container'', v_execution_os = ''linux'',
      v_arch = ''arm64'', v_instance_id = ''world-'' @ a_random w, v_owner = a_random w, v_image = IMAGE,
      v_cpus = cpus, v_memory_mib = memory_mib\<rparr>"

definition backup_registry :: "world_around \<Rightarrow> unit vm_run" where
  "backup_registry w =
     bind_run (look (\<lambda>st. c_registry st \<noteq> None \<and> \<not> c_backup st)) (\<lambda>due.
       if due then persists w Backup_File (\<lambda>st. st\<lparr>c_backup := True\<rparr>) else done_with ())"

definition vm_create :: "world_around \<Rightarrow> bytes \<Rightarrow> u32 \<Rightarrow> u32 \<Rightarrow> vm vm_run" where
  "vm_create w i cpus memory_mib =
     bind_run (require Unsupported_Host (a_supported w)) (\<lambda>_.
     bind_run (require Invalid_Id (valid_id i)) (\<lambda>_.
     bind_run (tries w Registry_Lock) (\<lambda>_.
     bind_run (vm_records w) (\<lambda>rs.
       case bt_get rs i of
         Some (Vm_Record v) \<Rightarrow>
           bind_run (lifecycle_of w v) (\<lambda>j.
           bind_run (require Deletion_Pending (l_phase j \<noteq> Deleting)) (\<lambda>_.
           bind_run (require Other_Resources (v_cpus v = cpus \<and> v_memory_mib v = memory_mib)) (\<lambda>_.
             done_with v)))
       | Some Native_Record \<Rightarrow> stop Uses_Native
       | None \<Rightarrow>
           (let v = vm_new w i cpus memory_mib
            in case vm_validate v i of
                 Some e \<Rightarrow> stop e
               | None \<Rightarrow>
                   bind_run (backup_registry w) (\<lambda>_.
                   bind_run
                     (save_lifecycle w v \<lparr>l_owner = v_owner v, l_phase = Created, l_generation = 0\<rparr>) (\<lambda>_.
                   bind_run
                     (persists w Registry_File (\<lambda>st. st\<lparr>c_registry := Some (bt_insert i (Vm_Record v) rs)\<rparr>)) (\<lambda>_.
                     done_with v))))))))"

section \<open>Looking at a machine\<close>

definition check_provider :: "world_around \<Rightarrow> unit vm_run" where
  "check_provider w =
     bind_run (require Unsupported_Host (a_supported w)) (\<lambda>_.
     bind_run (provider_output w Version) (\<lambda>a.
     bind_run (names_of a) (\<lambda>version.
     bind_run (require Unsupported_Version (''1.6.1'' \<in> set version)) (\<lambda>_.
     bind_run (provider_output w System_Status) (\<lambda>_. done_with ())))))"

definition inspect :: "world_around \<Rightarrow> vm \<Rightarrow> instance_of option vm_run" where
  "inspect w v =
     bind_run (provider_output w List_All) (\<lambda>a.
     bind_run (names_of a) (\<lambda>all.
       if v_instance_id v \<notin> set all then done_with None
       else
         bind_run (provider_output w (Inspect (v_instance_id v))) (\<lambda>a.
           case a of
             Instances (entry # _) \<Rightarrow>
               bind_run (require Owner_Mismatch (n_label entry = Some (v_owner v))) (\<lambda>_.
               bind_run (require Image_Mismatch (n_image entry = Some (v_image v))) (\<lambda>_.
                 done_with (Some entry)))
           | _ \<Rightarrow> stop Bad_Answer)))"

definition is_running :: "instance_of option \<Rightarrow> bool" where
  "is_running x = (case x of Some n \<Rightarrow> n_state n = Some ''running'' | None \<Rightarrow> False)"

definition guest_probe :: "world_around \<Rightarrow> vm \<Rightarrow> probe vm_run" where
  "guest_probe w v =
     bind_run (provider_output w (Probe (v_instance_id v))) (\<lambda>a.
       case a of Probed p \<Rightarrow> done_with p | _ \<Rightarrow> stop Bad_Answer)"

text \<open>
  \<^verbatim>\<open>show\<close>: the observation may fail, and then the status is unknown.
\<close>

definition catch :: "'a vm_run \<Rightarrow> (vm_error + 'a) vm_run" where
  "catch r = (\<lambda>st. case r st of (st', x) \<Rightarrow> (st', Inr x))"

datatype status = SUnknown | SDeleting | SReady | SUnverified | SStopped | SCreated | SMissing

definition status_of :: "vm_phase \<Rightarrow> vm_error + instance_of option \<Rightarrow> status" where
  "status_of phase observation =
     (case observation of
        Inl _ \<Rightarrow> SUnknown
      | Inr observed \<Rightarrow>
          if phase = Deleting then SDeleting
          else (case observed of
                  Some value \<Rightarrow>
                    if n_state value = Some ''running'' \<and> phase = Ready then SReady
                    else if n_state value = Some ''running'' then SUnverified
                    else if n_state value = Some ''stopped'' then SStopped
                    else SUnverified
                | None \<Rightarrow> if phase = Created then SCreated else SMissing))"

definition vm_show :: "world_around \<Rightarrow> vm \<Rightarrow> status vm_run" where
  "vm_show w v =
     bind_run (lifecycle_of w v) (\<lambda>journal.
     bind_run (catch (bind_run (check_provider w) (\<lambda>_. inspect w v))) (\<lambda>observation.
       done_with (status_of (l_phase journal) observation)))"

text \<open>\<^verbatim>\<open>list\<close>: every machine is shown, a native workspace is not probed.\<close>

fun show_all :: "world_around \<Rightarrow> (bytes, vm_record) btree \<Rightarrow> status option list vm_run" where
  "show_all w [] = done_with []"
| "show_all w ((i, Vm_Record v) # rs) =
     bind_run (vm_show w v) (\<lambda>x. bind_run (show_all w rs) (\<lambda>xs. done_with (Some x # xs)))"
| "show_all w ((i, Native_Record) # rs) = bind_run (show_all w rs) (\<lambda>xs. done_with (None # xs))"

definition vm_list :: "world_around \<Rightarrow> status option list vm_run" where
  "vm_list w = bind_run (vm_records w) (show_all w)"

section \<open>Operations\<close>

text \<open>The lock of the machine, taken without waiting.\<close>

definition operation_lock :: "world_around \<Rightarrow> unit vm_run" where
  "operation_lock w = tries w Operation_Lock"

text \<open>
  \<^verbatim>\<open>setup\<close>: the machine is made when it is missing, started when it does not run, and asked until
  it is ready. The twenty attempts are the argument of the loop.
\<close>

definition setup_make :: "world_around \<Rightarrow> vm \<Rightarrow> bool \<Rightarrow> lifecycle \<Rightarrow> lifecycle vm_run" where
  "setup_make w v recreate_missing journal =
     bind_run (require Previous_Missing (l_phase journal = Created \<or> recreate_missing)) (\<lambda>_.
       let journal = journal\<lparr>l_phase := Provisioning\<rparr>
       in bind_run (save_lifecycle w v journal) (\<lambda>_.
          bind_run (provider_output w (Create (v_instance_id v) v)) (\<lambda>_. done_with journal)))"

definition setup_start ::
  "world_around \<Rightarrow> vm \<Rightarrow> bool \<Rightarrow> instance_of option \<Rightarrow> lifecycle \<Rightarrow> lifecycle vm_run" where
  "setup_start w v recreate_missing current journal =
     bind_run (provider_output w List_Running) (\<lambda>a.
     bind_run (names_of a) (\<lambda>all.
     bind_run (require Another_Running (all = [])) (\<lambda>_.
     bind_run
       (if current = None then setup_make w v recreate_missing journal else done_with journal)
       (\<lambda>journal.
     bind_run (require Generation_Overflow (l_generation journal \<noteq> - 1)) (\<lambda>_.
       let journal = journal\<lparr>l_generation := l_generation journal + 1, l_phase := Starting\<rparr>
       in bind_run (save_lifecycle w v journal) (\<lambda>_.
          bind_run (provider_output w (Start (v_instance_id v))) (\<lambda>_. done_with journal)))))))"

fun setup_wait :: "nat \<Rightarrow> world_around \<Rightarrow> vm \<Rightarrow> lifecycle \<Rightarrow> unit vm_run" where
  "setup_wait 0 w v journal = stop Guest_Not_Ready"
| "setup_wait (Suc n) w v journal =
     bind_run (catch (provider_output w (Probe (v_instance_id v)))) (\<lambda>x.
       case x of
         Inl _ \<Rightarrow> setup_wait n w v journal
       | Inr (Probed p) \<Rightarrow>
           bind_run (require Guest_Mismatch (p_protocol p = 1 \<and> p_uid p = 0 \<and> p_cgroup_kill p)) (\<lambda>_.
             save_lifecycle w v (journal\<lparr>l_phase := Ready\<rparr>))
       | Inr _ \<Rightarrow> stop Bad_Answer)"

definition vm_setup :: "world_around \<Rightarrow> vm \<Rightarrow> bool \<Rightarrow> unit vm_run" where
  "vm_setup w v recreate_missing =
     bind_run (operation_lock w) (\<lambda>_.
     bind_run (check_registered w v) (\<lambda>_.
     bind_run (lifecycle_of w v) (\<lambda>journal.
     bind_run (require Deletion_Pending (l_phase journal \<noteq> Deleting)) (\<lambda>_.
     bind_run (tries w Admission_Lock) (\<lambda>_.
     bind_run (check_provider w) (\<lambda>_.
     bind_run (inspect w v) (\<lambda>current.
     bind_run
       (if is_running current then done_with journal
        else setup_start w v recreate_missing current journal) (\<lambda>journal.
     bind_run (provider_output w (Install (v_instance_id v))) (\<lambda>_.
       setup_wait 20 w v journal)))))))))"

definition teardown_stop :: "world_around \<Rightarrow> vm \<Rightarrow> instance_of option \<Rightarrow> lifecycle \<Rightarrow> lifecycle vm_run" where
  "teardown_stop w v current journal =
     (if is_running current then
        (let journal = journal\<lparr>l_phase := Stopping\<rparr>
         in bind_run (save_lifecycle w v journal) (\<lambda>_.
            bind_run (provider_output w (Stop (v_instance_id v))) (\<lambda>_.
            bind_run (inspect w v) (\<lambda>after.
            bind_run (require Still_Running (\<not> is_running after)) (\<lambda>_. done_with journal)))))
      else done_with journal)"

definition vm_teardown :: "world_around \<Rightarrow> vm \<Rightarrow> unit vm_run" where
  "vm_teardown w v =
     bind_run (operation_lock w) (\<lambda>_.
     bind_run (check_registered w v) (\<lambda>_.
     bind_run (lifecycle_of w v) (\<lambda>journal.
     bind_run (require Deletion_Pending (l_phase journal \<noteq> Deleting)) (\<lambda>_.
     bind_run (check_provider w) (\<lambda>_.
     bind_run (inspect w v) (\<lambda>current.
     bind_run (teardown_stop w v current journal) (\<lambda>journal.
       save_lifecycle w v
         (journal\<lparr>l_phase := if l_phase journal = Created then Created else Stopped\<rparr>))))))))"

definition delete_allowed :: "bool \<Rightarrow> instance_of option \<Rightarrow> unit vm_run" where
  "delete_allowed discard_runtime_data current =
     (case current of
        None \<Rightarrow> done_with ()
      | Some value \<Rightarrow>
          bind_run (require Not_Stopped (n_state value \<in> {Some ''stopped'', Some ''created''})) (\<lambda>_.
          bind_run (require Has_Mounts (n_mounts value = Some 0)) (\<lambda>_.
            require Needs_Consent discard_runtime_data)))"

definition delete_instance :: "world_around \<Rightarrow> vm \<Rightarrow> instance_of option \<Rightarrow> unit vm_run" where
  "delete_instance w v current =
     (if current \<noteq> None
      then bind_run (provider_output w (Delete (v_instance_id v))) (\<lambda>_. done_with ())
      else done_with ())"

definition delete_record :: "world_around \<Rightarrow> vm \<Rightarrow> unit vm_run" where
  "delete_record w v =
     bind_run (tries w Registry_Lock) (\<lambda>_.
     bind_run (vm_records w) (\<lambda>registered.
     bind_run
       (require Registration_Changed
          (case bt_get registered (v_id v) of
             Some (Vm_Record current) \<Rightarrow> v_owner current = v_owner v
           | _ \<Rightarrow> False)) (\<lambda>_.
       persists w Registry_File (\<lambda>st. st\<lparr>c_registry := Some (bt_remove (v_id v) registered)\<rparr>))))"

definition vm_delete :: "world_around \<Rightarrow> vm \<Rightarrow> bool \<Rightarrow> unit vm_run" where
  "vm_delete w v discard_runtime_data =
     bind_run (operation_lock w) (\<lambda>_.
     bind_run (check_registered w v) (\<lambda>_.
     bind_run (check_provider w) (\<lambda>_.
     bind_run (inspect w v) (\<lambda>current.
     bind_run (delete_allowed discard_runtime_data current) (\<lambda>_.
     bind_run (lifecycle_of w v) (\<lambda>journal.
     bind_run (save_lifecycle w v (journal\<lparr>l_phase := Deleting\<rparr>)) (\<lambda>_.
     bind_run (delete_instance w v current) (\<lambda>_.
     bind_run (inspect w v) (\<lambda>after.
     bind_run (require Still_Exists (after = None)) (\<lambda>_.
       delete_record w v))))))))))"

text \<open>
  \<^verbatim>\<open>exec\<close> and \<^verbatim>\<open>import\<close> share their beginning. \<^verbatim>\<open>cancelled\<close> is the token of the caller where it is
  read. The command in the machine is answered by \<^const>\<open>Done\<close> when the client of the provider was
  waited for, and by \<^const>\<open>Interrupted\<close> when the token or the deadline came first; the guest is then
  told, and its client is waited for once more. Durations are in nanoseconds.
\<close>

definition running_guest :: "world_around \<Rightarrow> vm \<Rightarrow> probe vm_run" where
  "running_guest w v =
     bind_run (operation_lock w) (\<lambda>_.
     bind_run (check_registered w v) (\<lambda>_.
     bind_run (require_ready w v) (\<lambda>_.
     bind_run (check_provider w) (\<lambda>_.
     bind_run (inspect w v) (\<lambda>current.
     bind_run (require Not_Running (is_running current)) (\<lambda>_.
       guest_probe w v))))))"

definition validate_command :: "bytes list \<Rightarrow> int \<Rightarrow> unit vm_run" where
  "validate_command command duration =
     bind_run (require Command_Required (case command of [] \<Rightarrow> False | c # _ \<Rightarrow> c \<noteq> [])) (\<lambda>_.
       require Bad_Timeout (0 < duration \<and> duration \<le> 86400 * 1000000000))"

definition exec_interrupted :: "world_around \<Rightarrow> vm \<Rightarrow> unit vm_run" where
  "exec_interrupted w v =
     bind_run (provider_output w (Cancel_Exec (v_instance_id v) (a_random w))) (\<lambda>_. tries w Second_Wait)"

definition exec_result :: "world_around \<Rightarrow> vm \<Rightarrow> u32 vm_run" where
  "exec_result w v =
     bind_run (provider_output w (Exec_Status (v_instance_id v) (a_random w))) (\<lambda>result.
       case result of
         Report state exit_code \<Rightarrow>
           if state \<in> {Some ''exited'', Some ''timed_out'', Some ''cancelled''}
           then (case exit_code of Some n \<Rightarrow> done_with (word_of_int n) | None \<Rightarrow> stop Bad_Answer)
           else stop Incomplete
       | _ \<Rightarrow> stop Bad_Answer)"

definition vm_exec :: "world_around \<Rightarrow> vm \<Rightarrow> bytes list \<Rightarrow> int \<Rightarrow> bool \<Rightarrow> u32 vm_run" where
  "vm_exec w v command duration cancelled =
     bind_run (validate_command command duration) (\<lambda>_.
     bind_run (running_guest w v) (\<lambda>p.
     bind_run (require Protocol_Mismatch (p_protocol p = 1)) (\<lambda>_.
       if cancelled then done_with 124
       else
         bind_run (provider_output w (Exec (v_instance_id v) (a_random w))) (\<lambda>status.
         bind_run (if status = Interrupted then exec_interrupted w v else done_with ()) (\<lambda>_.
           exec_result w v)))))"

definition vm_import :: "world_around \<Rightarrow> vm \<Rightarrow> bool \<Rightarrow> unit vm_run" where
  "vm_import w v cancelled =
     bind_run (running_guest w v) (\<lambda>p.
     bind_run (require Protocol_Mismatch (p_import_protocol p = 1)) (\<lambda>_.
     bind_run (tries w Snapshot) (\<lambda>_.
     bind_run (require Cancelled (\<not> cancelled)) (\<lambda>_.
     bind_run (provider_output w (Import (v_instance_id v))) (\<lambda>result.
       require Incomplete (case result of Report state _ \<Rightarrow> state = Some ''imported'' | _ \<Rightarrow> False))))))"

end
