(* ===== verification/Vm_Steps.thy ===== *)
theory Vm_Steps
  imports Vm_Cycle
begin

text \<open>
  An abstract machine for the lives of virtual machines: which changes of a journal, which commands
  to the provider and which changes of the registry there are, each with what must be known when it
  happens. Every operation, with any handle and ending at any point, is a sequence of these steps.
\<close>

section \<open>Steps\<close>

definition phase_at :: "vm_state \<Rightarrow> bytes \<Rightarrow> vm_phase" where
  "phase_at st i = (case c_journals st i of Some j \<Rightarrow> l_phase j | None \<Rightarrow> Legacy)"

definition generation_at :: "vm_state \<Rightarrow> bytes \<Rightarrow> u64" where
  "generation_at st i = (case c_journals st i of Some j \<Rightarrow> l_generation j | None \<Rightarrow> 0)"

definition owner_at :: "vm_state \<Rightarrow> bytes \<Rightarrow> bytes option" where
  "owner_at st i = map_option l_owner (c_journals st i)"

definition good_probe :: "probe \<Rightarrow> bool" where
  "good_probe p \<longleftrightarrow> p_protocol p = 1 \<and> p_uid p = 0 \<and> p_cgroup_kill p"

text \<open>What the end of the log says about a machine.\<close>

definition inspected :: "provider_event list \<Rightarrow> bytes \<Rightarrow> bytes option \<Rightarrow> (instance_of \<Rightarrow> bool) \<Rightarrow> bool" where
  "inspected log i owner f \<longleftrightarrow>
     (\<exists>xs n ns j. log = xs @ [Asked (Inspect i) (Instances (n # ns)) j] \<and> n_label n = owner \<and>
        owner \<noteq> None \<and> f n)"

definition missing :: "provider_event list \<Rightarrow> bytes \<Rightarrow> bool" where
  "missing log i \<longleftrightarrow> (\<exists>xs ns j. log = xs @ [Asked List_All (Names ns) j] \<and> i \<notin> set ns)"

definition none_running :: "provider_event list \<Rightarrow> (provider_event list \<Rightarrow> bool) \<Rightarrow> bool" where
  "none_running log f \<longleftrightarrow> (\<exists>xs j. log = xs @ [Asked List_Running (Names []) j] \<and> f xs)"

definition just_made :: "provider_event list \<Rightarrow> bytes \<Rightarrow> bool" where
  "just_made log i \<longleftrightarrow> (\<exists>xs v a j. log = xs @ [Asked (Create i v) a j] \<and> a \<noteq> Failed)"

definition just_probed :: "provider_event list \<Rightarrow> bytes \<Rightarrow> (probe \<Rightarrow> bool) \<Rightarrow> bool" where
  "just_probed log i f \<longleftrightarrow> (\<exists>xs p j. log = xs @ [Asked (Probe i) (Probed p) j] \<and> f p)"

definition running_probed :: "provider_event list \<Rightarrow> bytes \<Rightarrow> bytes option \<Rightarrow> (probe \<Rightarrow> bool) \<Rightarrow> bool" where
  "running_probed log i owner f \<longleftrightarrow>
     (\<exists>xs p j. log = xs @ [Asked (Probe i) (Probed p) j] \<and> f p \<and>
        inspected xs i owner (\<lambda>n. n_state n = Some ''running''))"

text \<open>When a command may be given.\<close>

fun allowed :: "vm_state \<Rightarrow> command \<Rightarrow> bool" where
  "allowed st (Create i v) \<longleftrightarrow>
     phase_at st i = Provisioning \<and> v_instance_id v = i \<and> owner_at st i = Some (v_owner v) \<and>
     none_running (c_log st) (\<lambda>log. missing log i)"
| "allowed st (Start i) \<longleftrightarrow>
     phase_at st i = Starting \<and>
     (just_made (c_log st) i \<or> none_running (c_log st) (\<lambda>log. inspected log i (owner_at st i) (\<lambda>_. True)))"
| "allowed st (Stop i) \<longleftrightarrow>
     phase_at st i = Stopping \<and>
     inspected (c_log st) i (owner_at st i) (\<lambda>n. n_state n = Some ''running'')"
| "allowed st (Delete i) \<longleftrightarrow>
     phase_at st i = Deleting \<and>
     inspected (c_log st) i (owner_at st i)
       (\<lambda>n. n_state n \<in> {Some ''stopped'', Some ''created''} \<and> n_mounts n = Some 0)"
| "allowed st (Exec i _) \<longleftrightarrow>
     phase_at st i = Ready \<and> running_probed (c_log st) i (owner_at st i) (\<lambda>p. p_protocol p = 1)"
| "allowed st (Import i) \<longleftrightarrow>
     phase_at st i = Ready \<and> running_probed (c_log st) i (owner_at st i) (\<lambda>p. p_import_protocol p = 1)"
| "allowed st (Install i) \<longleftrightarrow> phase_at st i \<noteq> Deleting"
| "allowed st _ \<longleftrightarrow> True"

text \<open>How a journal may change.\<close>

fun journal_step :: "vm_phase \<Rightarrow> vm_phase \<Rightarrow> bool" where
  "journal_step old Deleting = True"
| "journal_step old Legacy = False"
| "journal_step old Created = (old = Created)"
| "journal_step old new = (old \<noteq> Deleting)"

definition journal_change :: "vm_state \<Rightarrow> bytes \<Rightarrow> lifecycle \<Rightarrow> bool" where
  "journal_change st i j \<longleftrightarrow>
     (case owner_at st i of Some o' \<Rightarrow> l_owner j = o' | None \<Rightarrow> True) \<and>
     journal_step (phase_at st i) (l_phase j) \<and>
     (if l_phase j = Starting
      then generation_at st i \<noteq> - 1 \<and> l_generation j = generation_at st i + 1
      else l_generation j = generation_at st i) \<and>
     (l_phase j = Ready \<longrightarrow> just_probed (c_log st) i good_probe)"

inductive vm_step :: "vm_state \<Rightarrow> vm_state \<Rightarrow> bool" where
  ask: "allowed st c \<Longrightarrow>
     vm_step st (st\<lparr>c_log := c_log st @ [Asked c a (Option.bind (target c) (c_journals st))]\<rparr>)"
| journal: "journal_change st i j \<Longrightarrow> vm_step st (st\<lparr>c_journals := (c_journals st)(i \<mapsto> j)\<rparr>)"
| new_journal: "c_journals st i = None \<Longrightarrow>
     vm_step st (st\<lparr>c_journals :=
       (c_journals st)(i \<mapsto> \<lparr>l_owner = own, l_phase = Created, l_generation = 0\<rparr>)\<rparr>)"
| backup: "vm_step st (st\<lparr>c_backup := True\<rparr>)"
| register: "bt_get (c_records st) i = None \<Longrightarrow> vm_validate v i = None \<Longrightarrow>
     phase_at st (v_instance_id v) = Created \<Longrightarrow>
     \<forall>i' u. bt_get (c_records st) i' = Some (Vm_Record u) \<longrightarrow> v_owner u \<noteq> v_owner v \<Longrightarrow>
     vm_step st (st\<lparr>c_registry := Some (bt_insert i (Vm_Record v) (c_records st))\<rparr>)"
| remove: "bt_get (c_records st) i = Some (Vm_Record v) \<Longrightarrow> phase_at st (v_instance_id v) = Deleting \<Longrightarrow>
     missing (c_log st) (v_instance_id v) \<Longrightarrow>
     vm_step st (st\<lparr>c_registry := Some (bt_remove i (c_records st))\<rparr>)"

abbreviation vm_steps :: "vm_state \<Rightarrow> vm_state \<Rightarrow> bool" where
  "vm_steps \<equiv> vm_step\<^sup>*\<^sup>*"

section \<open>Rules\<close>

text \<open>What is known during an operation: of the journals, of the registry and of the log.\<close>

definition via ::
  "vm_state \<Rightarrow> ((bytes \<Rightarrow> lifecycle option) \<Rightarrow> bool) \<Rightarrow> ((bytes, vm_record) btree \<Rightarrow> bool) \<Rightarrow>
     (provider_event list \<Rightarrow> bool) \<Rightarrow> vm_state \<Rightarrow> bool" where
  "via s J R T st \<longleftrightarrow> vm_steps s st \<and> J (c_journals st) \<and> R (c_records st) \<and> T (c_log st)"

definition journal_for :: "vm \<Rightarrow> (bytes \<Rightarrow> lifecycle option) \<Rightarrow> lifecycle" where
  "journal_for v js =
     (case js (v_instance_id v) of
        Some j \<Rightarrow> j
      | None \<Rightarrow> \<lparr>l_owner = v_owner v, l_phase = Legacy, l_generation = 0\<rparr>)"

lemma via_steps: "via s J R T st \<Longrightarrow> vm_steps s st"
  by (simp add: via_def)

lemma require_via [run_rules]:
  "run_spec (via s J R T) (require e b) (\<lambda>_ st. via s J R T st \<and> b) (vm_steps s)"
  by (rule run_spec_require) (auto simp: via_def)

lemma tries_via [run_rules]: "run_spec (via s J R T) (tries w x) (\<lambda>_. via s J R T) (vm_steps s)"
  by (auto simp: run_spec_def tries_def via_def)

lemma records_via [run_rules]:
  "run_spec (via s J R T) (vm_records w)
     (\<lambda>rs st. via s J (\<lambda>r. R r \<and> r = rs) T st \<and> invalid_record rs = None) (vm_steps s)"
  by (auto simp: run_spec_def vm_records_def bind_run_def tries_def look_def stop_def done_with_def via_def
      split: option.splits)

lemma lifecycle_via [run_rules]:
  "run_spec (via s J R T) (lifecycle_of w v)
     (\<lambda>j st. via s (\<lambda>js. J js \<and> journal_for v js = j) R T st \<and> l_owner j = v_owner v) (vm_steps s)"
  by (auto simp: run_spec_def lifecycle_of_def bind_run_def tries_def look_def require_def stop_def
      done_with_def via_def journal_for_def split: option.splits)

lemma persists_via:
  assumes "\<And>st. via s J R T st \<Longrightarrow> vm_step st (f st) \<and> J' (c_journals (f st)) \<and> R' (c_records (f st)) \<and>
      T' (c_log (f st))"
  shows "run_spec (via s J R T) (persists w x f) (\<lambda>_. via s J' R' T') (vm_steps s)"
  unfolding run_spec_def persists_def
  using assms by (auto simp: via_def split: option.split intro: rtranclp.rtrancl_into_rtrancl)

lemma save_via:
  assumes "\<And>st. via s J R T st \<Longrightarrow> journal_change st (v_instance_id v) j"
  shows "run_spec (via s J R T) (save_lifecycle w v j)
      (\<lambda>_. via s (\<lambda>js. js (v_instance_id v) = Some j) R T) (vm_steps s)"
  unfolding save_lifecycle_def
  by (rule persists_via) (use assms in \<open>auto simp: via_def c_records_def intro: vm_step.journal\<close>)

lemma ask_via:
  assumes "\<And>st. via s J R T st \<Longrightarrow> allowed st c"
  shows "run_spec (via s J R T) (provider_output w c)
      (\<lambda>a st. via s J R (\<lambda>log. \<exists>l j. T l \<and> log = l @ [Asked c a j]) st \<and> a \<noteq> Failed) (vm_steps s)"
  unfolding run_spec_def provider_output_def Let_def
proof (intro allI impI)
  fix st assume st: "via s J R T st"
  let ?a = "a_answers w (length (c_log st)) c"
  let ?st = "st\<lparr>c_log := c_log st @ [Asked c ?a (Option.bind (target c) (c_journals st))]\<rparr>"
  have "vm_step st ?st" by (rule vm_step.ask [OF assms [OF st]])
  then have "vm_steps s ?st" using st by (auto simp: via_def intro: rtranclp.rtrancl_into_rtrancl)
  then show "case (?st, if ?a = Failed then Inl Provider_Failed else Inr ?a) of
      (st', Inl e) \<Rightarrow> vm_steps s st'
    | (st', Inr a) \<Rightarrow> via s J R (\<lambda>log. \<exists>l j. T l \<and> log = l @ [Asked c a j]) st' \<and> a \<noteq> Failed"
    using st by (auto simp: via_def c_records_def)
qed

lemma via_weaken:
  assumes "run_spec (via s J R T) r Q E" "\<And>js. J' js \<Longrightarrow> J js" "\<And>r. R' r \<Longrightarrow> R r" "\<And>l. T' l \<Longrightarrow> T l"
  shows "run_spec (via s J' R' T') r Q E"
  using assms(1) by (rule run_spec_weaken) (use assms(2-) in \<open>auto simp: via_def\<close>)

lemma names_via [run_rules]:
  "run_spec (via s J R T) (names_of a) (\<lambda>ns st. via s J R T st \<and> a = Names ns) (vm_steps s)"
  by (cases a) (auto simp: names_of_def run_spec_def stop_def done_with_def via_def)

lemma done_via: "run_spec (via s J R T) (done_with a) (\<lambda>b st. via s J R T st \<and> b = a) (vm_steps s)"
  by (simp add: run_spec_def done_with_def)

text \<open>A command that needs no permission, when the log before it does not matter.\<close>

lemma ask_free:
  assumes "\<And>st. allowed st c"
    and "\<And>a. run_spec (via s J R (\<lambda>log. \<exists>l j. T l \<and> log = l @ [Asked c a j])) (f a) Q (vm_steps s)"
  shows "run_spec (via s J R T) (bind_run (provider_output w c) f) Q (vm_steps s)"
  by (rule run_spec_bind [OF ask_via run_spec_fact]) (use assms in auto)

lemma check_registered_via [run_rules]:
  "run_spec (via s J R T) (check_registered w v) (\<lambda>_. via s J R T) (vm_steps s)"
  unfolding check_registered_def vm_get_of_def
  by (rule run_spec_bind [where Q = "\<lambda>_. via s J R T"],
      rule run_spec_bind [OF records_via], rule run_spec_done, simp add: via_def,
      rule run_spec_require, auto simp: via_def)

lemma check_provider_via [run_rules]:
  "run_spec (via s J R T) (check_provider w) (\<lambda>_. via s J R (\<lambda>_. True)) (vm_steps s)"
  unfolding check_provider_def
  by (intro run_spec_bind [OF require_via] run_spec_fact ask_free run_spec_bind [OF names_via] run_spec_done)
    (auto simp: via_def)

definition found :: "vm \<Rightarrow> instance_of option \<Rightarrow> provider_event list \<Rightarrow> bool" where
  "found v x log =
     (case x of
        None \<Rightarrow> missing log (v_instance_id v)
      | Some n \<Rightarrow> inspected log (v_instance_id v) (Some (v_owner v)) (\<lambda>m. m = n))"

lemma inspect_entry_via:
  "run_spec (via s J R (\<lambda>log. \<exists>l j. T l \<and> log = l @ [Asked (Inspect (v_instance_id v)) b j]))
     (case b of
        Instances (entry # _) \<Rightarrow>
          bind_run (require Owner_Mismatch (n_label entry = Some (v_owner v))) (\<lambda>_.
          bind_run (require Image_Mismatch (n_image entry = Some (v_image v))) (\<lambda>_. done_with (Some entry)))
      | _ \<Rightarrow> stop Bad_Answer)
     (\<lambda>x. via s J R (found v x)) (vm_steps s)"
  by (auto intro!: run_spec_bind [OF require_via] run_spec_fact run_spec_done run_spec_stop
      simp: via_def inspected_def found_def split: provider_answer.split list.split)

lemma inspect_via [run_rules]:
  "run_spec (via s J R T) (inspect w v) (\<lambda>x. via s J R (found v x)) (vm_steps s)"
  unfolding inspect_def
proof (intro ask_free run_spec_bind [OF names_via] run_spec_fact run_spec_if)
  fix a ns assume "a = Names ns" "v_instance_id v \<notin> set ns"
  then show "run_spec (via s J R (\<lambda>log. \<exists>l j. T l \<and> log = l @ [Asked List_All a j])) (done_with None)
      (\<lambda>x. via s J R (found v x)) (vm_steps s)"
    by (intro run_spec_done) (auto simp: via_def missing_def found_def)
qed (rule inspect_entry_via | simp)+

section \<open>Operations are sequences of steps\<close>

definition handle_ok :: "vm \<Rightarrow> bool" where
  "handle_ok v \<longleftrightarrow> vm_validate v (v_id v) = None"

lemma validated:
  assumes "vm_validate v i = None"
  shows "v_id v = i" "v_instance_id v = ''world-'' @ v_owner v"
  using assms by (auto simp: vm_validate_def split: if_splits)

text \<open>A new phase of the journal that the operation has read.\<close>

lemma change_journal:
  assumes "journal_for v (c_journals st) = j" "l_owner j = v_owner v" "l_owner j' = v_owner v"
    and "journal_step (l_phase j) (l_phase j')"
    and "if l_phase j' = Starting then l_generation j \<noteq> - 1 \<and> l_generation j' = l_generation j + 1
      else l_generation j' = l_generation j"
    and "l_phase j' = Ready \<Longrightarrow> just_probed (c_log st) (v_instance_id v) good_probe"
  shows "journal_change st (v_instance_id v) j'"
  using assms
  by (auto simp: journal_change_def journal_for_def phase_at_def generation_at_def owner_at_def
      split: option.splits)

lemma journal_for_Some: "js (v_instance_id v) = Some j \<Longrightarrow> journal_for v js = j"
  by (simp add: journal_for_def)

lemma setup_make_via:
  assumes "l_owner j = v_owner v" "l_phase j \<noteq> Deleting"
  shows "run_spec (via s (\<lambda>js. journal_for v js = j) R (\<lambda>l. none_running l (\<lambda>l. missing l (v_instance_id v))))
     (setup_make w v recreate j)
     (\<lambda>j' st. via s (\<lambda>js. js (v_instance_id v) = Some j') R (\<lambda>l. just_made l (v_instance_id v)) st \<and>
        j' = j\<lparr>l_phase := Provisioning\<rparr>) (vm_steps s)"
  unfolding setup_make_def Let_def
proof (intro run_spec_bind [OF require_via] run_spec_fact run_spec_bind [OF save_via] run_spec_bind [OF ask_via])
  fix st assume "via s (\<lambda>js. journal_for v js = j) R (\<lambda>l. none_running l (\<lambda>l. missing l (v_instance_id v))) st"
  then show "journal_change st (v_instance_id v) (j\<lparr>l_phase := Provisioning\<rparr>)"
    using assms by (intro change_journal [of v st j]) (auto simp: via_def)
next
  fix st
  assume "via s (\<lambda>js. js (v_instance_id v) = Some (j\<lparr>l_phase := Provisioning\<rparr>)) R
      (\<lambda>l. none_running l (\<lambda>l. missing l (v_instance_id v))) st"
  then show "allowed st (Create (v_instance_id v) v)"
    using assms(1) by (auto simp: via_def phase_at_def owner_at_def)
qed (rule run_spec_done, auto simp: via_def just_made_def)

definition startable :: "vm \<Rightarrow> provider_event list \<Rightarrow> bool" where
  "startable v l \<longleftrightarrow> just_made l (v_instance_id v) \<or>
     none_running l (\<lambda>l. inspected l (v_instance_id v) (Some (v_owner v)) (\<lambda>_. True))"

definition live_journal :: "vm \<Rightarrow> lifecycle \<Rightarrow> bool" where
  "live_journal v j \<longleftrightarrow> l_owner j = v_owner v \<and> l_phase j \<noteq> Deleting"

lemma setup_made_via:
  assumes "live_journal v j"
  shows "run_spec (via s (\<lambda>js. journal_for v js = j) R (\<lambda>l. none_running l (found v current)))
     (if current = None then setup_make w v recreate j else done_with j)
     (\<lambda>j' st. via s (\<lambda>js. journal_for v js = j') R (startable v) st \<and> live_journal v j') (vm_steps s)"
proof (rule run_spec_if)
  assume none: "current = None"
  show "run_spec (via s (\<lambda>js. journal_for v js = j) R (\<lambda>l. none_running l (found v current)))
     (setup_make w v recreate j)
     (\<lambda>j' st. via s (\<lambda>js. journal_for v js = j') R (startable v) st \<and> live_journal v j') (vm_steps s)"
    by (rule run_spec_weaken [OF setup_make_via [where R = R]])
      (use none assms in
        \<open>auto simp: via_def found_def none_running_def live_journal_def startable_def journal_for_Some\<close>)
next
  assume some: "current \<noteq> None"
  show "run_spec (via s (\<lambda>js. journal_for v js = j) R (\<lambda>l. none_running l (found v current))) (done_with j)
     (\<lambda>j' st. via s (\<lambda>js. journal_for v js = j') R (startable v) st \<and> live_journal v j') (vm_steps s)"
    by (intro run_spec_done)
      (use some assms in \<open>auto simp: via_def found_def none_running_def inspected_def startable_def\<close>)
qed

lemma setup_start_via:
  assumes "live_journal v j"
  shows "run_spec (via s (\<lambda>js. journal_for v js = j) R (found v current)) (setup_start w v recreate current j)
     (\<lambda>j' st. via s (\<lambda>js. journal_for v js = j') R (\<lambda>_. True) st \<and> live_journal v j') (vm_steps s)"
  unfolding setup_start_def
proof (intro ask_free run_spec_bind [OF names_via] run_spec_fact run_spec_bind [OF require_via])
  fix a ns assume a: "a = Names ns" "ns = []"
  let ?start = "\<lambda>j. bind_run (require Generation_Overflow (l_generation j \<noteq> - 1)) (\<lambda>_.
      let j = j\<lparr>l_generation := l_generation j + 1, l_phase := Starting\<rparr>
      in bind_run (save_lifecycle w v j) (\<lambda>_.
         bind_run (provider_output w (Start (v_instance_id v))) (\<lambda>_. done_with j)))"
  have start: "run_spec (\<lambda>st. via s (\<lambda>js. journal_for v js = j) R (startable v) st \<and> live_journal v j) (?start j)
     (\<lambda>j' st. via s (\<lambda>js. journal_for v js = j') R (\<lambda>_. True) st \<and> live_journal v j') (vm_steps s)" for j
    unfolding Let_def
  proof (intro run_spec_fact run_spec_bind [OF require_via] run_spec_bind [OF save_via] run_spec_bind [OF ask_via])
    fix st assume "live_journal v j" "l_generation j \<noteq> - 1"
      and "via s (\<lambda>js. journal_for v js = j) R (startable v) st"
    then show "journal_change st (v_instance_id v) (j\<lparr>l_generation := l_generation j + 1, l_phase := Starting\<rparr>)"
      by (intro change_journal [of v st j]) (auto simp: via_def live_journal_def)
  next
    fix st assume "live_journal v j"
      and "via s (\<lambda>js. js (v_instance_id v) =
        Some (j\<lparr>l_generation := l_generation j + 1, l_phase := Starting\<rparr>)) R (startable v) st"
    then show "allowed st (Start (v_instance_id v))"
      by (auto simp: via_def phase_at_def owner_at_def live_journal_def startable_def)
  qed (rule run_spec_done, auto simp: via_def live_journal_def journal_for_Some)
  show "run_spec (via s (\<lambda>js. journal_for v js = j) R
        (\<lambda>log. \<exists>l j. found v current l \<and> log = l @ [Asked List_Running a j]))
      (bind_run (if current = None then setup_make w v recreate j else done_with j) ?start)
      (\<lambda>j' st. via s (\<lambda>js. journal_for v js = j') R (\<lambda>_. True) st \<and> live_journal v j') (vm_steps s)"
    by (rule via_weaken [OF run_spec_bind [OF setup_made_via [OF assms, of s R current] start]])
      (use a in \<open>auto simp: none_running_def\<close>)
qed auto

lemma ask_catch:
  assumes "\<And>st. allowed st c"
  shows "run_spec (via s J R T) (catch (provider_output w c))
      (\<lambda>x. via s J R (\<lambda>log. \<exists>l a j. T l \<and> log = l @ [Asked c a j] \<and> (\<forall>b. x = Inr b \<longrightarrow> a = b))) (vm_steps s)"
  unfolding run_spec_def
proof (intro allI impI)
  fix st assume st: "via s J R T st"
  let ?a = "a_answers w (length (c_log st)) c"
  let ?st = "st\<lparr>c_log := c_log st @ [Asked c ?a (Option.bind (target c) (c_journals st))]\<rparr>"
  have "vm_steps s ?st"
    using vm_step.ask [OF assms, of st ?a] st by (auto simp: via_def intro: rtranclp.rtrancl_into_rtrancl)
  then show "case catch (provider_output w c) st of
      (st', Inl e) \<Rightarrow> vm_steps s st'
    | (st', Inr x) \<Rightarrow>
        via s J R (\<lambda>log. \<exists>l a j. T l \<and> log = l @ [Asked c a j] \<and> (\<forall>b. x = Inr b \<longrightarrow> a = b)) st'"
    using st by (auto simp: via_def c_records_def catch_def provider_output_def Let_def)
qed

lemma setup_wait_via:
  assumes "live_journal v j"
  shows "run_spec (via s (\<lambda>js. journal_for v js = j) R (\<lambda>_. True)) (setup_wait n w v j)
     (\<lambda>_. vm_steps s) (vm_steps s)"
proof (induction n)
  case 0
  then show ?case by (auto intro: run_spec_stop simp: via_def)
next
  case (Suc n)
  let ?V = "\<lambda>x. via s (\<lambda>js. journal_for v js = j) R
      (\<lambda>log. \<exists>l a ja. True \<and> log = l @ [Asked (Probe (v_instance_id v)) a ja] \<and> (\<forall>b. x = Inr b \<longrightarrow> a = b))"
  have probed: "run_spec (?V (Inr (Probed p)))
      (bind_run (require Guest_Mismatch (p_protocol p = 1 \<and> p_uid p = 0 \<and> p_cgroup_kill p)) (\<lambda>_.
         save_lifecycle w v (j\<lparr>l_phase := Ready\<rparr>))) (\<lambda>_. vm_steps s) (vm_steps s)" for p
  proof (intro run_spec_bind [OF require_via] run_spec_fact)
    assume good: "p_protocol p = 1 \<and> p_uid p = 0 \<and> p_cgroup_kill p"
    show "run_spec (?V (Inr (Probed p))) (save_lifecycle w v (j\<lparr>l_phase := Ready\<rparr>)) (\<lambda>_. vm_steps s) (vm_steps s)"
    proof (rule run_spec_weaken [OF save_via [where v = v and R = R]])
      fix st assume "?V (Inr (Probed p)) st"
      then show "journal_change st (v_instance_id v) (j\<lparr>l_phase := Ready\<rparr>)"
        using assms good
        by (intro change_journal [of v st j])
          (auto simp: via_def live_journal_def just_probed_def good_probe_def)
    qed (auto simp: via_def)
  qed
  show ?case
    unfolding setup_wait.simps
  proof (rule run_spec_bind [OF ask_catch])
    fix x
    show "run_spec (?V x)
        (case x of Inl _ \<Rightarrow> setup_wait n w v j
         | Inr (Probed p) \<Rightarrow>
             bind_run (require Guest_Mismatch (p_protocol p = 1 \<and> p_uid p = 0 \<and> p_cgroup_kill p)) (\<lambda>_.
               save_lifecycle w v (j\<lparr>l_phase := Ready\<rparr>))
         | Inr _ \<Rightarrow> stop Bad_Answer) (\<lambda>_. vm_steps s) (vm_steps s)"
    proof (cases x)
      case (Inl e)
      then show ?thesis using via_weaken [OF Suc] by (simp add: via_def)
    next
      case (Inr a)
      then show ?thesis
        using probed by (cases a) (auto intro!: run_spec_stop simp: via_def)
    qed
  qed simp
qed

lemma setup_via:
  "run_spec (via s (\<lambda>_. True) (\<lambda>_. True) (\<lambda>_. True)) (vm_setup w v recreate) (\<lambda>_. vm_steps s) (vm_steps s)"
  unfolding vm_setup_def operation_lock_def
proof (intro run_spec_bind [OF tries_via] run_spec_bind [OF check_registered_via]
    run_spec_bind [OF lifecycle_via] run_spec_fact run_spec_bind [OF require_via]
    run_spec_bind [OF check_provider_via] run_spec_bind [OF inspect_via])
  fix j :: lifecycle and x assume "l_owner j = v_owner v" "l_phase j \<noteq> Deleting"
  then have j: "live_journal v j" by (simp add: live_journal_def)
  let ?J = "\<lambda>js. True \<and> journal_for v js = j" and ?R = "\<lambda>_. True"
  have started: "run_spec (via s ?J ?R (found v x))
      (if is_running x then done_with j else setup_start w v recreate x j)
      (\<lambda>j' st. via s (\<lambda>js. journal_for v js = j') ?R (\<lambda>_. True) st \<and> live_journal v j') (vm_steps s)"
  proof (rule run_spec_if)
    show "run_spec (via s ?J ?R (found v x)) (done_with j)
        (\<lambda>j' st. via s (\<lambda>js. journal_for v js = j') ?R (\<lambda>_. True) st \<and> live_journal v j') (vm_steps s)"
      by (rule run_spec_done) (use j in \<open>auto simp: via_def\<close>)
    show "run_spec (via s ?J ?R (found v x)) (setup_start w v recreate x j)
        (\<lambda>j' st. via s (\<lambda>js. journal_for v js = j') ?R (\<lambda>_. True) st \<and> live_journal v j') (vm_steps s)"
      using setup_start_via [OF j, of s ?R x w recreate] by simp
  qed
  have wait: "run_spec (\<lambda>st. via s (\<lambda>js. journal_for v js = j') ?R (\<lambda>_. True) st \<and> live_journal v j')
      (bind_run (provider_output w (Install (v_instance_id v))) (\<lambda>_. setup_wait 20 w v j'))
      (\<lambda>_. vm_steps s) (vm_steps s)" for j'
    by (intro run_spec_fact run_spec_bind [OF ask_via] via_weaken [OF setup_wait_via])
      (auto simp: via_def live_journal_def journal_for_def phase_at_def split: option.splits)
  show "run_spec (via s ?J ?R (found v x))
      (bind_run (if is_running x then done_with j else setup_start w v recreate x j) (\<lambda>j'.
         bind_run (provider_output w (Install (v_instance_id v))) (\<lambda>_. setup_wait 20 w v j')))
      (\<lambda>_. vm_steps s) (vm_steps s)"
    by (rule run_spec_bind [OF started wait])
qed

lemma teardown_stop_via:
  assumes j: "live_journal v j"
  shows "run_spec (via s (\<lambda>js. journal_for v js = j) R (found v x)) (teardown_stop w v x j)
     (\<lambda>j' st. via s (\<lambda>js. journal_for v js = j') R (\<lambda>_. True) st \<and> live_journal v j') (vm_steps s)"
  unfolding teardown_stop_def Let_def
proof (intro run_spec_if run_spec_bind [OF save_via] run_spec_bind [OF ask_via] run_spec_fact
    run_spec_bind [OF inspect_via] run_spec_bind [OF require_via])
  fix st assume "via s (\<lambda>js. journal_for v js = j) R (found v x) st"
  then show "journal_change st (v_instance_id v) (j\<lparr>l_phase := Stopping\<rparr>)"
    using j by (intro change_journal [of v st j]) (auto simp: via_def live_journal_def)
next
  fix st assume "is_running x"
    and "via s (\<lambda>js. js (v_instance_id v) = Some (j\<lparr>l_phase := Stopping\<rparr>)) R (found v x) st"
  then show "allowed st (Stop (v_instance_id v))"
    using j
    by (auto simp: via_def phase_at_def owner_at_def live_journal_def is_running_def found_def inspected_def
        split: option.splits)
qed (rule run_spec_done, use j in \<open>auto simp: via_def live_journal_def journal_for_Some\<close>)+

lemma teardown_via:
  "run_spec (via s (\<lambda>_. True) (\<lambda>_. True) (\<lambda>_. True)) (vm_teardown w v) (\<lambda>_. vm_steps s) (vm_steps s)"
  unfolding vm_teardown_def operation_lock_def
proof (intro run_spec_bind [OF tries_via] run_spec_bind [OF check_registered_via]
    run_spec_bind [OF lifecycle_via] run_spec_fact run_spec_bind [OF require_via]
    run_spec_bind [OF check_provider_via] run_spec_bind [OF inspect_via])
  fix j :: lifecycle and x assume "l_owner j = v_owner v" "l_phase j \<noteq> Deleting"
  then have j: "live_journal v j" by (simp add: live_journal_def)
  have last: "run_spec (\<lambda>st. via s (\<lambda>js. journal_for v js = j') (\<lambda>_. True) (\<lambda>_. True) st \<and> live_journal v j')
      (save_lifecycle w v (j'\<lparr>l_phase := if l_phase j' = Created then Created else Stopped\<rparr>))
      (\<lambda>_. vm_steps s) (vm_steps s)" for j'
  proof (rule run_spec_fact, rule run_spec_weaken [OF save_via [where v = v and R = "\<lambda>_. True"]])
    fix st assume "live_journal v j'" "via s (\<lambda>js. journal_for v js = j') (\<lambda>_. True) (\<lambda>_. True) st"
    then show "journal_change st (v_instance_id v)
        (j'\<lparr>l_phase := if l_phase j' = Created then Created else Stopped\<rparr>)"
      by (intro change_journal [of v st j']) (auto simp: via_def live_journal_def split: if_splits)
  qed (auto simp: via_def)
  show "run_spec (via s (\<lambda>js. True \<and> journal_for v js = j) (\<lambda>_. True) (found v x))
      (bind_run (teardown_stop w v x j) (\<lambda>journal.
         save_lifecycle w v (journal\<lparr>l_phase := if l_phase journal = Created then Created else Stopped\<rparr>)))
      (\<lambda>_. vm_steps s) (vm_steps s)"
    using run_spec_bind [OF teardown_stop_via [OF j] last] by simp
qed

lemma delete_allowed_via:
  "run_spec (via s J R T) (delete_allowed consent x)
     (\<lambda>_ st. via s J R T st \<and> (\<forall>n. x = Some n \<longrightarrow>
        n_state n \<in> {Some ''stopped'', Some ''created''} \<and> n_mounts n = Some 0 \<and> consent)) (vm_steps s)"
  by (cases x)
    (auto simp: delete_allowed_def run_spec_def bind_run_def require_def done_with_def stop_def via_def)

lemma record_validated: "invalid_record rs = None \<Longrightarrow> bt_get rs i = Some (Vm_Record v) \<Longrightarrow> vm_validate v i = None"
  by (induction rs rule: invalid_record.induct) (auto simp: bt_get_def split: if_splits option.splits)

lemma delete_instance_via:
  assumes "l_phase j = Deleting" "l_owner j = v_owner v"
    and "\<And>n. x = Some n \<Longrightarrow> n_state n \<in> {Some ''stopped'', Some ''created''} \<and> n_mounts n = Some 0"
  shows "run_spec (via s (\<lambda>js. js (v_instance_id v) = Some j) R (found v x)) (delete_instance w v x)
     (\<lambda>_. via s (\<lambda>js. js (v_instance_id v) = Some j) R (\<lambda>_. True)) (vm_steps s)"
  unfolding delete_instance_def
proof (intro run_spec_if run_spec_bind [OF ask_via] run_spec_fact)
  fix st assume "x \<noteq> None" and "via s (\<lambda>js. js (v_instance_id v) = Some j) R (found v x) st"
  then show "allowed st (Delete (v_instance_id v))"
    using assms
    by (auto simp: via_def phase_at_def owner_at_def found_def inspected_def)
qed (rule run_spec_done, simp add: via_def)+

definition removed_from :: "((bytes, vm_record) btree \<Rightarrow> bool) \<Rightarrow> vm \<Rightarrow> (bytes, vm_record) btree \<Rightarrow> bool" where
  "removed_from R v r \<longleftrightarrow>
     (\<exists>rs u. R rs \<and> bt_get rs (v_id v) = Some (Vm_Record u) \<and> v_owner u = v_owner v \<and> r = bt_remove (v_id v) rs)"

lemma delete_record_via:
  assumes "l_phase j = Deleting" "handle_ok v"
  shows "run_spec (via s (\<lambda>js. js (v_instance_id v) = Some j) R (\<lambda>l. missing l (v_instance_id v)))
     (delete_record w v)
     (\<lambda>_. via s (\<lambda>js. js (v_instance_id v) = Some j) (removed_from R v) (\<lambda>_. True))
     (vm_steps s)"
  unfolding delete_record_def
proof (intro run_spec_bind [OF tries_via] run_spec_bind [OF records_via] run_spec_fact run_spec_bind [OF require_via])
  fix rs
  assume ok: "invalid_record rs = None"
    and "case bt_get rs (v_id v) of Some (Vm_Record c) \<Rightarrow> v_owner c = v_owner v | _ \<Rightarrow> False"
  then obtain u where u: "bt_get rs (v_id v) = Some (Vm_Record u)" "v_owner u = v_owner v"
    by (auto split: option.splits vm_record.splits)
  have inst: "v_instance_id u = v_instance_id v"
    using validated(2) [OF record_validated [OF ok u(1)]] assms(2) u(2)
    by (simp add: handle_ok_def validated(2))
  let ?P = "via s (\<lambda>js. js (v_instance_id v) = Some j) (\<lambda>r. R r \<and> r = rs) (\<lambda>l. missing l (v_instance_id v))"
  show "run_spec ?P (persists w Registry_File (\<lambda>st. st\<lparr>c_registry := Some (bt_remove (v_id v) rs)\<rparr>))
      (\<lambda>_. via s (\<lambda>js. js (v_instance_id v) = Some j) (removed_from R v) (\<lambda>_. True))
      (vm_steps s)"
  proof (rule persists_via)
    fix st assume st: "?P st"
    then have "vm_step st (st\<lparr>c_registry := Some (bt_remove (v_id v) (c_records st))\<rparr>)"
      using u inst assms(1) by (intro vm_step.remove [where v = u]) (auto simp: via_def phase_at_def)
    then show "vm_step st (st\<lparr>c_registry := Some (bt_remove (v_id v) rs)\<rparr>) \<and>
        c_journals (st\<lparr>c_registry := Some (bt_remove (v_id v) rs)\<rparr>) (v_instance_id v) = Some j \<and>
        removed_from R v (c_records (st\<lparr>c_registry := Some (bt_remove (v_id v) rs)\<rparr>)) \<and> True"
      using st u by (auto simp: via_def c_records_def removed_from_def)
  qed
qed

lemma delete_via:
  assumes v: "handle_ok v"
  shows "run_spec (via s (\<lambda>_. True) R (\<lambda>_. True)) (vm_delete w v consent)
     (\<lambda>_. via s (\<lambda>js. map_option l_phase (js (v_instance_id v)) = Some Deleting)
        (removed_from R v) (\<lambda>_. True)) (vm_steps s)"
  unfolding vm_delete_def operation_lock_def
proof (intro run_spec_bind [OF tries_via] run_spec_bind [OF check_registered_via]
    run_spec_bind [OF lifecycle_via] run_spec_fact run_spec_bind [OF check_provider_via]
    run_spec_bind [OF inspect_via] run_spec_bind [OF delete_allowed_via] run_spec_bind [OF save_via])
  fix x :: "instance_of option" and st and j :: lifecycle
  assume "l_owner j = v_owner v"
    and "via s (\<lambda>js. True \<and> journal_for v js = j) R (found v x) st"
  then show "journal_change st (v_instance_id v) (j\<lparr>l_phase := Deleting\<rparr>)"
    by (intro change_journal [of v st j]) (auto simp: via_def)
next
  fix x :: "instance_of option" and j :: lifecycle
  assume j: "l_owner j = v_owner v"
    and x: "\<forall>n. x = Some n \<longrightarrow> n_state n \<in> {Some ''stopped'', Some ''created''} \<and> n_mounts n = Some 0 \<and> consent"
  show "run_spec (via s (\<lambda>js. js (v_instance_id v) = Some (j\<lparr>l_phase := Deleting\<rparr>)) R (found v x))
      (bind_run (delete_instance w v x) (\<lambda>_.
       bind_run (inspect w v) (\<lambda>after.
       bind_run (require Still_Exists (after = None)) (\<lambda>_. delete_record w v))))
      (\<lambda>_. via s (\<lambda>js. map_option l_phase (js (v_instance_id v)) = Some Deleting)
         (removed_from R v) (\<lambda>_. True)) (vm_steps s)"
    by (intro run_spec_bind [OF delete_instance_via] run_spec_bind [OF inspect_via] run_spec_bind [OF require_via]
        run_spec_fact run_spec_weaken [OF delete_record_via [OF _ v, where R = R]])
      (use j x in \<open>auto simp: found_def via_def\<close>)
qed

lemma ready_journal:
  "l_phase (journal_for v (c_journals st)) = Ready \<Longrightarrow> l_owner (journal_for v (c_journals st)) = v_owner v \<Longrightarrow>
     phase_at st (v_instance_id v) = Ready \<and> owner_at st (v_instance_id v) = Some (v_owner v)"
  by (auto simp: journal_for_def phase_at_def owner_at_def split: option.splits)

abbreviation ready_for :: "vm \<Rightarrow> (bytes \<Rightarrow> lifecycle option) \<Rightarrow> bool" where
  "ready_for v js \<equiv> l_phase (journal_for v js) = Ready \<and> l_owner (journal_for v js) = v_owner v"

lemma guest_probe_via:
  "run_spec (via s J R (\<lambda>l. inspected l i own f)) (bind_run (provider_output w (Probe i)) (\<lambda>a.
       case a of Probed p \<Rightarrow> done_with p | _ \<Rightarrow> stop Bad_Answer))
     (\<lambda>p. via s J R (\<lambda>l. \<exists>xs j. l = xs @ [Asked (Probe i) (Probed p) j] \<and> inspected xs i own f)) (vm_steps s)"
  by (rule ask_free) (auto intro!: run_spec_done run_spec_stop simp: via_def split: provider_answer.split)

lemma found_running: "found v x l \<Longrightarrow> is_running x \<Longrightarrow>
    inspected l (v_instance_id v) (Some (v_owner v)) (\<lambda>n. n_state n = Some ''running'')"
  by (auto simp: found_def is_running_def inspected_def split: option.splits)

lemma running_guest_via:
  "run_spec (via s (\<lambda>_. True) (\<lambda>_. True) (\<lambda>_. True)) (running_guest w v)
     (\<lambda>p. via s (ready_for v) (\<lambda>_. True)
        (\<lambda>l. running_probed l (v_instance_id v) (Some (v_owner v)) (\<lambda>q. q = p))) (vm_steps s)"
  unfolding running_guest_def operation_lock_def require_ready_def guest_probe_def
proof (intro run_spec_bind [OF tries_via] run_spec_bind [OF check_registered_via])
  have ready: "run_spec (via s (\<lambda>_. True) (\<lambda>_. True) (\<lambda>_. True))
      (bind_run (lifecycle_of w v) (\<lambda>j. require Not_Ready (l_phase j = Ready)))
      (\<lambda>_. via s (ready_for v) (\<lambda>_. True) (\<lambda>_. True)) (vm_steps s)"
    by (intro run_spec_bind [OF lifecycle_via] run_spec_fact run_spec_require) (auto simp: via_def)
  have probed: "run_spec (via s (ready_for v) (\<lambda>_. True) (found v x))
      (bind_run (provider_output w (Probe (v_instance_id v))) (\<lambda>a.
         case a of Probed p \<Rightarrow> done_with p | _ \<Rightarrow> stop Bad_Answer))
      (\<lambda>p. via s (ready_for v) (\<lambda>_. True)
        (\<lambda>l. running_probed l (v_instance_id v) (Some (v_owner v)) (\<lambda>q. q = p))) (vm_steps s)"
    if "is_running x" for x
    by (rule run_spec_weaken [OF guest_probe_via [of s "ready_for v" "\<lambda>_. True"]])
      (use that in \<open>auto simp: via_def running_probed_def dest: found_running\<close>)
  show "run_spec (via s (\<lambda>_. True) (\<lambda>_. True) (\<lambda>_. True))
      (bind_run (bind_run (lifecycle_of w v) (\<lambda>j. require Not_Ready (l_phase j = Ready))) (\<lambda>_.
       bind_run (check_provider w) (\<lambda>_.
       bind_run (inspect w v) (\<lambda>current.
       bind_run (require Not_Running (is_running current)) (\<lambda>_.
       bind_run (provider_output w (Probe (v_instance_id v))) (\<lambda>a.
         case a of Probed p \<Rightarrow> done_with p | _ \<Rightarrow> stop Bad_Answer))))))
      (\<lambda>p. via s (ready_for v) (\<lambda>_. True)
        (\<lambda>l. running_probed l (v_instance_id v) (Some (v_owner v)) (\<lambda>q. q = p))) (vm_steps s)"
    by (intro run_spec_bind [OF ready] run_spec_bind [OF check_provider_via] run_spec_bind [OF inspect_via]
        run_spec_bind [OF require_via] run_spec_fact probed)
qed

lemma validate_command_via [run_rules]:
  "run_spec (via s J R T) (validate_command c d) (\<lambda>_. via s J R T) (vm_steps s)"
  unfolding validate_command_def
  by (intro run_spec_bind [OF require_via] run_spec_fact run_spec_require) (auto simp: via_def)

lemma exec_result_via: "run_spec (via s J R T) (exec_result w v) (\<lambda>_. vm_steps s) (vm_steps s)"
  unfolding exec_result_def
  by (rule ask_free)
    (auto intro!: run_spec_done run_spec_stop simp: via_def split: provider_answer.split option.split)

lemma interrupted_via: "run_spec (via s J R T) (exec_interrupted w v) (\<lambda>_. via s J R (\<lambda>_. True)) (vm_steps s)"
  unfolding exec_interrupted_def
  by (rule ask_free, simp, rule run_spec_weaken [OF tries_via [of s J R]]) (auto simp: via_def)

lemma guest_command_allowed:
  assumes "via s (ready_for v) R (\<lambda>l. running_probed l (v_instance_id v) (Some (v_owner v)) (\<lambda>q. q = p)) st"
  shows "p_protocol p = 1 \<Longrightarrow> allowed st (Exec (v_instance_id v) tok)"
    and "p_import_protocol p = 1 \<Longrightarrow> allowed st (Import (v_instance_id v))"
  using assms ready_journal [of v st] by (auto simp: via_def running_probed_def)

lemma exec_via:
  "run_spec (via s (\<lambda>_. True) (\<lambda>_. True) (\<lambda>_. True)) (vm_exec w v command duration cancelled)
     (\<lambda>_. vm_steps s) (vm_steps s)"
  unfolding vm_exec_def
proof (intro run_spec_bind [OF validate_command_via] run_spec_bind [OF running_guest_via]
    run_spec_bind [OF require_via] run_spec_fact run_spec_if run_spec_bind [OF ask_via])
  fix p :: probe and a assume "p_protocol p = 1"
  let ?L = "\<lambda>log. \<exists>l j. running_probed l (v_instance_id v) (Some (v_owner v)) (\<lambda>q. q = p) \<and>
      log = l @ [Asked (Exec (v_instance_id v) (a_random w)) a j]"
  have "run_spec (via s (ready_for v) (\<lambda>_. True) ?L)
      (if a = Interrupted then exec_interrupted w v else done_with ())
      (\<lambda>_. via s (ready_for v) (\<lambda>_. True) (\<lambda>_. True)) (vm_steps s)"
    by (intro run_spec_if interrupted_via run_spec_done) (simp add: via_def)
  then show "run_spec (via s (ready_for v) (\<lambda>_. True) ?L)
      (bind_run (if a = Interrupted then exec_interrupted w v else done_with ()) (\<lambda>_. exec_result w v))
      (\<lambda>_. vm_steps s) (vm_steps s)"
    by (rule run_spec_bind) (rule exec_result_via)
qed (erule (1) guest_command_allowed(1) | rule run_spec_done, erule via_steps)+

lemma import_via:
  "run_spec (via s (\<lambda>_. True) (\<lambda>_. True) (\<lambda>_. True)) (vm_import w v cancelled) (\<lambda>_. vm_steps s) (vm_steps s)"
  unfolding vm_import_def
  by (intro run_spec_bind [OF running_guest_via] run_spec_bind [OF require_via] run_spec_fact
      run_spec_bind [OF tries_via] run_spec_bind [OF ask_via] run_spec_require)
    (erule (1) guest_command_allowed(2) | erule via_steps)+

lemma catch_via:
  assumes "run_spec P r (\<lambda>_. vm_steps s) (vm_steps s)"
  shows "run_spec P (catch r) (\<lambda>_. vm_steps s) (vm_steps s)"
  using assms by (fastforce simp: run_spec_def catch_def split: prod.splits sum.splits)

lemma show_via:
  "run_spec (via s (\<lambda>_. True) (\<lambda>_. True) (\<lambda>_. True)) (vm_show w v)
     (\<lambda>_. via s (\<lambda>_. True) (\<lambda>_. True) (\<lambda>_. True)) (vm_steps s)"
  unfolding vm_show_def
proof (intro run_spec_bind [OF lifecycle_via] run_spec_fact run_spec_bind [OF catch_via] run_spec_done)
  fix j :: lifecycle
  show "run_spec (via s (\<lambda>js. True \<and> journal_for v js = j) (\<lambda>_. True) (\<lambda>_. True))
      (bind_run (check_provider w) (\<lambda>_. inspect w v)) (\<lambda>_. vm_steps s) (vm_steps s)"
    by (intro run_spec_bind [OF check_provider_via] run_spec_weaken [OF inspect_via]) (auto simp: via_def)
qed (simp add: via_def)

lemma show_all_via:
  "run_spec (via s (\<lambda>_. True) (\<lambda>_. True) (\<lambda>_. True)) (show_all w rs)
     (\<lambda>_. via s (\<lambda>_. True) (\<lambda>_. True) (\<lambda>_. True)) (vm_steps s)"
  by (induction w rs rule: show_all.induct)
    (auto intro!: run_spec_done run_spec_bind [OF show_via] intro: run_spec_bind)

lemma list_via:
  "run_spec (via s (\<lambda>_. True) (\<lambda>_. True) (\<lambda>_. True)) (vm_list w)
     (\<lambda>_. via s (\<lambda>_. True) (\<lambda>_. True) (\<lambda>_. True)) (vm_steps s)"
  unfolding vm_list_def
  by (intro run_spec_bind [OF records_via] run_spec_fact run_spec_weaken [OF show_all_via]) (auto simp: via_def)

text \<open>
  A new machine has a new name: the random owner is of no journal and of no record.
\<close>

definition fresh_owner :: "vm_state \<Rightarrow> bytes \<Rightarrow> bool" where
  "fresh_owner st own \<longleftrightarrow>
     c_journals st (''world-'' @ own) = None \<and>
     (\<forall>i u. bt_get (c_records st) i = Some (Vm_Record u) \<longrightarrow> v_owner u \<noteq> own)"

abbreviation owner_unused :: "bytes \<Rightarrow> (bytes, vm_record) btree \<Rightarrow> bool" where
  "owner_unused own rs \<equiv> \<forall>i u. bt_get rs i = Some (Vm_Record u) \<longrightarrow> v_owner u \<noteq> own"

lemma backup_via:
  "run_spec (via s J R T) (backup_registry w) (\<lambda>_. via s J R T) (vm_steps s)"
  unfolding backup_registry_def
proof (intro run_spec_bind [OF run_spec_look [where Q = "\<lambda>_. via s J R T"]] run_spec_if run_spec_done)
  show "run_spec (via s J R T) (persists w Backup_File (\<lambda>st. st\<lparr>c_backup := True\<rparr>)) (\<lambda>_. via s J R T)
      (vm_steps s)"
    by (rule persists_via) (auto simp: via_def c_records_def intro: vm_step.backup)
qed

lemma new_journal_via:
  "run_spec (via s (\<lambda>js. js (v_instance_id v) = None) R T)
     (save_lifecycle w v \<lparr>l_owner = v_owner v, l_phase = Created, l_generation = 0\<rparr>)
     (\<lambda>_. via s (\<lambda>js. js (v_instance_id v) = Some \<lparr>l_owner = v_owner v, l_phase = Created, l_generation = 0\<rparr>) R T)
     (vm_steps s)"
  unfolding save_lifecycle_def
  by (rule persists_via) (auto simp: via_def c_records_def intro: vm_step.new_journal)

lemma register_via:
  assumes "vm_validate v i = None" "bt_get rs i = None" "owner_unused (v_owner v) rs"
  shows "run_spec
     (via s (\<lambda>js. js (v_instance_id v) = Some \<lparr>l_owner = v_owner v, l_phase = Created, l_generation = 0\<rparr>) (\<lambda>r. r = rs) T)
     (persists w Registry_File (\<lambda>st. st\<lparr>c_registry := Some (bt_insert i (Vm_Record v) rs)\<rparr>))
     (\<lambda>_. via s (\<lambda>_. True) (\<lambda>_. True) T) (vm_steps s)" (is "run_spec ?P _ _ _")
proof (rule persists_via)
  fix st assume st: "?P st"
  then have "vm_step st (st\<lparr>c_registry := Some (bt_insert i (Vm_Record v) (c_records st))\<rparr>)"
    using assms by (intro vm_step.register) (auto simp: via_def phase_at_def)
  then show "vm_step st (st\<lparr>c_registry := Some (bt_insert i (Vm_Record v) rs)\<rparr>) \<and> True \<and> True \<and>
      T (c_log (st\<lparr>c_registry := Some (bt_insert i (Vm_Record v) rs)\<rparr>))"
    using st by (simp add: via_def)
qed

lemma create_new_via:
  assumes "vm_validate v i = None" "bt_get rs i = None" "owner_unused (v_owner v) rs"
  shows "run_spec (via s (\<lambda>js. js (v_instance_id v) = None) (\<lambda>r. r = rs) T)
     (bind_run (backup_registry w) (\<lambda>_.
      bind_run (save_lifecycle w v \<lparr>l_owner = v_owner v, l_phase = Created, l_generation = 0\<rparr>) (\<lambda>_.
      bind_run (persists w Registry_File (\<lambda>st. st\<lparr>c_registry := Some (bt_insert i (Vm_Record v) rs)\<rparr>)) (\<lambda>_.
        done_with v))))
     (\<lambda>_. vm_steps s) (vm_steps s)"
  by (intro run_spec_bind [OF backup_via] run_spec_bind [OF new_journal_via]
      run_spec_bind [OF register_via [OF assms]] run_spec_done) (simp add: via_def)

lemma create_via:
  "run_spec (via s (\<lambda>js. js (''world-'' @ a_random w) = None) (owner_unused (a_random w)) (\<lambda>_. True))
     (vm_create w i cpus mem) (\<lambda>_. vm_steps s) (vm_steps s)"
  unfolding vm_create_def Let_def
proof (intro run_spec_bind [OF require_via] run_spec_fact run_spec_bind [OF tries_via] run_spec_bind [OF records_via])
  fix rs :: "(bytes, vm_record) btree"
  let ?v = "vm_new w i cpus mem"
  let ?P = "via s (\<lambda>js. js (''world-'' @ a_random w) = None) (\<lambda>r. owner_unused (a_random w) r \<and> r = rs) (\<lambda>_. True)"
  have fresh: "run_spec ?P
      (bind_run (backup_registry w) (\<lambda>_.
       bind_run (save_lifecycle w ?v \<lparr>l_owner = v_owner ?v, l_phase = Created, l_generation = 0\<rparr>) (\<lambda>_.
       bind_run (persists w Registry_File (\<lambda>st. st\<lparr>c_registry := Some (bt_insert i (Vm_Record ?v) rs)\<rparr>)) (\<lambda>_.
         done_with ?v)))) (\<lambda>_. vm_steps s) (vm_steps s)"
    if "vm_validate ?v i = None" "bt_get rs i = None"
  proof (cases "owner_unused (a_random w) rs")
    case True
    then show ?thesis
      using create_new_via [OF that, of s "\<lambda>_. True" w]
      by (intro run_spec_weaken [OF create_new_via [OF that, where T = "\<lambda>_. True"]])
        (auto simp: via_def vm_new_def)
  next
    case False
    then show ?thesis by (auto simp: run_spec_def via_def)
  qed
  have known: "run_spec ?P
      (bind_run (lifecycle_of w v) (\<lambda>j.
       bind_run (require Deletion_Pending (l_phase j \<noteq> Deleting)) (\<lambda>_.
       bind_run (require Other_Resources (v_cpus v = cpus \<and> v_memory_mib v = mem)) (\<lambda>_. done_with v))))
      (\<lambda>_. vm_steps s) (vm_steps s)" for v :: vm
    by (intro run_spec_bind [OF lifecycle_via] run_spec_fact run_spec_bind [OF require_via] run_spec_done)
      (simp add: via_def)
  show "run_spec ?P
      (case bt_get rs i of
         Some (Vm_Record v) \<Rightarrow>
           bind_run (lifecycle_of w v) (\<lambda>j.
           bind_run (require Deletion_Pending (l_phase j \<noteq> Deleting)) (\<lambda>_.
           bind_run (require Other_Resources (v_cpus v = cpus \<and> v_memory_mib v = mem)) (\<lambda>_. done_with v)))
       | Some Native_Record \<Rightarrow> stop Uses_Native
       | None \<Rightarrow>
           (case vm_validate ?v i of
              Some e \<Rightarrow> stop e
            | None \<Rightarrow>
                bind_run (backup_registry w) (\<lambda>_.
                bind_run (save_lifecycle w ?v \<lparr>l_owner = v_owner ?v, l_phase = Created, l_generation = 0\<rparr>) (\<lambda>_.
                bind_run (persists w Registry_File (\<lambda>st. st\<lparr>c_registry := Some (bt_insert i (Vm_Record ?v) rs)\<rparr>)) (\<lambda>_.
                  done_with ?v)))))
      (\<lambda>_. vm_steps s) (vm_steps s)"
    using known fresh
    by (auto intro: run_spec_stop simp: via_def split: option.split vm_record.split)
qed

end
