(* ===== verification/Vm_Props.thy ===== *)
theory Vm_Props
  imports Vm_Steps
begin

text \<open>
  What holds of every history of operations on virtual machines, each of which may fail or end at
  any of its effects.
\<close>

section \<open>Histories\<close>

datatype vm_op =
    Vm_Create bytes u32 u32
  | Vm_Setup vm bool
  | Vm_Teardown vm
  | Vm_Delete vm bool
  | Vm_Exec vm "bytes list" int bool
  | Vm_Import vm bool
  | Vm_Show vm
  | Vm_List

fun after_op :: "world_around \<Rightarrow> vm_op \<Rightarrow> vm_state \<Rightarrow> vm_state" where
  "after_op w (Vm_Create i cpus mem) st = fst (vm_create w i cpus mem st)"
| "after_op w (Vm_Setup v recreate) st = fst (vm_setup w v recreate st)"
| "after_op w (Vm_Teardown v) st = fst (vm_teardown w v st)"
| "after_op w (Vm_Delete v consent) st = fst (vm_delete w v consent st)"
| "after_op w (Vm_Exec v command duration cancelled) st = fst (vm_exec w v command duration cancelled st)"
| "after_op w (Vm_Import v cancelled) st = fst (vm_import w v cancelled st)"
| "after_op w (Vm_Show v) st = fst (vm_show w v st)"
| "after_op w Vm_List st = fst (vm_list w st)"

fun op_ok :: "world_around \<Rightarrow> vm_op \<Rightarrow> vm_state \<Rightarrow> bool" where
  "op_ok w (Vm_Create _ _ _) st = fresh_owner st (a_random w)"
| "op_ok w (Vm_Delete v _) st = handle_ok v"
| "op_ok w _ st = True"

fun after_ops :: "(world_around \<times> vm_op) list \<Rightarrow> vm_state \<Rightarrow> vm_state" where
  "after_ops [] st = st"
| "after_ops ((w, c) # cs) st = after_ops cs (after_op w c st)"

fun ops_ok :: "(world_around \<times> vm_op) list \<Rightarrow> vm_state \<Rightarrow> bool" where
  "ops_ok [] st = True"
| "ops_ok ((w, c) # cs) st = (op_ok w c st \<and> ops_ok cs (after_op w c st))"

lemma run_spec_after: "run_spec P r (\<lambda>_. Q) Q \<Longrightarrow> P st \<Longrightarrow> Q (fst (r st))"
  using run_specD [of P r "\<lambda>_. Q" Q st "fst (r st)" "snd (r st)"] by (simp split: sum.splits)

lemma via_after:
  "run_spec (via s (\<lambda>_. True) (\<lambda>_. True) (\<lambda>_. True)) r (\<lambda>_. vm_steps s) (vm_steps s) \<Longrightarrow> vm_steps s (fst (r s))"
  by (erule run_spec_after) (simp add: via_def)

lemma op_steps: "op_ok w c st \<Longrightarrow> vm_steps st (after_op w c st)"
proof (cases c)
  case (Vm_Show v)
  have "run_spec (via st (\<lambda>_. True) (\<lambda>_. True) (\<lambda>_. True)) (vm_show w v) (\<lambda>_. vm_steps st) (vm_steps st)"
    by (rule run_spec_weaken [OF show_via]) (auto simp: via_def)
  then show ?thesis using via_after Vm_Show by simp
next
  case Vm_List
  have "run_spec (via st (\<lambda>_. True) (\<lambda>_. True) (\<lambda>_. True)) (vm_list w) (\<lambda>_. vm_steps st) (vm_steps st)"
    by (rule run_spec_weaken [OF list_via]) (auto simp: via_def)
  then show ?thesis using via_after Vm_List by simp
next
  case (Vm_Delete v consent)
  assume "op_ok w c st"
  then have "run_spec (via st (\<lambda>_. True) (\<lambda>_. True) (\<lambda>_. True)) (vm_delete w v consent) (\<lambda>_. vm_steps st) (vm_steps st)"
    using Vm_Delete by (intro run_spec_weaken [OF delete_via]) (auto simp: via_def)
  then show ?thesis using via_after Vm_Delete by simp
qed (use via_after [OF setup_via] via_after [OF teardown_via]
    via_after [OF exec_via]
    via_after [OF import_via] run_spec_after [OF create_via]
    in \<open>auto simp: via_def fresh_owner_def\<close>)

text \<open>
  A property that every step keeps is kept by every history, whatever fails.
\<close>

locale kept_by_steps =
  fixes I :: "vm_state \<Rightarrow> bool"
  assumes step: "I st \<Longrightarrow> vm_step st st' \<Longrightarrow> I st'"
begin

lemma steps: "vm_steps st st' \<Longrightarrow> I st \<Longrightarrow> I st'"
  by (induction rule: rtranclp_induct) (auto intro: step)

lemma history: "ops_ok ops st \<Longrightarrow> I st \<Longrightarrow> I (after_ops ops st)"
  by (induction ops st rule: after_ops.induct) (auto intro: steps op_steps)

end

text \<open>
  C29 (refinement). Every operation on virtual machines, with whatever handle and whatever the
  provider answers, and ending at whichever of its effects, is a sequence of steps of the abstract
  machine: it gives a command only when that command is allowed, changes a journal only along the
  phases, and touches the registry only to add a new machine or to remove a deleted one.
\<close>

theorem vm_operations_refine:
  assumes "ops_ok ops st"
  shows "vm_steps st (after_ops ops st)"
proof -
  have "kept_by_steps (vm_steps st)"
    by unfold_locales (rule rtranclp.rtrancl_into_rtrancl)
  then show ?thesis
    using assms by (rule kept_by_steps.history) simp
qed

section \<open>Commands to the provider\<close>

text \<open>
  When a command is right, by the log before it and the journal that is on disk when it is given.
\<close>

fun permitted :: "provider_event list \<Rightarrow> lifecycle option \<Rightarrow> command \<Rightarrow> bool" where
  "permitted log j (Create i v) \<longleftrightarrow>
     map_option l_phase j = Some Provisioning \<and> map_option l_owner j = Some (v_owner v) \<and> v_instance_id v = i \<and>
     none_running log (\<lambda>log. missing log i)"
| "permitted log j (Start i) \<longleftrightarrow>
     map_option l_phase j = Some Starting \<and>
     (just_made log i \<or> none_running log (\<lambda>log. inspected log i (map_option l_owner j) (\<lambda>_. True)))"
| "permitted log j (Stop i) \<longleftrightarrow>
     map_option l_phase j = Some Stopping \<and>
     inspected log i (map_option l_owner j) (\<lambda>n. n_state n = Some ''running'')"
| "permitted log j (Delete i) \<longleftrightarrow>
     map_option l_phase j = Some Deleting \<and>
     inspected log i (map_option l_owner j)
       (\<lambda>n. n_state n \<in> {Some ''stopped'', Some ''created''} \<and> n_mounts n = Some 0)"
| "permitted log j (Exec i _) \<longleftrightarrow>
     map_option l_phase j = Some Ready \<and>
     running_probed log i (map_option l_owner j) (\<lambda>p. p_protocol p = 1)"
| "permitted log j (Import i) \<longleftrightarrow>
     map_option l_phase j = Some Ready \<and>
     running_probed log i (map_option l_owner j) (\<lambda>p. p_import_protocol p = 1)"
| "permitted log j (Install i) \<longleftrightarrow> map_option l_phase j \<noteq> Some Deleting"
| "permitted log j _ \<longleftrightarrow> True"

lemma phase_at_journal: "p \<noteq> Legacy \<Longrightarrow> phase_at st i = p \<longleftrightarrow> map_option l_phase (c_journals st i) = Some p"
  by (auto simp: phase_at_def split: option.splits)

lemma allowed_permitted: "allowed st c \<Longrightarrow> permitted (c_log st) (Option.bind (target c) (c_journals st)) c"
  by (cases c) (auto simp: phase_at_journal owner_at_def)

definition log_permitted :: "provider_event list \<Rightarrow> bool" where
  "log_permitted log \<longleftrightarrow> (\<forall>xs c a j ys. log = xs @ Asked c a j # ys \<longrightarrow> permitted xs j c)"

lemma log_permitted_snoc:
  "log_permitted log \<Longrightarrow> permitted log j c \<Longrightarrow> log_permitted (log @ [Asked c a j])"
  unfolding log_permitted_def
proof (intro allI impI)
  fix xs c' a' j' ys
  assume log: "\<forall>xs c a j ys. log = xs @ Asked c a j # ys \<longrightarrow> permitted xs j c" "permitted log j c"
    and eq: "log @ [Asked c a j] = xs @ Asked c' a' j' # ys"
  show "permitted xs j' c'"
  proof (cases ys rule: rev_cases)
    case Nil
    then show ?thesis using log(2) eq by simp
  next
    case (snoc zs z)
    then have "log = xs @ Asked c' a' j' # zs" using eq by simp
    then show ?thesis using log(1) by simp
  qed
qed

interpretation commands: kept_by_steps "\<lambda>st. log_permitted (c_log st)"
proof unfold_locales
  fix st st' assume "log_permitted (c_log st)" "vm_step st st'"
  then show "log_permitted (c_log st')"
    by (cases rule: vm_step.cases [OF \<open>vm_step st st'\<close>])
      (auto intro: log_permitted_snoc allowed_permitted)
qed

text \<open>
  C30 (safety). In every history that begins with an empty log, each command was right when it was
  given: a machine is deleted only under a journal that says so, right after the provider described
  it as ours, stopped and without mounts; it is created only where it was missing and nothing ran;
  commands run in it only when the journal says ready and it was seen running and probed.
\<close>

theorem vm_commands_permitted:
  assumes "c_log st = []" and "ops_ok ops st"
    and "c_log (after_ops ops st) = xs @ Asked c a j # ys"
  shows "permitted xs j c"
proof -
  have "log_permitted (c_log (after_ops ops st))"
    using assms(1) by (intro commands.history [OF assms(2)]) (simp add: log_permitted_def)
  then show ?thesis using assms(3) by (simp add: log_permitted_def)
qed

section \<open>Deletion\<close>

fun revives :: "bytes \<Rightarrow> provider_event \<Rightarrow> bool" where
  "revives i (Asked (Create i' _) _ _) = (i' = i)"
| "revives i (Asked (Start i') _ _) = (i' = i)"
| "revives i (Asked (Stop i') _ _) = (i' = i)"
| "revives i (Asked (Install i') _ _) = (i' = i)"
| "revives i (Asked (Exec i' _) _ _) = (i' = i)"
| "revives i (Asked (Import i') _ _) = (i' = i)"
| "revives i _ = False"

lemma deleting_not_revived:
  "allowed st c \<Longrightarrow> phase_at st i = Deleting \<Longrightarrow> \<not> revives i (Asked c a j)"
  by (cases c) auto

lemma deleting_stays: "journal_change st i' j \<Longrightarrow> phase_at st i = Deleting \<Longrightarrow> i' = i \<Longrightarrow> l_phase j = Deleting"
  by (cases "l_phase j") (auto simp: journal_change_def)

definition dead_since :: "bytes \<Rightarrow> provider_event list \<Rightarrow> vm_state \<Rightarrow> bool" where
  "dead_since i log st \<longleftrightarrow>
     phase_at st i = Deleting \<and> (\<exists>ys. c_log st = log @ ys \<and> list_all (\<lambda>e. \<not> revives i e) ys)"

lemma dead_since_step:
  assumes "dead_since i log st" "vm_step st st'"
  shows "dead_since i log st'"
  using assms(2)
proof cases
  case (ask c a)
  obtain ys where ys: "c_log st = log @ ys" "list_all (\<lambda>e. \<not> revives i e) ys" and "phase_at st i = Deleting"
    using assms(1) by (auto simp: dead_since_def)
  then have "\<not> revives i (Asked c a (Option.bind (target c) (c_journals st)))"
    using ask deleting_not_revived by blast
  then show ?thesis
    using ys \<open>phase_at st i = Deleting\<close> ask by (auto simp: dead_since_def phase_at_def)
next
  case (journal i' j)
  then show ?thesis
    using assms(1) deleting_stays [of st i' j i] by (auto simp: dead_since_def phase_at_def)
qed (use assms(1) in \<open>auto simp: dead_since_def phase_at_def\<close>)

interpretation dead: kept_by_steps "dead_since i log" for i log
  by unfold_locales (rule dead_since_step)

text \<open>
  C31 (invariant). A machine whose deletion has been journalled is never revived: in every later
  history its journal stays so, also after its record is gone, and it is not created, started,
  stopped, given a new helper, or used to run anything.
\<close>

theorem vm_deletion_final:
  assumes "phase_at st i = Deleting" and "ops_ok ops st"
  shows "phase_at (after_ops ops st) i = Deleting \<and>
    (\<exists>ys. c_log (after_ops ops st) = c_log st @ ys \<and> list_all (\<lambda>e. \<not> revives i e) ys)"
  using dead.history [OF assms(2), of i "c_log st"] assms(1) by (simp add: dead_since_def)

section \<open>Readiness\<close>

fun disturbs :: "bytes \<Rightarrow> provider_event \<Rightarrow> bool" where
  "disturbs i (Asked (Create i' _) _ _) = (i' = i)"
| "disturbs i (Asked (Start i') _ _) = (i' = i)"
| "disturbs i (Asked (Stop i') _ _) = (i' = i)"
| "disturbs i (Asked (Delete i') _ _) = (i' = i)"
| "disturbs i _ = False"

definition verified :: "provider_event list \<Rightarrow> bytes \<Rightarrow> bool" where
  "verified log i \<longleftrightarrow>
     (\<exists>xs p j ys. log = xs @ Asked (Probe i) (Probed p) j # ys \<and> good_probe p \<and>
        list_all (\<lambda>e. \<not> disturbs i e) ys)"

lemma verified_snoc: "verified log i \<Longrightarrow> \<not> disturbs i e \<Longrightarrow> verified (log @ [e]) i"
proof -
  assume "verified log i" "\<not> disturbs i e"
  then obtain xs p j ys where "log = xs @ Asked (Probe i) (Probed p) j # ys" "good_probe p"
      "list_all (\<lambda>e. \<not> disturbs i e) (ys @ [e])"
    by (auto simp: verified_def)
  then show ?thesis unfolding verified_def by (metis append_Cons append_assoc)
qed

lemma probed_verified: "just_probed log i good_probe \<Longrightarrow> verified log i"
  by (fastforce simp: just_probed_def verified_def)

lemma ready_not_disturbed: "allowed st c \<Longrightarrow> phase_at st i = Ready \<Longrightarrow> \<not> disturbs i (Asked c a j)"
  by (cases c) auto

definition ready_verified :: "vm_state \<Rightarrow> bool" where
  "ready_verified st \<longleftrightarrow> (\<forall>i. phase_at st i = Ready \<longrightarrow> verified (c_log st) i)"

lemma ready_verified_step:
  assumes "ready_verified st" "vm_step st st'"
  shows "ready_verified st'"
  using assms(2)
proof cases
  case (ask c a)
  then show ?thesis
    using assms(1) ready_not_disturbed [of st c]
    by (auto simp: ready_verified_def phase_at_def intro!: verified_snoc)
next
  case (journal i j)
  then show ?thesis
    using assms(1) by (auto simp: ready_verified_def phase_at_def journal_change_def intro: probed_verified)
qed (use assms(1) in \<open>auto simp: ready_verified_def phase_at_def\<close>)

interpretation ready: kept_by_steps ready_verified
  by unfold_locales (rule ready_verified_step)

text \<open>
  C32 (invariant). A journal says ready only of a machine whose guest answered a probe with the right
  protocol, as root and with control of its processes, after which the machine was not created,
  started, stopped or deleted again.
\<close>

theorem vm_ready_verified:
  assumes "\<forall>i. phase_at st i \<noteq> Ready" and "ops_ok ops st"
    and "phase_at (after_ops ops st) i = Ready"
  shows "verified (c_log (after_ops ops st)) i"
  using ready.history [OF assms(2)] assms(1,3) by (simp add: ready_verified_def)

text \<open>The generation of a machine only grows; it cannot wrap around.\<close>

definition generation_from :: "bytes \<Rightarrow> u64 \<Rightarrow> vm_state \<Rightarrow> bool" where
  "generation_from i g st \<longleftrightarrow> g \<le> generation_at st i"

lemma word_less_Suc: "(x :: u64) \<noteq> - 1 \<Longrightarrow> x < x + 1"
  using unatSuc [of x] by (metis add.commute add_eq_0_iff lessI minus_unique word_less_nat_alt)

interpretation generation: kept_by_steps "generation_from i g" for i g
proof unfold_locales
  fix st st' assume st: "generation_from i g st" and "vm_step st st'"
  from this(2) show "generation_from i g st'"
  proof cases
    case (journal i' j)
    then show ?thesis
      using st word_less_Suc [of "generation_at st i"]
      by (auto simp: generation_from_def generation_at_def journal_change_def split: if_splits)
  next
    case (new_journal i' own)
    then show ?thesis
      using st by (auto simp: generation_from_def generation_at_def)
  qed (use st in \<open>auto simp: generation_from_def generation_at_def\<close>)
qed

text \<open>
  The generation in the journal of a machine never decreases and never wraps around,
  through every history of operations.
\<close>

theorem vm_generation_grows:
  assumes "ops_ok ops st"
  shows "unat (generation_at st i) \<le> unat (generation_at (after_ops ops st) i)"
  using generation.history [OF assms, of i "generation_at st i"]
  by (simp add: generation_from_def word_le_nat_alt)

section \<open>Stale handles\<close>

text \<open>An operation that is refused before it has any effect.\<close>

definition refuses :: "'a vm_run \<Rightarrow> vm_state \<Rightarrow> bool" where
  "refuses r st \<longleftrightarrow> (\<exists>e. r st = (st, Inl e))"

lemma refuses_bind: "refuses r st \<Longrightarrow> refuses (bind_run r f) st"
  by (auto simp: refuses_def bind_run_def)

lemma refuses_after:
  "refuses r st \<or> (\<exists>a. r st = (st, Inr a)) \<Longrightarrow> (\<And>a. r st = (st, Inr a) \<Longrightarrow> refuses (f a) st) \<Longrightarrow>
     refuses (bind_run r f) st"
  by (auto simp: refuses_def bind_run_def)

lemma tries_pure: "refuses (tries w x) st \<or> (\<exists>a. tries w x st = (st, Inr a))"
  by (simp add: refuses_def tries_def)

lemma require_pure: "refuses (require e b) st \<or> (\<exists>a. require e b st = (st, Inr a))"
  by (simp add: refuses_def require_def stop_def done_with_def)

lemma registered_pure: "refuses (check_registered w v) st \<or> (\<exists>a. check_registered w v st = (st, Inr a))"
  by (auto simp: refuses_def check_registered_def vm_get_of_def vm_records_def bind_run_def tries_def look_def
      require_def stop_def done_with_def split: option.split)

lemma lifecycle_pure:
  "refuses (lifecycle_of w v) st \<or> (\<exists>j. lifecycle_of w v st = (st, Inr j) \<and> j = journal_for v (c_journals st))"
  by (auto simp: refuses_def lifecycle_of_def bind_run_def tries_def look_def require_def stop_def
      done_with_def journal_for_def split: option.split)

lemma validate_pure: "refuses (validate_command c d) st \<or> (\<exists>a. validate_command c d st = (st, Inr a))"
  by (auto simp: refuses_def validate_command_def bind_run_def require_def stop_def done_with_def)

lemma unregistered_refused:
  assumes "owner_unused (v_owner v) (c_records st)"
  shows "refuses (check_registered w v) st"
  using assms
  by (auto simp: refuses_def check_registered_def vm_get_of_def vm_records_def bind_run_def tries_def look_def
      require_def stop_def done_with_def split: option.split vm_record.split)

definition stale :: "vm \<Rightarrow> vm_state \<Rightarrow> bool" where
  "stale v st \<longleftrightarrow> owner_unused (v_owner v) (c_records st) \<or> phase_at st (v_instance_id v) = Deleting"

text \<open>How the operations on a registered machine begin.\<close>

lemma stale_refused:
  assumes "stale v st" and "\<And>j. l_phase j = Deleting \<Longrightarrow> refuses (f j) st"
  shows "refuses (bind_run (tries w x) (\<lambda>_. bind_run (check_registered w v) (\<lambda>_. bind_run (lifecycle_of w v) f))) st"
proof (intro refuses_after [OF tries_pure] refuses_after [OF registered_pure])
  fix a assume "check_registered w v st = (st, Inr a)"
  then have "\<not> owner_unused (v_owner v) (c_records st)"
    using unregistered_refused [of st v w] by (auto simp: refuses_def)
  then have "l_phase (journal_for v (c_journals st)) = Deleting"
    using assms(1) by (auto simp: stale_def journal_for_def phase_at_def split: option.splits)
  then show "refuses (bind_run (lifecycle_of w v) f) st"
    using lifecycle_pure [of w v st] assms(2) [of "journal_for v (c_journals st)"] by (auto intro: refuses_after refuses_bind)
qed

lemma refuses_require: "\<not> b \<Longrightarrow> refuses (bind_run (require e b) f) st"
  by (simp add: refuses_def bind_run_def require_def stop_def)

lemma bind_run_assoc: "bind_run (bind_run r f) g = bind_run r (\<lambda>a. bind_run (f a) g)"
  by (auto simp: bind_run_def fun_eq_iff split: prod.splits sum.splits)

lemma refused_uses:
  assumes "stale v st"
  shows "refuses (vm_setup w v recreate) st" "refuses (vm_teardown w v) st"
    "refuses (vm_exec w v command duration cancelled) st" "refuses (vm_import w v cancelled) st"
proof -
  show "refuses (vm_setup w v recreate) st" "refuses (vm_teardown w v) st"
    unfolding vm_setup_def vm_teardown_def operation_lock_def
    by (rule stale_refused [OF assms], rule refuses_require, simp)+
  have guest: "refuses (running_guest w v) st"
    unfolding running_guest_def operation_lock_def require_ready_def bind_run_assoc
    by (rule stale_refused [OF assms], rule refuses_require, simp)
  show "refuses (vm_import w v cancelled) st"
    unfolding vm_import_def by (rule refuses_bind [OF guest])
  show "refuses (vm_exec w v command duration cancelled) st"
    unfolding vm_exec_def by (rule refuses_after [OF validate_pure], rule refuses_bind [OF guest])
qed

lemma refused_delete:
  "owner_unused (v_owner v) (c_records st) \<Longrightarrow> refuses (vm_delete w v consent) st"
  unfolding vm_delete_def operation_lock_def
  by (intro refuses_after [OF tries_pure] refuses_bind unregistered_refused)

text \<open>
  While a deletion is pending, setting the machine up, tearing it down, running in it
  and importing into it are refused before they have any effect, and so is creating its name again.
\<close>

theorem vm_pending_refused:
  assumes "phase_at st (v_instance_id v) = Deleting"
  shows "refuses (vm_setup w v recreate) st \<and> refuses (vm_teardown w v) st \<and>
    refuses (vm_exec w v command duration cancelled) st \<and> refuses (vm_import w v cancelled) st \<and>
    (bt_get (c_records st) i = Some (Vm_Record v) \<longrightarrow> refuses (vm_create w i cpus mem) st)"
proof (intro conjI impI)
  have "stale v st" using assms by (simp add: stale_def)
  then show "refuses (vm_setup w v recreate) st" "refuses (vm_teardown w v) st"
    "refuses (vm_exec w v command duration cancelled) st" "refuses (vm_import w v cancelled) st"
    by (rule refused_uses)+
  assume i: "bt_get (c_records st) i = Some (Vm_Record v)"
  have "l_phase (journal_for v (c_journals st)) = Deleting"
    using assms by (auto simp: journal_for_def phase_at_def split: option.splits)
  then show "refuses (vm_create w i cpus mem) st"
    using lifecycle_pure [of w v st] i
    by (auto simp: vm_create_def refuses_def vm_records_def bind_run_def require_def stop_def done_with_def
        tries_def look_def split: option.splits)
qed

text \<open>An owner that is gone does not come back.\<close>

definition gone :: "bytes \<Rightarrow> vm_state \<Rightarrow> bool" where
  "gone own st \<longleftrightarrow> phase_at st (''world-'' @ own) = Deleting \<and> owner_unused own (c_records st)"

lemma c_records_update [simp]: "c_records (st\<lparr>c_registry := Some rs\<rparr>) = rs"
  "c_records (st\<lparr>c_log := l\<rparr>) = c_records st" "c_records (st\<lparr>c_journals := js\<rparr>) = c_records st"
  "c_records (st\<lparr>c_backup := b\<rparr>) = c_records st"
  by (simp_all add: c_records_def)

lemma phase_at_update [simp]: "phase_at (st\<lparr>c_registry := r\<rparr>) = phase_at st"
  "phase_at (st\<lparr>c_log := l\<rparr>) = phase_at st" "phase_at (st\<lparr>c_backup := b\<rparr>) = phase_at st"
  "phase_at (st\<lparr>c_journals := (c_journals st)(i \<mapsto> j)\<rparr>) = (phase_at st)(i := l_phase j)"
  by (simp_all add: phase_at_def fun_eq_iff)

interpretation gone: kept_by_steps "gone own" for own
proof unfold_locales
  fix st st' assume st: "gone own st" and "vm_step st st'"
  from this(2) show "gone own st'"
  proof cases
    case (journal i j)
    then show ?thesis
      using st deleting_stays [of st i j "''world-'' @ own"] by (auto simp: gone_def)
  next
    case (new_journal i own')
    then show ?thesis using st by (auto simp: gone_def phase_at_def)
  next
    case (register i v)
    then show ?thesis using st validated(2) [of v i] by (auto simp: gone_def split: if_splits)
  next
    case (remove i v)
    then show ?thesis using st by (auto simp: gone_def split: if_splits)
  qed (use st in \<open>auto simp: gone_def\<close>)
qed

definition owners_differ :: "(bytes, vm_record) btree \<Rightarrow> bool" where
  "owners_differ rs \<longleftrightarrow>
     (\<forall>i i' u u'. bt_get rs i = Some (Vm_Record u) \<longrightarrow> bt_get rs i' = Some (Vm_Record u') \<longrightarrow>
        v_owner u = v_owner u' \<longrightarrow> i = i')"

interpretation owners: kept_by_steps "\<lambda>st. owners_differ (c_records st)"
proof unfold_locales
  fix st st' assume st: "owners_differ (c_records st)" and "vm_step st st'"
  from this(2) show "owners_differ (c_records st')"
  proof cases
    case (register i v)
    then show ?thesis using st unfolding owners_differ_def by (auto split: if_splits) blast+
  next
    case (remove i v)
    then show ?thesis using st unfolding owners_differ_def by (auto split: if_splits)
  qed (use st in auto)
qed

lemma deleted_gone:
  assumes "owners_differ (c_records st)" "handle_ok v" "vm_delete w v consent st = (st', Inr ())"
  shows "gone (v_owner v) st'"
proof -
  let ?R = "owners_differ"
  have "via st (\<lambda>_. True) ?R (\<lambda>_. True) st" using assms(1) by (simp add: via_def)
  then have "map_option l_phase (c_journals st' (v_instance_id v)) = Some Deleting"
      and "removed_from ?R v (c_records st')"
    using run_specD [OF delete_via [OF assms(2)] _ assms(3)] by (auto simp: via_def)
  then show ?thesis
    using assms(2)
    by (auto simp: gone_def removed_from_def owners_differ_def handle_ok_def validated(2) phase_at_def
        split: if_splits)
qed

text \<open>
  Once a machine is deleted, a handle that a client still holds is refused by every
  operation, before it has any effect, in every later history: also when the name is in use again.
\<close>

theorem vm_stale_handles:
  assumes "owners_differ (c_records st)" and "ops_ok before st" and "handle_ok v"
    and "vm_delete w v consent (after_ops before st) = (deleted, Inr ())"
    and "ops_ok later deleted" and "now = after_ops later deleted"
  shows "refuses (vm_setup w' v recreate) now \<and> refuses (vm_teardown w' v) now \<and>
    refuses (vm_delete w' v consent') now \<and> refuses (vm_exec w' v command duration cancelled) now \<and>
    refuses (vm_import w' v cancelled) now"
proof -
  have "gone (v_owner v) deleted"
    by (rule deleted_gone [OF owners.history [OF assms(2,1)] assms(3,4)])
  then have "owner_unused (v_owner v) (c_records now)"
    using gone.history [OF assms(5)] assms(6) by (simp add: gone_def)
  then show ?thesis
    using refused_delete refused_uses [of v now] by (simp add: stale_def)
qed

section \<open>A machine that can be set up becomes ready\<close>

text \<open>
  A provider that works, on which the machine is missing and nothing runs, and whose guest answers
  probes from some place in the log on.
\<close>

definition cooperative :: "world_around \<Rightarrow> vm \<Rightarrow> nat \<Rightarrow> bool" where
  "cooperative w v k \<longleftrightarrow>
     a_supported w \<and> (\<forall>x. a_persist w x = None) \<and> (\<forall>x n. \<not> a_fails w x n) \<and>
     (\<forall>n. \<exists>ns. a_answers w n Version = Names ns \<and> ''1.6.1'' \<in> set ns) \<and>
     (\<forall>n. \<exists>ns. a_answers w n List_All = Names ns \<and> v_instance_id v \<notin> set ns) \<and>
     (\<forall>n. a_answers w n List_Running = Names []) \<and>
     (\<forall>n. a_answers w n System_Status \<noteq> Failed \<and> a_answers w n (Create (v_instance_id v) v) \<noteq> Failed \<and>
        a_answers w n (Start (v_instance_id v)) \<noteq> Failed \<and> a_answers w n (Install (v_instance_id v)) \<noteq> Failed) \<and>
     (\<forall>n < k. a_answers w n (Probe (v_instance_id v)) = Failed) \<and>
     (\<forall>n \<ge> k. \<exists>p. good_probe p \<and> a_answers w n (Probe (v_instance_id v)) = Probed p)"

definition asked :: "world_around \<Rightarrow> command \<Rightarrow> vm_state \<Rightarrow> vm_state" where
  "asked w c st = st\<lparr>c_log := c_log st @
     [Asked c (a_answers w (length (c_log st)) c) (Option.bind (target c) (c_journals st))]\<rparr>"

lemma asked_simps [simp]:
  "c_journals (asked w c st) = c_journals st" "c_records (asked w c st) = c_records st"
  "length (c_log (asked w c st)) = Suc (length (c_log st))"
  by (simp_all add: asked_def)

text \<open>Effects that succeed.\<close>

lemma effect_simps:
  "bind_run (done_with a) f = f a"
  "bind_run (require e True) g' = g' ()"
  "\<not> a_fails w x (length (c_log st)) \<Longrightarrow> bind_run (tries w x) g st = g () st"
  "a_answers w (length (c_log st)) c \<noteq> Failed \<Longrightarrow>
     bind_run (provider_output w c) h st = h (a_answers w (length (c_log st)) c) (asked w c st)"
  "(\<forall>x. a_persist w x = None) \<Longrightarrow>
     save_lifecycle w v j st = (st\<lparr>c_journals := (c_journals st)(v_instance_id v \<mapsto> j)\<rparr>, Inr ())"
  "(\<forall>x. a_persist w x = None) \<Longrightarrow>
     bind_run (save_lifecycle w v j) g st = g () (st\<lparr>c_journals := (c_journals st)(v_instance_id v \<mapsto> j)\<rparr>)"
  by (simp_all add: bind_run_def done_with_def require_def tries_def provider_output_def asked_def Let_def
      save_lifecycle_def persists_def)

lemma wait_probed:
  assumes "cooperative w v k" "k \<le> length (c_log st)"
  shows "setup_wait (Suc n) w v j st =
      ((asked w (Probe (v_instance_id v)) st)\<lparr>c_journals := (c_journals st)(v_instance_id v \<mapsto> j\<lparr>l_phase := Ready\<rparr>)\<rparr>,
       Inr ())"
proof -
  obtain p where p: "good_probe p" "a_answers w (length (c_log st)) (Probe (v_instance_id v)) = Probed p"
    using assms by (auto simp: cooperative_def)
  have "\<forall>x. a_persist w x = None" using assms(1) by (simp add: cooperative_def)
  with p show ?thesis
    by (simp add: bind_run_def catch_def provider_output_def Let_def require_def done_with_def
        effect_simps(5) good_probe_def asked_def)
qed

lemma wait_ready:
  assumes "cooperative w v k" "k \<le> length (c_log st) + n"
  shows "\<exists>st'. setup_wait (Suc n) w v j st = (st', Inr ()) \<and>
      c_journals st' (v_instance_id v) = Some (j\<lparr>l_phase := Ready\<rparr>) \<and> c_records st' = c_records st"
  using assms(2)
proof (induction n arbitrary: st)
  case 0
  then show ?case by (simp add: wait_probed [OF assms(1)] del: setup_wait.simps)
next
  case (Suc n)
  show ?case
  proof (cases "k \<le> length (c_log st)")
    case True
    then show ?thesis by (simp add: wait_probed [OF assms(1)] del: setup_wait.simps)
  next
    case False
    let ?st = "asked w (Probe (v_instance_id v)) st"
    have "a_answers w (length (c_log st)) (Probe (v_instance_id v)) = Failed"
      using False assms(1) by (auto simp: cooperative_def)
    then have "setup_wait (Suc (Suc n)) w v j st = setup_wait (Suc n) w v j ?st"
      by (simp only: setup_wait.simps(2) [of "Suc n"] bind_run_def catch_def provider_output_def Let_def asked_def)
        simp
    then show ?thesis using Suc.IH [of ?st] Suc.prems by (simp del: setup_wait.simps)
  qed
qed

lemma check_registered_ok:
  assumes "\<not> a_fails w Read_Registry (length (c_log st))" "invalid_record (c_records st) = None"
    "bt_get (c_records st) (v_id v) = Some (Vm_Record v)"
  shows "bind_run (check_registered w v) f st = f () st"
  using assms
  by (simp add: check_registered_def vm_get_of_def vm_records_def bind_run_def tries_def look_def done_with_def
      require_def)

lemma lifecycle_ok:
  assumes "\<not> a_fails w Read_Journal (length (c_log st))" "c_journals st (v_instance_id v) = Some j"
    "l_owner j = v_owner v"
  shows "bind_run (lifecycle_of w v) f st = f j st"
  using assms by (simp add: lifecycle_of_def bind_run_def tries_def look_def done_with_def require_def)

lemma provider_ok:
  assumes "cooperative w v k"
  shows "bind_run (check_provider w) f st = f () (asked w System_Status (asked w Version st))"
proof -
  have "\<forall>n. \<exists>ns. a_answers w n Version = Names ns \<and> ''1.6.1'' \<in> set ns"
    using assms unfolding cooperative_def by blast
  then obtain ns where "a_answers w (length (c_log st)) Version = Names ns" "''1.6.1'' \<in> set ns" by blast
  then show ?thesis
    using assms by (simp add: check_provider_def bind_run_assoc effect_simps names_of_def cooperative_def)
qed

lemma inspect_missing:
  assumes "cooperative w v k"
  shows "bind_run (inspect w v) f st = f None (asked w List_All st)"
proof -
  have "\<forall>n. \<exists>ns. a_answers w n List_All = Names ns \<and> v_instance_id v \<notin> set ns"
    using assms unfolding cooperative_def by blast
  then obtain ns where "a_answers w (length (c_log st)) List_All = Names ns" "v_instance_id v \<notin> set ns" by blast
  then show ?thesis by (simp add: inspect_def bind_run_assoc effect_simps names_of_def)
qed

lemma setup_start_ok:
  assumes "cooperative w v k" "l_phase j = Created \<or> recreate" "l_generation j \<noteq> - 1"
  shows "\<exists>st'. bind_run (setup_start w v recreate None j) f st =
      f (j\<lparr>l_generation := l_generation j + 1, l_phase := Starting\<rparr>) st' \<and> c_records st' = c_records st \<and>
      length (c_log st') = length (c_log st) + 3"
proof -
  let ?i = "v_instance_id v" and ?p = "j\<lparr>l_phase := Provisioning\<rparr>"
  let ?j = "j\<lparr>l_generation := l_generation j + 1, l_phase := Starting\<rparr>"
  let ?s = "asked w List_Running st"
  let ?t = "asked w (Create ?i v) (?s\<lparr>c_journals := (c_journals st)(?i \<mapsto> ?p)\<rparr>)"
  let ?u = "asked w (Start ?i) (?t\<lparr>c_journals := (c_journals ?t)(?i \<mapsto> ?j)\<rparr>)"
  have facts: "\<forall>x. a_persist w x = None" "\<And>n. a_answers w n List_Running = Names []"
      "\<And>n. a_answers w n (Create ?i v) \<noteq> Failed" "\<And>n. a_answers w n (Start ?i) \<noteq> Failed"
    using assms(1) unfolding cooperative_def by blast+
  have "bind_run (setup_start w v recreate None j) f st = f ?j ?u"
    using assms(2,3)
    by (simp only: setup_start_def setup_make_def bind_run_assoc Let_def refl if_True)
      (simp add: effect_simps names_of_def facts)
  then show ?thesis by (intro exI [of _ ?u]) simp
qed

text \<open>
  C33 (liveness). Setting up a new machine with a working provider succeeds as soon as the guest
  answers one of twenty probes: the machine is then ready, with the next generation.
\<close>

theorem vm_setup_ready:
  assumes "cooperative w v k" and "k \<le> length (c_log st) + 26"
    and "invalid_record (c_records st) = None" and "bt_get (c_records st) (v_id v) = Some (Vm_Record v)"
    and "c_journals st (v_instance_id v) = Some j" and "l_owner j = v_owner v"
    and "l_phase j = Created \<or> (recreate \<and> l_phase j \<noteq> Deleting)" and "l_generation j \<noteq> - 1"
  shows "\<exists>st'. vm_setup w v recreate st = (st', Inr ()) \<and>
    c_journals st' (v_instance_id v) =
      Some (j\<lparr>l_phase := Ready, l_generation := l_generation j + 1\<rparr>) \<and>
    c_records st' = c_records st"
proof -
  let ?j = "j\<lparr>l_generation := l_generation j + 1, l_phase := Starting\<rparr>"
  let ?s = "asked w List_All (asked w System_Status (asked w Version st))"
  let ?rest = "\<lambda>j. bind_run (provider_output w (Install (v_instance_id v))) (\<lambda>_. setup_wait 20 w v j)"
  have fails: "\<not> a_fails w x n" for x n using assms(1) by (simp add: cooperative_def)
  have start: "l_phase j = Created \<or> recreate" using assms(7) by blast
  obtain s where s: "bind_run (setup_start w v recreate None j) ?rest ?s = ?rest ?j s"
      "c_records s = c_records st" "length (c_log s) = length (c_log st) + 6"
    using setup_start_ok [OF assms(1) start assms(8), of ?rest ?s] by auto
  have "vm_setup w v recreate st = ?rest ?j s"
    using assms(7)
    by (auto simp: vm_setup_def operation_lock_def effect_simps fails check_registered_ok [OF fails assms(3,4)]
        lifecycle_ok [OF fails assms(5,6)] provider_ok [OF assms(1)] inspect_missing [OF assms(1)] is_running_def
        simp flip: s(1))
  also have "\<dots> = setup_wait (Suc 19) w v ?j (asked w (Install (v_instance_id v)) s)"
    using assms(1) by (simp add: effect_simps cooperative_def numeral_eq_Suc)
  finally have ran: "vm_setup w v recreate st = setup_wait (Suc 19) w v ?j (asked w (Install (v_instance_id v)) s)" .
  show ?thesis
    using wait_ready [OF assms(1), of "asked w (Install (v_instance_id v)) s" 19 ?j] assms(2) s(2,3)
    by (auto simp: ran simp del: setup_wait.simps)
qed

section \<open>A whole life\<close>

text \<open>
  A machine is created and set up, stops by itself, and is deleted; the provider sees it from its
  creation on until it is deleted.
\<close>

definition life_answers :: "bytes \<Rightarrow> nat \<Rightarrow> command \<Rightarrow> provider_answer" where
  "life_answers own n c =
     (case c of
        Version \<Rightarrow> Names [''1.6.1'']
      | List_All \<Rightarrow> Names (if 5 \<le> n \<and> n < 12 then [''world-'' @ own] else [])
      | List_Running \<Rightarrow> Names []
      | Inspect _ \<Rightarrow>
          Instances [\<lparr>n_label = Some own, n_image = Some IMAGE,
            n_state = Some ''stopped'', n_mounts = Some 0\<rparr>]
      | Probe _ \<Rightarrow> Probed \<lparr>p_protocol = 1, p_uid = 0, p_cgroup_kill = True, p_import_protocol = 1\<rparr>
      | _ \<Rightarrow> Done)"

definition life_owner :: bytes where
  "life_owner = replicate 32 (CHR ''0'')"

definition life_world :: "bytes \<Rightarrow> world_around" where
  "life_world own = \<lparr>a_answers = life_answers life_owner, a_persist = \<lambda>_. None, a_fails = \<lambda>_ _. False,
     a_supported = True, a_random = own\<rparr>"

definition life_vm :: vm where
  "life_vm = vm_new (life_world life_owner) ''vm'' 1 256"

definition life_start :: vm_state where
  "life_start = \<lparr>c_registry = None, c_backup = False, c_journals = Map.empty, c_log = []\<rparr>"

definition life_before :: "(world_around \<times> vm_op) list" where
  "life_before =
     [(life_world life_owner, Vm_Create ''vm'' 1 256),
      (life_world life_owner, Vm_Setup life_vm False)]"

definition life :: "(world_around \<times> vm_op) list" where
  "life = life_before @ [(life_world life_owner, Vm_Delete life_vm True)]"

lemma life_vm_ok: "handle_ok life_vm"
  by code_simp

lemma fresh_at_start: "fresh_owner life_start own"
  by (simp add: fresh_owner_def life_start_def c_records_def bt_get_def)

lemma life_ok: "ops_ok life life_start" "ops_ok life_before life_start"
  using life_vm_ok fresh_at_start by (simp_all add: life_def life_before_def life_world_def)

lemma life_facts:
  "(let st = after_ops life life_start
    in c_log st ! 12 =
         Asked (Delete (v_instance_id life_vm)) Done
           (Some \<lparr>l_owner = life_owner, l_phase = Deleting, l_generation = 1\<rparr>) \<and>
       length (c_log st) = 14 \<and> c_records st = [] \<and>
       map_option l_phase (c_journals st (v_instance_id life_vm)) = Some Deleting \<and>
       c_journals st (''world-'' @ replicate 32 (CHR ''1'')) = None)"
  by code_simp

lemma life_deletes:
  "c_log (after_ops life life_start) ! 12 =
     Asked (Delete (v_instance_id life_vm)) Done
       (Some \<lparr>l_owner = life_owner, l_phase = Deleting, l_generation = 1\<rparr>)"
  "12 < length (c_log (after_ops life life_start))"
  using life_facts by (simp_all add: Let_def)

lemma life_ends:
  "phase_at (after_ops life life_start) (v_instance_id life_vm) = Deleting"
  "c_records (after_ops life life_start) = []"
  "c_journals (after_ops life life_start) (''world-'' @ replicate 32 (CHR ''1'')) = None"
  using life_facts by (auto simp: Let_def phase_at_journal)

text \<open>The name is given to another machine.\<close>

definition life_again :: "(world_around \<times> vm_op) list" where
  "life_again = [(life_world (replicate 32 (CHR ''1'')), Vm_Create ''vm'' 1 256)]"

lemma life_again_ok: "ops_ok life_again (after_ops life life_start)"
proof -
  have "fresh_owner (after_ops life life_start) (replicate 32 (CHR ''1''))"
    using life_ends by (simp add: fresh_owner_def bt_get_def)
  moreover have "a_random (life_world own) = own" for own by (simp add: life_world_def)
  ultimately show ?thesis by (simp only: life_again_def ops_ok.simps op_ok.simps simp_thms)
qed

theorem vm_operations_refine_witness:
  "ops_ok life life_start \<and> vm_steps life_start (after_ops life life_start)"
  using vm_operations_refine [OF life_ok(1)] life_ok(1) by blast

theorem vm_commands_permitted_witness:
  "permitted (take 12 (c_log (after_ops life life_start)))
     (Some \<lparr>l_owner = life_owner, l_phase = Deleting, l_generation = 1\<rparr>) (Delete (v_instance_id life_vm))"
proof (rule vm_commands_permitted [OF _ life_ok(1)])
  show "c_log life_start = []" by (simp add: life_start_def)
  show "c_log (after_ops life life_start) =
      take 12 (c_log (after_ops life life_start)) @
      Asked (Delete (v_instance_id life_vm)) Done
        (Some \<lparr>l_owner = life_owner, l_phase = Deleting, l_generation = 1\<rparr>) #
      drop (Suc 12) (c_log (after_ops life life_start))"
    using id_take_nth_drop [OF life_deletes(2)] by (simp only: life_deletes(1))
qed

theorem vm_deletion_final_witness:
  "phase_at (after_ops life life_start) (v_instance_id life_vm) = Deleting \<and>
   phase_at (after_ops life_again (after_ops life life_start)) (v_instance_id life_vm) = Deleting"
  using vm_deletion_final [OF life_ends(1) life_again_ok] life_ends(1) by blast

lemma life_ready:
  "\<forall>i. phase_at life_start i \<noteq> Ready"
  "phase_at (after_ops life_before life_start) (v_instance_id life_vm) = Ready"
  subgoal by (simp add: phase_at_def life_start_def)
  subgoal by code_simp
  done

theorem vm_ready_verified_witness:
  "verified (c_log (after_ops life_before life_start)) (v_instance_id life_vm)"
  by (rule vm_ready_verified [OF life_ready(1) life_ok(2) life_ready(2)])

theorem vm_generation_grows_witness:
  "generation_at (after_ops life_before life_start) (v_instance_id life_vm) = 1 \<and>
   unat (generation_at life_start (v_instance_id life_vm))
     \<le> unat (generation_at (after_ops life_before life_start) (v_instance_id life_vm))"
proof
  show "generation_at (after_ops life_before life_start) (v_instance_id life_vm) = 1" by code_simp
qed (rule vm_generation_grows [OF life_ok(2)])

theorem vm_pending_refused_witness:
  "refuses (vm_setup (life_world life_owner) life_vm True) (after_ops life life_start)"
  using vm_pending_refused [OF life_ends(1)] by blast

lemma life_deleted:
  "vm_delete (life_world life_owner) life_vm True (after_ops life_before life_start) =
     (after_ops life life_start, Inr ())"
proof -
  let ?d = "vm_delete (life_world life_owner) life_vm True (after_ops life_before life_start)"
  have "after_ops (xs @ [(w, c)]) st = after_op w c (after_ops xs st)" for xs w c st
    by (induction xs st rule: after_ops.induct) simp_all
  then have "fst ?d = after_ops life life_start" by (simp add: life_def)
  moreover have "snd ?d = Inr ()" by code_simp
  ultimately show ?thesis by (simp add: prod_eq_iff)
qed

theorem vm_stale_handles_witness:
  "refuses (vm_delete (life_world life_owner) life_vm True) (after_ops life_again (after_ops life life_start)) \<and>
   refuses (vm_setup (life_world life_owner) life_vm True) (after_ops life_again (after_ops life life_start))"
proof -
  have "owners_differ (c_records life_start)"
    by (simp add: owners_differ_def c_records_def life_start_def bt_get_def)
  from vm_stale_handles [OF this life_ok(2) life_vm_ok life_deleted life_again_ok refl] show ?thesis by blast
qed

text \<open>A guest that needs a few probes.\<close>

definition slow_world :: world_around where
  "slow_world = (life_world life_owner)\<lparr>a_answers := \<lambda>n c.
     (case c of
        List_All \<Rightarrow> Names []
      | Probe i \<Rightarrow> if n < 12 then Failed else life_answers life_owner n c
      | _ \<Rightarrow> life_answers life_owner n c)\<rparr>"

lemma slow_cooperative: "cooperative slow_world life_vm 12"
  by (simp add: cooperative_def slow_world_def life_world_def life_answers_def good_probe_def)

theorem vm_setup_ready_witness:
  "\<exists>st'. vm_setup slow_world life_vm False (after_ops (take 1 life) life_start) = (st', Inr ()) \<and>
     c_journals st' (v_instance_id life_vm) = Some \<lparr>l_owner = life_owner, l_phase = Ready, l_generation = 1\<rparr>"
proof -
  let ?st = "after_ops (take 1 life) life_start"
  have "(12 :: nat) \<le> length (c_log ?st) + 26" by simp
  moreover have "invalid_record (c_records ?st) = None" by code_simp
  moreover have "bt_get (c_records ?st) (v_id life_vm) = Some (Vm_Record life_vm)" by code_simp
  moreover have "c_journals ?st (v_instance_id life_vm) =
      Some \<lparr>l_owner = life_owner, l_phase = Created, l_generation = 0\<rparr>" by code_simp
  moreover have "v_owner life_vm = life_owner" by code_simp
  ultimately show ?thesis
    using vm_setup_ready [OF slow_cooperative, of ?st "\<lparr>l_owner = life_owner, l_phase = Created, l_generation = 0\<rparr>" False]
    by auto
qed

end
