(* ===== verification/Import_Stream.thy ===== *)
theory Import_Stream
  imports Registry Runs
begin

text \<open>
  \<^verbatim>\<open>crates/world-runtime/src/import_stream.rs\<close>: the snapshot of a host directory as a stream of
  entries, while other processes may change the directory. A file descriptor is the number of an
  inode; every system call happens at an instant and sees the inodes of that instant, and may fail.
  The records of the stream are values (their JSON text and the coding of their data belong to
  libraries; the coding is a parameter).
\<close>

section \<open>The source\<close>

datatype content =
    Dir_Content "(bytes \<times> nat) list"
  | File_Content bytes
  | Link_Content bytes
  | Special_Content

record source_inode =
  i_dev :: nat
  i_size :: nat
  i_mode :: u32
  i_mtime :: int
  i_mtime_nsec :: int
  i_ctime :: int
  i_ctime_nsec :: int
  i_content :: content

record source =
  s_at :: "nat \<Rightarrow> nat \<Rightarrow> source_inode"
  s_fails :: "nat \<Rightarrow> bool"
  s_encode :: "bytes \<Rightarrow> bytes"

definition len_of :: "source_inode \<Rightarrow> nat" where
  "len_of n = (case i_content n of File_Content b \<Rightarrow> length b | _ \<Rightarrow> i_size n)"

section \<open>The stream\<close>

datatype stream_entry =
    Begin_Entry
  | Symlink_Entry bytes bytes
  | Directory_Entry bytes u32
  | File_Entry bytes u32 nat
  | Data_Entry bytes
  | End_File
  | Finish_Entry nat

record snapshot_state =
  g_now :: nat
  g_output :: "stream_entry list"
  g_count :: nat

datatype import_error =
    Call_Failed | Not_Utf8 | Too_Deep | Too_Many | Path_Too_Long | Interior_Nul | Bad_Symlink
  | Special_File | Entry_Changed | Short_Read | Source_Changed | Not_Directory

type_synonym 'a import_run = "(snapshot_state, import_error, 'a) run"

section \<open>System calls\<close>

definition call_at :: "source \<Rightarrow> ((nat \<Rightarrow> source_inode) \<Rightarrow> import_error + 'a) \<Rightarrow> 'a import_run" where
  "call_at src f = (\<lambda>st.
     (st\<lparr>g_now := Suc (g_now st)\<rparr>,
      if s_fails src (g_now st) then Inl Call_Failed else f (s_at src (g_now st))))"

text \<open>\<^verbatim>\<open>entry\<close>: one record is written.\<close>

definition emit :: "source \<Rightarrow> stream_entry \<Rightarrow> unit import_run" where
  "emit src e = (\<lambda>st.
     if s_fails src (g_now st) then (st\<lparr>g_now := Suc (g_now st)\<rparr>, Inl Call_Failed)
     else (st\<lparr>g_now := Suc (g_now st), g_output := g_output st @ [e]\<rparr>, Inr ()))"

definition metadata :: "source \<Rightarrow> nat \<Rightarrow> source_inode import_run" where
  "metadata src fd = call_at src (\<lambda>fs. Inr (fs fd))"

text \<open>UTF-8 as \<^verbatim>\<open>str::from_utf8\<close> checks it.\<close>

definition tail_byte :: "byte \<Rightarrow> bool" where
  "tail_byte b = between (CHR 0x80) (CHR 0xBF) b"

definition second_byte :: "byte \<Rightarrow> byte \<Rightarrow> bool" where
  "second_byte a b =
     (if a = CHR 0xE0 then between (CHR 0xA0) (CHR 0xBF) b
      else if a = CHR 0xED then between (CHR 0x80) (CHR 0x9F) b
      else if a = CHR 0xF0 then between (CHR 0x90) (CHR 0xBF) b
      else if a = CHR 0xF4 then between (CHR 0x80) (CHR 0x8F) b
      else tail_byte b)"

fun from_utf8 :: "bytes \<Rightarrow> bool" where
  "from_utf8 [] = True"
| "from_utf8 (a # s) =
     (if between (CHR 0x00) (CHR 0x7F) a then from_utf8 s
      else if between (CHR 0xC2) (CHR 0xDF) a
      then (case s of b # s' \<Rightarrow> tail_byte b \<and> from_utf8 s' | _ \<Rightarrow> False)
      else if between (CHR 0xE0) (CHR 0xEF) a
      then (case s of b # c # s' \<Rightarrow> second_byte a b \<and> tail_byte c \<and> from_utf8 s' | _ \<Rightarrow> False)
      else if between (CHR 0xF0) (CHR 0xF4) a
      then (case s of b # c # d # s' \<Rightarrow> second_byte a b \<and> tail_byte c \<and> tail_byte d \<and> from_utf8 s' | _ \<Rightarrow> False)
      else False)"

text \<open>\<^verbatim>\<open>names\<close>: the entries of a directory, sorted.\<close>

definition names :: "source \<Rightarrow> nat \<Rightarrow> bytes list import_run" where
  "names src fd = call_at src (\<lambda>fs.
     case i_content (fs fd) of
       Dir_Content es \<Rightarrow>
         if list_all from_utf8 (map fst es)
         then Inr (sort (filter (\<lambda>n. n \<noteq> ''.'' \<and> n \<noteq> ''..'') (map fst es)))
         else Inl Not_Utf8
     | _ \<Rightarrow> Inl Call_Failed)"

definition dir_entry :: "(nat \<Rightarrow> source_inode) \<Rightarrow> nat \<Rightarrow> bytes \<Rightarrow> nat option" where
  "dir_entry fs fd name = (case i_content (fs fd) of Dir_Content es \<Rightarrow> map_of es name | _ \<Rightarrow> None)"

text \<open>\<^verbatim>\<open>fstatat\<close> and \<^verbatim>\<open>openat\<close> do not follow a link at the name.\<close>

definition fstatat :: "source \<Rightarrow> nat \<Rightarrow> bytes \<Rightarrow> (nat \<times> source_inode) import_run" where
  "fstatat src fd name = call_at src (\<lambda>fs.
     case dir_entry fs fd name of Some i \<Rightarrow> Inr (i, fs i) | None \<Rightarrow> Inl Call_Failed)"

definition readlinkat :: "source \<Rightarrow> nat \<Rightarrow> bytes \<Rightarrow> bytes import_run" where
  "readlinkat src fd name = call_at src (\<lambda>fs.
     case dir_entry fs fd name of
       Some i \<Rightarrow> (case i_content (fs i) of Link_Content t \<Rightarrow> Inr (take 4097 t) | _ \<Rightarrow> Inl Call_Failed)
     | None \<Rightarrow> Inl Call_Failed)"

definition open_at :: "source \<Rightarrow> nat \<Rightarrow> bytes \<Rightarrow> nat import_run" where
  "open_at src fd name = call_at src (\<lambda>fs.
     case dir_entry fs fd name of
       Some i \<Rightarrow> (case i_content (fs i) of Link_Content _ \<Rightarrow> Inl Call_Failed | _ \<Rightarrow> Inr i)
     | None \<Rightarrow> Inl Call_Failed)"

definition read_exact :: "source \<Rightarrow> nat \<Rightarrow> nat \<Rightarrow> nat \<Rightarrow> bytes import_run" where
  "read_exact src fd offset amount = call_at src (\<lambda>fs.
     case i_content (fs fd) of
       File_Content b \<Rightarrow> (if offset + amount \<le> length b then Inr (take amount (drop offset b)) else Inl Short_Read)
     | _ \<Rightarrow> Inl Call_Failed)"

section \<open>The walk\<close>

definition unchanged :: "nat \<Rightarrow> source_inode \<Rightarrow> nat \<Rightarrow> source_inode \<Rightarrow> bool" where
  "unchanged i before j after \<longleftrightarrow>
     i_dev before = i_dev after \<and> i = j \<and> len_of before = len_of after \<and>
     i_mtime before = i_mtime after \<and> i_mtime_nsec before = i_mtime_nsec after \<and>
     i_ctime before = i_ctime after \<and> i_ctime_nsec before = i_ctime_nsec after"

definition count_entry :: "unit import_run" where
  "count_entry =
     bind_run (\<lambda>st. (st\<lparr>g_count := g_count st + 1\<rparr>, Inr ())) (\<lambda>_.
     bind_run (look g_count) (\<lambda>count. require Too_Many (count \<le> 1000000)))"

definition path_below :: "bytes \<Rightarrow> bytes \<Rightarrow> bytes" where
  "path_below prefix name = (if prefix = [] then name else prefix @ slash # name)"

text \<open>The data of a file, in pieces of 48 KiB.\<close>

function copy_data :: "source \<Rightarrow> nat \<Rightarrow> nat \<Rightarrow> nat \<Rightarrow> unit import_run" where
  "copy_data src fd offset remaining =
     (if remaining = 0 then done_with ()
      else
        let amount = min remaining (48 * 1024)
        in bind_run (read_exact src fd offset amount) (\<lambda>b.
           bind_run (emit src (Data_Entry (s_encode src b))) (\<lambda>_.
             copy_data src fd (offset + amount) (remaining - amount))))"
  by pat_completeness auto

termination
  by (relation "measure (\<lambda>(src, fd, offset, remaining). remaining)") auto

declare copy_data.simps [simp del]

definition copy_symlink :: "source \<Rightarrow> nat \<Rightarrow> bytes \<Rightarrow> bytes \<Rightarrow> unit import_run" where
  "copy_symlink src dir name path =
     bind_run (readlinkat src dir name) (\<lambda>buffer.
     bind_run (require Bad_Symlink (length buffer < 4097)) (\<lambda>_.
     bind_run (require Not_Utf8 (from_utf8 buffer)) (\<lambda>_.
       emit src (Symlink_Entry path buffer))))"

definition copy_file :: "source \<Rightarrow> nat \<Rightarrow> source_inode \<Rightarrow> bytes \<Rightarrow> u32 \<Rightarrow> unit import_run" where
  "copy_file src file meta path mode =
     bind_run (emit src (File_Entry path mode (len_of meta))) (\<lambda>_.
     bind_run (copy_data src file 0 (len_of meta)) (\<lambda>_.
     bind_run (metadata src file) (\<lambda>after.
     bind_run (require Source_Changed (unchanged file meta file after)) (\<lambda>_.
       emit src End_File))))"

text \<open>One entry of a directory; \<open>down\<close> walks a directory below it.\<close>

definition copy_entry ::
  "source \<Rightarrow> (nat \<Rightarrow> bytes \<Rightarrow> unit import_run) \<Rightarrow> nat \<Rightarrow> bytes \<Rightarrow> bytes \<Rightarrow> unit import_run" where
  "copy_entry src down dir prefix name =
     bind_run count_entry (\<lambda>_.
     let path = path_below prefix name
     in bind_run (require Path_Too_Long (length path \<le> 4096)) (\<lambda>_.
        bind_run (require Interior_Nul (nul \<notin> set name)) (\<lambda>_.
        bind_run (fstatat src dir name) (\<lambda>(i, stat).
          case i_content stat of
            Link_Content _ \<Rightarrow> copy_symlink src dir name path
          | Special_Content \<Rightarrow> stop Special_File
          | _ \<Rightarrow>
              bind_run (open_at src dir name) (\<lambda>file.
              bind_run (metadata src file) (\<lambda>meta.
              bind_run (require Entry_Changed (i_dev meta = i_dev stat \<and> file = i)) (\<lambda>_.
                let mode = and (i_mode meta) 0x1FF
                in case i_content meta of
                     Dir_Content _ \<Rightarrow>
                       bind_run (emit src (Directory_Entry path mode)) (\<lambda>_. down file path)
                   | File_Content _ \<Rightarrow> copy_file src file meta path mode
                   | _ \<Rightarrow> stop Special_File)))))))"

text \<open>
  \<^verbatim>\<open>walk\<close>: the number of levels that are left is \<open>129 - depth\<close>.
\<close>

primrec walk_dir :: "nat \<Rightarrow> source \<Rightarrow> nat \<Rightarrow> bytes \<Rightarrow> unit import_run" where
  "walk_dir 0 src dir prefix = stop Too_Deep"
| "walk_dir (Suc levels) src dir prefix =
     bind_run (metadata src dir) (\<lambda>before.
     bind_run (names src dir) (\<lambda>ns.
     bind_run (for_each (copy_entry src (walk_dir levels src) dir prefix) ns) (\<lambda>_.
     bind_run (metadata src dir) (\<lambda>after.
       require Source_Changed (unchanged dir before dir after)))))"

text \<open>
  \<^verbatim>\<open>snapshot\<close>, of a path that names the inode \<open>root\<close>; the file for the stream is made before and
  synchronized after it is written.
\<close>

definition output_call :: "source \<Rightarrow> unit import_run" where
  "output_call src = call_at src (\<lambda>_. Inr ())"

definition snapshot :: "source \<Rightarrow> nat \<Rightarrow> unit import_run" where
  "snapshot src root =
     bind_run (call_at src (\<lambda>fs.
       case i_content (fs root) of Dir_Content _ \<Rightarrow> Inr root | _ \<Rightarrow> Inl Not_Directory)) (\<lambda>dir.
     bind_run (output_call src) (\<lambda>_.
     bind_run (emit src Begin_Entry) (\<lambda>_.
     bind_run (walk_dir 129 src dir []) (\<lambda>_.
     bind_run (look g_count) (\<lambda>count.
     bind_run (emit src (Finish_Entry count)) (\<lambda>_.
       output_call src))))))"

end
