(* ===== verification/Import_Props.thy ===== *)
theory Import_Props
  imports Import_Stream
begin

text \<open>
  What the stream of a snapshot holds: under any interference a stream of complete items, parents
  first and within the limits; and of a source that nobody changes, exactly its entries.
\<close>

section \<open>Items\<close>

datatype item =
    Link_Item bytes bytes
  | Dir_Item bytes u32
  | File_Item bytes u32 "bytes list"

fun item_path :: "item \<Rightarrow> bytes" where
  "item_path (Link_Item p _) = p"
| "item_path (Dir_Item p _) = p"
| "item_path (File_Item p _ _) = p"

fun render_item :: "(bytes \<Rightarrow> bytes) \<Rightarrow> item \<Rightarrow> stream_entry list" where
  "render_item enc (Link_Item p t) = [Symlink_Entry p t]"
| "render_item enc (Dir_Item p m) = [Directory_Entry p m]"
| "render_item enc (File_Item p m bs) =
     File_Entry p m (length (concat bs)) # map (\<lambda>b. Data_Entry (enc b)) bs @ [End_File]"

definition chunk_ok :: "bytes \<Rightarrow> bool" where
  "chunk_ok b \<longleftrightarrow> b \<noteq> [] \<and> length b \<le> 48 * 1024"

fun item_ok :: "item \<Rightarrow> bool" where
  "item_ok (Link_Item p t) \<longleftrightarrow> length p \<le> 4096 \<and> length t \<le> 4096 \<and> from_utf8 t"
| "item_ok (Dir_Item p m) \<longleftrightarrow> length p \<le> 4096 \<and> and m 0x1FF = m"
| "item_ok (File_Item p m bs) \<longleftrightarrow> length p \<le> 4096 \<and> and m 0x1FF = m \<and> list_all chunk_ok bs"

definition plain_name :: "bytes \<Rightarrow> bool" where
  "plain_name n \<longleftrightarrow> n \<notin> {[], ''.'', ''..''} \<and> slash \<notin> set n \<and> nul \<notin> set n"

text \<open>An item lies in the source itself or in a directory that came before it.\<close>

definition well_placed :: "item list \<Rightarrow> item \<Rightarrow> bool" where
  "well_placed its it \<longleftrightarrow>
     (\<exists>prefix name. item_path it = path_below prefix name \<and> plain_name name \<and>
        (prefix = [] \<or> (\<exists>m. Dir_Item prefix m \<in> set its)))"

fun items_ok :: "item list \<Rightarrow> item list \<Rightarrow> bool" where
  "items_ok its [] = True"
| "items_ok its (x # xs) = (item_ok x \<and> well_placed its x \<and> items_ok (its @ [x]) xs)"

lemma items_ok_append: "items_ok its (xs @ ys) \<longleftrightarrow> items_ok its xs \<and> items_ok (its @ xs) ys"
  by (induction xs arbitrary: its) auto

section \<open>Under interference\<close>

text \<open>What the kernel promises of the names in a directory.\<close>

definition sane_names :: "source \<Rightarrow> bool" where
  "sane_names src \<longleftrightarrow>
     (\<forall>t i es. i_content (s_at src t i) = Dir_Content es \<longrightarrow> list_all (\<lambda>n. n \<noteq> [] \<and> slash \<notin> set n) (map fst es))"

text \<open>
  The output so far: complete items, the records of an item that is being written, and how many
  entries more than the complete items have been counted. The directories \<open>ps\<close> are among them.
\<close>

definition so_far ::
  "source \<Rightarrow> bytes set \<Rightarrow> item list \<Rightarrow> stream_entry list \<Rightarrow> nat \<Rightarrow> snapshot_state \<Rightarrow> bool" where
  "so_far src ps its es k st \<longleftrightarrow>
     g_output st = Begin_Entry # concat (map (render_item (s_encode src)) its) @ es \<and>
     g_count st = length its + k \<and> g_count st \<le> 1000000 \<and> items_ok [] its \<and>
     (\<forall>p\<in>ps. p = [] \<or> (\<exists>m. Dir_Item p m \<in> set its))"

definition complete :: "source \<Rightarrow> bytes set \<Rightarrow> snapshot_state \<Rightarrow> bool" where
  "complete src ps st \<longleftrightarrow> (\<exists>its. so_far src ps its [] 0 st)"

abbreviation ended :: "snapshot_state \<Rightarrow> bool" where
  "ended \<equiv> \<lambda>_. True"

lemma call_so_far:
  "(\<And>t a. f (s_at src t) = Inr a \<Longrightarrow> Q a) \<Longrightarrow>
     run_spec (so_far src ps its es k) (call_at src f) (\<lambda>a st. so_far src ps its es k st \<and> Q a) ended"
  by (auto simp: run_spec_def call_at_def so_far_def split: sum.split)

lemma require_so_far: "run_spec (so_far src ps its es k) (require e b) (\<lambda>_ st. so_far src ps its es k st \<and> b) ended"
  by (rule run_spec_require) auto

lemma emit_so_far:
  "run_spec (so_far src ps its es k) (emit src e) (\<lambda>_. so_far src ps its (es @ [e]) k) ended"
  by (auto simp: run_spec_def emit_def so_far_def)

text \<open>A complete item.\<close>

lemma emit_item:
  assumes "es @ [e] = render_item (s_encode src) it" "item_ok it" "well_placed its it"
  shows "run_spec (so_far src ps its es (Suc 0)) (emit src e) (\<lambda>_. so_far src ps (its @ [it]) [] 0) ended"
  using assms by (auto simp: run_spec_def emit_def so_far_def items_ok_append)

lemma copy_data_so_far:
  assumes "list_all chunk_ok bs" "length (concat bs) = offset"
  shows "run_spec
     (so_far src ps its (e # map (\<lambda>b. Data_Entry (s_encode src b)) bs) k)
     (copy_data src fd offset remaining)
     (\<lambda>_ st. \<exists>bs'. so_far src ps its (e # map (\<lambda>b. Data_Entry (s_encode src b)) bs') k st \<and>
        list_all chunk_ok bs' \<and> length (concat bs') = offset + remaining) ended"
  using assms
proof (induction src fd offset remaining arbitrary: bs rule: copy_data.induct)
  case (1 src fd offset remaining)
  let ?n = "min remaining (48 * 1024)"
  show ?case
  proof (cases "remaining = 0")
    case True
    then show ?thesis
      using "1.prems" unfolding copy_data.simps [of src fd offset remaining]
      by (auto intro!: run_spec_done)
  next
    case False
    let ?Q = "\<lambda>b :: bytes. length b = ?n"
    have read: "run_spec (so_far src ps its (e # map (\<lambda>b. Data_Entry (s_encode src b)) bs) k)
        (read_exact src fd offset ?n)
        (\<lambda>b st. so_far src ps its (e # map (\<lambda>b. Data_Entry (s_encode src b)) bs) k st \<and> ?Q b) ended"
      unfolding read_exact_def by (rule call_so_far) (auto split: content.splits if_splits)
    have rest: "run_spec (so_far src ps its (e # map (\<lambda>b. Data_Entry (s_encode src b)) (bs @ [b])) k)
        (copy_data src fd (offset + ?n) (remaining - ?n))
        (\<lambda>_ st. \<exists>bs'. so_far src ps its (e # map (\<lambda>b. Data_Entry (s_encode src b)) bs') k st \<and>
           list_all chunk_ok bs' \<and> length (concat bs') = offset + remaining) ended"
      if b: "?Q b" for b
    proof -
      have "chunk_ok b" using b False by (auto simp: chunk_ok_def)
      then show ?thesis using "1.IH" [OF False refl, of "bs @ [b]"] "1.prems" b by auto
    qed
    show ?thesis
      unfolding copy_data.simps [of src fd offset remaining] Let_def
      by (simp only: False if_False, rule run_spec_bind [OF read], rule run_spec_fact,
          rule run_spec_bind [OF emit_so_far]) (use rest in simp)
  qed
qed

lemma copy_link_complete:
  assumes "length path \<le> 4096" "well_placed its (Link_Item path [])"
  shows "run_spec (so_far src ps its [] (Suc 0)) (copy_symlink src dir name path) (\<lambda>_. complete src ps) ended"
  unfolding copy_symlink_def readlinkat_def
proof (intro run_spec_bind [OF call_so_far [where Q = "\<lambda>_. True"]] run_spec_fact run_spec_bind [OF require_so_far])
  fix t assume "length t < 4097" "from_utf8 t"
  then have "item_ok (Link_Item path t)" "well_placed its (Link_Item path t)"
    using assms by (auto simp: well_placed_def)
  then show "run_spec (so_far src ps its [] (Suc 0)) (emit src (Symlink_Entry path t)) (\<lambda>_. complete src ps) ended"
    by (intro run_spec_weaken [OF emit_item [where it = "Link_Item path t"]]) (auto simp: complete_def)
qed simp

lemma copy_file_complete:
  assumes "length path \<le> 4096" "well_placed its (Link_Item path [])"
  shows "run_spec (so_far src ps its [] (Suc 0)) (copy_file src file meta path (and mode 0x1FF))
    (\<lambda>_. complete src ps) ended"
  unfolding copy_file_def
proof (intro run_spec_bind [OF emit_so_far])
  let ?e = "File_Entry path (and mode 0x1FF) (len_of meta)"
  let ?P = "\<lambda>bs. so_far src ps its (?e # map (\<lambda>b. Data_Entry (s_encode src b)) bs) (Suc 0)"
  have copied: "run_spec (so_far src ps its ([] @ [?e]) (Suc 0)) (copy_data src file 0 (len_of meta))
      (\<lambda>_ st. \<exists>bs. ?P bs st \<and> list_all chunk_ok bs \<and> length (concat bs) = 0 + len_of meta) ended"
    using copy_data_so_far [where bs = "[]"] by simp
  have last: "run_spec (\<lambda>st. \<exists>bs. ?P bs st \<and> list_all chunk_ok bs \<and> length (concat bs) = 0 + len_of meta)
      (bind_run (metadata src file) (\<lambda>after.
       bind_run (require Source_Changed (unchanged file meta file after)) (\<lambda>_. emit src End_File)))
      (\<lambda>_. complete src ps) ended"
  proof (rule run_spec_ex, rule run_spec_fact)
    fix bs assume bs: "list_all chunk_ok bs \<and> length (concat bs) = 0 + len_of meta"
    let ?it = "File_Item path (and mode 0x1FF) bs"
    have "item_ok ?it" "well_placed its ?it" using assms bs by (auto simp: well_placed_def and.assoc)
    then have end_file: "run_spec (?P bs) (emit src End_File) (\<lambda>_. complete src ps) ended"
      using bs by (intro run_spec_weaken [OF emit_item [where it = ?it]]) (auto simp: complete_def)
    show "run_spec (?P bs)
        (bind_run (metadata src file) (\<lambda>after.
         bind_run (require Source_Changed (unchanged file meta file after)) (\<lambda>_. emit src End_File)))
        (\<lambda>_. complete src ps) ended"
      unfolding metadata_def
      by (intro run_spec_bind [OF call_so_far [where Q = "\<lambda>_. True"]] run_spec_fact
          run_spec_bind [OF require_so_far] end_file) simp
  qed
  show "run_spec (so_far src ps its ([] @ [?e]) (Suc 0))
      (bind_run (copy_data src file 0 (len_of meta)) (\<lambda>_.
       bind_run (metadata src file) (\<lambda>after.
       bind_run (require Source_Changed (unchanged file meta file after)) (\<lambda>_. emit src End_File))))
      (\<lambda>_. complete src ps) ended"
    by (rule run_spec_bind [OF copied last])
qed

lemma count_so_far:
  "run_spec (so_far src ps its [] 0) count_entry (\<lambda>_. so_far src ps its [] (Suc 0)) ended"
  by (auto simp: run_spec_def count_entry_def bind_run_def look_def require_def done_with_def stop_def so_far_def)

definition down_ok :: "source \<Rightarrow> (nat \<Rightarrow> bytes \<Rightarrow> unit import_run) \<Rightarrow> bool" where
  "down_ok src down \<longleftrightarrow>
     (\<forall>ps dir prefix. prefix \<in> ps \<longrightarrow> run_spec (complete src ps) (down dir prefix) (\<lambda>_. complete src ps) ended)"

lemma copy_dir_complete:
  assumes "length path \<le> 4096" "well_placed its (Link_Item path [])" "down_ok src down"
  shows "run_spec (so_far src ps its [] (Suc 0))
    (bind_run (emit src (Directory_Entry path (and mode 0x1FF))) (\<lambda>_. down file path)) (\<lambda>_. complete src ps) ended"
proof (rule run_spec_bind)
  let ?it = "Dir_Item path (and mode 0x1FF)"
  have "item_ok ?it" "well_placed its ?it" using assms by (auto simp: well_placed_def and.assoc)
  then have "run_spec (so_far src ps its [] (Suc 0)) (emit src (Directory_Entry path (and mode 0x1FF)))
      (\<lambda>_. so_far src ps (its @ [?it]) [] 0) ended"
    by (intro emit_item) auto
  then show "run_spec (so_far src ps its [] (Suc 0)) (emit src (Directory_Entry path (and mode 0x1FF)))
      (\<lambda>_. complete src (insert path ps)) ended"
    by (rule run_spec_weaken) (auto simp: complete_def so_far_def intro!: exI [of _ "its @ [?it]"], blast)
  have "run_spec (complete src (insert path ps)) (down file path) (\<lambda>_. complete src (insert path ps)) ended"
    using assms(3) by (simp add: down_ok_def)
  then show "run_spec (complete src (insert path ps)) (down file path) (\<lambda>_. complete src ps) ended"
    by (rule run_spec_weaken) (auto simp: complete_def so_far_def)
qed

lemma copy_entry_complete:
  assumes down: "down_ok src down" and prefix: "prefix \<in> ps" and name: "plain_name name"
  shows "run_spec (complete src ps) (copy_entry src down dir prefix name) (\<lambda>_. complete src ps) ended"
  unfolding complete_def [of src ps]
proof (rule run_spec_ex)
  fix its
  let ?path = "path_below prefix name"
  let ?S = "so_far src ps its [] (Suc 0)"
  show "run_spec (so_far src ps its [] 0) (copy_entry src down dir prefix name)
      (\<lambda>_ st. \<exists>its. so_far src ps its [] 0 st) ended"
    unfolding copy_entry_def Let_def complete_def [of src ps, symmetric]
  proof (rule run_spec_bind [OF count_so_far], rule run_spec_bind [OF require_so_far], rule run_spec_fact,
      rule run_spec_bind [OF require_so_far], rule run_spec_fact)
    assume short: "length ?path \<le> 4096"
    show "run_spec ?S
        (bind_run (fstatat src dir name) (\<lambda>(i, stat).
           case i_content stat of
             Link_Content _ \<Rightarrow> copy_symlink src dir name ?path
           | Special_Content \<Rightarrow> stop Special_File
           | _ \<Rightarrow>
               bind_run (open_at src dir name) (\<lambda>file.
               bind_run (metadata src file) (\<lambda>meta.
               bind_run (require Entry_Changed (i_dev meta = i_dev stat \<and> file = i)) (\<lambda>_.
                 case i_content meta of
                   Dir_Content _ \<Rightarrow>
                     bind_run (emit src (Directory_Entry ?path (and (i_mode meta) 0x1FF))) (\<lambda>_. down file ?path)
                 | File_Content _ \<Rightarrow> copy_file src file meta ?path (and (i_mode meta) 0x1FF)
                 | _ \<Rightarrow> stop Special_File)))))
        (\<lambda>_. complete src ps) ended" (is "run_spec ?S (bind_run _ ?f) _ _")
    proof (cases "well_placed its (Link_Item ?path [])")
      case True
      note steps = copy_link_complete [OF short True] copy_file_complete [OF short True]
        copy_dir_complete [OF short True down]
      have opened: "run_spec ?S
          (bind_run (open_at src dir name) (\<lambda>file.
           bind_run (metadata src file) (\<lambda>meta.
           bind_run (require Entry_Changed (i_dev meta = i_dev stat \<and> file = i)) (\<lambda>_.
             case i_content meta of
               Dir_Content _ \<Rightarrow>
                 bind_run (emit src (Directory_Entry ?path (and (i_mode meta) 0x1FF))) (\<lambda>_. down file ?path)
             | File_Content _ \<Rightarrow> copy_file src file meta ?path (and (i_mode meta) 0x1FF)
             | _ \<Rightarrow> stop Special_File))))
          (\<lambda>_. complete src ps) ended" for i and stat :: source_inode
        unfolding open_at_def metadata_def
        by (intro run_spec_bind [OF call_so_far [where Q = "\<lambda>_. True"]] run_spec_fact run_spec_bind [OF require_so_far])
          (auto intro!: steps run_spec_stop split: content.split)
      show ?thesis
        unfolding fstatat_def
        by (rule run_spec_bind [OF call_so_far [where Q = "\<lambda>_. True"]], simp, rule run_spec_fact)
          (auto intro!: steps opened run_spec_stop split: prod.split content.split)
    next
      case False
      then have "\<not> ?S st" for st
        using prefix name by (auto simp: well_placed_def so_far_def)
      then show ?thesis by (simp add: run_spec_def)
    qed
  qed
qed

lemma names_plain:
  assumes "sane_names src"
  shows "run_spec (complete src ps) (names src dir)
     (\<lambda>ns st. complete src ps st \<and> (\<forall>n\<in>set ns. n \<notin> {[], ''.'', ''..''} \<and> slash \<notin> set n)) ended"
  unfolding complete_def
proof (rule run_spec_ex, rule run_spec_weaken)
  fix its
  show "run_spec (so_far src ps its [] 0) (names src dir)
      (\<lambda>ns st. so_far src ps its [] 0 st \<and> (\<forall>n\<in>set ns. n \<notin> {[], ''.'', ''..''} \<and> slash \<notin> set n)) ended"
    unfolding names_def
    by (rule call_so_far)
      (use assms in \<open>fastforce simp: sane_names_def list_all_iff split: content.splits if_splits\<close>)
qed auto

lemma metadata_complete: "run_spec (complete src ps) (metadata src fd) (\<lambda>_. complete src ps) ended"
  unfolding complete_def
  by (rule run_spec_ex, unfold metadata_def, rule run_spec_weaken [OF call_so_far [where Q = "\<lambda>_. True"]]) auto

lemma copy_entry_nul:
  assumes "down_ok src down" "prefix \<in> ps" "n \<notin> {[], ''.'', ''..''}" "slash \<notin> set n"
  shows "run_spec (complete src ps) (copy_entry src down dir prefix n) (\<lambda>_. complete src ps) ended"
proof (cases "nul \<in> set n")
  case True
  then have "copy_entry src down dir prefix n st = (st', x) \<Longrightarrow> \<exists>e. x = Inl e" for st st' x
    by (auto simp: copy_entry_def Let_def bind_run_def count_entry_def look_def require_def stop_def done_with_def
        split: if_splits)
  then show ?thesis by (fastforce simp: run_spec_def split: sum.splits)
next
  case False
  then show ?thesis using assms by (intro copy_entry_complete) (auto simp: plain_name_def)
qed

lemma walk_complete:
  assumes "sane_names src"
  shows "down_ok src (walk_dir levels src)"
proof (induction levels)
  case 0
  show ?case by (simp add: down_ok_def run_spec_stop)
next
  case (Suc levels)
  show ?case
    unfolding down_ok_def
  proof (intro allI impI)
    fix ps dir prefix assume "prefix \<in> (ps :: bytes set)"
    have loop: "run_spec (complete src ps)
        (for_each (copy_entry src (walk_dir levels src) dir prefix) ns) (\<lambda>_. complete src ps) ended"
      if "\<forall>n\<in>set ns. n \<notin> {[], ''.'', ''..''} \<and> slash \<notin> set n" for ns
      by (rule run_spec_for_each [where P = "\<lambda>_. complete src ps"], rule copy_entry_nul [OF Suc \<open>prefix \<in> ps\<close>])
        (use that in auto)
    show "run_spec (complete src ps) (walk_dir (Suc levels) src dir prefix) (\<lambda>_. complete src ps) ended"
      unfolding walk_dir.simps
      by (intro run_spec_bind [OF metadata_complete] run_spec_bind [OF names_plain [OF assms]] run_spec_fact
          run_spec_bind [OF loop] run_spec_require) auto
  qed
qed

text \<open>
  C36 (safety). Whatever other processes do to the source meanwhile, the stream of a snapshot that
  succeeds consists of complete items: a file has as many bytes as it announces, in pieces of at most
  48 KiB, no item carries a privileged mode, every path is made of plain names below the source or
  below a directory that came before, and the limits on paths, links and their number hold.
\<close>

theorem snapshot_well_formed:
  assumes "sane_names src"
    and "snapshot src root \<lparr>g_now = t, g_output = [], g_count = 0\<rparr> = (st, Inr ())"
  shows "\<exists>its. g_output st =
      Begin_Entry # concat (map (render_item (s_encode src)) its) @ [Finish_Entry (length its)] \<and>
      length its \<le> 1000000 \<and> items_ok [] its"
proof -
  let ?s = "\<lambda>st. g_output st = [] \<and> g_count st = 0"
  let ?Q = "\<lambda>st. \<exists>its. so_far src {[]} its [Finish_Entry (length its)] 0 st"
  have start: "run_spec ?s
      (call_at src (\<lambda>fs. case i_content (fs root) of Dir_Content _ \<Rightarrow> Inr root | _ \<Rightarrow> Inl Not_Directory)) (\<lambda>_. ?s) ended"
    by (auto simp: run_spec_def call_at_def split: sum.split)
  have opened: "run_spec ?s (output_call src) (\<lambda>_. ?s) ended"
    by (auto simp: run_spec_def output_call_def call_at_def)
  have begins: "run_spec ?s (emit src Begin_Entry) (\<lambda>_. complete src {[]}) ended"
    by (auto simp: run_spec_def emit_def complete_def so_far_def intro!: exI [of _ "[]"])
  have walk: "run_spec (complete src {[]}) (walk_dir 129 src root []) (\<lambda>_. complete src {[]}) ended" for root
    using walk_complete [OF assms(1)] by (simp add: down_ok_def)
  have finish: "run_spec (complete src {[]})
      (bind_run (look g_count) (\<lambda>n. bind_run (emit src (Finish_Entry n)) (\<lambda>_. output_call src))) (\<lambda>_. ?Q) ended"
    by (auto simp: run_spec_def bind_run_def look_def emit_def output_call_def call_at_def complete_def so_far_def
        intro!: exI)
  have "run_spec ?s (snapshot src root) (\<lambda>_. ?Q) ended"
    unfolding snapshot_def
    by (intro run_spec_bind [OF start] run_spec_bind [OF opened] run_spec_bind [OF begins] run_spec_bind [OF walk] finish)
  from run_specD [OF this _ assms(2)] show ?thesis by (auto simp: so_far_def)
qed

section \<open>A undisturbed source\<close>

function pieces :: "bytes \<Rightarrow> bytes list" where
  "pieces b = (if b = [] then [] else take (48 * 1024) b # pieces (drop (48 * 1024) b))"
  by pat_completeness auto

termination
  by (relation "measure length") auto

declare pieces.simps [simp del]

lemma concat_pieces [simp]: "concat (pieces b) = b"
  by (induction b rule: pieces.induct) (subst pieces.simps, auto)

abbreviation holds_dir :: "source_inode \<Rightarrow> bool" where
  "holds_dir n \<equiv> \<exists>es. i_content n = Dir_Content es"

text \<open>The inode that a list of names leads to, and the item for it.\<close>

fun reach :: "(nat \<Rightarrow> source_inode) \<Rightarrow> nat \<Rightarrow> bytes list \<Rightarrow> nat option" where
  "reach fs dir [] = Some dir"
| "reach fs dir (n # ns) =
     (if n = ''.'' \<or> n = ''..'' then None
      else case dir_entry fs dir n of Some i \<Rightarrow> reach fs i ns | None \<Rightarrow> None)"

definition path_of :: "bytes \<Rightarrow> bytes list \<Rightarrow> bytes" where
  "path_of prefix ns = foldl path_below prefix ns"

lemma path_of_simps [simp]: "path_of p [] = p" "path_of p (n # ns) = path_of (path_below p n) ns"
  by (simp_all add: path_of_def)

definition item_at :: "(nat \<Rightarrow> source_inode) \<Rightarrow> nat \<Rightarrow> bytes \<Rightarrow> item" where
  "item_at fs i path =
     (case i_content (fs i) of
        Dir_Content _ \<Rightarrow> Dir_Item path (and (i_mode (fs i)) 0x1FF)
      | File_Content b \<Rightarrow> File_Item path (and (i_mode (fs i)) 0x1FF) (pieces b)
      | Link_Content t \<Rightarrow> Link_Item path t
      | Special_Content \<Rightarrow> Link_Item path [])"

text \<open>What the limits and the kinds of files admit.\<close>

definition content_ok :: "content \<Rightarrow> bool" where
  "content_ok c \<longleftrightarrow>
     (case c of
        Dir_Content es \<Rightarrow> list_all from_utf8 (map fst es)
      | File_Content b \<Rightarrow> True
      | Link_Content t \<Rightarrow> length t \<le> 4096 \<and> from_utf8 t
      | Special_Content \<Rightarrow> False)"

definition importable :: "nat \<Rightarrow> (nat \<Rightarrow> source_inode) \<Rightarrow> nat \<Rightarrow> bytes \<Rightarrow> bool" where
  "importable levels fs dir prefix \<longleftrightarrow>
     holds_dir (fs dir) \<and>
     (\<forall>ns i. reach fs dir ns = Some i \<longrightarrow>
        content_ok (i_content (fs i)) \<and> (holds_dir (fs i) \<longrightarrow> length ns < levels) \<and>
        (ns \<noteq> [] \<longrightarrow> length (path_of prefix ns) \<le> 4096 \<and> nul \<notin> set (last ns)))"

definition sorted_names :: "(nat \<Rightarrow> source_inode) \<Rightarrow> nat \<Rightarrow> bytes list" where
  "sorted_names fs dir =
     (case i_content (fs dir) of
        Dir_Content es \<Rightarrow> sort (filter (\<lambda>n. n \<noteq> ''.'' \<and> n \<noteq> ''..'') (map fst es))
      | _ \<Rightarrow> [])"

primrec listing :: "nat \<Rightarrow> (nat \<Rightarrow> source_inode) \<Rightarrow> nat \<Rightarrow> bytes \<Rightarrow> item list" where
  "listing 0 fs dir prefix = []"
| "listing (Suc levels) fs dir prefix =
     concat (map (\<lambda>n. case dir_entry fs dir n of
        None \<Rightarrow> []
      | Some i \<Rightarrow>
          item_at fs i (path_below prefix n) #
          (case i_content (fs i) of Dir_Content _ \<Rightarrow> listing levels fs i (path_below prefix n) | _ \<Rightarrow> []))
       (sorted_names fs dir))"

lemma sorted_names_entry:
  "n \<in> set (sorted_names fs dir) \<longleftrightarrow> n \<noteq> ''.'' \<and> n \<noteq> ''..'' \<and> (\<exists>i. dir_entry fs dir n = Some i)"
  by (force simp: sorted_names_def dir_entry_def image_iff map_of_eq_None_iff split: content.splits
      dest: map_of_SomeD intro: weak_map_of_SomeI)

lemma importable_below:
  assumes "importable (Suc levels) fs dir prefix" "dir_entry fs dir n = Some i" "n \<noteq> ''.''" "n \<noteq> ''..''"
  shows "content_ok (i_content (fs i))" "length (path_below prefix n) \<le> 4096" "nul \<notin> set n"
    and "holds_dir (fs i) \<Longrightarrow> importable levels fs i (path_below prefix n)"
proof -
  note r = assms(1) [unfolded importable_def, THEN conjunct2, rule_format]
  from r [of "[n]" i] assms show "content_ok (i_content (fs i))" "length (path_below prefix n) \<le> 4096" "nul \<notin> set n"
    by simp_all
  assume "holds_dir (fs i)"
  moreover have "content_ok (i_content (fs j)) \<and> (holds_dir (fs j) \<longrightarrow> length ns < levels) \<and>
        (ns \<noteq> [] \<longrightarrow> length (path_of (path_below prefix n) ns) \<le> 4096 \<and> nul \<notin> set (last ns))"
    if "reach fs i ns = Some j" for ns j
    using r [of "n # ns" j] that assms by auto
  ultimately show "importable levels fs i (path_below prefix n)" unfolding importable_def by blast
qed

lemma listing_set:
  assumes "importable levels fs dir prefix"
  shows "set (listing levels fs dir prefix) =
     {item_at fs i (path_of prefix ns) |ns i. ns \<noteq> [] \<and> reach fs dir ns = Some i}"
  using assms
proof (induction levels arbitrary: dir prefix)
  case 0
  then show ?case by (auto simp: importable_def dest: spec [of _ "[]"])
next
  case (Suc levels)
  let ?down = "\<lambda>i n. {item_at fs j (path_of (path_below prefix n) ns) |ns j. ns \<noteq> [] \<and> reach fs i ns = Some j}"
  have no_dir: "reach fs i ns = Some j \<Longrightarrow> \<not> holds_dir (fs i) \<Longrightarrow> ns = []" for i j ns
    by (cases ns) (auto simp: dir_entry_def split: if_splits content.splits)
  have one: "set (case i_content (fs i) of Dir_Content _ \<Rightarrow> listing levels fs i (path_below prefix n) | _ \<Rightarrow> []) = ?down i n"
    if "dir_entry fs dir n = Some i" "n \<noteq> ''.''" "n \<noteq> ''..''" for i n
    using Suc.IH [OF importable_below(4) [OF Suc.prems that]] no_dir [of i]
    by (cases "i_content (fs i)") auto
  have "set (listing (Suc levels) fs dir prefix) =
      (\<Union>n\<in>set (sorted_names fs dir). \<Union>i\<in>set_option (dir_entry fs dir n). insert (item_at fs i (path_below prefix n)) (?down i n))"
    unfolding listing.simps set_concat set_map image_image
  proof (rule SUP_cong [OF refl])
    fix n assume "n \<in> set (sorted_names fs dir)"
    then obtain i where "dir_entry fs dir n = Some i" "n \<noteq> ''.''" "n \<noteq> ''..''" by (auto simp: sorted_names_entry)
    then show "set (case dir_entry fs dir n of None \<Rightarrow> [] | Some i \<Rightarrow> item_at fs i (path_below prefix n) #
          (case i_content (fs i) of Dir_Content _ \<Rightarrow> listing levels fs i (path_below prefix n) | _ \<Rightarrow> [])) =
        (\<Union>i\<in>set_option (dir_entry fs dir n). insert (item_at fs i (path_below prefix n)) (?down i n))"
      using one [of n i] by simp
  qed
  also have "\<dots> = {item_at fs j (path_of prefix ns) |ns j. ns \<noteq> [] \<and> reach fs dir ns = Some j}"
  proof (intro set_eqI iffI)
    fix x
    assume "x \<in> (\<Union>n\<in>set (sorted_names fs dir). \<Union>i\<in>set_option (dir_entry fs dir n).
        insert (item_at fs i (path_below prefix n)) (?down i n))"
    then obtain n i where n: "n \<in> set (sorted_names fs dir)" "dir_entry fs dir n = Some i"
        "x = item_at fs i (path_below prefix n) \<or> x \<in> ?down i n" by auto
    from n(3) obtain ns j where "x = item_at fs j (path_of prefix (n # ns))" "reach fs i ns = Some j"
    proof
      assume "x = item_at fs i (path_below prefix n)"
      then show thesis using that [of i "[]"] by simp
    next
      assume "x \<in> ?down i n"
      then show thesis using that by auto
    qed
    then show "x \<in> {item_at fs j (path_of prefix ns) |ns j. ns \<noteq> [] \<and> reach fs dir ns = Some j}"
      using n by (intro CollectI exI [of _ "n # ns"] exI [of _ j]) (simp add: sorted_names_entry)
  next
    fix x assume "x \<in> {item_at fs j (path_of prefix ns) |ns j. ns \<noteq> [] \<and> reach fs dir ns = Some j}"
    then obtain n ns j where x: "x = item_at fs j (path_of prefix (n # ns))" "reach fs dir (n # ns) = Some j"
      by (auto simp: neq_Nil_conv)
    then obtain i where i: "dir_entry fs dir n = Some i" "reach fs i ns = Some j" "n \<in> set (sorted_names fs dir)"
      by (auto simp: sorted_names_entry split: if_splits option.splits)
    then have "x \<in> insert (item_at fs i (path_below prefix n)) (?down i n)"
      using x by (cases "ns = []") auto
    then show "x \<in> (\<Union>n\<in>set (sorted_names fs dir). \<Union>i\<in>set_option (dir_entry fs dir n).
        insert (item_at fs i (path_below prefix n)) (?down i n))"
      using i by auto
  qed
  finally show ?case .
qed

text \<open>Nobody changes the source and every call succeeds.\<close>

definition undisturbed :: "source \<Rightarrow> (nat \<Rightarrow> source_inode) \<Rightarrow> bool" where
  "undisturbed src fs \<longleftrightarrow> (\<forall>t. s_at src t = fs \<and> \<not> s_fails src t)"

definition wrote :: "stream_entry list \<Rightarrow> nat \<Rightarrow> snapshot_state \<Rightarrow> bool" where
  "wrote out k st \<longleftrightarrow> g_output st = out \<and> g_count st = k"

abbreviation never :: "snapshot_state \<Rightarrow> bool" where
  "never \<equiv> \<lambda>_. False"

lemma quiet_call:
  "undisturbed src fs \<Longrightarrow> f fs = Inr a \<Longrightarrow>
     run_spec (wrote out k) (call_at src f) (\<lambda>x st. wrote out k st \<and> x = a) never"
  by (simp add: run_spec_def call_at_def undisturbed_def wrote_def)

lemma quiet_emit: "undisturbed src fs \<Longrightarrow> run_spec (wrote out k) (emit src e) (\<lambda>_. wrote (out @ [e]) k) never"
  by (simp add: run_spec_def emit_def undisturbed_def wrote_def)

lemma quiet_require: "b \<Longrightarrow> run_spec (wrote out k) (require e b) (\<lambda>_. wrote out k) never"
  by (simp add: run_spec_def require_def done_with_def)

text \<open>A call whose result is known, and the rest.\<close>

lemma quiet_bind:
  assumes "undisturbed src fs" "f fs = Inr a" "run_spec (wrote out k) (g a) Q never"
  shows "run_spec (wrote out k) (bind_run (call_at src f) g) Q never"
  by (rule run_spec_bind [OF quiet_call [of src fs f a, OF assms(1,2)]], rule run_spec_fact) (use assms(3) in simp)

lemma quiet_data:
  assumes "undisturbed src fs" "i_content (fs fd) = File_Content b" "offset + remaining = length b"
  shows "run_spec (wrote out k) (copy_data src fd offset remaining)
     (\<lambda>_. wrote (out @ map (\<lambda>p. Data_Entry (s_encode src p)) (pieces (drop offset b))) k) never"
  using assms
proof (induction src fd offset remaining arbitrary: out rule: copy_data.induct)
  case (1 src fd offset remaining)
  let ?n = "min remaining (48 * 1024)"
  let ?b = "take ?n (drop offset b)"
  show ?case
  proof (cases "remaining = 0")
    case True
    then have "drop offset b = []" using "1.prems" by simp
    then show ?thesis
      using True unfolding copy_data.simps [of src fd offset remaining]
      by (simp add: run_spec_done pieces.simps)
  next
    case False
    have data: "pieces (drop offset b) = ?b # pieces (drop (offset + ?n) b)"
    proof -
      have "drop offset b \<noteq> []" using False "1.prems"(3) by simp
      moreover have "take (48 * 1024) (drop offset b) = ?b"
        using "1.prems"(3) by (cases "remaining \<le> 48 * 1024") simp_all
      moreover have "drop (48 * 1024) (drop offset b) = drop (offset + ?n) b"
        using "1.prems"(3) by (cases "remaining \<le> 48 * 1024") (simp_all add: add.commute)
      ultimately show ?thesis by (subst pieces.simps) simp
    qed
    have rest: "run_spec (wrote (out @ [Data_Entry (s_encode src ?b)]) k) (copy_data src fd (offset + ?n) (remaining - ?n))
        (\<lambda>_. wrote (out @ map (\<lambda>p. Data_Entry (s_encode src p)) (pieces (drop offset b))) k) never"
      using "1.IH" [OF False refl "1.prems"(1,2), of "out @ [Data_Entry (s_encode src ?b)]"] "1.prems"(3)
      by (simp add: data)
    show ?thesis
      unfolding copy_data.simps [of src fd offset remaining] Let_def read_exact_def
      by (simp only: False if_False, rule quiet_bind [OF "1.prems"(1), where a = ?b],
          use "1.prems" in simp, rule run_spec_bind [OF quiet_emit [OF "1.prems"(1)] rest])
  qed
qed

lemma quiet_file:
  assumes q: "undisturbed src fs" and b: "i_content (fs i) = File_Content b"
  shows "run_spec (wrote out k) (copy_file src i (fs i) path m)
    (\<lambda>_. wrote (out @ render_item (s_encode src) (File_Item path m (pieces b))) k) never"
proof -
  have data: "run_spec (wrote (out @ [File_Entry path m (length b)]) k) (copy_data src i 0 (length b))
      (\<lambda>_. wrote ((out @ [File_Entry path m (length b)]) @ map (\<lambda>p. Data_Entry (s_encode src p)) (pieces b)) k) never"
    using quiet_data [OF q b, of 0 "length b" "out @ [File_Entry path m (length b)]" k] by simp
  show ?thesis
    unfolding copy_file_def metadata_def
    by (rule run_spec_bind [OF quiet_emit [OF q]], simp only: len_of_def b content.case, rule run_spec_bind [OF data],
        rule quiet_bind [OF q refl], rule run_spec_bind [OF quiet_require], simp add: unchanged_def,
        rule run_spec_weaken [OF quiet_emit [OF q]]) auto
qed

lemma quiet_link:
  assumes q: "undisturbed src fs" and i: "dir_entry fs dir n = Some i" "i_content (fs i) = Link_Content t"
    and t: "length t \<le> 4096" "from_utf8 t"
  shows "run_spec (wrote out k) (copy_symlink src dir n path) (\<lambda>_. wrote (out @ [Symlink_Entry path t]) k) never"
  unfolding copy_symlink_def readlinkat_def
  by (rule quiet_bind [OF q, where a = t], use i t in simp, rule run_spec_bind [OF quiet_require],
      use t in simp, rule run_spec_bind [OF quiet_require], use t in simp, rule quiet_emit [OF q])

lemma quiet_count: "k < 1000000 \<Longrightarrow> run_spec (wrote out k) count_entry (\<lambda>_. wrote out (Suc k)) never"
  by (simp add: run_spec_def count_entry_def bind_run_def look_def require_def done_with_def wrote_def)

lemma quiet_entry:
  assumes q: "undisturbed src fs" and i: "dir_entry fs dir n = Some i" and imp: "content_ok (i_content (fs i))"
      "length (path_below prefix n) \<le> 4096" "nul \<notin> set n"
    and k: "k < 1000000"
    and down: "holds_dir (fs i) \<Longrightarrow> run_spec (wrote (out @ [Directory_Entry (path_below prefix n) (and (i_mode (fs i)) 0x1FF)]) (Suc k))
      (down i (path_below prefix n))
      (\<lambda>_. wrote (out @ Directory_Entry (path_below prefix n) (and (i_mode (fs i)) 0x1FF) # es) (Suc k + l)) never"
  shows "run_spec (wrote out k) (copy_entry src down dir prefix n)
    (\<lambda>_. wrote (out @ render_item (s_encode src) (item_at fs i (path_below prefix n)) @ (if holds_dir (fs i) then es else []))
      (Suc k + (if holds_dir (fs i) then l else 0))) never"
proof -
  let ?path = "path_below prefix n"
  have plain: "run_spec (wrote out (Suc k)) (copy_file src i (fs i) ?path (and (i_mode (fs i)) 0x1FF))
      (\<lambda>_. wrote (out @ render_item (s_encode src) (item_at fs i ?path)) (Suc k)) never"
    if "i_content (fs i) = File_Content b" for b
    using quiet_file [OF q that] that by (simp add: item_at_def)
  have link: "run_spec (wrote out (Suc k)) (copy_symlink src dir n ?path)
      (\<lambda>_. wrote (out @ render_item (s_encode src) (item_at fs i ?path)) (Suc k)) never"
    if "i_content (fs i) = Link_Content t" for t
    using quiet_link [OF q i that] that imp(1) by (simp add: item_at_def content_ok_def)
  have dir: "run_spec (wrote out (Suc k))
      (bind_run (emit src (Directory_Entry ?path (and (i_mode (fs i)) 0x1FF))) (\<lambda>_. down i ?path))
      (\<lambda>_. wrote (out @ render_item (s_encode src) (item_at fs i ?path) @ es) (Suc k + l)) never"
    if "i_content (fs i) = Dir_Content ds" for ds
    using run_spec_bind [OF quiet_emit [OF q, of out "Suc k"] down] that by (simp add: item_at_def)
  have opened: "run_spec (wrote out (Suc k)) (g i (fs i)) Q never \<Longrightarrow> \<forall>t. i_content (fs i) \<noteq> Link_Content t \<Longrightarrow>
      run_spec (wrote out (Suc k))
        (bind_run (open_at src dir n) (\<lambda>file. bind_run (metadata src file) (\<lambda>meta.
         bind_run (require Entry_Changed (i_dev meta = i_dev (fs i) \<and> file = i)) (\<lambda>_. g file meta)))) Q never" for g Q
    unfolding open_at_def metadata_def
    by (rule quiet_bind [OF q, where a = i], use i in \<open>simp split: content.split\<close>, rule quiet_bind [OF q refl],
        rule run_spec_bind [OF quiet_require]) auto
  show ?thesis
    unfolding copy_entry_def Let_def fstatat_def
    apply (rule run_spec_bind [OF quiet_count [OF k]], rule run_spec_bind [OF quiet_require [OF imp(2)]],
        rule run_spec_bind [OF quiet_require [OF imp(3)]], rule quiet_bind [OF q, where a = "(i, fs i)"])
    subgoal using i by simp
    subgoal
      using imp(1) plain link dir
      by (cases "i_content (fs i)") (simp_all add: content_ok_def opened)
    done
qed

lemma quiet_walk:
  assumes q: "undisturbed src fs"
  shows "importable levels fs dir prefix \<Longrightarrow> k + length (listing levels fs dir prefix) \<le> 1000000 \<Longrightarrow>
     run_spec (wrote out k) (walk_dir levels src dir prefix)
       (\<lambda>_. wrote (out @ concat (map (render_item (s_encode src)) (listing levels fs dir prefix)))
          (k + length (listing levels fs dir prefix))) never"
proof (induction levels arbitrary: dir prefix out k)
  case 0
  then show ?case by (auto simp: importable_def dest: spec [of _ "[]"])
next
  case (Suc levels)
  let ?item = "\<lambda>n. case dir_entry fs dir n of None \<Rightarrow> [] | Some i \<Rightarrow> item_at fs i (path_below prefix n) #
      (case i_content (fs i) of Dir_Content _ \<Rightarrow> listing levels fs i (path_below prefix n) | _ \<Rightarrow> [])"
  let ?its = "\<lambda>ns. concat (map ?item ns)" and ?ns = "sorted_names fs dir"
  let ?P = "\<lambda>ns. wrote (out @ concat (map (render_item (s_encode src)) (?its ns))) (k + length (?its ns))"
  obtain es where es: "i_content (fs dir) = Dir_Content es" using Suc.prems(1) by (auto simp: importable_def)
  have utf8: "list_all from_utf8 (map fst es)"
    using Suc.prems(1) es by (auto simp: importable_def content_ok_def dest: spec [of _ "[]"])
  have loop: "run_spec (?P []) (for_each (copy_entry src (walk_dir levels src) dir prefix) ?ns) (\<lambda>_. ?P ?ns) never"
  proof (rule run_spec_for_each)
    fix ds n rest assume ns: "?ns = ds @ n # rest"
    then have "n \<in> set ?ns" by simp
    then obtain i where n: "dir_entry fs dir n = Some i" "n \<noteq> ''.''" "n \<noteq> ''..''" by (auto simp: sorted_names_entry)
    note path_below = importable_below [OF Suc.prems(1) n]
    have "length (?its ?ns) = length (?its ds) + length (?item n) + length (?its rest)" by (simp add: ns)
    then have room: "k + length (?its ds) + length (?item n) \<le> 1000000" using Suc.prems(2) by simp
    have "run_spec (?P ds) (copy_entry src (walk_dir levels src) dir prefix n)
        (\<lambda>_. wrote ((out @ concat (map (render_item (s_encode src)) (?its ds))) @
            render_item (s_encode src) (item_at fs i (path_below prefix n)) @
            (if holds_dir (fs i) then concat (map (render_item (s_encode src)) (listing levels fs i (path_below prefix n))) else []))
          (Suc (k + length (?its ds)) + (if holds_dir (fs i) then length (listing levels fs i (path_below prefix n)) else 0))) never"
      using n(1) room
      by (intro quiet_entry [OF q n(1) path_below(1-3)])
        (auto simp: less_eq_Suc_le intro!: run_spec_weaken [OF Suc.IH [OF path_below(4)]])
    moreover have "(if holds_dir (fs i) then listing levels fs i (path_below prefix n) else []) =
        (case i_content (fs i) of Dir_Content _ \<Rightarrow> listing levels fs i (path_below prefix n) | _ \<Rightarrow> [])"
      by (cases "i_content (fs i)") auto
    ultimately show "run_spec (?P ds) (copy_entry src (walk_dir levels src) dir prefix n) (\<lambda>_. ?P (ds @ [n])) never"
      using n(1) by (cases "i_content (fs i)") (auto simp: add_ac)
  qed
  show ?case
    unfolding walk_dir.simps metadata_def names_def
    by (rule quiet_bind [OF q refl], rule quiet_bind [OF q, where a = ?ns],
        use es utf8 in \<open>simp add: sorted_names_def\<close>, rule run_spec_bind [OF loop [simplified]],
        rule quiet_bind [OF q refl], rule run_spec_weaken [OF quiet_require]) (auto simp: unchanged_def)
qed

lemma quiet_snapshot:
  assumes "undisturbed src fs" "importable 129 fs root []" "length (listing 129 fs root []) \<le> 1000000"
  shows "run_spec (wrote [] 0) (snapshot src root)
    (\<lambda>_. wrote (Begin_Entry # concat (map (render_item (s_encode src)) (listing 129 fs root [])) @
         [Finish_Entry (length (listing 129 fs root []))]) (length (listing 129 fs root []))) never"
proof -
  let ?its = "listing 129 fs root []"
  let ?out = "Begin_Entry # concat (map (render_item (s_encode src)) ?its)"
  have walk: "run_spec (wrote ([] @ [Begin_Entry]) 0) (walk_dir 129 src root []) (\<lambda>_. wrote ?out (length ?its)) never"
    using quiet_walk [OF assms(1,2), of 0 "[Begin_Entry]"] assms(3) by simp
  have finish: "run_spec (wrote ?out (length ?its))
      (bind_run (look g_count) (\<lambda>n. bind_run (emit src (Finish_Entry n)) (\<lambda>_. output_call src)))
      (\<lambda>_. wrote (?out @ [Finish_Entry (length ?its)]) (length ?its)) never"
    using assms(1)
    by (simp add: run_spec_def bind_run_def look_def emit_def output_call_def call_at_def wrote_def undisturbed_def)
  have root: "(case i_content (fs root) of Dir_Content _ \<Rightarrow> Inr root | _ \<Rightarrow> Inl Not_Directory) = Inr root"
    using assms(2) by (auto simp: importable_def)
  show ?thesis
    unfolding snapshot_def append_Cons [symmetric]
    by (rule quiet_bind [OF assms(1)], rule root, unfold output_call_def [of src],
        rule quiet_bind [OF assms(1) refl], fold output_call_def,
        rule run_spec_bind [OF quiet_emit [OF assms(1)] run_spec_bind [OF walk finish]])
qed

text \<open>
  C37 (functional). The snapshot of a source that nobody changes, whose entries the limits admit,
  succeeds, and the stream holds exactly its entries: every name that leads to an inode without
  following a link, with the text of a link as it is, the mode of a directory or file without
  privileges, and the whole content of a file.
\<close>

theorem snapshot_exact:
  assumes "undisturbed src fs" and "importable 129 fs root []" and "length (listing 129 fs root []) \<le> 1000000"
  shows "\<exists>st its. snapshot src root \<lparr>g_now = t, g_output = [], g_count = 0\<rparr> = (st, Inr ()) \<and>
    g_output st = Begin_Entry # concat (map (render_item (s_encode src)) its) @ [Finish_Entry (length its)] \<and>
    set its = {item_at fs i (path_of [] ns) |ns i. ns \<noteq> [] \<and> reach fs root ns = Some i}"
proof -
  obtain st x where run: "snapshot src root \<lparr>g_now = t, g_output = [], g_count = 0\<rparr> = (st, x)" by fastforce
  with run_specD [OF quiet_snapshot [OF assms] _ run] show ?thesis
    using listing_set [OF assms(2)]
    by (auto simp: wrote_def split: sum.splits intro!: exI [of _ "listing 129 fs root []"])
qed

section \<open>An example\<close>

text \<open>A directory with a file, a link that leads out of it and a directory with a file.\<close>

definition some_inode :: "content \<Rightarrow> source_inode" where
  "some_inode c = \<lparr>i_dev = 1, i_size = 0, i_mode = 0x9ED, i_mtime = 0, i_mtime_nsec = 0, i_ctime = 0, i_ctime_nsec = 0,
     i_content = c\<rparr>"

definition some_fs :: "nat \<Rightarrow> source_inode" where
  "some_fs i = some_inode
     (if i = 0 then Dir_Content [(''.'', 0), (''..'', 9), (''link'', 2), (''file'', 1), (''sub'', 3)]
      else if i = 1 then File_Content ''hello''
      else if i = 2 then Link_Content ''/unavailable/host/secret''
      else if i = 3 then Dir_Content [(''x'', 1)]
      else Special_Content)"

definition some_source :: source where
  "some_source = \<lparr>s_at = \<lambda>_. some_fs, s_fails = \<lambda>_. False, s_encode = rev\<rparr>"

lemma some_quiet: "undisturbed some_source some_fs"
  by (simp add: undisturbed_def some_source_def)

lemma some_sane: "sane_names some_source"
  by (auto simp: sane_names_def some_source_def some_fs_def some_inode_def split: if_splits)

lemma some_contents:
  "i_content (some_fs 0) = Dir_Content [(''.'', 0), (''..'', 9), (''link'', 2), (''file'', 1), (''sub'', 3)]"
  "i_content (some_fs (Suc 0)) = File_Content ''hello''"
  "i_content (some_fs 2) = Link_Content ''/unavailable/host/secret''"
  "i_content (some_fs 3) = Dir_Content [(''x'', 1)]"
  by (simp_all add: some_fs_def some_inode_def)

lemma some_names: "sorted_names some_fs 0 = [''file'', ''link'', ''sub'']" "sorted_names some_fs 3 = [''x'']"
  by code_simp+

lemma some_reach:
  assumes "reach some_fs 0 ns = Some i"
  shows "ns = [] \<and> i = 0 \<or> ns = [''file''] \<and> i = 1 \<or> ns = [''link''] \<and> i = 2 \<or> ns = [''sub''] \<and> i = 3 \<or>
    ns = [''sub'', ''x''] \<and> i = 1"
proof -
  have leaf: "reach some_fs j ms = Some i \<Longrightarrow> j = Suc 0 \<or> j = 2 \<Longrightarrow> ms = [] \<and> i = j" for j ms
    by (cases ms) (auto simp: dir_entry_def some_contents split: if_splits)
  have sub: "reach some_fs 3 ms = Some i \<Longrightarrow> ms = [] \<and> i = 3 \<or> ms = [''x''] \<and> i = 1" for ms
    by (cases ms) (auto simp: dir_entry_def some_contents split: if_splits dest: leaf)
  show ?thesis
  proof (cases ns)
    case Nil
    then show ?thesis using assms by simp
  next
    case (Cons n ms)
    then show ?thesis
      using assms by (auto simp: dir_entry_def some_contents split: if_splits dest!: leaf sub)
  qed
qed

lemma some_importable: "importable 129 some_fs 0 []"
proof -
  have ok: "from_utf8 ''link''" "from_utf8 ''file''" "from_utf8 ''sub''" "from_utf8 ''.''" "from_utf8 ''..''"
      "from_utf8 ''x''" "from_utf8 ''/unavailable/host/secret''"
    by code_simp+
  show ?thesis
    unfolding importable_def
  proof (intro conjI allI impI)
    fix ns i assume r: "reach some_fs 0 ns = Some i"
    from some_reach [OF r] show "content_ok (i_content (some_fs i))"
      by (elim disjE) (simp_all add: content_ok_def some_contents ok del: from_utf8.simps)
    from some_reach [OF r] show "length ns < 129" by auto
    assume "ns \<noteq> []"
    then show "length (path_of [] ns) \<le> 4096" "nul \<notin> set (last ns)"
      using some_reach [OF r] by (auto simp: path_below_def)
  qed (simp add: some_contents)
qed

lemma some_listing: "length (listing 129 some_fs 0 []) = 4"
proof -
  have "listing (Suc (Suc n)) some_fs 0 [] =
      [item_at some_fs 1 ''file'', item_at some_fs 2 ''link'', item_at some_fs 3 ''sub'', item_at some_fs 1 ''sub/x'']" for n
    by (simp add: some_names dir_entry_def some_contents path_below_def)
  from this [of 127] show ?thesis by simp
qed

theorem snapshot_well_formed_witness:
  "\<exists>st its. snapshot some_source 0 \<lparr>g_now = 0, g_output = [], g_count = 0\<rparr> = (st, Inr ()) \<and> g_output st =
      Begin_Entry # concat (map (render_item rev) its) @ [Finish_Entry (length its)] \<and>
      length its \<le> 1000000 \<and> items_ok [] its"
proof -
  obtain st x where run: "snapshot some_source 0 \<lparr>g_now = 0, g_output = [], g_count = 0\<rparr> = (st, x)" by fastforce
  then have "x = Inr ()"
    using run_specD [OF quiet_snapshot [OF some_quiet some_importable] _ run] some_listing
    by (auto simp: wrote_def split: sum.splits)
  then show ?thesis
    using snapshot_well_formed [OF some_sane, of 0 0 st] run by (simp add: some_source_def)
qed

theorem snapshot_exact_witness:
  "\<exists>st its. snapshot some_source 0 \<lparr>g_now = 0, g_output = [], g_count = 0\<rparr> = (st, Inr ()) \<and>
    set its = {item_at some_fs i (path_of [] ns) |ns i. ns \<noteq> [] \<and> reach some_fs 0 ns = Some i}"
  using snapshot_exact [OF some_quiet some_importable, of 0] some_listing by auto

end
