(* ===== verification/Ops_File.thy ===== *)
theory Ops_File
  imports Registry
begin

text \<open>
  The files of operations of the fuzz driver (\<^verbatim>\<open>crates/world-cli/examples/fuzz_driver/main.rs\<close>):
  how a run is written, read back, and moved to another run id.
\<close>

abbreviation newline :: byte where
  "newline \<equiv> CHR 0x0A"

abbreviation return :: byte where
  "return \<equiv> CHR 0x0D"

section \<open>Text\<close>

text \<open>\<^verbatim>\<open>str::lines\<close>: a line that is ended loses a carriage return too.\<close>

definition strip_return :: "bytes \<Rightarrow> bytes" where
  "strip_return s = (if ends_with s [return] then butlast s else s)"

definition text_lines :: "bytes \<Rightarrow> bytes list" where
  "text_lines s =
     (let ps = split_on newline s
      in map strip_return (butlast ps) @ (if last ps = [] then [] else [last ps]))"

text \<open>
  \<^verbatim>\<open>str::trim\<close> takes away the characters with the property White\_Space, as UTF-8 writes them.
\<close>

definition white_space :: "bytes list" where
  "white_space =
     [[CHR 0x09], [CHR 0x0A], [CHR 0x0B], [CHR 0x0C], [CHR 0x0D], [CHR 0x20],
      [CHR 0xC2, CHR 0x85], [CHR 0xC2, CHR 0xA0], [CHR 0xE1, CHR 0x9A, CHR 0x80]] @
     map (\<lambda>c. [CHR 0xE2, CHR 0x80, c])
       [CHR 0x80, CHR 0x81, CHR 0x82, CHR 0x83, CHR 0x84, CHR 0x85, CHR 0x86, CHR 0x87, CHR 0x88, CHR 0x89,
        CHR 0x8A, CHR 0xA8, CHR 0xA9, CHR 0xAF] @
     [[CHR 0xE2, CHR 0x81, CHR 0x9F], [CHR 0xE3, CHR 0x80, CHR 0x80]]"

definition strip_one :: "bytes list \<Rightarrow> bytes \<Rightarrow> bytes option" where
  "strip_one ws s = (case filter (starts_with s) ws of w # _ \<Rightarrow> Some (drop (max 1 (length w)) s) | [] \<Rightarrow> None)"

lemma strip_one_shorter: "strip_one ws (c # s) = Some s' \<Longrightarrow> length s' < length (c # s)"
  by (auto simp: strip_one_def split: list.splits)

function strip_white :: "bytes list \<Rightarrow> bytes \<Rightarrow> bytes" where
  "strip_white ws [] = []"
| "strip_white ws (c # s) = (case strip_one ws (c # s) of Some s' \<Rightarrow> strip_white ws s' | None \<Rightarrow> c # s)"
  by pat_completeness auto

termination
  by (relation "measure (\<lambda>(ws, s). length s)") (use strip_one_shorter in fastforce)+

definition str_trim :: "bytes \<Rightarrow> bytes" where
  "str_trim s = rev (strip_white (map rev white_space) (rev (strip_white white_space s)))"

section \<open>Run ids\<close>

definition valid_run_id :: "bytes \<Rightarrow> bool" where
  "valid_run_id i =
     (case strip_prefix i ''fz-'' of
        Some rest \<Rightarrow>
          8 \<le> length rest \<and>
          list_all (\<lambda>b. between (CHR ''0'') (CHR ''9'') b \<or> between (CHR ''a'') (CHR ''f'') b) rest
      | None \<Rightarrow> False)"

lemma strip_prefix_shorter: "strip_prefix s p = Some r \<Longrightarrow> p \<noteq> [] \<Longrightarrow> length r < length s"
  by (auto simp: strip_prefix_Some)

text \<open>\<^verbatim>\<open>str::replace\<close> with a pattern that is not empty.\<close>

function str_replace :: "bytes \<Rightarrow> bytes \<Rightarrow> bytes \<Rightarrow> bytes" where
  "str_replace old new [] = []"
| "str_replace old new (c # s) =
     (case strip_prefix (c # s) old of
        Some rest \<Rightarrow> if old = [] then c # s else new @ str_replace old new rest
      | None \<Rightarrow> c # str_replace old new s)"
  by pat_completeness auto

termination
  by (relation "measure (\<lambda>(old, new, s). length s)") (use strip_prefix_shorter in fastforce)+

definition retarget_run_id :: "bytes \<Rightarrow> bytes \<Rightarrow> bytes \<Rightarrow> bytes" where
  "retarget_run_id text old_run_id new_run_id = str_replace old_run_id new_run_id text"

section \<open>Files\<close>

record ops_file =
  f_profile :: bytes
  f_seed :: nat
  f_run_id :: bytes
  f_escaping :: bool
  f_ops :: "op list"

definition header_lines :: "bytes \<Rightarrow> nat \<Rightarrow> bytes \<Rightarrow> bool \<Rightarrow> bytes list" where
  "header_lines profile seed run_id escaping =
     [''# profile '' @ profile, ''# seed '' @ show_radix 10 seed, ''# run-id '' @ run_id,
      ''# allow-escaping-links '' @ (if escaping then ''1'' else ''0'')]"

definition push_lines :: "bytes list \<Rightarrow> bytes" where
  "push_lines ls = concat (map (\<lambda>l. l @ [newline]) ls)"

definition render_ops_file :: "bytes \<Rightarrow> nat \<Rightarrow> bytes \<Rightarrow> bool \<Rightarrow> op list \<Rightarrow> bytes" where
  "render_ops_file profile seed run_id escaping ops =
     push_lines (header_lines profile seed run_id escaping) @ push_lines (map to_line ops)"

datatype ops_error = Bad_Seed nat | Unparseable nat bytes | Missing_Profile | Missing_Run_Id

record ops_acc =
  a_profile :: "bytes option"
  a_seed :: nat
  a_run_id :: "bytes option"
  a_escaping :: bool
  a_ops :: "op list"

definition parse_ops_line :: "nat \<Rightarrow> bytes \<Rightarrow> ops_acc \<Rightarrow> ops_error + ops_acc" where
  "parse_ops_line lineno line acc =
     (if line = [] then Inr acc
      else case strip_prefix line ''# profile '' of
        Some rest \<Rightarrow> Inr (acc\<lparr>a_profile := Some (str_trim rest)\<rparr>)
      | None \<Rightarrow>
      (case strip_prefix line ''# seed '' of
        Some rest \<Rightarrow>
          (case from_str_radix 64 10 (str_trim rest) of
             Some n \<Rightarrow> Inr (acc\<lparr>a_seed := n\<rparr>)
           | None \<Rightarrow> Inl (Bad_Seed (lineno + 1)))
      | None \<Rightarrow>
      (case strip_prefix line ''# run-id '' of
        Some rest \<Rightarrow> Inr (acc\<lparr>a_run_id := Some (str_trim rest)\<rparr>)
      | None \<Rightarrow>
      (case strip_prefix line ''# allow-escaping-links '' of
        Some rest \<Rightarrow> Inr (acc\<lparr>a_escaping := (str_trim rest = ''1'')\<rparr>)
      | None \<Rightarrow>
        if starts_with line ''#'' then Inr acc
        else (case from_line line of
                Some x \<Rightarrow> Inr (acc\<lparr>a_ops := a_ops acc @ [x]\<rparr>)
              | None \<Rightarrow> Inl (Unparseable (lineno + 1) line))))))"

fun parse_ops_lines :: "nat \<Rightarrow> bytes list \<Rightarrow> ops_acc \<Rightarrow> ops_error + ops_acc" where
  "parse_ops_lines n [] acc = Inr acc"
| "parse_ops_lines n (l # ls) acc =
     (case parse_ops_line n l acc of Inl e \<Rightarrow> Inl e | Inr acc' \<Rightarrow> parse_ops_lines (Suc n) ls acc')"

definition parse_ops_file :: "bytes \<Rightarrow> ops_error + ops_file" where
  "parse_ops_file text =
     (case parse_ops_lines 0 (text_lines text)
         \<lparr>a_profile = None, a_seed = 0, a_run_id = None, a_escaping = False, a_ops = []\<rparr> of
        Inl e \<Rightarrow> Inl e
      | Inr acc \<Rightarrow>
          (case a_profile acc of
             None \<Rightarrow> Inl Missing_Profile
           | Some profile \<Rightarrow>
               (case a_run_id acc of
                  None \<Rightarrow> Inl Missing_Run_Id
                | Some run_id \<Rightarrow>
                    Inr \<lparr>f_profile = profile, f_seed = a_seed acc, f_run_id = run_id, f_escaping = a_escaping acc,
                      f_ops = a_ops acc\<rparr>)))"

section \<open>Reading back\<close>

lemma split_lines:
  assumes "list_all (\<lambda>l. newline \<notin> set l) ls"
  shows "split_on newline (push_lines ls) = ls @ [[]]"
  using assms by (induction ls) (auto simp: push_lines_def split_on_append_sep split_on_no_sep)

definition line_ok :: "bytes \<Rightarrow> bool" where
  "line_ok l \<longleftrightarrow> newline \<notin> set l \<and> \<not> ends_with l [return]"

lemma text_lines_push: "list_all line_ok ls \<Longrightarrow> text_lines (push_lines ls) = ls"
  by (subst text_lines_def, subst split_lines)
    (auto simp: list_all_iff line_ok_def Let_def strip_return_def intro: map_idI)

definition line_char :: "byte \<Rightarrow> bool" where
  "line_char c \<longleftrightarrow> is_plain c \<or> c = space \<or> c = CHR ''%''"

lemma line_char_ends: "\<not> line_char newline" "\<not> line_char return"
  by (simp_all add: line_char_def is_plain_def is_ascii_alphanumeric_def between_def)

lemma dec_digit_plain: "n < 10 \<Longrightarrow> is_plain (dec_digit n)"
  by (simp add: is_plain_def is_ascii_alphanumeric_def between_def dec_digit_def)

lemma hex_digit_plain: "n < 16 \<Longrightarrow> is_plain (hex_digit n)"
  by (simp add: is_plain_def is_ascii_alphanumeric_def between_def hex_digit_def)

lemma escape_chars: "c \<in> set (escape bs) \<Longrightarrow> line_char c"
proof (induction bs rule: escape.induct)
  case (2 b bs)
  have "(of_char b :: nat) div 16 < 16" by (rule less_mult_imp_div_less) simp
  moreover have "(of_char b :: nat) mod 16 < 16" by simp
  ultimately show ?case using 2 hex_digit_plain by (auto simp: hex2_def line_char_def split: if_splits)
qed simp

lemma show_radix_digits: "r \<le> 10 \<Longrightarrow> 2 \<le> r \<Longrightarrow> c \<in> set (show_radix r n) \<Longrightarrow> is_plain c"
proof (induction n rule: less_induct)
  case (less n)
  show ?case
  proof (cases "n < r")
    case True
    then show ?thesis using less.prems dec_digit_plain [of n] by (simp add: show_radix.simps [of r n])
  next
    case False
    with less.prems have "n div r < n" by (intro div_less_dividend) auto
    moreover have "n mod r < 10" using less.prems mod_less_divisor [of r n] by linarith
    ultimately show ?thesis
      using less.IH [of "n div r"] less.prems False dec_digit_plain [of "n mod r"]
      by (auto simp: show_radix.simps [of r n])
  qed
qed

lemma show_radix_chars: "r \<le> 10 \<Longrightarrow> 2 \<le> r \<Longrightarrow> c \<in> set (show_radix r n) \<Longrightarrow> line_char c"
  using show_radix_digits by (simp add: line_char_def)

lemma flag_char_plain: "line_char (flag_char v)"
  by (cases v) (simp_all add: flag_char_def line_char_def is_plain_def is_ascii_alphanumeric_def between_def)

lemma show_flags_chars: "c \<in> set (to_flag_str f) \<Longrightarrow> line_char c"
  using flag_char_plain by (auto simp: to_flag_str_def)

lemma show_bool_chars: "c \<in> set (show_bool b) \<Longrightarrow> line_char c"
proof -
  have "list_all line_char (show_bool b)"
    by (cases b)
      (simp_all add: show_bool_def line_char_def is_plain_def is_ascii_alphanumeric_def between_def)
  then show "c \<in> set (show_bool b) \<Longrightarrow> line_char c" by (simp add: list_all_iff)
qed

lemma word_chars: "list_all line_char (''abcdefghijklmnopqrstuvwxyz'' @ [space])"
  by (simp add: line_char_def is_plain_def is_ascii_alphanumeric_def between_def)

lemma to_line_chars: "c \<in> set (to_line x) \<Longrightarrow> line_char c"
  using word_chars
  by (cases x) (auto simp: show_u32_def dest!: escape_chars show_flags_chars show_bool_chars show_radix_chars [rotated 2])

lemma to_line_ok: "line_ok (to_line x)" "to_line x \<noteq> []" "\<not> starts_with (to_line x) ''#''"
proof -
  show "line_ok (to_line x)"
    using to_line_chars [of newline x] to_line_chars [of return x] line_char_ends
    by (auto simp: line_ok_def ends_with_iff)
qed (cases x; simp)+

lemma strip_one_plain:
  assumes "list_all (\<lambda>w. w \<noteq> [] \<and> hd w \<noteq> c) ws"
  shows "strip_one ws (c # s) = None"
proof -
  have "filter (starts_with (c # s)) ws = []"
    using assms by (auto simp: list_all_iff filter_empty_conv starts_with_iff neq_Nil_conv)
  then show ?thesis by (simp add: strip_one_def)
qed

lemma plain_not_white:
  assumes "is_plain c"
  shows "list_all (\<lambda>w. w \<noteq> [] \<and> hd w \<noteq> c) white_space" "list_all (\<lambda>w. w \<noteq> [] \<and> hd w \<noteq> c) (map rev white_space)"
  using assms
  by (auto simp: white_space_def is_plain_def is_ascii_alphanumeric_def between_def)

lemma strip_all_plain: "list_all is_plain s \<Longrightarrow> strip_white white_space s = s \<and> strip_white (map rev white_space) s = s"
  by (cases s) (auto simp: strip_one_plain plain_not_white)

lemma str_trim_plain: "list_all is_plain s \<Longrightarrow> str_trim s = s"
  using strip_all_plain [of s] strip_all_plain [of "rev s"] by (simp add: str_trim_def)

definition header_text :: "bytes \<Rightarrow> bool" where
  "header_text s \<longleftrightarrow> str_trim s = s \<and> newline \<notin> set s \<and> return \<notin> set s"

lemma plain_ends: "\<not> is_plain newline" "\<not> is_plain return"
  using line_char_ends by (simp_all add: line_char_def)

lemma header_text_plain: "list_all is_plain s \<Longrightarrow> header_text s"
  using plain_ends by (auto simp: header_text_def str_trim_plain list_all_iff)

lemma show_radix_plain: "list_all is_plain (show_radix 10 n)"
  using show_radix_digits [of 10 _ n] by (simp add: list_all_iff)

lemma ends_with_single: "ends_with l [c] \<longleftrightarrow> l \<noteq> [] \<and> last l = c"
  by (cases l rule: rev_cases) (auto simp: ends_with_iff)

lemma header_lines_ok:
  assumes "header_text profile" "header_text run_id"
  shows "list_all line_ok (header_lines profile seed run_id escaping)"
proof -
  have tail: "header_text t \<Longrightarrow> newline \<notin> set p \<Longrightarrow> p \<noteq> [] \<Longrightarrow> last p \<noteq> return \<Longrightarrow> line_ok (p @ t)" for p t
    by (cases "t = []") (auto simp: line_ok_def header_text_def ends_with_single last_append dest: last_in_set)
  have "header_text ''1''" "header_text ''0''"
    by (intro header_text_plain, simp add: is_plain_def is_ascii_alphanumeric_def between_def)+
  then show ?thesis
    unfolding header_lines_def list.pred_inject
    using assms header_text_plain [OF show_radix_plain]
    by (intro conjI TrueI tail) (cases escaping, simp_all)+
qed

lemma strip_prefix_self [simp]: "strip_prefix (p @ s) p = Some s"
  by (simp add: strip_prefix_Some)

lemma parse_headers:
  assumes "header_text profile" "header_text run_id" "seed < 2 ^ 64"
  shows "parse_ops_lines 0 (header_lines profile seed run_id escaping @ ls)
      \<lparr>a_profile = None, a_seed = 0, a_run_id = None, a_escaping = False, a_ops = []\<rparr> =
    parse_ops_lines 4 ls
      \<lparr>a_profile = Some profile, a_seed = seed, a_run_id = Some run_id, a_escaping = escaping, a_ops = []\<rparr>"
proof -
  have trims: "str_trim profile = profile" "str_trim run_id = run_id" "str_trim (show_radix 10 seed) = show_radix 10 seed"
      "str_trim ''1'' = ''1''" "str_trim ''0'' = ''0''"
    using assms str_trim_plain [OF show_radix_plain]
    by (simp_all add: header_text_def str_trim_plain is_plain_def is_ascii_alphanumeric_def between_def)
  have seed: "from_str_radix 64 10 (show_radix 10 seed) = Some seed"
    using from_str_radix_show [of 10 64 seed] assms(3) by simp
  have four: "(4 :: nat) = Suc (Suc (Suc (Suc 0)))" by simp
  show ?thesis
    unfolding four by (simp add: header_lines_def parse_ops_line_def strip_prefix_def trims seed)
qed

lemma parse_op_lines:
  assumes "list_all line_safe ops"
  shows "parse_ops_lines n (map to_line ops) acc = Inr (acc\<lparr>a_ops := a_ops acc @ ops\<rparr>)"
  using assms
proof (induction ops arbitrary: n acc)
  case (Cons x ops)
  have hash: "strip_prefix (to_line x) (CHR ''#'' # p) = None" for p
    using to_line_ok(3) [of x] by (cases "to_line x") (auto simp: strip_prefix_def)
  have "from_line (to_line x) = Some x"
    using Cons.prems by (simp add: from_line_def split_to_line parse_op_tokens)
  then have "parse_ops_line n (to_line x) acc = Inr (acc\<lparr>a_ops := a_ops acc @ [x]\<rparr>)"
    using to_line_ok(2,3) [of x] by (simp add: parse_ops_line_def hash)
  then show ?case using Cons by simp
qed simp

lemma ops_file_read_back:
  assumes "header_text profile" and "header_text run_id" and "seed < 2 ^ 64" and "list_all line_safe ops"
  shows "parse_ops_file (render_ops_file profile seed run_id escaping ops) =
    Inr \<lparr>f_profile = profile, f_seed = seed, f_run_id = run_id, f_escaping = escaping, f_ops = ops\<rparr>"
proof -
  have "list_all line_ok (header_lines profile seed run_id escaping @ map to_line ops)"
    using header_lines_ok [OF assms(1,2)] to_line_ok(1) by (auto simp: list_all_iff)
  moreover have "render_ops_file profile seed run_id escaping ops =
      push_lines (header_lines profile seed run_id escaping @ map to_line ops)"
    by (simp add: render_ops_file_def push_lines_def)
  ultimately have "text_lines (render_ops_file profile seed run_id escaping ops) =
      header_lines profile seed run_id escaping @ map to_line ops"
    by (simp only: text_lines_push)
  then show ?thesis
    by (simp add: parse_ops_file_def parse_headers [OF assms(1-3)] parse_op_lines [OF assms(4)])
qed

text \<open>
  A file of operations is read back as it was written: the profile, the seed, the
  run id, the switch and every operation that a line can carry, in order.
\<close>

theorem ops_file_roundtrip:
  assumes "header_text profile" and "header_text run_id" and "seed < 2 ^ 64" and "list_all line_safe ops"
  shows "parse_ops_file (render_ops_file profile seed run_id escaping ops) =
    Inr \<lparr>f_profile = profile, f_seed = seed, f_run_id = run_id, f_escaping = escaping, f_ops = ops\<rparr>"
  using assms by (rule ops_file_read_back)

section \<open>Another run id\<close>

text \<open>What moving a run to another id means for an operation: the id is replaced in its operands.\<close>

fun map_operands :: "(bytes \<Rightarrow> bytes) \<Rightarrow> op \<Rightarrow> op" where
  "map_operands f (Symlink target path) = Symlink (f target) (f path)"
| "map_operands f (Rename from to) = Rename (f from) (f to)"
| "map_operands f (MkstempAdopt name) = MkstempAdopt (f name)"
| "map_operands f (Write fd d) = Write fd (f d)"
| "map_operands f (Read fd len) = Read fd len"
| "map_operands f Getcwd = Getcwd"
| "map_operands f (CloseFd fd) = CloseFd fd"
| "map_operands f (Mkdir path mode) = Mkdir (f path) mode"
| "map_operands f (Open path flags) = Open (f path) flags"
| "map_operands f (Readlink path) = Readlink (f path)"
| "map_operands f (Unlink path) = Unlink (f path)"
| "map_operands f (Rmdir path) = Rmdir (f path)"
| "map_operands f (Chdir path) = Chdir (f path)"
| "map_operands f (Realpath path) = Realpath (f path)"
| "map_operands f (Stat path) = Stat (f path)"
| "map_operands f (Lstat path) = Lstat (f path)"
| "map_operands f (OpenDir path) = OpenDir (f path)"
| "map_operands f (OpenAt dirfd path flags) = OpenAt dirfd (f path) flags"
| "map_operands f (MkdirAt dirfd path) = MkdirAt dirfd (f path)"
| "map_operands f (UnlinkAt dirfd path rmdir) = UnlinkAt dirfd (f path) rmdir"
| "map_operands f (Bind path) = Bind (f path)"
| "map_operands f (Connect path) = Connect (f path)"
| "map_operands f (ListDir path) = ListDir (f path)"

fun data_operands :: "op \<Rightarrow> bytes list" where
  "data_operands (Write fd d) = [d]"
| "data_operands x = path_operands x"

lemma run_id_facts:
  assumes "valid_run_id i"
  shows "\<exists>r. i = CHR ''f'' # CHR ''z'' # r" "list_all is_plain i" "CHR ''z'' \<in> set i"
  using assms
  by (auto simp: valid_run_id_def strip_prefix_Some list_all_iff is_plain_def is_ascii_alphanumeric_def between_def
      split: option.splits)

lemma replace_none: "c \<in> set old \<Longrightarrow> c \<notin> set s \<Longrightarrow> str_replace old new s = s"
proof (induction old new s rule: str_replace.induct)
  case (2 old new x s)
  have "strip_prefix (x # s) old = None"
  proof (rule ccontr)
    assume "strip_prefix (x # s) old \<noteq> None"
    then obtain r where "x # s = old @ r" by (auto simp: strip_prefix_Some)
    then have "set old \<subseteq> set (x # s)" by simp
    then show False using 2(3,4) by blast
  qed
  then show ?case using 2 by simp
qed simp

lemma replace_old: "old \<noteq> [] \<Longrightarrow> str_replace old new (old @ u) = new @ str_replace old new u"
proof (cases "old @ u")
  case (Cons c s)
  then have "strip_prefix (c # s) old = Some u" by (metis strip_prefix_self)
  then show "old \<noteq> [] \<Longrightarrow> ?thesis" using Cons by simp
qed simp

lemma strip_prefix_Cons:
  "strip_prefix (x # xs) (y # ys) = (if x = y then strip_prefix xs ys else None)" "strip_prefix [] (y # ys) = None"
  by (simp_all add: strip_prefix_def)

text \<open>The pieces between characters that the id does not have are replaced one by one.\<close>

lemma replace_at:
  "c \<notin> set old \<Longrightarrow> old \<noteq> [] \<Longrightarrow> str_replace old new (xs @ c # ys) = str_replace old new xs @ c # str_replace old new ys"
proof (induction old new xs rule: str_replace.induct)
  case (1 old new)
  then have "strip_prefix (c # ys) old = None" by (cases old) (auto simp: strip_prefix_def)
  then show ?case by simp
next
  case (2 old new x xs)
  have keep: "strip_prefix (x # xs @ c # ys) old = map_option (\<lambda>r. r @ c # ys) (strip_prefix (x # xs) old)"
  proof (cases "strip_prefix (x # xs) old")
    case (Some r)
    then show ?thesis by (simp add: strip_prefix_Some)
  next
    case None
    have "\<nexists>r. x # xs @ c # ys = old @ r"
    proof
      assume "\<exists>r. x # xs @ c # ys = old @ r"
      then obtain r where "(x # xs) @ c # ys = old @ r" by auto
      then have "\<exists>u. x # xs = old @ u"
        using 2(3) by (auto simp: append_eq_append_conv2 Cons_eq_append_conv)
      then show False using None by (auto simp: strip_prefix_def starts_with_iff)
    qed
    then show ?thesis using None by (auto simp: strip_prefix_def starts_with_iff)
  qed
  show ?case using 2 keep by (auto split: option.splits)
qed

lemma escape_plain: "list_all is_plain p \<Longrightarrow> escape (p @ s) = p @ escape s"
  by (induction p) auto

lemma plain_prefix_escape: "list_all is_plain p \<Longrightarrow> strip_prefix (escape s) p = map_option escape (strip_prefix s p)"
proof (induction p arbitrary: s)
  case (Cons a p)
  have "a \<noteq> CHR ''%''" using Cons.prems plain_not_special by auto
  with Cons show ?case by (cases s) (auto simp: strip_prefix_Cons)
qed (simp add: strip_prefix_def)

definition replaceable :: "bytes \<Rightarrow> bool" where
  "replaceable p \<longleftrightarrow> list_all (\<lambda>b. is_plain b \<or> (of_char b :: nat) mod 16 \<noteq> 15) p"

lemma hex_digit_f: "n < 16 \<Longrightarrow> hex_digit n = CHR ''f'' \<longleftrightarrow> n = 15" "n < 16 \<Longrightarrow> hex_digit n \<noteq> CHR ''z''"
proof -
  show "hex_digit n \<noteq> CHR ''z''" if "n < 16"
    by (rule char_neq) (use that in \<open>simp add: hex_digit_def\<close>)
  show "hex_digit n = CHR ''f'' \<longleftrightarrow> n = 15" if "n < 16"
  proof
    assume "hex_digit n = CHR ''f''"
    then have "(of_char (hex_digit n) :: nat) = 102" by simp
    then show "n = 15" using that by (simp add: hex_digit_def split: if_splits)
  qed (simp add: hex_digit_def char_of_def bit_0)
qed

lemma replace_escape:
  assumes "valid_run_id old" "valid_run_id new"
  shows "replaceable p \<Longrightarrow> str_replace old new (escape p) = escape (str_replace old new p)"
  using assms
proof (induction old new p rule: str_replace.induct)
  case (2 old new c s)
  obtain r where old: "old = CHR ''f'' # CHR ''z'' # r" using run_id_facts(1) [OF 2(4)] by blast
  note plain = run_id_facts(2) [OF 2(4)] run_id_facts(2) [OF 2(5)]
  show ?case
  proof (cases "strip_prefix (c # s) old")
    case (Some t)
    then have eq: "c # s = old @ t" by (simp add: strip_prefix_Some)
    have t: "replaceable t" using 2(3) unfolding eq by (simp add: replaceable_def)
    have step: "str_replace old new (old @ u) = new @ str_replace old new u" for u
      using old by (intro replace_old) simp
    have "str_replace old new (escape t) = escape (str_replace old new t)"
      using 2(2) [OF Some _ t 2(4,5)] old by simp
    then show ?thesis unfolding eq by (simp only: step escape_plain [OF plain(1)] escape_plain [OF plain(2)])
  next
    case None
    have s: "str_replace old new (escape s) = escape (str_replace old new s)"
      using 2(1) [OF None _ 2(4,5)] 2(3) by (simp add: replaceable_def)
    show ?thesis
    proof (cases "is_plain c")
      case True
      have "strip_prefix (escape (c # s)) old = None" by (simp only: plain_prefix_escape [OF plain(1)] None) simp
      then show ?thesis using True None s by simp
    next
      case False
      have "(of_char c :: nat) div 16 < 16" by (rule less_mult_imp_div_less) simp
      then have "hex_digit (of_char c mod 16) \<noteq> CHR ''f''" "hex_digit (of_char c mod 16) \<noteq> CHR ''z''"
        using hex_digit_f [of "of_char c mod 16"] 2(3) False by (simp_all add: replaceable_def)
      then show ?thesis using False None s old by (simp add: hex2_def strip_prefix_def)
    qed
  qed
qed simp

lemma replace_push:
  assumes "newline \<notin> set old" "old \<noteq> []"
  shows "str_replace old new (push_lines ls @ r) = push_lines (map (str_replace old new) ls) @ str_replace old new r"
  using assms by (induction ls) (simp_all add: push_lines_def replace_at)

lemma run_id_chars:
  assumes "valid_run_id i"
  shows "newline \<notin> set i" "space \<notin> set i" "i \<noteq> []"
proof -
  have "\<not> is_plain space" by (simp add: is_plain_def is_ascii_alphanumeric_def between_def)
  then show "newline \<notin> set i" "space \<notin> set i" "i \<noteq> []"
    using run_id_facts [OF assms] plain_ends by (auto simp: list_all_iff)
qed

lemma no_z:
  "2 \<le> r \<Longrightarrow> r \<le> 10 \<Longrightarrow> CHR ''z'' \<notin> set (show_radix r n)" "CHR ''z'' \<notin> set (show_bool b)"
  "CHR ''z'' \<notin> set (to_flag_str f)"
proof -
  have z: "to_digit r (CHR ''z'') = None" for r by (simp add: to_digit_def between_def)
  have "read_digits r acc xs = Some m \<Longrightarrow> CHR ''z'' \<notin> set xs" for r acc xs m
    by (induction r acc xs rule: read_digits.induct) (auto simp: z split: option.splits)
  then show "2 \<le> r \<Longrightarrow> r \<le> 10 \<Longrightarrow> CHR ''z'' \<notin> set (show_radix r n)" using show_radix_facts by blast
qed (auto simp: show_bool_def to_flag_str_def flag_char_def)

fun join_on :: "'a \<Rightarrow> 'a list list \<Rightarrow> 'a list" where
  "join_on c [] = []"
| "join_on c [x] = x"
| "join_on c (x # y # xs) = x @ c # join_on c (y # xs)"

lemma join_with_Cons: "join_on c ((a # x) # xs) = a # join_on c (x # xs)"
  by (cases xs) simp_all

lemma join_split: "join_on c (split_on c s) = s"
proof (induction s)
  case (Cons a s)
  then show ?case by (cases "split_on c s") (auto simp: join_with_Cons split: list.splits)
qed simp

lemma replace_join:
  "c \<notin> set old \<Longrightarrow> old \<noteq> [] \<Longrightarrow> str_replace old new (join_on c xs) = join_on c (map (str_replace old new) xs)"
  by (induction c xs rule: join_on.induct) (simp_all add: replace_at)

lemma replace_tokens:
  assumes ids: "valid_run_id old" "valid_run_id new" and ok: "list_all replaceable (data_operands x)"
  shows "map (str_replace old new) (op_tokens x) = op_tokens (map_operands (str_replace old new) x)"
proof -
  have word: "CHR ''z'' \<notin> set w \<Longrightarrow> str_replace old new w = w" for w
    by (rule replace_none [OF run_id_facts(3) [OF ids(1)]])
  show ?thesis
    using ok
    by (cases x) (simp_all add: replace_escape [OF ids] word no_z show_u32_def del: str_replace.simps)
qed

lemma replace_line:
  assumes "valid_run_id old" "valid_run_id new" "list_all replaceable (data_operands x)"
  shows "str_replace old new (to_line x) = to_line (map_operands (str_replace old new) x)"
  using replace_join [OF run_id_chars(2,3) [OF assms(1)], of new "op_tokens x"] replace_tokens [OF assms]
  by (simp flip: split_to_line add: join_split)

lemma replace_header:
  assumes "valid_run_id old" "valid_run_id new" "CHR ''z'' \<notin> set profile"
  shows "map (str_replace old new) (header_lines profile seed old escaping) = header_lines profile seed new escaping"
proof -
  have word: "CHR ''z'' \<notin> set w \<Longrightarrow> str_replace old new w = w" for w
    by (rule replace_none [OF run_id_facts(3) [OF assms(1)]])
  have run_id: "str_replace old new (''# run-id'' @ space # old) = ''# run-id'' @ space # new"
    using replace_old [OF run_id_chars(3) [OF assms(1)], of new "[]"]
    by (simp only: replace_at [OF run_id_chars(2,3) [OF assms(1)]] word) (simp add: word del: str_replace.simps(2))
  show ?thesis
    using run_id assms(3) by (simp add: header_lines_def word no_z del: str_replace.simps)
qed

text \<open>
  C39 (equivalence). Moving a file to another run id by replacing the text is the same as replacing
  the id in the operands of its operations and in its header: for operands in which no byte that is
  written as an escape ends in the digit f.
\<close>

theorem retarget_exact:
  assumes "valid_run_id old" and "valid_run_id new" and "CHR ''z'' \<notin> set profile"
    and "\<forall>x \<in> set ops. list_all replaceable (data_operands x)"
  shows "retarget_run_id (render_ops_file profile seed old escaping ops) old new =
    render_ops_file profile seed new escaping (map (map_operands (\<lambda>p. retarget_run_id p old new)) ops)"
proof -
  note push = replace_push [OF run_id_chars(1,3) [OF assms(1)]]
  have "map (str_replace old new) (map to_line ops) = map to_line (map (map_operands (str_replace old new)) ops)"
    using replace_line [OF assms(1,2)] assms(4) by simp
  then have "str_replace old new (push_lines (map to_line ops)) =
      push_lines (map to_line (map (map_operands (str_replace old new)) ops))"
    using push [of new "map to_line ops" "[]"] by (simp del: map_map)
  then show ?thesis
    unfolding retarget_run_id_def render_ops_file_def by (simp only: push replace_header [OF assms(1-3)])
qed

text \<open>
  Without that condition the replacement is not exact: the last digit of an escaped byte
  and the text after it can spell the run id, and an operand that does not contain the id changes.
\<close>

theorem retarget_changes_other_names:
  "let p = CHR 0x0F # ''z-00000000''; old = ''fz-00000000''; new = ''fz-11111111''
   in valid_run_id old \<and> valid_run_id new \<and> retarget_run_id p old new = p \<and>
      unescape (retarget_run_id (escape p) old new) = Some (CHR 0x0F # ''z-11111111'')"
  by code_simp

theorem ops_file_roundtrip_witness:
  "parse_ops_file (render_ops_file ''mac'' 7 ''fz-00000000'' True [Mkdir ''/tmp/fz-00000000'' 0x1FF, CloseFd 3]) =
    Inr \<lparr>f_profile = ''mac'', f_seed = 7, f_run_id = ''fz-00000000'', f_escaping = True,
      f_ops = [Mkdir ''/tmp/fz-00000000'' 0x1FF, CloseFd 3]\<rparr>"
  by (rule ops_file_roundtrip)
    (auto intro!: header_text_plain simp: is_plain_def is_ascii_alphanumeric_def between_def line_safe_def)

theorem retarget_exact_witness:
  "retarget_run_id (render_ops_file ''mac'' 7 ''fz-00000000'' True [Mkdir ''/tmp/fz-00000000 x'' 0x1FF]) ''fz-00000000'' ''fz-11111111'' =
    render_ops_file ''mac'' 7 ''fz-11111111'' True
      (map (map_operands (\<lambda>p. retarget_run_id p ''fz-00000000'' ''fz-11111111'')) [Mkdir ''/tmp/fz-00000000 x'' 0x1FF])"
proof (rule retarget_exact)
  show "valid_run_id ''fz-00000000''" "valid_run_id ''fz-11111111''" by code_simp+
  show "\<forall>x \<in> set [Mkdir ''/tmp/fz-00000000 x'' 0x1FF]. list_all replaceable (data_operands x)" by code_simp
qed simp

end
