(* ===== verification/Ddmin.thy ===== *)
theory Ddmin
  imports Ops_File "HOL-Library.Sublist"
begin

text \<open>
  The minimizer of the fuzz driver (\<^verbatim>\<open>crates/world-cli/examples/fuzz_driver/ddmin.rs\<close>): ever
  smaller files of operations are replayed by another process, and a smaller one is kept when it
  shows the same divergence. What a replay shows may differ from one attempt to the next: it is a
  function of the number of the attempt and of the file.
\<close>

section \<open>The search\<close>

text \<open>
  The chunks of one size are left out one after the other. The result is the file that was
  accepted, if any, and the number of attempts so far.
\<close>

function try_chunks ::
  "(nat \<Rightarrow> 'a list \<Rightarrow> bool) \<Rightarrow> nat \<Rightarrow> nat \<Rightarrow> nat \<Rightarrow> 'a list \<Rightarrow> 'a list option \<times> nat" where
  "try_chunks repro n chunk_size start ls =
     (if chunk_size \<noteq> 0 \<and> start < length ls
      then
        let end = min (start + chunk_size) (length ls);
            candidate = take start ls @ drop end ls
        in if candidate \<noteq> [] \<and> repro n candidate then (Some candidate, Suc n)
           else try_chunks repro (if candidate = [] then n else Suc n) chunk_size end ls
      else (None, n))"
  by pat_completeness auto

termination
  by (relation "measure (\<lambda>(repro, n, chunk_size, start, ls). length ls - start)") auto

declare try_chunks.simps [simp del]

definition div_ceil :: "nat \<Rightarrow> nat \<Rightarrow> nat" where
  "div_ceil a b = (a + b - 1) div b"

lemma div_ceil_pos: "0 < div_ceil a b \<Longrightarrow> 0 < b"
  by (cases b) (auto simp: div_ceil_def)

lemma try_chunks_shorter:
  "try_chunks repro n k start ls = (Some ls', n') \<Longrightarrow> length ls' < length ls \<and> ls' \<noteq> [] \<and> subseq ls' ls"
proof (induction repro n k start ls rule: try_chunks.induct)
  case (1 repro n chunk_size start ls)
  let ?upto = "min (start + chunk_size) (length ls)"
  let ?c = "take start ls @ drop ?upto ls"
  show ?case
  proof (cases "chunk_size \<noteq> 0 \<and> start < length ls")
    case True
    have eq: "try_chunks repro n chunk_size start ls =
        (if ?c \<noteq> [] \<and> repro n ?c then (Some ?c, Suc n)
         else try_chunks repro (if ?c = [] then n else Suc n) chunk_size ?upto ls)"
      by (simp only: try_chunks.simps [of repro n chunk_size start ls] Let_def eqTrueI [OF True] if_True)
    show ?thesis
    proof (cases "?c \<noteq> [] \<and> repro n ?c")
      case accepted: True
      then have "ls' = ?c" using "1.prems" unfolding eq by (simp del: append_is_Nil_conv)
      moreover have "subseq ?c (take start ls @ drop start ls)"
      proof (rule list_emb_append_mono)
        have "drop ?upto ls = drop (?upto - start) (drop start ls)" using True by simp
        then show "subseq (drop ?upto ls) (drop start ls)" by (metis suffix_drop suffix_imp_subseq)
      qed simp
      ultimately show ?thesis using accepted True by auto
    next
      case False
      then have "try_chunks repro (if ?c = [] then n else Suc n) chunk_size ?upto ls = (Some ls', n')"
        using "1.prems" unfolding eq by (simp only: if_False)
      then show ?thesis by (rule "1.IH" [OF True refl refl False])
    qed
  next
    case False
    then show ?thesis using "1.prems" by (subst (asm) try_chunks.simps) auto
  qed
qed

text \<open>\<open>chunk_divisor\<close> is at least two.\<close>

function coarse :: "(nat \<Rightarrow> 'a list \<Rightarrow> bool) \<Rightarrow> nat \<Rightarrow> nat \<Rightarrow> 'a list \<Rightarrow> 'a list \<times> nat" where
  "coarse repro n chunk_divisor ls =
     (if 1 < length ls
      then
        let chunk_size = div_ceil (length ls) chunk_divisor
        in if chunk_size = 0 then (ls, n)
           else (case try_chunks repro n chunk_size 0 ls of
              (Some ls', n') \<Rightarrow> coarse repro n' (max (chunk_divisor - 1) 2) ls'
            | (None, n') \<Rightarrow>
                if length ls \<le> chunk_divisor then (ls, n')
                else coarse repro n' (min (chunk_divisor * 2) (length ls)) ls)
      else (ls, n))"
  by pat_completeness auto

termination
  by (relation "measures [\<lambda>(repro, n, d, ls). length ls, \<lambda>(repro, n, d, ls). length ls - d]")
    (auto dest!: sym [of "(_, _)"] try_chunks_shorter div_ceil_pos)

declare coarse.simps [simp del]

function fine :: "(nat \<Rightarrow> 'a list \<Rightarrow> bool) \<Rightarrow> nat \<Rightarrow> nat \<Rightarrow> 'a list \<Rightarrow> 'a list \<times> nat" where
  "fine repro n i ls =
     (if i < length ls
      then
        let candidate = take i ls @ drop (Suc i) ls
        in if candidate \<noteq> [] \<and> repro n candidate then fine repro (Suc n) i candidate
           else fine repro (if candidate = [] then n else Suc n) (Suc i) ls
      else (ls, n))"
  by pat_completeness auto

termination
  by (relation "measure (\<lambda>(repro, n, i, ls). length ls - i)") auto

declare fine.simps [simp del]

section \<open>Minimize\<close>

definition render_lines :: "bytes \<Rightarrow> nat \<Rightarrow> bytes \<Rightarrow> bool \<Rightarrow> bytes list \<Rightarrow> bytes" where
  "render_lines profile seed run_id escaping ls =
     push_lines (header_lines profile seed run_id escaping) @ push_lines ls"

datatype minimized = Harness_Error | Nothing_To_Minimize | Minimized bytes

text \<open>
  \<^verbatim>\<open>minimize\<close>, of a file that can be read, into one that can be written; \<open>reproduces\<close> replays a
  file and gives the signature of its divergence, if it shows one in time.
\<close>

definition minimize_ops :: "(nat \<Rightarrow> bytes \<Rightarrow> bytes option) \<Rightarrow> ops_file \<Rightarrow> minimized" where
  "minimize_ops reproduces parsed =
     (let ls = map to_line (f_ops parsed);
          render = render_lines (f_profile parsed) (f_seed parsed) (f_run_id parsed) (f_escaping parsed);
          attempt = (\<lambda>n ls. reproduces n (render ls))
      in case (if ls = [] then None else attempt 0 ls) of
           None \<Rightarrow> Nothing_To_Minimize
         | Some target \<Rightarrow>
             (let repro = (\<lambda>n ls. attempt n ls = Some target)
              in case coarse repro 1 2 ls of
                   (ls, n) \<Rightarrow> (case fine repro n 0 ls of (ls, _) \<Rightarrow> Minimized (render ls))))"

definition minimize :: "(nat \<Rightarrow> bytes \<Rightarrow> bytes option) \<Rightarrow> bytes \<Rightarrow> minimized" where
  "minimize reproduces text =
     (case parse_ops_file text of
        Inl _ \<Rightarrow> Harness_Error
      | Inr parsed \<Rightarrow> minimize_ops reproduces parsed)"

section \<open>What is kept\<close>

lemma try_chunks_attempts:
  "try_chunks repro n k start ls = (x, n') \<Longrightarrow>
     n \<le> n' \<and> (\<forall>ls'. x = Some ls' \<longrightarrow> (\<exists>m. n \<le> m \<and> m < n' \<and> repro m ls'))"
proof (induction repro n k start ls arbitrary: x n' rule: try_chunks.induct)
  case (1 repro n chunk_size start ls)
  let ?upto = "min (start + chunk_size) (length ls)"
  let ?c = "take start ls @ drop ?upto ls"
  show ?case
  proof (cases "chunk_size \<noteq> 0 \<and> start < length ls")
    case True
    have eq: "try_chunks repro n chunk_size start ls =
        (if ?c \<noteq> [] \<and> repro n ?c then (Some ?c, Suc n)
         else try_chunks repro (if ?c = [] then n else Suc n) chunk_size ?upto ls)"
      by (simp only: try_chunks.simps [of repro n chunk_size start ls] Let_def eqTrueI [OF True] if_True)
    show ?thesis
    proof (cases "?c \<noteq> [] \<and> repro n ?c")
      case accepted: True
      then show ?thesis using "1.prems" unfolding eq by (auto simp del: append_is_Nil_conv)
    next
      case False
      then have "try_chunks repro (if ?c = [] then n else Suc n) chunk_size ?upto ls = (x, n')"
        using "1.prems" unfolding eq by (simp only: if_False)
      then have "(if ?c = [] then n else Suc n) \<le> n' \<and>
          (\<forall>ls'. x = Some ls' \<longrightarrow> (\<exists>m. (if ?c = [] then n else Suc n) \<le> m \<and> m < n' \<and> repro m ls'))"
        by (rule "1.IH" [OF True refl refl False])
      then show ?thesis by (fastforce split: if_splits)
    qed
  next
    case False
    then show ?thesis using "1.prems" by (subst (asm) try_chunks.simps) auto
  qed
qed

text \<open>A smaller file was accepted by some attempt, or it is the file itself.\<close>

definition accepted_from :: "(nat \<Rightarrow> 'a list \<Rightarrow> bool) \<Rightarrow> nat \<Rightarrow> 'a list \<Rightarrow> 'a list \<times> nat \<Rightarrow> bool" where
  "accepted_from repro n ls r \<longleftrightarrow>
     (case r of (ls', n') \<Rightarrow>
        n \<le> n' \<and> subseq ls' ls \<and> (ls \<noteq> [] \<longrightarrow> ls' \<noteq> []) \<and> (ls' = ls \<or> (\<exists>m. n \<le> m \<and> m < n' \<and> repro m ls')))"

lemma accepted_refl: "n \<le> n' \<Longrightarrow> accepted_from repro n ls (ls, n')"
  by (simp add: accepted_from_def)

lemma accepted_trans:
  assumes "n \<le> m" "m < n1" "repro m ls1" "subseq ls1 ls" "ls1 \<noteq> []" "accepted_from repro n1 ls1 r"
  shows "accepted_from repro n ls r"
proof -
  obtain ls' n' where r: "r = (ls', n')" by fastforce
  have "ls' = ls1 \<or> (\<exists>k. n1 \<le> k \<and> k < n' \<and> repro k ls')" "n1 \<le> n'" "subseq ls' ls1" "ls' \<noteq> []"
    using assms(5,6) by (auto simp: r accepted_from_def)
  moreover from this(1) have "\<exists>k. n \<le> k \<and> k < n' \<and> repro k ls'"
  proof
    assume "ls' = ls1"
    then show ?thesis using assms(1-3) \<open>n1 \<le> n'\<close> by (intro exI [of _ m]) simp
  next
    assume "\<exists>k. n1 \<le> k \<and> k < n' \<and> repro k ls'"
    then show ?thesis using assms(1,2) by (meson le_trans less_imp_le)
  qed
  ultimately show ?thesis
    using assms by (auto simp: r accepted_from_def dest: subseq_order.trans)
qed

lemma accepted_later: "n \<le> n1 \<Longrightarrow> accepted_from repro n1 ls r \<Longrightarrow> accepted_from repro n ls r"
  by (fastforce simp: accepted_from_def split: prod.splits)

lemma coarse_accepted: "accepted_from repro n ls (coarse repro n d ls)"
proof (induction repro n d ls rule: coarse.induct)
  case (1 repro n d ls)
  let ?k = "div_ceil (length ls) d"
  obtain x n' where try': "try_chunks repro n ?k 0 ls = (x, n')" by fastforce
  note attempts = try_chunks_attempts [OF try']
  show ?case
  proof (cases "1 < length ls \<and> ?k \<noteq> 0")
    case True
    show ?thesis
    proof (cases x)
      case None
      have "accepted_from repro n ls (coarse repro n' (min (d * 2) (length ls)) ls)" if "\<not> length ls \<le> d"
        using accepted_later [of n n'] True attempts "1.IH"(1) [OF _ refl _ try' [symmetric] None that] by simp
      then show ?thesis
        using True try' attempts None by (subst coarse.simps) (auto simp: Let_def intro: accepted_refl)
    next
      case (Some ls')
      then obtain m where m: "n \<le> m" "m < n'" "repro m ls'" using attempts by blast
      have shorter: "ls' \<noteq> []" "subseq ls' ls" using try_chunks_shorter try' Some by blast+
      have "accepted_from repro n' ls' (coarse repro n' (max (d - 1) 2) ls')"
        using True try' Some "1.IH"(2) [OF _ refl _ try' [symmetric]] by simp
      then have "accepted_from repro n ls (coarse repro n' (max (d - 1) 2) ls')"
        using accepted_trans [of n m n' repro ls' ls] m shorter by blast
      then show ?thesis using True try' Some by (subst coarse.simps) (simp add: Let_def)
    qed
  next
    case False
    then show ?thesis by (subst coarse.simps) (auto simp: Let_def accepted_refl)
  qed
qed

lemma drop_one_subseq: "subseq (take i ls @ drop (Suc i) ls) ls"
proof -
  have "subseq (drop 1 (drop i ls)) (drop i ls)" by (intro suffix_imp_subseq suffix_drop)
  then have "subseq (take i ls @ drop (Suc i) ls) (take i ls @ drop i ls)"
    by (intro list_emb_append_mono) simp_all
  then show ?thesis by simp
qed

lemma fine_step:
  "i < length ls \<Longrightarrow> fine repro n i ls =
     (let c = take i ls @ drop (Suc i) ls
      in if c \<noteq> [] \<and> repro n c then fine repro (Suc n) i c else fine repro (if c = [] then n else Suc n) (Suc i) ls)"
  by (subst fine.simps) (simp only: if_True)

lemma fine_accepted: "accepted_from repro n ls (fine repro n i ls)"
proof (induction repro n i ls rule: fine.induct)
  case (1 repro n i ls)
  let ?c = "take i ls @ drop (Suc i) ls"
  show ?case
  proof (cases "i < length ls")
    case True
    show ?thesis
    proof (cases "?c \<noteq> [] \<and> repro n ?c")
      case accepted: True
      then have "accepted_from repro n ls (fine repro (Suc n) i ?c)"
        using accepted_trans [of n n "Suc n" repro ?c ls, OF _ _ _ drop_one_subseq] "1.IH"(1) [OF True refl] by blast
      then show ?thesis using accepted True by (simp add: fine_step Let_def del: append_is_Nil_conv)
    next
      case False
      then have "accepted_from repro n ls (fine repro (if ?c = [] then n else Suc n) (Suc i) ls)"
        using accepted_later [OF _ "1.IH"(2) [OF True refl False]] by simp
      then show ?thesis using False True by (simp only: fine_step [OF True] Let_def if_False)
    qed
  next
    case False
    then show ?thesis by (subst fine.simps) (simp add: accepted_refl)
  qed
qed

section \<open>Minimal files\<close>

text \<open>A file from which no single line can be left out.\<close>

definition one_minimal :: "('a list \<Rightarrow> bool) \<Rightarrow> nat \<Rightarrow> 'a list \<Rightarrow> bool" where
  "one_minimal repro i ls \<longleftrightarrow>
     (\<forall>j < i. j < length ls \<longrightarrow>
        (let c = take j ls @ drop (Suc j) ls in c = [] \<or> \<not> repro c))"

lemma drop_two_subseq:
  assumes "j < i" "i < length ls"
  shows "subseq (take j (take i ls @ drop (Suc i) ls) @ drop (Suc j) (take i ls @ drop (Suc i) ls))
     (take j ls @ drop (Suc j) ls)"
proof -
  have "take j (take i ls @ drop (Suc i) ls) = take j ls" using assms by simp
  moreover have "subseq (drop (Suc j) (take i ls) @ drop (Suc i) ls) (drop (Suc j) ls)"
  proof -
    have "drop (Suc j) (take i ls) = take (i - Suc j) (drop (Suc j) ls)" by (simp add: drop_take)
    moreover have "drop (Suc i) ls = drop (Suc (i - Suc j)) (drop (Suc j) ls)" using assms by simp
    ultimately show ?thesis by (simp only: drop_one_subseq)
  qed
  moreover have "drop (Suc j) (take i ls @ drop (Suc i) ls) = drop (Suc j) (take i ls) @ drop (Suc i) ls"
    using assms by simp
  ultimately show ?thesis by (simp only: list_emb_append_mono subseq_order.order_refl)
qed

lemma fine_minimal:
  assumes "\<And>xs ys. subseq xs ys \<Longrightarrow> subseq ys whole \<Longrightarrow> xs \<noteq> [] \<Longrightarrow> repro xs \<Longrightarrow> repro ys"
    and "subseq ls whole" "one_minimal repro i ls"
  shows "\<exists>i'. length (fst (fine (\<lambda>_. repro) n i ls)) \<le> i' \<and> one_minimal repro i' (fst (fine (\<lambda>_. repro) n i ls))"
  using assms(2,3)
proof (induction "\<lambda>_ :: nat. repro" n i ls rule: fine.induct)
  case (1 n i ls)
  let ?c = "take i ls @ drop (Suc i) ls"
  show ?case
  proof (cases "i < length ls")
    case True
    show ?thesis
    proof (cases "?c \<noteq> [] \<and> repro ?c")
      case accepted: True
      have sub: "subseq ?c whole" using drop_one_subseq "1.prems"(1) by (rule subseq_order.order_trans)
      have "one_minimal repro i ?c"
        unfolding one_minimal_def Let_def
      proof (intro allI impI)
        fix j assume j: "j < i" "j < length ?c"
        let ?cj = "take j ?c @ drop (Suc j) ?c" and ?lj = "take j ls @ drop (Suc j) ls"
        have below: "subseq ?cj ?lj" using j(1) True by (rule drop_two_subseq)
        have "?lj = [] \<or> \<not> repro ?lj"
          using "1.prems"(2) j(1) True by (simp add: one_minimal_def Let_def)
        moreover have "subseq ?lj whole" using drop_one_subseq "1.prems"(1) by (rule subseq_order.order_trans)
        ultimately show "?cj = [] \<or> \<not> repro ?cj"
          using assms(1) [OF below] below by (metis list_emb_Nil2)
      qed
      then show ?thesis
        using "1.hyps"(1) [OF True refl accepted sub] accepted
        by (simp only: fine_step [OF True] Let_def if_True simp_thms)
    next
      case False
      have "one_minimal repro (Suc i) ls"
        using "1.prems"(2) False by (auto simp: one_minimal_def Let_def less_Suc_eq)
      then show ?thesis
        using "1.hyps"(2) [OF True refl False "1.prems"(1)] False
        by (simp only: fine_step [OF True] Let_def if_False)
    qed
  next
    case False
    then show ?thesis using "1.prems"(2) by (subst (1 2) fine.simps) (simp, intro exI [of _ i], simp)
  qed
qed

section \<open>Files that are minimized\<close>

lemma subseq_map_conv: "subseq xs (map f ys) \<longleftrightarrow> (\<exists>zs. subseq zs ys \<and> xs = map f zs)"
  by (metis nths_map subseq_conv_nths)

lemma subseq_list_all: "subseq xs ys \<Longrightarrow> list_all P ys \<Longrightarrow> list_all P xs"
  by (auto simp: subseq_conv_nths list_all_iff dest: in_set_nthsD)

lemma render_lines_ops: "render_lines profile seed run_id escaping (map to_line ops) = render_ops_file profile seed run_id escaping ops"
  by (simp add: render_lines_def render_ops_file_def)

definition acc_ok :: "ops_acc \<Rightarrow> bool" where
  "acc_ok acc \<longleftrightarrow> a_seed acc < 2 ^ 64 \<and> list_all line_safe (a_ops acc)"

lemma parse_ops_line_ok: "parse_ops_line n l acc = Inr acc' \<Longrightarrow> acc_ok acc \<Longrightarrow> acc_ok acc'"
  by (auto simp: parse_ops_line_def acc_ok_def from_str_radix_def Let_def split: if_splits option.splits
      dest: from_line_safe)

lemma parse_ops_lines_ok: "parse_ops_lines n ls acc = Inr acc' \<Longrightarrow> acc_ok acc \<Longrightarrow> acc_ok acc'"
  by (induction n ls acc rule: parse_ops_lines.induct) (auto split: sum.splits dest: parse_ops_line_ok)

lemma parsed_ok: "parse_ops_file text = Inr p \<Longrightarrow> f_seed p < 2 ^ 64 \<and> list_all line_safe (f_ops p)"
  using parse_ops_lines_ok [of 0 "text_lines text" "\<lparr>a_profile = None, a_seed = 0, a_run_id = None, a_escaping = False, a_ops = []\<rparr>"]
  by (auto simp: parse_ops_file_def acc_ok_def split: sum.splits option.splits)

definition file_text :: "ops_file \<Rightarrow> op list \<Rightarrow> bytes" where
  "file_text p ops = render_ops_file (f_profile p) (f_seed p) (f_run_id p) (f_escaping p) ops"

text \<open>The outcome of the search, in terms of operations.\<close>

lemma minimize_result:
  assumes "minimize reproduces text = Minimized out" "parse_ops_file text = Inr p"
  obtains target ls n where
    "f_ops p \<noteq> []" "reproduces 0 (file_text p (f_ops p)) = Some target"
    "ls = fst (coarse (\<lambda>n ls. reproduces n (render_lines (f_profile p) (f_seed p) (f_run_id p) (f_escaping p) ls) = Some target)
        1 2 (map to_line (f_ops p)))"
    "out = render_lines (f_profile p) (f_seed p) (f_run_id p) (f_escaping p)
       (fst (fine (\<lambda>n ls. reproduces n (render_lines (f_profile p) (f_seed p) (f_run_id p) (f_escaping p) ls) = Some target) n 0 ls))"
    "n = snd (coarse (\<lambda>n ls. reproduces n (render_lines (f_profile p) (f_seed p) (f_run_id p) (f_escaping p) ls) = Some target)
        1 2 (map to_line (f_ops p)))"
  using assms
  by (auto simp: minimize_def minimize_ops_def Let_def file_text_def render_lines_ops split: if_splits option.splits prod.splits)

text \<open>
  What the minimizer writes is a file of operations again: with the header of the
  file it was given and some of its operations, in their order and at least one. And the last replay
  that was accepted was of this very file, or it is the whole file: it showed the divergence of the
  file it was given.
\<close>

theorem minimize_sound:
  assumes "minimize reproduces text = Minimized out" and "parse_ops_file text = Inr p"
    and "header_text (f_profile p)" and "header_text (f_run_id p)"
  shows "\<exists>ops target n. subseq ops (f_ops p) \<and> ops \<noteq> [] \<and> parse_ops_file out = Inr (p\<lparr>f_ops := ops\<rparr>) \<and>
    reproduces 0 (file_text p (f_ops p)) = Some target \<and> reproduces n out = Some target"
proof -
  let ?all = "map to_line (f_ops p)"
  let ?render = "render_lines (f_profile p) (f_seed p) (f_run_id p) (f_escaping p)"
  obtain target ls n where run: "f_ops p \<noteq> []" "reproduces 0 (file_text p (f_ops p)) = Some target"
      "ls = fst (coarse (\<lambda>n ls. reproduces n (?render ls) = Some target) 1 2 ?all)"
      "out = ?render (fst (fine (\<lambda>n ls. reproduces n (?render ls) = Some target) n 0 ls))"
      "n = snd (coarse (\<lambda>n ls. reproduces n (?render ls) = Some target) 1 2 ?all)"
    by (rule minimize_result [OF assms(1,2)])
  let ?repro = "\<lambda>n ls. reproduces n (?render ls) = Some target"
  let ?out = "fst (fine ?repro n 0 ls)"
  have c: "subseq ls ?all" "ls \<noteq> []" "ls = ?all \<or> (\<exists>m. ?repro m ls)"
    using coarse_accepted [of ?repro 1 ?all 2] run(1,3) by (auto simp: accepted_from_def split: prod.splits)
  have f: "subseq ?out ls" "?out \<noteq> []" "?out = ls \<or> (\<exists>m. ?repro m ?out)"
    using fine_accepted [of ?repro n ls 0] c(2) by (auto simp: accepted_from_def split: prod.splits)
  obtain ops where ops: "subseq ops (f_ops p)" "?out = map to_line ops"
    using subseq_order.order_trans [OF f(1) c(1)] by (auto simp: subseq_map_conv)
  have out: "out = file_text p ops" using run(4) ops(2) by (simp add: file_text_def render_lines_ops)
  have "\<exists>m. reproduces m out = Some target"
    using f(3) c(3) run(2,4) by (auto simp: file_text_def render_lines_ops)
  moreover have "parse_ops_file out = Inr (p\<lparr>f_ops := ops\<rparr>)"
  proof -
    have "list_all line_safe ops"
      using parsed_ok [OF assms(2)] ops(1) by (auto intro: subseq_list_all)
    then show ?thesis
      using ops_file_read_back [OF assms(3,4), of "f_seed p" ops "f_escaping p"] parsed_ok [OF assms(2)]
      by (simp add: out file_text_def)
  qed
  ultimately show ?thesis using ops f(2) run(2) by auto
qed

text \<open>
  C40 (functional). When a replay always shows the same, and a file shows the divergence whenever
  one with fewer of the operations does, no single operation can be left out of what the minimizer
  writes.
\<close>

theorem minimize_one_minimal:
  assumes "minimize (\<lambda>_. shows_it) text = Minimized out" and "parse_ops_file text = Inr p"
    and "\<forall>xs ys. subseq xs ys \<longrightarrow> subseq ys (f_ops p) \<longrightarrow> xs \<noteq> [] \<longrightarrow>
      shows_it (file_text p xs) = shows_it (file_text p (f_ops p)) \<longrightarrow>
      shows_it (file_text p ys) = shows_it (file_text p (f_ops p))"
  shows "\<exists>ops. out = file_text p ops \<and>
    (\<forall>j < length ops. let rest = take j ops @ drop (Suc j) ops
      in rest = [] \<or> shows_it (file_text p rest) \<noteq> shows_it (file_text p (f_ops p)))"
proof -
  let ?all = "map to_line (f_ops p)"
  let ?render = "render_lines (f_profile p) (f_seed p) (f_run_id p) (f_escaping p)"
  obtain target ls n where run: "f_ops p \<noteq> []" "shows_it (file_text p (f_ops p)) = Some target"
      "ls = fst (coarse (\<lambda>n ls. shows_it (?render ls) = Some target) 1 2 ?all)"
      "out = ?render (fst (fine (\<lambda>n ls. shows_it (?render ls) = Some target) n 0 ls))"
      "n = snd (coarse (\<lambda>n ls. shows_it (?render ls) = Some target) 1 2 ?all)"
    by (rule minimize_result [OF assms(1,2)])
  let ?repro = "\<lambda>ls. shows_it (?render ls) = Some target"
  let ?out = "fst (fine (\<lambda>_. ?repro) n 0 ls)"
  have lines: "?render (map to_line xs) = file_text p xs" for xs by (simp add: file_text_def render_lines_ops)
  have mono: "?repro ys" if sub: "subseq xs ys" "subseq ys ?all" and some: "xs \<noteq> []" "?repro xs" for xs ys
  proof -
    obtain ys' where ys: "subseq ys' (f_ops p)" "ys = map to_line ys'" using sub(2) by (auto simp: subseq_map_conv)
    obtain xs' where "subseq xs' ys'" "xs = map to_line xs'" using sub(1) ys(2) by (auto simp: subseq_map_conv)
    then show ?thesis using assms(3) ys some run(2) by (simp add: lines)
  qed
  have c: "subseq ls ?all"
    using coarse_accepted [of "\<lambda>_. ?repro" 1 ?all 2] run(3) by (auto simp: accepted_from_def split: prod.splits)
  have "subseq ?out ls"
    using fine_accepted [of "\<lambda>_. ?repro" n ls 0] by (auto simp: accepted_from_def split: prod.splits)
  then obtain ops where ops: "?out = map to_line ops"
    using subseq_order.order_trans [OF _ c] by (auto simp: subseq_map_conv)
  have first: "one_minimal ?repro 0 ls" by (simp add: one_minimal_def)
  have "\<exists>i. length ?out \<le> i \<and> one_minimal ?repro i ?out"
    by (rule fine_minimal [where whole = ?all, OF _ c first]) (rule mono)
  then obtain i where "length ?out \<le> i" "one_minimal ?repro i ?out" by blast
  then have "let rest = take j ops @ drop (Suc j) ops
      in rest = [] \<or> shows_it (file_text p rest) \<noteq> shows_it (file_text p (f_ops p))" if "j < length ops" for j
    using that run(2) unfolding ops one_minimal_def Let_def
    by (auto simp: take_map drop_map lines simp flip: map_append)
  moreover have "out = file_text p ops" using run(4) ops by (simp add: lines)
  ultimately show ?thesis by blast
qed

section \<open>An example\<close>

definition some_ops :: "op list" where
  "some_ops = [Getcwd, Rmdir ''x'', CloseFd 3, Getcwd]"

definition some_file :: ops_file where
  "some_file = \<lparr>f_profile = ''mac'', f_seed = 0, f_run_id = ''fz-00000000'', f_escaping = False, f_ops = some_ops\<rparr>"

definition shows_rmdir :: "bytes \<Rightarrow> bytes option" where
  "shows_rmdir text = (if ''rmdir x'' \<in> set (text_lines text) then Some ''rmdir'' else None)"

lemma some_headers: "header_text ''mac''" "header_text ''fz-00000000''"
  by (auto intro!: header_text_plain simp: is_plain_def is_ascii_alphanumeric_def between_def)

lemma some_parsed: "parse_ops_file (file_text some_file some_ops) = Inr some_file"
  using ops_file_read_back [OF some_headers, of 0 some_ops False]
  by (simp add: file_text_def some_file_def some_ops_def line_safe_def)

lemma some_minimized: "minimize_ops (\<lambda>_. shows_rmdir) some_file = Minimized (file_text some_file [Rmdir ''x''])"
  by code_simp

lemma some_run: "minimize (\<lambda>_. shows_rmdir) (file_text some_file some_ops) = Minimized (file_text some_file [Rmdir ''x''])"
  by (simp add: minimize_def some_parsed some_minimized)

lemma some_shows: "shows_rmdir (file_text some_file ops) = (if ''rmdir x'' \<in> to_line ` set ops then Some ''rmdir'' else None)"
proof -
  have "list_all line_ok (header_lines ''mac'' 0 ''fz-00000000'' False @ map to_line ops)"
    using header_lines_ok [OF some_headers] to_line_ok(1) by (auto simp: list_all_iff)
  moreover have "file_text some_file ops = push_lines (header_lines ''mac'' 0 ''fz-00000000'' False @ map to_line ops)"
    by (simp add: file_text_def render_ops_file_def some_file_def push_lines_def)
  ultimately have "text_lines (file_text some_file ops) = header_lines ''mac'' 0 ''fz-00000000'' False @ map to_line ops"
    by (simp only: text_lines_push)
  then show ?thesis by (simp add: shows_rmdir_def header_lines_def)
qed

theorem minimize_sound_witness:
  "\<exists>ops target n. subseq ops some_ops \<and> ops \<noteq> [] \<and>
    parse_ops_file (file_text some_file [Rmdir ''x'']) = Inr (some_file\<lparr>f_ops := ops\<rparr>) \<and>
    shows_rmdir (file_text some_file [Rmdir ''x'']) = Some target"
  using minimize_sound [OF some_run some_parsed] some_headers by (auto simp: some_file_def)

theorem minimize_one_minimal_witness:
  "\<exists>ops. file_text some_file [Rmdir ''x''] = file_text some_file ops \<and>
    (\<forall>j < length ops. let rest = take j ops @ drop (Suc j) ops
      in rest = [] \<or> shows_rmdir (file_text some_file rest) \<noteq> shows_rmdir (file_text some_file some_ops))"
proof -
  have "f_ops some_file = some_ops" by (simp add: some_file_def)
  moreover have "\<forall>xs ys. subseq xs ys \<longrightarrow> subseq ys some_ops \<longrightarrow> xs \<noteq> [] \<longrightarrow>
      shows_rmdir (file_text some_file xs) = shows_rmdir (file_text some_file some_ops) \<longrightarrow>
      shows_rmdir (file_text some_file ys) = shows_rmdir (file_text some_file some_ops)"
  proof (intro allI impI)
    fix xs ys assume sub: "subseq xs ys"
      and xs: "shows_rmdir (file_text some_file xs) = shows_rmdir (file_text some_file some_ops)"
    have "to_line (Rmdir ''x'') = ''rmdir x''" by code_simp
    then have all: "''rmdir x'' \<in> to_line ` set some_ops" by (force simp: some_ops_def)
    then have "''rmdir x'' \<in> to_line ` set xs" using xs by (simp add: some_shows split: if_splits)
    moreover have "set xs \<subseteq> set ys" using sub by (auto simp: subseq_conv_nths dest: in_set_nthsD)
    ultimately show "shows_rmdir (file_text some_file ys) = shows_rmdir (file_text some_file some_ops)"
      using all by (auto simp: some_shows)
  qed
  ultimately show ?thesis using minimize_one_minimal [OF some_run some_parsed] by simp
qed

end
