(* ===== verification/Syscalls.thy ===== *)
theory Syscalls
  imports Runs Seccomp
begin

text \<open>
  System calls of the Linux backend. A function of \<^verbatim>\<open>crates/world-runtime/src/linux.rs\<close> that makes
  raw system calls is a run whose state is the log of the calls made and of their results. The
  kernel is a parameter, any function of the log and the call, so a lemma about such a run holds
  whatever the kernel answers: a call may fail at any point, a fork may return in either process.

  \<open>k_answer\<close> is what a call returns (an errno for a negative result), \<open>k_bytes\<close> what it writes to the
  buffer of its caller, \<open>k_number\<close> a number it fills in (a wait status, the second descriptor of a
  pair) and \<open>k_meta\<close> a \<^verbatim>\<open>stat\<close>. A loop that runs until the kernel answers otherwise is cut off after
  \<open>k_patience\<close> rounds and ends in \<open>Stuck\<close>.
\<close>

named_theorems stage_rules \<open>syntax-directed rules for stage\<close>
named_theorems guard_rules \<open>syntax-directed rules for guarded\<close>

type_synonym fd = int
type_synonym pid = int

text \<open>Flags, combined with \<^verbatim>\<open>|\<close> in the code, are lists of their names.\<close>

datatype (plugins only: code) flag =
    CLONE_NEWUSER | CLONE_NEWNET | CLONE_NEWNS | CLONE_NEWIPC | CLONE_NEWPID
  | O_RDONLY | O_WRONLY | O_RDWR | O_CLOEXEC | O_CREAT | O_PATH | O_DIRECTORY | O_NOFOLLOW
  | AF_INET | AF_INET6 | AF_UNIX | SOCK_STREAM | SOCK_DGRAM | SOCK_SEQPACKET | SOCK_CLOEXEC
  | SIOCGIFFLAGS | SIOCSIFFLAGS | IPV6_V6ONLY | MSG_NOSIGNAL
  | MS_REC | MS_PRIVATE | MS_SLAVE | MS_BIND | MS_NOSUID | MS_NOEXEC | MS_NODEV | MS_REMOUNT | MS_RDONLY
  | AT_RECURSIVE | AT_EMPTY_PATH | OPEN_TREE_CLONE | MOVE_MOUNT_F_EMPTY_PATH
  | MOUNT_ATTR_RDONLY | MOUNT_ATTR_NODEV
  | PR_SET_SECUREBITS | PR_CAP_AMBIENT | PR_CAPBSET_READ | PR_CAPBSET_DROP | PR_SET_NO_NEW_PRIVS
  | PR_SET_NAME
  | F_DUPFD | F_DUPFD_CLOEXEC | F_SETFD | FD_CLOEXEC
  | SIG_DFL | SIG_IGN | WEXITED | WNOHANG | WNOWAIT | CLOSE_RANGE_CLOEXEC

text \<open>One constructor for each call the code makes.\<close>

datatype (plugins only: code) scall =
    Sys_unshare "flag list" | Sys_setns fd flag
  | Sys_open bytes "flag list" | Sys_openat fd bytes "flag list" | Sys_close fd
  | Sys_read fd nat | Sys_write fd bytes | Sys_dup2 fd fd | Sys_fcntl fd flag int
  | Sys_stat bytes | Sys_fstat fd | Sys_readfile bytes
  | Sys_mkdirat fd bytes | Sys_symlinkat bytes fd bytes | Sys_chdir bytes | Sys_getdents fd | Sys_close_range int "flag list"
  | Sys_socket flag "flag list" | Sys_ioctl fd flag "int option" | Sys_setsockopt fd flag int
  | Sys_bind_loopback fd u16 | Sys_listen fd nat | Sys_sendmsg fd "fd list" | Sys_send fd byte "flag list"
  | Sys_lseek fd int | Sys_ftruncate fd int | Sys_tell fd "errno + int" | Sys_read_value fd
  | Sys_lock bytes | Sys_rename bytes | Sys_fsync bytes | Sys_pipe2 "flag list" | Sys_socketpair flag "flag list"
  | Sys_mount "bytes option" bytes "bytes option" "flag list" "bytes option"
  | Sys_mount_setattr fd bytes "flag list" "flag list" "flag list"
  | Sys_open_tree fd bytes "flag list" | Sys_move_mount fd bytes fd bytes "flag list"
  | Sys_prctl flag "int list" | Sys_set_seccomp "sock_filter list" | Sys_set_name bytes
  | Sys_landlock_version | Sys_landlock_create u64 u64 | Sys_landlock_add fd u64 fd | Sys_landlock_restrict fd
  | Sys_sigaction int | Sys_signal int flag | Sys_unblock_signals | Sys_block_signals | Sys_restore_signals
  | Sys_fork | Sys_setsid | Sys_setpgid | Sys_getpid | Sys_waitpid pid "flag list" | Sys_kill pid int | Sys_nanosleep int | Sys_poll fd
  | Sys_pidfd_open pid | Sys_pidfd_send_signal fd int | Sys_waitid_pidfd fd "flag list"
  | Sys_report fd errno | Sys_execve bytes "bytes list" "bytes list"

abbreviation AT_FDCWD :: fd where
  "AT_FDCWD \<equiv> -100"

abbreviation SIGKILL :: int where
  "SIGKILL \<equiv> 9"

abbreviation SIGPIPE :: int where
  "SIGPIPE \<equiv> 13"

abbreviation SIGCHLD :: int where
  "SIGCHLD \<equiv> 17"

text \<open>Errnos that only this part names, by their Linux numbers.\<close>

abbreviation EINTR :: errno where "EINTR \<equiv> ERaw 4"
abbreviation ESRCH :: errno where "ESRCH \<equiv> ERaw 3"
abbreviation ENOEXEC :: errno where "ENOEXEC \<equiv> ERaw 8"
abbreviation ENODEV :: errno where "ENODEV \<equiv> ERaw 19"
abbreviation ENETDOWN :: errno where "ENETDOWN \<equiv> ERaw 100"
abbreviation ETIMEDOUT :: errno where "ETIMEDOUT \<equiv> ERaw 110"
abbreviation ESTALE :: errno where "ESTALE \<equiv> ERaw 116"

type_synonym syslog = "(scall \<times> (errno + int)) list"

text \<open>The fields of a \<^verbatim>\<open>stat\<close> that the code reads; a device is its major and minor number.\<close>

record meta =
  m_dev :: int
  m_ino :: int
  m_mode :: int
  m_rdev :: "int \<times> int"

record kern =
  k_answer :: "syslog \<Rightarrow> scall \<Rightarrow> errno + int"
  k_bytes :: "syslog \<Rightarrow> scall \<Rightarrow> bytes"
  k_number :: "syslog \<Rightarrow> scall \<Rightarrow> int"
  k_meta :: "syslog \<Rightarrow> scall \<Rightarrow> meta"
  k_patience :: nat

text \<open>
  How a run ends early: with the errno of a call, by \<^verbatim>\<open>_exit\<close>, by becoming another program, by
  refusing with a message (\<^verbatim>\<open>bail!\<close>), or not at all.
\<close>

datatype halt = Os errno | Exited int | Became bytes "bytes list" "bytes list" | Refused bytes | Stuck

type_synonym 'a sysrun = "(syslog, halt, 'a) run"

section \<open>Calls\<close>

definition sys :: "kern \<Rightarrow> scall \<Rightarrow> (errno + int) sysrun" where
  "sys k c = (\<lambda>log. let r = k_answer k log c in (log @ [(c, r)], Inr r))"

text \<open>A call that also fills a buffer, a number or a \<^verbatim>\<open>stat\<close>.\<close>

definition sys_bytes :: "kern \<Rightarrow> scall \<Rightarrow> ((errno + int) \<times> bytes) sysrun" where
  "sys_bytes k c = (\<lambda>log. let r = k_answer k log c in (log @ [(c, r)], Inr (r, k_bytes k log c)))"

definition sys_number :: "kern \<Rightarrow> scall \<Rightarrow> ((errno + int) \<times> int) sysrun" where
  "sys_number k c = (\<lambda>log. let r = k_answer k log c in (log @ [(c, r)], Inr (r, k_number k log c)))"

definition sys_meta :: "kern \<Rightarrow> scall \<Rightarrow> ((errno + int) \<times> meta) sysrun" where
  "sys_meta k c = (\<lambda>log. let r = k_answer k log c in (log @ [(c, r)], Inr (r, k_meta k log c)))"

text \<open>A result that is passed on, and \<^verbatim>\<open>check(..)?\<close>.\<close>

definition ok_or :: "errno + 'a \<Rightarrow> ('a) sysrun" where
  "ok_or r = (case r of Inl e \<Rightarrow> stop (Os e) | Inr v \<Rightarrow> done_with v)"

definition check :: "kern \<Rightarrow> scall \<Rightarrow> (int) sysrun" where
  "check k c = bind_run (sys k c) ok_or"

text \<open>A call whose result is not looked at.\<close>

definition quietly :: "kern \<Rightarrow> scall \<Rightarrow> (unit) sysrun" where
  "quietly k c = bind_run (sys k c) (\<lambda>_. done_with ())"

text \<open>\<^verbatim>\<open>errno\<close>: that of the last call that failed.\<close>

definition last_errno :: "syslog \<Rightarrow> errno" where
  "last_errno log =
     (case [e. (_, Inl e) \<leftarrow> rev log] of [] \<Rightarrow> E_OK | e # _ \<Rightarrow> e)"

text \<open>\<^verbatim>\<open>and_then\<close> on the result of a run, and a run whose error is a value.\<close>

definition attempted :: "('a) sysrun \<Rightarrow> (errno + 'a) sysrun" where
  "attempted r =
     (\<lambda>log. case r log of
        (log', Inr a) \<Rightarrow> (log', Inr (Inr a))
      | (log', Inl (Os e)) \<Rightarrow> (log', Inr (Inl e))
      | (log', Inl h) \<Rightarrow> (log', Inl h))"

text \<open>A call repeated while a signal interrupts it.\<close>

fun retry_from :: "nat \<Rightarrow> kern \<Rightarrow> scall \<Rightarrow> (errno + int) sysrun" where
  "retry_from 0 k c = stop Stuck"
| "retry_from (Suc n) k c =
     bind_run (sys k c) (\<lambda>r. if r = Inl EINTR then retry_from n k c else done_with r)"

definition retry :: "kern \<Rightarrow> scall \<Rightarrow> (errno + int) sysrun" where
  "retry k c = retry_from (k_patience k) k c"

section \<open>Logic\<close>

text \<open>The calls of a log that succeeded, in order.\<close>

definition succeeded :: "syslog \<Rightarrow> scall list" where
  "succeeded log = [c. (c, Inr _) \<leftarrow> log]"

text \<open>Calls as the predicates describe them are in a list, in this order.\<close>

fun in_order :: "('a \<Rightarrow> bool) list \<Rightarrow> 'a list \<Rightarrow> bool" where
  "in_order [] cs = True"
| "in_order (p # ps) [] = False"
| "in_order (p # ps) (c # cs) = (if p c then in_order ps cs else in_order (p # ps) cs)"

text \<open>
  \<open>stage G ps r\<close>: the run only adds to the log, every call it makes is in \<open>G\<close>, and if it returns
  then calls as \<open>ps\<close> describes them succeeded in it, in this order.
\<close>

definition stage ::
  "(scall \<Rightarrow> bool) \<Rightarrow> (scall \<Rightarrow> bool) list \<Rightarrow> ('a) sysrun \<Rightarrow> bool" where
  "stage G ps r \<longleftrightarrow>
     (\<forall>log. \<exists>ext. fst (r log) = log @ ext \<and> (\<forall>c \<in> fst ` set ext. G c) \<and>
        ((\<exists>a. snd (r log) = Inr a) \<longrightarrow> in_order ps (succeeded ext)))"

text \<open>\<open>calls_ok J\<close>: every call of the log satisfies \<open>J\<close> of the log up to it.\<close>

definition calls_ok :: "(syslog \<Rightarrow> scall \<Rightarrow> bool) \<Rightarrow> syslog \<Rightarrow> bool" where
  "calls_ok J log \<longleftrightarrow> (\<forall>pre c r post. log = pre @ (c, r) # post \<longrightarrow> J pre c)"

lemma succeeded_simps [simp]:
  "succeeded [] = []"
  "succeeded ((c, r) # log) = (case r of Inl _ \<Rightarrow> [] | Inr _ \<Rightarrow> [c]) @ succeeded log"
  "succeeded (log @ log') = succeeded log @ succeeded log'"
  by (simp_all add: succeeded_def split: sum.splits)

lemma calls_ok_Nil [simp]: "calls_ok J []"
  by (simp add: calls_ok_def)

lemma calls_ok_snoc [simp]: "calls_ok J (log @ [(c, r)]) \<longleftrightarrow> calls_ok J log \<and> J log c"
proof
  assume *: "calls_ok J (log @ [(c, r)])"
  have "calls_ok J log" unfolding calls_ok_def
  proof (intro allI impI)
    fix pre c' r' post assume "log = pre @ (c', r') # post"
    then have "log @ [(c, r)] = pre @ (c', r') # (post @ [(c, r)])" by simp
    with * show "J pre c'" unfolding calls_ok_def by blast
  qed
  moreover have "J log c" using * by (simp add: calls_ok_def)
  ultimately show "calls_ok J log \<and> J log c" by simp
next
  assume *: "calls_ok J log \<and> J log c"
  show "calls_ok J (log @ [(c, r)])" unfolding calls_ok_def
  proof (intro allI impI)
    fix pre c' r' post assume eq: "log @ [(c, r)] = pre @ (c', r') # post"
    show "J pre c'"
    proof (cases post rule: rev_cases)
      case Nil
      with eq * show ?thesis by simp
    next
      case (snoc post' x)
      with eq have "log = pre @ (c', r') # post'" by simp
      with * show ?thesis unfolding calls_ok_def by blast
    qed
  qed
qed

lemma in_order_tl: "in_order (p # ps) cs \<Longrightarrow> in_order ps cs"
proof (induction cs arbitrary: p ps)
  case (Cons c cs)
  then have "in_order ps cs" by (auto split: if_splits)
  then show ?case using Cons.IH by (cases ps) auto
qed simp

lemma in_order_Cons: "in_order ps cs \<Longrightarrow> in_order ps (c # cs)"
  by (cases ps) (auto dest: in_order_tl)

lemma in_order_later: "in_order ps cs \<Longrightarrow> in_order ps (us @ cs)"
  by (induction us) (auto intro: in_order_Cons)

lemma in_order_append: "in_order ps cs \<Longrightarrow> in_order qs ds \<Longrightarrow> in_order (ps @ qs) (cs @ ds)"
proof (induction ps cs rule: in_order.induct)
  case (1 cs)
  then show ?case by (simp add: in_order_later)
qed (auto split: if_splits)

lemma in_order_prefix: "in_order ps cs \<Longrightarrow> in_order ps (cs @ ds)"
  using in_order_append [of ps cs "[]" ds] by simp

subsection \<open>Rules for stage\<close>

lemma stageI:
  assumes "\<And>log. \<exists>ext. fst (r log) = log @ ext \<and> (\<forall>c \<in> fst ` set ext. G c) \<and>
    ((\<exists>a. snd (r log) = Inr a) \<longrightarrow> in_order ps (succeeded ext))"
  shows "stage G ps r"
  using assms by (simp add: stage_def)

lemma stage_bind [stage_rules]:
  assumes "stage G ps r" and "\<And>a. stage G qs (f a)"
  shows "stage G (ps @ qs) (bind_run r f)"
proof (rule stageI)
  fix log
  obtain e1 where e1: "fst (r log) = log @ e1" "\<forall>c \<in> fst ` set e1. G c"
      "(\<exists>a. snd (r log) = Inr a) \<longrightarrow> in_order ps (succeeded e1)"
    using assms(1) unfolding stage_def by blast
  show "\<exists>ext. fst (bind_run r f log) = log @ ext \<and> (\<forall>c \<in> fst ` set ext. G c) \<and>
      ((\<exists>a. snd (bind_run r f log) = Inr a) \<longrightarrow> in_order (ps @ qs) (succeeded ext))"
  proof (cases "r log")
    case (Pair log1 x)
    show ?thesis
    proof (cases x)
      case (Inl h)
      then show ?thesis using e1 Pair by (intro exI [of _ e1]) (simp add: bind_run_def)
    next
      case (Inr a)
      obtain e2 where e2: "fst (f a log1) = log1 @ e2" "\<forall>c \<in> fst ` set e2. G c"
          "(\<exists>b. snd (f a log1) = Inr b) \<longrightarrow> in_order qs (succeeded e2)"
        using assms(2) [of a] unfolding stage_def by blast
      have "bind_run r f log = f a log1" using Inr Pair by (simp add: bind_run_def)
      then show ?thesis using e1 e2 Inr Pair
        by (intro exI [of _ "e1 @ e2"]) (auto intro: in_order_append)
    qed
  qed
qed

lemma stage_mono:
  assumes "stage G ps r" and "\<And>c. G c \<Longrightarrow> H c"
  shows "stage H ps r"
proof (rule stageI)
  fix log
  obtain e where "fst (r log) = log @ e" "\<forall>c \<in> fst ` set e. G c"
      "(\<exists>a. snd (r log) = Inr a) \<longrightarrow> in_order ps (succeeded e)"
    using assms(1) unfolding stage_def by blast
  then show "\<exists>ext. fst (r log) = log @ ext \<and> (\<forall>c \<in> fst ` set ext. H c) \<and>
      ((\<exists>a. snd (r log) = Inr a) \<longrightarrow> in_order ps (succeeded ext))"
    using assms(2) by (intro exI [of _ e]) simp
qed

lemma stage_less: "stage G ps r \<Longrightarrow> stage G [] r"
  unfolding stage_def by fastforce

lemma stage_done [stage_rules]: "stage G [] (done_with a)"
  by (rule stageI) (simp add: done_with_def)

lemma stage_stop [stage_rules]: "stage G ps (stop h)"
  by (rule stageI) (simp add: stop_def)

lemma stage_look [stage_rules]: "stage G [] (look f)"
  by (rule stageI) (simp add: look_def)

lemma stage_require [stage_rules]: "stage G [] (require e b)"
  by (simp add: require_def stage_stop stage_done)

lemma stage_if [stage_rules]:
  "(b \<Longrightarrow> stage G ps r) \<Longrightarrow> (\<not> b \<Longrightarrow> stage G ps r') \<Longrightarrow> stage G ps (if b then r else r')"
  by simp

lemma stage_option [stage_rules]:
  "stage G ps r \<Longrightarrow> (\<And>a. stage G ps (f a)) \<Longrightarrow> stage G ps (case x of None \<Rightarrow> r | Some a \<Rightarrow> f a)"
  by (cases x) simp_all

lemma stage_prod [stage_rules]:
  "(\<And>a b. stage G ps (f a b)) \<Longrightarrow> stage G ps (case x of (a, b) \<Rightarrow> f a b)"
  by (cases x) simp

lemma stage_let [stage_rules]: "stage G ps (f a) \<Longrightarrow> stage G ps (let x = a in f x)"
  by simp

lemma stage_sum [stage_rules]:
  "(\<And>e. stage G ps (f e)) \<Longrightarrow> (\<And>a. stage G ps (g a)) \<Longrightarrow>
     stage G ps (case x of Inl e \<Rightarrow> f e | Inr a \<Rightarrow> g a)"
  by (cases x) simp_all

lemma stage_sys [stage_rules]: "G c \<Longrightarrow> stage G [] (sys k c)"
  by (rule stageI) (auto simp: sys_def Let_def)

lemma stage_sys_bytes [stage_rules]: "G c \<Longrightarrow> stage G [] (sys_bytes k c)"
  by (rule stageI) (auto simp: sys_bytes_def Let_def)

lemma stage_sys_number [stage_rules]: "G c \<Longrightarrow> stage G [] (sys_number k c)"
  by (rule stageI) (auto simp: sys_number_def Let_def)

lemma stage_sys_meta [stage_rules]: "G c \<Longrightarrow> stage G [] (sys_meta k c)"
  by (rule stageI) (auto simp: sys_meta_def Let_def)

lemma stage_ok_or [stage_rules]: "stage G [] (ok_or r)"
  unfolding ok_or_def by (intro stage_rules)

lemma stage_check [stage_rules]: "G c \<Longrightarrow> p c \<Longrightarrow> stage G [p] (check k c)"
  by (rule stageI)
    (auto simp: check_def sys_def ok_or_def bind_run_def stop_def done_with_def Let_def split: sum.splits)

lemma stage_quietly [stage_rules]: "G c \<Longrightarrow> stage G [] (quietly k c)"
  unfolding quietly_def using stage_bind [OF stage_sys stage_done] by fastforce

lemma stage_catch [stage_rules]:
  assumes "stage G [] r"
  shows "stage G [] (attempted r)"
proof (rule stageI)
  fix log
  obtain e where "fst (r log) = log @ e" "\<forall>c \<in> fst ` set e. G c"
    using assms unfolding stage_def by blast
  then show "\<exists>ext. fst (attempted r log) = log @ ext \<and> (\<forall>c \<in> fst ` set ext. G c) \<and>
      ((\<exists>a. snd (attempted r log) = Inr a) \<longrightarrow> in_order [] (succeeded ext))"
    by (intro exI [of _ e]) (auto simp: attempted_def split: prod.splits sum.splits halt.splits)
qed

lemma stage_for_each [stage_rules]:
  "(\<And>x. x \<in> set xs \<Longrightarrow> stage G [] (f x)) \<Longrightarrow> stage G [] (for_each f xs)"
proof (induction xs)
  case Nil
  then show ?case by (simp add: stage_done)
next
  case (Cons x xs)
  then show ?case using stage_bind [of G "[]" "f x" "[]" "\<lambda>_. for_each f xs"] by simp
qed

lemma stage_retry [stage_rules]: "G c \<Longrightarrow> stage G [] (retry k c)"
proof -
  assume "G c"
  then have "stage G [] (retry_from n k c)" for n
  proof (induction n)
    case 0
    then show ?case by (simp add: stage_stop)
  next
    case (Suc n)
    then have "stage G ([] @ []) (retry_from (Suc n) k c)"
      unfolding retry_from.simps by (intro stage_rules)
    then show ?case by simp
  qed
  then show ?thesis by (simp add: retry_def)
qed

text \<open>A run that makes no call outside \<open>G\<close> before a call that is.\<close>

lemma stage_calls:
  "stage G ps r \<Longrightarrow> r log = (log', x) \<Longrightarrow> \<exists>ext. log' = log @ ext \<and> (\<forall>c \<in> fst ` set ext. G c)"
  unfolding stage_def by (metis fst_conv)

lemma stage_reached:
  "stage G ps r \<Longrightarrow> r log = (log', Inr a) \<Longrightarrow>
     \<exists>ext. log' = log @ ext \<and> (\<forall>c \<in> fst ` set ext. G c) \<and> in_order ps (succeeded ext)"
  unfolding stage_def by (metis fst_conv snd_conv)

subsection \<open>Rules for sequences\<close>

lemma stage_hit:
  "G c \<Longrightarrow> p c \<Longrightarrow> (\<And>a. stage G ps (f a)) \<Longrightarrow> stage G (p # ps) (bind_run (check k c) f)"
  using stage_bind [OF stage_check, of G c p ps f k] by simp

lemma stage_skip: "stage G [] r \<Longrightarrow> (\<And>a. stage G ps (f a)) \<Longrightarrow> stage G ps (bind_run r f)"
  using stage_bind [of G "[]" r ps f] by simp

lemma stage_last: "stage G ps r \<Longrightarrow> (\<And>a. stage G [] (f a)) \<Longrightarrow> stage G ps (bind_run r f)"
  using stage_bind [of G ps r "[]" f] by simp

lemma stage_skip_check: "G c \<Longrightarrow> (\<And>a. stage G ps (f a)) \<Longrightarrow> stage G ps (bind_run (check k c) f)"
  by (rule stage_skip) (auto intro: stage_less [where ps = "[\<lambda>_. True]"] stage_check)

lemma stage_check_plain: "G c \<Longrightarrow> stage G [] (check k c)"
  by (rule stage_less [OF stage_check [where p = "\<lambda>_. True"]]) simp_all

lemmas stage_plain = stage_skip_check stage_skip stage_done stage_stop stage_look stage_require
  stage_if stage_option stage_sum stage_prod stage_let stage_sys stage_sys_bytes stage_sys_number
  stage_sys_meta stage_ok_or stage_quietly stage_catch stage_for_each stage_retry stage_check_plain

lemma stage_write:
  assumes "G (Sys_write fd s)" "p (Sys_write fd s)" "G (Sys_close fd)"
  shows "stage G [p] (bind_run (sys k (Sys_write fd s)) (\<lambda>written.
     bind_run (look last_errno) (\<lambda>error.
     bind_run (quietly k (Sys_close fd)) (\<lambda>_.
     if written \<noteq> Inr (int (length s)) then stop (Os error) else done_with ()))))"
  using assms
  by (intro stageI)
    (auto simp: sys_def bind_run_def look_def quietly_def stop_def done_with_def Let_def split: sum.splits)

text \<open>A call whose two results lead to different continuations.\<close>

lemma stage_case:
  assumes "G c" "p c" "\<And>e. stage G (p # ps) (f (Inl e))" "\<And>v. stage G ps (f (Inr v))"
  shows "stage G (p # ps) (bind_run (sys k c) f)"
proof (rule stageI)
  fix log
  let ?r = "k_answer k log c" let ?log = "log @ [(c, ?r)]"
  have run: "bind_run (sys k c) f log = f ?r ?log" by (simp add: sys_def bind_run_def Let_def)
  have "stage G (case ?r of Inl _ \<Rightarrow> p # ps | Inr _ \<Rightarrow> ps) (f ?r)"
    using assms(3,4) by (cases ?r) simp_all
  then obtain e where "fst (f ?r ?log) = ?log @ e" "\<forall>c \<in> fst ` set e. G c"
      "(\<exists>a. snd (f ?r ?log) = Inr a) \<longrightarrow> in_order (case ?r of Inl _ \<Rightarrow> p # ps | Inr _ \<Rightarrow> ps) (succeeded e)"
    unfolding stage_def by blast
  then show "\<exists>ext. fst (bind_run (sys k c) f log) = log @ ext \<and> (\<forall>c \<in> fst ` set ext. G c) \<and>
      ((\<exists>a. snd (bind_run (sys k c) f log) = Inr a) \<longrightarrow> in_order (p # ps) (succeeded ext))"
    unfolding run using assms(1,2) by (intro exI [of _ "(c, ?r) # e"]) (auto split: sum.splits)
qed

text \<open>What the continuation achieves may depend on what was returned.\<close>

lemma stage_bind_cases:
  assumes "\<And>log. \<exists>ext. fst (r log) = log @ ext \<and> (\<forall>c \<in> fst ` set ext. G c) \<and>
    (\<forall>a. snd (r log) = Inr a \<longrightarrow>
       in_order ps (succeeded ext) \<and> stage G qs (f a) \<or> stage G (ps @ qs) (f a))"
  shows "stage G (ps @ qs) (bind_run r f)"
proof (rule stageI)
  fix log
  obtain e1 where e1: "fst (r log) = log @ e1" "\<forall>c \<in> fst ` set e1. G c"
      "\<forall>a. snd (r log) = Inr a \<longrightarrow>
         in_order ps (succeeded e1) \<and> stage G qs (f a) \<or> stage G (ps @ qs) (f a)"
    using assms by blast
  show "\<exists>ext. fst (bind_run r f log) = log @ ext \<and> (\<forall>c \<in> fst ` set ext. G c) \<and>
      ((\<exists>b. snd (bind_run r f log) = Inr b) \<longrightarrow> in_order (ps @ qs) (succeeded ext))"
  proof (cases "snd (r log)")
    case (Inl h)
    then have "bind_run r f log = (log @ e1, Inl h)"
      using e1 by (cases "r log") (simp add: bind_run_def)
    then show ?thesis using e1(2) by (intro exI [of _ e1]) simp
  next
    case (Inr a)
    then have run: "bind_run r f log = f a (log @ e1)"
      using e1 by (cases "r log") (simp add: bind_run_def)
    from e1(3) Inr consider "in_order ps (succeeded e1)" "stage G qs (f a)" | "stage G (ps @ qs) (f a)" by blast
    then show ?thesis
    proof cases
      case 1
      then obtain e2 where "fst (f a (log @ e1)) = (log @ e1) @ e2" "\<forall>c \<in> fst ` set e2. G c"
          "(\<exists>b. snd (f a (log @ e1)) = Inr b) \<longrightarrow> in_order qs (succeeded e2)"
        unfolding stage_def by blast
      then show ?thesis using e1(2) 1 run
        by (intro exI [of _ "e1 @ e2"]) (auto intro: in_order_append)
    next
      case 2
      then obtain e2 where "fst (f a (log @ e1)) = (log @ e1) @ e2" "\<forall>c \<in> fst ` set e2. G c"
          "(\<exists>b. snd (f a (log @ e1)) = Inr b) \<longrightarrow> in_order (ps @ qs) (succeeded e2)"
        unfolding stage_def by blast
      then show ?thesis using e1(2) run
        by (intro exI [of _ "e1 @ e2"]) (auto intro: in_order_later)
    qed
  qed
qed

lemma stage_attempted_bind:
  assumes "stage G ps r" and "\<And>e. stage G (ps @ qs) (f (Inl e))" and "\<And>a. stage G qs (f (Inr a))"
  shows "stage G (ps @ qs) (bind_run (attempted r) f)"
proof (rule stage_bind_cases)
  fix log
  obtain e where e: "fst (r log) = log @ e" "\<forall>c \<in> fst ` set e. G c"
      "(\<exists>a. snd (r log) = Inr a) \<longrightarrow> in_order ps (succeeded e)"
    using assms(1) unfolding stage_def by blast
  have "snd (attempted r log) = Inr x \<longrightarrow>
      in_order ps (succeeded e) \<and> stage G qs (f x) \<or> stage G (ps @ qs) (f x)" for x
    using e(3) assms(2,3) by (cases x) (auto simp: attempted_def split: prod.splits sum.splits halt.splits)
  moreover have "fst (attempted r log) = log @ e"
    using e(1) by (auto simp: attempted_def split: prod.splits sum.splits halt.splits)
  ultimately show "\<exists>ext. fst (attempted r log) = log @ ext \<and> (\<forall>c \<in> fst ` set ext. G c) \<and>
      (\<forall>a. snd (attempted r log) = Inr a \<longrightarrow>
         in_order ps (succeeded ext) \<and> stage G qs (f a) \<or> stage G (ps @ qs) (f a))"
    using e(2) by blast
qed

subsection \<open>What must come first\<close>

text \<open>\<open>before G ps r\<close>: before a call outside \<open>G\<close>, calls as \<open>ps\<close> describes them have succeeded in this order.\<close>

definition before :: "(scall \<Rightarrow> bool) \<Rightarrow> (scall \<Rightarrow> bool) list \<Rightarrow> 'a sysrun \<Rightarrow> bool" where
  "before G ps r \<longleftrightarrow>
     (\<forall>log. \<exists>ext. fst (r log) = log @ ext \<and>
        (\<forall>pre c res post. ext = pre @ (c, res) # post \<longrightarrow> \<not> G c \<longrightarrow> in_order ps (succeeded pre)))"

lemma before_step:
  assumes "\<And>log. \<exists>ext. fst (r log) = log @ ext \<and> (\<forall>c \<in> fst ` set ext. G c) \<and>
    (\<forall>a. snd (r log) = Inr a \<longrightarrow>
       in_order ps (succeeded ext) \<and> stage (\<lambda>_. True) [] (f a) \<or> before G ps (f a))"
  shows "before G ps (bind_run r f)"
  unfolding before_def
proof
  fix log
  obtain e1 where e1: "fst (r log) = log @ e1" "\<forall>c \<in> fst ` set e1. G c"
      "\<forall>a. snd (r log) = Inr a \<longrightarrow>
         in_order ps (succeeded e1) \<and> stage (\<lambda>_. True) [] (f a) \<or> before G ps (f a)"
    using assms by blast
  show "\<exists>ext. fst (bind_run r f log) = log @ ext \<and>
      (\<forall>pre c res post. ext = pre @ (c, res) # post \<longrightarrow> \<not> G c \<longrightarrow> in_order ps (succeeded pre))"
  proof (cases "snd (r log)")
    case (Inl h)
    then have "bind_run r f log = (log @ e1, Inl h)"
      using e1 by (cases "r log") (simp add: bind_run_def)
    then show ?thesis using e1(2) by (intro exI [of _ e1]) force
  next
    case (Inr a)
    then have run: "bind_run r f log = f a (log @ e1)"
      using e1 by (cases "r log") (simp add: bind_run_def)
    obtain e2 where e2: "fst (f a (log @ e1)) = (log @ e1) @ e2"
        "in_order ps (succeeded e1) \<or>
         (\<forall>pre c res post. e2 = pre @ (c, res) # post \<longrightarrow> \<not> G c \<longrightarrow> in_order ps (succeeded pre))"
      using e1(3) Inr unfolding before_def stage_def by metis
    show ?thesis
    proof (intro exI [of _ "e1 @ e2"] conjI allI impI)
      fix pre c res post assume eq: "e1 @ e2 = pre @ (c, res) # post" and "\<not> G c"
      with e1(2) have "(c, res) \<notin> set e1" by force
      with eq obtain pre' where pre: "pre = e1 @ pre'" "e2 = pre' @ (c, res) # post"
        by (auto simp: append_eq_append_conv2 append_eq_Cons_conv)
      with e2(2) \<open>\<not> G c\<close> show "in_order ps (succeeded pre)"
        by (auto intro: in_order_later in_order_prefix)
    qed (use run e2 in simp)
  qed
qed

lemma before_bind:
  assumes "stage G qs r" and "\<And>a. before G ps (f a)"
  shows "before G ps (bind_run r f)"
proof (rule before_step)
  fix log
  obtain e where e: "fst (r log) = log @ e" "\<forall>c \<in> fst ` set e. G c"
      "(\<exists>a. snd (r log) = Inr a) \<longrightarrow> in_order qs (succeeded e)"
    using assms(1) unfolding stage_def by blast
  then show "\<exists>ext. fst (r log) = log @ ext \<and> (\<forall>c \<in> fst ` set ext. G c) \<and>
      (\<forall>a. snd (r log) = Inr a \<longrightarrow>
         in_order ps (succeeded ext) \<and> stage (\<lambda>_. True) [] (f a) \<or> before G ps (f a))"
    using assms(2) by (intro exI [of _ e]) simp
qed

lemma before_stage:
  assumes "stage G ps r" and "\<And>a. stage (\<lambda>_. True) [] (f a)"
  shows "before G ps (bind_run r f)"
proof (rule before_step)
  fix log
  obtain e where e: "fst (r log) = log @ e" "\<forall>c \<in> fst ` set e. G c"
      "(\<exists>a. snd (r log) = Inr a) \<longrightarrow> in_order ps (succeeded e)"
    using assms(1) unfolding stage_def by blast
  then show "\<exists>ext. fst (r log) = log @ ext \<and> (\<forall>c \<in> fst ` set ext. G c) \<and>
      (\<forall>a. snd (r log) = Inr a \<longrightarrow>
         in_order ps (succeeded ext) \<and> stage (\<lambda>_. True) [] (f a) \<or> before G ps (f a))"
    using assms(2) by (intro exI [of _ e]) simp
qed

lemma before_catch:
  assumes "stage G ps r" and "\<And>e. before G ps (f (Inl e))"
    and "\<And>a. stage (\<lambda>_. True) [] (f (Inr a))"
  shows "before G ps (bind_run (attempted r) f)"
proof (rule before_step)
  fix log
  obtain e where e: "fst (r log) = log @ e" "\<forall>c \<in> fst ` set e. G c"
      "(\<exists>a. snd (r log) = Inr a) \<longrightarrow> in_order ps (succeeded e)"
    using assms(1) unfolding stage_def by blast
  have "snd (attempted r log) = Inr x \<longrightarrow>
      in_order ps (succeeded e) \<and> stage (\<lambda>_. True) [] (f x) \<or> before G ps (f x)" for x
    using e(3) assms(2,3) by (cases x) (auto simp: attempted_def split: prod.splits sum.splits halt.splits)
  moreover have "fst (attempted r log) = log @ e"
    using e(1) by (auto simp: attempted_def split: prod.splits sum.splits halt.splits)
  ultimately show "\<exists>ext. fst (attempted r log) = log @ ext \<and> (\<forall>c \<in> fst ` set ext. G c) \<and>
      (\<forall>a. snd (attempted r log) = Inr a \<longrightarrow>
         in_order ps (succeeded ext) \<and> stage (\<lambda>_. True) [] (f a) \<or> before G ps (f a))"
    using e(2) by blast
qed

lemma stage_grows: "stage G ps r \<Longrightarrow> stage (\<lambda>_. True) ps r"
  by (erule stage_mono) simp

end
