(* ===== verification/Sandbox.thy ===== *)
theory Sandbox
  imports Syscalls Registry
begin

unbundle bit_operations_syntax

text \<open>
  What a workload of \<^verbatim>\<open>world network exec\<close> goes through before it runs, in the forked child:
  \<^verbatim>\<open>crates/world-runtime/src/linux.rs\<close> from \<^verbatim>\<open>enter_new_namespaces\<close> to \<^verbatim>\<open>enter_pid_namespace\<close>, the
  \<^verbatim>\<open>landlock\<close> module, the setup closure of \<^verbatim>\<open>run\<close> and the child of \<^verbatim>\<open>spawn\<close>.
\<close>

section \<open>Namespaces\<close>

record id_maps =
  im_uid :: bytes
  im_gid :: bytes

definition id_map_line :: "nat \<Rightarrow> bytes" where
  "id_map_line n = show_radix 10 n @ '' '' @ show_radix 10 n @ '' 1'' @ [CHR 0x0A]"

definition current_maps :: "nat \<Rightarrow> nat \<Rightarrow> id_maps" where
  "current_maps uid gid = \<lparr>im_uid = id_map_line uid, im_gid = id_map_line gid\<rparr>"

definition write_file :: "kern \<Rightarrow> bytes \<Rightarrow> bytes \<Rightarrow> unit sysrun" where
  "write_file k path content =
     bind_run (check k (Sys_open path [O_WRONLY, O_CLOEXEC])) (\<lambda>fd.
     bind_run (sys k (Sys_write fd content)) (\<lambda>written.
     bind_run (look last_errno) (\<lambda>error.
     bind_run (quietly k (Sys_close fd)) (\<lambda>_.
     if written \<noteq> Inr (int (length content)) then stop (Os error) else done_with ()))))"

definition loopback_up :: "kern \<Rightarrow> unit sysrun" where
  "loopback_up k =
     bind_run (check k (Sys_socket AF_INET [SOCK_DGRAM, SOCK_CLOEXEC])) (\<lambda>fd.
     bind_run (sys_number k (Sys_ioctl fd SIOCGIFFLAGS None)) (\<lambda>(result, flags).
     bind_run (if result = Inr 0 then sys k (Sys_ioctl fd SIOCSIFFLAGS (Some (flags OR 1))) else done_with result) (\<lambda>result.
     bind_run (look last_errno) (\<lambda>error.
     bind_run (quietly k (Sys_close fd)) (\<lambda>_.
     if result \<noteq> Inr 0 then stop (Os error) else done_with ())))))"

definition enter_new_namespaces :: "kern \<Rightarrow> id_maps \<Rightarrow> unit sysrun" where
  "enter_new_namespaces k maps =
     bind_run (check k (Sys_unshare [CLONE_NEWUSER, CLONE_NEWNET])) (\<lambda>_.
     bind_run (write_file k ''/proc/self/setgroups'' ''deny'') (\<lambda>_.
     bind_run (write_file k ''/proc/self/uid_map'' (im_uid maps)) (\<lambda>_.
     bind_run (write_file k ''/proc/self/gid_map'' (im_gid maps)) (\<lambda>_.
     bind_run (write_file k ''/proc/sys/net/ipv4/ip_unprivileged_port_start'' ''0'') (\<lambda>_.
     loopback_up k)))))"

section \<open>The read-only view\<close>

record writable_view =
  v_paths :: "bytes list"
  v_workdir :: bytes

definition has_nul :: "bytes \<Rightarrow> bool" where
  "has_nul s = list_ex (\<lambda>b. b = nul) s"

definition new_view :: "bytes \<Rightarrow> bytes list \<Rightarrow> writable_view sysrun" where
  "new_view workdir others =
     (if list_ex has_nul (workdir # others) then stop (Refused ''path contains NUL'')
      else done_with \<lparr>v_paths = workdir # others, v_workdir = workdir\<rparr>)"

definition is_null_device :: "int \<times> int \<Rightarrow> bool" where
  "is_null_device rdev = (fst rdev = 1 \<and> snd rdev = 3)"

primrec collect :: "('a \<Rightarrow> 'b sysrun) \<Rightarrow> 'a list \<Rightarrow> 'b list sysrun" where
  "collect f [] = done_with []"
| "collect f (x # xs) = bind_run (f x) (\<lambda>y. bind_run (collect f xs) (\<lambda>ys. done_with (y # ys)))"

definition dev_nodes :: "(bytes \<times> bytes) list" where
  "dev_nodes =
     [(''/dev/null'', ''null''), (''/dev/zero'', ''zero''), (''/dev/full'', ''full''),
      (''/dev/random'', ''random''), (''/dev/urandom'', ''urandom'')]"

definition bind_node :: "kern \<Rightarrow> fd \<Rightarrow> fd \<times> bytes \<Rightarrow> unit sysrun" where
  "bind_node k dev = (\<lambda>(tree, name).
     bind_run (check k (Sys_mount_setattr tree '''' [AT_EMPTY_PATH] [] [MOUNT_ATTR_NODEV])) (\<lambda>_.
     bind_run (check k (Sys_openat dev name [O_CREAT, O_WRONLY, O_CLOEXEC])) (\<lambda>fd.
     bind_run (quietly k (Sys_close fd)) (\<lambda>_.
     bind_run (check k (Sys_move_mount tree '''' dev name [MOVE_MOUNT_F_EMPTY_PATH])) (\<lambda>_.
     quietly k (Sys_close tree))))))"

definition dev_links :: "(bytes \<times> bytes) list" where
  "dev_links =
     [(''/proc/self/fd'', ''fd''), (''/proc/self/fd/0'', ''stdin''), (''/proc/self/fd/1'', ''stdout''),
      (''/proc/self/fd/2'', ''stderr'')]"

definition private_dev :: "kern \<Rightarrow> unit sysrun" where
  "private_dev k =
     bind_run (collect (\<lambda>(host, _). check k (Sys_open_tree AT_FDCWD host [OPEN_TREE_CLONE, O_CLOEXEC])) dev_nodes) (\<lambda>trees.
     bind_run (check k (Sys_mount (Some ''tmpfs'') ''/dev'' (Some ''tmpfs'') [MS_NOSUID, MS_NOEXEC] (Some ''mode=0755,size=64k''))) (\<lambda>_.
     bind_run (check k (Sys_open ''/dev'' [O_PATH, O_DIRECTORY, O_CLOEXEC])) (\<lambda>dev.
     bind_run (for_each (bind_node k dev) (zip trees (map snd dev_nodes))) (\<lambda>_.
     bind_run (for_each (\<lambda>(target, name). bind_run (check k (Sys_symlinkat target dev name)) (\<lambda>_. done_with ())) dev_links) (\<lambda>_.
     bind_run (check k (Sys_mkdirat dev ''shm'')) (\<lambda>_.
     bind_run (quietly k (Sys_close dev)) (\<lambda>_.
     bind_run (check k (Sys_mount (Some ''tmpfs'') ''/dev/shm'' (Some ''tmpfs'') [MS_NOSUID, MS_NODEV] (Some ''mode=1777,size=64m''))) (\<lambda>_.
     bind_run (check k (Sys_mount None ''/dev'' None [MS_REMOUNT, MS_BIND, MS_RDONLY, MS_NOSUID, MS_NOEXEC] None)) (\<lambda>_.
     done_with ())))))))))"

definition bind_writable :: "kern \<Rightarrow> bytes \<Rightarrow> unit sysrun" where
  "bind_writable k path =
     bind_run (check k (Sys_open_tree AT_FDCWD path [OPEN_TREE_CLONE, O_CLOEXEC, AT_RECURSIVE])) (\<lambda>tree.
     bind_run (attempted
       (bind_run (check k (Sys_mount_setattr tree '''' [AT_EMPTY_PATH, AT_RECURSIVE] [] [MOUNT_ATTR_RDONLY])) (\<lambda>_.
        check k (Sys_move_mount tree '''' AT_FDCWD path [MOVE_MOUNT_F_EMPTY_PATH])))) (\<lambda>result.
     bind_run (quietly k (Sys_close tree)) (\<lambda>_.
     bind_run (ok_or result) (\<lambda>_. done_with ()))))"

definition private_stdin :: "kern \<Rightarrow> unit sysrun" where
  "private_stdin k =
     bind_run (sys_meta k (Sys_fstat 0)) (\<lambda>(r, stat).
     if r = Inr 0 \<and> m_mode stat AND 0xF000 = 0x2000 \<and> is_null_device (m_rdev stat)
     then bind_run (check k (Sys_open ''/dev/null'' [O_RDONLY])) (\<lambda>null.
          bind_run (check k (Sys_dup2 null 0)) (\<lambda>_. quietly k (Sys_close null)))
     else done_with ())"

definition enter_read_only_view :: "kern \<Rightarrow> writable_view \<Rightarrow> unit sysrun" where
  "enter_read_only_view k view =
     bind_run (check k (Sys_unshare [CLONE_NEWNS])) (\<lambda>_.
     bind_run (check k (Sys_mount None ''/'' None [MS_REC, MS_PRIVATE] None)) (\<lambda>_.
     bind_run (check k (Sys_mount_setattr AT_FDCWD ''/'' [AT_RECURSIVE] [MOUNT_ATTR_RDONLY, MOUNT_ATTR_NODEV] [])) (\<lambda>_.
     bind_run (for_each (bind_writable k) (v_paths view)) (\<lambda>_.
     bind_run (private_dev k) (\<lambda>_.
     bind_run (private_stdin k) (\<lambda>_.
     bind_run (check k (Sys_chdir (v_workdir view))) (\<lambda>_. done_with ())))))))"

section \<open>Signals and capabilities\<close>

definition reset_caught_handlers :: "kern \<Rightarrow> unit sysrun" where
  "reset_caught_handlers k =
     for_each (\<lambda>signal.
       bind_run (sys_number k (Sys_sigaction signal)) (\<lambda>(r, handler).
       if r = Inr 0 \<and> handler \<noteq> 0 \<and> handler \<noteq> 1 then quietly k (Sys_signal signal SIG_DFL) else done_with ()))
       [1..64]"

fun drop_from :: "nat \<Rightarrow> kern \<Rightarrow> int \<Rightarrow> unit sysrun" where
  "drop_from 0 k cap = stop Stuck"
| "drop_from (Suc n) k cap =
     bind_run (sys k (Sys_prctl PR_CAPBSET_READ [cap])) (\<lambda>r.
     case r of
       Inl e \<Rightarrow> done_with ()
     | Inr _ \<Rightarrow> bind_run (check k (Sys_prctl PR_CAPBSET_DROP [cap])) (\<lambda>_. drop_from n k (cap + 1)))"

text \<open>3 is \<^verbatim>\<open>SECBIT_NOROOT | SECBIT_NOROOT_LOCKED\<close>, 4 is \<^verbatim>\<open>PR_CAP_AMBIENT_CLEAR_ALL\<close>.\<close>

definition drop_capabilities :: "kern \<Rightarrow> unit sysrun" where
  "drop_capabilities k =
     bind_run (check k (Sys_prctl PR_SET_SECUREBITS [3])) (\<lambda>_.
     bind_run (check k (Sys_prctl PR_CAP_AMBIENT [4, 0, 0, 0])) (\<lambda>_.
     drop_from (k_patience k) k 0))"

section \<open>Descriptors\<close>

definition byte_at :: "bytes \<Rightarrow> nat \<Rightarrow> byte" where
  "byte_at buf i = (if i < length buf then buf ! i else nul)"

text \<open>The number at the front of a name, saturating as \<^verbatim>\<open>c_int\<close>, and the bytes after it.\<close>

definition digit_step :: "int \<Rightarrow> byte \<Rightarrow> int" where
  "digit_step n b = min (min (n * 10) 0x7FFFFFFF + (of_char b - 48)) 0x7FFFFFFF"

definition name_digits :: "bytes \<Rightarrow> bytes" where
  "name_digits name = takeWhile (between (CHR ''0'') (CHR ''9'')) name"

definition name_fd :: "bytes \<Rightarrow> int option" where
  "name_fd name =
     (let ds = name_digits name
      in if ds \<noteq> [] \<and> byte_at name (length ds) = nul then Some (foldl digit_step 0 ds) else None)"

text \<open>
  The entries of one \<^verbatim>\<open>getdents64\<close> buffer. An entry of length 0 would make no progress; a buffer of
  \<open>n\<close> bytes has at most \<open>n\<close> others.
\<close>

definition reclen_at :: "bytes \<Rightarrow> nat \<Rightarrow> nat" where
  "reclen_at buf offset = of_char (byte_at buf (offset + 16)) + 256 * of_char (byte_at buf (offset + 17))"

fun list_entries ::
  "nat \<Rightarrow> (fd \<Rightarrow> unit sysrun) \<Rightarrow> fd \<Rightarrow> int \<Rightarrow> bytes \<Rightarrow> nat \<Rightarrow> nat \<Rightarrow> bool \<Rightarrow> bool sysrun" where
  "list_entries rounds f dir first buf n offset called =
     (if n \<le> offset then done_with called
      else case rounds of
        0 \<Rightarrow> stop Stuck
      | Suc m \<Rightarrow>
          (let more = list_entries m f dir first buf n (offset + reclen_at buf offset)
           in case name_fd (drop (offset + 19) buf) of
                Some fd \<Rightarrow>
                  if first \<le> fd \<and> fd \<noteq> dir then bind_run (f fd) (\<lambda>_. more True) else more called
              | None \<Rightarrow> more called))"

fun list_descriptors ::
  "nat \<Rightarrow> kern \<Rightarrow> fd \<Rightarrow> int \<Rightarrow> (fd \<Rightarrow> unit sysrun) \<Rightarrow> bool \<Rightarrow> bool sysrun" where
  "list_descriptors 0 k dir first f called = stop Stuck"
| "list_descriptors (Suc m) k dir first f called =
     bind_run (sys_bytes k (Sys_getdents dir)) (\<lambda>(r, buf).
     case r of
       Inr n \<Rightarrow>
         if n = 0 then done_with called
         else bind_run (list_entries (nat n) f dir first buf (nat n) 0 called)
           (list_descriptors m k dir first f)
     | Inl e \<Rightarrow> if e = EINTR then list_descriptors m k dir first f called else stop (Os e))"

definition for_each_open_descriptor :: "kern \<Rightarrow> int \<Rightarrow> (fd \<Rightarrow> unit sysrun) \<Rightarrow> bool sysrun" where
  "for_each_open_descriptor k first f =
     bind_run (check k (Sys_open ''/proc/self/fd'' [O_RDONLY, O_DIRECTORY, O_CLOEXEC])) (\<lambda>dir.
     bind_run (attempted (list_descriptors (k_patience k) k dir first f False)) (\<lambda>result.
     bind_run (quietly k (Sys_close dir)) (\<lambda>_. ok_or result)))"

fun close_rounds :: "nat \<Rightarrow> kern \<Rightarrow> int \<Rightarrow> unit sysrun" where
  "close_rounds 0 k first = stop Stuck"
| "close_rounds (Suc m) k first =
     bind_run (for_each_open_descriptor k first (\<lambda>fd. quietly k (Sys_close fd))) (\<lambda>called.
     if called then close_rounds m k first else done_with ())"

definition close_each_from :: "kern \<Rightarrow> int \<Rightarrow> unit sysrun" where
  "close_each_from k first = close_rounds (k_patience k) k first"

definition close_from :: "kern \<Rightarrow> int \<Rightarrow> unit sysrun" where
  "close_from k first =
     bind_run (sys k (Sys_close_range first [])) (\<lambda>r.
     if r = Inr 0 then done_with () else close_each_from k first)"

definition set_cloexec :: "kern \<Rightarrow> fd \<Rightarrow> unit sysrun" where
  "set_cloexec k fd =
     bind_run (sys k (Sys_fcntl fd F_SETFD 1)) (\<lambda>r.
     case r of Inl e \<Rightarrow> if e \<noteq> EBADF then stop (Os e) else done_with () | Inr _ \<Rightarrow> done_with ())"

definition close_extra_descriptors :: "kern \<Rightarrow> unit sysrun" where
  "close_extra_descriptors k =
     bind_run (sys k (Sys_close_range 3 [CLOSE_RANGE_CLOEXEC])) (\<lambda>r.
     if r = Inr 0 then done_with ()
     else bind_run (for_each_open_descriptor k 3 (set_cloexec k)) (\<lambda>_. done_with ()))"

end
