(* ===== verification/Spawn.thy ===== *)
theory Spawn
  imports Sandbox
begin

unbundle bit_operations_syntax

text \<open>
  The last steps of a workload's child and its start: the PID namespace, the listeners of the proxy,
  the \<^verbatim>\<open>landlock\<close> rules, the setup closure of \<^verbatim>\<open>run\<close>, and \<^verbatim>\<open>spawn\<close> with its search of the
  program, all of \<^verbatim>\<open>crates/world-runtime/src/linux.rs\<close>. A fork returns in the process the run follows:
  0 in the child, its PID in the parent.
\<close>

section \<open>The PID namespace\<close>

text \<open>\<^verbatim>\<open>WIFSIGNALED\<close>, \<^verbatim>\<open>WTERMSIG\<close> and \<^verbatim>\<open>WEXITSTATUS\<close>.\<close>

definition term_sig :: "int \<Rightarrow> int" where
  "term_sig status = status AND 0x7F"

definition if_signaled :: "int \<Rightarrow> bool" where
  "if_signaled status = (term_sig status \<noteq> 0 \<and> term_sig status \<noteq> 0x7F)"

definition exit_status :: "int \<Rightarrow> int" where
  "exit_status status = drop_bit 8 status AND 0xFF"

definition relay_exit :: "kern \<Rightarrow> int \<Rightarrow> 'a sysrun" where
  "relay_exit k status =
     (if if_signaled status
      then bind_run (quietly k (Sys_signal (term_sig status) SIG_DFL)) (\<lambda>_.
           bind_run (sys k Sys_getpid) (\<lambda>me.
           bind_run (quietly k (Sys_kill (case me of Inr p \<Rightarrow> p | Inl _ \<Rightarrow> -1) (term_sig status))) (\<lambda>_.
           stop (Exited (128 + term_sig status)))))
      else stop (Exited (exit_status status)))"

fun wait_rounds :: "nat \<Rightarrow> kern \<Rightarrow> pid \<Rightarrow> 'a sysrun" where
  "wait_rounds 0 k child = stop Stuck"
| "wait_rounds (Suc m) k child =
     bind_run (sys_number k (Sys_waitpid (-1) [])) (\<lambda>(r, status).
     if r = Inr child then relay_exit k status
     else case r of
       Inl e \<Rightarrow> if e \<noteq> EINTR then stop (Exited 125) else wait_rounds m k child
     | Inr _ \<Rightarrow> wait_rounds m k child)"

definition wait_for :: "kern \<Rightarrow> pid \<Rightarrow> 'a sysrun" where
  "wait_for k child =
     bind_run (attempted (close_from k 0)) (\<lambda>r.
     case r of Inl e \<Rightarrow> stop (Exited 125) | Inr _ \<Rightarrow> wait_rounds (k_patience k) k child)"

definition enter_pid_namespace :: "kern \<Rightarrow> unit sysrun" where
  "enter_pid_namespace k =
     bind_run (quietly k (Sys_signal SIGCHLD SIG_DFL)) (\<lambda>_.
     bind_run (check k (Sys_unshare [CLONE_NEWPID])) (\<lambda>_.
     bind_run (check k Sys_fork) (\<lambda>init.
     if init \<noteq> 0 then wait_for k init
     else bind_run (sys k Sys_fork) (\<lambda>workload.
          case workload of
            Inl e \<Rightarrow> stop (Exited 125)
          | Inr p \<Rightarrow> if p \<noteq> 0 then wait_for k p else done_with ()))))"

section \<open>The listeners of the proxy\<close>

text \<open>\<^verbatim>\<open>&&\<close> of calls: the first that fails ends it.\<close>

fun all_succeed :: "kern \<Rightarrow> scall list \<Rightarrow> bool sysrun" where
  "all_succeed k [] = done_with True"
| "all_succeed k (c # cs) =
     bind_run (sys k c) (\<lambda>r. if r = Inr 0 then all_succeed k cs else done_with False)"

definition listen_v6 :: "kern \<Rightarrow> u16 \<Rightarrow> fd list sysrun" where
  "listen_v6 k port =
     bind_run (sys k (Sys_socket AF_INET6 [SOCK_STREAM, SOCK_CLOEXEC])) (\<lambda>r.
     case r of
       Inl e \<Rightarrow> done_with []
     | Inr v6 \<Rightarrow>
         bind_run (all_succeed k [Sys_setsockopt v6 IPV6_V6ONLY 1, Sys_bind_loopback v6 port, Sys_listen v6 1024]) (\<lambda>good.
         if good then done_with [v6] else bind_run (quietly k (Sys_close v6)) (\<lambda>_. done_with [])))"

definition send_listeners :: "kern \<Rightarrow> fd \<Rightarrow> u16 \<Rightarrow> unit sysrun" where
  "send_listeners k channel port =
     bind_run (check k (Sys_socket AF_INET [SOCK_STREAM, SOCK_CLOEXEC])) (\<lambda>v4.
     bind_run (check k (Sys_bind_loopback v4 port)) (\<lambda>_.
     bind_run (check k (Sys_listen v4 1024)) (\<lambda>_.
     bind_run (listen_v6 k port) (\<lambda>more.
     bind_run (sys k (Sys_sendmsg channel (v4 # more))) (\<lambda>sent.
     bind_run (look last_errno) (\<lambda>error.
     bind_run (for_each (\<lambda>fd. quietly k (Sys_close fd)) (v4 # more)) (\<lambda>_.
     if sent \<noteq> Inr 1 then stop (Os error) else done_with ())))))))"

section \<open>Landlock and seccomp\<close>

definition WRITE_RIGHTS :: u64 where
  "WRITE_RIGHTS = push_bit 1 1 OR push_bit 14 1"

definition IOCTL_DEV :: u64 where
  "IOCTL_DEV = push_bit 15 1"

definition dir_rights :: u64 where
  "dir_rights =
     WRITE_RIGHTS OR push_bit 4 1 OR push_bit 5 1 OR push_bit 6 1 OR push_bit 7 1 OR push_bit 8 1 OR
     push_bit 9 1 OR push_bit 10 1 OR push_bit 11 1 OR push_bit 12 1 OR push_bit 13 1"

definition file_rights :: "int \<Rightarrow> u64" where
  "file_rights abi = (if 5 \<le> abi then WRITE_RIGHTS OR IOCTL_DEV else WRITE_RIGHTS)"

definition ruleset_attr :: "int \<Rightarrow> u64 \<times> u64" where
  "ruleset_attr abi =
     (dir_rights OR (if 5 \<le> abi then IOCTL_DEV else 0), if 6 \<le> abi then push_bit 1 1 OR push_bit 0 1 else 0)"

definition above_stdio :: "kern \<Rightarrow> fd \<Rightarrow> fd sysrun" where
  "above_stdio k fd =
     (if 2 < fd then done_with fd
      else bind_run (sys k (Sys_fcntl fd F_DUPFD_CLOEXEC 3)) (\<lambda>r.
           bind_run (quietly k (Sys_close fd)) (\<lambda>_. ok_or r)))"

definition add_rule :: "kern \<Rightarrow> fd \<Rightarrow> bytes \<times> u64 \<Rightarrow> unit sysrun" where
  "add_rule k ruleset = (\<lambda>(path, rights).
     bind_run (check k (Sys_open path [O_PATH, O_CLOEXEC])) (\<lambda>file.
     bind_run (sys k (Sys_landlock_add ruleset rights file)) (\<lambda>r.
     bind_run (look last_errno) (\<lambda>error.
     bind_run (quietly k (Sys_close file)) (\<lambda>_.
     if r \<noteq> Inr 0 then stop (Os error) else done_with ())))))"

definition write_ruleset :: "kern \<Rightarrow> bytes list \<Rightarrow> bytes list \<Rightarrow> (fd \<times> u64) sysrun" where
  "write_ruleset k dirs files =
     bind_run (sys k Sys_landlock_version) (\<lambda>version.
     let abi = (case version of Inl _ \<Rightarrow> -1 | Inr v \<Rightarrow> v)
     in if abi < 1 then stop (Refused ''Landlock is unavailable'')
        else if abi < 3 then stop (Refused ''Landlock cannot restrict truncation'')
        else bind_run (check k (case ruleset_attr abi of (fs, scoped) \<Rightarrow> Sys_landlock_create fs scoped)) (\<lambda>ruleset.
             bind_run (attempted (for_each (add_rule k ruleset)
               (map (\<lambda>p. (p, dir_rights)) dirs @ map (\<lambda>p. (p, file_rights abi)) files))) (\<lambda>rules.
             case rules of
               Inl e \<Rightarrow> bind_run (quietly k (Sys_close ruleset)) (\<lambda>_. stop (Os e))
             | Inr _ \<Rightarrow> bind_run (above_stdio k ruleset) (\<lambda>fd. done_with (fd, dir_rights)))))"

definition allow_dir :: "kern \<Rightarrow> fd \<Rightarrow> bytes \<Rightarrow> u64 \<Rightarrow> unit sysrun" where
  "allow_dir k ruleset path rights =
     bind_run (check k (Sys_open path [O_PATH, O_DIRECTORY, O_CLOEXEC])) (\<lambda>dir.
     bind_run (sys k (Sys_landlock_add ruleset rights dir)) (\<lambda>result.
     bind_run (look last_errno) (\<lambda>error.
     bind_run (quietly k (Sys_close dir)) (\<lambda>_.
     if result \<noteq> Inr 0 then stop (Os error) else done_with ()))))"

definition restrict_self :: "kern \<Rightarrow> fd \<Rightarrow> unit sysrun" where
  "restrict_self k ruleset =
     bind_run (sys k (Sys_landlock_restrict ruleset)) (\<lambda>r.
     bind_run (look last_errno) (\<lambda>error. if r \<noteq> Inr 0 then stop (Os error) else done_with ()))"

definition seccomp_install :: "kern \<Rightarrow> sock_filter list \<Rightarrow> unit sysrun" where
  "seccomp_install k rules = bind_run (check k (Sys_set_seccomp rules)) (\<lambda>_. done_with ())"

section \<open>The setup of an isolated workload\<close>

record network_job =
  j_maps :: id_maps
  j_view :: writable_view
  j_ruleset :: fd
  j_rights :: u64
  j_channel :: "fd option"
  j_port :: u16
  j_filter :: "sock_filter list"

definition network_setup :: "kern \<Rightarrow> network_job \<Rightarrow> unit sysrun" where
  "network_setup k job =
     bind_run (enter_new_namespaces k (j_maps job)) (\<lambda>_.
     bind_run (check k (Sys_unshare [CLONE_NEWIPC])) (\<lambda>_.
     bind_run (enter_read_only_view k (j_view job)) (\<lambda>_.
     bind_run (allow_dir k (j_ruleset job) ''/dev/shm'' (j_rights job)) (\<lambda>_.
     bind_run (case j_channel job of None \<Rightarrow> done_with () | Some channel \<Rightarrow> send_listeners k channel (j_port job)) (\<lambda>_.
     bind_run (close_extra_descriptors k) (\<lambda>_.
     bind_run (check k (Sys_prctl PR_SET_NO_NEW_PRIVS [1, 0, 0, 0])) (\<lambda>_.
     bind_run (restrict_self k (j_ruleset job)) (\<lambda>_.
     bind_run (drop_capabilities k) (\<lambda>_.
     bind_run (seccomp_install k (j_filter job)) (\<lambda>_.
     enter_pid_namespace k))))))))))"

section \<open>The child of spawn\<close>

record spawn_job =
  s_candidates :: "bytes list"
  s_argv :: "bytes list"
  s_env :: "bytes list"
  s_cwd :: bytes
  s_stdin :: fd
  s_stdout :: fd
  s_stderr :: fd
  s_status :: fd

definition sh_argv :: "spawn_job \<Rightarrow> bytes \<Rightarrow> bytes list" where
  "sh_argv job program = ''/bin/sh'' # program # tl (s_argv job)"

definition try_next_candidate :: "errno \<Rightarrow> bool" where
  "try_next_candidate e = (e \<in> {EACCES, ENOENT, ENOTDIR} \<or> e \<in> {ESTALE, ENODEV, ETIMEDOUT})"

definition exec_call :: "kern \<Rightarrow> bytes \<Rightarrow> bytes list \<Rightarrow> bytes list \<Rightarrow> errno sysrun" where
  "exec_call k program argv env =
     bind_run (sys k (Sys_execve program argv env)) (\<lambda>r.
     case r of Inr _ \<Rightarrow> stop (Became program argv env) | Inl e \<Rightarrow> done_with e)"

definition exec_one :: "kern \<Rightarrow> spawn_job \<Rightarrow> bytes \<Rightarrow> errno sysrun" where
  "exec_one k job program =
     bind_run (exec_call k program (s_argv job) (s_env job)) (\<lambda>err.
     if err = ENOEXEC then exec_call k ''/bin/sh'' (sh_argv job program) (s_env job) else done_with err)"

fun exec_search :: "kern \<Rightarrow> spawn_job \<Rightarrow> bool \<Rightarrow> errno \<Rightarrow> bytes list \<Rightarrow> errno sysrun" where
  "exec_search k job denied err [] =
     done_with (if denied \<and> try_next_candidate err then EACCES else err)"
| "exec_search k job denied err (program # programs) =
     bind_run (exec_one k job program) (\<lambda>err.
     let denied = (denied \<or> err = EACCES)
     in if \<not> try_next_candidate err then exec_search k job denied err []
        else exec_search k job denied err programs)"

definition report_error :: "kern \<Rightarrow> spawn_job \<Rightarrow> errno \<Rightarrow> 'a sysrun" where
  "report_error k job e = bind_run (quietly k (Sys_report (s_status job) e)) (\<lambda>_. stop (Exited 127))"

text \<open>\<^verbatim>\<open>||\<close> of calls that failed: the first that fails is the last call made.\<close>

fun first_failing :: "kern \<Rightarrow> scall list \<Rightarrow> bool sysrun" where
  "first_failing k [] = done_with False"
| "first_failing k (c # cs) =
     bind_run (sys k c) (\<lambda>r. case r of Inl _ \<Rightarrow> done_with True | Inr _ \<Rightarrow> first_failing k cs)"

definition spawn_child :: "kern \<Rightarrow> spawn_job \<Rightarrow> unit sysrun \<Rightarrow> unit sysrun" where
  "spawn_child k job setup =
     bind_run (reset_caught_handlers k) (\<lambda>_.
     bind_run (first_failing k
       [Sys_setpgid, Sys_dup2 (s_stdin job) 0, Sys_dup2 (s_stdout job) 1, Sys_dup2 (s_stderr job) 2,
        Sys_chdir (s_cwd job)]) (\<lambda>failed.
     bind_run (if failed then bind_run (look last_errno) (report_error k job) else done_with ()) (\<lambda>_.
     bind_run (attempted setup) (\<lambda>result.
     bind_run (case result of Inl e \<Rightarrow> report_error k job e | Inr _ \<Rightarrow> done_with ()) (\<lambda>_.
     bind_run (quietly k (Sys_signal SIGPIPE SIG_DFL)) (\<lambda>_.
     bind_run (quietly k Sys_unblock_signals) (\<lambda>_.
     bind_run (exec_search k job False ENOENT (s_candidates job)) (report_error k job))))))))"

text \<open>The parts of \<^verbatim>\<open>spawn\<close> that the parent prepares.\<close>

definition cstring :: "bytes \<Rightarrow> bytes option" where
  "cstring s = (if has_nul s then None else Some s)"

definition cstrings :: "bytes list \<Rightarrow> bytes list option" where
  "cstrings ss = (if list_ex has_nul ss then None else Some ss)"

definition program_candidates ::
  "bytes \<Rightarrow> bytes \<Rightarrow> (bytes \<times> bytes) list \<Rightarrow> halt + bytes list" where
  "program_candidates program cwd env =
     (if program = [] then Inl (Os ENOENT)
      else case (if slash \<in> set program then cstrings [program]
        else let path = (case map_of env ''PATH'' of Some v \<Rightarrow> v | None \<Rightarrow> ''/bin:/usr/bin'')
             in cstrings (map (\<lambda>dir. join_path (join_path cwd dir) program) (split_on (CHR '':'') path))) of
          None \<Rightarrow> Inl (Refused ''argument or environment contains NUL'')
        | Some ps \<Rightarrow> Inr ps)"

definition spawn_job_of ::
  "bytes \<Rightarrow> bytes list \<Rightarrow> bytes \<Rightarrow> (bytes \<times> bytes) list \<Rightarrow> fd \<times> fd \<times> fd \<times> fd \<Rightarrow> halt + spawn_job" where
  "spawn_job_of program args cwd env = (\<lambda>(inp, out, err, status).
     case program_candidates program cwd env of
       Inl h \<Rightarrow> Inl h
     | Inr candidates \<Rightarrow>
         (case (cstring cwd, cstrings (program # args), cstrings (map (\<lambda>(key, v). key @ ''='' @ v) env)) of
            (Some c, Some a, Some e) \<Rightarrow>
              Inr \<lparr>s_candidates = candidates, s_argv = a, s_env = e, s_cwd = c, s_stdin = inp,
                s_stdout = out, s_stderr = err, s_status = status\<rparr>
          | _ \<Rightarrow> Inl (Refused ''argument or environment contains NUL'')))"

end
