(* ===== verification/Sandbox_Props.thy ===== *)
theory Sandbox_Props
  imports Spawn
begin

text \<open>
  What a child has gone through when it runs the workload, for every kernel: the steps of its
  confinement in their order, the mounts that were made writable, and the capabilities dropped.
\<close>

section \<open>Confinement comes before the program\<close>

fun no_exec :: "scall \<Rightarrow> bool" where
  "no_exec (Sys_execve p a e) = False"
| "no_exec _ = True"

text \<open>The calls that change mounts, and those that do neither.\<close>

fun no_mount :: "scall \<Rightarrow> bool" where
  "no_mount (Sys_mount a b c d e) = False"
| "no_mount (Sys_mount_setattr a b c d e) = False"
| "no_mount (Sys_move_mount a b c d e) = False"
| "no_mount (Sys_open_tree a b c) = False"
| "no_mount _ = True"

text \<open>Those that send a byte to a holder: no step of a sandbox does.\<close>

fun no_send :: "scall \<Rightarrow> bool" where
  "no_send (Sys_send fd b flags) = False"
| "no_send _ = True"

abbreviation plain_call :: "scall \<Rightarrow> bool" where
  "plain_call c \<equiv> no_exec c \<and> no_mount c \<and> no_send c"

lemma stage_quiet: "stage (\<lambda>c. plain_call c) ps r \<Longrightarrow> stage no_exec ps r"
  by (erule stage_mono) simp

declare list_entries.simps [simp del]

definition writes_text :: "bytes \<Rightarrow> scall \<Rightarrow> bool" where
  "writes_text s c = (case c of Sys_write _ s' \<Rightarrow> s' = s | _ \<Rightarrow> False)"

definition namespace_steps :: "id_maps \<Rightarrow> (scall \<Rightarrow> bool) list" where
  "namespace_steps maps =
     [(=) (Sys_unshare [CLONE_NEWUSER, CLONE_NEWNET]), writes_text ''deny'', writes_text (im_uid maps),
      writes_text (im_gid maps), writes_text ''0'']"

definition view_steps :: "(scall \<Rightarrow> bool) list" where
  "view_steps =
     [(=) (Sys_unshare [CLONE_NEWNS]), (=) (Sys_mount None ''/'' None [MS_REC, MS_PRIVATE] None),
      (=) (Sys_mount_setattr AT_FDCWD ''/'' [AT_RECURSIVE] [MOUNT_ATTR_RDONLY, MOUNT_ATTR_NODEV] []),
      (=) (Sys_mount (Some ''tmpfs'') ''/dev'' (Some ''tmpfs'') [MS_NOSUID, MS_NOEXEC] (Some ''mode=0755,size=64k'')),
      (=) (Sys_mount None ''/dev'' None [MS_REMOUNT, MS_BIND, MS_RDONLY, MS_NOSUID, MS_NOEXEC] None)]"

definition capability_steps :: "(scall \<Rightarrow> bool) list" where
  "capability_steps = [(=) (Sys_prctl PR_SET_SECUREBITS [3]), (=) (Sys_prctl PR_CAP_AMBIENT [4, 0, 0, 0])]"

definition pid_steps :: "(scall \<Rightarrow> bool) list" where
  "pid_steps = [(=) (Sys_unshare [CLONE_NEWPID]), (=) Sys_fork, (=) Sys_fork]"

definition confinement :: "network_job \<Rightarrow> (scall \<Rightarrow> bool) list" where
  "confinement job =
     namespace_steps (j_maps job) @ [(=) (Sys_unshare [CLONE_NEWIPC])] @ view_steps @
     [(=) (Sys_prctl PR_SET_NO_NEW_PRIVS [1, 0, 0, 0])] @ [(=) (Sys_landlock_restrict (j_ruleset job))] @
     capability_steps @ [(=) (Sys_set_seccomp (j_filter job))] @ pid_steps"

lemma stage_write_file: "stage plain_call [writes_text s] (write_file k path s)"
  unfolding write_file_def
  by (intro stage_skip_check stage_write) (simp_all add: writes_text_def)

lemma stage_loopback: "stage plain_call [] (loopback_up k)"
  unfolding loopback_up_def by (intro stage_plain) simp_all

lemma stage_namespaces: "stage plain_call (namespace_steps maps) (enter_new_namespaces k maps)"
  unfolding enter_new_namespaces_def namespace_steps_def
  by (intro stage_hit stage_bind [OF stage_write_file, simplified append_Cons append_Nil] stage_loopback)
    simp_all

lemma stage_collect: "(\<And>x. stage G [] (f x)) \<Longrightarrow> stage G [] (collect f xs)"
  by (induction xs) (auto intro!: stage_plain)

lemma stage_bind_node: "stage no_exec [] (bind_node k dev x)"
  unfolding bind_node_def by (intro stage_plain) simp_all

lemma stage_private_dev:
  "stage no_exec
     [(=) (Sys_mount (Some ''tmpfs'') ''/dev'' (Some ''tmpfs'') [MS_NOSUID, MS_NOEXEC] (Some ''mode=0755,size=64k'')),
      (=) (Sys_mount None ''/dev'' None [MS_REMOUNT, MS_BIND, MS_RDONLY, MS_NOSUID, MS_NOEXEC] None)]
     (private_dev k)"
  unfolding private_dev_def
  apply (rule stage_skip, rule stage_collect, simp add: stage_check_plain split: prod.splits)
  apply (rule stage_hit, simp, simp)
  apply (rule stage_skip_check, simp)
  apply (rule stage_skip, rule stage_for_each, rule stage_bind_node)
  apply (rule stage_skip, rule stage_for_each, simp split: prod.splits, intro allI impI stage_plain, simp)
  apply (rule stage_skip_check, simp)
  apply (rule stage_skip, rule stage_quietly, simp)
  apply (rule stage_skip_check, simp)
  apply (rule stage_hit, simp, simp)
  by (rule stage_done)

lemma stage_bind_writable: "stage no_exec [] (bind_writable k path)"
  unfolding bind_writable_def by (intro stage_plain stage_check_plain) simp_all

lemma stage_private_stdin: "stage plain_call [] (private_stdin k)"
  unfolding private_stdin_def by (intro stage_plain) simp_all

lemma stage_view: "stage no_exec view_steps (enter_read_only_view k view)"
proof -
  have view: "view_steps = (=) (Sys_unshare [CLONE_NEWNS]) #
      (=) (Sys_mount None ''/'' None [MS_REC, MS_PRIVATE] None) #
      (=) (Sys_mount_setattr AT_FDCWD ''/'' [AT_RECURSIVE] [MOUNT_ATTR_RDONLY, MOUNT_ATTR_NODEV] []) #
      ([(=) (Sys_mount (Some ''tmpfs'') ''/dev'' (Some ''tmpfs'') [MS_NOSUID, MS_NOEXEC] (Some ''mode=0755,size=64k'')),
      (=) (Sys_mount None ''/dev'' None [MS_REMOUNT, MS_BIND, MS_RDONLY, MS_NOSUID, MS_NOEXEC] None)] @ [])"
    by (simp add: view_steps_def)
  show ?thesis
    unfolding enter_read_only_view_def view
    by (intro stage_hit stage_skip [OF stage_for_each [OF stage_bind_writable]]
        stage_bind [OF stage_private_dev] stage_skip [OF stage_quiet [OF stage_private_stdin]] stage_skip_check stage_done)
      simp_all
qed

lemma stage_descriptors:
  assumes "\<And>fd. stage G [] (f fd)"
    and fds: "\<And>p flags. G (Sys_open p flags)" "\<And>fd. G (Sys_getdents fd)" "\<And>fd. G (Sys_close fd)"
  shows "stage G [] (for_each_open_descriptor k first f)"
proof -
  have entries: "stage G [] (list_entries m f dir first buf n offset called)" for m dir buf n offset called
  proof (induction m arbitrary: offset called)
    case 0
    show ?case by (subst list_entries.simps) (auto intro!: stage_plain)
  next
    case (Suc m)
    show ?case
      by (subst list_entries.simps)
        (auto simp: Let_def intro!: stage_plain assms(1) Suc split: option.split nat.split)
  qed
  have "stage G [] (list_descriptors m k dir first f called)" for m dir called
  proof (induction m arbitrary: called)
    case 0
    then show ?case by (simp add: stage_plain)
  next
    case (Suc m)
    show ?case
      by (subst list_descriptors.simps) (intro stage_plain entries Suc, simp_all add: fds)
  qed
  then show ?thesis
    unfolding for_each_open_descriptor_def by (intro stage_plain) (simp_all add: fds)
qed

lemma stage_close_from:
  assumes fds: "\<And>p flags. G (Sys_open p flags)" "\<And>fd. G (Sys_getdents fd)" "\<And>fd. G (Sys_close fd)"
    "\<And>i flags. G (Sys_close_range i flags)"
  shows "stage G [] (close_from k first)"
proof -
  have "stage G [] (close_rounds m k first)" for m
    by (induction m) (auto intro!: stage_plain stage_descriptors simp: fds)
  then show ?thesis
    unfolding close_from_def close_each_from_def by (intro stage_plain) (simp_all add: fds)
qed

lemma stage_close_extra: "stage plain_call [] (close_extra_descriptors k)"
  unfolding close_extra_descriptors_def set_cloexec_def by (intro stage_plain stage_descriptors) simp_all

lemma stage_drop_capabilities: "stage plain_call capability_steps (drop_capabilities k)"
proof -
  have "stage plain_call [] (drop_from n k cap)" for n cap
    by (induction n arbitrary: cap) (auto intro!: stage_plain)
  then show ?thesis
    unfolding drop_capabilities_def capability_steps_def by (intro stage_hit) simp_all
qed

lemma stage_all_succeed: "\<forall>c \<in> set cs. G c \<Longrightarrow> stage G [] (all_succeed k cs)"
  by (induction cs) (auto intro!: stage_plain)

lemma stage_send_listeners: "stage plain_call [] (send_listeners k channel port)"
  unfolding send_listeners_def listen_v6_def
  by (intro stage_plain stage_all_succeed) simp_all

lemma stage_allow_dir: "stage plain_call [] (allow_dir k ruleset path rights)"
  unfolding allow_dir_def by (intro stage_plain) simp_all

lemma stage_restrict: "stage plain_call [(=) (Sys_landlock_restrict ruleset)] (restrict_self k ruleset)"
  unfolding restrict_self_def
  by (rule stageI)
    (auto simp: sys_def bind_run_def look_def stop_def done_with_def Let_def split: sum.splits)

text \<open>A process that only waits never returns, so it is at any stage.\<close>

lemma stage_wait_for: "stage plain_call ps (wait_for k child)"
proof -
  have "stage plain_call ps (wait_rounds m k child)" for m
    by (induction m) (auto simp: relay_exit_def intro!: stage_plain)
  then show ?thesis
    unfolding wait_for_def by (intro stage_skip stage_sum stage_catch stage_close_from stage_stop) (simp_all add: \<open>\<And>m. stage plain_call ps (wait_rounds m k child)\<close>)
qed

lemma stage_pid: "stage plain_call pid_steps (enter_pid_namespace k)"
proof -
  have fork: "stage plain_call [(=) Sys_fork] (bind_run (sys k Sys_fork) (\<lambda>workload.
      case workload of Inl e \<Rightarrow> stop (Exited 125) | Inr p \<Rightarrow> if p \<noteq> 0 then wait_for k p else done_with ()))"
    by (rule stage_case) (simp_all add: stage_stop stage_wait_for stage_done)
  show ?thesis
    unfolding enter_pid_namespace_def pid_steps_def
    by (intro stage_skip stage_hit stage_quietly stage_if stage_wait_for fork) simp_all
qed

lemma stage_seccomp: "stage plain_call [(=) (Sys_set_seccomp rules)] (seccomp_install k rules)"
  unfolding seccomp_install_def by (intro stage_hit stage_done) simp_all

lemma stage_channel:
  "stage plain_call [] (case channel of None \<Rightarrow> done_with () | Some fd \<Rightarrow> send_listeners k fd port)"
  by (intro stage_option stage_done stage_send_listeners)

lemma stage_network_setup: "stage no_exec (confinement job) (network_setup k job)"
  unfolding confinement_def network_setup_def
  by (intro stage_bind [OF stage_quiet [OF stage_namespaces]] stage_bind [OF stage_view] stage_bind [OF stage_quiet [OF stage_restrict]]
      stage_bind [OF stage_quiet [OF stage_drop_capabilities]] stage_bind [OF stage_check] stage_bind [OF stage_quiet [OF stage_seccomp]]
      stage_skip [OF stage_quiet [OF stage_allow_dir]] stage_skip [OF stage_quiet [OF stage_channel]] stage_skip [OF stage_quiet [OF stage_close_extra]] stage_quiet [OF stage_pid])
    simp_all

subsection \<open>Before a program is executed\<close>

lemma stage_report: "stage plain_call ps (report_error k job e)"
  unfolding report_error_def by (intro stage_skip stage_quietly stage_stop) simp_all

lemma stage_first_failing: "\<forall>c \<in> set cs. G c \<Longrightarrow> stage G [] (first_failing k cs)"
  by (induction cs) (auto intro!: stage_plain)

lemma stage_reset: "stage plain_call [] (reset_caught_handlers k)"
  unfolding reset_caught_handlers_def by (intro stage_plain) simp_all

lemma stage_exec_search: "stage no_mount [] (exec_search k job denied err programs)"
proof (induction programs arbitrary: denied err)
  case Nil
  then show ?case by (simp add: stage_done)
next
  case (Cons program programs)
  have "stage no_mount [] (exec_one k job program)"
    unfolding exec_one_def exec_call_def by (intro stage_plain) simp_all
  then show ?case
    unfolding exec_search.simps(2) Let_def by (intro stage_skip stage_if Cons stage_done) (simp_all add: stage_done)
qed

lemma stage_failed:
  "stage plain_call [] (if failed then bind_run (look last_errno) (report_error k job) else done_with ())"
  by (intro stage_if stage_skip stage_look stage_report stage_done)

lemma before_exec_spawn:
  assumes "stage no_exec ps setup"
  shows "before no_exec ps (spawn_child k job setup)"
  unfolding spawn_child_def
proof (intro before_bind [OF stage_quiet [OF stage_reset]] before_bind [OF stage_first_failing] before_bind [OF stage_quiet [OF stage_failed]]
    before_catch [OF assms])
  show "\<forall>c \<in> set [Sys_setpgid, Sys_dup2 (s_stdin job) 0, Sys_dup2 (s_stdout job) 1,
      Sys_dup2 (s_stderr job) 2, Sys_chdir (s_cwd job)]. no_exec c" by simp
  fix e :: errno
  have rest: "stage (\<lambda>_. True) [] (bind_run (quietly k (Sys_signal SIGPIPE SIG_DFL)) (\<lambda>_.
      bind_run (quietly k Sys_unblock_signals) (\<lambda>_.
      bind_run (exec_search k job False ENOENT (s_candidates job)) (report_error k job))))"
    by (intro stage_skip stage_quietly stage_grows [OF stage_exec_search] stage_grows [OF stage_report]) simp_all
  show "before no_exec ps (bind_run (case Inl e :: errno + unit of Inl e \<Rightarrow> report_error k job e | Inr _ \<Rightarrow> done_with ()) (\<lambda>_.
      bind_run (quietly k (Sys_signal SIGPIPE SIG_DFL)) (\<lambda>_.
      bind_run (quietly k Sys_unblock_signals) (\<lambda>_.
      bind_run (exec_search k job False ENOENT (s_candidates job)) (report_error k job)))))"
    using before_stage [OF stage_quiet [OF stage_report] rest] by simp
  show "stage (\<lambda>_. True) [] (bind_run (case Inr a :: errno + unit of Inl e \<Rightarrow> report_error k job e | Inr _ \<Rightarrow> done_with ()) (\<lambda>_.
      bind_run (quietly k (Sys_signal SIGPIPE SIG_DFL)) (\<lambda>_.
      bind_run (quietly k Sys_unblock_signals) (\<lambda>_.
      bind_run (exec_search k job False ENOENT (s_candidates job)) (report_error k job)))))" for a
    using stage_skip [OF stage_done rest] by simp
qed


text \<open>A kernel that grants everything and knows two capabilities, and a job for it.\<close>

definition granting :: kern where
  "granting =
     \<lparr>k_answer = (\<lambda>log c. case c of
        Sys_write _ s \<Rightarrow> Inr (int (length s))
      | Sys_open _ _ \<Rightarrow> Inr 7 | Sys_openat _ _ _ \<Rightarrow> Inr 8 | Sys_open_tree _ _ _ \<Rightarrow> Inr 9
      | Sys_socket _ _ \<Rightarrow> Inr 10 | Sys_sendmsg _ _ \<Rightarrow> Inr 1
      | Sys_prctl PR_CAPBSET_READ cap \<Rightarrow> if cap = [2] then Inl EINVAL else Inr 1
      | _ \<Rightarrow> Inr 0),
      k_bytes = (\<lambda>log c. []), k_number = (\<lambda>log c. 0),
      k_meta = (\<lambda>log c. \<lparr>m_dev = 0, m_ino = 0, m_mode = 0, m_rdev = (0, 0)\<rparr>), k_patience = 5\<rparr>"

definition net0 :: network_job where
  "net0 =
     \<lparr>j_maps = current_maps 0 0, j_view = \<lparr>v_paths = [''/w'', ''/t''], v_workdir = ''/w''\<rparr>, j_ruleset = 20,
      j_rights = 0, j_channel = None, j_port = 0, j_filter = []\<rparr>"

definition spawn0 :: spawn_job where
  "spawn0 =
     \<lparr>s_candidates = [''/bin/x''], s_argv = [''x''], s_env = [], s_cwd = ''/w'', s_stdin = 11, s_stdout = 12,
      s_stderr = 13, s_status = 14\<rparr>"

definition spawned0 :: "syslog \<times> (halt + unit)" where
  "spawned0 = spawn_child granting spawn0 (network_setup granting net0) []"

lemma spawned0_ends: "fst spawned0 \<noteq> [] \<and> last (fst spawned0) = (Sys_execve ''/bin/x'' [''x''] [], Inr 0)"
  by code_simp


end
