(* ===== verification/Sandbox_Fds.thy ===== *)
theory Sandbox_Fds
  imports Sandbox_Props Policy
begin

text \<open>
  The directory entries of \<^verbatim>\<open>/proc/self/fd\<close> as \<^verbatim>\<open>getdents64\<close> lays them out, and that the loop of
  \<^verbatim>\<open>for_each_open_descriptor\<close> visits exactly the descriptors listed.
\<close>

text \<open>
  \<^verbatim>\<open>linux_dirent64\<close>: 16 bytes of inode and offset, the length of the record (two bytes, the low one
  first), the type, the name with its NUL, and padding.
\<close>

record dirent =
  de_head :: bytes
  de_reclen :: "byte \<times> byte"
  de_type :: byte
  de_name :: bytes
  de_pad :: bytes

definition dirent_bytes :: "dirent \<Rightarrow> bytes" where
  "dirent_bytes e =
     de_head e @ [fst (de_reclen e), snd (de_reclen e), de_type e] @ de_name e @ [nul] @ de_pad e"

definition good_dirent :: "dirent \<Rightarrow> bool" where
  "good_dirent e \<longleftrightarrow>
     length (de_head e) = 16 \<and> nul \<notin> set (de_name e) \<and>
     of_char (fst (de_reclen e)) + 256 * of_char (snd (de_reclen e)) = length (dirent_bytes e)"

definition buffer_of :: "dirent list \<Rightarrow> bytes" where
  "buffer_of es = concat (map dirent_bytes es)"

text \<open>The number a name writes, if it is one.\<close>

definition fd_of_name :: "bytes \<Rightarrow> int option" where
  "fd_of_name name =
     (if name \<noteq> [] \<and> list_all (between (CHR ''0'') (CHR ''9'')) name then Some (foldl digit_step 0 name) else None)"

definition listed_fds :: "int \<Rightarrow> fd \<Rightarrow> dirent list \<Rightarrow> fd list" where
  "listed_fds first dir es =
     filter (\<lambda>fd. first \<le> fd \<and> fd \<noteq> dir) (List.map_filter (\<lambda>e. fd_of_name (de_name e)) es)"

lemma nul_no_digit [simp]: "\<not> between (CHR ''0'') (CHR ''9'') nul"
  by (simp add: between_def)

lemma name_fd_of: 
  assumes "nul \<notin> set name"
  shows "name_fd (name @ nul # rest) = fd_of_name name"
proof (cases "list_all (between (CHR ''0'') (CHR ''9'')) name")
  case True
  then have "name_digits (name @ nul # rest) = name"
    unfolding name_digits_def by (subst takeWhile_append2) (auto simp: list_all_iff)
  with True show ?thesis by (simp add: name_fd_def fd_of_name_def byte_at_def Let_def)
next
  case False
  let ?p = "between (CHR ''0'') (CHR ''9'')"
  from False obtain x where x: "x \<in> set name" "\<not> ?p x" by (auto simp: list_all_iff)
  then have ds: "name_digits (name @ nul # rest) = takeWhile ?p name"
    unfolding name_digits_def by (rule takeWhile_append1)
  have short: "length (takeWhile ?p name) < length name"
    using x by (metis length_takeWhile_le nat_less_le set_takeWhileD takeWhile_eq_take take_all_iff order_refl)
  then have "name ! length (takeWhile ?p name) \<noteq> nul" using assms nth_mem by metis
  then have "byte_at (name @ nul # rest) (length (takeWhile ?p name)) \<noteq> nul"
    using short by (auto simp: byte_at_def nth_append dest: nth_mem)
  with False ds show ?thesis by (auto simp: name_fd_def fd_of_name_def Let_def)
qed

lemma reclen_of_entry:
  assumes "good_dirent e"
  shows "reclen_at (pre @ dirent_bytes e @ post) (length pre) = length (dirent_bytes e)"
  using assms by (auto simp: good_dirent_def reclen_at_def byte_at_def dirent_bytes_def nth_append)

lemma name_of_entry:
  assumes "good_dirent e"
  shows "name_fd (drop (length pre + 19) (pre @ dirent_bytes e @ post)) = fd_of_name (de_name e)"
proof -
  have "drop (length pre + 19) (pre @ dirent_bytes e @ post) = de_name e @ nul # (de_pad e @ post)"
    using assms by (simp add: good_dirent_def dirent_bytes_def)
  then show ?thesis using assms name_fd_of by (simp add: good_dirent_def)
qed

lemma entry_long: "good_dirent e \<Longrightarrow> 20 \<le> length (dirent_bytes e)"
  by (simp add: good_dirent_def dirent_bytes_def)

lemma list_entries_from:
  assumes "list_all good_dirent es" and "length es \<le> m"
  shows "list_entries m f dir first (pre @ buffer_of es) (length (pre @ buffer_of es)) (length pre) called =
    bind_run (for_each f (listed_fds first dir es)) (\<lambda>_. done_with (called \<or> listed_fds first dir es \<noteq> []))"
  using assms
proof (induction es arbitrary: pre m called)
  case Nil
  show ?case
    by (subst list_entries.simps) (simp add: buffer_of_def listed_fds_def map_filter_def bind_run_def done_with_def)
next
  case (Cons e es)
  obtain m' where m: "m = Suc m'" and "length es \<le> m'" using Cons.prems by (cases m) auto
  let ?buf = "pre @ buffer_of (e # es)"
  have good: "good_dirent e" using Cons.prems by simp
  have buf: "?buf = pre @ dirent_bytes e @ buffer_of es" by (simp add: buffer_of_def)
  have next_one: "list_entries m' f dir first ?buf (length ?buf) (length pre + reclen_at ?buf (length pre)) c =
      bind_run (for_each f (listed_fds first dir es)) (\<lambda>_. done_with (c \<or> listed_fds first dir es \<noteq> []))" for c
    using Cons.IH [of m' "pre @ dirent_bytes e" c] Cons.prems \<open>length es \<le> m'\<close>
      reclen_of_entry [OF good, of pre "buffer_of es"] by (simp add: buf)
  have fd: "name_fd (drop (length pre + 19) ?buf) = fd_of_name (de_name e)"
    unfolding buf by (rule name_of_entry [OF good])
  have "length pre < length ?buf" using entry_long [OF good] by (cases "dirent_bytes e") (auto simp: buf)
  then have step: "list_entries m f dir first ?buf (length ?buf) (length pre) called =
      (case fd_of_name (de_name e) of
         Some fd \<Rightarrow> if first \<le> fd \<and> fd \<noteq> dir
           then bind_run (f fd) (\<lambda>_. bind_run (for_each f (listed_fds first dir es)) (\<lambda>_. done_with (True \<or> listed_fds first dir es \<noteq> [])))
           else bind_run (for_each f (listed_fds first dir es)) (\<lambda>_. done_with (called \<or> listed_fds first dir es \<noteq> []))
       | None \<Rightarrow> bind_run (for_each f (listed_fds first dir es)) (\<lambda>_. done_with (called \<or> listed_fds first dir es \<noteq> [])))"
    unfolding m by (subst list_entries.simps) (simp only: fd next_one Let_def nat.case not_le [symmetric] if_False simp_thms)
  show ?case
    unfolding step
    by (auto simp: listed_fds_def map_filter_def bind_run_def fun_eq_iff done_with_def split: option.splits prod.splits sum.splits)
qed

text \<open>Names that the kernel writes: the decimal numbers of descriptors.\<close>

lemma of_char_digit: "d < 10 \<Longrightarrow> of_char (dec_digit d) = (48 + int d)"
proof -
  have "\<forall>d \<in> set [0..<10]. of_char (dec_digit d) = (48 + int d)" by code_simp
  then show "d < 10 \<Longrightarrow> ?thesis" by simp
qed

lemma foldl_digits:
  assumes "n < 2 ^ 31"
  shows "foldl digit_step 0 (show_radix 10 n) = int n"
  using assms
proof (induction n rule: less_induct)
  case (less n)
  show ?case
  proof (cases "n < 10")
    case True
    then show ?thesis by (subst show_radix.simps) (simp add: digit_step_def of_char_digit)
  next
    case False
    then have "n div 10 < n" "n div 10 < 2 ^ 31" using less.prems by auto
    with less.IH have ih: "foldl digit_step 0 (show_radix 10 (n div 10)) = int (n div 10)" by blast
    have "show_radix 10 n = show_radix 10 (n div 10) @ [dec_digit (n mod 10)]"
      using False by (subst show_radix.simps) simp
    moreover have "digit_step (int (n div 10)) (dec_digit (n mod 10)) = int n"
    proof -
      have "n div 10 * 10 + n mod 10 = n" by simp
      then have "int (n div 10) * 10 + int (n mod 10) = int n" by linarith
      then show ?thesis using less.prems by (simp add: digit_step_def of_char_digit min_def)
    qed
    ultimately show ?thesis by (simp add: ih)
  qed
qed

lemma fd_of_decimal: "n < 2 ^ 31 \<Longrightarrow> fd_of_name (show_radix 10 n) = Some (int n)"
  using show_radix_facts [of 10 n] show_dec_digits [of _ n]
  by (auto simp: fd_of_name_def list_all_iff foldl_digits)

text \<open>
  C23 (roundtrip). One buffer of \<^verbatim>\<open>getdents64\<close> that lists \<^verbatim>\<open>.\<close>, \<^verbatim>\<open>..\<close> and any descriptors, as records of any
  alignment, is read back exactly: the loop visits the listed descriptors in their order, those
  below the first to close and the directory's own left out, and says whether it visited any. A
  buffer of \<open>n\<close> bytes needs at most \<open>n\<close> rounds.
\<close>

theorem listing_read_back:
  assumes "list_all good_dirent es"
    and "map de_name es = [''.'', ''..''] @ map (show_radix 10) fds" and "list_all (\<lambda>n. n < 2 ^ 31) fds"
  shows "list_entries (length (buffer_of es)) f dir first (buffer_of es) (length (buffer_of es)) 0 called =
    bind_run (for_each f (filter (\<lambda>fd. first \<le> fd \<and> fd \<noteq> dir) (map int fds)))
      (\<lambda>_. done_with (called \<or> filter (\<lambda>fd. first \<le> fd \<and> fd \<noteq> dir) (map int fds) \<noteq> []))"
proof -
  have "List.map_filter (\<lambda>e. fd_of_name (de_name e)) es = List.map_filter fd_of_name (map de_name es)"
    by (simp add: map_filter_def filter_map o_def)
  also have "\<dots> = List.map_filter fd_of_name (map (show_radix 10) fds)"
    by (simp add: assms(2) map_filter_def fd_of_name_def between_def)
  also have "\<dots> = map int fds"
    using assms(3) by (induction fds) (simp_all add: map_filter_def fd_of_decimal)
  finally have fds: "listed_fds first dir es = filter (\<lambda>fd. first \<le> fd \<and> fd \<noteq> dir) (map int fds)"
    by (simp add: listed_fds_def)
  have "length es \<le> length (buffer_of es)"
    using assms(1)
  proof (induction es)
    case (Cons e es)
    then show ?case using entry_long [of e] by (simp add: buffer_of_def)
  qed simp
  from list_entries_from [OF assms(1) this, of f dir first "[]"] show ?thesis by (simp add: fds)
qed

definition entry0 :: "bytes \<Rightarrow> dirent" where
  "entry0 name =
     \<lparr>de_head = replicate 16 nul, de_reclen = (char_of (20 + length name), nul), de_type = nul,
      de_name = name, de_pad = []\<rparr>"

theorem listing_read_back_witness:
  "list_entries (length (buffer_of (map entry0 [''.'', ''..'', ''0'', ''3'', ''12''])))
     (\<lambda>fd. quietly granting (Sys_close fd)) 3 1 (buffer_of (map entry0 [''.'', ''..'', ''0'', ''3'', ''12'']))
     (length (buffer_of (map entry0 [''.'', ''..'', ''0'', ''3'', ''12'']))) 0 False [] =
   ([(Sys_close 12, Inr 0)], Inr True)"
proof -
  have "list_all good_dirent (map entry0 [''.'', ''..'', ''0'', ''3'', ''12''])" by code_simp
  moreover have "map de_name (map entry0 [''.'', ''..'', ''0'', ''3'', ''12'']) =
      [''.'', ''..''] @ map (show_radix 10) [0, 3, 12]" by code_simp
  ultimately show ?thesis
    by (subst listing_read_back [where fds = "[0, 3, 12]"])
      (simp_all add: bind_run_def quietly_def sys_def done_with_def granting_def Let_def)
qed

section \<open>Capabilities\<close>

definition drops :: "int \<Rightarrow> nat \<Rightarrow> scall list" where
  "drops cap n =
     concat (map (\<lambda>i. [Sys_prctl PR_CAPBSET_READ [cap + int i], Sys_prctl PR_CAPBSET_DROP [cap + int i]]) [0..<n])"

lemma drops_Suc:
  "drops cap (Suc n) = Sys_prctl PR_CAPBSET_READ [cap] # Sys_prctl PR_CAPBSET_DROP [cap] # drops (cap + 1) n"
proof -
  have "[0..<Suc n] = 0 # map Suc [0..<n]" by (metis map_Suc_upt upt_conv_Cons zero_less_Suc)
  then show ?thesis by (simp add: drops_def o_def add.assoc del: upt_Suc)
qed

lemma drop_from_all:
  "drop_from m k cap log = (log', Inr a) \<Longrightarrow>
     \<exists>ext n e. log' = log @ ext @ [(Sys_prctl PR_CAPBSET_READ [cap + int n], Inl e)] \<and> succeeded ext = drops cap n"
proof (induction m arbitrary: cap log)
  case 0
  then show ?case by (simp add: stop_def)
next
  case (Suc m)
  let ?read = "Sys_prctl PR_CAPBSET_READ [cap]" and ?drop = "Sys_prctl PR_CAPBSET_DROP [cap]"
  show ?case
  proof (cases "k_answer k log ?read")
    case (Inl e)
    with Suc.prems have "log' = log @ [(?read, Inl e)]"
      by (simp add: bind_run_def sys_def done_with_def Let_def)
    then show ?thesis by (intro exI [of _ "[]"] exI [of _ 0] exI [of _ e]) (simp add: drops_def)
  next
    case (Inr v)
    let ?log = "log @ [(?read, Inr v)]"
    obtain w where w: "k_answer k ?log ?drop = Inr w"
        and rest: "drop_from m k (cap + 1) (?log @ [(?drop, Inr w)]) = (log', Inr a)"
      using Suc.prems Inr
      by (auto simp: bind_run_def sys_def check_def ok_or_def stop_def done_with_def Let_def split: sum.splits)
    from Suc.IH [OF rest] obtain ext n e where
      "log' = (?log @ [(?drop, Inr w)]) @ ext @ [(Sys_prctl PR_CAPBSET_READ [cap + 1 + int n], Inl e)]"
      "succeeded ext = drops (cap + 1) n" by blast
    then show ?thesis
      by (intro exI [of _ "(?read, Inr v) # (?drop, Inr w) # ext"] exI [of _ "Suc n"] exI [of _ e])
        (simp add: drops_Suc add.assoc)
  qed
qed

text \<open>
  \<^verbatim>\<open>drop_capabilities\<close> returns only after root's automatic capabilities are disabled and
  locked, the ambient set is cleared, and every capability the kernel knows, from 0 up to the first
  number it refuses, has been dropped from the bounding set.
\<close>

theorem capabilities_dropped:
  assumes "drop_capabilities k log = (log', Inr a)"
  shows "\<exists>ext n e. log' = log @ ext @ [(Sys_prctl PR_CAPBSET_READ [int n], Inl e)] \<and>
    succeeded ext = [Sys_prctl PR_SET_SECUREBITS [3], Sys_prctl PR_CAP_AMBIENT [4, 0, 0, 0]] @ drops 0 n"
proof -
  let ?bits = "Sys_prctl PR_SET_SECUREBITS [3]" and ?ambient = "Sys_prctl PR_CAP_AMBIENT [4, 0, 0, 0]"
  obtain v w where
    "drop_from (k_patience k) k 0 (log @ [(?bits, Inr v), (?ambient, Inr w)]) = (log', Inr a)"
    using assms
    by (auto simp: drop_capabilities_def bind_run_def sys_def check_def ok_or_def stop_def done_with_def Let_def
        split: sum.splits)
  from drop_from_all [OF this] obtain ext n e where
    "log' = (log @ [(?bits, Inr v), (?ambient, Inr w)]) @ ext @ [(Sys_prctl PR_CAPBSET_READ [0 + int n], Inl e)]"
    "succeeded ext = drops 0 n" by blast
  then show ?thesis
    by (intro exI [of _ "(?bits, Inr v) # (?ambient, Inr w) # ext"] exI [of _ n] exI [of _ e]) simp
qed

theorem capabilities_dropped_witness:
  "\<exists>ext n e. fst (drop_capabilities granting []) = ext @ [(Sys_prctl PR_CAPBSET_READ [int n], Inl e)] \<and>
    succeeded ext = [Sys_prctl PR_SET_SECUREBITS [3], Sys_prctl PR_CAP_AMBIENT [4, 0, 0, 0]] @ drops 0 n"
proof -
  have "snd (drop_capabilities granting []) = Inr ()" by code_simp
  then have "drop_capabilities granting [] = (fst (drop_capabilities granting []), Inr ())"
    by (metis prod.collapse)
  from capabilities_dropped [OF this] show ?thesis by simp
qed

end
