(* ===== verification/Sandbox_Mounts.thy ===== *)
theory Sandbox_Mounts
  imports Sandbox_Props
begin

text \<open>
  The mounts a confined workload sees: what is writable, what has devices, and what is mounted
  where.
\<close>

section \<open>Mounts\<close>

text \<open>The path whose detached clone a descriptor is: that of the last \<^verbatim>\<open>open_tree\<close> that returned it.\<close>

definition tree_step :: "(fd \<rightharpoonup> bytes) \<Rightarrow> scall \<times> (errno + int) \<Rightarrow> (fd \<rightharpoonup> bytes)" where
  "tree_step T = (\<lambda>(c, r). case (c, r) of (Sys_open_tree _ path _, Inr t) \<Rightarrow> T(t \<mapsto> path) | _ \<Rightarrow> T)"

definition trees :: "syslog \<Rightarrow> (fd \<rightharpoonup> bytes)" where
  "trees log = foldl tree_step Map.empty log"

definition device_hosts :: "bytes set" where
  "device_hosts = set (map fst dev_nodes)"

fun mount_ok :: "bytes list \<Rightarrow> syslog \<Rightarrow> scall \<Rightarrow> bool" where
  "mount_ok paths log (Sys_mount_setattr t p flags on off) =
     ((MOUNT_ATTR_RDONLY \<in> set off \<longrightarrow> (\<exists>q \<in> set paths. trees log t = Some q)) \<and>
      (MOUNT_ATTR_NODEV \<in> set off \<longrightarrow> (\<exists>q \<in> device_hosts. trees log t = Some q)))"
| "mount_ok paths log (Sys_move_mount t p d q flags) =
     ((d = AT_FDCWD \<and> q \<in> set paths \<and> trees log t = Some q) \<or>
      (q \<in> set (map snd dev_nodes) \<and> (\<exists>h \<in> device_hosts. trees log t = Some h)))"
| "mount_ok paths log (Sys_mount source target fs flags options) =
     (target \<in> {''/'', ''/dev'', ''/dev/shm''} \<and> source \<in> {None, Some ''tmpfs''})"
| "mount_ok paths log _ = True"

abbreviation mounting_ok :: "bytes list \<Rightarrow> syslog \<Rightarrow> bool" where
  "mounting_ok paths \<equiv> calls_ok (mount_ok paths)"

lemma trees_simps [simp]:
  "trees [] = Map.empty"
  "trees (log @ [(c, r)]) = tree_step (trees log) (c, r)"
  by (simp_all add: trees_def)

lemma no_mount_ok: "no_mount c \<Longrightarrow> mount_ok paths log c"
  by (cases c) simp_all

lemma no_mount_trees: "no_mount c \<Longrightarrow> tree_step T (c, r) = T"
  by (cases c) (simp_all add: tree_step_def)

lemma no_mount_log:
  "\<forall>c \<in> fst ` set ext. no_mount c \<Longrightarrow>
     trees (log @ ext) = trees log \<and> (mounting_ok paths log \<longrightarrow> mounting_ok paths (log @ ext))"
proof (induction ext rule: rev_induct)
  case Nil
  then show ?case by simp
next
  case (snoc x ext)
  obtain c r where x: "x = (c, r)" by fastforce
  from snoc x have c: "no_mount c" and "trees (log @ ext) = trees log"
    "mounting_ok paths log \<longrightarrow> mounting_ok paths (log @ ext)" by auto
  then show ?case
    using calls_ok_snoc [of "mount_ok paths" "log @ ext" c r] trees_simps(2) [of "log @ ext" c r]
    by (simp add: x no_mount_ok no_mount_trees del: calls_ok_snoc trees_simps)
qed

text \<open>A run that changes no mount keeps what is known of them; one call adds to it.\<close>

lemma spec_no_mount:
  assumes "stage no_mount ps r"
  shows "run_spec (\<lambda>log. mounting_ok paths log \<and> X (trees log)) r
    (\<lambda>_ log. mounting_ok paths log \<and> X (trees log)) (mounting_ok paths)"
  unfolding run_spec_def
proof (intro allI impI)
  fix log assume log: "mounting_ok paths log \<and> X (trees log)"
  obtain ext where ext: "fst (r log) = log @ ext" "\<forall>c \<in> fst ` set ext. no_mount c"
    using assms unfolding stage_def by blast
  show "case r log of (log', Inr a) \<Rightarrow> mounting_ok paths log' \<and> X (trees log') | (log', Inl e) \<Rightarrow> mounting_ok paths log'"
    using no_mount_log [OF ext(2), of log paths] log ext(1) by (auto split: prod.splits sum.splits)
qed

lemma stage_no_mount: "stage (\<lambda>c. plain_call c) ps r \<Longrightarrow> stage no_mount ps r"
  by (erule stage_mono) simp

lemmas spec_quiet = spec_no_mount [OF stage_no_mount]

lemma spec_check:
  assumes "\<And>log. mounting_ok paths log \<Longrightarrow> X (trees log) \<Longrightarrow> mount_ok paths log c"
    and "\<And>T v. X T \<Longrightarrow> Y v (tree_step T (c, Inr v))"
  shows "run_spec (\<lambda>log. mounting_ok paths log \<and> X (trees log)) (check k c)
    (\<lambda>v log. mounting_ok paths log \<and> Y v (trees log)) (mounting_ok paths)"
  unfolding run_spec_def
  using assms
  by (auto simp: check_def sys_def bind_run_def ok_or_def stop_def done_with_def Let_def split: sum.splits)

lemma spec_catch:
  assumes "run_spec P r (\<lambda>_. E) E"
  shows "run_spec P (attempted r) (\<lambda>_. E) E"
  unfolding run_spec_def
proof (intro allI impI)
  fix log assume "P log"
  then have "E (fst (r log))"
    using assms unfolding run_spec_def by (cases "r log") (auto split: sum.splits)
  then show "case attempted r log of (log', Inr a) \<Rightarrow> E log' | (log', Inl e) \<Rightarrow> E log'"
    by (auto simp: attempted_def split: prod.splits sum.splits halt.splits)
qed

lemma spec_rest: "stage no_mount ps r \<Longrightarrow> run_spec (mounting_ok paths) r (\<lambda>_. mounting_ok paths) (mounting_ok paths)"
  using spec_no_mount [of ps r paths "\<lambda>_. True"] by simp

lemma spec_first:
  assumes "\<And>log. mounting_ok paths log \<Longrightarrow> mount_ok paths log c" and "\<And>T v. X v (tree_step T (c, Inr v))"
  shows "run_spec (mounting_ok paths) (check k c) (\<lambda>v log. mounting_ok paths log \<and> X v (trees log)) (mounting_ok paths)"
  using spec_check [of paths "\<lambda>_. True" c X k] assms by simp

lemma spec_last:
  assumes "\<And>log. mounting_ok paths log \<Longrightarrow> X (trees log) \<Longrightarrow> mount_ok paths log c"
  shows "run_spec (\<lambda>log. mounting_ok paths log \<and> X (trees log)) (check k c) (\<lambda>_. mounting_ok paths) (mounting_ok paths)"
  using spec_check [of paths X c "\<lambda>_ _. True" k] assms by simp

lemma spec_plain_check:
  "(\<And>log. mounting_ok paths log \<Longrightarrow> mount_ok paths log c) \<Longrightarrow>
     run_spec (mounting_ok paths) (check k c) (\<lambda>_. mounting_ok paths) (mounting_ok paths)"
  using spec_last [of paths "\<lambda>_. True"] by simp

lemma spec_bind_writable:
  assumes "path \<in> set paths"
  shows "run_spec (mounting_ok paths) (bind_writable k path) (\<lambda>_. mounting_ok paths) (mounting_ok paths)"
  unfolding bind_writable_def
proof (rule run_spec_bind)
  show "run_spec (mounting_ok paths) (check k (Sys_open_tree AT_FDCWD path [OPEN_TREE_CLONE, O_CLOEXEC, AT_RECURSIVE]))
      (\<lambda>t log. mounting_ok paths log \<and> trees log t = Some path) (mounting_ok paths)"
    by (rule spec_first) (simp_all add: tree_step_def)
  fix t
  show "run_spec (\<lambda>log. mounting_ok paths log \<and> trees log t = Some path)
      (bind_run (attempted
       (bind_run (check k (Sys_mount_setattr t '''' [AT_EMPTY_PATH, AT_RECURSIVE] [] [MOUNT_ATTR_RDONLY])) (\<lambda>_.
        check k (Sys_move_mount t '''' AT_FDCWD path [MOVE_MOUNT_F_EMPTY_PATH])))) (\<lambda>result.
     bind_run (quietly k (Sys_close t)) (\<lambda>_.
     bind_run (ok_or result) (\<lambda>_. done_with ()))))
      (\<lambda>_. mounting_ok paths) (mounting_ok paths)"
  proof (rule run_spec_bind [OF spec_catch [OF run_spec_bind]])
    show "run_spec (\<lambda>log. mounting_ok paths log \<and> trees log t = Some path)
        (check k (Sys_mount_setattr t '''' [AT_EMPTY_PATH, AT_RECURSIVE] [] [MOUNT_ATTR_RDONLY]))
        (\<lambda>_ log. mounting_ok paths log \<and> trees log t = Some path) (mounting_ok paths)"
      by (rule spec_check) (use assms in \<open>auto simp: tree_step_def\<close>)
    show "run_spec (\<lambda>log. mounting_ok paths log \<and> trees log t = Some path)
        (check k (Sys_move_mount t '''' AT_FDCWD path [MOVE_MOUNT_F_EMPTY_PATH])) (\<lambda>_. mounting_ok paths) (mounting_ok paths)"
      by (rule spec_last) (use assms in auto)
    show "run_spec (mounting_ok paths) (bind_run (quietly k (Sys_close t)) (\<lambda>_. bind_run (ok_or result) (\<lambda>_. done_with ())))
        (\<lambda>_. mounting_ok paths) (mounting_ok paths)" for result :: "errno + int"
      by (rule spec_rest [where ps = "[]"], intro stage_skip stage_quietly stage_ok_or stage_done) simp
  qed
qed

section \<open>The private /dev\<close>

definition device_tree :: "fd list \<Rightarrow> (fd \<rightharpoonup> bytes) \<Rightarrow> bool" where
  "device_tree ts T \<longleftrightarrow> (\<forall>t \<in> set ts. \<exists>h \<in> device_hosts. T t = Some h)"

lemma spec_open_devices:
  assumes "set (map fst nodes) \<subseteq> device_hosts"
  shows "run_spec (\<lambda>log. mounting_ok paths log \<and> device_tree ts (trees log))
    (collect (\<lambda>(host, _). check k (Sys_open_tree AT_FDCWD host [OPEN_TREE_CLONE, O_CLOEXEC])) nodes)
    (\<lambda>us log. mounting_ok paths log \<and> device_tree (ts @ us) (trees log)) (mounting_ok paths)"
  using assms
proof (induction nodes arbitrary: ts)
  case Nil
  then show ?case by (simp add: run_spec_done)
next
  case (Cons node nodes)
  obtain host name where node: "node = (host, name)" by fastforce
  have open_one: "run_spec (\<lambda>log. mounting_ok paths log \<and> device_tree ts (trees log))
      (check k (Sys_open_tree AT_FDCWD host [OPEN_TREE_CLONE, O_CLOEXEC]))
      (\<lambda>t log. mounting_ok paths log \<and> device_tree (ts @ [t]) (trees log)) (mounting_ok paths)"
    by (rule spec_check) (use Cons.prems node in \<open>auto simp: tree_step_def device_tree_def\<close>)
  have all: "run_spec (\<lambda>log. mounting_ok paths log \<and> device_tree (ts @ [t]) (trees log))
      (bind_run (collect (\<lambda>(host, _). check k (Sys_open_tree AT_FDCWD host [OPEN_TREE_CLONE, O_CLOEXEC])) nodes)
        (\<lambda>us. done_with (t # us)))
      (\<lambda>us log. mounting_ok paths log \<and> device_tree (ts @ us) (trees log)) (mounting_ok paths)" for t
    by (rule run_spec_bind [OF Cons.IH]) (use Cons.prems in \<open>auto intro!: run_spec_done\<close>)
  show ?case
    by (simp add: node) (rule run_spec_bind [OF open_one all])
qed

lemma spec_bind_node:
  assumes "name \<in> set (map snd dev_nodes)" and "t \<in> set ts"
  shows "run_spec (\<lambda>log. mounting_ok paths log \<and> device_tree ts (trees log)) (bind_node k dev (t, name))
    (\<lambda>_ log. mounting_ok paths log \<and> device_tree ts (trees log)) (mounting_ok paths)"
  unfolding bind_node_def prod.case
proof (intro run_spec_bind)
  show "run_spec (\<lambda>log. mounting_ok paths log \<and> device_tree ts (trees log))
      (check k (Sys_mount_setattr t '''' [AT_EMPTY_PATH] [] [MOUNT_ATTR_NODEV]))
      (\<lambda>_ log. mounting_ok paths log \<and> device_tree ts (trees log)) (mounting_ok paths)"
    by (rule spec_check) (use assms(2) in \<open>auto simp: tree_step_def device_tree_def\<close>)
  show "run_spec (\<lambda>log. mounting_ok paths log \<and> device_tree ts (trees log))
      (check k (Sys_openat dev name [O_CREAT, O_WRONLY, O_CLOEXEC]))
      (\<lambda>_ log. mounting_ok paths log \<and> device_tree ts (trees log)) (mounting_ok paths)"
    by (rule spec_no_mount [OF stage_check_plain]) simp
  show "run_spec (\<lambda>log. mounting_ok paths log \<and> device_tree ts (trees log)) (quietly k (Sys_close fd))
      (\<lambda>_ log. mounting_ok paths log \<and> device_tree ts (trees log)) (mounting_ok paths)" for fd
    by (rule spec_no_mount [OF stage_quietly]) simp
  show "run_spec (\<lambda>log. mounting_ok paths log \<and> device_tree ts (trees log))
      (check k (Sys_move_mount t '''' dev name [MOVE_MOUNT_F_EMPTY_PATH]))
      (\<lambda>_ log. mounting_ok paths log \<and> device_tree ts (trees log)) (mounting_ok paths)"
    by (rule spec_check) (use assms in \<open>auto simp: tree_step_def device_tree_def\<close>)
  show "run_spec (\<lambda>log. mounting_ok paths log \<and> device_tree ts (trees log)) (quietly k (Sys_close t))
      (\<lambda>_ log. mounting_ok paths log \<and> device_tree ts (trees log)) (mounting_ok paths)"
    by (rule spec_no_mount [OF stage_quietly]) simp
qed

lemma run_spec_fst: "run_spec P r (\<lambda>_. E) E \<Longrightarrow> P st \<Longrightarrow> E (fst (r st))"
  unfolding run_spec_def by (cases "r st") (auto split: sum.splits)

lemma run_spec_pre: "run_spec P r Q E \<Longrightarrow> (\<And>st. P' st \<Longrightarrow> P st) \<Longrightarrow> run_spec P' r Q E"
  by (erule run_spec_weaken)

lemma spec_bind_nodes:
  "run_spec (\<lambda>log. mounting_ok paths log \<and> device_tree ts (trees log))
     (for_each (bind_node k dev) (zip ts (map snd dev_nodes)))
     (\<lambda>_ log. mounting_ok paths log \<and> device_tree ts (trees log)) (mounting_ok paths)"
proof (rule run_spec_for_each)
  fix ds x es assume "zip ts (map snd dev_nodes) = ds @ x # es"
  then have x: "x \<in> set (zip ts (map snd dev_nodes))" by simp
  obtain t name where "x = (t, name)" by fastforce
  then show "run_spec (\<lambda>log. mounting_ok paths log \<and> device_tree ts (trees log)) (bind_node k dev x)
      (\<lambda>_ log. mounting_ok paths log \<and> device_tree ts (trees log)) (mounting_ok paths)"
    using x by (auto intro!: spec_bind_node dest: set_zip_rightD set_zip_leftD)
qed

lemma spec_private_dev: "run_spec (mounting_ok paths) (private_dev k) (\<lambda>_. mounting_ok paths) (mounting_ok paths)"
  unfolding private_dev_def
proof (rule run_spec_bind)
  show "run_spec (mounting_ok paths)
      (collect (\<lambda>(host, _). check k (Sys_open_tree AT_FDCWD host [OPEN_TREE_CLONE, O_CLOEXEC])) dev_nodes)
      (\<lambda>ts log. mounting_ok paths log \<and> device_tree ts (trees log)) (mounting_ok paths)"
    using spec_open_devices [of dev_nodes paths "[]" k] by (simp add: device_tree_def device_hosts_def)
  fix ts
  let ?P = "\<lambda>log. mounting_ok paths log \<and> device_tree ts (trees log)"
  have tmpfs: "run_spec ?P (check k (Sys_mount (Some ''tmpfs'') ''/dev'' (Some ''tmpfs'') [MS_NOSUID, MS_NOEXEC] (Some ''mode=0755,size=64k'')))
      (\<lambda>_. ?P) (mounting_ok paths)"
    by (rule spec_check) (simp_all add: tree_step_def)
  have dev: "run_spec ?P (check k (Sys_open ''/dev'' [O_PATH, O_DIRECTORY, O_CLOEXEC])) (\<lambda>_. ?P) (mounting_ok paths)"
    by (rule spec_no_mount [OF stage_check_plain]) simp
  have links: "stage no_mount [] (for_each (\<lambda>(target, name). bind_run (check k (Sys_symlinkat target dev name)) (\<lambda>_. done_with ())) dev_links)" for dev
    by (rule stage_for_each) (auto intro!: stage_skip_check stage_done)
  have links_ok: "run_spec ?P (for_each (\<lambda>(target, name). bind_run (check k (Sys_symlinkat target dev name)) (\<lambda>_. done_with ())) dev_links)
      (\<lambda>_. mounting_ok paths) (mounting_ok paths)" for dev
    by (rule run_spec_pre [OF spec_rest [OF links]]) simp
  have shm: "run_spec (mounting_ok paths) (check k (Sys_mount (Some ''tmpfs'') ''/dev/shm'' (Some ''tmpfs'') [MS_NOSUID, MS_NODEV] (Some ''mode=1777,size=64m'')))
      (\<lambda>_. mounting_ok paths) (mounting_ok paths)"
    by (rule spec_plain_check) simp
  have remount: "run_spec (mounting_ok paths) (check k (Sys_mount None ''/dev'' None [MS_REMOUNT, MS_BIND, MS_RDONLY, MS_NOSUID, MS_NOEXEC] None))
      (\<lambda>_. mounting_ok paths) (mounting_ok paths)"
    by (rule spec_plain_check) simp
  show "run_spec ?P
     (bind_run (check k (Sys_mount (Some ''tmpfs'') ''/dev'' (Some ''tmpfs'') [MS_NOSUID, MS_NOEXEC] (Some ''mode=0755,size=64k''))) (\<lambda>_.
     bind_run (check k (Sys_open ''/dev'' [O_PATH, O_DIRECTORY, O_CLOEXEC])) (\<lambda>dev.
     bind_run (for_each (bind_node k dev) (zip ts (map snd dev_nodes))) (\<lambda>_.
     bind_run (for_each (\<lambda>(target, name). bind_run (check k (Sys_symlinkat target dev name)) (\<lambda>_. done_with ())) dev_links) (\<lambda>_.
     bind_run (check k (Sys_mkdirat dev ''shm'')) (\<lambda>_.
     bind_run (quietly k (Sys_close dev)) (\<lambda>_.
     bind_run (check k (Sys_mount (Some ''tmpfs'') ''/dev/shm'' (Some ''tmpfs'') [MS_NOSUID, MS_NODEV] (Some ''mode=1777,size=64m''))) (\<lambda>_.
     bind_run (check k (Sys_mount None ''/dev'' None [MS_REMOUNT, MS_BIND, MS_RDONLY, MS_NOSUID, MS_NOEXEC] None)) (\<lambda>_.
     done_with ()))))))))) (\<lambda>_. mounting_ok paths) (mounting_ok paths)"
    by (rule run_spec_bind [OF tmpfs] run_spec_bind [OF dev] run_spec_bind [OF spec_bind_nodes]
        run_spec_bind [OF links_ok] run_spec_bind [OF shm] run_spec_bind [OF remount]
        run_spec_bind [OF spec_rest [OF stage_check_plain]] run_spec_bind [OF spec_rest [OF stage_quietly]]
        run_spec_done | simp)+
qed

lemma spec_view:
  "run_spec (mounting_ok (v_paths view)) (enter_read_only_view k view) (\<lambda>_. mounting_ok (v_paths view)) (mounting_ok (v_paths view))"
proof -
  let ?ok = "mounting_ok (v_paths view)"
  have own: "run_spec ?ok (check k (Sys_mount None ''/'' None [MS_REC, MS_PRIVATE] None)) (\<lambda>_. ?ok) ?ok"
    by (rule spec_plain_check) simp
  have read_only: "run_spec ?ok
      (check k (Sys_mount_setattr AT_FDCWD ''/'' [AT_RECURSIVE] [MOUNT_ATTR_RDONLY, MOUNT_ATTR_NODEV] [])) (\<lambda>_. ?ok) ?ok"
    by (rule spec_plain_check) simp
  have paths: "run_spec ?ok (for_each (bind_writable k) (v_paths view)) (\<lambda>_. ?ok) ?ok"
    by (rule run_spec_for_each [where P = "\<lambda>_. ?ok"]) (rule spec_bind_writable, simp)
  show ?thesis
    unfolding enter_read_only_view_def
    by (rule run_spec_bind [OF own] run_spec_bind [OF read_only] run_spec_bind [OF paths]
        run_spec_bind [OF spec_private_dev] run_spec_bind [OF spec_rest [OF stage_no_mount [OF stage_private_stdin]]]
        run_spec_bind [OF spec_rest [OF stage_check_plain]] run_spec_done | simp)+
qed

lemma spec_network_setup:
  "run_spec (mounting_ok (v_paths (j_view net))) (network_setup k net)
     (\<lambda>_. mounting_ok (v_paths (j_view net))) (mounting_ok (v_paths (j_view net)))"
  unfolding network_setup_def
  by (rule run_spec_bind [OF spec_rest [OF stage_no_mount [OF stage_namespaces]]] run_spec_bind [OF spec_view]
      run_spec_bind [OF spec_rest [OF stage_no_mount [OF stage_allow_dir]]]
      run_spec_bind [OF spec_rest [OF stage_no_mount [OF stage_channel]]]
      run_spec_bind [OF spec_rest [OF stage_no_mount [OF stage_close_extra]]]
      run_spec_bind [OF spec_rest [OF stage_no_mount [OF stage_restrict]]]
      run_spec_bind [OF spec_rest [OF stage_no_mount [OF stage_drop_capabilities]]]
      run_spec_bind [OF spec_rest [OF stage_no_mount [OF stage_seccomp]]]
      spec_rest [OF stage_no_mount [OF stage_pid]]
      run_spec_bind [OF spec_rest [OF stage_check_plain]] | simp)+

lemma spec_spawn:
  assumes "run_spec (mounting_ok paths) setup (\<lambda>_. mounting_ok paths) (mounting_ok paths)"
  shows "run_spec (mounting_ok paths) (spawn_child k job setup) (\<lambda>_. mounting_ok paths) (mounting_ok paths)"
proof -
  have report: "stage no_mount [] (case result of Inl e \<Rightarrow> report_error k job e | Inr _ \<Rightarrow> done_with ())"
    for result :: "errno + unit"
    by (intro stage_sum stage_no_mount [OF stage_report] stage_done)
  have calls: "stage no_mount [] (first_failing k
       [Sys_setpgid, Sys_dup2 (s_stdin job) 0, Sys_dup2 (s_stdout job) 1, Sys_dup2 (s_stderr job) 2,
        Sys_chdir (s_cwd job)])"
    by (rule stage_first_failing) simp
  show ?thesis
    unfolding spawn_child_def
    by (rule run_spec_bind [OF spec_rest [OF stage_no_mount [OF stage_reset]]] run_spec_bind [OF spec_rest [OF calls]]
        run_spec_bind [OF spec_rest [OF stage_no_mount [OF stage_failed]]] run_spec_bind [OF spec_catch [OF assms]]
        run_spec_bind [OF spec_rest [OF report]] run_spec_bind [OF spec_rest [OF stage_exec_search]]
        spec_rest [OF stage_no_mount [OF stage_report [where ps = "[]"]]]
        run_spec_bind [OF spec_rest [OF stage_quietly]] | simp)+
qed


end
