(* ===== verification/Spawn_Props.thy ===== *)
theory Spawn_Props
  imports Sandbox_Mounts
begin

text \<open>
  How the child of \<^verbatim>\<open>spawn\<close> ends, which is what its parent reads from the status pipe, and the search
  of the program, which follows \<^verbatim>\<open>execvp\<close>.
\<close>

section \<open>Ends of a run\<close>

definition ends :: "'a sysrun \<Rightarrow> (syslog \<Rightarrow> halt \<Rightarrow> bool) \<Rightarrow> bool" where
  "ends r H \<longleftrightarrow> (\<forall>log log' h. r log = (log', Inl h) \<longrightarrow> H log' h)"

lemma ends_bind: "ends r H \<Longrightarrow> (\<And>a. ends (f a) H) \<Longrightarrow> ends (bind_run r f) H"
  unfolding ends_def bind_run_def by (auto split: prod.splits sum.splits)

lemma ends_never:
  "ends (sys k c) H" "ends (quietly k c) H" "ends (done_with a) H" "ends (look f) H" "ends (sys_number k c) H"
  by (simp_all add: ends_def sys_def quietly_def bind_run_def done_with_def look_def sys_number_def Let_def)

lemma ends_stop: "(\<And>log. H log h) \<Longrightarrow> ends (stop h) H"
  by (simp add: ends_def stop_def)

lemma ends_cases:
  "(b \<Longrightarrow> ends r H) \<Longrightarrow> (\<not> b \<Longrightarrow> ends r' H) \<Longrightarrow> ends (if b then r else r') H"
  "(\<And>e. ends (f e) H) \<Longrightarrow> (\<And>v. ends (g v) H) \<Longrightarrow> ends (case x of Inl e \<Rightarrow> f e | Inr v \<Rightarrow> g v) H"
  "(\<And>c d. ends (h c d) H) \<Longrightarrow> ends (case y of (c, d) \<Rightarrow> h c d) H"
  by (simp, cases x, simp_all, cases y, simp)

lemma ends_for_each: "(\<And>x. ends (f x) H) \<Longrightarrow> ends (for_each f xs) H"
  by (induction xs) (simp_all add: ends_never ends_bind)

lemma ends_attempted: "ends r (\<lambda>log h. (\<exists>e. h = Os e) \<or> H log h) \<Longrightarrow> ends (attempted r) H"
  unfolding ends_def attempted_def by (fastforce split: prod.splits sum.splits halt.splits)

section \<open>The end of the child\<close>

text \<open>The program runs, or the errno of what failed is the last thing written, on the status pipe.\<close>

definition spawn_end :: "spawn_job \<Rightarrow> syslog \<Rightarrow> halt \<Rightarrow> bool" where
  "spawn_end job log h =
     (case h of
        Became program argv env \<Rightarrow>
          env = s_env job \<and>
          (program \<in> set (s_candidates job) \<and> argv = s_argv job \<or>
           program = ''/bin/sh'' \<and> (\<exists>c \<in> set (s_candidates job). argv = sh_argv job c))
      | Exited code \<Rightarrow>
          code = 127 \<and> log \<noteq> [] \<and>
          (case fst (last log) of Sys_report fd e \<Rightarrow> fd = s_status job | _ \<Rightarrow> False)
      | _ \<Rightarrow> False)"

lemma ends_report: "ends (report_error k job e) (spawn_end job)"
  by (simp add: ends_def report_error_def quietly_def bind_run_def sys_def done_with_def stop_def Let_def
      spawn_end_def)

lemma ends_exec_search:
  assumes "set programs \<subseteq> set (s_candidates job)"
  shows "ends (exec_search k job denied err programs) (spawn_end job)"
  using assms
proof (induction programs arbitrary: denied err)
  case Nil
  then show ?case by (simp add: ends_never)
next
  case (Cons program programs)
  have "ends (exec_one k job program) (spawn_end job)"
    unfolding exec_one_def exec_call_def
    by (intro ends_bind ends_never ends_cases ends_stop) (use Cons.prems in \<open>auto simp: spawn_end_def\<close>)
  with Cons show ?case by (auto simp: Let_def intro!: ends_bind ends_cases ends_never)
qed

lemma ends_first_failing: "ends (first_failing k cs) H"
  by (induction cs) (simp_all add: ends_never ends_bind ends_cases)

lemma ends_spawn:
  assumes "ends prep (\<lambda>log h. \<exists>e. h = Os e)"
  shows "ends (spawn_child k job prep) (spawn_end job)"
proof -
  have "ends (attempted prep) (spawn_end job)"
    by (rule ends_attempted) (use assms in \<open>auto simp: ends_def\<close>)
  then show ?thesis
    unfolding spawn_child_def reset_caught_handlers_def
    by (intro ends_bind ends_for_each ends_never ends_cases ends_first_failing ends_report ends_exec_search order_refl) assumption
qed

lemma spawn_never_returns: "snd (spawn_child k job prep log) \<noteq> Inr a"
proof -
  have stops: "snd (report_error k job e l) \<noteq> Inr b" for e l and b :: unit
    by (simp add: report_error_def quietly_def bind_run_def sys_def done_with_def stop_def Let_def)
  have last: "snd (bind_run r f l) \<noteq> Inr b" if "\<And>x l. snd (f x l) \<noteq> Inr b" for r :: "'x sysrun" and f l and b :: unit
    using that by (auto simp: bind_run_def split: prod.splits sum.splits)
  show ?thesis
    unfolding spawn_child_def by (intro last stops)
qed


definition refusing :: kern where
  "refusing = granting\<lparr>k_answer := (\<lambda>log c. case c of Sys_execve _ _ _ \<Rightarrow> Inl ENOENT | _ \<Rightarrow> Inr 0)\<rparr>"


section \<open>The search of the program\<close>

text \<open>
  What \<^verbatim>\<open>execvp\<close> reports for the errnos of its tries: the first that is not about the path, else
  \<^verbatim>\<open>EACCES\<close> if any try had it, else the last.
\<close>

definition execvp_error :: "errno list \<Rightarrow> errno" where
  "execvp_error es =
     (case find (\<lambda>e. \<not> try_next_candidate e) es of
        Some e \<Rightarrow> e
      | None \<Rightarrow> if EACCES \<in> set es then EACCES else last (ENOENT # es))"

definition one_error :: "(bytes \<Rightarrow> bytes list \<Rightarrow> errno) \<Rightarrow> spawn_job \<Rightarrow> bytes \<Rightarrow> errno" where
  "one_error fails job program =
     (let e = fails program (s_argv job)
      in if e = ENOEXEC then fails ''/bin/sh'' (sh_argv job program) else e)"

lemma try_next_EACCES [simp]: "try_next_candidate EACCES" "try_next_candidate ENOENT"
  by (simp_all add: try_next_candidate_def)

lemma exec_search_from:
  assumes "\<And>log p a e. k_answer k log (Sys_execve p a e) = Inl (fails p a)"
  shows "snd (exec_search k job denied err programs log) =
    Inr (let es = map (one_error fails job) programs
         in case find (\<lambda>e. \<not> try_next_candidate e) es of
              Some e \<Rightarrow> e
            | None \<Rightarrow> if (denied \<and> try_next_candidate err \<or> denied \<and> es \<noteq> []) \<or> EACCES \<in> set es then EACCES
                else last (err # es))"
proof (induction programs arbitrary: denied err log)
  case Nil
  then show ?case by (simp add: done_with_def Let_def)
next
  case (Cons program programs)
  have "\<exists>log'. exec_one k job program log = (log', Inr (one_error fails job program))"
    by (auto simp: exec_one_def exec_call_def bind_run_def sys_def done_with_def Let_def assms one_error_def)
  then obtain log' where "exec_one k job program log = (log', Inr (one_error fails job program))" ..
  then show ?case
    using Cons by (auto simp: bind_run_def Let_def done_with_def split: option.split)
qed



end
