(* ===== verification/Workspace_Net.thy ===== *)
theory Workspace_Net
  imports Spawn_Props Sandbox_Fds Ops_File
begin

text \<open>
  The temporary directories and the outbound network of a workspace's holder process:
  \<^verbatim>\<open>PrivateTemp\<close>, \<^verbatim>\<open>Egress\<close>, the pasta monitor and their helpers in
  \<^verbatim>\<open>crates/world-runtime/src/linux.rs\<close>. The buffers that the code fills without allocating are
  lists of the same length.
\<close>

section \<open>Where /var/tmp is\<close>

text \<open>What the host's file system answers about a path.\<close>

record host_paths =
  hp_lstat :: "bytes \<Rightarrow> errno option"
  hp_canonical :: "bytes \<Rightarrow> errno + bytes"
  hp_is_dir :: "bytes \<Rightarrow> bool"

datatype var_tmp = Var_absent | Var_same | Var_outside bytes | Var_inside "bytes list"

text \<open>\<^verbatim>\<open>Path::strip_prefix\<close> of canonical paths, as the names that are left.\<close>

fun normal_names :: "component list \<Rightarrow> bytes list" where
  "normal_names [] = []"
| "normal_names (Normal n # cs) = n # normal_names cs"
| "normal_names (c # cs) = normal_names cs"

definition strip_path :: "bytes \<Rightarrow> bytes \<Rightarrow> bytes list option" where
  "strip_path p base =
     (if path_starts_with p base then Some (normal_names (drop (length (components base)) (components p))) else None)"

definition var_tmp_placement :: "host_paths \<Rightarrow> bytes \<Rightarrow> bytes \<Rightarrow> halt + var_tmp" where
  "var_tmp_placement host var_tmp tmp =
     (case hp_lstat host var_tmp of
        Some e \<Rightarrow> if e = ENOENT then Inr Var_absent else Inl (Os e)
      | None \<Rightarrow>
          (case hp_canonical host var_tmp of
             Inl e \<Rightarrow> Inl (Os e)
           | Inr target \<Rightarrow>
               if \<not> hp_is_dir host target then Inl (Refused ''host /var/tmp is not a directory'')
               else case hp_canonical host tmp of
                 Inl e \<Rightarrow> Inl (Os e)
               | Inr real_tmp \<Rightarrow>
                   (case strip_path target real_tmp of
                      Some rest \<Rightarrow> Inr (if rest = [] then Var_same else Var_inside rest)
                    | None \<Rightarrow> Inr (Var_outside target))))"

record private_temp =
  pt_tmp :: bytes
  pt_var_tmp :: bytes
  pt_outside :: "bytes option"
  pt_inside :: "bytes list"

definition new_private_temp :: "host_paths \<Rightarrow> bytes \<Rightarrow> halt + private_temp" where
  "new_private_temp host root =
     (case var_tmp_placement host ''/var/tmp'' ''/tmp'' of
        Inl h \<Rightarrow> Inl h
      | Inr place \<Rightarrow>
          (let outside = (case place of Var_outside target \<Rightarrow> Some target | _ \<Rightarrow> None);
               inside = (case place of Var_inside names \<Rightarrow> names | _ \<Rightarrow> []);
               tmp = join_path root ''tmp'';
               var = join_path root ''var/tmp''
           in if list_ex has_nul ((case outside of None \<Rightarrow> [] | Some t \<Rightarrow> [t]) @ inside @ [tmp, var])
              then Inl (Refused ''path contains NUL'')
              else Inr \<lparr>pt_tmp = tmp, pt_var_tmp = var, pt_outside = outside, pt_inside = inside\<rparr>))"

section \<open>Paths written without allocation\<close>

text \<open>The digits of a \<^verbatim>\<open>u32\<close>, least significant first, in at most ten rounds.\<close>

fun digits_of :: "nat \<Rightarrow> u32 \<Rightarrow> bytes" where
  "digits_of 0 v = []"
| "digits_of (Suc n) v =
     char_of (48 + unat (v mod 10)) # (if v div 10 = 0 then [] else digits_of n (v div 10))"

definition format_path :: "bytes \<Rightarrow> u32 \<Rightarrow> bytes \<Rightarrow> bytes res" where
  "format_path prefix v suffix =
     (let digits = digits_of 10 v;
          used = length prefix + length digits + length suffix
      in if used \<le> 48 then Ok (prefix @ rev digits @ suffix @ replicate (48 - used) nul) else Abort Panic)"

definition fd_path :: "u32 \<Rightarrow> bytes" where
  "fd_path fd =
     (let text = ''/proc/self/fd/'' @ rev (digits_of 10 fd) in text @ replicate (32 - length text) nul)"

text \<open>\<^verbatim>\<open>CStr::from_bytes_until_nul\<close>.\<close>

definition until_nul :: "bytes \<Rightarrow> bytes option" where
  "until_nul buf = (if nul \<in> set buf then Some (takeWhile (\<lambda>b. b \<noteq> nul) buf) else None)"

section \<open>Entering the private directories\<close>

definition bind_mount :: "kern \<Rightarrow> bytes \<Rightarrow> bytes \<Rightarrow> unit sysrun" where
  "bind_mount k source target =
     bind_run (check k (Sys_mount (Some source) target None [MS_BIND] None)) (\<lambda>_. done_with ())"

definition walk_flags :: "flag list" where
  "walk_flags = [O_PATH, O_DIRECTORY, O_NOFOLLOW, O_CLOEXEC]"

fun walk_inside :: "kern \<Rightarrow> fd \<Rightarrow> bytes list \<Rightarrow> fd sysrun" where
  "walk_inside k dir [] = done_with dir"
| "walk_inside k dir (name # names) =
     bind_run (sys k (Sys_mkdirat dir name)) (\<lambda>made.
     case made of
       Inl e \<Rightarrow> if e \<noteq> EEXIST then stop (Os e)
         else bind_run (check k (Sys_openat dir name walk_flags)) (\<lambda>sub. walk_inside k sub names)
     | Inr _ \<Rightarrow> bind_run (check k (Sys_openat dir name walk_flags)) (\<lambda>sub. walk_inside k sub names))"

definition enter_private_temp :: "kern \<Rightarrow> private_temp \<Rightarrow> unit sysrun" where
  "enter_private_temp k temp =
     bind_run (check k (Sys_unshare [CLONE_NEWNS])) (\<lambda>_.
     bind_run (check k (Sys_mount None ''/'' None [MS_REC, MS_SLAVE] None)) (\<lambda>_.
     bind_run (case pt_outside temp of None \<Rightarrow> done_with () | Some target \<Rightarrow> bind_mount k (pt_var_tmp temp) target) (\<lambda>_.
     bind_run (bind_mount k (pt_tmp temp) ''/tmp'') (\<lambda>_.
     if pt_inside temp = [] then done_with ()
     else bind_run (check k (Sys_open ''/tmp'' walk_flags)) (\<lambda>tmp.
          bind_run (walk_inside k tmp (pt_inside temp)) (\<lambda>dir.
          bind_mount k (pt_var_tmp temp) (the (until_nul (fd_path (word_of_int dir))))))))))"

section \<open>The resolver\<close>

definition is_space :: "byte \<Rightarrow> bool" where
  "is_space b = (b = CHR '' '' \<or> between (CHR 0x09) (CHR 0x0D) b)"

text \<open>\<^verbatim>\<open>split_whitespace\<close>, on text whose white space is ASCII.\<close>

definition words :: "bytes \<Rightarrow> bytes list" where
  "words s = filter (\<lambda>w. w \<noteq> []) (split_on (CHR '' '') (map (\<lambda>b. if is_space b then CHR '' '' else b) s))"

definition resolver_line :: "bytes \<Rightarrow> bool" where
  "resolver_line line =
     (case words line of [] \<Rightarrow> False | w # _ \<Rightarrow> w \<in> {''search'', ''domain'', ''options''})"

definition DNS_FORWARD :: bytes where
  "DNS_FORWARD = ''169.254.1.1''"

definition resolv_conf :: "bytes \<Rightarrow> bytes" where
  "resolv_conf host =
     push_lines (filter resolver_line (text_lines host)) @ ''nameserver '' @ DNS_FORWARD @ [newline]"

definition bind_resolv :: "kern \<Rightarrow> bytes \<Rightarrow> unit sysrun" where
  "bind_resolv k resolv = bind_mount k resolv ''/etc/resolv.conf''"

definition heal_resolv :: "kern \<Rightarrow> bytes \<Rightarrow> int \<times> int \<Rightarrow> unit sysrun" where
  "heal_resolv k resolv own =
     bind_run (sys_meta k (Sys_stat ''/etc/resolv.conf'')) (\<lambda>(r, stat).
     if r = Inr 0 \<and> (m_dev stat, m_ino stat) \<noteq> own
     then bind_run (attempted (bind_resolv k resolv)) (\<lambda>_. done_with ())
     else done_with ())"

section \<open>Whether the network is there\<close>

text \<open>Reading a file into a buffer of \<open>cap\<close> bytes.\<close>

function read_loop :: "kern \<Rightarrow> fd \<Rightarrow> nat \<Rightarrow> bytes \<Rightarrow> syslog \<Rightarrow> syslog \<times> bytes" where
  "read_loop k fd cap acc log =
     (if cap \<le> length acc then (log, acc)
      else let call = Sys_read fd (cap - length acc);
               r = k_answer k log call;
               got = map (byte_at (k_bytes k log call)) [0..<min (case r of Inl _ \<Rightarrow> 0 | Inr n \<Rightarrow> nat n) (cap - length acc)]
           in if got = [] then (log @ [(call, r)], acc) else read_loop k fd cap (acc @ got) (log @ [(call, r)]))"
  by auto
termination
  by (relation "measure (\<lambda>(k, fd, cap, acc, log). cap - length acc)") (auto simp: Let_def)

declare read_loop.simps [simp del]

definition read_raw :: "kern \<Rightarrow> bytes \<Rightarrow> nat \<Rightarrow> bytes sysrun" where
  "read_raw k path cap =
     bind_run (sys k (Sys_open path [O_RDONLY, O_CLOEXEC])) (\<lambda>r.
     case r of
       Inl e \<Rightarrow> done_with []
     | Inr fd \<Rightarrow>
         bind_run (\<lambda>log. (case read_loop k fd cap [] log of (log', s) \<Rightarrow> (log', Inr s))) (\<lambda>s.
         bind_run (quietly k (Sys_close fd)) (\<lambda>_. done_with s)))"

definition configured_v4 :: "bytes \<Rightarrow> bool" where
  "configured_v4 table =
     list_ex (\<lambda>line.
       case filter (\<lambda>f. f \<noteq> []) (split_on (CHR '' '') (map (\<lambda>b. if b = CHR 0x09 then CHR '' '' else b) line)) of
         [] \<Rightarrow> False
       | iface # _ \<Rightarrow> iface \<noteq> ''lo'')
       (drop 1 (split_on newline table))"

definition field_at :: "bytes list \<Rightarrow> nat \<Rightarrow> bytes" where
  "field_at fs i = (if i < length fs then fs ! i else [])"

definition configured_v6 :: "bytes \<Rightarrow> bool" where
  "configured_v6 table =
     list_ex (\<lambda>line.
       let fields = filter (\<lambda>f. f \<noteq> []) (split_on (CHR '' '') line)
       in field_at fields 9 \<noteq> [] \<and> field_at fields 9 \<noteq> ''lo'' \<and>
          \<not> starts_with (field_at fields 0) ''fe80'' \<and> \<not> starts_with (field_at fields 0) ''ff'')
       (split_on newline table)"

definition network_configured :: "kern \<Rightarrow> bool sysrun" where
  "network_configured k =
     bind_run (read_raw k ''/proc/self/net/route'' 16384) (\<lambda>v4.
     if configured_v4 v4 then done_with True
     else bind_run (read_raw k ''/proc/self/net/ipv6_route'' 16384) (\<lambda>v6. done_with (configured_v6 v6)))"

section \<open>pasta\<close>

fun await_network :: "nat \<Rightarrow> kern \<Rightarrow> pid \<Rightarrow> unit sysrun" where
  "await_network 0 k child = stop (Os ENETDOWN)"
| "await_network (Suc n) k child =
     bind_run (network_configured k) (\<lambda>ready.
     if ready then done_with ()
     else bind_run (sys k (Sys_waitpid child [WNOHANG])) (\<lambda>r.
          if r = Inr child then stop (Os ENETDOWN)
          else bind_run (quietly k (Sys_nanosleep 20)) (\<lambda>_. await_network n k child)))"

definition start_pasta :: "kern \<Rightarrow> pid \<Rightarrow> fd \<Rightarrow> unit sysrun" where
  "start_pasta k child life =
     bind_run (sys k (Sys_write life [CHR 0x01])) (\<lambda>r.
     if r \<noteq> Inr 1 then stop (Os ENETDOWN) else await_network 250 k child)"

record egress =
  eg_program :: bytes
  eg_args :: "bytes list"
  eg_resolv :: bytes

definition pasta_args :: "bytes list" where
  "pasta_args =
     [''pasta'', ''--foreground'', ''--quiet'', ''--config-net'', ''--no-map-gw'', ''-t'', ''none'', ''-u'', ''none'',
      ''-T'', ''none'', ''-U'', ''none'', ''--dns-forward'', DNS_FORWARD, ''--no-netns-quit'', ''--userns'', ''--netns'']"

definition pasta_argv :: "egress \<Rightarrow> bytes \<Rightarrow> bytes \<Rightarrow> bytes list" where
  "pasta_argv eg user net =
     take (length (eg_args eg) - 2) (eg_args eg) @
     [eg_args eg ! (length (eg_args eg) - 2), user, eg_args eg ! (length (eg_args eg) - 1), net]"

text \<open>\<^verbatim>\<open>write_all\<close>: a short write goes on with the rest, an interrupted one is repeated.\<close>

fun write_rounds :: "nat \<Rightarrow> kern \<Rightarrow> fd \<Rightarrow> bytes \<Rightarrow> unit sysrun" where
  "write_rounds 0 k fd s = (if s = [] then done_with () else stop Stuck)"
| "write_rounds (Suc n) k fd s =
     (if s = [] then done_with ()
      else bind_run (sys k (Sys_write fd s)) (\<lambda>r.
        case r of
          Inl e \<Rightarrow> if e = EINTR then write_rounds n k fd s else stop (Os e)
        | Inr m \<Rightarrow>
            if m = 0 then stop (Refused ''failed to write whole buffer'')
            else write_rounds n k fd (drop (nat m) s)))"

definition write_all :: "kern \<Rightarrow> fd \<Rightarrow> bytes \<Rightarrow> unit sysrun" where
  "write_all k fd s = write_rounds (k_patience k + length s) k fd s"

definition write_resolv :: "kern \<Rightarrow> bytes \<Rightarrow> unit sysrun" where
  "write_resolv k path =
     bind_run (sys_bytes k (Sys_readfile ''/etc/resolv.conf'')) (\<lambda>(r, host).
     let content = resolv_conf (case r of Inl _ \<Rightarrow> [] | Inr _ \<Rightarrow> host)
     in bind_run (sys_bytes k (Sys_readfile path)) (\<lambda>(r, current).
        if (case r of Inl _ \<Rightarrow> False | Inr _ \<Rightarrow> current = content) then done_with ()
        else bind_run (check k (Sys_open path [O_WRONLY, O_CREAT, O_NOFOLLOW, O_CLOEXEC])) (\<lambda>fd.
             bind_run (attempted
               (bind_run (check k (Sys_lseek fd 0)) (\<lambda>_.
                bind_run (write_all k fd content) (\<lambda>_.
                bind_run (check k (Sys_ftruncate fd (int (length content)))) (\<lambda>_. done_with ()))))) (\<lambda>r.
             bind_run (quietly k (Sys_close fd)) (\<lambda>_.
             case r of Inl e \<Rightarrow> stop (Os e) | Inr _ \<Rightarrow> done_with ())))))"

definition with_program :: "kern \<Rightarrow> bytes \<Rightarrow> bytes \<Rightarrow> egress sysrun" where
  "with_program k root program =
     bind_run (write_resolv k (join_path root ''resolv.conf'')) (\<lambda>_.
     if has_nul program \<or> has_nul root then stop (Refused ''path contains NUL'')
     else done_with \<lparr>eg_program = program, eg_args = pasta_args, eg_resolv = join_path root ''resolv.conf''\<rparr>)"

text \<open>The executables and the environment that the search of pasta sees.\<close>

record pasta_env =
  pe_executable :: "bytes \<Rightarrow> bool"
  pe_chosen :: "bytes option"
  pe_path :: "bytes option"
  pe_absolute :: "bytes \<Rightarrow> errno + bytes"

definition find_pasta :: "pasta_env \<Rightarrow> halt + bytes option" where
  "find_pasta env =
     (case pe_chosen env of
        Some chosen \<Rightarrow>
          if chosen = [] then Inr None
          else if \<not> pe_executable env chosen then Inl (Refused ''WORLD_PASTA is not an executable'')
          else (case pe_absolute env chosen of Inl e \<Rightarrow> Inl (Os e) | Inr p \<Rightarrow> Inr (Some p))
      | None \<Rightarrow>
          Inr (find (pe_executable env)
            (map (\<lambda>dir. join_path dir ''pasta'')
              (filter is_absolute
                (split_on (CHR '':'') (case pe_path env of None \<Rightarrow> [] | Some p \<Rightarrow> p) @
                 [''/usr/bin'', ''/usr/local/bin'', ''/bin'', ''/usr/sbin''])))))"

definition new_egress :: "kern \<Rightarrow> pasta_env \<Rightarrow> bytes \<Rightarrow> egress option sysrun" where
  "new_egress k env root =
     (case find_pasta env of
        Inl h \<Rightarrow> stop h
      | Inr None \<Rightarrow> done_with None
      | Inr (Some program) \<Rightarrow> bind_run (with_program k root program) (\<lambda>eg. done_with (Some eg)))"

text \<open>The monitor, which never returns.\<close>

definition wait_life :: "kern \<Rightarrow> bool sysrun" where
  "wait_life k = bind_run (retry k (Sys_read 3 1)) (\<lambda>r. done_with (r = Inr 1))"

fun watch_pasta :: "nat \<Rightarrow> kern \<Rightarrow> pid \<Rightarrow> 'a sysrun" where
  "watch_pasta 0 k pasta = stop Stuck"
| "watch_pasta (Suc n) k pasta =
     bind_run (sys k (Sys_poll 3)) (\<lambda>r.
     bind_run (case r of Inr ready \<Rightarrow> if 0 < ready then bind_run (wait_life k) (\<lambda>b. done_with (\<not> b)) else done_with False
               | Inl _ \<Rightarrow> done_with False) (\<lambda>ended.
     if ended
     then bind_run (quietly k (Sys_kill pasta SIGKILL)) (\<lambda>_.
          bind_run (retry k (Sys_waitpid pasta [])) (\<lambda>_. stop (Exited 0)))
     else bind_run (sys k (Sys_waitpid pasta [WNOHANG])) (\<lambda>w.
          if w = Inr pasta then stop (Exited 1) else watch_pasta n k pasta)))"

definition pasta_monitor :: "kern \<Rightarrow> egress \<Rightarrow> bytes \<Rightarrow> bytes \<Rightarrow> fd \<Rightarrow> fd \<Rightarrow> 'a sysrun" where
  "pasta_monitor k eg user net life holder_end =
     bind_run (quietly k (Sys_set_name ''world-pasta'')) (\<lambda>_.
     bind_run (quietly k (Sys_close holder_end)) (\<lambda>_.
     bind_run (sys k (Sys_fcntl life F_DUPFD 10)) (\<lambda>life.
     bind_run (sys k (Sys_open ''/dev/null'' [O_RDWR])) (\<lambda>null.
     case (life, null) of
       (Inr life, Inr null) \<Rightarrow>
         bind_run (first_failing k [Sys_dup2 null 0, Sys_dup2 null 1, Sys_dup2 null 2, Sys_dup2 life 3]) (\<lambda>failed.
         if failed then stop (Exited 127)
         else bind_run (attempted (close_from k 4)) (\<lambda>closed.
           case closed of
             Inl _ \<Rightarrow> stop (Exited 127)
           | Inr _ \<Rightarrow>
               bind_run (wait_life k) (\<lambda>go.
               if \<not> go then stop (Exited 0)
               else bind_run (sys k Sys_fork) (\<lambda>pasta.
                 case pasta of
                   Inl _ \<Rightarrow> stop (Exited 1)
                 | Inr p \<Rightarrow>
                     if p = 0
                     then bind_run (quietly k (Sys_close 3)) (\<lambda>_.
                          bind_run (sys k (Sys_execve (eg_program eg) (pasta_argv eg user net) [])) (\<lambda>r.
                          stop (case r of Inr _ \<Rightarrow> Became (eg_program eg) (pasta_argv eg user net) [] | Inl _ \<Rightarrow> Exited 127)))
                     else watch_pasta (k_patience k) k p))))
     | _ \<Rightarrow> stop (Exited 127)))))"

definition fork_pasta :: "kern \<Rightarrow> egress \<Rightarrow> pid \<Rightarrow> (pid \<times> fd) sysrun" where
  "fork_pasta k eg holder =
     (case (format_path ''/proc/'' (word_of_int holder) ''/ns/user'', format_path ''/proc/'' (word_of_int holder) ''/ns/net'') of
        (Ok user, Ok net) \<Rightarrow>
          bind_run (sys_number k (Sys_pipe2 [O_CLOEXEC])) (\<lambda>(r, life1).
          bind_run (ok_or r) (\<lambda>life0.
          bind_run (sys k Sys_fork) (\<lambda>monitor.
          case monitor of
            Inl e \<Rightarrow>
              bind_run (quietly k (Sys_close life0)) (\<lambda>_.
              bind_run (quietly k (Sys_close life1)) (\<lambda>_. stop (Os e)))
          | Inr p \<Rightarrow>
              if p = 0 then pasta_monitor k eg (the (until_nul user)) (the (until_nul net)) life0 life1
              else bind_run (quietly k (Sys_close life0)) (\<lambda>_. done_with (p, life1)))))
      | _ \<Rightarrow> stop Stuck)"

definition finish_monitor :: "kern \<Rightarrow> pid \<Rightarrow> fd \<Rightarrow> unit sysrun" where
  "finish_monitor k monitor life =
     bind_run (quietly k (Sys_close life)) (\<lambda>_.
     bind_run (retry k (Sys_waitpid monitor [])) (\<lambda>_. done_with ()))"

end
