(* ===== verification/Holder.thy ===== *)
theory Holder
  imports Workspace_Net
begin

text \<open>
  The process that holds a workspace's namespaces: its record \<^verbatim>\<open>Holder\<close>, the checks that it is still the
  process recorded, its start, its end and its whole life, in \<^verbatim>\<open>crates/world-runtime/src/linux.rs\<close>.

  A \<^verbatim>\<open>u32\<close> PID and a start time are integers. Descriptors that go out of scope are closed without a
  call in the log, but for the acknowledgment socket, whose closing is what the holder waits for.
\<close>

section \<open>Records and process status\<close>

record holder =
  h_pid :: int
  h_start :: int
  h_user :: int
  h_net :: int
  h_mnt :: "int option"
  h_egress :: bool
  h_monitor :: "(int \<times> int) option"

record namespaces =
  n_user :: fd
  n_net :: fd
  n_mnt :: "fd option"

definition proc_path :: "int \<Rightarrow> bytes \<Rightarrow> bytes" where
  "proc_path pid name = ''/proc/'' @ show_radix 10 (nat pid) @ name"

text \<open>\<^verbatim>\<open>rsplit_once(')')\<close>, and the fields after the command name.\<close>

definition after_comm :: "bytes \<Rightarrow> bytes option" where
  "after_comm stat = (case rposition (CHR '')'') stat of None \<Rightarrow> None | Some i \<Rightarrow> Some (drop (Suc i) stat))"

definition start_field :: "bytes \<Rightarrow> int option" where
  "start_field rest =
     (if 19 < length (words rest) then map_option int (from_str_radix 64 10 (words rest ! 19)) else None)"

definition stat_start :: "bytes \<Rightarrow> int option" where
  "stat_start stat = (case after_comm stat of None \<Rightarrow> None | Some rest \<Rightarrow> start_field rest)"

text \<open>The same of a process that runs: the state \<^verbatim>\<open>Z\<close> is a zombie.\<close>

definition stat_live :: "bytes \<Rightarrow> halt + int option" where
  "stat_live stat =
     (case after_comm stat of
        None \<Rightarrow> Inl (Refused ''parse process stat'')
      | Some rest \<Rightarrow>
          if starts_with (dropWhile is_space rest) ''Z'' then Inr None
          else case start_field rest of
            None \<Rightarrow> Inl (Refused ''parse process start time'')
          | Some t \<Rightarrow> Inr (Some t))"

definition gone :: "errno \<Rightarrow> bool" where
  "gone e = (e = ENOENT \<or> e = ESRCH)"

definition live_start_time :: "kern \<Rightarrow> int \<Rightarrow> int option sysrun" where
  "live_start_time k pid =
     bind_run (sys_bytes k (Sys_readfile (proc_path pid ''/stat''))) (\<lambda>(r, stat).
     case r of
       Inl e \<Rightarrow> if gone e then done_with None else stop (Os e)
     | Inr _ \<Rightarrow> (case stat_live stat of Inl h \<Rightarrow> stop h | Inr t \<Rightarrow> done_with t))"

text \<open>The error of \<^verbatim>\<open>start_time\<close> is looked at, so it is a value.\<close>

definition start_time :: "kern \<Rightarrow> int \<Rightarrow> (halt + int) sysrun" where
  "start_time k pid =
     bind_run (sys_bytes k (Sys_readfile (proc_path pid ''/stat''))) (\<lambda>(r, stat).
     done_with (case r of
         Inl e \<Rightarrow> Inl (Os e)
       | Inr _ \<Rightarrow> (case stat_start stat of None \<Rightarrow> Inl (Refused ''parse process start time'') | Some t \<Rightarrow> Inr t)))"

definition inode_of :: "kern \<Rightarrow> bytes \<Rightarrow> int sysrun" where
  "inode_of k path =
     bind_run (sys_meta k (Sys_stat path)) (\<lambda>(r, stat).
     case r of Inl e \<Rightarrow> stop (Os e) | Inr _ \<Rightarrow> done_with (m_ino stat))"

definition observe :: "kern \<Rightarrow> int \<Rightarrow> holder sysrun" where
  "observe k pid =
     bind_run (start_time k pid) (\<lambda>t.
     case t of
       Inl h \<Rightarrow> stop h
     | Inr start \<Rightarrow>
         bind_run (inode_of k (proc_path pid ''/ns/user'')) (\<lambda>user.
         bind_run (inode_of k (proc_path pid ''/ns/net'')) (\<lambda>net.
         bind_run (inode_of k (proc_path pid ''/ns/mnt'')) (\<lambda>mnt.
         done_with \<lparr>h_pid = pid, h_start = start, h_user = user, h_net = net, h_mnt = Some mnt,
           h_egress = False, h_monitor = None\<rparr>))))"

section \<open>Pinning and reaping\<close>

definition open_pidfd :: "kern \<Rightarrow> int \<Rightarrow> fd sysrun" where
  "open_pidfd k pid =
     bind_run (check k (Sys_pidfd_open pid)) (\<lambda>fd.
     if 2 < fd then done_with fd
     else bind_run (sys k (Sys_fcntl fd F_DUPFD_CLOEXEC 3)) (\<lambda>r.
          case r of Inl _ \<Rightarrow> done_with fd | Inr moved \<Rightarrow> done_with moved))"

definition reap_if_child :: "kern \<Rightarrow> fd option \<Rightarrow> unit sysrun" where
  "reap_if_child k pidfd =
     (case pidfd of
        None \<Rightarrow> done_with ()
      | Some fd \<Rightarrow> bind_run (retry k (Sys_waitid_pidfd fd [WEXITED])) (\<lambda>_. done_with ()))"

definition reap_monitor :: "kern \<Rightarrow> holder \<Rightarrow> unit sysrun" where
  "reap_monitor k h =
     (case h_monitor h of
        None \<Rightarrow> done_with ()
      | Some (pid, started) \<Rightarrow>
          bind_run (attempted (open_pidfd k pid)) (\<lambda>r.
          case r of
            Inl _ \<Rightarrow> done_with ()
          | Inr pidfd \<Rightarrow>
              bind_run (start_time k pid) (\<lambda>t.
              if t \<noteq> Inr started then done_with () else reap_if_child k (Some pidfd))))"

definition reap_stale_holder :: "kern \<Rightarrow> holder \<Rightarrow> unit sysrun" where
  "reap_stale_holder k h =
     bind_run (reap_monitor k h) (\<lambda>_.
     bind_run (attempted (open_pidfd k (h_pid h))) (\<lambda>r.
     case r of
       Inl _ \<Rightarrow> done_with ()
     | Inr pidfd \<Rightarrow>
         bind_run (start_time k (h_pid h)) (\<lambda>t.
         if t \<noteq> Inr (h_start h) then done_with ()
         else bind_run (retry k (Sys_waitid_pidfd pidfd [WEXITED, WNOHANG])) (\<lambda>_. done_with ()))))"

definition pasta_running :: "kern \<Rightarrow> holder \<Rightarrow> bool sysrun" where
  "pasta_running k h =
     (case h_monitor h of
        None \<Rightarrow> done_with False
      | Some (pid, started) \<Rightarrow> bind_run (live_start_time k pid) (\<lambda>t. done_with (t = Some started)))"

definition legacy :: "holder \<Rightarrow> bool" where
  "legacy h = (h_mnt h = None)"

section \<open>Whether a holder is still the one recorded\<close>

definition open_ns :: "kern \<Rightarrow> int \<Rightarrow> bytes \<Rightarrow> int \<Rightarrow> fd option sysrun" where
  "open_ns k pid kind expected =
     bind_run (sys k (Sys_open (proc_path pid (''/ns/'' @ kind)) [O_RDONLY, O_CLOEXEC])) (\<lambda>r.
     case r of
       Inl e \<Rightarrow> if gone e then done_with None else stop (Os e)
     | Inr fd \<Rightarrow>
         bind_run (sys_meta k (Sys_fstat fd)) (\<lambda>(r, stat).
         case r of
           Inl e \<Rightarrow> stop (Os e)
         | Inr _ \<Rightarrow> done_with (if m_ino stat = expected then Some fd else None)))"

definition verify :: "kern \<Rightarrow> holder \<Rightarrow> namespaces option sysrun" where
  "verify k h =
     bind_run (open_ns k (h_pid h) ''user'' (h_user h)) (\<lambda>user.
     case user of None \<Rightarrow> done_with None | Some user \<Rightarrow>
     bind_run (open_ns k (h_pid h) ''net'' (h_net h)) (\<lambda>net.
     case net of None \<Rightarrow> done_with None | Some net \<Rightarrow>
     bind_run (case h_mnt h of
         None \<Rightarrow> done_with (Some None)
       | Some expected \<Rightarrow> bind_run (open_ns k (h_pid h) ''mnt'' expected) (\<lambda>mnt. done_with (map_option Some mnt))) (\<lambda>mnt.
     case mnt of None \<Rightarrow> done_with None | Some mnt \<Rightarrow>
     bind_run (start_time k (h_pid h)) (\<lambda>t.
     case t of
       Inr time \<Rightarrow>
         done_with (if time = h_start h then Some \<lparr>n_user = user, n_net = net, n_mnt = mnt\<rparr> else None)
     | Inl (Os e) \<Rightarrow> if gone e then done_with None else stop (Os e)
     | Inl err \<Rightarrow> stop err))))"

definition open_holder :: "kern \<Rightarrow> holder \<Rightarrow> namespaces sysrun" where
  "open_holder k h =
     bind_run (verify k h) (\<lambda>v.
     case v of None \<Rightarrow> stop (Refused ''World namespace holder is no longer running'') | Some ns \<Rightarrow> done_with ns)"

text \<open>Whether the directories it has mounted are still those of the root.\<close>

definition same_dir :: "kern \<Rightarrow> bytes \<Rightarrow> bytes \<Rightarrow> bool sysrun" where
  "same_dir k seen own =
     bind_run (sys_meta k (Sys_stat seen)) (\<lambda>(r1, a).
     bind_run (sys_meta k (Sys_stat own)) (\<lambda>(r2, b).
     done_with (case (r1, r2) of (Inr _, Inr _) \<Rightarrow> m_dev a = m_dev b \<and> m_ino a = m_ino b | _ \<Rightarrow> False)))"

definition temp_is :: "kern \<Rightarrow> host_paths \<Rightarrow> holder \<Rightarrow> bytes \<Rightarrow> bool sysrun" where
  "temp_is k host h root =
     (let var_mounted =
        (case var_tmp_placement host ''/var/tmp'' ''/tmp'' of
           Inr (Var_outside _) \<Rightarrow> True | Inr (Var_inside _) \<Rightarrow> True | _ \<Rightarrow> False)
      in bind_run (same_dir k (proc_path (h_pid h) ''/root/tmp'') (join_path root ''tmp'')) (\<lambda>tmp.
         if \<not> tmp then done_with False
         else if \<not> var_mounted then done_with True
         else same_dir k (proc_path (h_pid h) ''/root/var/tmp'') (join_path root ''var/tmp'')))"

section \<open>Stopping a holder\<close>

definition stop_holder :: "kern \<Rightarrow> holder \<Rightarrow> unit sysrun" where
  "stop_holder k h =
     bind_run (attempted (open_pidfd k (h_pid h))) (\<lambda>r.
     case r of
       Inl e \<Rightarrow>
         if e \<noteq> ENOSYS then stop (Os e)
         else bind_run (open_holder k h) (\<lambda>_.
              bind_run (check k (Sys_kill (h_pid h) SIGKILL)) (\<lambda>_.
              bind_run (reap_if_child k None) (\<lambda>_. reap_monitor k h)))
     | Inr pidfd \<Rightarrow>
         bind_run (open_holder k h) (\<lambda>_.
         bind_run (sys k (Sys_pidfd_send_signal pidfd SIGKILL)) (\<lambda>result.
         bind_run (look last_errno) (\<lambda>error.
         if result \<noteq> Inr 0 then stop (Os error)
         else bind_run (reap_if_child k (Some pidfd)) (\<lambda>_. reap_monitor k h)))))"

section \<open>The life of a holder\<close>

record holder_job =
  hj_maps :: id_maps
  hj_temp :: private_temp
  hj_egress :: "egress option"
  hj_report :: fd
  hj_ack :: fd
  hj_report_read :: fd
  hj_ack_write :: fd

text \<open>
  \<^verbatim>\<open>_exit(125)\<close> unless \<open>b\<close>; a message to the caller, which is a PID or a status, or an errno as a
  negative number; and one byte from the caller.
\<close>

definition or_exit :: "bool \<Rightarrow> unit sysrun" where
  "or_exit b = (if b then done_with () else stop (Exited 125))"

definition tell :: "kern \<Rightarrow> errno + int \<Rightarrow> bool sysrun" where
  "tell k v = bind_run (sys k (Sys_tell 0 v)) (\<lambda>r. done_with (r = Inr 4))"

definition expect_byte :: "kern \<Rightarrow> bool sysrun" where
  "expect_byte k = bind_run (retry k (Sys_read 1 1)) (\<lambda>r. done_with (r = Inr 1))"

definition fail_holder :: "kern \<Rightarrow> errno \<Rightarrow> 'a sysrun" where
  "fail_holder k e = bind_run (tell k (Inl e)) (\<lambda>_. stop (Exited 125))"

definition finish_started :: "kern \<Rightarrow> (pid \<times> fd) option \<Rightarrow> unit sysrun" where
  "finish_started k pasta =
     (case pasta of None \<Rightarrow> done_with () | Some (monitor, life) \<Rightarrow> finish_monitor k monitor life)"

definition fail_started :: "kern \<Rightarrow> (pid \<times> fd) option \<Rightarrow> errno \<Rightarrow> 'a sysrun" where
  "fail_started k pasta e = bind_run (finish_started k pasta) (\<lambda>_. fail_holder k e)"

definition or_fail :: "(errno \<Rightarrow> unit sysrun) \<Rightarrow> errno + 'a \<Rightarrow> unit sysrun" where
  "or_fail f r = (case r of Inl e \<Rightarrow> f e | Inr _ \<Rightarrow> done_with ())"

definition reset_signals :: "kern \<Rightarrow> unit sysrun" where
  "reset_signals k =
     bind_run (for_each (\<lambda>signal. quietly k (Sys_signal signal SIG_DFL)) [1..64]) (\<lambda>_. quietly k Sys_unblock_signals)"

text \<open>The holder from its second fork to the point where it knows that it is pinned.\<close>

definition holder_pinned :: "kern \<Rightarrow> holder_job \<Rightarrow> unit sysrun" where
  "holder_pinned k job =
     bind_run (sys k Sys_setsid) (\<lambda>r.
     bind_run (or_exit (case r of Inl _ \<Rightarrow> False | Inr _ \<Rightarrow> True)) (\<lambda>_.
     bind_run (sys k Sys_fork) (\<lambda>holder.
     bind_run (case holder of Inl _ \<Rightarrow> stop (Exited 125) | Inr p \<Rightarrow> if p \<noteq> 0 then stop (Exited 0) else done_with ()) (\<lambda>_.
     bind_run (quietly k (Sys_chdir ''/'')) (\<lambda>_.
     bind_run (first_failing k [Sys_dup2 (hj_report job) 0, Sys_dup2 (hj_ack job) 1]) (\<lambda>failed.
     bind_run (or_exit (\<not> failed)) (\<lambda>_.
     bind_run (for_each (\<lambda>fd. quietly k (Sys_close fd))
       [hj_report job, hj_ack job, hj_report_read job, hj_ack_write job]) (\<lambda>_.
     bind_run (attempted (close_from k 2)) (\<lambda>cleanup.
     bind_run (reset_signals k) (\<lambda>_.
     bind_run (sys k Sys_getpid) (\<lambda>me.
     bind_run (tell k me) (\<lambda>told.
     bind_run (or_exit told) (\<lambda>_.
     bind_run (expect_byte k) (\<lambda>pinned.
     bind_run (or_exit pinned) (\<lambda>_.
     or_fail (fail_holder k) cleanup)))))))))))))))"

text \<open>The monitor is forked in the host's namespaces, then the holder leaves them.\<close>

definition holder_fork :: "kern \<Rightarrow> holder_job \<Rightarrow> (pid \<times> fd) option sysrun" where
  "holder_fork k job =
     (case hj_egress job of
        None \<Rightarrow> done_with None
      | Some eg \<Rightarrow>
          bind_run (sys k Sys_getpid) (\<lambda>me.
          bind_run (attempted (fork_pasta k eg (case me of Inr p \<Rightarrow> p | Inl _ \<Rightarrow> -1))) (\<lambda>r.
          case r of Inl e \<Rightarrow> fail_holder k e | Inr pasta \<Rightarrow> done_with (Some pasta))))"

definition holder_enter :: "kern \<Rightarrow> holder_job \<Rightarrow> (pid \<times> fd) option \<Rightarrow> unit sysrun" where
  "holder_enter k job pasta =
     bind_run (attempted (bind_run (enter_new_namespaces k (hj_maps job)) (\<lambda>_. enter_private_temp k (hj_temp job)))) (\<lambda>r.
     or_fail (fail_started k pasta) r)"

definition holder_connect :: "kern \<Rightarrow> holder_job \<Rightarrow> (pid \<times> fd) option \<Rightarrow> fd option sysrun" where
  "holder_connect k job pasta =
     (case (hj_egress job, pasta) of
        (Some eg, Some (monitor, life)) \<Rightarrow>
          bind_run (attempted (start_pasta k monitor life)) (\<lambda>started.
          case started of
            Inr _ \<Rightarrow>
              bind_run (attempted (bind_resolv k (eg_resolv eg))) (\<lambda>bound.
              case bound of
                Inl e \<Rightarrow> if e \<noteq> ENOENT then fail_started k pasta e else done_with (Some life)
              | Inr _ \<Rightarrow> done_with (Some life))
          | Inl _ \<Rightarrow> bind_run (finish_monitor k monitor life) (\<lambda>_. done_with None))
      | _ \<Rightarrow> done_with None)"

definition NO_EGRESS :: int where
  "NO_EGRESS = 1"

definition holder_report :: "kern \<Rightarrow> (pid \<times> fd) option \<Rightarrow> fd option \<Rightarrow> unit sysrun" where
  "holder_report k pasta connected =
     bind_run (quietly k (Sys_set_name ''world-holder'')) (\<lambda>_.
     bind_run (tell k (Inr (if pasta \<noteq> None \<and> connected = None then NO_EGRESS else 0))) (\<lambda>told.
     bind_run (or_exit told) (\<lambda>_.
     case (pasta, connected) of
       (Some (monitor, _), Some _) \<Rightarrow> bind_run (tell k (Inr monitor)) or_exit
     | _ \<Rightarrow> done_with ())))"

definition holder_commit :: "kern \<Rightarrow> (pid \<times> fd) option \<Rightarrow> fd option \<Rightarrow> unit sysrun" where
  "holder_commit k pasta connected =
     bind_run (expect_byte k) (\<lambda>committed.
     if committed then quietly k (Sys_close 1)
     else bind_run (case (pasta, connected) of
              (Some (monitor, _), Some life) \<Rightarrow> finish_monitor k monitor life
            | _ \<Rightarrow> done_with ()) (\<lambda>_. stop (Exited 125)))"

text \<open>
  \<open>hold\<close> returns in the model where the code pauses for good. It closes all descriptors but the life
  pipe, ignores further exits of its monitor and reaps one that is already there.
\<close>

fun reap_all :: "nat \<Rightarrow> kern \<Rightarrow> unit sysrun" where
  "reap_all 0 k = stop Stuck"
| "reap_all (Suc n) k =
     bind_run (sys k (Sys_waitpid (-1) [WNOHANG])) (\<lambda>r.
     case r of Inr p \<Rightarrow> if 0 < p then reap_all n k else done_with () | Inl _ \<Rightarrow> done_with ())"

definition hold :: "kern \<Rightarrow> fd option \<Rightarrow> unit sysrun" where
  "hold k keep =
     bind_run (case keep of
         Some life \<Rightarrow>
           bind_run (for_each (\<lambda>fd. quietly k (Sys_close fd)) [0..life - 1]) (\<lambda>_. attempted (close_from k (life + 1)))
       | None \<Rightarrow> attempted (close_from k 0)) (\<lambda>closed.
     bind_run (or_exit (case closed of Inl _ \<Rightarrow> False | Inr _ \<Rightarrow> True)) (\<lambda>_.
     bind_run (quietly k (Sys_signal SIGCHLD SIG_IGN)) (\<lambda>_.
     reap_all (k_patience k) k)))"

definition holder_process :: "kern \<Rightarrow> holder_job \<Rightarrow> unit sysrun" where
  "holder_process k job =
     bind_run (holder_pinned k job) (\<lambda>_.
     bind_run (holder_fork k job) (\<lambda>pasta.
     bind_run (holder_enter k job pasta) (\<lambda>_.
     bind_run (holder_connect k job pasta) (\<lambda>connected.
     bind_run (holder_report k pasta connected) (\<lambda>_.
     bind_run (holder_commit k pasta connected) (\<lambda>_.
     hold k connected))))))"

section \<open>The start of a holder, seen by its caller\<close>

record started =
  st_holder :: holder
  st_pid :: int
  st_pidfd :: "fd option"
  st_commit :: "fd option"

definition send_byte :: "kern \<Rightarrow> fd \<Rightarrow> byte \<Rightarrow> unit sysrun" where
  "send_byte k fd b =
     bind_run (retry k (Sys_send fd b [MSG_NOSIGNAL])) (\<lambda>r.
     bind_run (look last_errno) (\<lambda>error. if r = Inr 1 then done_with () else stop (Os error)))"

definition commit_started :: "kern \<Rightarrow> started \<Rightarrow> unit sysrun" where
  "commit_started k s =
     (case st_commit s of
        None \<Rightarrow> done_with ()
      | Some fd \<Rightarrow>
          bind_run (attempted (send_byte k fd (CHR ''c''))) (\<lambda>r.
          bind_run (quietly k (Sys_close fd)) (\<lambda>_. ok_or r)))"

definition kill_started :: "kern \<Rightarrow> started \<Rightarrow> unit sysrun" where
  "kill_started k s =
     (case st_commit s of
        Some channel \<Rightarrow> bind_run (quietly k (Sys_close channel)) (\<lambda>_. reap_if_child k (st_pidfd s))
      | None \<Rightarrow>
          bind_run (check k (case st_pidfd s of
              Some fd \<Rightarrow> Sys_pidfd_send_signal fd SIGKILL
            | None \<Rightarrow> Sys_kill (st_pid s) SIGKILL)) (\<lambda>_.
          bind_run (reap_if_child k (st_pidfd s)) (\<lambda>_. reap_monitor k (st_holder s))))"

text \<open>The next message of the holder; none if it is gone.\<close>

definition next_message :: "kern \<Rightarrow> fd \<Rightarrow> int sysrun" where
  "next_message k report =
     bind_run (sys_number k (Sys_read_value report)) (\<lambda>(r, v).
     case r of Inl _ \<Rightarrow> stop (Refused ''World namespace holder did not start'') | Inr _ \<Rightarrow> done_with v)"

text \<open>What is done before an error is returned.\<close>

definition on_error :: "'a sysrun \<Rightarrow> unit sysrun \<Rightarrow> 'a sysrun" where
  "on_error r cleanup =
     (\<lambda>log. case r log of
        (log', Inr a) \<Rightarrow> (log', Inr a)
      | (log', Inl h) \<Rightarrow> (case cleanup log' of (log'', Inl h') \<Rightarrow> (log'', Inl h') | (log'', Inr _) \<Rightarrow> (log'', Inl h)))"

definition pin_holder :: "kern \<Rightarrow> int \<Rightarrow> fd option sysrun" where
  "pin_holder k pid =
     bind_run (attempted (open_pidfd k pid)) (\<lambda>r.
     case r of Inr fd \<Rightarrow> done_with (Some fd) | Inl e \<Rightarrow> if e = ENOSYS then done_with None else stop (Os e))"

definition observe_started :: "kern \<Rightarrow> int \<Rightarrow> int option \<Rightarrow> holder sysrun" where
  "observe_started k pid monitor =
     bind_run (observe k pid) (\<lambda>h.
     bind_run (case monitor of
         None \<Rightarrow> done_with None
       | Some m \<Rightarrow> bind_run (live_start_time k m) (\<lambda>t. done_with (map_option (Pair m) t))) (\<lambda>mon.
     done_with (h\<lparr>h_monitor := mon, h_egress := mon \<noteq> None\<rparr>)))"

definition meet_holder :: "kern \<Rightarrow> bool \<Rightarrow> fd \<Rightarrow> fd \<Rightarrow> started sysrun" where
  "meet_holder k egress report ack_write =
     bind_run (on_error (next_message k report) (quietly k (Sys_close ack_write))) (\<lambda>pid.
     bind_run (on_error (pin_holder k pid) (quietly k (Sys_close ack_write))) (\<lambda>pidfd.
     bind_run (on_error (send_byte k ack_write (CHR ''p''))
       (bind_run (quietly k (Sys_close ack_write)) (\<lambda>_. reap_if_child k pidfd))) (\<lambda>_.
     let abandon = bind_run (reap_if_child k pidfd) (\<lambda>_. quietly k (Sys_close ack_write))
     in
     bind_run (on_error (next_message k report) abandon) (\<lambda>status.
     bind_run (on_error (if status \<noteq> 0 \<and> status \<noteq> NO_EGRESS then stop (Os (ERaw (- status))) else done_with ()) abandon) (\<lambda>_.
     bind_run (on_error (if egress \<and> status = 0 then bind_run (next_message k report) (\<lambda>m. done_with (Some m))
                         else done_with None) abandon) (\<lambda>monitor.
     bind_run (on_error (observe_started k pid monitor)
       (bind_run (quietly k (Sys_close ack_write)) (\<lambda>_. reap_if_child k pidfd))) (\<lambda>h.
     done_with \<lparr>st_holder = h, st_pid = pid, st_pidfd = pidfd, st_commit = Some ack_write\<rparr>)))))))"

text \<open>
  \<open>start_holder\<close>: the pipe and the socket, the fork with all signals blocked, and the meeting. In the
  child the run is the holder's and does not come back.
\<close>

definition holder_channels :: "kern \<Rightarrow> (fd \<times> fd \<times> fd \<times> fd) sysrun" where
  "holder_channels k =
     bind_run (sys_number k (Sys_pipe2 [O_CLOEXEC])) (\<lambda>(r, second).
     bind_run (ok_or r) (\<lambda>first.
     bind_run (above_stdio k first) (\<lambda>report_read.
     bind_run (above_stdio k second) (\<lambda>report.
     bind_run (sys_number k (Sys_socketpair flag.AF_UNIX [SOCK_STREAM, SOCK_CLOEXEC])) (\<lambda>(r, second).
     bind_run (ok_or r) (\<lambda>first.
     bind_run (above_stdio k first) (\<lambda>ack.
     bind_run (above_stdio k second) (\<lambda>ack_write. done_with (report_read, report, ack, ack_write)))))))))"

definition start_holder :: "kern \<Rightarrow> id_maps \<Rightarrow> private_temp \<Rightarrow> egress option \<Rightarrow> started sysrun" where
  "start_holder k maps temp eg =
     bind_run (holder_channels k) (\<lambda>(report_read, report, ack, ack_write).
     bind_run (quietly k Sys_block_signals) (\<lambda>_.
     bind_run (sys k Sys_fork) (\<lambda>intermediate.
     if intermediate = Inr 0
     then bind_run (holder_process k
            \<lparr>hj_maps = maps, hj_temp = temp, hj_egress = eg, hj_report = report, hj_ack = ack,
              hj_report_read = report_read, hj_ack_write = ack_write\<rparr>) (\<lambda>_. stop Stuck)
     else bind_run (quietly k Sys_restore_signals) (\<lambda>_.
          bind_run (ok_or intermediate) (\<lambda>p.
          bind_run (retry k (Sys_waitpid p [])) (\<lambda>_.
          bind_run (quietly k (Sys_close report)) (\<lambda>_.
          bind_run (quietly k (Sys_close ack)) (\<lambda>_.
          meet_holder k (eg \<noteq> None) report_read ack_write))))))))"

end
