(* ===== verification/Holder_Props.thy ===== *)
theory Holder_Props
  imports Holder
begin

text \<open>
  A holder is recognised and stopped as the process that was recorded, and runs only when its caller
  has pinned and recorded it.
\<close>

section \<open>Paths and process status\<close>

lemma unat_tenth: "unat (v div 10 :: u32) = unat v div 10" "unat (v mod 10 :: u32) = unat v mod 10"
  by (simp_all add: unat_div unat_mod)

lemma tenth_zero: "v div 10 = (0 :: u32) \<longleftrightarrow> unat v < 10"
proof -
  have "v div 10 = 0 \<longleftrightarrow> unat (v div 10) = 0" by (simp add: unat_eq_0)
  also have "\<dots> \<longleftrightarrow> unat v < 10" unfolding unat_tenth by (simp add: div_eq_0_iff)
  finally show ?thesis .
qed

lemma rev_digits: "unat v < 10 ^ Suc n \<Longrightarrow> rev (digits_of (Suc n) v) = show_radix 10 (unat v)"
proof (induction n arbitrary: v)
  case 0
  then show ?case by (subst show_radix.simps) (simp add: dec_digit_def unat_tenth tenth_zero)
next
  case (Suc n)
  have "unat (v div 10) < 10 ^ Suc n" using Suc.prems by (simp add: unat_tenth)
  note ih = Suc.IH [OF this]
  have "rev (digits_of (Suc (Suc n)) v) =
      (if unat v < 10 then [] else rev (digits_of (Suc n) (v div 10))) @ [dec_digit (unat v mod 10)]"
    by (simp only: digits_of.simps(2) [of "Suc n"] tenth_zero) (simp add: dec_digit_def unat_tenth)
  also have "\<dots> = show_radix 10 (unat v)"
    by (subst show_radix.simps [of 10 "unat v"]) (simp add: ih unat_tenth del: digits_of.simps)
  finally show ?case .
qed

lemma digits_10: "rev (digits_of 10 (v :: u32)) = show_radix 10 (unat v)"
proof -
  have "unat v < 2 ^ 32" using unsigned_less [where w = v] by simp
  then have "unat v < 10 ^ Suc 9" by simp
  from rev_digits [OF this] show ?thesis by (simp add: eval_nat_numeral(3) [symmetric])
qed

lemma digits_count: "length (digits_of n v) \<le> n"
  by (induction n arbitrary: v) auto

lemma until_nul_padded: "nul \<notin> set s \<Longrightarrow> 0 < n \<Longrightarrow> until_nul (s @ replicate n nul) = Some s"
  by (cases n) (auto simp: until_nul_def takeWhile_append)

lemma nul_not_digit: "nul \<notin> set (show_radix 10 n)"
  using show_dec_digits [of nul n] by auto

text \<open>
  The buffers are long enough for every number: \<open>format_path\<close> never panics on the paths it is
  used for, and the text up to the NUL that ends it is the path with the number in decimal; so is
  that of \<open>fd_path\<close>, within its 32 bytes.
\<close>

theorem paths_fit:
  "(\<exists>buf. format_path ''/proc/'' v ''/ns/user'' = Ok buf \<and> length buf = 48 \<and>
      until_nul buf = Some (''/proc/'' @ show_radix 10 (unat v) @ ''/ns/user'')) \<and>
   (\<exists>buf. format_path ''/proc/'' v ''/ns/net'' = Ok buf \<and> length buf = 48 \<and>
      until_nul buf = Some (''/proc/'' @ show_radix 10 (unat v) @ ''/ns/net'')) \<and>
   length (fd_path v) = 32 \<and> until_nul (fd_path v) = Some (''/proc/self/fd/'' @ show_radix 10 (unat v))"
proof -
  have len: "length (digits_of 10 v) \<le> 10" by (rule digits_count)
  have path: "\<exists>buf. format_path prefix v suffix = Ok buf \<and> length buf = 48 \<and>
      until_nul buf = Some (prefix @ show_radix 10 (unat v) @ suffix)"
    if "length prefix + length suffix \<le> 37" "nul \<notin> set prefix" "nul \<notin> set suffix" for prefix suffix
    using that len until_nul_padded [of "prefix @ show_radix 10 (unat v) @ suffix"
        "48 - (length prefix + length (digits_of 10 v) + length suffix)"]
    by (simp add: format_path_def Let_def digits_10 nul_not_digit) (simp flip: digits_10)
  have user: "\<exists>buf. format_path ''/proc/'' v ''/ns/user'' = Ok buf \<and> length buf = 48 \<and>
      until_nul buf = Some (''/proc/'' @ show_radix 10 (unat v) @ ''/ns/user'')"
    by (rule path) simp_all
  have net: "\<exists>buf. format_path ''/proc/'' v ''/ns/net'' = Ok buf \<and> length buf = 48 \<and>
      until_nul buf = Some (''/proc/'' @ show_radix 10 (unat v) @ ''/ns/net'')"
    by (rule path) simp_all
  have fd: "length (fd_path v) = 32 \<and> until_nul (fd_path v) = Some (''/proc/self/fd/'' @ show_radix 10 (unat v))"
    using len until_nul_padded [of "''/proc/self/fd/'' @ show_radix 10 (unat v)" "18 - length (digits_of 10 v)"]
    by (simp add: fd_path_def Let_def digits_10 nul_not_digit) (simp flip: digits_10)
  show ?thesis using user net fd by blast
qed

subsection \<open>The fields of a status line\<close>

definition spaced :: "bytes list \<Rightarrow> bytes" where
  "spaced fs = concat (map (\<lambda>f. CHR '' '' # f) fs) @ [newline]"

definition plain_field :: "bytes \<Rightarrow> bool" where
  "plain_field f \<longleftrightarrow> f \<noteq> [] \<and> (\<forall>b \<in> set f. \<not> is_space b) \<and> CHR '')'' \<notin> set f"

lemma split_spaced:
  assumes "\<forall>f \<in> set (f # fs). CHR '' '' \<notin> set f"
  shows "split_on (CHR '' '') (f @ concat (map (\<lambda>f. CHR '' '' # f) fs) @ [CHR '' '']) = f # fs @ [[]]"
  using assms
proof (induction fs arbitrary: f)
  case Nil
  then show ?case using split_on_append_sep [of "CHR '' ''" f "[]"] by (simp add: split_on_no_sep)
next
  case (Cons g fs)
  have "split_on (CHR '' '') (f @ CHR '' '' # (g @ concat (map (\<lambda>f. CHR '' '' # f) fs) @ [CHR '' ''])) =
      split_on (CHR '' '') f @ g # fs @ [[]]"
    unfolding split_on_append_sep using Cons by simp
  then show ?case using Cons.prems by (simp add: split_on_no_sep)
qed

lemma words_spaced:
  assumes "list_all plain_field fs"
  shows "words (spaced fs) = fs"
proof -
  let ?n = "\<lambda>b. if is_space b then CHR '' '' else b"
  have plain: "map ?n f = f" if "f \<in> set fs" for f
    using assms that by (intro map_idI) (auto simp: plain_field_def list_all_iff)
  have space: "?n (CHR '' '') = CHR '' ''" "?n newline = CHR '' ''"
    by (simp_all add: is_space_def between_def)
  have "map ?n (concat (map (\<lambda>f. CHR '' '' # f) fs)) = concat (map (\<lambda>f. CHR '' '' # f) fs)"
    using plain by (induction fs) (auto simp: space)
  then have "map ?n (spaced fs) = [] @ concat (map (\<lambda>f. CHR '' '' # f) fs) @ [CHR '' '']"
    by (simp add: spaced_def space)
  moreover have "\<forall>f \<in> set ([] # fs). CHR '' '' \<notin> set f"
    using assms by (auto simp: plain_field_def list_all_iff is_space_def)
  ultimately have "split_on (CHR '' '') (map ?n (spaced fs)) = [] # fs @ [[]]"
    using split_spaced [of "[]" fs] by simp
  moreover have "filter (\<lambda>w. w \<noteq> []) fs = fs"
    using assms by (auto simp: filter_id_conv plain_field_def list_all_iff)
  ultimately show ?thesis by (simp add: words_def)
qed

definition stat_line :: "nat \<Rightarrow> bytes \<Rightarrow> bytes list \<Rightarrow> bytes" where
  "stat_line pid comm parts = show_radix 10 pid @ '' ('' @ comm @ '')'' @ spaced parts"

lemma start_of_line:
  assumes "list_all plain_field parts" and "19 < length parts" and "parts ! 19 = show_radix 10 start"
    and "start < 2 ^ 64"
  shows "stat_start (stat_line pid comm parts) = Some (int start) \<and>
    stat_live (stat_line pid comm parts) =
      Inr (if hd (parts ! 0) = CHR ''Z'' then None else Some (int start))"
proof -
  have no_paren: "CHR '')'' \<notin> set (spaced parts)"
    using assms(1) by (auto simp: spaced_def plain_field_def list_all_iff)
  have after: "after_comm (xs @ CHR '')'' # ys) = Some ys" if "CHR '')'' \<notin> set ys" for xs ys
    using that by (simp add: after_comm_def rposition_append_sep)
  have "stat_line pid comm parts = (show_radix 10 pid @ '' ('' @ comm) @ CHR '')'' # spaced parts"
    by (simp add: stat_line_def)
  then have rest: "after_comm (stat_line pid comm parts) = Some (spaced parts)"
    using after [OF no_paren] by metis
  have start: "start_field (spaced parts) = Some (int start)"
    using assms(2-4) by (simp add: start_field_def words_spaced [OF assms(1)] from_str_radix_show)
  obtain f fs where parts: "parts = f # fs" using assms(2) by (cases parts) auto
  obtain b bs where f: "f = b # bs" "\<not> is_space b"
    using assms(1) parts by (cases f) (auto simp: plain_field_def)
  have blank: "is_space (CHR '' '')" by (simp add: is_space_def)
  have "dropWhile is_space (spaced parts) = b # bs @ spaced fs"
    using f(2) by (simp add: spaced_def parts f(1) blank)
  then have "starts_with (dropWhile is_space (spaced parts)) ''Z'' \<longleftrightarrow> hd (parts ! 0) = CHR ''Z''"
    by (simp add: parts f)
  then show ?thesis by (simp add: stat_live_def stat_start_def rest start)
qed

text \<open>
  The start time is read back from the status line of any process, whatever its command
  name: also one with spaces, parentheses or digits that imitate other fields.
\<close>

theorem start_time_read_back:
  assumes "list_all plain_field parts" and "19 < length parts" and "parts ! 19 = show_radix 10 start"
    and "start < 2 ^ 64"
  shows "stat_start (stat_line pid comm parts) = Some (int start) \<and>
    stat_live (stat_line pid comm parts) =
      Inr (if hd (parts ! 0) = CHR ''Z'' then None else Some (int start))"
  by (rule start_of_line [OF assms])

theorem start_time_read_back_witness:
  "stat_start (stat_line 7 '') Z 1 (x) '' (''S'' # replicate 18 ''0'' @ [''5'', ''9''])) = Some (int 5) \<and>
   stat_live (stat_line 7 '') Z 1 (x) '' (''S'' # replicate 18 ''0'' @ [''5'', ''9''])) = Inr (Some (int 5))"
proof -
  have parts: "list_all plain_field (''S'' # replicate 18 ''0'' @ [''5'', ''9''])"
    by code_simp
  have five: "(''S'' # replicate 18 ''0'' @ [''5'', ''9'']) ! 19 = show_radix 10 5" by code_simp
  show ?thesis
    using start_time_read_back [OF parts _ five] by (simp del: replicate.simps)
qed

end
