(* ===== verification/Holder_Stop.thy ===== *)
theory Holder_Stop
  imports Holder_Props
begin

text \<open>
  A holder is stopped through a descriptor that pins it: whatever processes end and start in the
  meantime, no other process is signalled.
\<close>

section \<open>Processes\<close>

text \<open>
  Which process has a PID after the calls of a log, and when a process started. Other processes end and
  start between any two calls, so the owner of a PID may change from one log to the next.
\<close>

record pid_world =
  owner :: "syslog \<Rightarrow> int \<Rightarrow> nat option"
  born :: "nat \<Rightarrow> int"

text \<open>The PID, and the log at that time, for which a descriptor was opened by \<^verbatim>\<open>pidfd_open\<close>.\<close>

definition pin_step ::
  "syslog \<times> (fd \<rightharpoonup> int \<times> syslog) \<Rightarrow> scall \<times> (errno + int) \<Rightarrow> syslog \<times> (fd \<rightharpoonup> int \<times> syslog)" where
  "pin_step = (\<lambda>(l, m) (c, r).
     (l @ [(c, r)],
      case (c, r) of
        (Sys_pidfd_open p, Inr fd) \<Rightarrow> m(fd \<mapsto> (p, l))
      | (Sys_fcntl fd F_DUPFD_CLOEXEC _, Inr fd') \<Rightarrow> m(fd' := m fd)
      | _ \<Rightarrow> m))"

definition pins :: "syslog \<Rightarrow> (fd \<rightharpoonup> int \<times> syslog)" where
  "pins log = snd (foldl pin_step ([], Map.empty) log)"

text \<open>
  What the kernel documents of PIDs: a process that has lost its PID does not get it back;
  \<^verbatim>\<open>pidfd_open\<close> succeeds only for a PID in use; a signal through the descriptor is delivered only if the
  process still has the PID; and the status of a PID is that of the process that has it.
\<close>

definition documented :: "kern \<Rightarrow> pid_world \<Rightarrow> bool" where
  "documented k w \<longleftrightarrow>
     (\<forall>l e e' p i. owner w l p = Some i \<longrightarrow> owner w (l @ e @ e') p = Some i \<longrightarrow> owner w (l @ e) p = Some i) \<and>
     (\<forall>l p fd. k_answer k l (Sys_pidfd_open p) = Inr fd \<longrightarrow> owner w l p \<noteq> None) \<and>
     (\<forall>l fd sig v p l0. k_answer k l (Sys_pidfd_send_signal fd sig) = Inr v \<longrightarrow> pins l fd = Some (p, l0) \<longrightarrow>
        owner w l p = owner w l0 p) \<and>
     (\<forall>l p v t. k_answer k l (Sys_readfile (proc_path p ''/stat'')) = Inr v \<longrightarrow>
        stat_start (k_bytes k l (Sys_readfile (proc_path p ''/stat''))) = Some t \<longrightarrow>
        (\<exists>i. owner w l p = Some i \<and> born w i = t))"

section \<open>Pins\<close>

lemma fst_pins: "fst (foldl pin_step (l, m) log) = l @ log"
  by (induction log arbitrary: l m) (auto simp: pin_step_def split: prod.splits)

lemma pins_simps [simp]:
  "pins [] = Map.empty"
  "pins (log @ [(c, r)]) =
     (case (c, r) of
        (Sys_pidfd_open p, Inr fd) \<Rightarrow> (pins log)(fd \<mapsto> (p, log))
      | (Sys_fcntl fd F_DUPFD_CLOEXEC _, Inr fd') \<Rightarrow> (pins log)(fd' := pins log fd)
      | _ \<Rightarrow> pins log)"
proof -
  show "pins [] = Map.empty" by (simp add: pins_def)
  have lm: "foldl pin_step ([], Map.empty) log = (log, pins log)"
    using fst_pins [of "[]" Map.empty log] by (simp add: pins_def prod_eq_iff)
  have "pins (log @ [(c, r)]) = snd (pin_step (log, pins log) (c, r))"
    by (simp add: pins_def [of "log @ [(c, r)]"] lm)
  then show "pins (log @ [(c, r)]) =
     (case (c, r) of
        (Sys_pidfd_open p, Inr fd) \<Rightarrow> (pins log)(fd \<mapsto> (p, log))
      | (Sys_fcntl fd F_DUPFD_CLOEXEC _, Inr fd') \<Rightarrow> (pins log)(fd' := pins log fd)
      | _ \<Rightarrow> pins log)"
    by (simp add: pin_step_def)
qed

text \<open>The calls that neither pin nor signal a process.\<close>

fun no_pin :: "scall \<Rightarrow> bool" where
  "no_pin (Sys_pidfd_open p) = False"
| "no_pin (Sys_fcntl fd cmd arg) = False"
| "no_pin _ = True"

fun no_kill :: "scall \<Rightarrow> bool" where
  "no_kill (Sys_pidfd_send_signal fd sig) = False"
| "no_kill (Sys_kill p sig) = False"
| "no_kill _ = True"

lemma pins_no_pin: "\<forall>c \<in> fst ` set e. no_pin c \<Longrightarrow> pins (log @ e) = pins log"
proof (induction e rule: rev_induct)
  case (snoc x e)
  obtain c r where x: "x = (c, r)" by fastforce
  have "pins ((log @ e) @ [(c, r)]) = pins (log @ e)"
    unfolding pins_simps using snoc.prems x by (cases c) (auto split: sum.splits)
  with snoc x show ?case by simp
qed simp

lemma open_pidfd_pins:
  assumes "open_pidfd k p log = (log1, Inr fd)"
  shows "\<exists>e. log1 = log @ e \<and> pins log1 fd = Some (p, log) \<and> (\<exists>v. k_answer k log (Sys_pidfd_open p) = Inr v) \<and>
    (\<forall>c \<in> fst ` set e. no_kill c)"
proof -
  let ?open = "Sys_pidfd_open p"
  obtain v where v: "k_answer k log ?open = Inr v"
    using assms by (auto simp: open_pidfd_def bind_run_def check_def sys_def ok_or_def stop_def Let_def split: sum.splits)
  let ?log = "log @ [(?open, Inr v)]"
  have pinned: "pins ?log v = Some (p, log)" by simp
  show ?thesis
  proof (cases "2 < v")
    case True
    with assms v have "log1 = ?log" "fd = v"
      by (auto simp: open_pidfd_def bind_run_def check_def sys_def ok_or_def done_with_def Let_def)
    with v pinned show ?thesis by (intro exI [of _ "[(?open, Inr v)]"]) simp
  next
    case False
    let ?dup = "Sys_fcntl v F_DUPFD_CLOEXEC 3"
    have "log1 = ?log @ [(?dup, k_answer k ?log ?dup)]"
      and fd: "fd = (case k_answer k ?log ?dup of Inl _ \<Rightarrow> v | Inr moved \<Rightarrow> moved)"
      using assms v False
      by (auto simp: open_pidfd_def bind_run_def check_def sys_def ok_or_def done_with_def Let_def split: sum.splits)
    moreover have "pins (?log @ [(?dup, k_answer k ?log ?dup)]) fd = Some (p, log)"
      unfolding pins_simps fd using pinned by (simp split: sum.splits)
    ultimately show ?thesis using v
      by (intro exI [of _ "[(?open, Inr v), (?dup, k_answer k ?log ?dup)]"]) simp
  qed
qed

section \<open>Verification\<close>

lemma stage_proc:
  "stage (\<lambda>c. no_pin c \<and> no_kill c) [] (open_ns k pid kind i)"
  "stage (\<lambda>c. no_pin c \<and> no_kill c) [] (start_time k pid)"
  unfolding open_ns_def start_time_def by (intro stage_plain; simp)+

lemma bind_run_Inr:
  assumes "bind_run r f log = (log2, Inr b)"
  obtains log1 a where "r log = (log1, Inr a)" and "f a log1 = (log2, Inr b)"
  using assms by (auto simp: bind_run_def split: prod.splits sum.splits)

lemma stage_ext:
  assumes "stage G ps r" and "r log = (log1, x)"
  obtains e where "log1 = log @ e" and "\<forall>c \<in> fst ` set e. G c"
  using stage_calls [OF assms] by blast

lemma stage_mnt:
  "stage (\<lambda>c. no_pin c \<and> no_kill c) []
     (case m of
        None \<Rightarrow> done_with (Some None)
      | Some i \<Rightarrow> bind_run (open_ns k pid kind i) (\<lambda>mnt. done_with (map_option Some mnt)))"
  by (intro stage_option stage_skip stage_proc stage_done)

lemma verify_Some:
  assumes "verify k h log = (log2, Inr (Some ns))"
  shows "\<exists>e v. log2 = log @ e @ [(Sys_readfile (proc_path (h_pid h) ''/stat''), Inr v)] \<and>
    (\<forall>c \<in> fst ` set e. no_pin c \<and> no_kill c) \<and>
    k_answer k (log @ e) (Sys_readfile (proc_path (h_pid h) ''/stat'')) = Inr v \<and>
    stat_start (k_bytes k (log @ e) (Sys_readfile (proc_path (h_pid h) ''/stat''))) = Some (h_start h)"
proof -
  let ?call = "Sys_readfile (proc_path (h_pid h) ''/stat'')"
  obtain l1 u where 1: "open_ns k (h_pid h) ''user'' (h_user h) log = (l1, Inr u)"
      and r1: "(case u of None \<Rightarrow> done_with None | Some user \<Rightarrow>
     bind_run (open_ns k (h_pid h) ''net'' (h_net h)) (\<lambda>net.
     case net of None \<Rightarrow> done_with None | Some net \<Rightarrow>
     bind_run (case h_mnt h of
         None \<Rightarrow> done_with (Some None)
       | Some expected \<Rightarrow> bind_run (open_ns k (h_pid h) ''mnt'' expected) (\<lambda>mnt. done_with (map_option Some mnt))) (\<lambda>mnt.
     case mnt of None \<Rightarrow> done_with None | Some mnt \<Rightarrow>
     bind_run (start_time k (h_pid h)) (\<lambda>t.
     case t of
       Inr time \<Rightarrow>
         done_with (if time = h_start h then Some \<lparr>n_user = user, n_net = net, n_mnt = mnt\<rparr> else None)
     | Inl (Os e) \<Rightarrow> if gone e then done_with None else stop (Os e)
     | Inl err \<Rightarrow> stop err)))) l1 = (log2, Inr (Some ns))"
    using assms unfolding verify_def by (rule bind_run_Inr)
  obtain user where u: "u = Some user" using r1 by (cases u) (simp_all add: done_with_def)
  obtain l2 n where 2: "open_ns k (h_pid h) ''net'' (h_net h) l1 = (l2, Inr n)"
      and r2: "(case n of None \<Rightarrow> done_with None | Some net \<Rightarrow>
     bind_run (case h_mnt h of
         None \<Rightarrow> done_with (Some None)
       | Some expected \<Rightarrow> bind_run (open_ns k (h_pid h) ''mnt'' expected) (\<lambda>mnt. done_with (map_option Some mnt))) (\<lambda>mnt.
     case mnt of None \<Rightarrow> done_with None | Some mnt \<Rightarrow>
     bind_run (start_time k (h_pid h)) (\<lambda>t.
     case t of
       Inr time \<Rightarrow>
         done_with (if time = h_start h then Some \<lparr>n_user = user, n_net = net, n_mnt = mnt\<rparr> else None)
     | Inl (Os e) \<Rightarrow> if gone e then done_with None else stop (Os e)
     | Inl err \<Rightarrow> stop err))) l2 = (log2, Inr (Some ns))"
    using r1 unfolding u option.case by (rule bind_run_Inr)
  obtain net where n: "n = Some net" using r2 by (cases n) (simp_all add: done_with_def)
  obtain l3 m where 3: "(case h_mnt h of
         None \<Rightarrow> done_with (Some None)
       | Some expected \<Rightarrow> bind_run (open_ns k (h_pid h) ''mnt'' expected) (\<lambda>mnt. done_with (map_option Some mnt))) l2 = (l3, Inr m)"
      and r3: "(case m of None \<Rightarrow> done_with None | Some mnt \<Rightarrow>
     bind_run (start_time k (h_pid h)) (\<lambda>t.
     case t of
       Inr time \<Rightarrow>
         done_with (if time = h_start h then Some \<lparr>n_user = user, n_net = net, n_mnt = mnt\<rparr> else None)
     | Inl (Os e) \<Rightarrow> if gone e then done_with None else stop (Os e)
     | Inl err \<Rightarrow> stop err)) l3 = (log2, Inr (Some ns))"
    using r2 unfolding n option.case by (rule bind_run_Inr)
  obtain mnt where m: "m = Some mnt" using r3 by (cases m) (simp_all add: done_with_def)
  obtain e1 where e1: "l1 = log @ e1" "\<forall>c \<in> fst ` set e1. no_pin c \<and> no_kill c"
    by (rule stage_ext [OF stage_proc(1) 1])
  obtain e2 where e2: "l2 = l1 @ e2" "\<forall>c \<in> fst ` set e2. no_pin c \<and> no_kill c"
    by (rule stage_ext [OF stage_proc(1) 2])
  obtain e3 where e3: "l3 = l2 @ e3" "\<forall>c \<in> fst ` set e3. no_pin c \<and> no_kill c"
    by (rule stage_ext [OF stage_mnt 3])
  have calls: "l3 = log @ (e1 @ e2 @ e3)" "\<forall>c \<in> fst ` set (e1 @ e2 @ e3). no_pin c \<and> no_kill c"
    using e1 e2 e3 by auto
  from r3 obtain v where "k_answer k l3 ?call = Inr v" "log2 = l3 @ [(?call, Inr v)]"
      "stat_start (k_bytes k l3 ?call) = Some (h_start h)"
    unfolding m
    by (auto simp: bind_run_def start_time_def sys_bytes_def done_with_def stop_def Let_def
        split: sum.splits option.splits if_splits)
  with calls show ?thesis by (intro exI [of _ "e1 @ e2 @ e3"] exI [of _ v]) simp
qed

lemma open_holder_Inr: "open_holder k h log = (log2, Inr ns) \<Longrightarrow> verify k h log = (log2, Inr (Some ns))"
  by (auto simp: open_holder_def bind_run_def done_with_def stop_def split: prod.splits sum.splits option.splits)

lemma stage_reap: "stage no_kill [] (reap_if_child k pidfd)" "stage no_kill [] (reap_monitor k h)"
proof -
  show 1: "stage no_kill [] (reap_if_child k pidfd)" for pidfd
    unfolding reap_if_child_def by (intro stage_plain) simp_all
  show "stage no_kill [] (reap_monitor k h)"
    unfolding reap_monitor_def open_pidfd_def start_time_def by (intro stage_plain 1) simp_all
qed

lemma stage_open_holder: "stage no_kill [] (open_holder k h)"
proof -
  have "stage no_kill [] (open_ns k pid kind i)" "stage no_kill [] (start_time k pid)" for pid kind i
    by (rule stage_mono [OF stage_proc(1)], simp) (rule stage_mono [OF stage_proc(2)], simp)
  then show ?thesis
    unfolding open_holder_def verify_def
    by (intro stage_plain) (auto intro!: stage_plain split: halt.split)
qed

section \<open>The signal\<close>

lemma only_place:
  assumes "A @ x # B = pre @ y # post" and "\<forall>z \<in> set A \<union> set B. \<not> P z" and "P y"
  shows "pre = A \<and> y = x \<and> post = B"
proof -
  have "y \<in> set (A @ x # B)" unfolding assms(1) by simp
  with assms(2,3) have "y = x" by auto
  with assms show ?thesis
    by (auto simp: append_eq_append_conv2 append_eq_Cons_conv Cons_eq_append_conv)
qed

lemma stop_unpinned:
  "stage (\<lambda>c. \<forall>fd sig. c \<noteq> Sys_pidfd_send_signal fd sig) []
     (bind_run (open_holder k h) (\<lambda>_.
      bind_run (check k (Sys_kill (h_pid h) SIGKILL)) (\<lambda>_.
      bind_run (reap_if_child k None) (\<lambda>_. reap_monitor k h))))"
proof -
  have no_send: "stage (\<lambda>c. \<forall>fd sig. c \<noteq> Sys_pidfd_send_signal fd sig) [] r" if "stage no_kill [] r" for r :: "'x sysrun"
    using that by (rule stage_mono) auto
  show ?thesis
    by (intro stage_skip no_send stage_open_holder stage_reap stage_check_plain) simp_all
qed

text \<open>The log of a stop that pinned the process: the pin, the verification, then the signal.\<close>

lemma stop_pinned:
  assumes "open_pidfd k (h_pid h) log = (log1, Inr pidfd)"
    and "stop_holder k h log = (log', x)"
  shows "(\<exists>e. log' = log1 @ e \<and> (\<forall>c \<in> fst ` set e. no_kill c)) \<or>
    (\<exists>e v r B. log' = log1 @ (e @ [(Sys_readfile (proc_path (h_pid h) ''/stat''), Inr v)]) @
        (Sys_pidfd_send_signal pidfd SIGKILL, r) # B \<and>
      (\<forall>c \<in> fst ` set e. no_pin c \<and> no_kill c) \<and> (\<forall>c \<in> fst ` set B. no_kill c) \<and>
      k_answer k (log1 @ e) (Sys_readfile (proc_path (h_pid h) ''/stat'')) = Inr v \<and>
      stat_start (k_bytes k (log1 @ e) (Sys_readfile (proc_path (h_pid h) ''/stat''))) = Some (h_start h) \<and>
      r = k_answer k (log1 @ e @ [(Sys_readfile (proc_path (h_pid h) ''/stat''), Inr v)])
        (Sys_pidfd_send_signal pidfd SIGKILL))"
proof -
  let ?send = "Sys_pidfd_send_signal pidfd SIGKILL"
  let ?rest = "\<lambda>result. bind_run (look last_errno) (\<lambda>error.
      if result \<noteq> Inr 0 then stop (Os error)
      else bind_run (reap_if_child k (Some pidfd)) (\<lambda>_. reap_monitor k h)) :: unit sysrun"
  have run: "bind_run (open_holder k h) (\<lambda>_. bind_run (sys k ?send) ?rest) log1 = (log', x)"
    using assms by (simp add: stop_holder_def bind_run_def attempted_def)
  have rest: "stage no_kill [] (?rest r)" for r
    by (intro stage_skip stage_look stage_if stage_stop stage_reap)
  obtain log2 y where open_h: "open_holder k h log1 = (log2, y)" by fastforce
  show ?thesis
  proof (cases y)
    case (Inl e)
    with run open_h have "log' = log2" by (simp add: bind_run_def)
    then show ?thesis using stage_calls [OF stage_open_holder open_h] by blast
  next
    case (Inr ns)
    from verify_Some [OF open_holder_Inr, of k h log1 log2 ns] open_h Inr obtain e v where
      e: "log2 = log1 @ e @ [(Sys_readfile (proc_path (h_pid h) ''/stat''), Inr v)]"
        "\<forall>c \<in> fst ` set e. no_pin c \<and> no_kill c"
        "k_answer k (log1 @ e) (Sys_readfile (proc_path (h_pid h) ''/stat'')) = Inr v"
        "stat_start (k_bytes k (log1 @ e) (Sys_readfile (proc_path (h_pid h) ''/stat''))) = Some (h_start h)"
      by blast
    let ?r = "k_answer k log2 ?send"
    from run open_h Inr have "?rest ?r (log2 @ [(?send, ?r)]) = (log', x)"
      by (simp add: bind_run_def sys_def Let_def)
    from stage_calls [OF rest this] obtain B where
      "log' = (log2 @ [(?send, ?r)]) @ B" "\<forall>c \<in> fst ` set B. no_kill c" by blast
    with e have "log' = log1 @ (e @ [(Sys_readfile (proc_path (h_pid h) ''/stat''), Inr v)]) @ (?send, ?r) # B"
      by simp
    with e \<open>\<forall>c \<in> fst ` set B. no_kill c\<close> show ?thesis by blast
  qed
qed

text \<open>
  C9 (safety). However PIDs are reused while \<^verbatim>\<open>stop_holder\<close> runs, and whichever calls fail: if it signals a process
  through a descriptor, the signal is \<^verbatim>\<open>SIGKILL\<close>, the process has the recorded PID at that moment and it
  started at the recorded time. The kernel is any that keeps to what is documented of PIDs.
\<close>

theorem stop_hits_recorded:
  assumes "documented k w"
    and "stop_holder k h log = (log @ pre @ (Sys_pidfd_send_signal fd sig, Inr v) # post, x)"
  shows "sig = SIGKILL \<and> (\<exists>i. owner w (log @ pre) (h_pid h) = Some i \<and> born w i = h_start h) \<and>
    (\<exists>l0. pins (log @ pre) fd = Some (h_pid h, l0))"
proof -
  let ?read = "Sys_readfile (proc_path (h_pid h) ''/stat'')"
  obtain log1 y where opened: "open_pidfd k (h_pid h) log = (log1, y)" by fastforce
  show ?thesis
  proof (cases y)
    case (Inl e)
    have "stage (\<lambda>c. \<forall>fd sig. c \<noteq> Sys_pidfd_send_signal fd sig) [] (open_pidfd k (h_pid h))"
      unfolding open_pidfd_def by (intro stage_plain) simp_all
    from stage_calls [OF this opened] obtain e0 where
      e0: "log1 = log @ e0" "\<forall>c \<in> fst ` set e0. \<forall>fd sig. c \<noteq> Sys_pidfd_send_signal fd sig" by blast
    have "\<exists>e1. log @ pre @ (Sys_pidfd_send_signal fd sig, Inr v) # post = log1 @ e1 \<and>
        (\<forall>c \<in> fst ` set e1. \<forall>fd sig. c \<noteq> Sys_pidfd_send_signal fd sig)"
    proof (cases "e = Os ENOSYS")
      case True
      then have "(bind_run (open_holder k h) (\<lambda>_.
          bind_run (check k (Sys_kill (h_pid h) SIGKILL)) (\<lambda>_.
          bind_run (reap_if_child k None) (\<lambda>_. reap_monitor k h)))) log1 =
          (log @ pre @ (Sys_pidfd_send_signal fd sig, Inr v) # post, x)"
        using assms(2) opened Inl by (simp add: stop_holder_def bind_run_def attempted_def)
      then show ?thesis by (rule stage_calls [OF stop_unpinned])
    next
      case False
      then show ?thesis
        using assms(2) opened Inl
        by (intro exI [of _ "[]"])
          (auto simp: stop_holder_def bind_run_def attempted_def stop_def split: halt.splits if_splits)
    qed
    then obtain e1 where e1: "log @ pre @ (Sys_pidfd_send_signal fd sig, Inr v) # post = log1 @ e1"
        "\<forall>c \<in> fst ` set e1. \<forall>fd sig. c \<noteq> Sys_pidfd_send_signal fd sig" by blast
    then have "e0 @ e1 = pre @ (Sys_pidfd_send_signal fd sig, Inr v) # post" using e0(1) by simp
    then have "(Sys_pidfd_send_signal fd sig, Inr v) \<in> set (e0 @ e1)" by simp
    then have "Sys_pidfd_send_signal fd sig \<in> fst ` set e0 \<union> fst ` set e1" by (force simp: image_iff)
    with e0(2) e1(2) show ?thesis by blast
  next
    case (Inr pidfd)
    from open_pidfd_pins [of k "h_pid h" log log1 pidfd] opened Inr obtain e0 where
      e0: "log1 = log @ e0" "pins log1 pidfd = Some (h_pid h, log)" "\<forall>c \<in> fst ` set e0. no_kill c"
        "\<exists>v. k_answer k log (Sys_pidfd_open (h_pid h)) = Inr v" by blast
    then obtain i where i: "owner w log (h_pid h) = Some i"
      using assms(1) unfolding documented_def by blast
    from stop_pinned [of k h log log1 pidfd] opened Inr assms(2) consider
      e where "log @ pre @ (Sys_pidfd_send_signal fd sig, Inr v) # post = log1 @ e" "\<forall>c \<in> fst ` set e. no_kill c"
    | e v' r B where "log @ pre @ (Sys_pidfd_send_signal fd sig, Inr v) # post =
          log1 @ (e @ [(?read, Inr v')]) @ (Sys_pidfd_send_signal pidfd SIGKILL, r) # B"
        "\<forall>c \<in> fst ` set e. no_pin c \<and> no_kill c" "\<forall>c \<in> fst ` set B. no_kill c"
        "k_answer k (log1 @ e) ?read = Inr v'"
        "stat_start (k_bytes k (log1 @ e) ?read) = Some (h_start h)"
        "r = k_answer k (log1 @ e @ [(?read, Inr v')]) (Sys_pidfd_send_signal pidfd SIGKILL)"
      by (auto simp: append_assoc)
    then show ?thesis
    proof cases
      case 1
      then have "e0 @ e = pre @ (Sys_pidfd_send_signal fd sig, Inr v) # post" using e0(1) by simp
      then have "(Sys_pidfd_send_signal fd sig, Inr v) \<in> set (e0 @ e)" by simp
      with 1(2) e0(3) show ?thesis by force
    next
      case 2
      have "(e0 @ e @ [(?read, Inr v')]) @ (Sys_pidfd_send_signal pidfd SIGKILL, r) # B =
          pre @ (Sys_pidfd_send_signal fd sig, Inr v) # post"
        using 2(1) e0(1) by simp
      from only_place [OF this, where P = "\<lambda>z. \<not> no_kill (fst z)"]
      have same: "pre = e0 @ e @ [(?read, Inr v')]" "fd = pidfd" "sig = SIGKILL" "r = Inr v"
        using 2(2,3) e0(3) by force+
      let ?l = "log1 @ e"
      have pinned: "pins (log @ pre) fd = Some (h_pid h, log)"
        using pins_no_pin [of "e @ [(?read, Inr v')]" log1] 2(2) e0(1,2) same by simp
      have "k_answer k (log @ pre) (Sys_pidfd_send_signal fd sig) = Inr v"
        using 2(6) same e0(1) by simp
      with pinned have own: "owner w (log @ pre) (h_pid h) = owner w log (h_pid h)"
        using assms(1) unfolding documented_def by blast
      obtain j where j: "owner w ?l (h_pid h) = Some j" "born w j = h_start h"
        using 2(4,5) assms(1) unfolding documented_def by blast
      have "owner w (log @ (e0 @ e) @ [(?read, Inr v')]) (h_pid h) = Some i" using own i same by simp
      then have "owner w (log @ (e0 @ e)) (h_pid h) = Some i"
        using assms(1) i unfolding documented_def by blast
      with j e0(1) have "born w i = h_start h" by simp
      with own i pinned same show ?thesis by auto
    qed
  qed
qed

text \<open>A kernel that keeps to it, with one holder running as PID 42.\<close>

definition holder0 :: holder where
  "holder0 =
     \<lparr>h_pid = 42, h_start = 7, h_user = 3, h_net = 3, h_mnt = Some 3, h_egress = False, h_monitor = None\<rparr>"

definition line0 :: bytes where
  "line0 = stat_line 42 ''world-holder'' (''S'' # replicate 18 ''0'' @ [''7''])"

definition steady :: kern where
  "steady =
     \<lparr>k_answer = (\<lambda>log c. case c of
        Sys_pidfd_open p \<Rightarrow> if p = 42 then Inr 5 else Inl ESRCH
      | Sys_pidfd_send_signal _ _ \<Rightarrow> Inr 0
      | Sys_open _ _ \<Rightarrow> Inr 6 | Sys_fstat _ \<Rightarrow> Inr 0
      | Sys_readfile p \<Rightarrow> if p = proc_path 42 ''/stat'' then Inr 0 else Inl ENOENT
      | _ \<Rightarrow> Inl EINVAL),
      k_bytes = (\<lambda>log c. line0),
      k_number = (\<lambda>log c. 0),
      k_meta = (\<lambda>log c. \<lparr>m_dev = 1, m_ino = 3, m_mode = 0, m_rdev = (0, 0)\<rparr>), k_patience = 5\<rparr>"

definition world0 :: pid_world where
  "world0 = \<lparr>owner = (\<lambda>log p. if p = 42 then Some 0 else None), born = (\<lambda>i. 7)\<rparr>"

lemma proc_path_inj: "proc_path p name = proc_path q name \<Longrightarrow> nat p = nat q"
  by (auto simp: proc_path_def dest: show_dec_inj)

lemma steady_line: "stat_start line0 = Some 7"
proof -
  have parts: "list_all plain_field (''S'' # replicate 18 ''0'' @ [''7''])" by code_simp
  have seven: "(''S'' # replicate 18 ''0'' @ [''7'']) ! 19 = show_radix 10 7" by code_simp
  show ?thesis unfolding line0_def using start_of_line [OF parts _ seven, of 42 "''world-holder''"] by (simp del: replicate.simps)
qed

lemma steady_documented: "documented steady world0"
proof -
  show ?thesis
    unfolding documented_def
  proof (intro conjI allI impI)
    fix l p v t
    assume r: "k_answer steady l (Sys_readfile (proc_path p ''/stat'')) = Inr v"
      and t: "stat_start (k_bytes steady l (Sys_readfile (proc_path p ''/stat''))) = Some t"
    from r have "proc_path p ''/stat'' = proc_path 42 ''/stat''" by (simp add: steady_def split: if_splits)
    from proc_path_inj [OF this] have "p = 42" by simp
    moreover from t steady_line have "t = 7" by (simp add: steady_def)
    ultimately show "\<exists>i. owner world0 l p = Some i \<and> born world0 i = t" by (simp add: world0_def)
  qed (simp_all add: steady_def world0_def split: if_splits)
qed

definition stopped0 :: syslog where
  "stopped0 = fst (stop_holder steady holder0 [])"

lemma steady_answers:
  "k_answer steady l (Sys_pidfd_open 42) = Inr 5"
  "k_answer steady l (Sys_pidfd_send_signal fd sig) = Inr 0"
  "k_answer steady l (Sys_open path flags) = Inr 6"
  "k_answer steady l (Sys_fstat fd) = Inr 0"
  "k_answer steady l (Sys_readfile (proc_path 42 ''/stat'')) = Inr 0"
  "k_answer steady l (Sys_waitid_pidfd fd flags) = Inl EINVAL"
  "k_bytes steady l c = line0" "m_ino (k_meta steady l c) = 3" "k_patience steady = 5"
  by (simp_all add: steady_def)

lemma steady_verify:
  "verify steady holder0 log =
     (log @ [(Sys_open (proc_path 42 ''/ns/user'') [O_RDONLY, O_CLOEXEC], Inr 6), (Sys_fstat 6, Inr 0),
        (Sys_open (proc_path 42 ''/ns/net'') [O_RDONLY, O_CLOEXEC], Inr 6), (Sys_fstat 6, Inr 0),
        (Sys_open (proc_path 42 ''/ns/mnt'') [O_RDONLY, O_CLOEXEC], Inr 6), (Sys_fstat 6, Inr 0),
        (Sys_readfile (proc_path 42 ''/stat''), Inr 0)],
      Inr (Some \<lparr>n_user = 6, n_net = 6, n_mnt = Some 6\<rparr>))"
  by (simp add: verify_def open_ns_def start_time_def bind_run_def sys_def sys_meta_def sys_bytes_def
      done_with_def Let_def steady_answers steady_line holder0_def)

lemma steady_open: "open_pidfd steady 42 log = (log @ [(Sys_pidfd_open 42, Inr 5)], Inr 5)"
  by (simp add: open_pidfd_def check_def bind_run_def sys_def ok_or_def done_with_def Let_def steady_answers)

lemma steady_reap:
  "retry steady (Sys_waitid_pidfd fd flags) log = (log @ [(Sys_waitid_pidfd fd flags, Inl EINVAL)], Inr (Inl EINVAL))"
proof -
  have "k_patience steady = Suc 4" by (simp add: steady_answers)
  then show ?thesis
    by (simp only: retry_def retry_from.simps)
      (simp add: bind_run_def sys_def done_with_def Let_def steady_answers)
qed

lemma steady_stop:
  "stop_holder steady holder0 [] =
     ([(Sys_pidfd_open 42, Inr 5),
       (Sys_open (proc_path 42 ''/ns/user'') [O_RDONLY, O_CLOEXEC], Inr 6), (Sys_fstat 6, Inr 0),
       (Sys_open (proc_path 42 ''/ns/net'') [O_RDONLY, O_CLOEXEC], Inr 6), (Sys_fstat 6, Inr 0),
       (Sys_open (proc_path 42 ''/ns/mnt'') [O_RDONLY, O_CLOEXEC], Inr 6), (Sys_fstat 6, Inr 0),
       (Sys_readfile (proc_path 42 ''/stat''), Inr 0), (Sys_pidfd_send_signal 5 SIGKILL, Inr 0),
       (Sys_waitid_pidfd 5 [WEXITED], Inl EINVAL)], Inr ())"
proof -
  have pid: "h_pid holder0 = 42" and "h_monitor holder0 = None" by (simp_all add: holder0_def)
  then have monitor: "reap_monitor steady holder0 = done_with ()" by (simp add: reap_monitor_def)
  show ?thesis
    by (simp add: stop_holder_def pid monitor open_holder_def bind_run_def sys_def done_with_def attempted_def
        look_def reap_if_child_def Let_def steady_answers steady_open steady_verify steady_reap)
qed

lemma stopped0_log: "take 8 stopped0 @ (Sys_pidfd_send_signal 5 SIGKILL, Inr 0) # drop 9 stopped0 = stopped0"
  by (simp add: stopped0_def steady_stop)

theorem stop_hits_recorded_witness:
  "\<exists>i. owner world0 (take 8 stopped0) 42 = Some i \<and> born world0 i = 7"
proof -
  have "stop_holder steady holder0 [] = ([] @ take 8 stopped0 @ (Sys_pidfd_send_signal 5 SIGKILL, Inr 0) # drop 9 stopped0,
      snd (stop_holder steady holder0 []))"
    unfolding append_Nil stopped0_log by (simp add: stopped0_def)
  from stop_hits_recorded [OF steady_documented this] show ?thesis by (simp add: holder0_def)
qed

end
