(* ===== verification/Holder_Life.thy ===== *)
theory Holder_Life
  imports Holder_Stop
begin

text \<open>
  The handshake of a holder with its caller: what it has done when it holds, and that it leaves the
  host's namespaces only when it is pinned.
\<close>

section \<open>Messages\<close>

definition is_tell :: "scall \<Rightarrow> bool" where
  "is_tell c = (case c of Sys_tell fd v \<Rightarrow> fd = 0 | _ \<Rightarrow> False)"

lemma retry_calls:
  "retry_from n k c log = (log', Inr r) \<Longrightarrow>
     \<exists>e. log' = log @ e \<and> (\<forall>d \<in> fst ` set e. d = c) \<and> (\<forall>v. r = Inr v \<longrightarrow> succeeded e = [c])"
proof (induction n arbitrary: log)
  case 0
  then show ?case by (simp add: stop_def)
next
  case (Suc n)
  let ?r = "k_answer k log c"
  show ?case
  proof (cases "?r = Inl EINTR")
    case True
    with Suc.prems have "retry_from n k c (log @ [(c, ?r)]) = (log', Inr r)"
      by (simp add: bind_run_def sys_def Let_def)
    from Suc.IH [OF this] obtain e where
      "log' = (log @ [(c, ?r)]) @ e" "\<forall>d \<in> fst ` set e. d = c" "\<forall>v. r = Inr v \<longrightarrow> succeeded e = [c]" by blast
    with True show ?thesis by (intro exI [of _ "(c, ?r) # e"]) simp
  next
    case False
    with Suc.prems have "log' = log @ [(c, ?r)]" "r = ?r"
      by (auto simp: bind_run_def sys_def done_with_def Let_def)
    then show ?thesis by (intro exI [of _ "[(c, ?r)]"]) auto
  qed
qed

lemma stage_or_exit: "stage G [] (or_exit b)"
  unfolding or_exit_def by (intro stage_plain)

lemma stage_checked:
  assumes "stage G [] r" and "\<And>log log' e. r log = (log', Inr True) \<Longrightarrow> log' = log @ e \<Longrightarrow> in_order [p] (succeeded e)"
    and "stage G qs (f ())"
  shows "stage G (p # qs) (bind_run r (\<lambda>b. bind_run (or_exit b) f))"
proof -
  have "stage G ([p] @ qs) (bind_run r (\<lambda>b. bind_run (or_exit b) f))"
  proof (rule stage_bind_cases)
    fix log
    obtain e where e: "fst (r log) = log @ e" "\<forall>c \<in> fst ` set e. G c"
      using assms(1) unfolding stage_def by blast
    have stopped: "stage G ps (bind_run (or_exit False) f)" for ps
      unfolding or_exit_def by (simp add: stage_def bind_run_def stop_def)
    have going: "stage G qs (bind_run (or_exit True) f)"
      using stage_skip [OF stage_or_exit, of G qs f True] assms(3) by simp
    have "in_order [p] (succeeded e)" if "snd (r log) = Inr True"
      using assms(2) [of log "log @ e" e] e(1) that by (metis prod.collapse)
    then show "\<exists>ext. fst (r log) = log @ ext \<and> (\<forall>c \<in> fst ` set ext. G c) \<and>
        (\<forall>a. snd (r log) = Inr a \<longrightarrow>
           in_order [p] (succeeded ext) \<and> stage G qs (bind_run (or_exit a) f) \<or>
           stage G ([p] @ qs) (bind_run (or_exit a) f))"
      using e stopped going by (intro exI [of _ e] conjI allI impI) (simp_all, metis (full_types))
  qed
  then show ?thesis by simp
qed

lemma stage_tell:
  assumes "G (Sys_tell 0 v)" and "stage G qs (f ())"
  shows "stage G (is_tell # qs) (bind_run (tell k v) (\<lambda>b. bind_run (or_exit b) f))"
proof (rule stage_checked)
  show "stage G [] (tell k v)" unfolding tell_def using assms(1) by (intro stage_plain)
  fix log log' e assume "tell k v log = (log', Inr True)" "log' = log @ e"
  then show "in_order [is_tell] (succeeded e)"
    by (auto simp: tell_def bind_run_def sys_def done_with_def Let_def is_tell_def)
qed (rule assms(2))

lemma expect_True:
  assumes "expect_byte k log = (log @ e, Inr True)"
  shows "succeeded e = [Sys_read 1 1]"
proof -
  obtain log1 r where r: "retry k (Sys_read 1 1) log = (log1, Inr r)" "log1 = log @ e" "r = Inr 1"
    using assms unfolding expect_byte_def by (rule bind_run_Inr) (auto simp: done_with_def)
  then show ?thesis
    using retry_calls [of "k_patience k" k "Sys_read 1 1" log log1 r] by (auto simp: retry_def)
qed

lemma stage_expect:
  assumes "G (Sys_read 1 1)" and "stage G qs (f ())"
  shows "stage G ((=) (Sys_read 1 1) # qs) (bind_run (expect_byte k) (\<lambda>b. bind_run (or_exit b) f))"
proof (rule stage_checked)
  show "stage G [] (expect_byte k)" unfolding expect_byte_def using assms(1) by (intro stage_plain)
  show "in_order [(=) (Sys_read 1 1)] (succeeded e)"
    if "expect_byte k log = (log', Inr True)" "log' = log @ e" for log log' e
    using expect_True [of k log e] that by simp
qed (rule assms(2))

section \<open>Leaving the host's namespaces\<close>

text \<open>The calls before the pin: none that unshares, mounts, sends, forks pasta's monitor or runs a program.\<close>

fun no_leave :: "scall \<Rightarrow> bool" where
  "no_leave (Sys_unshare flags) = False"
| "no_leave (Sys_mount a b c d e) = False"
| "no_leave (Sys_pipe2 flags) = False"
| "no_leave (Sys_execve p a e) = False"
| "no_leave (Sys_send fd b flags) = False"
| "no_leave _ = True"

lemma stage_fail_holder: "(\<And>v. G (Sys_tell 0 v)) \<Longrightarrow> stage G ps (fail_holder k e)"
  unfolding fail_holder_def tell_def by (intro stage_skip stage_plain) simp_all

lemma stage_or_fail: "(\<And>e. stage G [] (f e)) \<Longrightarrow> stage G [] (or_fail f r)"
  unfolding or_fail_def by (intro stage_sum stage_done)

lemma stage_pinned: "stage no_leave [is_tell, (=) (Sys_read 1 1)] (holder_pinned k job)"
proof -
  have close: "stage no_leave [] (attempted (close_from k 2))"
    by (intro stage_catch stage_close_from) simp_all
  have signals: "stage no_leave [] (reset_signals k)"
    unfolding reset_signals_def by (intro stage_plain) simp_all
  have fork: "stage no_leave [] (case r of Inl _ \<Rightarrow> stop (Exited 125) | Inr p \<Rightarrow> if p \<noteq> 0 then stop (Exited 0) else done_with ())"
    for r :: "errno + int"
    by (intro stage_plain)
  have dups: "stage no_leave [] (first_failing k [Sys_dup2 (hj_report job) 0, Sys_dup2 (hj_ack job) 1])"
    by (rule stage_first_failing) simp
  show ?thesis
    unfolding holder_pinned_def
    by (rule stage_skip [OF stage_sys] stage_skip [OF stage_or_exit] stage_skip [OF fork]
        stage_skip [OF stage_quietly] stage_skip [OF dups] stage_skip [OF stage_for_each [OF stage_quietly]]
        stage_skip [OF close] stage_skip [OF signals] stage_tell stage_expect stage_or_fail stage_fail_holder | simp)+
qed

section \<open>The rest of its life\<close>

lemma no_leave_send: "no_leave c \<Longrightarrow> no_send c"
  by (cases c) simp_all

abbreviation grows :: "'a sysrun \<Rightarrow> bool" where
  "grows \<equiv> stage no_send []"

lemma read_loop_grows:
  "\<exists>e. fst (read_loop k fd cap acc log) = log @ e \<and> (\<forall>c \<in> fst ` set e. no_send c)"
proof (induction k fd cap acc log rule: read_loop.induct)
  case (1 k fd cap acc log)
  define call where "call = Sys_read fd (cap - length acc)"
  define r where "r = k_answer k log call"
  define got where "got = map (byte_at (k_bytes k log call))
      [0..<min (case r of Inl _ \<Rightarrow> 0 | Inr n \<Rightarrow> nat n) (cap - length acc)]"
  have step: "read_loop k fd cap acc log =
      (if cap \<le> length acc then (log, acc)
       else if got = [] then (log @ [(call, r)], acc) else read_loop k fd cap (acc @ got) (log @ [(call, r)]))"
    by (subst read_loop.simps, unfold Let_def call_def r_def got_def, rule refl)
  show ?case
  proof (cases "cap \<le> length acc \<or> got = []")
    case True
    then show ?thesis by (auto simp: step call_def)
  next
    case False
    then obtain e where "fst (read_loop k fd cap (acc @ got) (log @ [(call, r)])) = (log @ [(call, r)]) @ e"
        "\<forall>c \<in> fst ` set e. no_send c"
      using 1 [OF _ call_def r_def got_def] by auto
    with False show ?thesis by (intro exI [of _ "(call, r) # e"]) (simp add: step call_def)
  qed
qed

lemma grows_read_raw: "grows (read_raw k path cap)"
proof -
  have "grows (\<lambda>log. (case read_loop k fd cap [] log of (log', s) \<Rightarrow> (log', Inr s)))" for fd
  proof (rule stageI)
    fix log
    obtain e where "fst (read_loop k fd cap [] log) = log @ e" "\<forall>c \<in> fst ` set e. no_send c"
      using read_loop_grows by blast
    then show "\<exists>ext. fst (case read_loop k fd cap [] log of (log', s) \<Rightarrow> (log', Inr s)) = log @ ext \<and>
        (\<forall>c \<in> fst ` set ext. no_send c) \<and>
        ((\<exists>a. snd (case read_loop k fd cap [] log of (log', s) \<Rightarrow> (log', Inr s)) = Inr a) \<longrightarrow>
           in_order [] (succeeded ext))"
      by (intro exI [of _ e]) (auto split: prod.split)
  qed
  then show ?thesis unfolding read_raw_def by (intro stage_plain) simp_all
qed

lemma grows_start_pasta: "grows (start_pasta k child life)"
proof -
  have net: "grows (network_configured k)"
    unfolding network_configured_def by (intro stage_plain grows_read_raw)
  have "grows (await_network n k child)" for n
    by (induction n) (auto intro!: stage_plain net)
  then show ?thesis unfolding start_pasta_def by (intro stage_plain) simp_all
qed

lemma grows_wait_life: "grows (wait_life k)"
  unfolding wait_life_def by (intro stage_plain) simp_all

lemma grows_monitor: "grows (pasta_monitor k eg user net life holder_end)"
proof -
  have watch: "grows (watch_pasta n k pasta)" for n pasta
    by (induction n) (auto intro!: stage_plain grows_wait_life)
  show ?thesis
    unfolding pasta_monitor_def
    by (intro stage_plain stage_first_failing grows_wait_life watch stage_close_from) simp_all
qed

lemma grows_fork_pasta: "grows (fork_pasta k eg p)"
  unfolding fork_pasta_def
  by (auto simp: grows_monitor intro!: stage_plain split: res.split)

lemma grows_finish: "grows (finish_monitor k monitor life)" "grows (finish_started k pasta)"
proof -
  show 1: "grows (finish_monitor k monitor life)" for monitor life
    unfolding finish_monitor_def by (intro stage_plain) simp_all
  show "grows (finish_started k pasta)" unfolding finish_started_def by (intro stage_plain 1)
qed

lemma stage_fail_started: "stage no_send ps (fail_started k pasta e)"
  unfolding fail_started_def by (intro stage_skip grows_finish stage_fail_holder) simp

lemma grows_fork: "grows (holder_fork k job)"
  unfolding holder_fork_def
  by (intro stage_plain grows_fork_pasta stage_fail_holder) simp_all

lemma grows_connect: "grows (holder_connect k job pasta)"
  unfolding holder_connect_def bind_resolv_def bind_mount_def
  by (auto intro!: stage_plain grows_start_pasta stage_fail_started grows_finish split: option.split)

lemma grows_hold: "grows (hold k keep)"
proof -
  have reap: "grows (reap_all n k)" for n
    by (induction n) (auto intro!: stage_plain)
  show ?thesis
    unfolding hold_def by (intro stage_plain reap stage_close_from stage_or_exit) simp_all
qed

definition temp_steps :: "private_temp \<Rightarrow> (scall \<Rightarrow> bool) list" where
  "temp_steps temp =
     [(=) (Sys_unshare [CLONE_NEWNS]), (=) (Sys_mount None ''/'' None [MS_REC, MS_SLAVE] None)] @
     (case pt_outside temp of None \<Rightarrow> []
      | Some target \<Rightarrow> [(=) (Sys_mount (Some (pt_var_tmp temp)) target None [MS_BIND] None)]) @
     [(=) (Sys_mount (Some (pt_tmp temp)) ''/tmp'' None [MS_BIND] None)]"

lemma stage_bind_mount:
  "stage no_send [(=) (Sys_mount (Some source) target None [MS_BIND] None)] (bind_mount k source target)"
  unfolding bind_mount_def by (intro stage_hit stage_done) simp_all

lemma send_namespaces: "stage no_send (namespace_steps maps) (enter_new_namespaces k maps)"
  by (rule stage_mono [OF stage_namespaces]) simp

lemma stage_private_temp: "stage no_send (temp_steps temp) (enter_private_temp k temp)"
proof -
  have walk: "grows (walk_inside k dir names)" for dir names
    by (induction names arbitrary: dir) (auto intro!: stage_plain)
  have outside: "stage no_send
      (case pt_outside temp of None \<Rightarrow> []
       | Some target \<Rightarrow> [(=) (Sys_mount (Some (pt_var_tmp temp)) target None [MS_BIND] None)])
      (case pt_outside temp of None \<Rightarrow> done_with () | Some target \<Rightarrow> bind_mount k (pt_var_tmp temp) target)"
    by (auto intro: stage_done stage_bind_mount split: option.split)
  have inside: "grows (if pt_inside temp = [] then done_with ()
     else bind_run (check k (Sys_open ''/tmp'' walk_flags)) (\<lambda>tmp.
          bind_run (walk_inside k tmp (pt_inside temp)) (\<lambda>dir.
          bind_mount k (pt_var_tmp temp) (the (until_nul (fd_path (word_of_int dir)))))))"
    by (intro stage_plain walk stage_less [OF stage_bind_mount]) simp_all
  show ?thesis
    unfolding enter_private_temp_def temp_steps_def append_Cons append_Nil
    by (intro stage_hit stage_bind [OF outside] stage_bind [OF stage_bind_mount, simplified append_Cons append_Nil] inside)
      simp_all
qed

definition enter_steps :: "holder_job \<Rightarrow> (scall \<Rightarrow> bool) list" where
  "enter_steps job = namespace_steps (hj_maps job) @ temp_steps (hj_temp job)"

lemma stage_enter: "stage no_send (enter_steps job) (holder_enter k job pasta)"
proof -
  have enter: "stage no_send (enter_steps job)
      (bind_run (enter_new_namespaces k (hj_maps job)) (\<lambda>_. enter_private_temp k (hj_temp job)))"
    unfolding enter_steps_def by (rule stage_bind [OF send_namespaces stage_private_temp])
  have "stage no_send (enter_steps job @ []) (holder_enter k job pasta)"
    unfolding holder_enter_def
    by (rule stage_attempted_bind [OF enter]) (simp_all add: or_fail_def stage_fail_started stage_done)
  then show ?thesis by simp
qed

lemma stage_holder_report: "stage no_send [is_tell] (holder_report k pasta connected)"
proof -
  have more: "grows (case (pasta, connected) of
      (Some (monitor, _), Some _) \<Rightarrow> bind_run (tell k (Inr monitor)) or_exit | _ \<Rightarrow> done_with ())"
    unfolding tell_def by (auto intro!: stage_plain stage_or_exit split: option.split)
  show ?thesis
    unfolding holder_report_def by (rule stage_skip [OF stage_quietly], simp, rule stage_tell, simp, rule more)
qed

lemma stage_commit: "stage no_send [(=) (Sys_read 1 1)] (holder_commit k pasta connected)"
proof -
  define f where "f = (\<lambda>committed. if committed then quietly k (Sys_close 1)
     else bind_run (case (pasta, connected) of
              (Some (monitor, _), Some life) \<Rightarrow> finish_monitor k monitor life
            | _ \<Rightarrow> done_with ()) (\<lambda>_. stop (Exited 125)))"
  have "stage no_send ([(=) (Sys_read 1 1)] @ []) (bind_run (expect_byte k) f)"
  proof (rule stage_bind_cases)
    fix log
    have "grows (expect_byte k)" unfolding expect_byte_def by (intro stage_plain) simp_all
    then obtain e where e: "fst (expect_byte k log) = log @ e" "\<forall>c \<in> fst ` set e. no_send c"
      unfolding stage_def by blast
    have stopped: "stage no_send ps (f False)" for ps
      unfolding f_def by (auto intro!: stage_skip stage_stop stage_done grows_finish split: option.split)
    have "in_order [(=) (Sys_read 1 1)] (succeeded e)" if "snd (expect_byte k log) = Inr True"
      using expect_True [of k log e] e(1) that by (metis in_order.simps prod.collapse)
    moreover have "grows (f True)" by (simp add: f_def stage_quietly)
    ultimately have "\<forall>a. snd (expect_byte k log) = Inr a \<longrightarrow>
        in_order [(=) (Sys_read 1 1)] (succeeded e) \<and> grows (f a) \<or>
        stage no_send ([(=) (Sys_read 1 1)] @ []) (f a)"
      using stopped by (metis (full_types))
    with e show "\<exists>ext. fst (expect_byte k log) = log @ ext \<and> (\<forall>c \<in> fst ` set ext. no_send c) \<and>
        (\<forall>a. snd (expect_byte k log) = Inr a \<longrightarrow>
           in_order [(=) (Sys_read 1 1)] (succeeded ext) \<and> grows (f a) \<or>
           stage no_send ([(=) (Sys_read 1 1)] @ []) (f a))"
      by blast
  qed
  then show ?thesis by (simp add: holder_commit_def f_def)
qed

lemma stage_holder:
  "stage no_send ([is_tell, (=) (Sys_read 1 1)] @ enter_steps job @ [is_tell] @ [(=) (Sys_read 1 1)])
     (holder_process k job)"
  unfolding holder_process_def
  by (intro stage_bind [OF stage_mono [OF stage_pinned no_leave_send]] stage_skip [OF grows_fork] stage_bind [OF stage_enter]
      stage_skip [OF grows_connect] stage_bind [OF stage_holder_report] stage_last [OF stage_commit] grows_hold)

text \<open>
  A holder that holds, whatever the kernel answers, has told its caller its PID, has then been
  pinned (it has read one byte), has then entered the new user, network and mount namespaces with the
  workspace's directories bound over \<^verbatim>\<open>/tmp\<close> and \<^verbatim>\<open>/var/tmp\<close>, has then told its status, and has read a
  second byte, which its caller sends when the record is persisted.
\<close>

theorem holder_holds:
  assumes "holder_process k job log = (log', Inr ())"
  shows "\<exists>ext. log' = log @ ext \<and>
    in_order ([is_tell, (=) (Sys_read 1 1)] @ enter_steps job @ [is_tell] @ [(=) (Sys_read 1 1)]) (succeeded ext)"
  using stage_reached [OF stage_holder assms] by blast


text \<open>A kernel and a caller that let the holder hold, without outbound network.\<close>

definition welcoming :: kern where
  "welcoming = granting\<lparr>k_answer := (\<lambda>log c. case c of
      Sys_tell _ _ \<Rightarrow> Inr 4 | Sys_read _ _ \<Rightarrow> Inr 1 | Sys_waitpid _ _ \<Rightarrow> Inl EINVAL | _ \<Rightarrow> k_answer granting log c)\<rparr>"

definition job0 :: holder_job where
  "job0 =
     \<lparr>hj_maps = current_maps 0 0,
      hj_temp = \<lparr>pt_tmp = ''/r/tmp'', pt_var_tmp = ''/r/var'', pt_outside = None, pt_inside = []\<rparr>,
      hj_egress = None, hj_report = 4, hj_ack = 5, hj_report_read = 6, hj_ack_write = 7\<rparr>"

lemma job0_holds: "snd (holder_process welcoming job0 []) = Inr ()"
  by code_simp

theorem holder_holds_witness:
  "in_order ([is_tell, (=) (Sys_read 1 1)] @ enter_steps job0 @ [is_tell] @ [(=) (Sys_read 1 1)])
     (succeeded (fst (holder_process welcoming job0 [])))"
proof -
  have "holder_process welcoming job0 [] = (fst (holder_process welcoming job0 []), Inr ())"
    using job0_holds by (simp add: prod_eq_iff)
  from holder_holds [OF this] show ?thesis by simp
qed

lemma job0_leaves: "list_ex (\<lambda>e. \<not> no_leave (fst e)) (fst (holder_process welcoming job0 []))"
  by code_simp


end
