(* ===== verification/Workspace_Setup.thy ===== *)
theory Workspace_Setup
  imports Holder_Life
begin

text \<open>
  Setting a workspace up, tearing it down and running a command in it on Linux: \<^verbatim>\<open>setup\<close>,
  \<^verbatim>\<open>teardown\<close>, \<^verbatim>\<open>holder\<close> and \<^verbatim>\<open>linux_exec\<close> of \<^verbatim>\<open>crates/world-runtime/src/silo.rs\<close>. They join the registry
  (Registry) with the holder processes (Holder): a state is the disk of the registries, the log of
  the system calls, and the contents of \<^verbatim>\<open>holders.json\<close> in the state directory at hand, none if there
  is no such file.
\<close>

section \<open>State\<close>

record site =
  s_disk :: disk
  s_log :: syslog
  s_holders :: "(bytes, holder) btree option"

datatype trouble = Faulty fault | Halted halt

type_synonym 'a site_run = "(site, trouble, 'a) run"

definition on_disk :: "'a act \<Rightarrow> 'a site_run" where
  "on_disk m = (\<lambda>st. case m (s_disk st) of (d, r) \<Rightarrow>
     (st\<lparr>s_disk := d\<rparr>, case r of Inl e \<Rightarrow> Inl (Faulty e) | Inr a \<Rightarrow> Inr a))"

definition on_kernel :: "'a sysrun \<Rightarrow> 'a site_run" where
  "on_kernel r = (\<lambda>st. case r (s_log st) of (log, x) \<Rightarrow>
     (st\<lparr>s_log := log\<rparr>, case x of Inl h \<Rightarrow> Inl (Halted h) | Inr a \<Rightarrow> Inr a))"

definition tried :: "'a site_run \<Rightarrow> (trouble + 'a) site_run" where
  "tried r = (\<lambda>st. case r st of (st', x) \<Rightarrow> (st', Inr x))"

text \<open>
  The JSON text of the records and the random name of a temporary file are those of libraries.
\<close>

record holder_files =
  f_encode :: "(bytes, holder) btree \<Rightarrow> bytes"
  f_temp :: bytes

definition holders_file :: "bytes \<Rightarrow> bytes" where
  "holders_file state = join_path state ''holders.json''"

section \<open>The records\<close>

text \<open>The registry's lock: its directory is made, and the file opened and locked.\<close>

definition lock_state :: "kern \<Rightarrow> bytes \<Rightarrow> unit site_run" where
  "lock_state k state = on_kernel (bind_run (check k (Sys_lock (join_path state ''registry.lock''))) (\<lambda>_. done_with ()))"

text \<open>\<^verbatim>\<open>read_map\<close>: a file that is not there is an empty map, and any other error is passed on.\<close>

definition read_holders :: "kern \<Rightarrow> bytes \<Rightarrow> (bytes, holder) btree site_run" where
  "read_holders k state =
     bind_run (on_kernel (sys k (Sys_readfile (holders_file state)))) (\<lambda>r.
     bind_run (look s_holders) (\<lambda>stored.
     case (stored, r) of
       (None, Inl e) \<Rightarrow> if e = ENOENT then done_with [] else stop (Halted (Os e))
     | (None, Inr _) \<Rightarrow> done_with []
     | (Some m, Inl e) \<Rightarrow> stop (Halted (Os e))
     | (Some m, Inr _) \<Rightarrow> done_with m))"

text \<open>\<^verbatim>\<open>persist\<close>: written beside, synced, renamed into place, and the directory synced.\<close>

definition persist_holders :: "kern \<Rightarrow> holder_files \<Rightarrow> bytes \<Rightarrow> (bytes, holder) btree \<Rightarrow> unit site_run" where
  "persist_holders k fx state holders =
     bind_run (on_kernel (check k (Sys_open (join_path state (f_temp fx)) [O_RDWR, O_CREAT, O_CLOEXEC]))) (\<lambda>fd.
     bind_run (on_kernel (write_all k fd (f_encode fx holders @ [newline]))) (\<lambda>_.
     bind_run (on_kernel (check k (Sys_fsync (join_path state (f_temp fx))))) (\<lambda>_.
     bind_run (on_kernel (check k (Sys_rename (holders_file state)))) (\<lambda>_.
     bind_run (\<lambda>st. (st\<lparr>s_holders := Some holders\<rparr>, Inr ())) (\<lambda>_.
     bind_run (on_kernel (check k (Sys_open state [O_RDONLY, O_CLOEXEC]))) (\<lambda>_.
     bind_run (on_kernel (check k (Sys_fsync state))) (\<lambda>_. done_with ())))))))"

definition recorded_holder :: "kern \<Rightarrow> bytes \<Rightarrow> bytes \<Rightarrow> holder site_run" where
  "recorded_holder k state wid =
     bind_run (read_holders k state) (\<lambda>holders.
     case bt_get holders wid of
       None \<Rightarrow> stop (Halted (Refused ''workspace namespace is not running; run world workspace setup''))
     | Some h \<Rightarrow> done_with h)"

section \<open>Setting up\<close>

text \<open>Whether a holder that is still there must be replaced.\<close>

definition outdated :: "kern \<Rightarrow> host_paths \<Rightarrow> pasta_env \<Rightarrow> holder \<Rightarrow> bytes \<Rightarrow> bool \<Rightarrow> bool sysrun" where
  "outdated k host env h root egress =
     (if legacy h then done_with True
      else bind_run (temp_is k host h root) (\<lambda>same.
        if \<not> same then done_with True
        else if h_egress h \<and> pe_chosen env = Some [] then done_with True
        else if \<not> egress then done_with False
        else if \<not> h_egress h then done_with True
        else bind_run (pasta_running k h) (\<lambda>running. done_with (\<not> running))))"

text \<open>The record that is there, before a new holder: whether one is to be started.\<close>

definition settle_holder :: "kern \<Rightarrow> host_paths \<Rightarrow> pasta_env \<Rightarrow> holder \<Rightarrow> bytes \<Rightarrow> bool \<Rightarrow> bool sysrun" where
  "settle_holder k host env h root egress =
     bind_run (verify k h) (\<lambda>ns.
     if ns \<noteq> None then
       bind_run (outdated k host env h root egress) (\<lambda>old.
       if old then bind_run (stop_holder k h) (\<lambda>_. done_with True) else done_with False)
     else bind_run (reap_stale_holder k h) (\<lambda>_. done_with True))"

definition record_started ::
  "kern \<Rightarrow> holder_files \<Rightarrow> bytes \<Rightarrow> bytes \<Rightarrow> (bytes, holder) btree \<Rightarrow> started \<Rightarrow> unit site_run" where
  "record_started k fx state wid holders started =
     bind_run (tried (persist_holders k fx state (bt_insert wid (st_holder started) holders))) (\<lambda>r.
     case r of
       Inl err \<Rightarrow> bind_run (tried (on_kernel (kill_started k started))) (\<lambda>_. stop err)
     | Inr _ \<Rightarrow> on_kernel (commit_started k started))"

definition setup_workspace ::
  "kern \<Rightarrow> env \<Rightarrow> host_paths \<Rightarrow> pasta_env \<Rightarrow> holder_files \<Rightarrow> id_maps \<Rightarrow> bytes \<Rightarrow> world \<Rightarrow> unit site_run" where
  "setup_workspace k v host env fx maps state world =
     bind_run (on_disk (owned_temp_root v state world)) (\<lambda>(w, root).
     bind_run (on_kernel (\<lambda>log. (log, new_private_temp host root))) (\<lambda>temp.
     bind_run (on_kernel (new_egress k env root)) (\<lambda>egress.
     bind_run (lock_state k state) (\<lambda>_.
     bind_run (read_holders k state) (\<lambda>holders.
     bind_run (case bt_get holders (w_id w) of
         None \<Rightarrow> done_with True
       | Some h \<Rightarrow> on_kernel (settle_holder k host env h root (egress \<noteq> None))) (\<lambda>needed.
     if \<not> needed then done_with ()
     else bind_run (on_kernel (start_holder k maps temp egress)) (\<lambda>started.
          record_started k fx state (w_id w) holders started)))))))"

section \<open>Tearing down\<close>

definition forget_holder :: "kern \<Rightarrow> holder \<Rightarrow> unit sysrun" where
  "forget_holder k h =
     bind_run (verify k h) (\<lambda>ns. if ns \<noteq> None then stop_holder k h else reap_stale_holder k h)"

definition teardown_workspace :: "kern \<Rightarrow> holder_files \<Rightarrow> bytes \<Rightarrow> world \<Rightarrow> unit site_run" where
  "teardown_workspace k fx state world =
     bind_run (lock_state k state) (\<lambda>_.
     bind_run (read_holders k state) (\<lambda>holders.
     case bt_get holders (w_id world) of
       None \<Rightarrow> done_with ()
     | Some h \<Rightarrow>
         bind_run (on_kernel (forget_holder k h)) (\<lambda>_.
         persist_holders k fx state (bt_remove (w_id world) holders))))"

section \<open>Running a command\<close>

definition join_namespaces :: "kern \<Rightarrow> fd \<Rightarrow> fd \<Rightarrow> fd \<Rightarrow> unit sysrun" where
  "join_namespaces k user mnt net =
     bind_run (check k (Sys_setns user CLONE_NEWUSER)) (\<lambda>_.
     bind_run (check k (Sys_setns mnt CLONE_NEWNS)) (\<lambda>_.
     bind_run (check k (Sys_setns net CLONE_NEWNET)) (\<lambda>_. done_with ())))"

record exec_job =
  x_user :: fd
  x_mnt :: fd
  x_net :: fd
  x_cwd :: bytes
  x_resolv :: "(bytes \<times> int \<times> int) option"

text \<open>The setup of the child, as the network's is \<open>network_setup\<close>.\<close>

definition workspace_join :: "kern \<Rightarrow> exec_job \<Rightarrow> unit sysrun" where
  "workspace_join k x =
     bind_run (join_namespaces k (x_user x) (x_mnt x) (x_net x)) (\<lambda>_.
     bind_run (check k (Sys_chdir (x_cwd x))) (\<lambda>_.
     bind_run (case x_resolv x of None \<Rightarrow> done_with () | Some (path, own) \<Rightarrow> heal_resolv k path own) (\<lambda>_.
     bind_run (close_extra_descriptors k) (\<lambda>_.
     bind_run (enter_pid_namespace k) (\<lambda>_. drop_capabilities k)))))"

definition exec_workdir :: "env \<Rightarrow> world \<Rightarrow> bytes outcome_of" where
  "exec_workdir v world =
     (if stale_workdir v (w_workdir world) then Inl SharedTemp
      else bind_of (run_workdir v (w_workdir world)) (\<lambda>dir. bind_of (check_workdir v dir) (\<lambda>_. Inr dir)))"

definition kind_of :: "meta \<Rightarrow> int" where
  "kind_of stat = and (m_mode stat) 0xF000"

text \<open>\<^verbatim>\<open>pin_stdin_with(false)\<close>: the duplicate is checked, not what descriptor 0 is later.\<close>

definition pin_stdin :: "kern \<Rightarrow> fd option sysrun" where
  "pin_stdin k =
     bind_run (sys k (Sys_fcntl 0 F_DUPFD_CLOEXEC 3)) (\<lambda>r.
     case r of
       Inl e \<Rightarrow> if e = EBADF then done_with None else stop (Os e)
     | Inr fd \<Rightarrow>
         bind_run (sys_meta k (Sys_fstat fd)) (\<lambda>(r, stat).
         bind_run (ok_or r) (\<lambda>_.
         if kind_of stat = 0xC000 then stop (Refused ''socket stdin is not allowed; use a pipe'')
         else done_with (Some fd))))"

text \<open>The \<^verbatim>\<open>resolv.conf\<close> of the workspace, with its identity, where the holder has outbound network.\<close>

definition own_resolv :: "kern \<Rightarrow> holder \<Rightarrow> bytes \<Rightarrow> (bytes \<times> int \<times> int) option sysrun" where
  "own_resolv k h root =
     (if \<not> h_egress h then done_with None
      else bind_run (sys_meta k (Sys_stat (join_path root ''resolv.conf''))) (\<lambda>(r, stat).
        case r of
          Inl _ \<Rightarrow> done_with None
        | Inr _ \<Rightarrow>
            if has_nul (join_path root ''resolv.conf'') then stop (Refused ''path contains NUL'')
            else done_with (Some (join_path root ''resolv.conf'', m_dev stat, m_ino stat))))"

text \<open>
  What \<^verbatim>\<open>linux_exec\<close> prepares before it spawns: the stdin, the directory and the namespaces to join, from a
  holder that is verified.
\<close>

definition prepare_exec :: "kern \<Rightarrow> env \<Rightarrow> host_paths \<Rightarrow> bytes \<Rightarrow> world \<Rightarrow> (fd option \<times> exec_job) site_run" where
  "prepare_exec k v host state world =
     bind_run (on_disk (lift (exec_workdir v world))) (\<lambda>dir.
     bind_run (on_kernel (pin_stdin k)) (\<lambda>stdin.
     bind_run (recorded_holder k state (w_id world)) (\<lambda>h.
     bind_run (require (Halted (Refused ''set up before it had a private /tmp'')) (\<not> legacy h)) (\<lambda>_.
     bind_run (on_disk (some_or NoTempRoot (w_temp_root world))) (\<lambda>root.
     bind_run (on_kernel (temp_is k host h root)) (\<lambda>same.
     bind_run (require (Halted (Refused ''temp directory changed since setup'')) same) (\<lambda>_.
     on_kernel
       (bind_run (open_holder k h) (\<lambda>ns.
        bind_run (above_stdio k (n_user ns)) (\<lambda>user.
        bind_run (above_stdio k (n_net ns)) (\<lambda>net.
        bind_run (case n_mnt ns of None \<Rightarrow> stop (Refused ''workspace mount namespace'') | Some mnt \<Rightarrow> above_stdio k mnt) (\<lambda>mnt.
        bind_run (require (Refused ''path contains NUL'') (\<not> has_nul dir)) (\<lambda>_.
        bind_run (own_resolv k h root) (\<lambda>resolv.
        done_with (stdin, \<lparr>x_user = user, x_mnt = mnt, x_net = net, x_cwd = dir, x_resolv = resolv\<rparr>)))))))))))))))"

text \<open>Its environment: that of the caller, but its own workspace and the private \<^verbatim>\<open>/tmp\<close>.\<close>

definition exec_env :: "(bytes \<times> bytes) list \<Rightarrow> world \<Rightarrow> (bytes \<times> bytes) list" where
  "exec_env vars world =
     filter (\<lambda>(key, _). key \<noteq> ''WORLD_ID'' \<and> key \<noteq> ''TMPDIR'') vars @
     [(''WORLD_ID'', w_id world), (''TMPDIR'', ''/tmp'')]"

end
