(* ===== verification/Workspace_Records.thy ===== *)
theory Workspace_Records
  imports Workspace_Setup
begin

text \<open>
  The records of holders across setup and teardown: which of them change, and that a holder that
  holds is recorded.
\<close>

section \<open>Bytes sent\<close>

definition sends :: "syslog \<Rightarrow> nat" where
  "sends log = length (filter (\<lambda>c. \<not> no_send c) (succeeded log))"

definition reads_of :: "syslog \<Rightarrow> nat" where
  "reads_of log = length (filter ((=) (Sys_read 1 1)) (succeeded log))"

text \<open>\<open>few n r\<close>: the run only adds to the log, and sends at most \<open>n\<close> bytes.\<close>

definition few :: "nat \<Rightarrow> 'a sysrun \<Rightarrow> bool" where
  "few n r \<longleftrightarrow> (\<forall>log. \<exists>e. fst (r log) = log @ e \<and> sends e \<le> n)"

lemma sends_append [simp]: "sends (a @ b) = sends a + sends b"
  by (simp add: sends_def)

lemma sends_Nil [simp]: "sends [] = 0"
  by (simp add: sends_def)

lemma sends_quiet: "\<forall>c \<in> fst ` set e. no_send c \<Longrightarrow> sends e = 0"
  by (auto simp: sends_def succeeded_def filter_empty_conv split: sum.splits)

lemma few_quiet: "grows r \<Longrightarrow> few 0 r"
  unfolding few_def stage_def using sends_quiet by (metis le_refl)

lemma few_bind:
  assumes "few n r" and "\<And>a. few m (f a)"
  shows "few (n + m) (bind_run r f)"
  unfolding few_def
proof
  fix log
  obtain e1 where e1: "fst (r log) = log @ e1" "sends e1 \<le> n" using assms(1) unfolding few_def by blast
  show "\<exists>e. fst (bind_run r f log) = log @ e \<and> sends e \<le> n + m"
  proof (cases "snd (r log)")
    case (Inl h)
    then have "bind_run r f log = (log @ e1, Inl h)" using e1 by (cases "r log") (simp add: bind_run_def)
    then show ?thesis using e1 by (intro exI [of _ e1]) simp
  next
    case (Inr a)
    then have run: "bind_run r f log = f a (log @ e1)" using e1 by (cases "r log") (simp add: bind_run_def)
    obtain e2 where "fst (f a (log @ e1)) = (log @ e1) @ e2" "sends e2 \<le> m"
      using assms(2) unfolding few_def by blast
    then show ?thesis using e1 run by (intro exI [of _ "e1 @ e2"]) simp
  qed
qed

lemma few_then: "grows r \<Longrightarrow> (\<And>a. few n (f a)) \<Longrightarrow> few n (bind_run r f)"
  using few_bind [OF few_quiet, of r n f] by simp

lemma few_more: "few n r \<Longrightarrow> n \<le> m \<Longrightarrow> few m r"
  unfolding few_def by (meson order.trans)

lemma few_attempted: "few n r \<Longrightarrow> few n (attempted r)"
  unfolding few_def attempted_def by (auto split: prod.split sum.split halt.split) (metis fst_conv)+

lemma few_on_error:
  assumes "few n r" and "grows c"
  shows "few n (on_error r c)"
  unfolding few_def
proof
  fix log
  obtain e1 where e1: "fst (r log) = log @ e1" "sends e1 \<le> n" using assms(1) unfolding few_def by blast
  obtain e2 where e2: "fst (c (log @ e1)) = (log @ e1) @ e2" "sends e2 \<le> 0"
    using few_quiet [OF assms(2)] unfolding few_def by blast
  show "\<exists>e. fst (on_error r c log) = log @ e \<and> sends e \<le> n"
  proof (cases "r log")
    case (Pair log' x)
    show ?thesis
    proof (cases x)
      case (Inl h)
      then show ?thesis using e1 e2 Pair
        by (intro exI [of _ "e1 @ e2"]) (auto simp: on_error_def split: prod.split sum.split)
    next
      case (Inr a)
      then show ?thesis using e1 Pair by (intro exI [of _ e1]) (simp add: on_error_def)
    qed
  qed
qed

lemma few_send_byte: "few 1 (send_byte k fd b)"
proof -
  have one: "few 1 (retry k (Sys_send fd b [MSG_NOSIGNAL]))"
    unfolding few_def
  proof
    fix log
    let ?c = "Sys_send fd b [MSG_NOSIGNAL]"
    have "\<exists>e. fst (retry_from n k ?c log) = log @ e \<and> sends e \<le> 1" for n
    proof (induction n arbitrary: log)
      case 0
      show ?case by (simp add: stop_def)
    next
      case (Suc n)
      let ?r = "k_answer k log ?c"
      obtain e where "fst (retry_from n k ?c (log @ [(?c, ?r)])) = (log @ [(?c, ?r)]) @ e" "sends e \<le> 1"
        using Suc by blast
      then show ?case
        by (cases "?r = Inl EINTR")
          (auto simp: bind_run_def sys_def done_with_def Let_def sends_def intro!: exI [of _ "(?c, ?r) # e"]
            split: sum.split)
    qed
    then show "\<exists>e. fst (retry k ?c log) = log @ e \<and> sends e \<le> 1" unfolding retry_def .
  qed
  have rest: "grows (bind_run (look last_errno) (\<lambda>error. if r = Inr 1 then done_with () else stop (Os error)))" for r :: "errno + int"
    by (intro stage_plain)
  show ?thesis
    unfolding send_byte_def using few_bind [OF one few_quiet [OF rest]] by simp
qed

section \<open>The steps that send nothing\<close>

lemma grows_proc:
  "grows (live_start_time k pid)" "grows (start_time k pid)" "grows (inode_of k path)" "grows (open_pidfd k pid)"
  "grows (open_ns k pid kind i)" "grows (same_dir k seen own)" "grows (reap_if_child k pidfd)"
  unfolding live_start_time_def start_time_def inode_of_def open_pidfd_def open_ns_def same_dir_def reap_if_child_def
  by (intro stage_plain; simp)+

lemma grows_reap: "grows (reap_monitor k h)" "grows (reap_stale_holder k h)"
proof -
  show 1: "grows (reap_monitor k h)"
    unfolding reap_monitor_def by (intro stage_plain grows_proc)
  show "grows (reap_stale_holder k h)"
    unfolding reap_stale_holder_def by (intro stage_plain grows_proc 1) simp_all
qed

lemma grows_verify: "grows (verify k h)" "grows (open_holder k h)"
proof -
  show 1: "grows (verify k h)"
    unfolding verify_def by (auto intro!: stage_plain grows_proc split: sum.split halt.split)
  show "grows (open_holder k h)"
    unfolding open_holder_def by (intro stage_plain 1)
qed

lemma grows_stop: "grows (stop_holder k h)"
  unfolding stop_holder_def by (intro stage_plain grows_proc grows_reap grows_verify) simp_all

lemma grows_settle: "grows (settle_holder k host env h root egress)"
proof -
  have "grows (temp_is k host h root)"
    unfolding temp_is_def by (intro stage_plain grows_proc)
  then have "grows (outdated k host env h root egress)"
    unfolding outdated_def pasta_running_def by (intro stage_plain grows_proc)
  then show ?thesis
    unfolding settle_holder_def by (intro stage_plain grows_verify grows_stop grows_reap)
qed

lemma grows_forget: "grows (forget_holder k h)"
  unfolding forget_holder_def by (intro stage_plain grows_verify grows_stop grows_reap)

lemma grows_write_all: "grows (write_all k fd s)"
proof -
  have "grows (write_rounds n k fd s)" for n
    by (induction n arbitrary: s) (auto intro!: stage_plain)
  then show ?thesis by (simp add: write_all_def)
qed

lemma grows_new_egress: "grows (new_egress k env root)"
proof -
  have "grows (write_resolv k path)" for path
    unfolding write_resolv_def by (intro stage_plain grows_write_all) simp_all
  then have "grows (with_program k root program)" for program
    unfolding with_program_def by (intro stage_plain)
  then show ?thesis
    unfolding new_egress_def by (intro stage_plain)
qed

lemma grows_kill: "grows (kill_started k s)"
  unfolding kill_started_def by (auto intro!: stage_plain grows_proc grows_reap split: option.split)

lemma few_commit: "few 1 (commit_started k s)"
proof -
  have "grows (bind_run (quietly k (Sys_close fd)) (\<lambda>_. ok_or r))" for fd and r :: "errno + unit"
    by (intro stage_plain) simp
  then have "few (1 + 0) (bind_run (attempted (send_byte k fd b)) (\<lambda>r. bind_run (quietly k (Sys_close fd)) (\<lambda>_. ok_or r)))" for fd b
    by (intro few_bind few_attempted few_send_byte few_quiet)
  then show ?thesis
    unfolding commit_started_def by (auto intro: few_more [OF few_quiet [OF stage_done]] split: option.split)
qed

lemma grows_channels: "grows (holder_channels k)"
  unfolding holder_channels_def above_stdio_def by (intro stage_plain) simp_all

lemma grows_observe_started: "grows (observe_started k pid monitor)"
  unfolding observe_started_def observe_def by (intro stage_plain grows_proc)

lemma few_meet: "few 1 (meet_holder k egress report ack_write)"
proof -
  have next1: "grows (next_message k report)"
    unfolding next_message_def by (intro stage_plain) simp_all
  have close: "grows (quietly k (Sys_close ack_write))" by (intro stage_plain) simp
  have abandon: "grows (bind_run (reap_if_child k pidfd) (\<lambda>_. quietly k (Sys_close ack_write)))"
      "grows (bind_run (quietly k (Sys_close ack_write)) (\<lambda>_. reap_if_child k pidfd))" for pidfd
    by (intro stage_skip grows_proc close)+
  have pin: "grows (pin_holder k pid)" for pid
    unfolding pin_holder_def by (intro stage_plain grows_proc)
  have zero: "few 0 (on_error r c)" if "grows r" "grows c" for r :: "'b sysrun" and c
    by (rule few_on_error [OF few_quiet [OF that(1)] that(2)])
  have "few (0 + (0 + (1 + (0 + (0 + (0 + (0 + 0))))))) (meet_holder k egress report ack_write)"
    unfolding meet_holder_def Let_def
    by (intro few_bind zero few_on_error [OF few_send_byte] few_quiet stage_plain next1 abandon pin close
        grows_observe_started)
  then show ?thesis by simp
qed

lemma few_start: "few 1 (start_holder k maps temp eg)"
proof -
  have child: "grows (bind_run (holder_process k job) (\<lambda>_. stop Stuck))" for job
    by (intro stage_skip stage_less [OF stage_holder] stage_stop)
  have ret: "grows (retry k (Sys_waitpid p []))" "grows (quietly k Sys_restore_signals)" "grows (quietly k (Sys_close fd))"
      "grows (ok_or r)" "grows (sys k Sys_fork)" "grows (quietly k Sys_block_signals)" for p fd and r :: "errno + int"
    by (intro stage_plain; simp)+
  have body: "few 1 (if intermediate = Inr 0 then bind_run (holder_process k job) (\<lambda>_. stop Stuck)
      else bind_run (quietly k Sys_restore_signals) (\<lambda>_.
          bind_run (ok_or intermediate) (\<lambda>p.
          bind_run (retry k (Sys_waitpid p [])) (\<lambda>_.
          bind_run (quietly k (Sys_close report)) (\<lambda>_.
          bind_run (quietly k (Sys_close ack)) (\<lambda>_.
          meet_holder k (eg \<noteq> None) report_read ack_write))))))"
    for intermediate :: "errno + int" and job report ack report_read ack_write
  proof (cases "intermediate = Inr 0")
    case True
    then show ?thesis using few_more [OF few_quiet [OF child [of job]], of 1] by simp
  next
    case False
    then show ?thesis by (simp only: if_False) (intro few_then few_meet ret)
  qed
  show ?thesis
    unfolding start_holder_def
    by (intro few_then [OF grows_channels], simp only: split_def,
        intro few_then [OF ret(6)] few_then [OF ret(5)] body)
qed

section \<open>Records\<close>

definition record_of :: "site \<Rightarrow> bytes \<Rightarrow> holder option" where
  "record_of st wid = (case s_holders st of None \<Rightarrow> None | Some m \<Rightarrow> bt_get m wid)"

text \<open>\<open>kept R J\<close>: the records are \<open>R\<close>, and \<open>J\<close> holds of the log. \<open>J\<close> is one that stays true.\<close>

definition kept :: "(bytes \<Rightarrow> holder option) \<Rightarrow> (syslog \<Rightarrow> bool) \<Rightarrow> site \<Rightarrow> bool" where
  "kept R J st \<longleftrightarrow> record_of st = R \<and> J (s_log st)"

definition stays :: "(syslog \<Rightarrow> bool) \<Rightarrow> bool" where
  "stays J \<longleftrightarrow> (\<forall>log e. J log \<longrightarrow> J (log @ e))"

lemma record_of_log [simp]: "record_of (st\<lparr>s_log := l\<rparr>) = record_of st" "record_of (st\<lparr>s_disk := d\<rparr>) = record_of st"
  by (auto simp: record_of_def fun_eq_iff)

lemma spec_kernel: "few n r \<Longrightarrow> stays J \<Longrightarrow> run_spec (kept R J) (on_kernel r) (\<lambda>_. kept R J) (kept R J)"
  unfolding run_spec_def
proof (intro allI impI)
  fix st assume "few n r" "stays J" "kept R J st"
  moreover obtain log x where "r (s_log st) = (log, x)" by fastforce
  moreover obtain e where "fst (r (s_log st)) = s_log st @ e" using \<open>few n r\<close> unfolding few_def by blast
  ultimately show "case on_kernel r st of (st', Inl e) \<Rightarrow> kept R J st' | (st', Inr a) \<Rightarrow> kept R J st'"
    by (auto simp: on_kernel_def kept_def stays_def split: sum.split)
qed

lemmas spec_still = spec_kernel [OF few_quiet]

lemma spec_disk:
  "run_spec (kept R J) (on_disk m) (\<lambda>a st. kept R J st \<and> (\<exists>d d'. m d = (d', Inr a))) (kept R J)"
  by (auto simp: run_spec_def on_disk_def kept_def split: prod.split sum.split)

lemma spec_lock: "stays J \<Longrightarrow> run_spec (kept R J) (lock_state k state) (\<lambda>_. kept R J) (kept R J)"
  unfolding lock_state_def by (rule spec_still) (auto intro!: stage_plain)

lemma spec_read:
  assumes "stays J"
  shows "run_spec (kept R J) (read_holders k state) (\<lambda>m st. kept R J st \<and> bt_get m = R) (kept R J)"
proof -
  have "run_spec (kept R J) (on_kernel (sys k (Sys_readfile (holders_file state)))) (\<lambda>_. kept R J) (kept R J)"
    by (rule spec_still [OF stage_sys assms]) simp
  moreover have "run_spec (kept R J) (bind_run (look s_holders) (\<lambda>stored.
     case (stored, r) of
       (None, Inl e) \<Rightarrow> if e = ENOENT then done_with [] else stop (Halted (Os e))
     | (None, Inr _) \<Rightarrow> done_with []
     | (Some m, Inl e) \<Rightarrow> stop (Halted (Os e))
     | (Some m, Inr _) \<Rightarrow> done_with m)) (\<lambda>m st. kept R J st \<and> bt_get m = R) (kept R J)" for r :: "errno + int"
    by (auto simp: run_spec_def bind_run_def look_def done_with_def stop_def kept_def record_of_def fun_eq_iff bt_get_def
        split: option.split sum.split)
  ultimately show ?thesis unfolding read_holders_def by (rule run_spec_bind)
qed

lemma spec_persist:
  assumes "stays J"
  shows "run_spec (kept R J) (persist_holders k fx state m) (\<lambda>_. kept (bt_get m) J)
    (\<lambda>st. kept R J st \<or> kept (bt_get m) J st)"
proof -
  let ?E = "\<lambda>st. kept R J st \<or> kept (bt_get m) J st"
  have step: "run_spec (kept S J) (on_kernel r) (\<lambda>_. kept S J) ?E" if "grows r" "S \<in> {R, bt_get m}" for r :: "'b sysrun" and S
    by (rule run_spec_weaken [OF spec_still [OF that(1) assms]]) (use that(2) in auto)
  have checked: "run_spec (kept S J) (on_kernel (check k c)) (\<lambda>_. kept S J) ?E" if "no_send c" "S \<in> {R, bt_get m}" for c S
    by (rule step [OF stage_check_plain that(2)]) (rule that(1))
  have store: "run_spec (kept R J) (\<lambda>st. (st\<lparr>s_holders := Some m\<rparr>, Inr ())) (\<lambda>_. kept (bt_get m) J) ?E"
    by (simp add: run_spec_def kept_def record_of_def fun_eq_iff)
  show ?thesis
    unfolding persist_holders_def
    by (rule run_spec_bind [OF checked] run_spec_bind [OF step [OF grows_write_all]] run_spec_bind [OF store] run_spec_done | simp)+
qed

end
