(* ===== verification/Workspace_Kept.thy ===== *)
theory Workspace_Kept
  imports Workspace_Records Registry_Props
begin

text \<open>
  Whose record setup and teardown change, for every kernel: that of a holder is only given up for a
  holder that is gone or stopped.
\<close>

section \<open>Whose record changes\<close>

text \<open>The holder was found to be gone, or was stopped, at some point of the log.\<close>

definition released :: "kern \<Rightarrow> holder \<Rightarrow> syslog \<Rightarrow> bool" where
  "released k h log \<longleftrightarrow>
     (\<exists>l e. log = l @ e \<and> (snd (verify k h l) = Inr None \<or> snd (stop_holder k h l) = Inr ()))"

definition free_of :: "kern \<Rightarrow> holder option \<Rightarrow> syslog \<Rightarrow> bool" where
  "free_of k old log \<longleftrightarrow> (case old of None \<Rightarrow> True | Some h \<Rightarrow> released k h log)"

lemma released_more: "released k h log \<Longrightarrow> released k h (log @ e)"
  unfolding released_def by (metis append.assoc)

lemma stays_free: "stays (\<lambda>log. b \<longrightarrow> free_of k old log)"
  by (auto simp: stays_def free_of_def released_more split: option.split)

lemma stays_True: "stays (\<lambda>_. True)"
  by (simp add: stays_def)

lemma released_here: "snd (verify k h l) = Inr None \<or> snd (stop_holder k h l) = Inr () \<Longrightarrow> released k h (l @ e)"
  unfolding released_def by blast

text \<open>A step of the kernel after which a fact of the log holds.\<close>

lemma spec_reaching:
  assumes "few n r" and "\<And>log log' a. r log = (log', Inr a) \<Longrightarrow> J a log'"
  shows "run_spec (kept R (\<lambda>_. True)) (on_kernel r) (\<lambda>a. kept R (J a)) (kept R (\<lambda>_. True))"
  using assms(2) by (auto simp: run_spec_def on_kernel_def kept_def split: prod.split sum.split)

lemma few_log: "few n r \<Longrightarrow> r log = (log', x) \<Longrightarrow> \<exists>e. log' = log @ e"
  unfolding few_def by (metis fst_conv)

lemma grows_log: "grows r \<Longrightarrow> r log = (log', x) \<Longrightarrow> \<exists>e. log' = log @ e"
  by (rule few_log [OF few_quiet])

lemma verify_gone:
  "verify k h log = (log1, Inr None) \<Longrightarrow> grows r \<Longrightarrow> r log1 = (log2, x) \<Longrightarrow> released k h log2"
  using grows_log [OF grows_verify(1)] grows_log [of r] released_here [of k h log]
  by (metis append.assoc snd_conv)

lemma stop_done: "stop_holder k h log = (log1, Inr ()) \<Longrightarrow> released k h log1"
  using grows_log [OF grows_stop] released_here [of k h log] by (metis snd_conv)

lemma settle_released:
  assumes "settle_holder k host env h root egress log = (log', Inr needed)" and needed
  shows "released k h log'"
proof -
  obtain log1 ns where v: "verify k h log = (log1, Inr ns)"
    and rest: "(if ns \<noteq> None then
       bind_run (outdated k host env h root egress) (\<lambda>old.
       if old then bind_run (stop_holder k h) (\<lambda>_. done_with True) else done_with False)
     else bind_run (reap_stale_holder k h) (\<lambda>_. done_with True)) log1 = (log', Inr needed)"
    using assms(1) unfolding settle_holder_def by (rule bind_run_Inr)
  show ?thesis
  proof (cases "ns = None")
    case True
    with rest have "bind_run (reap_stale_holder k h) (\<lambda>_. done_with True) log1 = (log', Inr needed)" by simp
    then obtain log2 x where "reap_stale_holder k h log1 = (log2, x)" "log' = log2"
      by (auto elim!: bind_run_Inr simp: done_with_def)
    then show ?thesis using verify_gone [OF _ grows_reap(2)] v True by blast
  next
    case False
    with rest obtain log2 old where
      "(if old then bind_run (stop_holder k h) (\<lambda>_. done_with True) else done_with False) log2 = (log', Inr needed)"
      by (auto elim: bind_run_Inr)
    with assms(2) have "bind_run (stop_holder k h) (\<lambda>_. done_with True) log2 = (log', Inr needed)"
      by (cases old) (auto simp: done_with_def)
    then have "stop_holder k h log2 = (log', Inr ())" by (auto elim!: bind_run_Inr simp: done_with_def)
    then show ?thesis by (rule stop_done)
  qed
qed

lemma forget_released: "forget_holder k h log = (log', Inr a) \<Longrightarrow> released k h log'"
  unfolding forget_holder_def
  by (erule bind_run_Inr) (auto split: if_splits dest: stop_done intro: verify_gone [OF _ grows_reap(2)])

text \<open>What is true when an operation on one workspace ends.\<close>

definition only_own :: "kern \<Rightarrow> bytes \<Rightarrow> (bytes \<Rightarrow> holder option) \<Rightarrow> site \<Rightarrow> bool" where
  "only_own k wid R st \<longleftrightarrow>
     (\<forall>i. i \<noteq> wid \<longrightarrow> record_of st i = R i) \<and>
     (record_of st wid = R wid \<or> free_of k (R wid) (s_log st))"

lemma only_own_kept: "kept R J st \<Longrightarrow> only_own k wid R st"
  by (simp add: only_own_def kept_def)

lemma only_own_changed:
  assumes "kept (R(wid := new)) (\<lambda>log. True \<longrightarrow> free_of k (R wid) log) st"
  shows "only_own k wid R st"
  using assms by (auto simp: only_own_def kept_def)

lemma get_insert: "bt_get m = R \<Longrightarrow> bt_get (bt_insert wid h m) = R(wid := Some h)"
  by (simp add: bt_get_def fun_eq_iff map_of_bt_insert)

lemma get_remove: "bt_get m = R \<Longrightarrow> bt_get (bt_remove wid m) = R(wid := None)"
  by (simp add: bt_get_def fun_eq_iff map_of_bt_remove)

lemma spec_replace:
  assumes "bt_get m = R(wid := new)"
  shows "run_spec (kept R (\<lambda>log. True \<longrightarrow> free_of k (R wid) log)) (persist_holders k fx state m)
    (\<lambda>_. only_own k wid R) (only_own k wid R)"
  by (rule run_spec_weaken [OF spec_persist [OF stays_free]])
    (auto simp: assms intro: only_own_kept only_own_changed)

text \<open>Steps that come before any record changes.\<close>

lemma own_bind:
  assumes "run_spec (kept R (\<lambda>_. True)) r (\<lambda>a st. kept R (\<lambda>_. True) st \<and> B a) (kept R (\<lambda>_. True))"
    and "\<And>a. B a \<Longrightarrow> run_spec (kept R (\<lambda>_. True)) (f a) (\<lambda>_. only_own k wid R) (only_own k wid R)"
  shows "run_spec (kept R (\<lambda>_. True)) (bind_run r f) (\<lambda>_. only_own k wid R) (only_own k wid R)"
proof (rule run_spec_bind)
  show "run_spec (kept R (\<lambda>_. True)) r (\<lambda>a st. kept R (\<lambda>_. True) st \<and> B a) (only_own k wid R)"
    by (rule run_spec_weaken [OF assms(1)]) (auto intro: only_own_kept)
  show "run_spec (\<lambda>st. kept R (\<lambda>_. True) st \<and> B a) (f a) (\<lambda>_. only_own k wid R) (only_own k wid R)" for a
    by (rule run_spec_fact) (rule assms(2))
qed

lemma own_quiet:
  assumes "run_spec (kept R (\<lambda>_. True)) r (\<lambda>_. kept R (\<lambda>_. True)) (kept R (\<lambda>_. True))"
    and "\<And>a. run_spec (kept R (\<lambda>_. True)) (f a) (\<lambda>_. only_own k wid R) (only_own k wid R)"
  shows "run_spec (kept R (\<lambda>_. True)) (bind_run r f) (\<lambda>_. only_own k wid R) (only_own k wid R)"
  by (rule own_bind [where B = "\<lambda>_. True"]) (use assms in simp_all)

lemma spec_tried: "run_spec P r (\<lambda>_. Q) E \<Longrightarrow> run_spec P (tried r) (\<lambda>_ st. Q st \<or> E st) F"
  unfolding run_spec_def tried_def by (fastforce split: prod.splits sum.splits)

lemma spec_teardown:
  "run_spec (kept R (\<lambda>_. True)) (teardown_workspace k fx state world)
     (\<lambda>_. only_own k (w_id world) R) (only_own k (w_id world) R)"
proof -
  have found: "run_spec (kept R (\<lambda>_. True))
      (case bt_get m (w_id world) of
         None \<Rightarrow> done_with ()
       | Some h \<Rightarrow> bind_run (on_kernel (forget_holder k h)) (\<lambda>_. persist_holders k fx state (bt_remove (w_id world) m)))
      (\<lambda>_. only_own k (w_id world) R) (only_own k (w_id world) R)" if m: "bt_get m = R" for m
  proof (rule run_spec_option)
    show "run_spec (kept R (\<lambda>_. True)) (done_with ()) (\<lambda>_. only_own k (w_id world) R) (only_own k (w_id world) R)"
      by (rule run_spec_done) (rule only_own_kept)
    fix h assume "bt_get m (w_id world) = Some h"
    with m have h: "R (w_id world) = Some h" by simp
    have "run_spec (kept R (\<lambda>_. True)) (on_kernel (forget_holder k h))
        (\<lambda>_. kept R (\<lambda>log. True \<longrightarrow> free_of k (R (w_id world)) log)) (only_own k (w_id world) R)"
      by (rule run_spec_weaken [OF spec_reaching [OF few_quiet [OF grows_forget], where J = "\<lambda>_. released k h"]])
        (auto simp: forget_released h free_of_def intro: only_own_kept)
    then show "run_spec (kept R (\<lambda>_. True))
        (bind_run (on_kernel (forget_holder k h)) (\<lambda>_. persist_holders k fx state (bt_remove (w_id world) m)))
        (\<lambda>_. only_own k (w_id world) R) (only_own k (w_id world) R)"
      by (rule run_spec_bind) (rule spec_replace [OF get_remove [OF m]])
  qed
  show ?thesis
    unfolding teardown_workspace_def
    by (rule own_quiet [OF spec_lock [OF stays_True]], rule own_bind [OF spec_read [OF stays_True]], rule found)
qed

lemma bind_act_Inr: "bind_act m f d = (d', Inr b) \<Longrightarrow> \<exists>d1 a. m d = (d1, Inr a) \<and> f a d1 = (d', Inr b)"
  by (auto simp: bind_act_def split: prod.splits sum.splits)

lemma owned_id:
  assumes "owned_temp_root v state world d = (d', Inr (w, root))"
  shows "w_id w = w_id world"
  using assms unfolding owned_temp_root_def move_world_def
  by (auto dest!: bind_act_Inr simp: ret_def ensure_def fail_def valid_entry_def Let_def split: if_splits)

lemma spec_record_started:
  assumes m: "bt_get m = R"
  shows "run_spec (kept R (\<lambda>log. True \<longrightarrow> free_of k (R wid) log)) (record_started k fx state wid m started)
    (\<lambda>_. only_own k wid R) (only_own k wid R)"
proof -
  let ?m = "bt_insert wid (st_holder started) m" and ?J = "\<lambda>log. True \<longrightarrow> free_of k (R wid) log"
  let ?M = "\<lambda>st. kept R ?J st \<or> kept (R(wid := Some (st_holder started))) ?J st"
  have tried: "run_spec (kept R ?J) (tried (persist_holders k fx state ?m)) (\<lambda>_. ?M) ?M"
    by (rule run_spec_weaken [OF spec_tried [OF spec_persist [OF stays_free [of True k "R wid"], of R]]]) (auto simp: get_insert [OF m])
  have more: "run_spec ?M (on_kernel r) (\<lambda>_. ?M) ?M" if "few n r" for r :: "'b sysrun" and n
    using spec_kernel [OF that stays_free, of R True k "R wid"]
      spec_kernel [OF that stays_free, of "R(wid := Some (st_holder started))" True k "R wid"]
    unfolding run_spec_def by (fastforce split: prod.splits sum.splits)
  have killed: "run_spec ?M (tried (on_kernel (kill_started k started))) (\<lambda>_. ?M) ?M"
    using more [OF few_quiet [OF grows_kill]] unfolding run_spec_def tried_def by (fastforce split: prod.splits sum.splits)
  have "run_spec (kept R ?J) (record_started k fx state wid m started) (\<lambda>_. ?M) ?M"
    unfolding record_started_def
  proof (rule run_spec_bind [OF tried])
    fix r :: "trouble + unit"
    show "run_spec ?M (case r of
         Inl err \<Rightarrow> bind_run (tried (on_kernel (kill_started k started))) (\<lambda>_. stop err)
       | Inr _ \<Rightarrow> on_kernel (commit_started k started)) (\<lambda>_. ?M) ?M"
    proof (cases r)
      case (Inl err)
      have "run_spec ?M (bind_run (tried (on_kernel (kill_started k started))) (\<lambda>_. stop err)) (\<lambda>_. ?M) ?M"
        by (rule run_spec_bind [OF killed run_spec_stop])
      with Inl show ?thesis by simp
    next
      case (Inr u)
      with more [OF few_commit, of k started] show ?thesis by simp
    qed
  qed
  then show ?thesis
    by (rule run_spec_weaken) (auto intro: only_own_kept only_own_changed)
qed

lemma spec_needed:
  assumes m: "bt_get m = R"
  shows "run_spec (kept R (\<lambda>_. True))
    (case bt_get m wid of None \<Rightarrow> done_with True | Some h \<Rightarrow> on_kernel (settle_holder k host env h root egress))
    (\<lambda>needed. kept R (\<lambda>log. needed \<longrightarrow> free_of k (R wid) log)) (kept R (\<lambda>_. True))"
proof (rule run_spec_option)
  assume "bt_get m wid = None"
  with m show "run_spec (kept R (\<lambda>_. True)) (done_with True)
      (\<lambda>needed. kept R (\<lambda>log. needed \<longrightarrow> free_of k (R wid) log)) (kept R (\<lambda>_. True))"
    by (intro run_spec_done) (auto simp: kept_def free_of_def)
next
  fix h assume "bt_get m wid = Some h"
  with m have "R wid = Some h" by simp
  then show "run_spec (kept R (\<lambda>_. True)) (on_kernel (settle_holder k host env h root egress))
      (\<lambda>needed. kept R (\<lambda>log. needed \<longrightarrow> free_of k (R wid) log)) (kept R (\<lambda>_. True))"
    by (intro spec_reaching [OF few_quiet [OF grows_settle]]) (auto simp: free_of_def settle_released)
qed

lemma spec_setup:
  "run_spec (kept R (\<lambda>_. True)) (setup_workspace k v host env fx maps state world)
     (\<lambda>_. only_own k (w_id world) R) (only_own k (w_id world) R)"
proof -
  let ?O = "only_own k (w_id world) R"
  have temp: "grows (\<lambda>log. (log, new_private_temp host root))" for root
    by (rule stageI) simp
  have start: "run_spec (kept R (\<lambda>log. needed \<longrightarrow> free_of k (R (w_id world)) log))
      (if \<not> needed then done_with ()
       else bind_run (on_kernel (start_holder k maps tmp eg)) (\<lambda>started. record_started k fx state (w_id world) m started))
      (\<lambda>_. ?O) ?O" if "bt_get m = R" for needed tmp eg m
  proof (cases needed)
    case True
    then show ?thesis
      by (simp only: not_True_eq_False if_False)
        (rule run_spec_bind [OF run_spec_weaken [OF spec_kernel [OF few_start stays_free] _ _ only_own_kept]
            spec_record_started [OF that]], assumption+)
  qed (auto intro!: run_spec_done only_own_kept)
  have own: "run_spec (kept R (\<lambda>_. True)) (on_disk (owned_temp_root v state world))
      (\<lambda>a st. kept R (\<lambda>_. True) st \<and> w_id (fst a) = w_id world) (kept R (\<lambda>_. True))"
    by (rule run_spec_weaken [OF spec_disk]) (auto dest: owned_id)
  have rest: "run_spec (kept R (\<lambda>_. True))
      (bind_run (case bt_get m wid of None \<Rightarrow> done_with True | Some h \<Rightarrow> on_kernel (settle_holder k host env h root eg1)) (\<lambda>needed.
       if \<not> needed then done_with ()
       else bind_run (on_kernel (start_holder k maps tmp eg)) (\<lambda>started. record_started k fx state wid m started)))
      (\<lambda>_. ?O) ?O" if "bt_get m = R" "wid = w_id world" for m wid root eg1 eg tmp
    unfolding that(2)
    by (rule run_spec_bind [OF run_spec_weaken [OF spec_needed [OF that(1)] _ _ only_own_kept] start [OF that(1)]])
  show ?thesis
    unfolding setup_workspace_def split_def
    by (rule own_bind [OF own], rule own_quiet [OF spec_still [OF temp stays_True]],
        rule own_quiet [OF spec_still [OF grows_new_egress stays_True]], rule own_quiet [OF spec_lock [OF stays_True]],
        rule own_bind [OF spec_read [OF stays_True]], rule rest)
qed

lemma starts_kept: "kept (record_of st) (\<lambda>_. True) st"
  by (simp add: kept_def)

text \<open>
  C7 (safety). Whatever fails and however they end, setup and teardown of a workspace leave the record of
  every other workspace as it was, and change or forget its own record only if its holder was found to
  be gone for good or was stopped: a live holder is never orphaned.
\<close>

theorem holders_not_orphaned:
  assumes "setup_workspace k v host env fx maps state world st = (st', x) \<or>
      teardown_workspace k fx state world st = (st', y)"
  shows "(\<forall>i. i \<noteq> w_id world \<longrightarrow> record_of st' i = record_of st i) \<and>
    (record_of st' (w_id world) = record_of st (w_id world) \<or> record_of st (w_id world) = None \<or>
     (\<exists>h. record_of st (w_id world) = Some h \<and> released k h (s_log st')))"
proof -
  have "only_own k (w_id world) (record_of st) st'"
    using assms run_specD [OF spec_setup starts_kept] run_specD [OF spec_teardown starts_kept]
    by (fastforce split: sum.splits)
  then show ?thesis
    by (auto simp: only_own_def free_of_def split: option.splits)
qed

text \<open>A kernel that finds the holder gone, and the teardown of a workspace whose holder is gone, beside another workspace.\<close>

definition gone_kern :: kern where
  "gone_kern =
     \<lparr>k_answer = (\<lambda>log c. case c of
        Sys_open p _ \<Rightarrow> if p = ''/a'' \<or> p = ''/a/new'' then Inr 12 else Inl ENOENT
      | Sys_pidfd_open _ \<Rightarrow> Inl ESRCH | Sys_write _ s \<Rightarrow> Inr (int (length s)) | _ \<Rightarrow> Inr 0),
      k_bytes = (\<lambda>log c. []), k_number = (\<lambda>log c. 0),
      k_meta = (\<lambda>log c. \<lparr>m_dev = 1, m_ino = 3, m_mode = 0, m_rdev = (0, 0)\<rparr>), k_patience = 5\<rparr>"

definition holder1 :: holder where
  "holder1 =
     \<lparr>h_pid = 42, h_start = 7, h_user = 3, h_net = 3, h_mnt = Some 3, h_egress = False, h_monitor = None\<rparr>"

definition files0 :: holder_files where
  "files0 = \<lparr>f_encode = (\<lambda>m. ''holders''), f_temp = ''new''\<rparr>"

definition site2 :: site where
  "site2 = \<lparr>s_disk = disk0, s_log = [], s_holders = Some [(''x'', holder1), (''y'', holder0)]\<rparr>"

lemma torn_down:
  "record_of (fst (teardown_workspace gone_kern files0 ''/a'' world1 site2)) ''x'' = None"
  "record_of (fst (teardown_workspace gone_kern files0 ''/a'' world1 site2)) ''y'' = Some holder0"
  by code_simp+

theorem holders_not_orphaned_witness:
  "record_of (fst (teardown_workspace gone_kern files0 ''/a'' world1 site2)) ''x'' = None \<and>
   record_of (fst (teardown_workspace gone_kern files0 ''/a'' world1 site2)) ''y'' = Some holder0 \<and>
   released gone_kern holder1 (s_log (fst (teardown_workspace gone_kern files0 ''/a'' world1 site2)))"
proof -
  let ?st = "fst (teardown_workspace gone_kern files0 ''/a'' world1 site2)"
  have run: "teardown_workspace gone_kern files0 ''/a'' world1 site2 =
      (?st, snd (teardown_workspace gone_kern files0 ''/a'' world1 site2))" by simp
  have "w_id world1 = ''x''" "record_of site2 ''x'' = Some holder1"
    by (simp_all add: world1_def site2_def record_of_def bt_get_def)
  with holders_not_orphaned [OF disjI2 [OF run]] torn_down(1)
  have "released gone_kern holder1 (s_log ?st)" by auto
  with torn_down show ?thesis by blast
qed

end
