(* ===== verification/Workspace_Props.thy ===== *)
theory Workspace_Props
  imports Workspace_Kept
begin

text \<open>
  What joins a caller, its holder and the commands that run in a workspace: a holder that holds is
  recorded, and a command runs in the namespaces that it was given.
\<close>

section \<open>A holder that holds is recorded\<close>

text \<open>At most one byte was sent, or the records had been renamed into place, with one for the workspace.\<close>

definition in_place :: "bytes \<Rightarrow> bytes \<Rightarrow> syslog \<Rightarrow> site \<Rightarrow> bool" where
  "in_place state wid l0 st \<longleftrightarrow>
     (\<exists>e1 e2. s_log st = l0 @ e1 @ e2 \<and> sends e1 \<le> 1 \<and>
        (e2 = [] \<or> Sys_rename (holders_file state) \<in> set (succeeded e1) \<and> record_of st wid \<noteq> None))"

definition upto_now :: "syslog \<Rightarrow> nat \<Rightarrow> site \<Rightarrow> bool" where
  "upto_now l0 n st \<longleftrightarrow> (\<exists>e. s_log st = l0 @ e \<and> sends e \<le> n)"

definition renamed :: "bytes \<Rightarrow> syslog \<Rightarrow> (bytes \<Rightarrow> bool) \<Rightarrow> site \<Rightarrow> bool" where
  "renamed state l0 has st \<longleftrightarrow>
     (\<exists>e. s_log st = l0 @ e \<and> sends e \<le> 1 \<and> Sys_rename (holders_file state) \<in> set (succeeded e)) \<and>
     (\<forall>i. has i \<longrightarrow> record_of st i \<noteq> None)"

lemma upto_in_place: "upto_now l0 1 st \<Longrightarrow> in_place state wid l0 st"
  unfolding upto_now_def in_place_def by force

lemma upto_more: "upto_now l0 n st \<Longrightarrow> n \<le> m \<Longrightarrow> upto_now l0 m st"
  unfolding upto_now_def by force

lemma spec_count: "few n r \<Longrightarrow> run_spec (upto_now l0 m) (on_kernel r) (\<lambda>_. upto_now l0 (m + n)) (upto_now l0 (m + n))"
  unfolding run_spec_def
proof (intro allI impI)
  fix st assume "few n r" "upto_now l0 m st"
  then obtain e1 where e1: "s_log st = l0 @ e1" "sends e1 \<le> m" unfolding upto_now_def by blast
  obtain e2 where e2: "fst (r (s_log st)) = s_log st @ e2" "sends e2 \<le> n" using \<open>few n r\<close> unfolding few_def by blast
  obtain log x where "r (s_log st) = (log, x)" by fastforce
  with e1 e2 show "case on_kernel r st of (st', Inl e) \<Rightarrow> upto_now l0 (m + n) st' | (st', Inr a) \<Rightarrow> upto_now l0 (m + n) st'"
    by (auto simp: on_kernel_def upto_now_def split: sum.split)
qed

lemmas spec_count_quiet = spec_count [OF few_quiet, simplified]

lemma spec_count_disk: "run_spec (upto_now l0 m) (on_disk r) (\<lambda>_. upto_now l0 m) (upto_now l0 m)"
  by (auto simp: run_spec_def on_disk_def upto_now_def split: prod.split sum.split)

lemma spec_count_read: "run_spec (upto_now l0 m) (read_holders k state) (\<lambda>_. upto_now l0 m) (upto_now l0 m)"
proof -
  have "run_spec (upto_now l0 m) (on_kernel (sys k (Sys_readfile (holders_file state)))) (\<lambda>_. upto_now l0 m) (upto_now l0 m)"
    by (rule spec_count_quiet [OF stage_sys]) simp
  moreover have "run_spec (upto_now l0 m) (bind_run (look s_holders) (\<lambda>stored.
     case (stored, r) of
       (None, Inl e) \<Rightarrow> if e = ENOENT then done_with [] else stop (Halted (Os e))
     | (None, Inr _) \<Rightarrow> done_with []
     | (Some m, Inl e) \<Rightarrow> stop (Halted (Os e))
     | (Some m, Inr _) \<Rightarrow> done_with m)) (\<lambda>_. upto_now l0 m) (upto_now l0 m)" for r :: "errno + int"
    by (auto simp: run_spec_def bind_run_def look_def done_with_def stop_def split: option.split sum.split)
  ultimately show ?thesis unfolding read_holders_def by (rule run_spec_bind)
qed

text \<open>After the rename one record is there, and what follows sends nothing.\<close>

lemma spec_renamed:
  assumes "grows r"
  shows "run_spec (renamed state l0 has) (on_kernel r) (\<lambda>_. renamed state l0 has) (renamed state l0 has)"
  unfolding run_spec_def
proof (intro allI impI)
  fix st assume r: "renamed state l0 has st"
  then obtain e1 where e1: "s_log st = l0 @ e1" "sends e1 \<le> 1" "Sys_rename (holders_file state) \<in> set (succeeded e1)"
    unfolding renamed_def by blast
  obtain e2 where e2: "fst (r (s_log st)) = s_log st @ e2" "sends e2 \<le> 0" using few_quiet [OF assms] unfolding few_def by blast
  obtain log x where "r (s_log st) = (log, x)" by fastforce
  with e1 e2 r have "renamed state l0 has (st\<lparr>s_log := log\<rparr>)"
    unfolding renamed_def by (auto intro!: exI [of _ "e1 @ e2"])
  with \<open>r (s_log st) = (log, x)\<close>
  show "case on_kernel r st of (st', Inl e) \<Rightarrow> renamed state l0 has st' | (st', Inr a) \<Rightarrow> renamed state l0 has st'"
    by (auto simp: on_kernel_def split: sum.split)
qed

lemma spec_rename:
  "run_spec (upto_now l0 1) (on_kernel (check k (Sys_rename (holders_file state))))
     (\<lambda>_. renamed state l0 (\<lambda>_. False)) (upto_now l0 1)"
  unfolding run_spec_def
proof (intro allI impI)
  fix st assume "upto_now l0 1 st"
  then obtain e where e: "s_log st = l0 @ e" "sends e \<le> 1" unfolding upto_now_def by blast
  let ?c = "Sys_rename (holders_file state)"
  let ?r = "k_answer k (s_log st) ?c"
  have quiet: "sends [(?c, ?r)] = 0" by (rule sends_quiet) simp
  show "case on_kernel (check k ?c) st of (st', Inl e) \<Rightarrow> upto_now l0 1 st' | (st', Inr a) \<Rightarrow> renamed state l0 (\<lambda>_. False) st'"
    using e quiet
    by (auto simp: on_kernel_def check_def bind_run_def sys_def ok_or_def stop_def done_with_def Let_def upto_now_def renamed_def
        split: sum.split intro!: exI [of _ "e @ [(?c, ?r)]"])
qed

lemma spec_persist_count:
  "run_spec (upto_now l0 1) (persist_holders k fx state (bt_insert wid h m))
     (\<lambda>_. renamed state l0 (\<lambda>i. i = wid)) (in_place state wid l0)"
proof -
  let ?R = "renamed state l0 (\<lambda>i. i = wid)"
  have late: "?R st \<Longrightarrow> in_place state wid l0 st" for st
    unfolding renamed_def in_place_def by force
  have early: "run_spec (upto_now l0 1) (on_kernel r) (\<lambda>_. upto_now l0 1) (in_place state wid l0)" if "grows r" for r :: "'b sysrun"
    by (rule run_spec_weaken [OF spec_count_quiet [OF that]]) (auto intro: upto_in_place)
  have after: "run_spec ?R (on_kernel r) (\<lambda>_. ?R) (in_place state wid l0)" if "grows r" for r :: "'b sysrun"
    by (rule run_spec_weaken [OF spec_renamed [OF that]]) (auto intro: late)
  have rename: "run_spec (upto_now l0 1) (on_kernel (check k (Sys_rename (holders_file state))))
      (\<lambda>_. renamed state l0 (\<lambda>_. False)) (in_place state wid l0)"
    by (rule run_spec_weaken [OF spec_rename]) (auto intro: upto_in_place)
  have store: "run_spec (renamed state l0 (\<lambda>_. False)) (\<lambda>st. (st\<lparr>s_holders := Some (bt_insert wid h m)\<rparr>, Inr ())) (\<lambda>_. ?R)
      (in_place state wid l0)"
    by (simp add: run_spec_def renamed_def record_of_def bt_get_def map_of_bt_insert)
  have opened: "grows (check k c)" if "no_send c" for c
    using that by (rule stage_check_plain)
  show ?thesis
    unfolding persist_holders_def
    by (rule run_spec_bind [OF early [OF opened]], simp, rule run_spec_bind [OF early [OF grows_write_all]],
        rule run_spec_bind [OF early [OF opened]], simp, rule run_spec_bind [OF rename], rule run_spec_bind [OF store],
        rule run_spec_bind [OF after [OF opened]], simp, rule run_spec_bind [OF after [OF opened]], simp, rule run_spec_done)
qed

lemma spec_kill_count:
  "run_spec (in_place state wid l0) (tried (on_kernel (kill_started k s))) (\<lambda>_. in_place state wid l0) (in_place state wid l0)"
  unfolding run_spec_def
proof (intro allI impI)
  fix st assume "in_place state wid l0 st"
  then obtain e1 e2 where e: "s_log st = l0 @ e1 @ e2" "sends e1 \<le> 1"
      "e2 = [] \<or> Sys_rename (holders_file state) \<in> set (succeeded e1) \<and> record_of st wid \<noteq> None"
    unfolding in_place_def by blast
  obtain log x where r: "kill_started k s (s_log st) = (log, x)" by fastforce
  obtain e3 where e3: "log = s_log st @ e3" "sends e3 \<le> 0"
    using few_quiet [OF grows_kill, of k s] r unfolding few_def by (metis fst_conv)
  have "in_place state wid l0 (st\<lparr>s_log := log\<rparr>)"
  proof (cases "e2 = []")
    case True
    with e e3 show ?thesis by (intro upto_in_place) (auto simp: upto_now_def intro!: exI [of _ "e1 @ e3"])
  next
    case False
    with e e3 show ?thesis unfolding in_place_def by (intro exI [of _ e1] exI [of _ "e2 @ e3"]) simp
  qed
  with r show "case tried (on_kernel (kill_started k s)) st of
      (st', Inl e) \<Rightarrow> in_place state wid l0 st' | (st', Inr a) \<Rightarrow> in_place state wid l0 st'"
    by (auto simp: tried_def on_kernel_def split: sum.split)
qed

lemma spec_commit_count:
  assumes "few n r"
  shows "run_spec (renamed state l0 (\<lambda>i. i = wid)) (on_kernel r) (\<lambda>_. in_place state wid l0) (in_place state wid l0)"
  unfolding run_spec_def
proof (intro allI impI)
  fix st assume s: "renamed state l0 (\<lambda>i. i = wid) st"
  then obtain e1 where e1: "s_log st = l0 @ e1" "sends e1 \<le> 1" "Sys_rename (holders_file state) \<in> set (succeeded e1)"
    unfolding renamed_def by blast
  obtain log x where r: "r (s_log st) = (log, x)" by fastforce
  obtain e2 where e2: "log = s_log st @ e2" using few_log [OF assms r] by blast
  have "in_place state wid l0 (st\<lparr>s_log := log\<rparr>)"
    using e1 e2 s unfolding in_place_def renamed_def by (intro exI [of _ e1] exI [of _ e2]) simp
  with r show "case on_kernel r st of (st', Inl e) \<Rightarrow> in_place state wid l0 st' | (st', Inr a) \<Rightarrow> in_place state wid l0 st'"
    by (auto simp: on_kernel_def split: sum.split)
qed

lemma spec_record_count:
  "run_spec (upto_now l0 1) (record_started k fx state wid m started) (\<lambda>_. in_place state wid l0) (in_place state wid l0)"
proof -
  let ?P = "persist_holders k fx state (bt_insert wid (st_holder started) m)"
  have tried: "run_spec (upto_now l0 1) (tried ?P)
      (\<lambda>r st. case r of Inl _ \<Rightarrow> in_place state wid l0 st | Inr _ \<Rightarrow> renamed state l0 (\<lambda>i. i = wid) st) (in_place state wid l0)"
    using spec_persist_count [of l0 k fx state wid "st_holder started" m]
    unfolding run_spec_def tried_def by (fastforce split: prod.splits sum.splits)
  show ?thesis
    unfolding record_started_def
  proof (rule run_spec_bind [OF tried])
    fix r :: "trouble + unit"
    show "run_spec (\<lambda>st. case r of Inl _ \<Rightarrow> in_place state wid l0 st | Inr _ \<Rightarrow> renamed state l0 (\<lambda>i. i = wid) st)
        (case r of
           Inl err \<Rightarrow> bind_run (tried (on_kernel (kill_started k started))) (\<lambda>_. stop err)
         | Inr _ \<Rightarrow> on_kernel (commit_started k started)) (\<lambda>_. in_place state wid l0) (in_place state wid l0)"
    proof (cases r)
      case (Inl err)
      have "run_spec (in_place state wid l0) (bind_run (tried (on_kernel (kill_started k started))) (\<lambda>_. stop err))
          (\<lambda>_. in_place state wid l0) (in_place state wid l0)"
        by (rule run_spec_bind [OF spec_kill_count run_spec_stop])
      with Inl show ?thesis by simp
    next
      case (Inr u)
      with spec_commit_count [OF few_commit] show ?thesis by simp
    qed
  qed
qed

lemma spec_setup_count:
  "run_spec (upto_now l0 0) (setup_workspace k v host env fx maps state world)
     (\<lambda>_. in_place state (w_id world) l0) (in_place state (w_id world) l0)"
proof -
  let ?Z = "upto_now l0 0" and ?I = "in_place state (w_id world) l0"
  have zero: "?Z st \<Longrightarrow> ?I st" for st
    by (rule upto_in_place) (rule upto_more, assumption, simp)
  have quiet: "run_spec ?Z (on_kernel r) (\<lambda>_. ?Z) ?I" if "grows r" for r :: "'b sysrun"
    by (rule run_spec_weaken [OF spec_count_quiet [OF that]]) (auto intro: zero)
  have temp: "grows (\<lambda>log. (log, new_private_temp host root))" for root
    by (rule stageI) simp
  have own: "run_spec ?Z (on_disk (owned_temp_root v state world)) (\<lambda>a st. ?Z st \<and> w_id (fst a) = w_id world) ?I"
    by (auto simp: run_spec_def on_disk_def upto_now_def dest: owned_id intro: zero split: prod.split sum.split)
  have lock: "run_spec ?Z (lock_state k state) (\<lambda>_. ?Z) ?I"
    unfolding lock_state_def by (rule quiet) (auto intro!: stage_plain)
  have read: "run_spec ?Z (read_holders k state) (\<lambda>_. ?Z) ?I"
    by (rule run_spec_weaken [OF spec_count_read]) (auto intro: zero)
  have needed: "run_spec ?Z (case x of None \<Rightarrow> done_with True | Some h \<Rightarrow> on_kernel (settle_holder k host env h root eg)) (\<lambda>_. ?Z) ?I"
    for x root eg
    by (rule run_spec_option) (auto intro!: run_spec_done quiet grows_settle)
  have begun: "run_spec ?Z (on_kernel (start_holder k maps tmp eg)) (\<lambda>_. upto_now l0 1) ?I" for tmp eg
    by (rule run_spec_weaken [OF spec_count [OF few_start, of l0 0]]) (auto intro: upto_in_place)
  have start: "run_spec ?Z (if \<not> b then done_with ()
       else bind_run (on_kernel (start_holder k maps tmp eg)) (\<lambda>started. record_started k fx state wid m started))
      (\<lambda>_. ?I) ?I" if "wid = w_id world" for b tmp eg m wid
    using run_spec_bind [OF begun spec_record_count] by (auto simp: that intro!: run_spec_done zero)
  show ?thesis
    unfolding setup_workspace_def split_def
    by (rule run_spec_bind [OF own], rule run_spec_fact, rule run_spec_bind [OF quiet [OF temp]],
        rule run_spec_bind [OF quiet [OF grows_new_egress]], rule run_spec_bind [OF lock], rule run_spec_bind [OF read],
        rule run_spec_bind [OF needed], rule start)
qed

text \<open>What was read, counted in the steps that a holder has gone through.\<close>

lemma in_order_count:
  "in_order ps cs \<Longrightarrow> length (filter (\<lambda>p. p = (=) c) ps) \<le> length (filter ((=) c) cs)"
proof (induction ps cs rule: in_order.induct)
  case (3 p ps d cs)
  show ?case
  proof (cases "p d")
    case True
    with 3 have ih: "length (filter (\<lambda>p. p = (=) c) ps) \<le> length (filter ((=) c) cs)" by simp
    show ?thesis
    proof (cases "p = (=) c")
      case eq: True
      with True have "c = d" by simp
      with eq ih show ?thesis by simp
    qed (use ih in auto)
  next
    case False
    with 3 have "length (filter (\<lambda>p. p = (=) c) (p # ps)) \<le> length (filter ((=) c) cs)" by simp
    then show ?thesis by (rule order_trans) simp
  qed
qed simp_all

lemma holds_reads:
  assumes "holder_process k job log = (log', Inr ())"
  shows "\<exists>ext. log' = log @ ext \<and> 2 \<le> reads_of ext"
proof -
  let ?r = "(=) (Sys_read 1 1)"
  obtain ext where "log' = log @ ext" "in_order ([is_tell, ?r] @ enter_steps job @ [is_tell] @ [?r]) (succeeded ext)"
    using stage_reached [OF stage_holder assms] by blast
  moreover from this(2) have "2 \<le> reads_of ext"
    unfolding reads_of_def by (drule_tac in_order_count [where c = "Sys_read 1 1"]) (auto split: if_splits)
  ultimately show ?thesis by blast
qed

lemma sends_mono: "e1 @ e2 = pre @ post \<Longrightarrow> sends e1 \<le> 1 \<Longrightarrow> 2 \<le> sends pre \<Longrightarrow> \<exists>d. pre = e1 @ d \<and> e2 = d @ post \<and> d \<noteq> []"
  by (auto simp: append_eq_append_conv2)


subsection \<open>A caller and a holder\<close>

text \<open>A caller that starts a holder without outbound network.\<close>

definition meeting :: kern where
  "meeting =
     \<lparr>k_answer = (\<lambda>log c. case c of
        Sys_pipe2 _ \<Rightarrow> Inr 7 | Sys_socketpair _ _ \<Rightarrow> Inr 9 | Sys_fork \<Rightarrow> Inr 41 | Sys_pidfd_open _ \<Rightarrow> Inr 11
      | Sys_send _ _ _ \<Rightarrow> Inr 1 | Sys_write _ s \<Rightarrow> Inr (int (length s)) | Sys_open _ _ \<Rightarrow> Inr 12 | _ \<Rightarrow> Inr 0),
      k_bytes = (\<lambda>log c. line0),
      k_number = (\<lambda>log c. case c of
        Sys_read_value _ \<Rightarrow> if c \<in> fst ` set log then 0 else 42
      | Sys_pipe2 _ \<Rightarrow> 8 | _ \<Rightarrow> 10),
      k_meta = (\<lambda>log c. \<lparr>m_dev = 1, m_ino = 3, m_mode = 0, m_rdev = (0, 0)\<rparr>), k_patience = 5\<rparr>"

definition hosts0 :: host_paths where
  "hosts0 = \<lparr>hp_lstat = (\<lambda>_. Some ENOENT), hp_canonical = Inr, hp_is_dir = (\<lambda>_. True)\<rparr>"

definition pasta0 :: pasta_env where
  "pasta0 = \<lparr>pe_executable = (\<lambda>_. False), pe_chosen = Some [], pe_path = None, pe_absolute = Inr\<rparr>"

definition site0 :: site where
  "site0 = \<lparr>s_disk = disk1, s_log = [], s_holders = None\<rparr>"

lemma meeting_start: "start_time meeting 42 log = (log @ [(Sys_readfile (proc_path 42 ''/stat''), Inr 0)], Inr (Inr 7))"
  by (simp add: start_time_def sys_bytes_def meeting_def bind_run_def done_with_def Let_def steady_line)

lemma meeting_inode: "inode_of meeting p log = (log @ [(Sys_stat p, Inr 0)], Inr 3)"
  by (simp add: inode_of_def sys_meta_def meeting_def bind_run_def done_with_def Let_def)

lemmas run_defs = bind_run_def done_with_def stop_def sys_def sys_number_def sys_bytes_def quietly_def check_def ok_or_def Let_def look_def

lemma meeting_observe: "observe_started meeting 42 None log =
   (log @ [(Sys_readfile (proc_path 42 ''/stat''), Inr 0), (Sys_stat (proc_path 42 ''/ns/user''), Inr 0),
     (Sys_stat (proc_path 42 ''/ns/net''), Inr 0), (Sys_stat (proc_path 42 ''/ns/mnt''), Inr 0)],
    Inr \<lparr>h_pid = 42, h_start = 7, h_user = 3, h_net = 3, h_mnt = Some 3, h_egress = False, h_monitor = None\<rparr>)"
  by (simp add: observe_started_def observe_def bind_run_def done_with_def meeting_start meeting_inode)

lemma meeting_channels: "holder_channels meeting log =
   (log @ [(Sys_pipe2 [O_CLOEXEC], Inr 7), (Sys_socketpair flag.AF_UNIX [SOCK_STREAM, SOCK_CLOEXEC], Inr 9)], Inr (7, 8, 9, 10))"
  by (simp add: holder_channels_def above_stdio_def meeting_def run_defs)

lemma meeting_send: "send_byte meeting fd b log = (log @ [(Sys_send fd b [MSG_NOSIGNAL], Inr 1)], Inr ())"
  by (simp add: send_byte_def retry_def meeting_def run_defs eval_nat_numeral)

lemma meeting_pin: "pin_holder meeting p log = (log @ [(Sys_pidfd_open p, Inr 11)], Inr (Some 11))"
  by (simp add: pin_holder_def open_pidfd_def attempted_def meeting_def run_defs)

lemma meeting_next: "next_message meeting r log =
   (log @ [(Sys_read_value r, Inr 0)], Inr (if Sys_read_value r \<in> fst ` set log then 0 else 42))"
  by (simp add: next_message_def meeting_def run_defs)

definition sent0 :: syslog where
  "sent0 =
    [(Sys_pipe2 [O_CLOEXEC], Inr 7), (Sys_socketpair flag.AF_UNIX [SOCK_STREAM, SOCK_CLOEXEC], Inr 9),
     (Sys_block_signals, Inr 0), (Sys_fork, Inr 41), (Sys_restore_signals, Inr 0), (Sys_waitpid 41 [], Inr 0),
     (Sys_close 8, Inr 0), (Sys_close 9, Inr 0), (Sys_read_value 7, Inr 0), (Sys_pidfd_open 42, Inr 11),
     (Sys_send 10 (CHR ''p'') [MSG_NOSIGNAL], Inr 1), (Sys_read_value 7, Inr 0),
     (Sys_readfile (proc_path 42 ''/stat''), Inr 0), (Sys_stat (proc_path 42 ''/ns/user''), Inr 0),
     (Sys_stat (proc_path 42 ''/ns/net''), Inr 0), (Sys_stat (proc_path 42 ''/ns/mnt''), Inr 0)]"

definition started1 :: started where
  "started1 = \<lparr>st_holder = holder1, st_pid = 42, st_pidfd = Some 11, st_commit = Some 10\<rparr>"

definition saved1 :: syslog where
  "saved1 =
    [(Sys_open ''/a/new'' [O_RDWR, O_CREAT, O_CLOEXEC], Inr 12), (Sys_write 12 (''holders'' @ [newline]), Inr 8),
     (Sys_fsync ''/a/new'', Inr 0), (Sys_rename (holders_file ''/a''), Inr 0),
     (Sys_open ''/a'' [O_RDONLY, O_CLOEXEC], Inr 12), (Sys_fsync ''/a'', Inr 0)]"

lemma meeting_meet: "Sys_read_value 7 \<notin> fst ` set log \<Longrightarrow>
    meet_holder meeting False 7 10 log = (log @ drop 8 sent0, Inr started1)"
  by (simp add: meet_holder_def on_error_def meeting_next meeting_pin meeting_send meeting_observe bind_run_def done_with_def
      Let_def sent0_def started1_def holder1_def)

lemma meeting_begin: "Sys_read_value 7 \<notin> fst ` set log \<Longrightarrow>
    start_holder meeting maps temp None log = (log @ sent0, Inr started1)"
proof -
  assume fresh: "Sys_read_value 7 \<notin> fst ` set log"
  let ?l = "log @ take 8 sent0"
  have "start_holder meeting maps temp None log = meet_holder meeting False 7 10 ?l"
    by (simp add: start_holder_def bind_run_def meeting_channels sent0_def)
      (simp add: meeting_def run_defs retry_def eval_nat_numeral)
  moreover have "Sys_read_value 7 \<notin> fst ` set ?l" using fresh by (simp add: sent0_def)
  ultimately show ?thesis by (simp add: meeting_meet sent0_def)
qed

lemma kernel_step:
  "r (s_log st) = (log, Inr a) \<Longrightarrow> on_kernel r st = (st\<lparr>s_log := log\<rparr>, Inr a)"
  by (simp add: on_kernel_def)

lemma meeting_check:
  "check meeting (Sys_open p f) log = (log @ [(Sys_open p f, Inr 12)], Inr 12)"
  "check meeting (Sys_fsync p) log = (log @ [(Sys_fsync p, Inr 0)], Inr 0)"
  "check meeting (Sys_rename p) log = (log @ [(Sys_rename p, Inr 0)], Inr 0)"
  "check meeting (Sys_lock p) log = (log @ [(Sys_lock p, Inr 0)], Inr 0)"
  by (simp_all add: check_def meeting_def run_defs)

lemma meeting_close: "quietly meeting (Sys_close fd) log = (log @ [(Sys_close fd, Inr 0)], Inr ())"
  by (simp add: quietly_def meeting_def run_defs)

lemma meeting_save: "persist_holders meeting files0 ''/a'' m st =
    (st\<lparr>s_log := s_log st @ saved1, s_holders := Some m\<rparr>, Inr ())"
proof -
  have paths: "join_path ''/a'' ''new'' = ''/a/new''" by code_simp
  have wrote: "write_all meeting 12 (''holders'' @ [newline]) log =
      (log @ [(Sys_write 12 (''holders'' @ [newline]), Inr 8)], Inr ())" for log
    by (simp add: write_all_def meeting_def run_defs eval_nat_numeral)
  show ?thesis
    using wrote
    by (simp add: persist_holders_def bind_run_def kernel_step meeting_check files0_def paths done_with_def saved1_def)
qed

definition log1 :: syslog where
  "log1 = (Sys_lock (join_path ''/a'' ''registry.lock''), Inr 0) # (Sys_readfile (holders_file ''/a''), Inr 0) #
     sent0 @ saved1 @ [(Sys_send 10 (CHR ''c'') [MSG_NOSIGNAL], Inr 1), (Sys_close 10, Inr 0)]"

lemma meeting_setup:
  "\<exists>d. setup_workspace meeting (env0 CHR ''b'') hosts0 pasta0 files0 maps ''/a'' world1 site0 =
     (\<lparr>s_disk = d, s_log = log1, s_holders = Some [(''x'', holder1)]\<rparr>, Inr ())"
proof -
  let ?owned = "owned_temp_root (env0 CHR ''b'') ''/a'' world1 disk1"
  have "snd ?owned = Inr (world1, ''/h/.world/tmp/127.77.0.1'')" by code_simp
  then obtain d where owned: "?owned = (d, Inr (world1, ''/h/.world/tmp/127.77.0.1''))" by (metis prod.collapse)
  have disk: "on_disk (owned_temp_root (env0 CHR ''b'') ''/a'' world1) site0 =
      (\<lparr>s_disk = d, s_log = [], s_holders = None\<rparr>, Inr (world1, ''/h/.world/tmp/127.77.0.1''))"
    by (simp add: on_disk_def site0_def owned)
  have "case new_private_temp hosts0 ''/h/.world/tmp/127.77.0.1'' of Inr _ \<Rightarrow> True | Inl _ \<Rightarrow> False" by code_simp
  then obtain temp where temp: "new_private_temp hosts0 ''/h/.world/tmp/127.77.0.1'' = Inr temp"
    by (auto split: sum.splits)
  have wid: "w_id world1 = ''x''" by (simp add: world1_def)
  have read: "read_holders meeting ''/a'' st = (st\<lparr>s_log := s_log st @ [(Sys_readfile (holders_file ''/a''), Inr 0)]\<rparr>, Inr [])"
    if "s_holders st = None" for st
    using that by (simp add: read_holders_def bind_run_def on_kernel_def sys_def look_def done_with_def meeting_def Let_def)
  have eg: "new_egress meeting pasta0 root = done_with None" for root
    by (simp add: new_egress_def find_pasta_def pasta0_def)
  have commit1: "commit_started meeting started1 log =
      (log @ [(Sys_send 10 (CHR ''c'') [MSG_NOSIGNAL], Inr 1), (Sys_close 10, Inr 0)], Inr ())" for log
    by (simp add: commit_started_def started1_def attempted_def bind_run_def meeting_send meeting_close done_with_def ok_or_def)
  have held: "st_holder started1 = holder1" by (simp add: started1_def)
  have fresh: "Sys_read_value 7 \<notin> fst ` set [(Sys_lock p, Inr 0), (Sys_readfile q, Inr 0)]" for p q by simp
  have lock: "lock_state meeting ''/a'' st = (st\<lparr>s_log := s_log st @ [(Sys_lock (join_path ''/a'' ''registry.lock''), Inr 0)]\<rparr>, Inr ())" for st
    unfolding lock_state_def by (rule kernel_step) (simp add: bind_run_def meeting_check done_with_def)
  show ?thesis
    by (intro exI [of _ d])
      (simp add: setup_workspace_def bind_run_def disk kernel_step temp eg done_with_def lock read wid bt_get_def
        meeting_begin [OF fresh] record_started_def tried_def meeting_save commit1 log1_def held)
qed

lemma job0_reads: "reads_of (fst (holder_process welcoming job0 [])) = 2"
  by code_simp


section \<open>A command runs in the namespaces of its workspace\<close>

definition joining :: "exec_job \<Rightarrow> (scall \<Rightarrow> bool) list" where
  "joining x =
     [(=) (Sys_setns (x_user x) CLONE_NEWUSER), (=) (Sys_setns (x_mnt x) CLONE_NEWNS),
      (=) (Sys_setns (x_net x) CLONE_NEWNET)] @ (=) (Sys_chdir (x_cwd x)) # pid_steps @ capability_steps"

lemma stage_workspace_join: "stage no_exec (joining x) (workspace_join k x)"
proof -
  have resolv: "stage no_exec [] (case x_resolv x of None \<Rightarrow> done_with () | Some (path, own) \<Rightarrow> heal_resolv k path own)"
    unfolding heal_resolv_def bind_resolv_def bind_mount_def
    by (auto intro!: stage_plain split: option.split)
  show ?thesis
    unfolding joining_def workspace_join_def
  proof (rule stage_bind)
    show "stage no_exec [(=) (Sys_setns (x_user x) CLONE_NEWUSER), (=) (Sys_setns (x_mnt x) CLONE_NEWNS),
        (=) (Sys_setns (x_net x) CLONE_NEWNET)] (join_namespaces k (x_user x) (x_mnt x) (x_net x))"
      unfolding join_namespaces_def by (intro stage_hit stage_done) simp_all
    show "stage no_exec ((=) (Sys_chdir (x_cwd x)) # pid_steps @ capability_steps)
        (bind_run (check k (Sys_chdir (x_cwd x))) (\<lambda>_.
         bind_run (case x_resolv x of None \<Rightarrow> done_with () | Some (path, own) \<Rightarrow> heal_resolv k path own) (\<lambda>_.
         bind_run (close_extra_descriptors k) (\<lambda>_.
         bind_run (enter_pid_namespace k) (\<lambda>_. drop_capabilities k)))))"
      by (intro stage_hit stage_skip [OF resolv] stage_skip [OF stage_quiet [OF stage_close_extra]]
          stage_bind [OF stage_quiet [OF stage_pid]] stage_quiet [OF stage_drop_capabilities]) simp_all
  qed
qed


definition exec0 :: exec_job where
  "exec0 = \<lparr>x_user = 20, x_mnt = 21, x_net = 22, x_cwd = ''/w'', x_resolv = None\<rparr>"

definition joined0 :: "syslog \<times> (halt + unit)" where
  "joined0 = spawn_child granting spawn0 (workspace_join granting exec0) []"

lemma joined0_ends: "fst joined0 \<noteq> [] \<and> last (fst joined0) = (Sys_execve ''/bin/x'' [''x''] [], Inr 0)"
  by code_simp


end
