(* ===== verification/Spec2Isabelle.thy ===== *)
theory Spec2Isabelle
  imports Fs_Trips Fs_Io Op_Line Rng_Errno Tmp_Safe Claims Migration Proxy Temp_Built Seccomp Vm_Props
    Import_Props Ddmin Sandbox_Fds Workspace_Props
begin

text \<open>
  World runs commands in isolated workspaces: each has a loopback address of its own, a private
  temporary tree, and network access only through a proxy with a policy. This library models the
  parts of the repository that decide something, and proves what makes them correct.

  \<^bold>\<open>The parts and how they meet.\<close>

  \<^enum> The \<^emph>\<open>registry\<close> (\<^verbatim>\<open>crates/world-runtime/src/silo.rs\<close>) gives every workspace an address and a
    temporary root, and records both in a state directory. Several state directories share one
    home directory, so the roots are claimed by markers. The state directory itself is moved from
    an old default place to a new one. The directories of a temporary root are built by
    descriptors, because other processes may put links in the way.
  \<^enum> The \<^emph>\<open>path mapping\<close> (\<^verbatim>\<open>crates/world-tmp-path/src/lib.rs\<close>) rewrites the paths that a command
    uses below \<^verbatim>\<open>/tmp\<close>, \<^verbatim>\<open>/var/tmp\<close> and their \<^verbatim>\<open>/private\<close> names to its temporary root, and the
    paths that the kernel reports back.
  \<^enum> The \<^emph>\<open>proxy\<close> (\<^verbatim>\<open>policy.rs\<close>, \<^verbatim>\<open>proxy.rs\<close>) connects a command to the destinations of its policy.
  \<^enum> \<^emph>\<open>Virtual machines\<close> (\<^verbatim>\<open>apple_vm.rs\<close>) are workspaces too: their records share the registry file,
    each has a journal of its phase, and an external provider runs them. A directory of the host
    is imported into a machine as a stream (\<^verbatim>\<open>import_stream.rs\<close>).
  \<^enum> On Linux (\<^verbatim>\<open>linux.rs\<close>) the temporary root is mounted in namespaces that a \<^emph>\<open>holder\<close> process keeps
    for a workspace, with pasta as its outbound network; \<^verbatim>\<open>setup\<close> starts and records it, \<^verbatim>\<open>teardown\<close> stops
    it, and \<^verbatim>\<open>exec\<close> joins its namespaces. \<^verbatim>\<open>world network exec\<close> runs a command in a \<^emph>\<open>sandbox\<close>: fresh
    namespaces, a read-only view, Landlock, no capabilities and a socket filter, with listeners of
    the proxy as its only network. Both run their commands through \<^verbatim>\<open>spawn\<close>.
  \<^enum> The \<^emph>\<open>filesystem model\<close> (\<^verbatim>\<open>crates/world-fsmodel/src/lib.rs\<close>) is what the fuzz driver compares
    a real workspace with: an in-memory filesystem with mounts, on which the host names of the
    temporary directories are shadowed by the root of the workspace. The driver generates
    operations with \<^verbatim>\<open>Rng\<close>, writes them as lines of text and compares errnos by
    \<^verbatim>\<open>errno_equiv\<close>. A file of operations that diverges is moved to other run ids and minimized
    (\<^verbatim>\<open>fuzz_driver/main.rs\<close>, \<^verbatim>\<open>ddmin.rs\<close>).

  \<^bold>\<open>Which theory models what.\<close>

  \<^item> Prelude: bytes, results, the slice functions of the standard library, \<^verbatim>\<open>BTreeMap\<close> with the
    interface \<open>btree_map\<close>. \<open>Abort\<close> stands for an execution that does not return: a panic, or a
    loop that does not end. Runs: functions that read and write a state and may stop with an
    error at any of their effects, and a logic of pre- and postconditions for them.
  \<^item> Fs_Model, Fs_Resolve, Fs_Build, Fs_Ops: \<^verbatim>\<open>Model\<close> as a record over a list of nodes, its path
    resolution, its constructors and fixtures, and one definition for every \<^verbatim>\<open>do_*\<close> function,
    composed by \<open>apply_op\<close>. The names are those of the source.
  \<^item> Op_Line, Rng_Errno: \<^verbatim>\<open>Op::to_line\<close>, \<^verbatim>\<open>Op::from_line\<close>, the escapes, \<^verbatim>\<open>tree_json\<close>; \<^verbatim>\<open>Rng\<close> on
    64-bit words and \<^verbatim>\<open>errno_equiv\<close>.
  \<^item> Tmp_Path: every function of the path mapping; the two system calls \<^verbatim>\<open>kernel_full_path\<close> and
    \<^verbatim>\<open>real_base\<close> are parameters.
  \<^item> Registry: \<^verbatim>\<open>create\<close>, \<^verbatim>\<open>get\<close>, \<^verbatim>\<open>owned_temp_root\<close> and what they call, on a disk with all state
    directories and all temporary roots. Claims: \<^verbatim>\<open>claim_root\<close> of several processes at once, one
    system call at a time, as a step relation. Migration: \<^verbatim>\<open>default_state_dir_in\<close>.
  \<^item> Policy, Proxy: \<^verbatim>\<open>Policy::validate\<close>, \<^verbatim>\<open>canonical_host\<close>, \<^verbatim>\<open>authority\<close>, \<^verbatim>\<open>public_ip\<close>,
    \<^verbatim>\<open>Proxy::prepare\<close>, \<^verbatim>\<open>Service::handle\<close>, \<^verbatim>\<open>Service::forward\<close> and \<^verbatim>\<open>strip_hop_headers\<close>, with the
    address parser and printer of the standard library.
  \<^item> Temp_Tree: \<^verbatim>\<open>temp_root_in\<close>, \<^verbatim>\<open>step\<close>, \<^verbatim>\<open>require_private\<close> and \<^verbatim>\<open>chmod_dir\<close> on a store of inodes that
    others change between the system calls.
  \<^item> Vm_Cycle: the operations of \<^verbatim>\<open>apple_vm.rs\<close> on the registry and the journals; every command to
    the provider is logged with its answer and with the journal on disk. Vm_Steps: an abstract
    machine of such changes and commands, each with what must be known when it happens.
  \<^item> Import_Stream: \<^verbatim>\<open>snapshot\<close> and \<^verbatim>\<open>walk\<close>, over inodes that change with every system call.
  \<^item> Seccomp: \<^verbatim>\<open>seccomp::build\<close> and the evaluator of its tests.
  \<^item> Syscalls: runs over a log of system calls. A kernel (\<open>kern\<close>) answers every call as it likes, from the
    whole log; a run may stop with an errno, exit, become another program, refuse, or get stuck.
    \<open>stage\<close> and \<open>before\<close> are the logic: which calls a run makes, and which have succeeded before.
  \<^item> Sandbox, Spawn: the child of \<^verbatim>\<open>world network exec\<close> from the fork to the program, every call of it:
    \<^verbatim>\<open>enter_new_namespaces\<close>, \<^verbatim>\<open>enter_read_only_view\<close>, \<^verbatim>\<open>private_dev\<close>, \<^verbatim>\<open>close_extra_descriptors\<close>, the \<^verbatim>\<open>landlock\<close>
    module, \<^verbatim>\<open>drop_capabilities\<close>, \<^verbatim>\<open>enter_pid_namespace\<close>, and the search of \<^verbatim>\<open>spawn\<close> for the program.
  \<^item> Workspace_Net, Holder: \<^verbatim>\<open>PrivateTemp\<close>, \<^verbatim>\<open>Egress\<close> and the monitor of pasta; \<^verbatim>\<open>holder_process\<close>, \<^verbatim>\<open>start_holder\<close>,
    and \<^verbatim>\<open>Holder\<close> with what verifies, stops and reaps it.
  \<^item> Workspace_Setup: \<^verbatim>\<open>setup\<close>, \<^verbatim>\<open>teardown\<close> and \<^verbatim>\<open>linux_exec\<close> of \<^verbatim>\<open>silo.rs\<close> on a \<open>site\<close>: the disk of the
    registries, the log of the calls, and the recorded holders.
  \<^item> Ops_File, Ddmin: \<^verbatim>\<open>render_ops_file\<close>, \<^verbatim>\<open>parse_ops_file\<close>, \<^verbatim>\<open>retarget_run_id\<close> and \<^verbatim>\<open>minimize\<close>; what
    a replay shows is a function of the number of the attempt and of the file.

  \<^bold>\<open>What is shown.\<close>

  \<^item> Chains, Fs_Inv, Fs_Preserve, Fs_Safe, Fs_New, Fs_Props: fresh models satisfy the invariant
    \<open>wf\<close>, every operation keeps it, never panics, always returns, and changes nothing when it
    fails; runs of operations go through the interface \<open>step_invariant\<close>, interpreted for three
    classes of runs. A covered mountpoint stays empty. \<^verbatim>\<open>getcwd\<close> and \<^verbatim>\<open>realpath\<close> return as long as
    the virtual parents end, which a rename can break (\<open>Fs_Io.getcwd_diverges\<close>).
  \<^item> Fs_Frame, Fs_Trips, Fs_Io: lookups in a changed model are simulated by those in the old one;
    so \<^verbatim>\<open>mkdir\<close> is seen by \<^verbatim>\<open>stat\<close>, \<^verbatim>\<open>symlink\<close> by \<^verbatim>\<open>readlink\<close>, \<^verbatim>\<open>unlink\<close> and \<^verbatim>\<open>rmdir\<close> by \<^verbatim>\<open>lstat\<close>, and
    \<^verbatim>\<open>write\<close> by \<^verbatim>\<open>read\<close> through another descriptor.
  \<^item> Op_Line, Rng_Errno: \<^verbatim>\<open>from_line\<close> takes back what \<^verbatim>\<open>to_line\<close> writes, through the interface
    \<open>token_codec\<close> with an interpretation for every kind of token; \<^verbatim>\<open>errno_equiv\<close> is an
    equivalence relation.
  \<^item> Tmp_Map, Tmp_Safe: on normalized paths the mapping is the table of host roots and unmapping
    is its inverse; on all paths it stays out of the host's directories, within its buffer and
    within a bound on the calls of the kernel; the in-place rewriting of buffers is refined to
    functions on paths.
  \<^item> Registry_Inv, Registry_Props: on all reachable disks workspaces have different roots and
    addresses, registries do not touch each other, entries are found again, and a failed
    operation leaves what was there. Claims: of racing claimants at most one wins, and one does
    when none fails. Migration: cut-off runs resume, nothing is lost, files move together.
  \<^item> Temp_Tree, Temp_Built: no link is ever followed, whatever the others do; left alone the
    function builds the tree that the registry takes it to build.
  \<^item> Vm_Steps, Vm_Props: every operation is a run of the abstract machine, wherever it ends; so by
    the interface \<open>kept_by_steps\<close>, interpreted for each invariant, every command to the provider
    was right when it was given, ready machines are verified, generations grow, deletions are
    final and handles of deleted machines are refused. Setting up succeeds with a provider that
    works.
  \<^item> Import_Props: under interference the stream still consists of complete items within the
    limits, parents first; of a source left alone it holds exactly the entries.
  \<^item> Seccomp: the filter decides as its documentation says, for every call and argument.
  \<^item> Sandbox_Props, Sandbox_Mounts, Sandbox_Fds: for every kernel, so with any call failing, no program
    is executed before all of the confinement succeeded, nothing becomes writable but the two
    directories of the run, and all capabilities are dropped; listings of descriptors are read back.
    Spawn_Props: a child becomes the program or reports an errno, the one of \<^verbatim>\<open>execvp\<close>.
  \<^item> Holder_Props, Holder_Stop, Holder_Life: paths fit their buffers and start times are read back from any
    command name; stopping a holder never hits a reused PID, where the kernel keeps to what is
    documented of PIDs; a holder leaves the host's namespaces only when it is pinned, and holds only
    after all its steps. Workspace_Records, Workspace_Kept, Workspace_Props: a live holder is never
    orphaned; a holder that holds is recorded, also when its caller dies; a command runs only in the
    namespaces of its workspace.
  \<^item> Ops_File, Ddmin: files are read back; replacing the run id in the text is replacing it in the
    operands, but for escapes that end in the digit f; a minimized file is a part of the original
    that showed the same divergence, and minimal when replays are deterministic and monotone.
  \<^item> Proxy: a connection is only made for a request that carries the credential, to a destination
    that the policy grants; the credential is never relayed.

  \<^bold>\<open>Bounds and fuel.\<close>

  \<^item> \<open>follow_symlink\<close> has the fuel \<open>link_fuel\<close>, one more than \<^verbatim>\<open>MAXSYMLINKS\<close>; every link raises the
    count that the code checks, so it is never used up on a well-formed model (Fs_Inv).
  \<^item> The loops that climb parent links have one step per node; links that end do so within that
    number (Chains), and links that do not end never do, so the fuel is exact.
  \<^item> Descriptors are 32-bit words and wrap as in the source. Lengths and positions are natural
    numbers: no \<^verbatim>\<open>Vec\<close> reaches \<^verbatim>\<open>usize::MAX\<close>. \<^verbatim>\<open>PATH_MAX\<close>, \<^verbatim>\<open>NAME_MAX\<close> and the size of a socket
    address are the source's numbers.
  \<^item> \<open>walk_dir\<close> recurses on the number of directory levels that are left, \<open>129 - depth\<close>, which the
    source bounds itself. The twenty probes of \<^verbatim>\<open>setup\<close> are the argument of \<open>setup_wait\<close>. The loops
    of the minimizer end by the length of the file and the chunk divisor.
  \<^item> Loops that a kernel could keep going for ever (interrupted calls, waiting for a child, listing
    descriptors) take \<open>k_patience\<close> rounds and then end in \<open>Stuck\<close>, which is no result: what is shown of
    the sandbox and the holders is about what happened before a point of the log, whatever the
    patience. The loops with a bound of their own (250 waits for pasta, ten digits, the bytes of a
    listing) have that bound.
  \<^item> \<^verbatim>\<open>map_with\<close> loops once per \<^verbatim>\<open>..\<close> component, counted before the loop as in the source.

  \<^bold>\<open>Assumptions on what is not in the repository.\<close>

  \<^item> A registry file is what the JSON parser makes of it, and the lock of a registry is held from
    the read to the last write. Random identities are not those of another registry. What the
    operating system answers, the failure of each system call included, is a parameter.
  \<^item> The operations on one virtual machine exclude each other by its lock file, so they are taken
    one after the other; the random owner of a new machine is of no other record or journal
    (\<open>fresh_owner\<close>). Handles come from \<^verbatim>\<open>create\<close> or \<^verbatim>\<open>get\<close>, which validate them (\<open>handle_ok\<close>).
  \<^item> Names in a directory are not empty and have no slash (\<open>sane_names\<close>). Other processes do
    not take away an inode that is open, change its owner or make it another kind of file (\<open>fair\<close>).
  \<^item> A descriptor of a process keeps naming that process, and a PID is not reused before its process was
    reaped (\<open>documented\<close>); no more bytes are read from a socket than were sent into it.
  \<^item> The header map of the HTTP library satisfies \<open>header_laws\<close>; name resolution, connections and
    base64 are arbitrary functions.

  \<^bold>\<open>Not modelled.\<close>

  \<^item> \<^verbatim>\<open>forward.rs\<close>, the command line, the stress probe, and the generator and the executor of the fuzz
    driver: they drive processes and sockets of a live system. Of \<^verbatim>\<open>linux.rs\<close>, \<^verbatim>\<open>RawChild\<close>, the parent's
    side of \<^verbatim>\<open>spawn\<close> and of \<^verbatim>\<open>run\<close>, and \<^verbatim>\<open>receive_listeners\<close>: they supervise a child by an async runtime. Of
    \<^verbatim>\<open>exec\<close> in a virtual machine the waiting is modelled by its outcomes. \<^verbatim>\<open>vendor/silo-bind\<close> is a copy
    of another project.
\<close>

end
